(* ===== verification/Prelude.thy ===== *)
theory Prelude
  imports Main "HOL-Library.Word"
begin

text \<open>
  Shared vocabulary of the development: the C integer types at their widths, the return
  codes of the code base, byte strings, and the generic lemmas on bit strings and lists
  that the component theories use.
\<close>

unbundle bit_operations_syntax

section \<open>C types\<close>

type_synonym u8 = "8 word"      \<comment> \<open>\<open>u_char\<close>\<close>
type_synonym u16 = "16 word"    \<comment> \<open>\<open>uint16_t\<close>, \<open>in_port_t\<close>\<close>
type_synonym u32 = "32 word"    \<comment> \<open>\<open>uint32_t\<close>, \<open>in_addr_t\<close>\<close>
type_synonym u64 = "64 word"    \<comment> \<open>\<open>ngx_uint_t\<close>, \<open>size_t\<close> on a 64-bit target\<close>
type_synonym bytes = "u8 list"  \<comment> \<open>the bytes of an \<open>ngx_str_t\<close>\<close>

text \<open>The return codes of \<^verbatim>\<open>src/core/ngx_core.h\<close> that the modelled functions use.\<close>

datatype ngx_rc = NGX_OK | NGX_ERROR | NGX_AGAIN | NGX_BUSY | NGX_DONE | NGX_DECLINED

text \<open>The bytes of a literal, for examples and tables of strings.\<close>

definition str :: "string \<Rightarrow> bytes" where
  "str s = map (\<lambda>c. of_char c) s"

lemma u8_less: "unat (c :: u8) < 256"
  using unsigned_less [of c] by simp

text \<open>A fact about bytes can be checked on all of them.\<close>

lemma u8_check:
  assumes "list_all (\<lambda>n. P (word_of_nat n :: u8)) [0..<256]"
  shows "P c"
proof -
  have "unat c \<in> set [0..<256]"
    using u8_less [of c] by simp
  then have "P (word_of_nat (unat c))"
    using assms by (simp only: list_all_iff)
  then show ?thesis by simp
qed

text \<open>\<open>ngx_tolower\<close> and \<open>ngx_toupper\<close> of \<^verbatim>\<open>src/core/ngx_string.h\<close>.\<close>

definition ngx_tolower :: "u8 \<Rightarrow> u8" where
  "ngx_tolower c = (if c \<ge> 0x41 \<and> c \<le> 0x5a then c OR 0x20 else c)"

definition ngx_toupper :: "u8 \<Rightarrow> u8" where
  "ngx_toupper c = (if c \<ge> 0x61 \<and> c \<le> 0x7a then c AND NOT 0x20 else c)"

section \<open>Bit strings, most significant bit first\<close>

definition wbits :: "nat \<Rightarrow> 'a::semiring_bit_operations \<Rightarrow> bool list" where
  "wbits n w = map (bit w) (rev [0..<n])"

lemma length_wbits [simp]: "length (wbits n w) = n"
  by (simp add: wbits_def)

lemma wbits_0 [simp]: "wbits 0 w = []"
  by (simp add: wbits_def)

lemma wbits_Suc: "wbits (Suc n) w = bit w n # wbits n w"
  by (simp add: wbits_def)

lemma nth_wbits: "i < n \<Longrightarrow> wbits n w ! i = bit w (n - Suc i)"
  by (simp add: wbits_def rev_nth)

lemma wbits_cong: "(\<And>i. i < n \<Longrightarrow> bit v i = bit w i) \<Longrightarrow> wbits n v = wbits n w"
  by (simp add: wbits_def)

lemma wbits_eq_iff: "wbits n v = wbits n w \<longleftrightarrow> (\<forall>i < n. bit v i = bit w i)"
  by (auto simp: wbits_def)

lemma wbits_zero: "wbits n 0 = replicate n False"
  by (rule nth_equalityI) (simp_all add: nth_wbits)

lemma wbits_add: "wbits (m + n) w = wbits m (drop_bit n w) @ wbits n w"
proof (rule nth_equalityI)
  fix i assume i: "i < length (wbits (m + n) w)"
  show "wbits (m + n) w ! i = (wbits m (drop_bit n w) @ wbits n w) ! i"
  proof (cases "i < m")
    case True
    then have "m + n - Suc i = n + (m - Suc i)" by simp
    with True show ?thesis
      by (simp only: nth_append nth_wbits bit_drop_bit_eq length_wbits if_True o_apply trans_less_add1)
  next
    case False
    then have "m + n - Suc i = n - Suc (i - m)" by simp
    with False i show ?thesis
      by (simp add: nth_append nth_wbits)
  qed
qed simp

lemma wbits_take_bit: "wbits n (take_bit n w) = wbits n w"
  by (rule wbits_cong) (simp add: bit_take_bit_iff)

lemma wbits_unsigned: "n \<le> LENGTH('a) \<Longrightarrow> wbits n (unat (w :: 'a::len word)) = wbits n w"
  by (rule wbits_cong) (simp add: bit_unsigned_iff)

lemma wbits_nat_add:
  fixes v w :: nat
  assumes "w < 2 ^ b"
  shows "wbits (a + b) (v * 2 ^ b + w) = wbits a v @ wbits b w"
proof -
  have "drop_bit b (v * 2 ^ b + w) = v" and "take_bit b (v * 2 ^ b + w) = w"
    using assms by (simp_all add: drop_bit_eq_div take_bit_eq_mod)
  then show ?thesis
    by (metis wbits_add wbits_take_bit)
qed

lemma wbits_nat_inj: "wbits n v = wbits n w \<Longrightarrow> v < 2 ^ n \<Longrightarrow> w < 2 ^ n \<Longrightarrow> v = w" for v w :: nat
  by (metis bit_eqI bit_take_bit_iff take_bit_nat_eq_self wbits_eq_iff)

lemma wbits_mask: "wbits n (mask n :: nat) = replicate n True"
  by (rule nth_equalityI) (simp_all add: nth_wbits bit_mask_iff possible_bit_def)

lemma wbits_nat_ones_iff:
  "v < 2 ^ n \<Longrightarrow> wbits n v = replicate n True \<longleftrightarrow> v = 2 ^ n - 1" for v :: nat
  by (metis diff_less less_numeral_extra(1) mask_eq_exp_minus_1 wbits_mask wbits_nat_inj zero_less_numeral zero_less_power)

text \<open>The bits of a byte string.\<close>

definition bits_of :: "bytes \<Rightarrow> bool list" where
  "bits_of bs = concat (map (wbits 8) bs)"

lemma bits_of_Nil [simp]: "bits_of [] = []"
  by (simp add: bits_of_def)

lemma bits_of_Cons [simp]: "bits_of (b # bs) = wbits 8 b @ bits_of bs"
  by (simp add: bits_of_def)

lemma bits_of_append [simp]: "bits_of (as @ bs) = bits_of as @ bits_of bs"
  by (simp add: bits_of_def)

lemma length_bits_of [simp]: "length (bits_of bs) = 8 * length bs"
  by (induction bs) simp_all

section \<open>Words as numbers\<close>

lemma unat_push_bit:
  fixes w :: "'a::len word"
  assumes "unat w * 2 ^ s < 2 ^ LENGTH('a)"
  shows "unat (push_bit s w) = unat w * 2 ^ s"
  using assms unfolding unsigned_push_bit_eq by (simp add: push_bit_eq_mult take_bit_nat_eq_self)

lemma unat_mask: "k \<le> LENGTH('a) \<Longrightarrow> unat (mask k :: 'a::len word) = 2 ^ k - 1"
  by (metis mask_eq_exp_minus_1 min.absorb2 of_nat_mask_eq take_bit_of_mask unsigned_of_nat)

lemma unat_add_no_wrap:
  fixes v w :: "'a::len word"
  shows "unat v + unat w < 2 ^ LENGTH('a) \<Longrightarrow> unat (v + w) = unat v + unat w"
  by (simp add: unat_word_ariths)

lemma nibble_less: "unat (drop_bit 4 (ch :: u8)) < 16" "unat (ch AND 15 :: u8) < 16"
proof -
  show "unat (drop_bit 4 ch) < 16"
    using u8_less [of ch] by (simp add: drop_bit_eq_div unat_div)
  have "unat (ch AND 15) \<le> unat (15 :: u8)"
    by (rule word_and_le1 [THEN word_le_nat_alt [THEN iffD1]])
  then show "unat (ch AND 15 :: u8) < 16" by simp
qed

lemma nibble_val: "unat (drop_bit 4 (ch :: u8)) * 16 + unat (ch AND 15) = unat ch"
proof -
  have "ch AND 15 = take_bit 4 ch"
    by (rule bit_eqI) (simp add: bit_simps take_bit_eq_mask mask_eq_exp_minus_1)
  then have "unat (ch AND 15) = unat ch mod 16"
    by (simp add: take_bit_eq_mod unat_mod)
  moreover have "unat (drop_bit 4 ch) = unat ch div 16"
    by (simp add: drop_bit_eq_div unat_div)
  ultimately show ?thesis by simp
qed

text \<open>Signed 64-bit arithmetic (\<open>ngx_int_t\<close>, \<open>time_t\<close>, \<open>off_t\<close>), wrapping around.\<close>

definition s64 :: "int \<Rightarrow> int" where
  "s64 v = signed_take_bit 63 v"

definition NGX_MAX_INT_T_VALUE :: int where
  "NGX_MAX_INT_T_VALUE = 9223372036854775807"

named_theorems c_int "signed arithmetic that stays in range"

lemma s64_id [c_int]: "- 9223372036854775808 \<le> v \<Longrightarrow> v \<le> 9223372036854775807 \<Longrightarrow> s64 v = v"
  unfolding s64_def by (rule signed_take_bit_int_eq_self) simp_all

definition all_ones :: "bool list \<Rightarrow> bool" where
  "all_ones u \<longleftrightarrow> (\<forall>b \<in> set u. b)"

lemma all_ones_conv: "all_ones u \<longleftrightarrow> u = replicate (length u) True"
  by (induction u) (auto simp: all_ones_def)

lemma all_onesE: "all_ones u \<Longrightarrow> (\<And>k. u = replicate k True \<Longrightarrow> length u = k \<Longrightarrow> P) \<Longrightarrow> P"
  using all_ones_conv by blast

lemma all_ones_replicate [simp]: "all_ones (replicate k True)"
  by (simp add: all_ones_def)

section \<open>Lists\<close>

lemma list_all_nth: "list_all P xs \<longleftrightarrow> (\<forall>i < length xs. P (xs ! i))"
  by (simp add: list_all_length)

text \<open>Evaluation of intervals with numeral bounds.\<close>

lemma upt_zero_numeral: "[0..<numeral k] = 0 # [Suc 0..<numeral k]"
  by (simp add: upt_conv_Cons)

lemma upt_Suc_zero_numeral: "[Suc 0..<numeral k] = (if 1 < (numeral k :: nat) then 1 # [2..<numeral k] else [])"
  by (subst upt_rec) (simp add: numeral_2_eq_2)

lemmas upt_eval = upt_zero_numeral upt_Suc_zero_numeral upt_rec_numeral

lemma append_replicate_eq_split:
  "as @ bs = replicate n x \<longleftrightarrow> as = replicate (length as) x \<and> bs = replicate (length bs) x \<and> length as + length bs = n"
  by (metis append_eq_append_conv length_append length_replicate replicate_add)

section \<open>Counting in lists\<close>

definition number :: "('a \<Rightarrow> bool) \<Rightarrow> 'a list \<Rightarrow> nat" where
  "number P xs = length (filter P xs)"

lemma number_update:
  "k < length xs \<Longrightarrow> number P (xs[k := x]) = number P xs - (if P (xs ! k) then 1 else 0) + (if P x then 1 else 0) \<and>
     (P (xs ! k) \<longrightarrow> 0 < number P xs)"
proof (induction xs arbitrary: k)
  case (Cons j xs)
  then show ?case
    using Cons.IH [of "k - 1"] by (cases k) (auto simp: number_def)
qed simp

lemma number_pos: "0 < number P xs \<longleftrightarrow> (\<exists>k < length xs. P (xs ! k))"
  by (metis (no_types, lifting) number_def length_greater_0_conv filter_empty_conv in_set_conv_nth)

lemma number_le: "number P xs \<le> length xs"
  by (simp add: number_def)

lemma number_disjoint: "(\<And>x. \<not> (P x \<and> Q x)) \<Longrightarrow> number P xs + number Q xs \<le> length xs"
  by (induction xs) (auto simp: number_def)

end
