(* ===== verification/HuffTables.thy ===== *)
theory HuffTables
  imports Prelude
begin

text \<open>
  The three static tables of the HTTP/2 header compression (HPACK) Huffman code:
  the encoder's \<open>ngx_http_v2_huff_encode_table\<close> and its lower-casing twin
  \<open>ngx_http_v2_huff_encode_table_lc\<close> (\<^verbatim>\<open>src/http/v2/ngx_http_v2_huff_encode.c\<close>), and the
  decoder's nibble-driven automaton \<open>ngx_http_v2_huff_decode_codes\<close>
  (\<^verbatim>\<open>src/http/v2/ngx_http_v2_huff_decode.c\<close>), entry by entry as the C sources list them.
  The automaton has 256 states of 16 transitions; it is given in 32 groups of eight states.
\<close>

section \<open>Entries\<close>

record ngx_http_v2_huff_encode_code_t =
  code :: u32
  code_len :: u32

record ngx_http_v2_huff_decode_code_t =
  next_st :: u8
  emit :: u8
  sym :: u8
  ending :: u8

text \<open>Short constructors, so that the tables read like the C initialisers.\<close>

definition EC :: "u32 \<Rightarrow> u32 \<Rightarrow> ngx_http_v2_huff_encode_code_t" where
  "EC c l = \<lparr>code = c, code_len = l\<rparr>"

definition DC :: "u8 \<Rightarrow> u8 \<Rightarrow> u8 \<Rightarrow> u8 \<Rightarrow> ngx_http_v2_huff_decode_code_t" where
  "DC n e s d = \<lparr>next_st = n, emit = e, sym = s, ending = d\<rparr>"

lemma EC_sel [simp]: "code (EC c l) = c" "code_len (EC c l) = l"
  by (simp_all add: EC_def)

lemma DC_sel [simp]:
  "next_st (DC n e s d) = n" "emit (DC n e s d) = e" "sym (DC n e s d) = s" "ending (DC n e s d) = d"
  by (simp_all add: DC_def)

section \<open>The encoder's tables\<close>

definition ngx_http_v2_huff_encode_table :: "ngx_http_v2_huff_encode_code_t list" where
  "ngx_http_v2_huff_encode_table = [
    EC 0x00001ff8 13, EC 0x007fffd8 23, EC 0x0fffffe2 28, EC 0x0fffffe3 28,
    EC 0x0fffffe4 28, EC 0x0fffffe5 28, EC 0x0fffffe6 28, EC 0x0fffffe7 28,
    EC 0x0fffffe8 28, EC 0x00ffffea 24, EC 0x3ffffffc 30, EC 0x0fffffe9 28,
    EC 0x0fffffea 28, EC 0x3ffffffd 30, EC 0x0fffffeb 28, EC 0x0fffffec 28,
    EC 0x0fffffed 28, EC 0x0fffffee 28, EC 0x0fffffef 28, EC 0x0ffffff0 28,
    EC 0x0ffffff1 28, EC 0x0ffffff2 28, EC 0x3ffffffe 30, EC 0x0ffffff3 28,
    EC 0x0ffffff4 28, EC 0x0ffffff5 28, EC 0x0ffffff6 28, EC 0x0ffffff7 28,
    EC 0x0ffffff8 28, EC 0x0ffffff9 28, EC 0x0ffffffa 28, EC 0x0ffffffb 28,
    EC 0x00000014 6, EC 0x000003f8 10, EC 0x000003f9 10, EC 0x00000ffa 12,
    EC 0x00001ff9 13, EC 0x00000015 6, EC 0x000000f8 8, EC 0x000007fa 11,
    EC 0x000003fa 10, EC 0x000003fb 10, EC 0x000000f9 8, EC 0x000007fb 11,
    EC 0x000000fa 8, EC 0x00000016 6, EC 0x00000017 6, EC 0x00000018 6,
    EC 0x00000000 5, EC 0x00000001 5, EC 0x00000002 5, EC 0x00000019 6,
    EC 0x0000001a 6, EC 0x0000001b 6, EC 0x0000001c 6, EC 0x0000001d 6,
    EC 0x0000001e 6, EC 0x0000001f 6, EC 0x0000005c 7, EC 0x000000fb 8,
    EC 0x00007ffc 15, EC 0x00000020 6, EC 0x00000ffb 12, EC 0x000003fc 10,
    EC 0x00001ffa 13, EC 0x00000021 6, EC 0x0000005d 7, EC 0x0000005e 7,
    EC 0x0000005f 7, EC 0x00000060 7, EC 0x00000061 7, EC 0x00000062 7,
    EC 0x00000063 7, EC 0x00000064 7, EC 0x00000065 7, EC 0x00000066 7,
    EC 0x00000067 7, EC 0x00000068 7, EC 0x00000069 7, EC 0x0000006a 7,
    EC 0x0000006b 7, EC 0x0000006c 7, EC 0x0000006d 7, EC 0x0000006e 7,
    EC 0x0000006f 7, EC 0x00000070 7, EC 0x00000071 7, EC 0x00000072 7,
    EC 0x000000fc 8, EC 0x00000073 7, EC 0x000000fd 8, EC 0x00001ffb 13,
    EC 0x0007fff0 19, EC 0x00001ffc 13, EC 0x00003ffc 14, EC 0x00000022 6,
    EC 0x00007ffd 15, EC 0x00000003 5, EC 0x00000023 6, EC 0x00000004 5,
    EC 0x00000024 6, EC 0x00000005 5, EC 0x00000025 6, EC 0x00000026 6,
    EC 0x00000027 6, EC 0x00000006 5, EC 0x00000074 7, EC 0x00000075 7,
    EC 0x00000028 6, EC 0x00000029 6, EC 0x0000002a 6, EC 0x00000007 5,
    EC 0x0000002b 6, EC 0x00000076 7, EC 0x0000002c 6, EC 0x00000008 5,
    EC 0x00000009 5, EC 0x0000002d 6, EC 0x00000077 7, EC 0x00000078 7,
    EC 0x00000079 7, EC 0x0000007a 7, EC 0x0000007b 7, EC 0x00007ffe 15,
    EC 0x000007fc 11, EC 0x00003ffd 14, EC 0x00001ffd 13, EC 0x0ffffffc 28,
    EC 0x000fffe6 20, EC 0x003fffd2 22, EC 0x000fffe7 20, EC 0x000fffe8 20,
    EC 0x003fffd3 22, EC 0x003fffd4 22, EC 0x003fffd5 22, EC 0x007fffd9 23,
    EC 0x003fffd6 22, EC 0x007fffda 23, EC 0x007fffdb 23, EC 0x007fffdc 23,
    EC 0x007fffdd 23, EC 0x007fffde 23, EC 0x00ffffeb 24, EC 0x007fffdf 23,
    EC 0x00ffffec 24, EC 0x00ffffed 24, EC 0x003fffd7 22, EC 0x007fffe0 23,
    EC 0x00ffffee 24, EC 0x007fffe1 23, EC 0x007fffe2 23, EC 0x007fffe3 23,
    EC 0x007fffe4 23, EC 0x001fffdc 21, EC 0x003fffd8 22, EC 0x007fffe5 23,
    EC 0x003fffd9 22, EC 0x007fffe6 23, EC 0x007fffe7 23, EC 0x00ffffef 24,
    EC 0x003fffda 22, EC 0x001fffdd 21, EC 0x000fffe9 20, EC 0x003fffdb 22,
    EC 0x003fffdc 22, EC 0x007fffe8 23, EC 0x007fffe9 23, EC 0x001fffde 21,
    EC 0x007fffea 23, EC 0x003fffdd 22, EC 0x003fffde 22, EC 0x00fffff0 24,
    EC 0x001fffdf 21, EC 0x003fffdf 22, EC 0x007fffeb 23, EC 0x007fffec 23,
    EC 0x001fffe0 21, EC 0x001fffe1 21, EC 0x003fffe0 22, EC 0x001fffe2 21,
    EC 0x007fffed 23, EC 0x003fffe1 22, EC 0x007fffee 23, EC 0x007fffef 23,
    EC 0x000fffea 20, EC 0x003fffe2 22, EC 0x003fffe3 22, EC 0x003fffe4 22,
    EC 0x007ffff0 23, EC 0x003fffe5 22, EC 0x003fffe6 22, EC 0x007ffff1 23,
    EC 0x03ffffe0 26, EC 0x03ffffe1 26, EC 0x000fffeb 20, EC 0x0007fff1 19,
    EC 0x003fffe7 22, EC 0x007ffff2 23, EC 0x003fffe8 22, EC 0x01ffffec 25,
    EC 0x03ffffe2 26, EC 0x03ffffe3 26, EC 0x03ffffe4 26, EC 0x07ffffde 27,
    EC 0x07ffffdf 27, EC 0x03ffffe5 26, EC 0x00fffff1 24, EC 0x01ffffed 25,
    EC 0x0007fff2 19, EC 0x001fffe3 21, EC 0x03ffffe6 26, EC 0x07ffffe0 27,
    EC 0x07ffffe1 27, EC 0x03ffffe7 26, EC 0x07ffffe2 27, EC 0x00fffff2 24,
    EC 0x001fffe4 21, EC 0x001fffe5 21, EC 0x03ffffe8 26, EC 0x03ffffe9 26,
    EC 0x0ffffffd 28, EC 0x07ffffe3 27, EC 0x07ffffe4 27, EC 0x07ffffe5 27,
    EC 0x000fffec 20, EC 0x00fffff3 24, EC 0x000fffed 20, EC 0x001fffe6 21,
    EC 0x003fffe9 22, EC 0x001fffe7 21, EC 0x001fffe8 21, EC 0x007ffff3 23,
    EC 0x003fffea 22, EC 0x003fffeb 22, EC 0x01ffffee 25, EC 0x01ffffef 25,
    EC 0x00fffff4 24, EC 0x00fffff5 24, EC 0x03ffffea 26, EC 0x007ffff4 23,
    EC 0x03ffffeb 26, EC 0x07ffffe6 27, EC 0x03ffffec 26, EC 0x03ffffed 26,
    EC 0x07ffffe7 27, EC 0x07ffffe8 27, EC 0x07ffffe9 27, EC 0x07ffffea 27,
    EC 0x07ffffeb 27, EC 0x0ffffffe 28, EC 0x07ffffec 27, EC 0x07ffffed 27,
    EC 0x07ffffee 27, EC 0x07ffffef 27, EC 0x07fffff0 27, EC 0x03ffffee 26]"

definition ngx_http_v2_huff_encode_table_lc :: "ngx_http_v2_huff_encode_code_t list" where
  "ngx_http_v2_huff_encode_table_lc = [
    EC 0x00001ff8 13, EC 0x007fffd8 23, EC 0x0fffffe2 28, EC 0x0fffffe3 28,
    EC 0x0fffffe4 28, EC 0x0fffffe5 28, EC 0x0fffffe6 28, EC 0x0fffffe7 28,
    EC 0x0fffffe8 28, EC 0x00ffffea 24, EC 0x3ffffffc 30, EC 0x0fffffe9 28,
    EC 0x0fffffea 28, EC 0x3ffffffd 30, EC 0x0fffffeb 28, EC 0x0fffffec 28,
    EC 0x0fffffed 28, EC 0x0fffffee 28, EC 0x0fffffef 28, EC 0x0ffffff0 28,
    EC 0x0ffffff1 28, EC 0x0ffffff2 28, EC 0x3ffffffe 30, EC 0x0ffffff3 28,
    EC 0x0ffffff4 28, EC 0x0ffffff5 28, EC 0x0ffffff6 28, EC 0x0ffffff7 28,
    EC 0x0ffffff8 28, EC 0x0ffffff9 28, EC 0x0ffffffa 28, EC 0x0ffffffb 28,
    EC 0x00000014 6, EC 0x000003f8 10, EC 0x000003f9 10, EC 0x00000ffa 12,
    EC 0x00001ff9 13, EC 0x00000015 6, EC 0x000000f8 8, EC 0x000007fa 11,
    EC 0x000003fa 10, EC 0x000003fb 10, EC 0x000000f9 8, EC 0x000007fb 11,
    EC 0x000000fa 8, EC 0x00000016 6, EC 0x00000017 6, EC 0x00000018 6,
    EC 0x00000000 5, EC 0x00000001 5, EC 0x00000002 5, EC 0x00000019 6,
    EC 0x0000001a 6, EC 0x0000001b 6, EC 0x0000001c 6, EC 0x0000001d 6,
    EC 0x0000001e 6, EC 0x0000001f 6, EC 0x0000005c 7, EC 0x000000fb 8,
    EC 0x00007ffc 15, EC 0x00000020 6, EC 0x00000ffb 12, EC 0x000003fc 10,
    EC 0x00001ffa 13, EC 0x00000003 5, EC 0x00000023 6, EC 0x00000004 5,
    EC 0x00000024 6, EC 0x00000005 5, EC 0x00000025 6, EC 0x00000026 6,
    EC 0x00000027 6, EC 0x00000006 5, EC 0x00000074 7, EC 0x00000075 7,
    EC 0x00000028 6, EC 0x00000029 6, EC 0x0000002a 6, EC 0x00000007 5,
    EC 0x0000002b 6, EC 0x00000076 7, EC 0x0000002c 6, EC 0x00000008 5,
    EC 0x00000009 5, EC 0x0000002d 6, EC 0x00000077 7, EC 0x00000078 7,
    EC 0x00000079 7, EC 0x0000007a 7, EC 0x0000007b 7, EC 0x00001ffb 13,
    EC 0x0007fff0 19, EC 0x00001ffc 13, EC 0x00003ffc 14, EC 0x00000022 6,
    EC 0x00007ffd 15, EC 0x00000003 5, EC 0x00000023 6, EC 0x00000004 5,
    EC 0x00000024 6, EC 0x00000005 5, EC 0x00000025 6, EC 0x00000026 6,
    EC 0x00000027 6, EC 0x00000006 5, EC 0x00000074 7, EC 0x00000075 7,
    EC 0x00000028 6, EC 0x00000029 6, EC 0x0000002a 6, EC 0x00000007 5,
    EC 0x0000002b 6, EC 0x00000076 7, EC 0x0000002c 6, EC 0x00000008 5,
    EC 0x00000009 5, EC 0x0000002d 6, EC 0x00000077 7, EC 0x00000078 7,
    EC 0x00000079 7, EC 0x0000007a 7, EC 0x0000007b 7, EC 0x00007ffe 15,
    EC 0x000007fc 11, EC 0x00003ffd 14, EC 0x00001ffd 13, EC 0x0ffffffc 28,
    EC 0x000fffe6 20, EC 0x003fffd2 22, EC 0x000fffe7 20, EC 0x000fffe8 20,
    EC 0x003fffd3 22, EC 0x003fffd4 22, EC 0x003fffd5 22, EC 0x007fffd9 23,
    EC 0x003fffd6 22, EC 0x007fffda 23, EC 0x007fffdb 23, EC 0x007fffdc 23,
    EC 0x007fffdd 23, EC 0x007fffde 23, EC 0x00ffffeb 24, EC 0x007fffdf 23,
    EC 0x00ffffec 24, EC 0x00ffffed 24, EC 0x003fffd7 22, EC 0x007fffe0 23,
    EC 0x00ffffee 24, EC 0x007fffe1 23, EC 0x007fffe2 23, EC 0x007fffe3 23,
    EC 0x007fffe4 23, EC 0x001fffdc 21, EC 0x003fffd8 22, EC 0x007fffe5 23,
    EC 0x003fffd9 22, EC 0x007fffe6 23, EC 0x007fffe7 23, EC 0x00ffffef 24,
    EC 0x003fffda 22, EC 0x001fffdd 21, EC 0x000fffe9 20, EC 0x003fffdb 22,
    EC 0x003fffdc 22, EC 0x007fffe8 23, EC 0x007fffe9 23, EC 0x001fffde 21,
    EC 0x007fffea 23, EC 0x003fffdd 22, EC 0x003fffde 22, EC 0x00fffff0 24,
    EC 0x001fffdf 21, EC 0x003fffdf 22, EC 0x007fffeb 23, EC 0x007fffec 23,
    EC 0x001fffe0 21, EC 0x001fffe1 21, EC 0x003fffe0 22, EC 0x001fffe2 21,
    EC 0x007fffed 23, EC 0x003fffe1 22, EC 0x007fffee 23, EC 0x007fffef 23,
    EC 0x000fffea 20, EC 0x003fffe2 22, EC 0x003fffe3 22, EC 0x003fffe4 22,
    EC 0x007ffff0 23, EC 0x003fffe5 22, EC 0x003fffe6 22, EC 0x007ffff1 23,
    EC 0x03ffffe0 26, EC 0x03ffffe1 26, EC 0x000fffeb 20, EC 0x0007fff1 19,
    EC 0x003fffe7 22, EC 0x007ffff2 23, EC 0x003fffe8 22, EC 0x01ffffec 25,
    EC 0x03ffffe2 26, EC 0x03ffffe3 26, EC 0x03ffffe4 26, EC 0x07ffffde 27,
    EC 0x07ffffdf 27, EC 0x03ffffe5 26, EC 0x00fffff1 24, EC 0x01ffffed 25,
    EC 0x0007fff2 19, EC 0x001fffe3 21, EC 0x03ffffe6 26, EC 0x07ffffe0 27,
    EC 0x07ffffe1 27, EC 0x03ffffe7 26, EC 0x07ffffe2 27, EC 0x00fffff2 24,
    EC 0x001fffe4 21, EC 0x001fffe5 21, EC 0x03ffffe8 26, EC 0x03ffffe9 26,
    EC 0x0ffffffd 28, EC 0x07ffffe3 27, EC 0x07ffffe4 27, EC 0x07ffffe5 27,
    EC 0x000fffec 20, EC 0x00fffff3 24, EC 0x000fffed 20, EC 0x001fffe6 21,
    EC 0x003fffe9 22, EC 0x001fffe7 21, EC 0x001fffe8 21, EC 0x007ffff3 23,
    EC 0x003fffea 22, EC 0x003fffeb 22, EC 0x01ffffee 25, EC 0x01ffffef 25,
    EC 0x00fffff4 24, EC 0x00fffff5 24, EC 0x03ffffea 26, EC 0x007ffff4 23,
    EC 0x03ffffeb 26, EC 0x07ffffe6 27, EC 0x03ffffec 26, EC 0x03ffffed 26,
    EC 0x07ffffe7 27, EC 0x07ffffe8 27, EC 0x07ffffe9 27, EC 0x07ffffea 27,
    EC 0x07ffffeb 27, EC 0x0ffffffe 28, EC 0x07ffffec 27, EC 0x07ffffed 27,
    EC 0x07ffffee 27, EC 0x07ffffef 27, EC 0x07fffff0 27, EC 0x03ffffee 26]"

section \<open>The decoder's automaton\<close>

definition huff_codes_0 :: "ngx_http_v2_huff_decode_code_t list list" where
  "huff_codes_0 = [
    \<comment> \<open>0\<close>
   [DC 0x04 0x00 0x00 0x00, DC 0x05 0x00 0x00 0x00, DC 0x07 0x00 0x00 0x00, DC 0x08 0x00 0x00 0x00,
    DC 0x0b 0x00 0x00 0x00, DC 0x0c 0x00 0x00 0x00, DC 0x10 0x00 0x00 0x00, DC 0x13 0x00 0x00 0x00,
    DC 0x19 0x00 0x00 0x00, DC 0x1c 0x00 0x00 0x00, DC 0x20 0x00 0x00 0x00, DC 0x23 0x00 0x00 0x00,
    DC 0x2a 0x00 0x00 0x00, DC 0x31 0x00 0x00 0x00, DC 0x39 0x00 0x00 0x00, DC 0x40 0x00 0x00 0x01],
    \<comment> \<open>1\<close>
   [DC 0x00 0x01 0x30 0x01, DC 0x00 0x01 0x31 0x01, DC 0x00 0x01 0x32 0x01, DC 0x00 0x01 0x61 0x01,
    DC 0x00 0x01 0x63 0x01, DC 0x00 0x01 0x65 0x01, DC 0x00 0x01 0x69 0x01, DC 0x00 0x01 0x6f 0x01,
    DC 0x00 0x01 0x73 0x01, DC 0x00 0x01 0x74 0x01, DC 0x0d 0x00 0x00 0x00, DC 0x0e 0x00 0x00 0x00,
    DC 0x11 0x00 0x00 0x00, DC 0x12 0x00 0x00 0x00, DC 0x14 0x00 0x00 0x00, DC 0x15 0x00 0x00 0x00],
    \<comment> \<open>2\<close>
   [DC 0x01 0x01 0x30 0x00, DC 0x16 0x01 0x30 0x01, DC 0x01 0x01 0x31 0x00, DC 0x16 0x01 0x31 0x01,
    DC 0x01 0x01 0x32 0x00, DC 0x16 0x01 0x32 0x01, DC 0x01 0x01 0x61 0x00, DC 0x16 0x01 0x61 0x01,
    DC 0x01 0x01 0x63 0x00, DC 0x16 0x01 0x63 0x01, DC 0x01 0x01 0x65 0x00, DC 0x16 0x01 0x65 0x01,
    DC 0x01 0x01 0x69 0x00, DC 0x16 0x01 0x69 0x01, DC 0x01 0x01 0x6f 0x00, DC 0x16 0x01 0x6f 0x01],
    \<comment> \<open>3\<close>
   [DC 0x02 0x01 0x30 0x00, DC 0x09 0x01 0x30 0x00, DC 0x17 0x01 0x30 0x00, DC 0x28 0x01 0x30 0x01,
    DC 0x02 0x01 0x31 0x00, DC 0x09 0x01 0x31 0x00, DC 0x17 0x01 0x31 0x00, DC 0x28 0x01 0x31 0x01,
    DC 0x02 0x01 0x32 0x00, DC 0x09 0x01 0x32 0x00, DC 0x17 0x01 0x32 0x00, DC 0x28 0x01 0x32 0x01,
    DC 0x02 0x01 0x61 0x00, DC 0x09 0x01 0x61 0x00, DC 0x17 0x01 0x61 0x00, DC 0x28 0x01 0x61 0x01],
    \<comment> \<open>4\<close>
   [DC 0x03 0x01 0x30 0x00, DC 0x06 0x01 0x30 0x00, DC 0x0a 0x01 0x30 0x00, DC 0x0f 0x01 0x30 0x00,
    DC 0x18 0x01 0x30 0x00, DC 0x1f 0x01 0x30 0x00, DC 0x29 0x01 0x30 0x00, DC 0x38 0x01 0x30 0x01,
    DC 0x03 0x01 0x31 0x00, DC 0x06 0x01 0x31 0x00, DC 0x0a 0x01 0x31 0x00, DC 0x0f 0x01 0x31 0x00,
    DC 0x18 0x01 0x31 0x00, DC 0x1f 0x01 0x31 0x00, DC 0x29 0x01 0x31 0x00, DC 0x38 0x01 0x31 0x01],
    \<comment> \<open>5\<close>
   [DC 0x03 0x01 0x32 0x00, DC 0x06 0x01 0x32 0x00, DC 0x0a 0x01 0x32 0x00, DC 0x0f 0x01 0x32 0x00,
    DC 0x18 0x01 0x32 0x00, DC 0x1f 0x01 0x32 0x00, DC 0x29 0x01 0x32 0x00, DC 0x38 0x01 0x32 0x01,
    DC 0x03 0x01 0x61 0x00, DC 0x06 0x01 0x61 0x00, DC 0x0a 0x01 0x61 0x00, DC 0x0f 0x01 0x61 0x00,
    DC 0x18 0x01 0x61 0x00, DC 0x1f 0x01 0x61 0x00, DC 0x29 0x01 0x61 0x00, DC 0x38 0x01 0x61 0x01],
    \<comment> \<open>6\<close>
   [DC 0x02 0x01 0x63 0x00, DC 0x09 0x01 0x63 0x00, DC 0x17 0x01 0x63 0x00, DC 0x28 0x01 0x63 0x01,
    DC 0x02 0x01 0x65 0x00, DC 0x09 0x01 0x65 0x00, DC 0x17 0x01 0x65 0x00, DC 0x28 0x01 0x65 0x01,
    DC 0x02 0x01 0x69 0x00, DC 0x09 0x01 0x69 0x00, DC 0x17 0x01 0x69 0x00, DC 0x28 0x01 0x69 0x01,
    DC 0x02 0x01 0x6f 0x00, DC 0x09 0x01 0x6f 0x00, DC 0x17 0x01 0x6f 0x00, DC 0x28 0x01 0x6f 0x01],
    \<comment> \<open>7\<close>
   [DC 0x03 0x01 0x63 0x00, DC 0x06 0x01 0x63 0x00, DC 0x0a 0x01 0x63 0x00, DC 0x0f 0x01 0x63 0x00,
    DC 0x18 0x01 0x63 0x00, DC 0x1f 0x01 0x63 0x00, DC 0x29 0x01 0x63 0x00, DC 0x38 0x01 0x63 0x01,
    DC 0x03 0x01 0x65 0x00, DC 0x06 0x01 0x65 0x00, DC 0x0a 0x01 0x65 0x00, DC 0x0f 0x01 0x65 0x00,
    DC 0x18 0x01 0x65 0x00, DC 0x1f 0x01 0x65 0x00, DC 0x29 0x01 0x65 0x00, DC 0x38 0x01 0x65 0x01]
   ]"

definition huff_codes_8 :: "ngx_http_v2_huff_decode_code_t list list" where
  "huff_codes_8 = [
    \<comment> \<open>8\<close>
   [DC 0x03 0x01 0x69 0x00, DC 0x06 0x01 0x69 0x00, DC 0x0a 0x01 0x69 0x00, DC 0x0f 0x01 0x69 0x00,
    DC 0x18 0x01 0x69 0x00, DC 0x1f 0x01 0x69 0x00, DC 0x29 0x01 0x69 0x00, DC 0x38 0x01 0x69 0x01,
    DC 0x03 0x01 0x6f 0x00, DC 0x06 0x01 0x6f 0x00, DC 0x0a 0x01 0x6f 0x00, DC 0x0f 0x01 0x6f 0x00,
    DC 0x18 0x01 0x6f 0x00, DC 0x1f 0x01 0x6f 0x00, DC 0x29 0x01 0x6f 0x00, DC 0x38 0x01 0x6f 0x01],
    \<comment> \<open>9\<close>
   [DC 0x01 0x01 0x73 0x00, DC 0x16 0x01 0x73 0x01, DC 0x01 0x01 0x74 0x00, DC 0x16 0x01 0x74 0x01,
    DC 0x00 0x01 0x20 0x01, DC 0x00 0x01 0x25 0x01, DC 0x00 0x01 0x2d 0x01, DC 0x00 0x01 0x2e 0x01,
    DC 0x00 0x01 0x2f 0x01, DC 0x00 0x01 0x33 0x01, DC 0x00 0x01 0x34 0x01, DC 0x00 0x01 0x35 0x01,
    DC 0x00 0x01 0x36 0x01, DC 0x00 0x01 0x37 0x01, DC 0x00 0x01 0x38 0x01, DC 0x00 0x01 0x39 0x01],
    \<comment> \<open>10\<close>
   [DC 0x02 0x01 0x73 0x00, DC 0x09 0x01 0x73 0x00, DC 0x17 0x01 0x73 0x00, DC 0x28 0x01 0x73 0x01,
    DC 0x02 0x01 0x74 0x00, DC 0x09 0x01 0x74 0x00, DC 0x17 0x01 0x74 0x00, DC 0x28 0x01 0x74 0x01,
    DC 0x01 0x01 0x20 0x00, DC 0x16 0x01 0x20 0x01, DC 0x01 0x01 0x25 0x00, DC 0x16 0x01 0x25 0x01,
    DC 0x01 0x01 0x2d 0x00, DC 0x16 0x01 0x2d 0x01, DC 0x01 0x01 0x2e 0x00, DC 0x16 0x01 0x2e 0x01],
    \<comment> \<open>11\<close>
   [DC 0x03 0x01 0x73 0x00, DC 0x06 0x01 0x73 0x00, DC 0x0a 0x01 0x73 0x00, DC 0x0f 0x01 0x73 0x00,
    DC 0x18 0x01 0x73 0x00, DC 0x1f 0x01 0x73 0x00, DC 0x29 0x01 0x73 0x00, DC 0x38 0x01 0x73 0x01,
    DC 0x03 0x01 0x74 0x00, DC 0x06 0x01 0x74 0x00, DC 0x0a 0x01 0x74 0x00, DC 0x0f 0x01 0x74 0x00,
    DC 0x18 0x01 0x74 0x00, DC 0x1f 0x01 0x74 0x00, DC 0x29 0x01 0x74 0x00, DC 0x38 0x01 0x74 0x01],
    \<comment> \<open>12\<close>
   [DC 0x02 0x01 0x20 0x00, DC 0x09 0x01 0x20 0x00, DC 0x17 0x01 0x20 0x00, DC 0x28 0x01 0x20 0x01,
    DC 0x02 0x01 0x25 0x00, DC 0x09 0x01 0x25 0x00, DC 0x17 0x01 0x25 0x00, DC 0x28 0x01 0x25 0x01,
    DC 0x02 0x01 0x2d 0x00, DC 0x09 0x01 0x2d 0x00, DC 0x17 0x01 0x2d 0x00, DC 0x28 0x01 0x2d 0x01,
    DC 0x02 0x01 0x2e 0x00, DC 0x09 0x01 0x2e 0x00, DC 0x17 0x01 0x2e 0x00, DC 0x28 0x01 0x2e 0x01],
    \<comment> \<open>13\<close>
   [DC 0x03 0x01 0x20 0x00, DC 0x06 0x01 0x20 0x00, DC 0x0a 0x01 0x20 0x00, DC 0x0f 0x01 0x20 0x00,
    DC 0x18 0x01 0x20 0x00, DC 0x1f 0x01 0x20 0x00, DC 0x29 0x01 0x20 0x00, DC 0x38 0x01 0x20 0x01,
    DC 0x03 0x01 0x25 0x00, DC 0x06 0x01 0x25 0x00, DC 0x0a 0x01 0x25 0x00, DC 0x0f 0x01 0x25 0x00,
    DC 0x18 0x01 0x25 0x00, DC 0x1f 0x01 0x25 0x00, DC 0x29 0x01 0x25 0x00, DC 0x38 0x01 0x25 0x01],
    \<comment> \<open>14\<close>
   [DC 0x03 0x01 0x2d 0x00, DC 0x06 0x01 0x2d 0x00, DC 0x0a 0x01 0x2d 0x00, DC 0x0f 0x01 0x2d 0x00,
    DC 0x18 0x01 0x2d 0x00, DC 0x1f 0x01 0x2d 0x00, DC 0x29 0x01 0x2d 0x00, DC 0x38 0x01 0x2d 0x01,
    DC 0x03 0x01 0x2e 0x00, DC 0x06 0x01 0x2e 0x00, DC 0x0a 0x01 0x2e 0x00, DC 0x0f 0x01 0x2e 0x00,
    DC 0x18 0x01 0x2e 0x00, DC 0x1f 0x01 0x2e 0x00, DC 0x29 0x01 0x2e 0x00, DC 0x38 0x01 0x2e 0x01],
    \<comment> \<open>15\<close>
   [DC 0x01 0x01 0x2f 0x00, DC 0x16 0x01 0x2f 0x01, DC 0x01 0x01 0x33 0x00, DC 0x16 0x01 0x33 0x01,
    DC 0x01 0x01 0x34 0x00, DC 0x16 0x01 0x34 0x01, DC 0x01 0x01 0x35 0x00, DC 0x16 0x01 0x35 0x01,
    DC 0x01 0x01 0x36 0x00, DC 0x16 0x01 0x36 0x01, DC 0x01 0x01 0x37 0x00, DC 0x16 0x01 0x37 0x01,
    DC 0x01 0x01 0x38 0x00, DC 0x16 0x01 0x38 0x01, DC 0x01 0x01 0x39 0x00, DC 0x16 0x01 0x39 0x01]
   ]"

definition huff_codes_16 :: "ngx_http_v2_huff_decode_code_t list list" where
  "huff_codes_16 = [
    \<comment> \<open>16\<close>
   [DC 0x02 0x01 0x2f 0x00, DC 0x09 0x01 0x2f 0x00, DC 0x17 0x01 0x2f 0x00, DC 0x28 0x01 0x2f 0x01,
    DC 0x02 0x01 0x33 0x00, DC 0x09 0x01 0x33 0x00, DC 0x17 0x01 0x33 0x00, DC 0x28 0x01 0x33 0x01,
    DC 0x02 0x01 0x34 0x00, DC 0x09 0x01 0x34 0x00, DC 0x17 0x01 0x34 0x00, DC 0x28 0x01 0x34 0x01,
    DC 0x02 0x01 0x35 0x00, DC 0x09 0x01 0x35 0x00, DC 0x17 0x01 0x35 0x00, DC 0x28 0x01 0x35 0x01],
    \<comment> \<open>17\<close>
   [DC 0x03 0x01 0x2f 0x00, DC 0x06 0x01 0x2f 0x00, DC 0x0a 0x01 0x2f 0x00, DC 0x0f 0x01 0x2f 0x00,
    DC 0x18 0x01 0x2f 0x00, DC 0x1f 0x01 0x2f 0x00, DC 0x29 0x01 0x2f 0x00, DC 0x38 0x01 0x2f 0x01,
    DC 0x03 0x01 0x33 0x00, DC 0x06 0x01 0x33 0x00, DC 0x0a 0x01 0x33 0x00, DC 0x0f 0x01 0x33 0x00,
    DC 0x18 0x01 0x33 0x00, DC 0x1f 0x01 0x33 0x00, DC 0x29 0x01 0x33 0x00, DC 0x38 0x01 0x33 0x01],
    \<comment> \<open>18\<close>
   [DC 0x03 0x01 0x34 0x00, DC 0x06 0x01 0x34 0x00, DC 0x0a 0x01 0x34 0x00, DC 0x0f 0x01 0x34 0x00,
    DC 0x18 0x01 0x34 0x00, DC 0x1f 0x01 0x34 0x00, DC 0x29 0x01 0x34 0x00, DC 0x38 0x01 0x34 0x01,
    DC 0x03 0x01 0x35 0x00, DC 0x06 0x01 0x35 0x00, DC 0x0a 0x01 0x35 0x00, DC 0x0f 0x01 0x35 0x00,
    DC 0x18 0x01 0x35 0x00, DC 0x1f 0x01 0x35 0x00, DC 0x29 0x01 0x35 0x00, DC 0x38 0x01 0x35 0x01],
    \<comment> \<open>19\<close>
   [DC 0x02 0x01 0x36 0x00, DC 0x09 0x01 0x36 0x00, DC 0x17 0x01 0x36 0x00, DC 0x28 0x01 0x36 0x01,
    DC 0x02 0x01 0x37 0x00, DC 0x09 0x01 0x37 0x00, DC 0x17 0x01 0x37 0x00, DC 0x28 0x01 0x37 0x01,
    DC 0x02 0x01 0x38 0x00, DC 0x09 0x01 0x38 0x00, DC 0x17 0x01 0x38 0x00, DC 0x28 0x01 0x38 0x01,
    DC 0x02 0x01 0x39 0x00, DC 0x09 0x01 0x39 0x00, DC 0x17 0x01 0x39 0x00, DC 0x28 0x01 0x39 0x01],
    \<comment> \<open>20\<close>
   [DC 0x03 0x01 0x36 0x00, DC 0x06 0x01 0x36 0x00, DC 0x0a 0x01 0x36 0x00, DC 0x0f 0x01 0x36 0x00,
    DC 0x18 0x01 0x36 0x00, DC 0x1f 0x01 0x36 0x00, DC 0x29 0x01 0x36 0x00, DC 0x38 0x01 0x36 0x01,
    DC 0x03 0x01 0x37 0x00, DC 0x06 0x01 0x37 0x00, DC 0x0a 0x01 0x37 0x00, DC 0x0f 0x01 0x37 0x00,
    DC 0x18 0x01 0x37 0x00, DC 0x1f 0x01 0x37 0x00, DC 0x29 0x01 0x37 0x00, DC 0x38 0x01 0x37 0x01],
    \<comment> \<open>21\<close>
   [DC 0x03 0x01 0x38 0x00, DC 0x06 0x01 0x38 0x00, DC 0x0a 0x01 0x38 0x00, DC 0x0f 0x01 0x38 0x00,
    DC 0x18 0x01 0x38 0x00, DC 0x1f 0x01 0x38 0x00, DC 0x29 0x01 0x38 0x00, DC 0x38 0x01 0x38 0x01,
    DC 0x03 0x01 0x39 0x00, DC 0x06 0x01 0x39 0x00, DC 0x0a 0x01 0x39 0x00, DC 0x0f 0x01 0x39 0x00,
    DC 0x18 0x01 0x39 0x00, DC 0x1f 0x01 0x39 0x00, DC 0x29 0x01 0x39 0x00, DC 0x38 0x01 0x39 0x01],
    \<comment> \<open>22\<close>
   [DC 0x1a 0x00 0x00 0x00, DC 0x1b 0x00 0x00 0x00, DC 0x1d 0x00 0x00 0x00, DC 0x1e 0x00 0x00 0x00,
    DC 0x21 0x00 0x00 0x00, DC 0x22 0x00 0x00 0x00, DC 0x24 0x00 0x00 0x00, DC 0x25 0x00 0x00 0x00,
    DC 0x2b 0x00 0x00 0x00, DC 0x2e 0x00 0x00 0x00, DC 0x32 0x00 0x00 0x00, DC 0x35 0x00 0x00 0x00,
    DC 0x3a 0x00 0x00 0x00, DC 0x3d 0x00 0x00 0x00, DC 0x41 0x00 0x00 0x00, DC 0x44 0x00 0x00 0x01],
    \<comment> \<open>23\<close>
   [DC 0x00 0x01 0x3d 0x01, DC 0x00 0x01 0x41 0x01, DC 0x00 0x01 0x5f 0x01, DC 0x00 0x01 0x62 0x01,
    DC 0x00 0x01 0x64 0x01, DC 0x00 0x01 0x66 0x01, DC 0x00 0x01 0x67 0x01, DC 0x00 0x01 0x68 0x01,
    DC 0x00 0x01 0x6c 0x01, DC 0x00 0x01 0x6d 0x01, DC 0x00 0x01 0x6e 0x01, DC 0x00 0x01 0x70 0x01,
    DC 0x00 0x01 0x72 0x01, DC 0x00 0x01 0x75 0x01, DC 0x26 0x00 0x00 0x00, DC 0x27 0x00 0x00 0x00]
   ]"

definition huff_codes_24 :: "ngx_http_v2_huff_decode_code_t list list" where
  "huff_codes_24 = [
    \<comment> \<open>24\<close>
   [DC 0x01 0x01 0x3d 0x00, DC 0x16 0x01 0x3d 0x01, DC 0x01 0x01 0x41 0x00, DC 0x16 0x01 0x41 0x01,
    DC 0x01 0x01 0x5f 0x00, DC 0x16 0x01 0x5f 0x01, DC 0x01 0x01 0x62 0x00, DC 0x16 0x01 0x62 0x01,
    DC 0x01 0x01 0x64 0x00, DC 0x16 0x01 0x64 0x01, DC 0x01 0x01 0x66 0x00, DC 0x16 0x01 0x66 0x01,
    DC 0x01 0x01 0x67 0x00, DC 0x16 0x01 0x67 0x01, DC 0x01 0x01 0x68 0x00, DC 0x16 0x01 0x68 0x01],
    \<comment> \<open>25\<close>
   [DC 0x02 0x01 0x3d 0x00, DC 0x09 0x01 0x3d 0x00, DC 0x17 0x01 0x3d 0x00, DC 0x28 0x01 0x3d 0x01,
    DC 0x02 0x01 0x41 0x00, DC 0x09 0x01 0x41 0x00, DC 0x17 0x01 0x41 0x00, DC 0x28 0x01 0x41 0x01,
    DC 0x02 0x01 0x5f 0x00, DC 0x09 0x01 0x5f 0x00, DC 0x17 0x01 0x5f 0x00, DC 0x28 0x01 0x5f 0x01,
    DC 0x02 0x01 0x62 0x00, DC 0x09 0x01 0x62 0x00, DC 0x17 0x01 0x62 0x00, DC 0x28 0x01 0x62 0x01],
    \<comment> \<open>26\<close>
   [DC 0x03 0x01 0x3d 0x00, DC 0x06 0x01 0x3d 0x00, DC 0x0a 0x01 0x3d 0x00, DC 0x0f 0x01 0x3d 0x00,
    DC 0x18 0x01 0x3d 0x00, DC 0x1f 0x01 0x3d 0x00, DC 0x29 0x01 0x3d 0x00, DC 0x38 0x01 0x3d 0x01,
    DC 0x03 0x01 0x41 0x00, DC 0x06 0x01 0x41 0x00, DC 0x0a 0x01 0x41 0x00, DC 0x0f 0x01 0x41 0x00,
    DC 0x18 0x01 0x41 0x00, DC 0x1f 0x01 0x41 0x00, DC 0x29 0x01 0x41 0x00, DC 0x38 0x01 0x41 0x01],
    \<comment> \<open>27\<close>
   [DC 0x03 0x01 0x5f 0x00, DC 0x06 0x01 0x5f 0x00, DC 0x0a 0x01 0x5f 0x00, DC 0x0f 0x01 0x5f 0x00,
    DC 0x18 0x01 0x5f 0x00, DC 0x1f 0x01 0x5f 0x00, DC 0x29 0x01 0x5f 0x00, DC 0x38 0x01 0x5f 0x01,
    DC 0x03 0x01 0x62 0x00, DC 0x06 0x01 0x62 0x00, DC 0x0a 0x01 0x62 0x00, DC 0x0f 0x01 0x62 0x00,
    DC 0x18 0x01 0x62 0x00, DC 0x1f 0x01 0x62 0x00, DC 0x29 0x01 0x62 0x00, DC 0x38 0x01 0x62 0x01],
    \<comment> \<open>28\<close>
   [DC 0x02 0x01 0x64 0x00, DC 0x09 0x01 0x64 0x00, DC 0x17 0x01 0x64 0x00, DC 0x28 0x01 0x64 0x01,
    DC 0x02 0x01 0x66 0x00, DC 0x09 0x01 0x66 0x00, DC 0x17 0x01 0x66 0x00, DC 0x28 0x01 0x66 0x01,
    DC 0x02 0x01 0x67 0x00, DC 0x09 0x01 0x67 0x00, DC 0x17 0x01 0x67 0x00, DC 0x28 0x01 0x67 0x01,
    DC 0x02 0x01 0x68 0x00, DC 0x09 0x01 0x68 0x00, DC 0x17 0x01 0x68 0x00, DC 0x28 0x01 0x68 0x01],
    \<comment> \<open>29\<close>
   [DC 0x03 0x01 0x64 0x00, DC 0x06 0x01 0x64 0x00, DC 0x0a 0x01 0x64 0x00, DC 0x0f 0x01 0x64 0x00,
    DC 0x18 0x01 0x64 0x00, DC 0x1f 0x01 0x64 0x00, DC 0x29 0x01 0x64 0x00, DC 0x38 0x01 0x64 0x01,
    DC 0x03 0x01 0x66 0x00, DC 0x06 0x01 0x66 0x00, DC 0x0a 0x01 0x66 0x00, DC 0x0f 0x01 0x66 0x00,
    DC 0x18 0x01 0x66 0x00, DC 0x1f 0x01 0x66 0x00, DC 0x29 0x01 0x66 0x00, DC 0x38 0x01 0x66 0x01],
    \<comment> \<open>30\<close>
   [DC 0x03 0x01 0x67 0x00, DC 0x06 0x01 0x67 0x00, DC 0x0a 0x01 0x67 0x00, DC 0x0f 0x01 0x67 0x00,
    DC 0x18 0x01 0x67 0x00, DC 0x1f 0x01 0x67 0x00, DC 0x29 0x01 0x67 0x00, DC 0x38 0x01 0x67 0x01,
    DC 0x03 0x01 0x68 0x00, DC 0x06 0x01 0x68 0x00, DC 0x0a 0x01 0x68 0x00, DC 0x0f 0x01 0x68 0x00,
    DC 0x18 0x01 0x68 0x00, DC 0x1f 0x01 0x68 0x00, DC 0x29 0x01 0x68 0x00, DC 0x38 0x01 0x68 0x01],
    \<comment> \<open>31\<close>
   [DC 0x01 0x01 0x6c 0x00, DC 0x16 0x01 0x6c 0x01, DC 0x01 0x01 0x6d 0x00, DC 0x16 0x01 0x6d 0x01,
    DC 0x01 0x01 0x6e 0x00, DC 0x16 0x01 0x6e 0x01, DC 0x01 0x01 0x70 0x00, DC 0x16 0x01 0x70 0x01,
    DC 0x01 0x01 0x72 0x00, DC 0x16 0x01 0x72 0x01, DC 0x01 0x01 0x75 0x00, DC 0x16 0x01 0x75 0x01,
    DC 0x00 0x01 0x3a 0x01, DC 0x00 0x01 0x42 0x01, DC 0x00 0x01 0x43 0x01, DC 0x00 0x01 0x44 0x01]
   ]"

definition huff_codes_32 :: "ngx_http_v2_huff_decode_code_t list list" where
  "huff_codes_32 = [
    \<comment> \<open>32\<close>
   [DC 0x02 0x01 0x6c 0x00, DC 0x09 0x01 0x6c 0x00, DC 0x17 0x01 0x6c 0x00, DC 0x28 0x01 0x6c 0x01,
    DC 0x02 0x01 0x6d 0x00, DC 0x09 0x01 0x6d 0x00, DC 0x17 0x01 0x6d 0x00, DC 0x28 0x01 0x6d 0x01,
    DC 0x02 0x01 0x6e 0x00, DC 0x09 0x01 0x6e 0x00, DC 0x17 0x01 0x6e 0x00, DC 0x28 0x01 0x6e 0x01,
    DC 0x02 0x01 0x70 0x00, DC 0x09 0x01 0x70 0x00, DC 0x17 0x01 0x70 0x00, DC 0x28 0x01 0x70 0x01],
    \<comment> \<open>33\<close>
   [DC 0x03 0x01 0x6c 0x00, DC 0x06 0x01 0x6c 0x00, DC 0x0a 0x01 0x6c 0x00, DC 0x0f 0x01 0x6c 0x00,
    DC 0x18 0x01 0x6c 0x00, DC 0x1f 0x01 0x6c 0x00, DC 0x29 0x01 0x6c 0x00, DC 0x38 0x01 0x6c 0x01,
    DC 0x03 0x01 0x6d 0x00, DC 0x06 0x01 0x6d 0x00, DC 0x0a 0x01 0x6d 0x00, DC 0x0f 0x01 0x6d 0x00,
    DC 0x18 0x01 0x6d 0x00, DC 0x1f 0x01 0x6d 0x00, DC 0x29 0x01 0x6d 0x00, DC 0x38 0x01 0x6d 0x01],
    \<comment> \<open>34\<close>
   [DC 0x03 0x01 0x6e 0x00, DC 0x06 0x01 0x6e 0x00, DC 0x0a 0x01 0x6e 0x00, DC 0x0f 0x01 0x6e 0x00,
    DC 0x18 0x01 0x6e 0x00, DC 0x1f 0x01 0x6e 0x00, DC 0x29 0x01 0x6e 0x00, DC 0x38 0x01 0x6e 0x01,
    DC 0x03 0x01 0x70 0x00, DC 0x06 0x01 0x70 0x00, DC 0x0a 0x01 0x70 0x00, DC 0x0f 0x01 0x70 0x00,
    DC 0x18 0x01 0x70 0x00, DC 0x1f 0x01 0x70 0x00, DC 0x29 0x01 0x70 0x00, DC 0x38 0x01 0x70 0x01],
    \<comment> \<open>35\<close>
   [DC 0x02 0x01 0x72 0x00, DC 0x09 0x01 0x72 0x00, DC 0x17 0x01 0x72 0x00, DC 0x28 0x01 0x72 0x01,
    DC 0x02 0x01 0x75 0x00, DC 0x09 0x01 0x75 0x00, DC 0x17 0x01 0x75 0x00, DC 0x28 0x01 0x75 0x01,
    DC 0x01 0x01 0x3a 0x00, DC 0x16 0x01 0x3a 0x01, DC 0x01 0x01 0x42 0x00, DC 0x16 0x01 0x42 0x01,
    DC 0x01 0x01 0x43 0x00, DC 0x16 0x01 0x43 0x01, DC 0x01 0x01 0x44 0x00, DC 0x16 0x01 0x44 0x01],
    \<comment> \<open>36\<close>
   [DC 0x03 0x01 0x72 0x00, DC 0x06 0x01 0x72 0x00, DC 0x0a 0x01 0x72 0x00, DC 0x0f 0x01 0x72 0x00,
    DC 0x18 0x01 0x72 0x00, DC 0x1f 0x01 0x72 0x00, DC 0x29 0x01 0x72 0x00, DC 0x38 0x01 0x72 0x01,
    DC 0x03 0x01 0x75 0x00, DC 0x06 0x01 0x75 0x00, DC 0x0a 0x01 0x75 0x00, DC 0x0f 0x01 0x75 0x00,
    DC 0x18 0x01 0x75 0x00, DC 0x1f 0x01 0x75 0x00, DC 0x29 0x01 0x75 0x00, DC 0x38 0x01 0x75 0x01],
    \<comment> \<open>37\<close>
   [DC 0x02 0x01 0x3a 0x00, DC 0x09 0x01 0x3a 0x00, DC 0x17 0x01 0x3a 0x00, DC 0x28 0x01 0x3a 0x01,
    DC 0x02 0x01 0x42 0x00, DC 0x09 0x01 0x42 0x00, DC 0x17 0x01 0x42 0x00, DC 0x28 0x01 0x42 0x01,
    DC 0x02 0x01 0x43 0x00, DC 0x09 0x01 0x43 0x00, DC 0x17 0x01 0x43 0x00, DC 0x28 0x01 0x43 0x01,
    DC 0x02 0x01 0x44 0x00, DC 0x09 0x01 0x44 0x00, DC 0x17 0x01 0x44 0x00, DC 0x28 0x01 0x44 0x01],
    \<comment> \<open>38\<close>
   [DC 0x03 0x01 0x3a 0x00, DC 0x06 0x01 0x3a 0x00, DC 0x0a 0x01 0x3a 0x00, DC 0x0f 0x01 0x3a 0x00,
    DC 0x18 0x01 0x3a 0x00, DC 0x1f 0x01 0x3a 0x00, DC 0x29 0x01 0x3a 0x00, DC 0x38 0x01 0x3a 0x01,
    DC 0x03 0x01 0x42 0x00, DC 0x06 0x01 0x42 0x00, DC 0x0a 0x01 0x42 0x00, DC 0x0f 0x01 0x42 0x00,
    DC 0x18 0x01 0x42 0x00, DC 0x1f 0x01 0x42 0x00, DC 0x29 0x01 0x42 0x00, DC 0x38 0x01 0x42 0x01],
    \<comment> \<open>39\<close>
   [DC 0x03 0x01 0x43 0x00, DC 0x06 0x01 0x43 0x00, DC 0x0a 0x01 0x43 0x00, DC 0x0f 0x01 0x43 0x00,
    DC 0x18 0x01 0x43 0x00, DC 0x1f 0x01 0x43 0x00, DC 0x29 0x01 0x43 0x00, DC 0x38 0x01 0x43 0x01,
    DC 0x03 0x01 0x44 0x00, DC 0x06 0x01 0x44 0x00, DC 0x0a 0x01 0x44 0x00, DC 0x0f 0x01 0x44 0x00,
    DC 0x18 0x01 0x44 0x00, DC 0x1f 0x01 0x44 0x00, DC 0x29 0x01 0x44 0x00, DC 0x38 0x01 0x44 0x01]
   ]"

definition huff_codes_40 :: "ngx_http_v2_huff_decode_code_t list list" where
  "huff_codes_40 = [
    \<comment> \<open>40\<close>
   [DC 0x2c 0x00 0x00 0x00, DC 0x2d 0x00 0x00 0x00, DC 0x2f 0x00 0x00 0x00, DC 0x30 0x00 0x00 0x00,
    DC 0x33 0x00 0x00 0x00, DC 0x34 0x00 0x00 0x00, DC 0x36 0x00 0x00 0x00, DC 0x37 0x00 0x00 0x00,
    DC 0x3b 0x00 0x00 0x00, DC 0x3c 0x00 0x00 0x00, DC 0x3e 0x00 0x00 0x00, DC 0x3f 0x00 0x00 0x00,
    DC 0x42 0x00 0x00 0x00, DC 0x43 0x00 0x00 0x00, DC 0x45 0x00 0x00 0x00, DC 0x48 0x00 0x00 0x01],
    \<comment> \<open>41\<close>
   [DC 0x00 0x01 0x45 0x01, DC 0x00 0x01 0x46 0x01, DC 0x00 0x01 0x47 0x01, DC 0x00 0x01 0x48 0x01,
    DC 0x00 0x01 0x49 0x01, DC 0x00 0x01 0x4a 0x01, DC 0x00 0x01 0x4b 0x01, DC 0x00 0x01 0x4c 0x01,
    DC 0x00 0x01 0x4d 0x01, DC 0x00 0x01 0x4e 0x01, DC 0x00 0x01 0x4f 0x01, DC 0x00 0x01 0x50 0x01,
    DC 0x00 0x01 0x51 0x01, DC 0x00 0x01 0x52 0x01, DC 0x00 0x01 0x53 0x01, DC 0x00 0x01 0x54 0x01],
    \<comment> \<open>42\<close>
   [DC 0x01 0x01 0x45 0x00, DC 0x16 0x01 0x45 0x01, DC 0x01 0x01 0x46 0x00, DC 0x16 0x01 0x46 0x01,
    DC 0x01 0x01 0x47 0x00, DC 0x16 0x01 0x47 0x01, DC 0x01 0x01 0x48 0x00, DC 0x16 0x01 0x48 0x01,
    DC 0x01 0x01 0x49 0x00, DC 0x16 0x01 0x49 0x01, DC 0x01 0x01 0x4a 0x00, DC 0x16 0x01 0x4a 0x01,
    DC 0x01 0x01 0x4b 0x00, DC 0x16 0x01 0x4b 0x01, DC 0x01 0x01 0x4c 0x00, DC 0x16 0x01 0x4c 0x01],
    \<comment> \<open>43\<close>
   [DC 0x02 0x01 0x45 0x00, DC 0x09 0x01 0x45 0x00, DC 0x17 0x01 0x45 0x00, DC 0x28 0x01 0x45 0x01,
    DC 0x02 0x01 0x46 0x00, DC 0x09 0x01 0x46 0x00, DC 0x17 0x01 0x46 0x00, DC 0x28 0x01 0x46 0x01,
    DC 0x02 0x01 0x47 0x00, DC 0x09 0x01 0x47 0x00, DC 0x17 0x01 0x47 0x00, DC 0x28 0x01 0x47 0x01,
    DC 0x02 0x01 0x48 0x00, DC 0x09 0x01 0x48 0x00, DC 0x17 0x01 0x48 0x00, DC 0x28 0x01 0x48 0x01],
    \<comment> \<open>44\<close>
   [DC 0x03 0x01 0x45 0x00, DC 0x06 0x01 0x45 0x00, DC 0x0a 0x01 0x45 0x00, DC 0x0f 0x01 0x45 0x00,
    DC 0x18 0x01 0x45 0x00, DC 0x1f 0x01 0x45 0x00, DC 0x29 0x01 0x45 0x00, DC 0x38 0x01 0x45 0x01,
    DC 0x03 0x01 0x46 0x00, DC 0x06 0x01 0x46 0x00, DC 0x0a 0x01 0x46 0x00, DC 0x0f 0x01 0x46 0x00,
    DC 0x18 0x01 0x46 0x00, DC 0x1f 0x01 0x46 0x00, DC 0x29 0x01 0x46 0x00, DC 0x38 0x01 0x46 0x01],
    \<comment> \<open>45\<close>
   [DC 0x03 0x01 0x47 0x00, DC 0x06 0x01 0x47 0x00, DC 0x0a 0x01 0x47 0x00, DC 0x0f 0x01 0x47 0x00,
    DC 0x18 0x01 0x47 0x00, DC 0x1f 0x01 0x47 0x00, DC 0x29 0x01 0x47 0x00, DC 0x38 0x01 0x47 0x01,
    DC 0x03 0x01 0x48 0x00, DC 0x06 0x01 0x48 0x00, DC 0x0a 0x01 0x48 0x00, DC 0x0f 0x01 0x48 0x00,
    DC 0x18 0x01 0x48 0x00, DC 0x1f 0x01 0x48 0x00, DC 0x29 0x01 0x48 0x00, DC 0x38 0x01 0x48 0x01],
    \<comment> \<open>46\<close>
   [DC 0x02 0x01 0x49 0x00, DC 0x09 0x01 0x49 0x00, DC 0x17 0x01 0x49 0x00, DC 0x28 0x01 0x49 0x01,
    DC 0x02 0x01 0x4a 0x00, DC 0x09 0x01 0x4a 0x00, DC 0x17 0x01 0x4a 0x00, DC 0x28 0x01 0x4a 0x01,
    DC 0x02 0x01 0x4b 0x00, DC 0x09 0x01 0x4b 0x00, DC 0x17 0x01 0x4b 0x00, DC 0x28 0x01 0x4b 0x01,
    DC 0x02 0x01 0x4c 0x00, DC 0x09 0x01 0x4c 0x00, DC 0x17 0x01 0x4c 0x00, DC 0x28 0x01 0x4c 0x01],
    \<comment> \<open>47\<close>
   [DC 0x03 0x01 0x49 0x00, DC 0x06 0x01 0x49 0x00, DC 0x0a 0x01 0x49 0x00, DC 0x0f 0x01 0x49 0x00,
    DC 0x18 0x01 0x49 0x00, DC 0x1f 0x01 0x49 0x00, DC 0x29 0x01 0x49 0x00, DC 0x38 0x01 0x49 0x01,
    DC 0x03 0x01 0x4a 0x00, DC 0x06 0x01 0x4a 0x00, DC 0x0a 0x01 0x4a 0x00, DC 0x0f 0x01 0x4a 0x00,
    DC 0x18 0x01 0x4a 0x00, DC 0x1f 0x01 0x4a 0x00, DC 0x29 0x01 0x4a 0x00, DC 0x38 0x01 0x4a 0x01]
   ]"

definition huff_codes_48 :: "ngx_http_v2_huff_decode_code_t list list" where
  "huff_codes_48 = [
    \<comment> \<open>48\<close>
   [DC 0x03 0x01 0x4b 0x00, DC 0x06 0x01 0x4b 0x00, DC 0x0a 0x01 0x4b 0x00, DC 0x0f 0x01 0x4b 0x00,
    DC 0x18 0x01 0x4b 0x00, DC 0x1f 0x01 0x4b 0x00, DC 0x29 0x01 0x4b 0x00, DC 0x38 0x01 0x4b 0x01,
    DC 0x03 0x01 0x4c 0x00, DC 0x06 0x01 0x4c 0x00, DC 0x0a 0x01 0x4c 0x00, DC 0x0f 0x01 0x4c 0x00,
    DC 0x18 0x01 0x4c 0x00, DC 0x1f 0x01 0x4c 0x00, DC 0x29 0x01 0x4c 0x00, DC 0x38 0x01 0x4c 0x01],
    \<comment> \<open>49\<close>
   [DC 0x01 0x01 0x4d 0x00, DC 0x16 0x01 0x4d 0x01, DC 0x01 0x01 0x4e 0x00, DC 0x16 0x01 0x4e 0x01,
    DC 0x01 0x01 0x4f 0x00, DC 0x16 0x01 0x4f 0x01, DC 0x01 0x01 0x50 0x00, DC 0x16 0x01 0x50 0x01,
    DC 0x01 0x01 0x51 0x00, DC 0x16 0x01 0x51 0x01, DC 0x01 0x01 0x52 0x00, DC 0x16 0x01 0x52 0x01,
    DC 0x01 0x01 0x53 0x00, DC 0x16 0x01 0x53 0x01, DC 0x01 0x01 0x54 0x00, DC 0x16 0x01 0x54 0x01],
    \<comment> \<open>50\<close>
   [DC 0x02 0x01 0x4d 0x00, DC 0x09 0x01 0x4d 0x00, DC 0x17 0x01 0x4d 0x00, DC 0x28 0x01 0x4d 0x01,
    DC 0x02 0x01 0x4e 0x00, DC 0x09 0x01 0x4e 0x00, DC 0x17 0x01 0x4e 0x00, DC 0x28 0x01 0x4e 0x01,
    DC 0x02 0x01 0x4f 0x00, DC 0x09 0x01 0x4f 0x00, DC 0x17 0x01 0x4f 0x00, DC 0x28 0x01 0x4f 0x01,
    DC 0x02 0x01 0x50 0x00, DC 0x09 0x01 0x50 0x00, DC 0x17 0x01 0x50 0x00, DC 0x28 0x01 0x50 0x01],
    \<comment> \<open>51\<close>
   [DC 0x03 0x01 0x4d 0x00, DC 0x06 0x01 0x4d 0x00, DC 0x0a 0x01 0x4d 0x00, DC 0x0f 0x01 0x4d 0x00,
    DC 0x18 0x01 0x4d 0x00, DC 0x1f 0x01 0x4d 0x00, DC 0x29 0x01 0x4d 0x00, DC 0x38 0x01 0x4d 0x01,
    DC 0x03 0x01 0x4e 0x00, DC 0x06 0x01 0x4e 0x00, DC 0x0a 0x01 0x4e 0x00, DC 0x0f 0x01 0x4e 0x00,
    DC 0x18 0x01 0x4e 0x00, DC 0x1f 0x01 0x4e 0x00, DC 0x29 0x01 0x4e 0x00, DC 0x38 0x01 0x4e 0x01],
    \<comment> \<open>52\<close>
   [DC 0x03 0x01 0x4f 0x00, DC 0x06 0x01 0x4f 0x00, DC 0x0a 0x01 0x4f 0x00, DC 0x0f 0x01 0x4f 0x00,
    DC 0x18 0x01 0x4f 0x00, DC 0x1f 0x01 0x4f 0x00, DC 0x29 0x01 0x4f 0x00, DC 0x38 0x01 0x4f 0x01,
    DC 0x03 0x01 0x50 0x00, DC 0x06 0x01 0x50 0x00, DC 0x0a 0x01 0x50 0x00, DC 0x0f 0x01 0x50 0x00,
    DC 0x18 0x01 0x50 0x00, DC 0x1f 0x01 0x50 0x00, DC 0x29 0x01 0x50 0x00, DC 0x38 0x01 0x50 0x01],
    \<comment> \<open>53\<close>
   [DC 0x02 0x01 0x51 0x00, DC 0x09 0x01 0x51 0x00, DC 0x17 0x01 0x51 0x00, DC 0x28 0x01 0x51 0x01,
    DC 0x02 0x01 0x52 0x00, DC 0x09 0x01 0x52 0x00, DC 0x17 0x01 0x52 0x00, DC 0x28 0x01 0x52 0x01,
    DC 0x02 0x01 0x53 0x00, DC 0x09 0x01 0x53 0x00, DC 0x17 0x01 0x53 0x00, DC 0x28 0x01 0x53 0x01,
    DC 0x02 0x01 0x54 0x00, DC 0x09 0x01 0x54 0x00, DC 0x17 0x01 0x54 0x00, DC 0x28 0x01 0x54 0x01],
    \<comment> \<open>54\<close>
   [DC 0x03 0x01 0x51 0x00, DC 0x06 0x01 0x51 0x00, DC 0x0a 0x01 0x51 0x00, DC 0x0f 0x01 0x51 0x00,
    DC 0x18 0x01 0x51 0x00, DC 0x1f 0x01 0x51 0x00, DC 0x29 0x01 0x51 0x00, DC 0x38 0x01 0x51 0x01,
    DC 0x03 0x01 0x52 0x00, DC 0x06 0x01 0x52 0x00, DC 0x0a 0x01 0x52 0x00, DC 0x0f 0x01 0x52 0x00,
    DC 0x18 0x01 0x52 0x00, DC 0x1f 0x01 0x52 0x00, DC 0x29 0x01 0x52 0x00, DC 0x38 0x01 0x52 0x01],
    \<comment> \<open>55\<close>
   [DC 0x03 0x01 0x53 0x00, DC 0x06 0x01 0x53 0x00, DC 0x0a 0x01 0x53 0x00, DC 0x0f 0x01 0x53 0x00,
    DC 0x18 0x01 0x53 0x00, DC 0x1f 0x01 0x53 0x00, DC 0x29 0x01 0x53 0x00, DC 0x38 0x01 0x53 0x01,
    DC 0x03 0x01 0x54 0x00, DC 0x06 0x01 0x54 0x00, DC 0x0a 0x01 0x54 0x00, DC 0x0f 0x01 0x54 0x00,
    DC 0x18 0x01 0x54 0x00, DC 0x1f 0x01 0x54 0x00, DC 0x29 0x01 0x54 0x00, DC 0x38 0x01 0x54 0x01]
   ]"

definition huff_codes_56 :: "ngx_http_v2_huff_decode_code_t list list" where
  "huff_codes_56 = [
    \<comment> \<open>56\<close>
   [DC 0x00 0x01 0x55 0x01, DC 0x00 0x01 0x56 0x01, DC 0x00 0x01 0x57 0x01, DC 0x00 0x01 0x59 0x01,
    DC 0x00 0x01 0x6a 0x01, DC 0x00 0x01 0x6b 0x01, DC 0x00 0x01 0x71 0x01, DC 0x00 0x01 0x76 0x01,
    DC 0x00 0x01 0x77 0x01, DC 0x00 0x01 0x78 0x01, DC 0x00 0x01 0x79 0x01, DC 0x00 0x01 0x7a 0x01,
    DC 0x46 0x00 0x00 0x00, DC 0x47 0x00 0x00 0x00, DC 0x49 0x00 0x00 0x00, DC 0x4a 0x00 0x00 0x01],
    \<comment> \<open>57\<close>
   [DC 0x01 0x01 0x55 0x00, DC 0x16 0x01 0x55 0x01, DC 0x01 0x01 0x56 0x00, DC 0x16 0x01 0x56 0x01,
    DC 0x01 0x01 0x57 0x00, DC 0x16 0x01 0x57 0x01, DC 0x01 0x01 0x59 0x00, DC 0x16 0x01 0x59 0x01,
    DC 0x01 0x01 0x6a 0x00, DC 0x16 0x01 0x6a 0x01, DC 0x01 0x01 0x6b 0x00, DC 0x16 0x01 0x6b 0x01,
    DC 0x01 0x01 0x71 0x00, DC 0x16 0x01 0x71 0x01, DC 0x01 0x01 0x76 0x00, DC 0x16 0x01 0x76 0x01],
    \<comment> \<open>58\<close>
   [DC 0x02 0x01 0x55 0x00, DC 0x09 0x01 0x55 0x00, DC 0x17 0x01 0x55 0x00, DC 0x28 0x01 0x55 0x01,
    DC 0x02 0x01 0x56 0x00, DC 0x09 0x01 0x56 0x00, DC 0x17 0x01 0x56 0x00, DC 0x28 0x01 0x56 0x01,
    DC 0x02 0x01 0x57 0x00, DC 0x09 0x01 0x57 0x00, DC 0x17 0x01 0x57 0x00, DC 0x28 0x01 0x57 0x01,
    DC 0x02 0x01 0x59 0x00, DC 0x09 0x01 0x59 0x00, DC 0x17 0x01 0x59 0x00, DC 0x28 0x01 0x59 0x01],
    \<comment> \<open>59\<close>
   [DC 0x03 0x01 0x55 0x00, DC 0x06 0x01 0x55 0x00, DC 0x0a 0x01 0x55 0x00, DC 0x0f 0x01 0x55 0x00,
    DC 0x18 0x01 0x55 0x00, DC 0x1f 0x01 0x55 0x00, DC 0x29 0x01 0x55 0x00, DC 0x38 0x01 0x55 0x01,
    DC 0x03 0x01 0x56 0x00, DC 0x06 0x01 0x56 0x00, DC 0x0a 0x01 0x56 0x00, DC 0x0f 0x01 0x56 0x00,
    DC 0x18 0x01 0x56 0x00, DC 0x1f 0x01 0x56 0x00, DC 0x29 0x01 0x56 0x00, DC 0x38 0x01 0x56 0x01],
    \<comment> \<open>60\<close>
   [DC 0x03 0x01 0x57 0x00, DC 0x06 0x01 0x57 0x00, DC 0x0a 0x01 0x57 0x00, DC 0x0f 0x01 0x57 0x00,
    DC 0x18 0x01 0x57 0x00, DC 0x1f 0x01 0x57 0x00, DC 0x29 0x01 0x57 0x00, DC 0x38 0x01 0x57 0x01,
    DC 0x03 0x01 0x59 0x00, DC 0x06 0x01 0x59 0x00, DC 0x0a 0x01 0x59 0x00, DC 0x0f 0x01 0x59 0x00,
    DC 0x18 0x01 0x59 0x00, DC 0x1f 0x01 0x59 0x00, DC 0x29 0x01 0x59 0x00, DC 0x38 0x01 0x59 0x01],
    \<comment> \<open>61\<close>
   [DC 0x02 0x01 0x6a 0x00, DC 0x09 0x01 0x6a 0x00, DC 0x17 0x01 0x6a 0x00, DC 0x28 0x01 0x6a 0x01,
    DC 0x02 0x01 0x6b 0x00, DC 0x09 0x01 0x6b 0x00, DC 0x17 0x01 0x6b 0x00, DC 0x28 0x01 0x6b 0x01,
    DC 0x02 0x01 0x71 0x00, DC 0x09 0x01 0x71 0x00, DC 0x17 0x01 0x71 0x00, DC 0x28 0x01 0x71 0x01,
    DC 0x02 0x01 0x76 0x00, DC 0x09 0x01 0x76 0x00, DC 0x17 0x01 0x76 0x00, DC 0x28 0x01 0x76 0x01],
    \<comment> \<open>62\<close>
   [DC 0x03 0x01 0x6a 0x00, DC 0x06 0x01 0x6a 0x00, DC 0x0a 0x01 0x6a 0x00, DC 0x0f 0x01 0x6a 0x00,
    DC 0x18 0x01 0x6a 0x00, DC 0x1f 0x01 0x6a 0x00, DC 0x29 0x01 0x6a 0x00, DC 0x38 0x01 0x6a 0x01,
    DC 0x03 0x01 0x6b 0x00, DC 0x06 0x01 0x6b 0x00, DC 0x0a 0x01 0x6b 0x00, DC 0x0f 0x01 0x6b 0x00,
    DC 0x18 0x01 0x6b 0x00, DC 0x1f 0x01 0x6b 0x00, DC 0x29 0x01 0x6b 0x00, DC 0x38 0x01 0x6b 0x01],
    \<comment> \<open>63\<close>
   [DC 0x03 0x01 0x71 0x00, DC 0x06 0x01 0x71 0x00, DC 0x0a 0x01 0x71 0x00, DC 0x0f 0x01 0x71 0x00,
    DC 0x18 0x01 0x71 0x00, DC 0x1f 0x01 0x71 0x00, DC 0x29 0x01 0x71 0x00, DC 0x38 0x01 0x71 0x01,
    DC 0x03 0x01 0x76 0x00, DC 0x06 0x01 0x76 0x00, DC 0x0a 0x01 0x76 0x00, DC 0x0f 0x01 0x76 0x00,
    DC 0x18 0x01 0x76 0x00, DC 0x1f 0x01 0x76 0x00, DC 0x29 0x01 0x76 0x00, DC 0x38 0x01 0x76 0x01]
   ]"

definition huff_codes_64 :: "ngx_http_v2_huff_decode_code_t list list" where
  "huff_codes_64 = [
    \<comment> \<open>64\<close>
   [DC 0x01 0x01 0x77 0x00, DC 0x16 0x01 0x77 0x01, DC 0x01 0x01 0x78 0x00, DC 0x16 0x01 0x78 0x01,
    DC 0x01 0x01 0x79 0x00, DC 0x16 0x01 0x79 0x01, DC 0x01 0x01 0x7a 0x00, DC 0x16 0x01 0x7a 0x01,
    DC 0x00 0x01 0x26 0x01, DC 0x00 0x01 0x2a 0x01, DC 0x00 0x01 0x2c 0x01, DC 0x00 0x01 0x3b 0x01,
    DC 0x00 0x01 0x58 0x01, DC 0x00 0x01 0x5a 0x01, DC 0x4b 0x00 0x00 0x00, DC 0x4e 0x00 0x00 0x01],
    \<comment> \<open>65\<close>
   [DC 0x02 0x01 0x77 0x00, DC 0x09 0x01 0x77 0x00, DC 0x17 0x01 0x77 0x00, DC 0x28 0x01 0x77 0x01,
    DC 0x02 0x01 0x78 0x00, DC 0x09 0x01 0x78 0x00, DC 0x17 0x01 0x78 0x00, DC 0x28 0x01 0x78 0x01,
    DC 0x02 0x01 0x79 0x00, DC 0x09 0x01 0x79 0x00, DC 0x17 0x01 0x79 0x00, DC 0x28 0x01 0x79 0x01,
    DC 0x02 0x01 0x7a 0x00, DC 0x09 0x01 0x7a 0x00, DC 0x17 0x01 0x7a 0x00, DC 0x28 0x01 0x7a 0x01],
    \<comment> \<open>66\<close>
   [DC 0x03 0x01 0x77 0x00, DC 0x06 0x01 0x77 0x00, DC 0x0a 0x01 0x77 0x00, DC 0x0f 0x01 0x77 0x00,
    DC 0x18 0x01 0x77 0x00, DC 0x1f 0x01 0x77 0x00, DC 0x29 0x01 0x77 0x00, DC 0x38 0x01 0x77 0x01,
    DC 0x03 0x01 0x78 0x00, DC 0x06 0x01 0x78 0x00, DC 0x0a 0x01 0x78 0x00, DC 0x0f 0x01 0x78 0x00,
    DC 0x18 0x01 0x78 0x00, DC 0x1f 0x01 0x78 0x00, DC 0x29 0x01 0x78 0x00, DC 0x38 0x01 0x78 0x01],
    \<comment> \<open>67\<close>
   [DC 0x03 0x01 0x79 0x00, DC 0x06 0x01 0x79 0x00, DC 0x0a 0x01 0x79 0x00, DC 0x0f 0x01 0x79 0x00,
    DC 0x18 0x01 0x79 0x00, DC 0x1f 0x01 0x79 0x00, DC 0x29 0x01 0x79 0x00, DC 0x38 0x01 0x79 0x01,
    DC 0x03 0x01 0x7a 0x00, DC 0x06 0x01 0x7a 0x00, DC 0x0a 0x01 0x7a 0x00, DC 0x0f 0x01 0x7a 0x00,
    DC 0x18 0x01 0x7a 0x00, DC 0x1f 0x01 0x7a 0x00, DC 0x29 0x01 0x7a 0x00, DC 0x38 0x01 0x7a 0x01],
    \<comment> \<open>68\<close>
   [DC 0x01 0x01 0x26 0x00, DC 0x16 0x01 0x26 0x01, DC 0x01 0x01 0x2a 0x00, DC 0x16 0x01 0x2a 0x01,
    DC 0x01 0x01 0x2c 0x00, DC 0x16 0x01 0x2c 0x01, DC 0x01 0x01 0x3b 0x00, DC 0x16 0x01 0x3b 0x01,
    DC 0x01 0x01 0x58 0x00, DC 0x16 0x01 0x58 0x01, DC 0x01 0x01 0x5a 0x00, DC 0x16 0x01 0x5a 0x01,
    DC 0x4c 0x00 0x00 0x00, DC 0x4d 0x00 0x00 0x00, DC 0x4f 0x00 0x00 0x00, DC 0x51 0x00 0x00 0x01],
    \<comment> \<open>69\<close>
   [DC 0x02 0x01 0x26 0x00, DC 0x09 0x01 0x26 0x00, DC 0x17 0x01 0x26 0x00, DC 0x28 0x01 0x26 0x01,
    DC 0x02 0x01 0x2a 0x00, DC 0x09 0x01 0x2a 0x00, DC 0x17 0x01 0x2a 0x00, DC 0x28 0x01 0x2a 0x01,
    DC 0x02 0x01 0x2c 0x00, DC 0x09 0x01 0x2c 0x00, DC 0x17 0x01 0x2c 0x00, DC 0x28 0x01 0x2c 0x01,
    DC 0x02 0x01 0x3b 0x00, DC 0x09 0x01 0x3b 0x00, DC 0x17 0x01 0x3b 0x00, DC 0x28 0x01 0x3b 0x01],
    \<comment> \<open>70\<close>
   [DC 0x03 0x01 0x26 0x00, DC 0x06 0x01 0x26 0x00, DC 0x0a 0x01 0x26 0x00, DC 0x0f 0x01 0x26 0x00,
    DC 0x18 0x01 0x26 0x00, DC 0x1f 0x01 0x26 0x00, DC 0x29 0x01 0x26 0x00, DC 0x38 0x01 0x26 0x01,
    DC 0x03 0x01 0x2a 0x00, DC 0x06 0x01 0x2a 0x00, DC 0x0a 0x01 0x2a 0x00, DC 0x0f 0x01 0x2a 0x00,
    DC 0x18 0x01 0x2a 0x00, DC 0x1f 0x01 0x2a 0x00, DC 0x29 0x01 0x2a 0x00, DC 0x38 0x01 0x2a 0x01],
    \<comment> \<open>71\<close>
   [DC 0x03 0x01 0x2c 0x00, DC 0x06 0x01 0x2c 0x00, DC 0x0a 0x01 0x2c 0x00, DC 0x0f 0x01 0x2c 0x00,
    DC 0x18 0x01 0x2c 0x00, DC 0x1f 0x01 0x2c 0x00, DC 0x29 0x01 0x2c 0x00, DC 0x38 0x01 0x2c 0x01,
    DC 0x03 0x01 0x3b 0x00, DC 0x06 0x01 0x3b 0x00, DC 0x0a 0x01 0x3b 0x00, DC 0x0f 0x01 0x3b 0x00,
    DC 0x18 0x01 0x3b 0x00, DC 0x1f 0x01 0x3b 0x00, DC 0x29 0x01 0x3b 0x00, DC 0x38 0x01 0x3b 0x01]
   ]"

definition huff_codes_72 :: "ngx_http_v2_huff_decode_code_t list list" where
  "huff_codes_72 = [
    \<comment> \<open>72\<close>
   [DC 0x02 0x01 0x58 0x00, DC 0x09 0x01 0x58 0x00, DC 0x17 0x01 0x58 0x00, DC 0x28 0x01 0x58 0x01,
    DC 0x02 0x01 0x5a 0x00, DC 0x09 0x01 0x5a 0x00, DC 0x17 0x01 0x5a 0x00, DC 0x28 0x01 0x5a 0x01,
    DC 0x00 0x01 0x21 0x01, DC 0x00 0x01 0x22 0x01, DC 0x00 0x01 0x28 0x01, DC 0x00 0x01 0x29 0x01,
    DC 0x00 0x01 0x3f 0x01, DC 0x50 0x00 0x00 0x00, DC 0x52 0x00 0x00 0x00, DC 0x54 0x00 0x00 0x01],
    \<comment> \<open>73\<close>
   [DC 0x03 0x01 0x58 0x00, DC 0x06 0x01 0x58 0x00, DC 0x0a 0x01 0x58 0x00, DC 0x0f 0x01 0x58 0x00,
    DC 0x18 0x01 0x58 0x00, DC 0x1f 0x01 0x58 0x00, DC 0x29 0x01 0x58 0x00, DC 0x38 0x01 0x58 0x01,
    DC 0x03 0x01 0x5a 0x00, DC 0x06 0x01 0x5a 0x00, DC 0x0a 0x01 0x5a 0x00, DC 0x0f 0x01 0x5a 0x00,
    DC 0x18 0x01 0x5a 0x00, DC 0x1f 0x01 0x5a 0x00, DC 0x29 0x01 0x5a 0x00, DC 0x38 0x01 0x5a 0x01],
    \<comment> \<open>74\<close>
   [DC 0x01 0x01 0x21 0x00, DC 0x16 0x01 0x21 0x01, DC 0x01 0x01 0x22 0x00, DC 0x16 0x01 0x22 0x01,
    DC 0x01 0x01 0x28 0x00, DC 0x16 0x01 0x28 0x01, DC 0x01 0x01 0x29 0x00, DC 0x16 0x01 0x29 0x01,
    DC 0x01 0x01 0x3f 0x00, DC 0x16 0x01 0x3f 0x01, DC 0x00 0x01 0x27 0x01, DC 0x00 0x01 0x2b 0x01,
    DC 0x00 0x01 0x7c 0x01, DC 0x53 0x00 0x00 0x00, DC 0x55 0x00 0x00 0x00, DC 0x58 0x00 0x00 0x01],
    \<comment> \<open>75\<close>
   [DC 0x02 0x01 0x21 0x00, DC 0x09 0x01 0x21 0x00, DC 0x17 0x01 0x21 0x00, DC 0x28 0x01 0x21 0x01,
    DC 0x02 0x01 0x22 0x00, DC 0x09 0x01 0x22 0x00, DC 0x17 0x01 0x22 0x00, DC 0x28 0x01 0x22 0x01,
    DC 0x02 0x01 0x28 0x00, DC 0x09 0x01 0x28 0x00, DC 0x17 0x01 0x28 0x00, DC 0x28 0x01 0x28 0x01,
    DC 0x02 0x01 0x29 0x00, DC 0x09 0x01 0x29 0x00, DC 0x17 0x01 0x29 0x00, DC 0x28 0x01 0x29 0x01],
    \<comment> \<open>76\<close>
   [DC 0x03 0x01 0x21 0x00, DC 0x06 0x01 0x21 0x00, DC 0x0a 0x01 0x21 0x00, DC 0x0f 0x01 0x21 0x00,
    DC 0x18 0x01 0x21 0x00, DC 0x1f 0x01 0x21 0x00, DC 0x29 0x01 0x21 0x00, DC 0x38 0x01 0x21 0x01,
    DC 0x03 0x01 0x22 0x00, DC 0x06 0x01 0x22 0x00, DC 0x0a 0x01 0x22 0x00, DC 0x0f 0x01 0x22 0x00,
    DC 0x18 0x01 0x22 0x00, DC 0x1f 0x01 0x22 0x00, DC 0x29 0x01 0x22 0x00, DC 0x38 0x01 0x22 0x01],
    \<comment> \<open>77\<close>
   [DC 0x03 0x01 0x28 0x00, DC 0x06 0x01 0x28 0x00, DC 0x0a 0x01 0x28 0x00, DC 0x0f 0x01 0x28 0x00,
    DC 0x18 0x01 0x28 0x00, DC 0x1f 0x01 0x28 0x00, DC 0x29 0x01 0x28 0x00, DC 0x38 0x01 0x28 0x01,
    DC 0x03 0x01 0x29 0x00, DC 0x06 0x01 0x29 0x00, DC 0x0a 0x01 0x29 0x00, DC 0x0f 0x01 0x29 0x00,
    DC 0x18 0x01 0x29 0x00, DC 0x1f 0x01 0x29 0x00, DC 0x29 0x01 0x29 0x00, DC 0x38 0x01 0x29 0x01],
    \<comment> \<open>78\<close>
   [DC 0x02 0x01 0x3f 0x00, DC 0x09 0x01 0x3f 0x00, DC 0x17 0x01 0x3f 0x00, DC 0x28 0x01 0x3f 0x01,
    DC 0x01 0x01 0x27 0x00, DC 0x16 0x01 0x27 0x01, DC 0x01 0x01 0x2b 0x00, DC 0x16 0x01 0x2b 0x01,
    DC 0x01 0x01 0x7c 0x00, DC 0x16 0x01 0x7c 0x01, DC 0x00 0x01 0x23 0x01, DC 0x00 0x01 0x3e 0x01,
    DC 0x56 0x00 0x00 0x00, DC 0x57 0x00 0x00 0x00, DC 0x59 0x00 0x00 0x00, DC 0x5a 0x00 0x00 0x01],
    \<comment> \<open>79\<close>
   [DC 0x03 0x01 0x3f 0x00, DC 0x06 0x01 0x3f 0x00, DC 0x0a 0x01 0x3f 0x00, DC 0x0f 0x01 0x3f 0x00,
    DC 0x18 0x01 0x3f 0x00, DC 0x1f 0x01 0x3f 0x00, DC 0x29 0x01 0x3f 0x00, DC 0x38 0x01 0x3f 0x01,
    DC 0x02 0x01 0x27 0x00, DC 0x09 0x01 0x27 0x00, DC 0x17 0x01 0x27 0x00, DC 0x28 0x01 0x27 0x01,
    DC 0x02 0x01 0x2b 0x00, DC 0x09 0x01 0x2b 0x00, DC 0x17 0x01 0x2b 0x00, DC 0x28 0x01 0x2b 0x01]
   ]"

definition huff_codes_80 :: "ngx_http_v2_huff_decode_code_t list list" where
  "huff_codes_80 = [
    \<comment> \<open>80\<close>
   [DC 0x03 0x01 0x27 0x00, DC 0x06 0x01 0x27 0x00, DC 0x0a 0x01 0x27 0x00, DC 0x0f 0x01 0x27 0x00,
    DC 0x18 0x01 0x27 0x00, DC 0x1f 0x01 0x27 0x00, DC 0x29 0x01 0x27 0x00, DC 0x38 0x01 0x27 0x01,
    DC 0x03 0x01 0x2b 0x00, DC 0x06 0x01 0x2b 0x00, DC 0x0a 0x01 0x2b 0x00, DC 0x0f 0x01 0x2b 0x00,
    DC 0x18 0x01 0x2b 0x00, DC 0x1f 0x01 0x2b 0x00, DC 0x29 0x01 0x2b 0x00, DC 0x38 0x01 0x2b 0x01],
    \<comment> \<open>81\<close>
   [DC 0x02 0x01 0x7c 0x00, DC 0x09 0x01 0x7c 0x00, DC 0x17 0x01 0x7c 0x00, DC 0x28 0x01 0x7c 0x01,
    DC 0x01 0x01 0x23 0x00, DC 0x16 0x01 0x23 0x01, DC 0x01 0x01 0x3e 0x00, DC 0x16 0x01 0x3e 0x01,
    DC 0x00 0x01 0x00 0x01, DC 0x00 0x01 0x24 0x01, DC 0x00 0x01 0x40 0x01, DC 0x00 0x01 0x5b 0x01,
    DC 0x00 0x01 0x5d 0x01, DC 0x00 0x01 0x7e 0x01, DC 0x5b 0x00 0x00 0x00, DC 0x5c 0x00 0x00 0x01],
    \<comment> \<open>82\<close>
   [DC 0x03 0x01 0x7c 0x00, DC 0x06 0x01 0x7c 0x00, DC 0x0a 0x01 0x7c 0x00, DC 0x0f 0x01 0x7c 0x00,
    DC 0x18 0x01 0x7c 0x00, DC 0x1f 0x01 0x7c 0x00, DC 0x29 0x01 0x7c 0x00, DC 0x38 0x01 0x7c 0x01,
    DC 0x02 0x01 0x23 0x00, DC 0x09 0x01 0x23 0x00, DC 0x17 0x01 0x23 0x00, DC 0x28 0x01 0x23 0x01,
    DC 0x02 0x01 0x3e 0x00, DC 0x09 0x01 0x3e 0x00, DC 0x17 0x01 0x3e 0x00, DC 0x28 0x01 0x3e 0x01],
    \<comment> \<open>83\<close>
   [DC 0x03 0x01 0x23 0x00, DC 0x06 0x01 0x23 0x00, DC 0x0a 0x01 0x23 0x00, DC 0x0f 0x01 0x23 0x00,
    DC 0x18 0x01 0x23 0x00, DC 0x1f 0x01 0x23 0x00, DC 0x29 0x01 0x23 0x00, DC 0x38 0x01 0x23 0x01,
    DC 0x03 0x01 0x3e 0x00, DC 0x06 0x01 0x3e 0x00, DC 0x0a 0x01 0x3e 0x00, DC 0x0f 0x01 0x3e 0x00,
    DC 0x18 0x01 0x3e 0x00, DC 0x1f 0x01 0x3e 0x00, DC 0x29 0x01 0x3e 0x00, DC 0x38 0x01 0x3e 0x01],
    \<comment> \<open>84\<close>
   [DC 0x01 0x01 0x00 0x00, DC 0x16 0x01 0x00 0x01, DC 0x01 0x01 0x24 0x00, DC 0x16 0x01 0x24 0x01,
    DC 0x01 0x01 0x40 0x00, DC 0x16 0x01 0x40 0x01, DC 0x01 0x01 0x5b 0x00, DC 0x16 0x01 0x5b 0x01,
    DC 0x01 0x01 0x5d 0x00, DC 0x16 0x01 0x5d 0x01, DC 0x01 0x01 0x7e 0x00, DC 0x16 0x01 0x7e 0x01,
    DC 0x00 0x01 0x5e 0x01, DC 0x00 0x01 0x7d 0x01, DC 0x5d 0x00 0x00 0x00, DC 0x5e 0x00 0x00 0x01],
    \<comment> \<open>85\<close>
   [DC 0x02 0x01 0x00 0x00, DC 0x09 0x01 0x00 0x00, DC 0x17 0x01 0x00 0x00, DC 0x28 0x01 0x00 0x01,
    DC 0x02 0x01 0x24 0x00, DC 0x09 0x01 0x24 0x00, DC 0x17 0x01 0x24 0x00, DC 0x28 0x01 0x24 0x01,
    DC 0x02 0x01 0x40 0x00, DC 0x09 0x01 0x40 0x00, DC 0x17 0x01 0x40 0x00, DC 0x28 0x01 0x40 0x01,
    DC 0x02 0x01 0x5b 0x00, DC 0x09 0x01 0x5b 0x00, DC 0x17 0x01 0x5b 0x00, DC 0x28 0x01 0x5b 0x01],
    \<comment> \<open>86\<close>
   [DC 0x03 0x01 0x00 0x00, DC 0x06 0x01 0x00 0x00, DC 0x0a 0x01 0x00 0x00, DC 0x0f 0x01 0x00 0x00,
    DC 0x18 0x01 0x00 0x00, DC 0x1f 0x01 0x00 0x00, DC 0x29 0x01 0x00 0x00, DC 0x38 0x01 0x00 0x01,
    DC 0x03 0x01 0x24 0x00, DC 0x06 0x01 0x24 0x00, DC 0x0a 0x01 0x24 0x00, DC 0x0f 0x01 0x24 0x00,
    DC 0x18 0x01 0x24 0x00, DC 0x1f 0x01 0x24 0x00, DC 0x29 0x01 0x24 0x00, DC 0x38 0x01 0x24 0x01],
    \<comment> \<open>87\<close>
   [DC 0x03 0x01 0x40 0x00, DC 0x06 0x01 0x40 0x00, DC 0x0a 0x01 0x40 0x00, DC 0x0f 0x01 0x40 0x00,
    DC 0x18 0x01 0x40 0x00, DC 0x1f 0x01 0x40 0x00, DC 0x29 0x01 0x40 0x00, DC 0x38 0x01 0x40 0x01,
    DC 0x03 0x01 0x5b 0x00, DC 0x06 0x01 0x5b 0x00, DC 0x0a 0x01 0x5b 0x00, DC 0x0f 0x01 0x5b 0x00,
    DC 0x18 0x01 0x5b 0x00, DC 0x1f 0x01 0x5b 0x00, DC 0x29 0x01 0x5b 0x00, DC 0x38 0x01 0x5b 0x01]
   ]"

definition huff_codes_88 :: "ngx_http_v2_huff_decode_code_t list list" where
  "huff_codes_88 = [
    \<comment> \<open>88\<close>
   [DC 0x02 0x01 0x5d 0x00, DC 0x09 0x01 0x5d 0x00, DC 0x17 0x01 0x5d 0x00, DC 0x28 0x01 0x5d 0x01,
    DC 0x02 0x01 0x7e 0x00, DC 0x09 0x01 0x7e 0x00, DC 0x17 0x01 0x7e 0x00, DC 0x28 0x01 0x7e 0x01,
    DC 0x01 0x01 0x5e 0x00, DC 0x16 0x01 0x5e 0x01, DC 0x01 0x01 0x7d 0x00, DC 0x16 0x01 0x7d 0x01,
    DC 0x00 0x01 0x3c 0x01, DC 0x00 0x01 0x60 0x01, DC 0x00 0x01 0x7b 0x01, DC 0x5f 0x00 0x00 0x01],
    \<comment> \<open>89\<close>
   [DC 0x03 0x01 0x5d 0x00, DC 0x06 0x01 0x5d 0x00, DC 0x0a 0x01 0x5d 0x00, DC 0x0f 0x01 0x5d 0x00,
    DC 0x18 0x01 0x5d 0x00, DC 0x1f 0x01 0x5d 0x00, DC 0x29 0x01 0x5d 0x00, DC 0x38 0x01 0x5d 0x01,
    DC 0x03 0x01 0x7e 0x00, DC 0x06 0x01 0x7e 0x00, DC 0x0a 0x01 0x7e 0x00, DC 0x0f 0x01 0x7e 0x00,
    DC 0x18 0x01 0x7e 0x00, DC 0x1f 0x01 0x7e 0x00, DC 0x29 0x01 0x7e 0x00, DC 0x38 0x01 0x7e 0x01],
    \<comment> \<open>90\<close>
   [DC 0x02 0x01 0x5e 0x00, DC 0x09 0x01 0x5e 0x00, DC 0x17 0x01 0x5e 0x00, DC 0x28 0x01 0x5e 0x01,
    DC 0x02 0x01 0x7d 0x00, DC 0x09 0x01 0x7d 0x00, DC 0x17 0x01 0x7d 0x00, DC 0x28 0x01 0x7d 0x01,
    DC 0x01 0x01 0x3c 0x00, DC 0x16 0x01 0x3c 0x01, DC 0x01 0x01 0x60 0x00, DC 0x16 0x01 0x60 0x01,
    DC 0x01 0x01 0x7b 0x00, DC 0x16 0x01 0x7b 0x01, DC 0x60 0x00 0x00 0x00, DC 0x6e 0x00 0x00 0x01],
    \<comment> \<open>91\<close>
   [DC 0x03 0x01 0x5e 0x00, DC 0x06 0x01 0x5e 0x00, DC 0x0a 0x01 0x5e 0x00, DC 0x0f 0x01 0x5e 0x00,
    DC 0x18 0x01 0x5e 0x00, DC 0x1f 0x01 0x5e 0x00, DC 0x29 0x01 0x5e 0x00, DC 0x38 0x01 0x5e 0x01,
    DC 0x03 0x01 0x7d 0x00, DC 0x06 0x01 0x7d 0x00, DC 0x0a 0x01 0x7d 0x00, DC 0x0f 0x01 0x7d 0x00,
    DC 0x18 0x01 0x7d 0x00, DC 0x1f 0x01 0x7d 0x00, DC 0x29 0x01 0x7d 0x00, DC 0x38 0x01 0x7d 0x01],
    \<comment> \<open>92\<close>
   [DC 0x02 0x01 0x3c 0x00, DC 0x09 0x01 0x3c 0x00, DC 0x17 0x01 0x3c 0x00, DC 0x28 0x01 0x3c 0x01,
    DC 0x02 0x01 0x60 0x00, DC 0x09 0x01 0x60 0x00, DC 0x17 0x01 0x60 0x00, DC 0x28 0x01 0x60 0x01,
    DC 0x02 0x01 0x7b 0x00, DC 0x09 0x01 0x7b 0x00, DC 0x17 0x01 0x7b 0x00, DC 0x28 0x01 0x7b 0x01,
    DC 0x61 0x00 0x00 0x00, DC 0x65 0x00 0x00 0x00, DC 0x6f 0x00 0x00 0x00, DC 0x85 0x00 0x00 0x01],
    \<comment> \<open>93\<close>
   [DC 0x03 0x01 0x3c 0x00, DC 0x06 0x01 0x3c 0x00, DC 0x0a 0x01 0x3c 0x00, DC 0x0f 0x01 0x3c 0x00,
    DC 0x18 0x01 0x3c 0x00, DC 0x1f 0x01 0x3c 0x00, DC 0x29 0x01 0x3c 0x00, DC 0x38 0x01 0x3c 0x01,
    DC 0x03 0x01 0x60 0x00, DC 0x06 0x01 0x60 0x00, DC 0x0a 0x01 0x60 0x00, DC 0x0f 0x01 0x60 0x00,
    DC 0x18 0x01 0x60 0x00, DC 0x1f 0x01 0x60 0x00, DC 0x29 0x01 0x60 0x00, DC 0x38 0x01 0x60 0x01],
    \<comment> \<open>94\<close>
   [DC 0x03 0x01 0x7b 0x00, DC 0x06 0x01 0x7b 0x00, DC 0x0a 0x01 0x7b 0x00, DC 0x0f 0x01 0x7b 0x00,
    DC 0x18 0x01 0x7b 0x00, DC 0x1f 0x01 0x7b 0x00, DC 0x29 0x01 0x7b 0x00, DC 0x38 0x01 0x7b 0x01,
    DC 0x62 0x00 0x00 0x00, DC 0x63 0x00 0x00 0x00, DC 0x66 0x00 0x00 0x00, DC 0x69 0x00 0x00 0x00,
    DC 0x70 0x00 0x00 0x00, DC 0x77 0x00 0x00 0x00, DC 0x86 0x00 0x00 0x00, DC 0x99 0x00 0x00 0x01],
    \<comment> \<open>95\<close>
   [DC 0x00 0x01 0x5c 0x01, DC 0x00 0x01 0xc3 0x01, DC 0x00 0x01 0xd0 0x01, DC 0x64 0x00 0x00 0x00,
    DC 0x67 0x00 0x00 0x00, DC 0x68 0x00 0x00 0x00, DC 0x6a 0x00 0x00 0x00, DC 0x6b 0x00 0x00 0x00,
    DC 0x71 0x00 0x00 0x00, DC 0x74 0x00 0x00 0x00, DC 0x78 0x00 0x00 0x00, DC 0x7e 0x00 0x00 0x00,
    DC 0x87 0x00 0x00 0x00, DC 0x8e 0x00 0x00 0x00, DC 0x9a 0x00 0x00 0x00, DC 0xa9 0x00 0x00 0x01]
   ]"

definition huff_codes_96 :: "ngx_http_v2_huff_decode_code_t list list" where
  "huff_codes_96 = [
    \<comment> \<open>96\<close>
   [DC 0x01 0x01 0x5c 0x00, DC 0x16 0x01 0x5c 0x01, DC 0x01 0x01 0xc3 0x00, DC 0x16 0x01 0xc3 0x01,
    DC 0x01 0x01 0xd0 0x00, DC 0x16 0x01 0xd0 0x01, DC 0x00 0x01 0x80 0x01, DC 0x00 0x01 0x82 0x01,
    DC 0x00 0x01 0x83 0x01, DC 0x00 0x01 0xa2 0x01, DC 0x00 0x01 0xb8 0x01, DC 0x00 0x01 0xc2 0x01,
    DC 0x00 0x01 0xe0 0x01, DC 0x00 0x01 0xe2 0x01, DC 0x6c 0x00 0x00 0x00, DC 0x6d 0x00 0x00 0x00],
    \<comment> \<open>97\<close>
   [DC 0x02 0x01 0x5c 0x00, DC 0x09 0x01 0x5c 0x00, DC 0x17 0x01 0x5c 0x00, DC 0x28 0x01 0x5c 0x01,
    DC 0x02 0x01 0xc3 0x00, DC 0x09 0x01 0xc3 0x00, DC 0x17 0x01 0xc3 0x00, DC 0x28 0x01 0xc3 0x01,
    DC 0x02 0x01 0xd0 0x00, DC 0x09 0x01 0xd0 0x00, DC 0x17 0x01 0xd0 0x00, DC 0x28 0x01 0xd0 0x01,
    DC 0x01 0x01 0x80 0x00, DC 0x16 0x01 0x80 0x01, DC 0x01 0x01 0x82 0x00, DC 0x16 0x01 0x82 0x01],
    \<comment> \<open>98\<close>
   [DC 0x03 0x01 0x5c 0x00, DC 0x06 0x01 0x5c 0x00, DC 0x0a 0x01 0x5c 0x00, DC 0x0f 0x01 0x5c 0x00,
    DC 0x18 0x01 0x5c 0x00, DC 0x1f 0x01 0x5c 0x00, DC 0x29 0x01 0x5c 0x00, DC 0x38 0x01 0x5c 0x01,
    DC 0x03 0x01 0xc3 0x00, DC 0x06 0x01 0xc3 0x00, DC 0x0a 0x01 0xc3 0x00, DC 0x0f 0x01 0xc3 0x00,
    DC 0x18 0x01 0xc3 0x00, DC 0x1f 0x01 0xc3 0x00, DC 0x29 0x01 0xc3 0x00, DC 0x38 0x01 0xc3 0x01],
    \<comment> \<open>99\<close>
   [DC 0x03 0x01 0xd0 0x00, DC 0x06 0x01 0xd0 0x00, DC 0x0a 0x01 0xd0 0x00, DC 0x0f 0x01 0xd0 0x00,
    DC 0x18 0x01 0xd0 0x00, DC 0x1f 0x01 0xd0 0x00, DC 0x29 0x01 0xd0 0x00, DC 0x38 0x01 0xd0 0x01,
    DC 0x02 0x01 0x80 0x00, DC 0x09 0x01 0x80 0x00, DC 0x17 0x01 0x80 0x00, DC 0x28 0x01 0x80 0x01,
    DC 0x02 0x01 0x82 0x00, DC 0x09 0x01 0x82 0x00, DC 0x17 0x01 0x82 0x00, DC 0x28 0x01 0x82 0x01],
    \<comment> \<open>100\<close>
   [DC 0x03 0x01 0x80 0x00, DC 0x06 0x01 0x80 0x00, DC 0x0a 0x01 0x80 0x00, DC 0x0f 0x01 0x80 0x00,
    DC 0x18 0x01 0x80 0x00, DC 0x1f 0x01 0x80 0x00, DC 0x29 0x01 0x80 0x00, DC 0x38 0x01 0x80 0x01,
    DC 0x03 0x01 0x82 0x00, DC 0x06 0x01 0x82 0x00, DC 0x0a 0x01 0x82 0x00, DC 0x0f 0x01 0x82 0x00,
    DC 0x18 0x01 0x82 0x00, DC 0x1f 0x01 0x82 0x00, DC 0x29 0x01 0x82 0x00, DC 0x38 0x01 0x82 0x01],
    \<comment> \<open>101\<close>
   [DC 0x01 0x01 0x83 0x00, DC 0x16 0x01 0x83 0x01, DC 0x01 0x01 0xa2 0x00, DC 0x16 0x01 0xa2 0x01,
    DC 0x01 0x01 0xb8 0x00, DC 0x16 0x01 0xb8 0x01, DC 0x01 0x01 0xc2 0x00, DC 0x16 0x01 0xc2 0x01,
    DC 0x01 0x01 0xe0 0x00, DC 0x16 0x01 0xe0 0x01, DC 0x01 0x01 0xe2 0x00, DC 0x16 0x01 0xe2 0x01,
    DC 0x00 0x01 0x99 0x01, DC 0x00 0x01 0xa1 0x01, DC 0x00 0x01 0xa7 0x01, DC 0x00 0x01 0xac 0x01],
    \<comment> \<open>102\<close>
   [DC 0x02 0x01 0x83 0x00, DC 0x09 0x01 0x83 0x00, DC 0x17 0x01 0x83 0x00, DC 0x28 0x01 0x83 0x01,
    DC 0x02 0x01 0xa2 0x00, DC 0x09 0x01 0xa2 0x00, DC 0x17 0x01 0xa2 0x00, DC 0x28 0x01 0xa2 0x01,
    DC 0x02 0x01 0xb8 0x00, DC 0x09 0x01 0xb8 0x00, DC 0x17 0x01 0xb8 0x00, DC 0x28 0x01 0xb8 0x01,
    DC 0x02 0x01 0xc2 0x00, DC 0x09 0x01 0xc2 0x00, DC 0x17 0x01 0xc2 0x00, DC 0x28 0x01 0xc2 0x01],
    \<comment> \<open>103\<close>
   [DC 0x03 0x01 0x83 0x00, DC 0x06 0x01 0x83 0x00, DC 0x0a 0x01 0x83 0x00, DC 0x0f 0x01 0x83 0x00,
    DC 0x18 0x01 0x83 0x00, DC 0x1f 0x01 0x83 0x00, DC 0x29 0x01 0x83 0x00, DC 0x38 0x01 0x83 0x01,
    DC 0x03 0x01 0xa2 0x00, DC 0x06 0x01 0xa2 0x00, DC 0x0a 0x01 0xa2 0x00, DC 0x0f 0x01 0xa2 0x00,
    DC 0x18 0x01 0xa2 0x00, DC 0x1f 0x01 0xa2 0x00, DC 0x29 0x01 0xa2 0x00, DC 0x38 0x01 0xa2 0x01]
   ]"

definition huff_codes_104 :: "ngx_http_v2_huff_decode_code_t list list" where
  "huff_codes_104 = [
    \<comment> \<open>104\<close>
   [DC 0x03 0x01 0xb8 0x00, DC 0x06 0x01 0xb8 0x00, DC 0x0a 0x01 0xb8 0x00, DC 0x0f 0x01 0xb8 0x00,
    DC 0x18 0x01 0xb8 0x00, DC 0x1f 0x01 0xb8 0x00, DC 0x29 0x01 0xb8 0x00, DC 0x38 0x01 0xb8 0x01,
    DC 0x03 0x01 0xc2 0x00, DC 0x06 0x01 0xc2 0x00, DC 0x0a 0x01 0xc2 0x00, DC 0x0f 0x01 0xc2 0x00,
    DC 0x18 0x01 0xc2 0x00, DC 0x1f 0x01 0xc2 0x00, DC 0x29 0x01 0xc2 0x00, DC 0x38 0x01 0xc2 0x01],
    \<comment> \<open>105\<close>
   [DC 0x02 0x01 0xe0 0x00, DC 0x09 0x01 0xe0 0x00, DC 0x17 0x01 0xe0 0x00, DC 0x28 0x01 0xe0 0x01,
    DC 0x02 0x01 0xe2 0x00, DC 0x09 0x01 0xe2 0x00, DC 0x17 0x01 0xe2 0x00, DC 0x28 0x01 0xe2 0x01,
    DC 0x01 0x01 0x99 0x00, DC 0x16 0x01 0x99 0x01, DC 0x01 0x01 0xa1 0x00, DC 0x16 0x01 0xa1 0x01,
    DC 0x01 0x01 0xa7 0x00, DC 0x16 0x01 0xa7 0x01, DC 0x01 0x01 0xac 0x00, DC 0x16 0x01 0xac 0x01],
    \<comment> \<open>106\<close>
   [DC 0x03 0x01 0xe0 0x00, DC 0x06 0x01 0xe0 0x00, DC 0x0a 0x01 0xe0 0x00, DC 0x0f 0x01 0xe0 0x00,
    DC 0x18 0x01 0xe0 0x00, DC 0x1f 0x01 0xe0 0x00, DC 0x29 0x01 0xe0 0x00, DC 0x38 0x01 0xe0 0x01,
    DC 0x03 0x01 0xe2 0x00, DC 0x06 0x01 0xe2 0x00, DC 0x0a 0x01 0xe2 0x00, DC 0x0f 0x01 0xe2 0x00,
    DC 0x18 0x01 0xe2 0x00, DC 0x1f 0x01 0xe2 0x00, DC 0x29 0x01 0xe2 0x00, DC 0x38 0x01 0xe2 0x01],
    \<comment> \<open>107\<close>
   [DC 0x02 0x01 0x99 0x00, DC 0x09 0x01 0x99 0x00, DC 0x17 0x01 0x99 0x00, DC 0x28 0x01 0x99 0x01,
    DC 0x02 0x01 0xa1 0x00, DC 0x09 0x01 0xa1 0x00, DC 0x17 0x01 0xa1 0x00, DC 0x28 0x01 0xa1 0x01,
    DC 0x02 0x01 0xa7 0x00, DC 0x09 0x01 0xa7 0x00, DC 0x17 0x01 0xa7 0x00, DC 0x28 0x01 0xa7 0x01,
    DC 0x02 0x01 0xac 0x00, DC 0x09 0x01 0xac 0x00, DC 0x17 0x01 0xac 0x00, DC 0x28 0x01 0xac 0x01],
    \<comment> \<open>108\<close>
   [DC 0x03 0x01 0x99 0x00, DC 0x06 0x01 0x99 0x00, DC 0x0a 0x01 0x99 0x00, DC 0x0f 0x01 0x99 0x00,
    DC 0x18 0x01 0x99 0x00, DC 0x1f 0x01 0x99 0x00, DC 0x29 0x01 0x99 0x00, DC 0x38 0x01 0x99 0x01,
    DC 0x03 0x01 0xa1 0x00, DC 0x06 0x01 0xa1 0x00, DC 0x0a 0x01 0xa1 0x00, DC 0x0f 0x01 0xa1 0x00,
    DC 0x18 0x01 0xa1 0x00, DC 0x1f 0x01 0xa1 0x00, DC 0x29 0x01 0xa1 0x00, DC 0x38 0x01 0xa1 0x01],
    \<comment> \<open>109\<close>
   [DC 0x03 0x01 0xa7 0x00, DC 0x06 0x01 0xa7 0x00, DC 0x0a 0x01 0xa7 0x00, DC 0x0f 0x01 0xa7 0x00,
    DC 0x18 0x01 0xa7 0x00, DC 0x1f 0x01 0xa7 0x00, DC 0x29 0x01 0xa7 0x00, DC 0x38 0x01 0xa7 0x01,
    DC 0x03 0x01 0xac 0x00, DC 0x06 0x01 0xac 0x00, DC 0x0a 0x01 0xac 0x00, DC 0x0f 0x01 0xac 0x00,
    DC 0x18 0x01 0xac 0x00, DC 0x1f 0x01 0xac 0x00, DC 0x29 0x01 0xac 0x00, DC 0x38 0x01 0xac 0x01],
    \<comment> \<open>110\<close>
   [DC 0x72 0x00 0x00 0x00, DC 0x73 0x00 0x00 0x00, DC 0x75 0x00 0x00 0x00, DC 0x76 0x00 0x00 0x00,
    DC 0x79 0x00 0x00 0x00, DC 0x7b 0x00 0x00 0x00, DC 0x7f 0x00 0x00 0x00, DC 0x82 0x00 0x00 0x00,
    DC 0x88 0x00 0x00 0x00, DC 0x8b 0x00 0x00 0x00, DC 0x8f 0x00 0x00 0x00, DC 0x92 0x00 0x00 0x00,
    DC 0x9b 0x00 0x00 0x00, DC 0xa2 0x00 0x00 0x00, DC 0xaa 0x00 0x00 0x00, DC 0xb4 0x00 0x00 0x01],
    \<comment> \<open>111\<close>
   [DC 0x00 0x01 0xb0 0x01, DC 0x00 0x01 0xb1 0x01, DC 0x00 0x01 0xb3 0x01, DC 0x00 0x01 0xd1 0x01,
    DC 0x00 0x01 0xd8 0x01, DC 0x00 0x01 0xd9 0x01, DC 0x00 0x01 0xe3 0x01, DC 0x00 0x01 0xe5 0x01,
    DC 0x00 0x01 0xe6 0x01, DC 0x7a 0x00 0x00 0x00, DC 0x7c 0x00 0x00 0x00, DC 0x7d 0x00 0x00 0x00,
    DC 0x80 0x00 0x00 0x00, DC 0x81 0x00 0x00 0x00, DC 0x83 0x00 0x00 0x00, DC 0x84 0x00 0x00 0x00]
   ]"

definition huff_codes_112 :: "ngx_http_v2_huff_decode_code_t list list" where
  "huff_codes_112 = [
    \<comment> \<open>112\<close>
   [DC 0x01 0x01 0xb0 0x00, DC 0x16 0x01 0xb0 0x01, DC 0x01 0x01 0xb1 0x00, DC 0x16 0x01 0xb1 0x01,
    DC 0x01 0x01 0xb3 0x00, DC 0x16 0x01 0xb3 0x01, DC 0x01 0x01 0xd1 0x00, DC 0x16 0x01 0xd1 0x01,
    DC 0x01 0x01 0xd8 0x00, DC 0x16 0x01 0xd8 0x01, DC 0x01 0x01 0xd9 0x00, DC 0x16 0x01 0xd9 0x01,
    DC 0x01 0x01 0xe3 0x00, DC 0x16 0x01 0xe3 0x01, DC 0x01 0x01 0xe5 0x00, DC 0x16 0x01 0xe5 0x01],
    \<comment> \<open>113\<close>
   [DC 0x02 0x01 0xb0 0x00, DC 0x09 0x01 0xb0 0x00, DC 0x17 0x01 0xb0 0x00, DC 0x28 0x01 0xb0 0x01,
    DC 0x02 0x01 0xb1 0x00, DC 0x09 0x01 0xb1 0x00, DC 0x17 0x01 0xb1 0x00, DC 0x28 0x01 0xb1 0x01,
    DC 0x02 0x01 0xb3 0x00, DC 0x09 0x01 0xb3 0x00, DC 0x17 0x01 0xb3 0x00, DC 0x28 0x01 0xb3 0x01,
    DC 0x02 0x01 0xd1 0x00, DC 0x09 0x01 0xd1 0x00, DC 0x17 0x01 0xd1 0x00, DC 0x28 0x01 0xd1 0x01],
    \<comment> \<open>114\<close>
   [DC 0x03 0x01 0xb0 0x00, DC 0x06 0x01 0xb0 0x00, DC 0x0a 0x01 0xb0 0x00, DC 0x0f 0x01 0xb0 0x00,
    DC 0x18 0x01 0xb0 0x00, DC 0x1f 0x01 0xb0 0x00, DC 0x29 0x01 0xb0 0x00, DC 0x38 0x01 0xb0 0x01,
    DC 0x03 0x01 0xb1 0x00, DC 0x06 0x01 0xb1 0x00, DC 0x0a 0x01 0xb1 0x00, DC 0x0f 0x01 0xb1 0x00,
    DC 0x18 0x01 0xb1 0x00, DC 0x1f 0x01 0xb1 0x00, DC 0x29 0x01 0xb1 0x00, DC 0x38 0x01 0xb1 0x01],
    \<comment> \<open>115\<close>
   [DC 0x03 0x01 0xb3 0x00, DC 0x06 0x01 0xb3 0x00, DC 0x0a 0x01 0xb3 0x00, DC 0x0f 0x01 0xb3 0x00,
    DC 0x18 0x01 0xb3 0x00, DC 0x1f 0x01 0xb3 0x00, DC 0x29 0x01 0xb3 0x00, DC 0x38 0x01 0xb3 0x01,
    DC 0x03 0x01 0xd1 0x00, DC 0x06 0x01 0xd1 0x00, DC 0x0a 0x01 0xd1 0x00, DC 0x0f 0x01 0xd1 0x00,
    DC 0x18 0x01 0xd1 0x00, DC 0x1f 0x01 0xd1 0x00, DC 0x29 0x01 0xd1 0x00, DC 0x38 0x01 0xd1 0x01],
    \<comment> \<open>116\<close>
   [DC 0x02 0x01 0xd8 0x00, DC 0x09 0x01 0xd8 0x00, DC 0x17 0x01 0xd8 0x00, DC 0x28 0x01 0xd8 0x01,
    DC 0x02 0x01 0xd9 0x00, DC 0x09 0x01 0xd9 0x00, DC 0x17 0x01 0xd9 0x00, DC 0x28 0x01 0xd9 0x01,
    DC 0x02 0x01 0xe3 0x00, DC 0x09 0x01 0xe3 0x00, DC 0x17 0x01 0xe3 0x00, DC 0x28 0x01 0xe3 0x01,
    DC 0x02 0x01 0xe5 0x00, DC 0x09 0x01 0xe5 0x00, DC 0x17 0x01 0xe5 0x00, DC 0x28 0x01 0xe5 0x01],
    \<comment> \<open>117\<close>
   [DC 0x03 0x01 0xd8 0x00, DC 0x06 0x01 0xd8 0x00, DC 0x0a 0x01 0xd8 0x00, DC 0x0f 0x01 0xd8 0x00,
    DC 0x18 0x01 0xd8 0x00, DC 0x1f 0x01 0xd8 0x00, DC 0x29 0x01 0xd8 0x00, DC 0x38 0x01 0xd8 0x01,
    DC 0x03 0x01 0xd9 0x00, DC 0x06 0x01 0xd9 0x00, DC 0x0a 0x01 0xd9 0x00, DC 0x0f 0x01 0xd9 0x00,
    DC 0x18 0x01 0xd9 0x00, DC 0x1f 0x01 0xd9 0x00, DC 0x29 0x01 0xd9 0x00, DC 0x38 0x01 0xd9 0x01],
    \<comment> \<open>118\<close>
   [DC 0x03 0x01 0xe3 0x00, DC 0x06 0x01 0xe3 0x00, DC 0x0a 0x01 0xe3 0x00, DC 0x0f 0x01 0xe3 0x00,
    DC 0x18 0x01 0xe3 0x00, DC 0x1f 0x01 0xe3 0x00, DC 0x29 0x01 0xe3 0x00, DC 0x38 0x01 0xe3 0x01,
    DC 0x03 0x01 0xe5 0x00, DC 0x06 0x01 0xe5 0x00, DC 0x0a 0x01 0xe5 0x00, DC 0x0f 0x01 0xe5 0x00,
    DC 0x18 0x01 0xe5 0x00, DC 0x1f 0x01 0xe5 0x00, DC 0x29 0x01 0xe5 0x00, DC 0x38 0x01 0xe5 0x01],
    \<comment> \<open>119\<close>
   [DC 0x01 0x01 0xe6 0x00, DC 0x16 0x01 0xe6 0x01, DC 0x00 0x01 0x81 0x01, DC 0x00 0x01 0x84 0x01,
    DC 0x00 0x01 0x85 0x01, DC 0x00 0x01 0x86 0x01, DC 0x00 0x01 0x88 0x01, DC 0x00 0x01 0x92 0x01,
    DC 0x00 0x01 0x9a 0x01, DC 0x00 0x01 0x9c 0x01, DC 0x00 0x01 0xa0 0x01, DC 0x00 0x01 0xa3 0x01,
    DC 0x00 0x01 0xa4 0x01, DC 0x00 0x01 0xa9 0x01, DC 0x00 0x01 0xaa 0x01, DC 0x00 0x01 0xad 0x01]
   ]"

definition huff_codes_120 :: "ngx_http_v2_huff_decode_code_t list list" where
  "huff_codes_120 = [
    \<comment> \<open>120\<close>
   [DC 0x02 0x01 0xe6 0x00, DC 0x09 0x01 0xe6 0x00, DC 0x17 0x01 0xe6 0x00, DC 0x28 0x01 0xe6 0x01,
    DC 0x01 0x01 0x81 0x00, DC 0x16 0x01 0x81 0x01, DC 0x01 0x01 0x84 0x00, DC 0x16 0x01 0x84 0x01,
    DC 0x01 0x01 0x85 0x00, DC 0x16 0x01 0x85 0x01, DC 0x01 0x01 0x86 0x00, DC 0x16 0x01 0x86 0x01,
    DC 0x01 0x01 0x88 0x00, DC 0x16 0x01 0x88 0x01, DC 0x01 0x01 0x92 0x00, DC 0x16 0x01 0x92 0x01],
    \<comment> \<open>121\<close>
   [DC 0x03 0x01 0xe6 0x00, DC 0x06 0x01 0xe6 0x00, DC 0x0a 0x01 0xe6 0x00, DC 0x0f 0x01 0xe6 0x00,
    DC 0x18 0x01 0xe6 0x00, DC 0x1f 0x01 0xe6 0x00, DC 0x29 0x01 0xe6 0x00, DC 0x38 0x01 0xe6 0x01,
    DC 0x02 0x01 0x81 0x00, DC 0x09 0x01 0x81 0x00, DC 0x17 0x01 0x81 0x00, DC 0x28 0x01 0x81 0x01,
    DC 0x02 0x01 0x84 0x00, DC 0x09 0x01 0x84 0x00, DC 0x17 0x01 0x84 0x00, DC 0x28 0x01 0x84 0x01],
    \<comment> \<open>122\<close>
   [DC 0x03 0x01 0x81 0x00, DC 0x06 0x01 0x81 0x00, DC 0x0a 0x01 0x81 0x00, DC 0x0f 0x01 0x81 0x00,
    DC 0x18 0x01 0x81 0x00, DC 0x1f 0x01 0x81 0x00, DC 0x29 0x01 0x81 0x00, DC 0x38 0x01 0x81 0x01,
    DC 0x03 0x01 0x84 0x00, DC 0x06 0x01 0x84 0x00, DC 0x0a 0x01 0x84 0x00, DC 0x0f 0x01 0x84 0x00,
    DC 0x18 0x01 0x84 0x00, DC 0x1f 0x01 0x84 0x00, DC 0x29 0x01 0x84 0x00, DC 0x38 0x01 0x84 0x01],
    \<comment> \<open>123\<close>
   [DC 0x02 0x01 0x85 0x00, DC 0x09 0x01 0x85 0x00, DC 0x17 0x01 0x85 0x00, DC 0x28 0x01 0x85 0x01,
    DC 0x02 0x01 0x86 0x00, DC 0x09 0x01 0x86 0x00, DC 0x17 0x01 0x86 0x00, DC 0x28 0x01 0x86 0x01,
    DC 0x02 0x01 0x88 0x00, DC 0x09 0x01 0x88 0x00, DC 0x17 0x01 0x88 0x00, DC 0x28 0x01 0x88 0x01,
    DC 0x02 0x01 0x92 0x00, DC 0x09 0x01 0x92 0x00, DC 0x17 0x01 0x92 0x00, DC 0x28 0x01 0x92 0x01],
    \<comment> \<open>124\<close>
   [DC 0x03 0x01 0x85 0x00, DC 0x06 0x01 0x85 0x00, DC 0x0a 0x01 0x85 0x00, DC 0x0f 0x01 0x85 0x00,
    DC 0x18 0x01 0x85 0x00, DC 0x1f 0x01 0x85 0x00, DC 0x29 0x01 0x85 0x00, DC 0x38 0x01 0x85 0x01,
    DC 0x03 0x01 0x86 0x00, DC 0x06 0x01 0x86 0x00, DC 0x0a 0x01 0x86 0x00, DC 0x0f 0x01 0x86 0x00,
    DC 0x18 0x01 0x86 0x00, DC 0x1f 0x01 0x86 0x00, DC 0x29 0x01 0x86 0x00, DC 0x38 0x01 0x86 0x01],
    \<comment> \<open>125\<close>
   [DC 0x03 0x01 0x88 0x00, DC 0x06 0x01 0x88 0x00, DC 0x0a 0x01 0x88 0x00, DC 0x0f 0x01 0x88 0x00,
    DC 0x18 0x01 0x88 0x00, DC 0x1f 0x01 0x88 0x00, DC 0x29 0x01 0x88 0x00, DC 0x38 0x01 0x88 0x01,
    DC 0x03 0x01 0x92 0x00, DC 0x06 0x01 0x92 0x00, DC 0x0a 0x01 0x92 0x00, DC 0x0f 0x01 0x92 0x00,
    DC 0x18 0x01 0x92 0x00, DC 0x1f 0x01 0x92 0x00, DC 0x29 0x01 0x92 0x00, DC 0x38 0x01 0x92 0x01],
    \<comment> \<open>126\<close>
   [DC 0x01 0x01 0x9a 0x00, DC 0x16 0x01 0x9a 0x01, DC 0x01 0x01 0x9c 0x00, DC 0x16 0x01 0x9c 0x01,
    DC 0x01 0x01 0xa0 0x00, DC 0x16 0x01 0xa0 0x01, DC 0x01 0x01 0xa3 0x00, DC 0x16 0x01 0xa3 0x01,
    DC 0x01 0x01 0xa4 0x00, DC 0x16 0x01 0xa4 0x01, DC 0x01 0x01 0xa9 0x00, DC 0x16 0x01 0xa9 0x01,
    DC 0x01 0x01 0xaa 0x00, DC 0x16 0x01 0xaa 0x01, DC 0x01 0x01 0xad 0x00, DC 0x16 0x01 0xad 0x01],
    \<comment> \<open>127\<close>
   [DC 0x02 0x01 0x9a 0x00, DC 0x09 0x01 0x9a 0x00, DC 0x17 0x01 0x9a 0x00, DC 0x28 0x01 0x9a 0x01,
    DC 0x02 0x01 0x9c 0x00, DC 0x09 0x01 0x9c 0x00, DC 0x17 0x01 0x9c 0x00, DC 0x28 0x01 0x9c 0x01,
    DC 0x02 0x01 0xa0 0x00, DC 0x09 0x01 0xa0 0x00, DC 0x17 0x01 0xa0 0x00, DC 0x28 0x01 0xa0 0x01,
    DC 0x02 0x01 0xa3 0x00, DC 0x09 0x01 0xa3 0x00, DC 0x17 0x01 0xa3 0x00, DC 0x28 0x01 0xa3 0x01]
   ]"

definition huff_codes_128 :: "ngx_http_v2_huff_decode_code_t list list" where
  "huff_codes_128 = [
    \<comment> \<open>128\<close>
   [DC 0x03 0x01 0x9a 0x00, DC 0x06 0x01 0x9a 0x00, DC 0x0a 0x01 0x9a 0x00, DC 0x0f 0x01 0x9a 0x00,
    DC 0x18 0x01 0x9a 0x00, DC 0x1f 0x01 0x9a 0x00, DC 0x29 0x01 0x9a 0x00, DC 0x38 0x01 0x9a 0x01,
    DC 0x03 0x01 0x9c 0x00, DC 0x06 0x01 0x9c 0x00, DC 0x0a 0x01 0x9c 0x00, DC 0x0f 0x01 0x9c 0x00,
    DC 0x18 0x01 0x9c 0x00, DC 0x1f 0x01 0x9c 0x00, DC 0x29 0x01 0x9c 0x00, DC 0x38 0x01 0x9c 0x01],
    \<comment> \<open>129\<close>
   [DC 0x03 0x01 0xa0 0x00, DC 0x06 0x01 0xa0 0x00, DC 0x0a 0x01 0xa0 0x00, DC 0x0f 0x01 0xa0 0x00,
    DC 0x18 0x01 0xa0 0x00, DC 0x1f 0x01 0xa0 0x00, DC 0x29 0x01 0xa0 0x00, DC 0x38 0x01 0xa0 0x01,
    DC 0x03 0x01 0xa3 0x00, DC 0x06 0x01 0xa3 0x00, DC 0x0a 0x01 0xa3 0x00, DC 0x0f 0x01 0xa3 0x00,
    DC 0x18 0x01 0xa3 0x00, DC 0x1f 0x01 0xa3 0x00, DC 0x29 0x01 0xa3 0x00, DC 0x38 0x01 0xa3 0x01],
    \<comment> \<open>130\<close>
   [DC 0x02 0x01 0xa4 0x00, DC 0x09 0x01 0xa4 0x00, DC 0x17 0x01 0xa4 0x00, DC 0x28 0x01 0xa4 0x01,
    DC 0x02 0x01 0xa9 0x00, DC 0x09 0x01 0xa9 0x00, DC 0x17 0x01 0xa9 0x00, DC 0x28 0x01 0xa9 0x01,
    DC 0x02 0x01 0xaa 0x00, DC 0x09 0x01 0xaa 0x00, DC 0x17 0x01 0xaa 0x00, DC 0x28 0x01 0xaa 0x01,
    DC 0x02 0x01 0xad 0x00, DC 0x09 0x01 0xad 0x00, DC 0x17 0x01 0xad 0x00, DC 0x28 0x01 0xad 0x01],
    \<comment> \<open>131\<close>
   [DC 0x03 0x01 0xa4 0x00, DC 0x06 0x01 0xa4 0x00, DC 0x0a 0x01 0xa4 0x00, DC 0x0f 0x01 0xa4 0x00,
    DC 0x18 0x01 0xa4 0x00, DC 0x1f 0x01 0xa4 0x00, DC 0x29 0x01 0xa4 0x00, DC 0x38 0x01 0xa4 0x01,
    DC 0x03 0x01 0xa9 0x00, DC 0x06 0x01 0xa9 0x00, DC 0x0a 0x01 0xa9 0x00, DC 0x0f 0x01 0xa9 0x00,
    DC 0x18 0x01 0xa9 0x00, DC 0x1f 0x01 0xa9 0x00, DC 0x29 0x01 0xa9 0x00, DC 0x38 0x01 0xa9 0x01],
    \<comment> \<open>132\<close>
   [DC 0x03 0x01 0xaa 0x00, DC 0x06 0x01 0xaa 0x00, DC 0x0a 0x01 0xaa 0x00, DC 0x0f 0x01 0xaa 0x00,
    DC 0x18 0x01 0xaa 0x00, DC 0x1f 0x01 0xaa 0x00, DC 0x29 0x01 0xaa 0x00, DC 0x38 0x01 0xaa 0x01,
    DC 0x03 0x01 0xad 0x00, DC 0x06 0x01 0xad 0x00, DC 0x0a 0x01 0xad 0x00, DC 0x0f 0x01 0xad 0x00,
    DC 0x18 0x01 0xad 0x00, DC 0x1f 0x01 0xad 0x00, DC 0x29 0x01 0xad 0x00, DC 0x38 0x01 0xad 0x01],
    \<comment> \<open>133\<close>
   [DC 0x89 0x00 0x00 0x00, DC 0x8a 0x00 0x00 0x00, DC 0x8c 0x00 0x00 0x00, DC 0x8d 0x00 0x00 0x00,
    DC 0x90 0x00 0x00 0x00, DC 0x91 0x00 0x00 0x00, DC 0x93 0x00 0x00 0x00, DC 0x96 0x00 0x00 0x00,
    DC 0x9c 0x00 0x00 0x00, DC 0x9f 0x00 0x00 0x00, DC 0xa3 0x00 0x00 0x00, DC 0xa6 0x00 0x00 0x00,
    DC 0xab 0x00 0x00 0x00, DC 0xae 0x00 0x00 0x00, DC 0xb5 0x00 0x00 0x00, DC 0xbe 0x00 0x00 0x01],
    \<comment> \<open>134\<close>
   [DC 0x00 0x01 0xb2 0x01, DC 0x00 0x01 0xb5 0x01, DC 0x00 0x01 0xb9 0x01, DC 0x00 0x01 0xba 0x01,
    DC 0x00 0x01 0xbb 0x01, DC 0x00 0x01 0xbd 0x01, DC 0x00 0x01 0xbe 0x01, DC 0x00 0x01 0xc4 0x01,
    DC 0x00 0x01 0xc6 0x01, DC 0x00 0x01 0xe4 0x01, DC 0x00 0x01 0xe8 0x01, DC 0x00 0x01 0xe9 0x01,
    DC 0x94 0x00 0x00 0x00, DC 0x95 0x00 0x00 0x00, DC 0x97 0x00 0x00 0x00, DC 0x98 0x00 0x00 0x00],
    \<comment> \<open>135\<close>
   [DC 0x01 0x01 0xb2 0x00, DC 0x16 0x01 0xb2 0x01, DC 0x01 0x01 0xb5 0x00, DC 0x16 0x01 0xb5 0x01,
    DC 0x01 0x01 0xb9 0x00, DC 0x16 0x01 0xb9 0x01, DC 0x01 0x01 0xba 0x00, DC 0x16 0x01 0xba 0x01,
    DC 0x01 0x01 0xbb 0x00, DC 0x16 0x01 0xbb 0x01, DC 0x01 0x01 0xbd 0x00, DC 0x16 0x01 0xbd 0x01,
    DC 0x01 0x01 0xbe 0x00, DC 0x16 0x01 0xbe 0x01, DC 0x01 0x01 0xc4 0x00, DC 0x16 0x01 0xc4 0x01]
   ]"

definition huff_codes_136 :: "ngx_http_v2_huff_decode_code_t list list" where
  "huff_codes_136 = [
    \<comment> \<open>136\<close>
   [DC 0x02 0x01 0xb2 0x00, DC 0x09 0x01 0xb2 0x00, DC 0x17 0x01 0xb2 0x00, DC 0x28 0x01 0xb2 0x01,
    DC 0x02 0x01 0xb5 0x00, DC 0x09 0x01 0xb5 0x00, DC 0x17 0x01 0xb5 0x00, DC 0x28 0x01 0xb5 0x01,
    DC 0x02 0x01 0xb9 0x00, DC 0x09 0x01 0xb9 0x00, DC 0x17 0x01 0xb9 0x00, DC 0x28 0x01 0xb9 0x01,
    DC 0x02 0x01 0xba 0x00, DC 0x09 0x01 0xba 0x00, DC 0x17 0x01 0xba 0x00, DC 0x28 0x01 0xba 0x01],
    \<comment> \<open>137\<close>
   [DC 0x03 0x01 0xb2 0x00, DC 0x06 0x01 0xb2 0x00, DC 0x0a 0x01 0xb2 0x00, DC 0x0f 0x01 0xb2 0x00,
    DC 0x18 0x01 0xb2 0x00, DC 0x1f 0x01 0xb2 0x00, DC 0x29 0x01 0xb2 0x00, DC 0x38 0x01 0xb2 0x01,
    DC 0x03 0x01 0xb5 0x00, DC 0x06 0x01 0xb5 0x00, DC 0x0a 0x01 0xb5 0x00, DC 0x0f 0x01 0xb5 0x00,
    DC 0x18 0x01 0xb5 0x00, DC 0x1f 0x01 0xb5 0x00, DC 0x29 0x01 0xb5 0x00, DC 0x38 0x01 0xb5 0x01],
    \<comment> \<open>138\<close>
   [DC 0x03 0x01 0xb9 0x00, DC 0x06 0x01 0xb9 0x00, DC 0x0a 0x01 0xb9 0x00, DC 0x0f 0x01 0xb9 0x00,
    DC 0x18 0x01 0xb9 0x00, DC 0x1f 0x01 0xb9 0x00, DC 0x29 0x01 0xb9 0x00, DC 0x38 0x01 0xb9 0x01,
    DC 0x03 0x01 0xba 0x00, DC 0x06 0x01 0xba 0x00, DC 0x0a 0x01 0xba 0x00, DC 0x0f 0x01 0xba 0x00,
    DC 0x18 0x01 0xba 0x00, DC 0x1f 0x01 0xba 0x00, DC 0x29 0x01 0xba 0x00, DC 0x38 0x01 0xba 0x01],
    \<comment> \<open>139\<close>
   [DC 0x02 0x01 0xbb 0x00, DC 0x09 0x01 0xbb 0x00, DC 0x17 0x01 0xbb 0x00, DC 0x28 0x01 0xbb 0x01,
    DC 0x02 0x01 0xbd 0x00, DC 0x09 0x01 0xbd 0x00, DC 0x17 0x01 0xbd 0x00, DC 0x28 0x01 0xbd 0x01,
    DC 0x02 0x01 0xbe 0x00, DC 0x09 0x01 0xbe 0x00, DC 0x17 0x01 0xbe 0x00, DC 0x28 0x01 0xbe 0x01,
    DC 0x02 0x01 0xc4 0x00, DC 0x09 0x01 0xc4 0x00, DC 0x17 0x01 0xc4 0x00, DC 0x28 0x01 0xc4 0x01],
    \<comment> \<open>140\<close>
   [DC 0x03 0x01 0xbb 0x00, DC 0x06 0x01 0xbb 0x00, DC 0x0a 0x01 0xbb 0x00, DC 0x0f 0x01 0xbb 0x00,
    DC 0x18 0x01 0xbb 0x00, DC 0x1f 0x01 0xbb 0x00, DC 0x29 0x01 0xbb 0x00, DC 0x38 0x01 0xbb 0x01,
    DC 0x03 0x01 0xbd 0x00, DC 0x06 0x01 0xbd 0x00, DC 0x0a 0x01 0xbd 0x00, DC 0x0f 0x01 0xbd 0x00,
    DC 0x18 0x01 0xbd 0x00, DC 0x1f 0x01 0xbd 0x00, DC 0x29 0x01 0xbd 0x00, DC 0x38 0x01 0xbd 0x01],
    \<comment> \<open>141\<close>
   [DC 0x03 0x01 0xbe 0x00, DC 0x06 0x01 0xbe 0x00, DC 0x0a 0x01 0xbe 0x00, DC 0x0f 0x01 0xbe 0x00,
    DC 0x18 0x01 0xbe 0x00, DC 0x1f 0x01 0xbe 0x00, DC 0x29 0x01 0xbe 0x00, DC 0x38 0x01 0xbe 0x01,
    DC 0x03 0x01 0xc4 0x00, DC 0x06 0x01 0xc4 0x00, DC 0x0a 0x01 0xc4 0x00, DC 0x0f 0x01 0xc4 0x00,
    DC 0x18 0x01 0xc4 0x00, DC 0x1f 0x01 0xc4 0x00, DC 0x29 0x01 0xc4 0x00, DC 0x38 0x01 0xc4 0x01],
    \<comment> \<open>142\<close>
   [DC 0x01 0x01 0xc6 0x00, DC 0x16 0x01 0xc6 0x01, DC 0x01 0x01 0xe4 0x00, DC 0x16 0x01 0xe4 0x01,
    DC 0x01 0x01 0xe8 0x00, DC 0x16 0x01 0xe8 0x01, DC 0x01 0x01 0xe9 0x00, DC 0x16 0x01 0xe9 0x01,
    DC 0x00 0x01 0x01 0x01, DC 0x00 0x01 0x87 0x01, DC 0x00 0x01 0x89 0x01, DC 0x00 0x01 0x8a 0x01,
    DC 0x00 0x01 0x8b 0x01, DC 0x00 0x01 0x8c 0x01, DC 0x00 0x01 0x8d 0x01, DC 0x00 0x01 0x8f 0x01],
    \<comment> \<open>143\<close>
   [DC 0x02 0x01 0xc6 0x00, DC 0x09 0x01 0xc6 0x00, DC 0x17 0x01 0xc6 0x00, DC 0x28 0x01 0xc6 0x01,
    DC 0x02 0x01 0xe4 0x00, DC 0x09 0x01 0xe4 0x00, DC 0x17 0x01 0xe4 0x00, DC 0x28 0x01 0xe4 0x01,
    DC 0x02 0x01 0xe8 0x00, DC 0x09 0x01 0xe8 0x00, DC 0x17 0x01 0xe8 0x00, DC 0x28 0x01 0xe8 0x01,
    DC 0x02 0x01 0xe9 0x00, DC 0x09 0x01 0xe9 0x00, DC 0x17 0x01 0xe9 0x00, DC 0x28 0x01 0xe9 0x01]
   ]"

definition huff_codes_144 :: "ngx_http_v2_huff_decode_code_t list list" where
  "huff_codes_144 = [
    \<comment> \<open>144\<close>
   [DC 0x03 0x01 0xc6 0x00, DC 0x06 0x01 0xc6 0x00, DC 0x0a 0x01 0xc6 0x00, DC 0x0f 0x01 0xc6 0x00,
    DC 0x18 0x01 0xc6 0x00, DC 0x1f 0x01 0xc6 0x00, DC 0x29 0x01 0xc6 0x00, DC 0x38 0x01 0xc6 0x01,
    DC 0x03 0x01 0xe4 0x00, DC 0x06 0x01 0xe4 0x00, DC 0x0a 0x01 0xe4 0x00, DC 0x0f 0x01 0xe4 0x00,
    DC 0x18 0x01 0xe4 0x00, DC 0x1f 0x01 0xe4 0x00, DC 0x29 0x01 0xe4 0x00, DC 0x38 0x01 0xe4 0x01],
    \<comment> \<open>145\<close>
   [DC 0x03 0x01 0xe8 0x00, DC 0x06 0x01 0xe8 0x00, DC 0x0a 0x01 0xe8 0x00, DC 0x0f 0x01 0xe8 0x00,
    DC 0x18 0x01 0xe8 0x00, DC 0x1f 0x01 0xe8 0x00, DC 0x29 0x01 0xe8 0x00, DC 0x38 0x01 0xe8 0x01,
    DC 0x03 0x01 0xe9 0x00, DC 0x06 0x01 0xe9 0x00, DC 0x0a 0x01 0xe9 0x00, DC 0x0f 0x01 0xe9 0x00,
    DC 0x18 0x01 0xe9 0x00, DC 0x1f 0x01 0xe9 0x00, DC 0x29 0x01 0xe9 0x00, DC 0x38 0x01 0xe9 0x01],
    \<comment> \<open>146\<close>
   [DC 0x01 0x01 0x01 0x00, DC 0x16 0x01 0x01 0x01, DC 0x01 0x01 0x87 0x00, DC 0x16 0x01 0x87 0x01,
    DC 0x01 0x01 0x89 0x00, DC 0x16 0x01 0x89 0x01, DC 0x01 0x01 0x8a 0x00, DC 0x16 0x01 0x8a 0x01,
    DC 0x01 0x01 0x8b 0x00, DC 0x16 0x01 0x8b 0x01, DC 0x01 0x01 0x8c 0x00, DC 0x16 0x01 0x8c 0x01,
    DC 0x01 0x01 0x8d 0x00, DC 0x16 0x01 0x8d 0x01, DC 0x01 0x01 0x8f 0x00, DC 0x16 0x01 0x8f 0x01],
    \<comment> \<open>147\<close>
   [DC 0x02 0x01 0x01 0x00, DC 0x09 0x01 0x01 0x00, DC 0x17 0x01 0x01 0x00, DC 0x28 0x01 0x01 0x01,
    DC 0x02 0x01 0x87 0x00, DC 0x09 0x01 0x87 0x00, DC 0x17 0x01 0x87 0x00, DC 0x28 0x01 0x87 0x01,
    DC 0x02 0x01 0x89 0x00, DC 0x09 0x01 0x89 0x00, DC 0x17 0x01 0x89 0x00, DC 0x28 0x01 0x89 0x01,
    DC 0x02 0x01 0x8a 0x00, DC 0x09 0x01 0x8a 0x00, DC 0x17 0x01 0x8a 0x00, DC 0x28 0x01 0x8a 0x01],
    \<comment> \<open>148\<close>
   [DC 0x03 0x01 0x01 0x00, DC 0x06 0x01 0x01 0x00, DC 0x0a 0x01 0x01 0x00, DC 0x0f 0x01 0x01 0x00,
    DC 0x18 0x01 0x01 0x00, DC 0x1f 0x01 0x01 0x00, DC 0x29 0x01 0x01 0x00, DC 0x38 0x01 0x01 0x01,
    DC 0x03 0x01 0x87 0x00, DC 0x06 0x01 0x87 0x00, DC 0x0a 0x01 0x87 0x00, DC 0x0f 0x01 0x87 0x00,
    DC 0x18 0x01 0x87 0x00, DC 0x1f 0x01 0x87 0x00, DC 0x29 0x01 0x87 0x00, DC 0x38 0x01 0x87 0x01],
    \<comment> \<open>149\<close>
   [DC 0x03 0x01 0x89 0x00, DC 0x06 0x01 0x89 0x00, DC 0x0a 0x01 0x89 0x00, DC 0x0f 0x01 0x89 0x00,
    DC 0x18 0x01 0x89 0x00, DC 0x1f 0x01 0x89 0x00, DC 0x29 0x01 0x89 0x00, DC 0x38 0x01 0x89 0x01,
    DC 0x03 0x01 0x8a 0x00, DC 0x06 0x01 0x8a 0x00, DC 0x0a 0x01 0x8a 0x00, DC 0x0f 0x01 0x8a 0x00,
    DC 0x18 0x01 0x8a 0x00, DC 0x1f 0x01 0x8a 0x00, DC 0x29 0x01 0x8a 0x00, DC 0x38 0x01 0x8a 0x01],
    \<comment> \<open>150\<close>
   [DC 0x02 0x01 0x8b 0x00, DC 0x09 0x01 0x8b 0x00, DC 0x17 0x01 0x8b 0x00, DC 0x28 0x01 0x8b 0x01,
    DC 0x02 0x01 0x8c 0x00, DC 0x09 0x01 0x8c 0x00, DC 0x17 0x01 0x8c 0x00, DC 0x28 0x01 0x8c 0x01,
    DC 0x02 0x01 0x8d 0x00, DC 0x09 0x01 0x8d 0x00, DC 0x17 0x01 0x8d 0x00, DC 0x28 0x01 0x8d 0x01,
    DC 0x02 0x01 0x8f 0x00, DC 0x09 0x01 0x8f 0x00, DC 0x17 0x01 0x8f 0x00, DC 0x28 0x01 0x8f 0x01],
    \<comment> \<open>151\<close>
   [DC 0x03 0x01 0x8b 0x00, DC 0x06 0x01 0x8b 0x00, DC 0x0a 0x01 0x8b 0x00, DC 0x0f 0x01 0x8b 0x00,
    DC 0x18 0x01 0x8b 0x00, DC 0x1f 0x01 0x8b 0x00, DC 0x29 0x01 0x8b 0x00, DC 0x38 0x01 0x8b 0x01,
    DC 0x03 0x01 0x8c 0x00, DC 0x06 0x01 0x8c 0x00, DC 0x0a 0x01 0x8c 0x00, DC 0x0f 0x01 0x8c 0x00,
    DC 0x18 0x01 0x8c 0x00, DC 0x1f 0x01 0x8c 0x00, DC 0x29 0x01 0x8c 0x00, DC 0x38 0x01 0x8c 0x01]
   ]"

definition huff_codes_152 :: "ngx_http_v2_huff_decode_code_t list list" where
  "huff_codes_152 = [
    \<comment> \<open>152\<close>
   [DC 0x03 0x01 0x8d 0x00, DC 0x06 0x01 0x8d 0x00, DC 0x0a 0x01 0x8d 0x00, DC 0x0f 0x01 0x8d 0x00,
    DC 0x18 0x01 0x8d 0x00, DC 0x1f 0x01 0x8d 0x00, DC 0x29 0x01 0x8d 0x00, DC 0x38 0x01 0x8d 0x01,
    DC 0x03 0x01 0x8f 0x00, DC 0x06 0x01 0x8f 0x00, DC 0x0a 0x01 0x8f 0x00, DC 0x0f 0x01 0x8f 0x00,
    DC 0x18 0x01 0x8f 0x00, DC 0x1f 0x01 0x8f 0x00, DC 0x29 0x01 0x8f 0x00, DC 0x38 0x01 0x8f 0x01],
    \<comment> \<open>153\<close>
   [DC 0x9d 0x00 0x00 0x00, DC 0x9e 0x00 0x00 0x00, DC 0xa0 0x00 0x00 0x00, DC 0xa1 0x00 0x00 0x00,
    DC 0xa4 0x00 0x00 0x00, DC 0xa5 0x00 0x00 0x00, DC 0xa7 0x00 0x00 0x00, DC 0xa8 0x00 0x00 0x00,
    DC 0xac 0x00 0x00 0x00, DC 0xad 0x00 0x00 0x00, DC 0xaf 0x00 0x00 0x00, DC 0xb1 0x00 0x00 0x00,
    DC 0xb6 0x00 0x00 0x00, DC 0xb9 0x00 0x00 0x00, DC 0xbf 0x00 0x00 0x00, DC 0xcf 0x00 0x00 0x01],
    \<comment> \<open>154\<close>
   [DC 0x00 0x01 0x93 0x01, DC 0x00 0x01 0x95 0x01, DC 0x00 0x01 0x96 0x01, DC 0x00 0x01 0x97 0x01,
    DC 0x00 0x01 0x98 0x01, DC 0x00 0x01 0x9b 0x01, DC 0x00 0x01 0x9d 0x01, DC 0x00 0x01 0x9e 0x01,
    DC 0x00 0x01 0xa5 0x01, DC 0x00 0x01 0xa6 0x01, DC 0x00 0x01 0xa8 0x01, DC 0x00 0x01 0xae 0x01,
    DC 0x00 0x01 0xaf 0x01, DC 0x00 0x01 0xb4 0x01, DC 0x00 0x01 0xb6 0x01, DC 0x00 0x01 0xb7 0x01],
    \<comment> \<open>155\<close>
   [DC 0x01 0x01 0x93 0x00, DC 0x16 0x01 0x93 0x01, DC 0x01 0x01 0x95 0x00, DC 0x16 0x01 0x95 0x01,
    DC 0x01 0x01 0x96 0x00, DC 0x16 0x01 0x96 0x01, DC 0x01 0x01 0x97 0x00, DC 0x16 0x01 0x97 0x01,
    DC 0x01 0x01 0x98 0x00, DC 0x16 0x01 0x98 0x01, DC 0x01 0x01 0x9b 0x00, DC 0x16 0x01 0x9b 0x01,
    DC 0x01 0x01 0x9d 0x00, DC 0x16 0x01 0x9d 0x01, DC 0x01 0x01 0x9e 0x00, DC 0x16 0x01 0x9e 0x01],
    \<comment> \<open>156\<close>
   [DC 0x02 0x01 0x93 0x00, DC 0x09 0x01 0x93 0x00, DC 0x17 0x01 0x93 0x00, DC 0x28 0x01 0x93 0x01,
    DC 0x02 0x01 0x95 0x00, DC 0x09 0x01 0x95 0x00, DC 0x17 0x01 0x95 0x00, DC 0x28 0x01 0x95 0x01,
    DC 0x02 0x01 0x96 0x00, DC 0x09 0x01 0x96 0x00, DC 0x17 0x01 0x96 0x00, DC 0x28 0x01 0x96 0x01,
    DC 0x02 0x01 0x97 0x00, DC 0x09 0x01 0x97 0x00, DC 0x17 0x01 0x97 0x00, DC 0x28 0x01 0x97 0x01],
    \<comment> \<open>157\<close>
   [DC 0x03 0x01 0x93 0x00, DC 0x06 0x01 0x93 0x00, DC 0x0a 0x01 0x93 0x00, DC 0x0f 0x01 0x93 0x00,
    DC 0x18 0x01 0x93 0x00, DC 0x1f 0x01 0x93 0x00, DC 0x29 0x01 0x93 0x00, DC 0x38 0x01 0x93 0x01,
    DC 0x03 0x01 0x95 0x00, DC 0x06 0x01 0x95 0x00, DC 0x0a 0x01 0x95 0x00, DC 0x0f 0x01 0x95 0x00,
    DC 0x18 0x01 0x95 0x00, DC 0x1f 0x01 0x95 0x00, DC 0x29 0x01 0x95 0x00, DC 0x38 0x01 0x95 0x01],
    \<comment> \<open>158\<close>
   [DC 0x03 0x01 0x96 0x00, DC 0x06 0x01 0x96 0x00, DC 0x0a 0x01 0x96 0x00, DC 0x0f 0x01 0x96 0x00,
    DC 0x18 0x01 0x96 0x00, DC 0x1f 0x01 0x96 0x00, DC 0x29 0x01 0x96 0x00, DC 0x38 0x01 0x96 0x01,
    DC 0x03 0x01 0x97 0x00, DC 0x06 0x01 0x97 0x00, DC 0x0a 0x01 0x97 0x00, DC 0x0f 0x01 0x97 0x00,
    DC 0x18 0x01 0x97 0x00, DC 0x1f 0x01 0x97 0x00, DC 0x29 0x01 0x97 0x00, DC 0x38 0x01 0x97 0x01],
    \<comment> \<open>159\<close>
   [DC 0x02 0x01 0x98 0x00, DC 0x09 0x01 0x98 0x00, DC 0x17 0x01 0x98 0x00, DC 0x28 0x01 0x98 0x01,
    DC 0x02 0x01 0x9b 0x00, DC 0x09 0x01 0x9b 0x00, DC 0x17 0x01 0x9b 0x00, DC 0x28 0x01 0x9b 0x01,
    DC 0x02 0x01 0x9d 0x00, DC 0x09 0x01 0x9d 0x00, DC 0x17 0x01 0x9d 0x00, DC 0x28 0x01 0x9d 0x01,
    DC 0x02 0x01 0x9e 0x00, DC 0x09 0x01 0x9e 0x00, DC 0x17 0x01 0x9e 0x00, DC 0x28 0x01 0x9e 0x01]
   ]"

definition huff_codes_160 :: "ngx_http_v2_huff_decode_code_t list list" where
  "huff_codes_160 = [
    \<comment> \<open>160\<close>
   [DC 0x03 0x01 0x98 0x00, DC 0x06 0x01 0x98 0x00, DC 0x0a 0x01 0x98 0x00, DC 0x0f 0x01 0x98 0x00,
    DC 0x18 0x01 0x98 0x00, DC 0x1f 0x01 0x98 0x00, DC 0x29 0x01 0x98 0x00, DC 0x38 0x01 0x98 0x01,
    DC 0x03 0x01 0x9b 0x00, DC 0x06 0x01 0x9b 0x00, DC 0x0a 0x01 0x9b 0x00, DC 0x0f 0x01 0x9b 0x00,
    DC 0x18 0x01 0x9b 0x00, DC 0x1f 0x01 0x9b 0x00, DC 0x29 0x01 0x9b 0x00, DC 0x38 0x01 0x9b 0x01],
    \<comment> \<open>161\<close>
   [DC 0x03 0x01 0x9d 0x00, DC 0x06 0x01 0x9d 0x00, DC 0x0a 0x01 0x9d 0x00, DC 0x0f 0x01 0x9d 0x00,
    DC 0x18 0x01 0x9d 0x00, DC 0x1f 0x01 0x9d 0x00, DC 0x29 0x01 0x9d 0x00, DC 0x38 0x01 0x9d 0x01,
    DC 0x03 0x01 0x9e 0x00, DC 0x06 0x01 0x9e 0x00, DC 0x0a 0x01 0x9e 0x00, DC 0x0f 0x01 0x9e 0x00,
    DC 0x18 0x01 0x9e 0x00, DC 0x1f 0x01 0x9e 0x00, DC 0x29 0x01 0x9e 0x00, DC 0x38 0x01 0x9e 0x01],
    \<comment> \<open>162\<close>
   [DC 0x01 0x01 0xa5 0x00, DC 0x16 0x01 0xa5 0x01, DC 0x01 0x01 0xa6 0x00, DC 0x16 0x01 0xa6 0x01,
    DC 0x01 0x01 0xa8 0x00, DC 0x16 0x01 0xa8 0x01, DC 0x01 0x01 0xae 0x00, DC 0x16 0x01 0xae 0x01,
    DC 0x01 0x01 0xaf 0x00, DC 0x16 0x01 0xaf 0x01, DC 0x01 0x01 0xb4 0x00, DC 0x16 0x01 0xb4 0x01,
    DC 0x01 0x01 0xb6 0x00, DC 0x16 0x01 0xb6 0x01, DC 0x01 0x01 0xb7 0x00, DC 0x16 0x01 0xb7 0x01],
    \<comment> \<open>163\<close>
   [DC 0x02 0x01 0xa5 0x00, DC 0x09 0x01 0xa5 0x00, DC 0x17 0x01 0xa5 0x00, DC 0x28 0x01 0xa5 0x01,
    DC 0x02 0x01 0xa6 0x00, DC 0x09 0x01 0xa6 0x00, DC 0x17 0x01 0xa6 0x00, DC 0x28 0x01 0xa6 0x01,
    DC 0x02 0x01 0xa8 0x00, DC 0x09 0x01 0xa8 0x00, DC 0x17 0x01 0xa8 0x00, DC 0x28 0x01 0xa8 0x01,
    DC 0x02 0x01 0xae 0x00, DC 0x09 0x01 0xae 0x00, DC 0x17 0x01 0xae 0x00, DC 0x28 0x01 0xae 0x01],
    \<comment> \<open>164\<close>
   [DC 0x03 0x01 0xa5 0x00, DC 0x06 0x01 0xa5 0x00, DC 0x0a 0x01 0xa5 0x00, DC 0x0f 0x01 0xa5 0x00,
    DC 0x18 0x01 0xa5 0x00, DC 0x1f 0x01 0xa5 0x00, DC 0x29 0x01 0xa5 0x00, DC 0x38 0x01 0xa5 0x01,
    DC 0x03 0x01 0xa6 0x00, DC 0x06 0x01 0xa6 0x00, DC 0x0a 0x01 0xa6 0x00, DC 0x0f 0x01 0xa6 0x00,
    DC 0x18 0x01 0xa6 0x00, DC 0x1f 0x01 0xa6 0x00, DC 0x29 0x01 0xa6 0x00, DC 0x38 0x01 0xa6 0x01],
    \<comment> \<open>165\<close>
   [DC 0x03 0x01 0xa8 0x00, DC 0x06 0x01 0xa8 0x00, DC 0x0a 0x01 0xa8 0x00, DC 0x0f 0x01 0xa8 0x00,
    DC 0x18 0x01 0xa8 0x00, DC 0x1f 0x01 0xa8 0x00, DC 0x29 0x01 0xa8 0x00, DC 0x38 0x01 0xa8 0x01,
    DC 0x03 0x01 0xae 0x00, DC 0x06 0x01 0xae 0x00, DC 0x0a 0x01 0xae 0x00, DC 0x0f 0x01 0xae 0x00,
    DC 0x18 0x01 0xae 0x00, DC 0x1f 0x01 0xae 0x00, DC 0x29 0x01 0xae 0x00, DC 0x38 0x01 0xae 0x01],
    \<comment> \<open>166\<close>
   [DC 0x02 0x01 0xaf 0x00, DC 0x09 0x01 0xaf 0x00, DC 0x17 0x01 0xaf 0x00, DC 0x28 0x01 0xaf 0x01,
    DC 0x02 0x01 0xb4 0x00, DC 0x09 0x01 0xb4 0x00, DC 0x17 0x01 0xb4 0x00, DC 0x28 0x01 0xb4 0x01,
    DC 0x02 0x01 0xb6 0x00, DC 0x09 0x01 0xb6 0x00, DC 0x17 0x01 0xb6 0x00, DC 0x28 0x01 0xb6 0x01,
    DC 0x02 0x01 0xb7 0x00, DC 0x09 0x01 0xb7 0x00, DC 0x17 0x01 0xb7 0x00, DC 0x28 0x01 0xb7 0x01],
    \<comment> \<open>167\<close>
   [DC 0x03 0x01 0xaf 0x00, DC 0x06 0x01 0xaf 0x00, DC 0x0a 0x01 0xaf 0x00, DC 0x0f 0x01 0xaf 0x00,
    DC 0x18 0x01 0xaf 0x00, DC 0x1f 0x01 0xaf 0x00, DC 0x29 0x01 0xaf 0x00, DC 0x38 0x01 0xaf 0x01,
    DC 0x03 0x01 0xb4 0x00, DC 0x06 0x01 0xb4 0x00, DC 0x0a 0x01 0xb4 0x00, DC 0x0f 0x01 0xb4 0x00,
    DC 0x18 0x01 0xb4 0x00, DC 0x1f 0x01 0xb4 0x00, DC 0x29 0x01 0xb4 0x00, DC 0x38 0x01 0xb4 0x01]
   ]"

definition huff_codes_168 :: "ngx_http_v2_huff_decode_code_t list list" where
  "huff_codes_168 = [
    \<comment> \<open>168\<close>
   [DC 0x03 0x01 0xb6 0x00, DC 0x06 0x01 0xb6 0x00, DC 0x0a 0x01 0xb6 0x00, DC 0x0f 0x01 0xb6 0x00,
    DC 0x18 0x01 0xb6 0x00, DC 0x1f 0x01 0xb6 0x00, DC 0x29 0x01 0xb6 0x00, DC 0x38 0x01 0xb6 0x01,
    DC 0x03 0x01 0xb7 0x00, DC 0x06 0x01 0xb7 0x00, DC 0x0a 0x01 0xb7 0x00, DC 0x0f 0x01 0xb7 0x00,
    DC 0x18 0x01 0xb7 0x00, DC 0x1f 0x01 0xb7 0x00, DC 0x29 0x01 0xb7 0x00, DC 0x38 0x01 0xb7 0x01],
    \<comment> \<open>169\<close>
   [DC 0x00 0x01 0xbc 0x01, DC 0x00 0x01 0xbf 0x01, DC 0x00 0x01 0xc5 0x01, DC 0x00 0x01 0xe7 0x01,
    DC 0x00 0x01 0xef 0x01, DC 0xb0 0x00 0x00 0x00, DC 0xb2 0x00 0x00 0x00, DC 0xb3 0x00 0x00 0x00,
    DC 0xb7 0x00 0x00 0x00, DC 0xb8 0x00 0x00 0x00, DC 0xba 0x00 0x00 0x00, DC 0xbb 0x00 0x00 0x00,
    DC 0xc0 0x00 0x00 0x00, DC 0xc7 0x00 0x00 0x00, DC 0xd0 0x00 0x00 0x00, DC 0xdf 0x00 0x00 0x01],
    \<comment> \<open>170\<close>
   [DC 0x01 0x01 0xbc 0x00, DC 0x16 0x01 0xbc 0x01, DC 0x01 0x01 0xbf 0x00, DC 0x16 0x01 0xbf 0x01,
    DC 0x01 0x01 0xc5 0x00, DC 0x16 0x01 0xc5 0x01, DC 0x01 0x01 0xe7 0x00, DC 0x16 0x01 0xe7 0x01,
    DC 0x01 0x01 0xef 0x00, DC 0x16 0x01 0xef 0x01, DC 0x00 0x01 0x09 0x01, DC 0x00 0x01 0x8e 0x01,
    DC 0x00 0x01 0x90 0x01, DC 0x00 0x01 0x91 0x01, DC 0x00 0x01 0x94 0x01, DC 0x00 0x01 0x9f 0x01],
    \<comment> \<open>171\<close>
   [DC 0x02 0x01 0xbc 0x00, DC 0x09 0x01 0xbc 0x00, DC 0x17 0x01 0xbc 0x00, DC 0x28 0x01 0xbc 0x01,
    DC 0x02 0x01 0xbf 0x00, DC 0x09 0x01 0xbf 0x00, DC 0x17 0x01 0xbf 0x00, DC 0x28 0x01 0xbf 0x01,
    DC 0x02 0x01 0xc5 0x00, DC 0x09 0x01 0xc5 0x00, DC 0x17 0x01 0xc5 0x00, DC 0x28 0x01 0xc5 0x01,
    DC 0x02 0x01 0xe7 0x00, DC 0x09 0x01 0xe7 0x00, DC 0x17 0x01 0xe7 0x00, DC 0x28 0x01 0xe7 0x01],
    \<comment> \<open>172\<close>
   [DC 0x03 0x01 0xbc 0x00, DC 0x06 0x01 0xbc 0x00, DC 0x0a 0x01 0xbc 0x00, DC 0x0f 0x01 0xbc 0x00,
    DC 0x18 0x01 0xbc 0x00, DC 0x1f 0x01 0xbc 0x00, DC 0x29 0x01 0xbc 0x00, DC 0x38 0x01 0xbc 0x01,
    DC 0x03 0x01 0xbf 0x00, DC 0x06 0x01 0xbf 0x00, DC 0x0a 0x01 0xbf 0x00, DC 0x0f 0x01 0xbf 0x00,
    DC 0x18 0x01 0xbf 0x00, DC 0x1f 0x01 0xbf 0x00, DC 0x29 0x01 0xbf 0x00, DC 0x38 0x01 0xbf 0x01],
    \<comment> \<open>173\<close>
   [DC 0x03 0x01 0xc5 0x00, DC 0x06 0x01 0xc5 0x00, DC 0x0a 0x01 0xc5 0x00, DC 0x0f 0x01 0xc5 0x00,
    DC 0x18 0x01 0xc5 0x00, DC 0x1f 0x01 0xc5 0x00, DC 0x29 0x01 0xc5 0x00, DC 0x38 0x01 0xc5 0x01,
    DC 0x03 0x01 0xe7 0x00, DC 0x06 0x01 0xe7 0x00, DC 0x0a 0x01 0xe7 0x00, DC 0x0f 0x01 0xe7 0x00,
    DC 0x18 0x01 0xe7 0x00, DC 0x1f 0x01 0xe7 0x00, DC 0x29 0x01 0xe7 0x00, DC 0x38 0x01 0xe7 0x01],
    \<comment> \<open>174\<close>
   [DC 0x02 0x01 0xef 0x00, DC 0x09 0x01 0xef 0x00, DC 0x17 0x01 0xef 0x00, DC 0x28 0x01 0xef 0x01,
    DC 0x01 0x01 0x09 0x00, DC 0x16 0x01 0x09 0x01, DC 0x01 0x01 0x8e 0x00, DC 0x16 0x01 0x8e 0x01,
    DC 0x01 0x01 0x90 0x00, DC 0x16 0x01 0x90 0x01, DC 0x01 0x01 0x91 0x00, DC 0x16 0x01 0x91 0x01,
    DC 0x01 0x01 0x94 0x00, DC 0x16 0x01 0x94 0x01, DC 0x01 0x01 0x9f 0x00, DC 0x16 0x01 0x9f 0x01],
    \<comment> \<open>175\<close>
   [DC 0x03 0x01 0xef 0x00, DC 0x06 0x01 0xef 0x00, DC 0x0a 0x01 0xef 0x00, DC 0x0f 0x01 0xef 0x00,
    DC 0x18 0x01 0xef 0x00, DC 0x1f 0x01 0xef 0x00, DC 0x29 0x01 0xef 0x00, DC 0x38 0x01 0xef 0x01,
    DC 0x02 0x01 0x09 0x00, DC 0x09 0x01 0x09 0x00, DC 0x17 0x01 0x09 0x00, DC 0x28 0x01 0x09 0x01,
    DC 0x02 0x01 0x8e 0x00, DC 0x09 0x01 0x8e 0x00, DC 0x17 0x01 0x8e 0x00, DC 0x28 0x01 0x8e 0x01]
   ]"

definition huff_codes_176 :: "ngx_http_v2_huff_decode_code_t list list" where
  "huff_codes_176 = [
    \<comment> \<open>176\<close>
   [DC 0x03 0x01 0x09 0x00, DC 0x06 0x01 0x09 0x00, DC 0x0a 0x01 0x09 0x00, DC 0x0f 0x01 0x09 0x00,
    DC 0x18 0x01 0x09 0x00, DC 0x1f 0x01 0x09 0x00, DC 0x29 0x01 0x09 0x00, DC 0x38 0x01 0x09 0x01,
    DC 0x03 0x01 0x8e 0x00, DC 0x06 0x01 0x8e 0x00, DC 0x0a 0x01 0x8e 0x00, DC 0x0f 0x01 0x8e 0x00,
    DC 0x18 0x01 0x8e 0x00, DC 0x1f 0x01 0x8e 0x00, DC 0x29 0x01 0x8e 0x00, DC 0x38 0x01 0x8e 0x01],
    \<comment> \<open>177\<close>
   [DC 0x02 0x01 0x90 0x00, DC 0x09 0x01 0x90 0x00, DC 0x17 0x01 0x90 0x00, DC 0x28 0x01 0x90 0x01,
    DC 0x02 0x01 0x91 0x00, DC 0x09 0x01 0x91 0x00, DC 0x17 0x01 0x91 0x00, DC 0x28 0x01 0x91 0x01,
    DC 0x02 0x01 0x94 0x00, DC 0x09 0x01 0x94 0x00, DC 0x17 0x01 0x94 0x00, DC 0x28 0x01 0x94 0x01,
    DC 0x02 0x01 0x9f 0x00, DC 0x09 0x01 0x9f 0x00, DC 0x17 0x01 0x9f 0x00, DC 0x28 0x01 0x9f 0x01],
    \<comment> \<open>178\<close>
   [DC 0x03 0x01 0x90 0x00, DC 0x06 0x01 0x90 0x00, DC 0x0a 0x01 0x90 0x00, DC 0x0f 0x01 0x90 0x00,
    DC 0x18 0x01 0x90 0x00, DC 0x1f 0x01 0x90 0x00, DC 0x29 0x01 0x90 0x00, DC 0x38 0x01 0x90 0x01,
    DC 0x03 0x01 0x91 0x00, DC 0x06 0x01 0x91 0x00, DC 0x0a 0x01 0x91 0x00, DC 0x0f 0x01 0x91 0x00,
    DC 0x18 0x01 0x91 0x00, DC 0x1f 0x01 0x91 0x00, DC 0x29 0x01 0x91 0x00, DC 0x38 0x01 0x91 0x01],
    \<comment> \<open>179\<close>
   [DC 0x03 0x01 0x94 0x00, DC 0x06 0x01 0x94 0x00, DC 0x0a 0x01 0x94 0x00, DC 0x0f 0x01 0x94 0x00,
    DC 0x18 0x01 0x94 0x00, DC 0x1f 0x01 0x94 0x00, DC 0x29 0x01 0x94 0x00, DC 0x38 0x01 0x94 0x01,
    DC 0x03 0x01 0x9f 0x00, DC 0x06 0x01 0x9f 0x00, DC 0x0a 0x01 0x9f 0x00, DC 0x0f 0x01 0x9f 0x00,
    DC 0x18 0x01 0x9f 0x00, DC 0x1f 0x01 0x9f 0x00, DC 0x29 0x01 0x9f 0x00, DC 0x38 0x01 0x9f 0x01],
    \<comment> \<open>180\<close>
   [DC 0x00 0x01 0xab 0x01, DC 0x00 0x01 0xce 0x01, DC 0x00 0x01 0xd7 0x01, DC 0x00 0x01 0xe1 0x01,
    DC 0x00 0x01 0xec 0x01, DC 0x00 0x01 0xed 0x01, DC 0xbc 0x00 0x00 0x00, DC 0xbd 0x00 0x00 0x00,
    DC 0xc1 0x00 0x00 0x00, DC 0xc4 0x00 0x00 0x00, DC 0xc8 0x00 0x00 0x00, DC 0xcb 0x00 0x00 0x00,
    DC 0xd1 0x00 0x00 0x00, DC 0xd8 0x00 0x00 0x00, DC 0xe0 0x00 0x00 0x00, DC 0xee 0x00 0x00 0x01],
    \<comment> \<open>181\<close>
   [DC 0x01 0x01 0xab 0x00, DC 0x16 0x01 0xab 0x01, DC 0x01 0x01 0xce 0x00, DC 0x16 0x01 0xce 0x01,
    DC 0x01 0x01 0xd7 0x00, DC 0x16 0x01 0xd7 0x01, DC 0x01 0x01 0xe1 0x00, DC 0x16 0x01 0xe1 0x01,
    DC 0x01 0x01 0xec 0x00, DC 0x16 0x01 0xec 0x01, DC 0x01 0x01 0xed 0x00, DC 0x16 0x01 0xed 0x01,
    DC 0x00 0x01 0xc7 0x01, DC 0x00 0x01 0xcf 0x01, DC 0x00 0x01 0xea 0x01, DC 0x00 0x01 0xeb 0x01],
    \<comment> \<open>182\<close>
   [DC 0x02 0x01 0xab 0x00, DC 0x09 0x01 0xab 0x00, DC 0x17 0x01 0xab 0x00, DC 0x28 0x01 0xab 0x01,
    DC 0x02 0x01 0xce 0x00, DC 0x09 0x01 0xce 0x00, DC 0x17 0x01 0xce 0x00, DC 0x28 0x01 0xce 0x01,
    DC 0x02 0x01 0xd7 0x00, DC 0x09 0x01 0xd7 0x00, DC 0x17 0x01 0xd7 0x00, DC 0x28 0x01 0xd7 0x01,
    DC 0x02 0x01 0xe1 0x00, DC 0x09 0x01 0xe1 0x00, DC 0x17 0x01 0xe1 0x00, DC 0x28 0x01 0xe1 0x01],
    \<comment> \<open>183\<close>
   [DC 0x03 0x01 0xab 0x00, DC 0x06 0x01 0xab 0x00, DC 0x0a 0x01 0xab 0x00, DC 0x0f 0x01 0xab 0x00,
    DC 0x18 0x01 0xab 0x00, DC 0x1f 0x01 0xab 0x00, DC 0x29 0x01 0xab 0x00, DC 0x38 0x01 0xab 0x01,
    DC 0x03 0x01 0xce 0x00, DC 0x06 0x01 0xce 0x00, DC 0x0a 0x01 0xce 0x00, DC 0x0f 0x01 0xce 0x00,
    DC 0x18 0x01 0xce 0x00, DC 0x1f 0x01 0xce 0x00, DC 0x29 0x01 0xce 0x00, DC 0x38 0x01 0xce 0x01]
   ]"

definition huff_codes_184 :: "ngx_http_v2_huff_decode_code_t list list" where
  "huff_codes_184 = [
    \<comment> \<open>184\<close>
   [DC 0x03 0x01 0xd7 0x00, DC 0x06 0x01 0xd7 0x00, DC 0x0a 0x01 0xd7 0x00, DC 0x0f 0x01 0xd7 0x00,
    DC 0x18 0x01 0xd7 0x00, DC 0x1f 0x01 0xd7 0x00, DC 0x29 0x01 0xd7 0x00, DC 0x38 0x01 0xd7 0x01,
    DC 0x03 0x01 0xe1 0x00, DC 0x06 0x01 0xe1 0x00, DC 0x0a 0x01 0xe1 0x00, DC 0x0f 0x01 0xe1 0x00,
    DC 0x18 0x01 0xe1 0x00, DC 0x1f 0x01 0xe1 0x00, DC 0x29 0x01 0xe1 0x00, DC 0x38 0x01 0xe1 0x01],
    \<comment> \<open>185\<close>
   [DC 0x02 0x01 0xec 0x00, DC 0x09 0x01 0xec 0x00, DC 0x17 0x01 0xec 0x00, DC 0x28 0x01 0xec 0x01,
    DC 0x02 0x01 0xed 0x00, DC 0x09 0x01 0xed 0x00, DC 0x17 0x01 0xed 0x00, DC 0x28 0x01 0xed 0x01,
    DC 0x01 0x01 0xc7 0x00, DC 0x16 0x01 0xc7 0x01, DC 0x01 0x01 0xcf 0x00, DC 0x16 0x01 0xcf 0x01,
    DC 0x01 0x01 0xea 0x00, DC 0x16 0x01 0xea 0x01, DC 0x01 0x01 0xeb 0x00, DC 0x16 0x01 0xeb 0x01],
    \<comment> \<open>186\<close>
   [DC 0x03 0x01 0xec 0x00, DC 0x06 0x01 0xec 0x00, DC 0x0a 0x01 0xec 0x00, DC 0x0f 0x01 0xec 0x00,
    DC 0x18 0x01 0xec 0x00, DC 0x1f 0x01 0xec 0x00, DC 0x29 0x01 0xec 0x00, DC 0x38 0x01 0xec 0x01,
    DC 0x03 0x01 0xed 0x00, DC 0x06 0x01 0xed 0x00, DC 0x0a 0x01 0xed 0x00, DC 0x0f 0x01 0xed 0x00,
    DC 0x18 0x01 0xed 0x00, DC 0x1f 0x01 0xed 0x00, DC 0x29 0x01 0xed 0x00, DC 0x38 0x01 0xed 0x01],
    \<comment> \<open>187\<close>
   [DC 0x02 0x01 0xc7 0x00, DC 0x09 0x01 0xc7 0x00, DC 0x17 0x01 0xc7 0x00, DC 0x28 0x01 0xc7 0x01,
    DC 0x02 0x01 0xcf 0x00, DC 0x09 0x01 0xcf 0x00, DC 0x17 0x01 0xcf 0x00, DC 0x28 0x01 0xcf 0x01,
    DC 0x02 0x01 0xea 0x00, DC 0x09 0x01 0xea 0x00, DC 0x17 0x01 0xea 0x00, DC 0x28 0x01 0xea 0x01,
    DC 0x02 0x01 0xeb 0x00, DC 0x09 0x01 0xeb 0x00, DC 0x17 0x01 0xeb 0x00, DC 0x28 0x01 0xeb 0x01],
    \<comment> \<open>188\<close>
   [DC 0x03 0x01 0xc7 0x00, DC 0x06 0x01 0xc7 0x00, DC 0x0a 0x01 0xc7 0x00, DC 0x0f 0x01 0xc7 0x00,
    DC 0x18 0x01 0xc7 0x00, DC 0x1f 0x01 0xc7 0x00, DC 0x29 0x01 0xc7 0x00, DC 0x38 0x01 0xc7 0x01,
    DC 0x03 0x01 0xcf 0x00, DC 0x06 0x01 0xcf 0x00, DC 0x0a 0x01 0xcf 0x00, DC 0x0f 0x01 0xcf 0x00,
    DC 0x18 0x01 0xcf 0x00, DC 0x1f 0x01 0xcf 0x00, DC 0x29 0x01 0xcf 0x00, DC 0x38 0x01 0xcf 0x01],
    \<comment> \<open>189\<close>
   [DC 0x03 0x01 0xea 0x00, DC 0x06 0x01 0xea 0x00, DC 0x0a 0x01 0xea 0x00, DC 0x0f 0x01 0xea 0x00,
    DC 0x18 0x01 0xea 0x00, DC 0x1f 0x01 0xea 0x00, DC 0x29 0x01 0xea 0x00, DC 0x38 0x01 0xea 0x01,
    DC 0x03 0x01 0xeb 0x00, DC 0x06 0x01 0xeb 0x00, DC 0x0a 0x01 0xeb 0x00, DC 0x0f 0x01 0xeb 0x00,
    DC 0x18 0x01 0xeb 0x00, DC 0x1f 0x01 0xeb 0x00, DC 0x29 0x01 0xeb 0x00, DC 0x38 0x01 0xeb 0x01],
    \<comment> \<open>190\<close>
   [DC 0xc2 0x00 0x00 0x00, DC 0xc3 0x00 0x00 0x00, DC 0xc5 0x00 0x00 0x00, DC 0xc6 0x00 0x00 0x00,
    DC 0xc9 0x00 0x00 0x00, DC 0xca 0x00 0x00 0x00, DC 0xcc 0x00 0x00 0x00, DC 0xcd 0x00 0x00 0x00,
    DC 0xd2 0x00 0x00 0x00, DC 0xd5 0x00 0x00 0x00, DC 0xd9 0x00 0x00 0x00, DC 0xdc 0x00 0x00 0x00,
    DC 0xe1 0x00 0x00 0x00, DC 0xe7 0x00 0x00 0x00, DC 0xef 0x00 0x00 0x00, DC 0xf6 0x00 0x00 0x01],
    \<comment> \<open>191\<close>
   [DC 0x00 0x01 0xc0 0x01, DC 0x00 0x01 0xc1 0x01, DC 0x00 0x01 0xc8 0x01, DC 0x00 0x01 0xc9 0x01,
    DC 0x00 0x01 0xca 0x01, DC 0x00 0x01 0xcd 0x01, DC 0x00 0x01 0xd2 0x01, DC 0x00 0x01 0xd5 0x01,
    DC 0x00 0x01 0xda 0x01, DC 0x00 0x01 0xdb 0x01, DC 0x00 0x01 0xee 0x01, DC 0x00 0x01 0xf0 0x01,
    DC 0x00 0x01 0xf2 0x01, DC 0x00 0x01 0xf3 0x01, DC 0x00 0x01 0xff 0x01, DC 0xce 0x00 0x00 0x00]
   ]"

definition huff_codes_192 :: "ngx_http_v2_huff_decode_code_t list list" where
  "huff_codes_192 = [
    \<comment> \<open>192\<close>
   [DC 0x01 0x01 0xc0 0x00, DC 0x16 0x01 0xc0 0x01, DC 0x01 0x01 0xc1 0x00, DC 0x16 0x01 0xc1 0x01,
    DC 0x01 0x01 0xc8 0x00, DC 0x16 0x01 0xc8 0x01, DC 0x01 0x01 0xc9 0x00, DC 0x16 0x01 0xc9 0x01,
    DC 0x01 0x01 0xca 0x00, DC 0x16 0x01 0xca 0x01, DC 0x01 0x01 0xcd 0x00, DC 0x16 0x01 0xcd 0x01,
    DC 0x01 0x01 0xd2 0x00, DC 0x16 0x01 0xd2 0x01, DC 0x01 0x01 0xd5 0x00, DC 0x16 0x01 0xd5 0x01],
    \<comment> \<open>193\<close>
   [DC 0x02 0x01 0xc0 0x00, DC 0x09 0x01 0xc0 0x00, DC 0x17 0x01 0xc0 0x00, DC 0x28 0x01 0xc0 0x01,
    DC 0x02 0x01 0xc1 0x00, DC 0x09 0x01 0xc1 0x00, DC 0x17 0x01 0xc1 0x00, DC 0x28 0x01 0xc1 0x01,
    DC 0x02 0x01 0xc8 0x00, DC 0x09 0x01 0xc8 0x00, DC 0x17 0x01 0xc8 0x00, DC 0x28 0x01 0xc8 0x01,
    DC 0x02 0x01 0xc9 0x00, DC 0x09 0x01 0xc9 0x00, DC 0x17 0x01 0xc9 0x00, DC 0x28 0x01 0xc9 0x01],
    \<comment> \<open>194\<close>
   [DC 0x03 0x01 0xc0 0x00, DC 0x06 0x01 0xc0 0x00, DC 0x0a 0x01 0xc0 0x00, DC 0x0f 0x01 0xc0 0x00,
    DC 0x18 0x01 0xc0 0x00, DC 0x1f 0x01 0xc0 0x00, DC 0x29 0x01 0xc0 0x00, DC 0x38 0x01 0xc0 0x01,
    DC 0x03 0x01 0xc1 0x00, DC 0x06 0x01 0xc1 0x00, DC 0x0a 0x01 0xc1 0x00, DC 0x0f 0x01 0xc1 0x00,
    DC 0x18 0x01 0xc1 0x00, DC 0x1f 0x01 0xc1 0x00, DC 0x29 0x01 0xc1 0x00, DC 0x38 0x01 0xc1 0x01],
    \<comment> \<open>195\<close>
   [DC 0x03 0x01 0xc8 0x00, DC 0x06 0x01 0xc8 0x00, DC 0x0a 0x01 0xc8 0x00, DC 0x0f 0x01 0xc8 0x00,
    DC 0x18 0x01 0xc8 0x00, DC 0x1f 0x01 0xc8 0x00, DC 0x29 0x01 0xc8 0x00, DC 0x38 0x01 0xc8 0x01,
    DC 0x03 0x01 0xc9 0x00, DC 0x06 0x01 0xc9 0x00, DC 0x0a 0x01 0xc9 0x00, DC 0x0f 0x01 0xc9 0x00,
    DC 0x18 0x01 0xc9 0x00, DC 0x1f 0x01 0xc9 0x00, DC 0x29 0x01 0xc9 0x00, DC 0x38 0x01 0xc9 0x01],
    \<comment> \<open>196\<close>
   [DC 0x02 0x01 0xca 0x00, DC 0x09 0x01 0xca 0x00, DC 0x17 0x01 0xca 0x00, DC 0x28 0x01 0xca 0x01,
    DC 0x02 0x01 0xcd 0x00, DC 0x09 0x01 0xcd 0x00, DC 0x17 0x01 0xcd 0x00, DC 0x28 0x01 0xcd 0x01,
    DC 0x02 0x01 0xd2 0x00, DC 0x09 0x01 0xd2 0x00, DC 0x17 0x01 0xd2 0x00, DC 0x28 0x01 0xd2 0x01,
    DC 0x02 0x01 0xd5 0x00, DC 0x09 0x01 0xd5 0x00, DC 0x17 0x01 0xd5 0x00, DC 0x28 0x01 0xd5 0x01],
    \<comment> \<open>197\<close>
   [DC 0x03 0x01 0xca 0x00, DC 0x06 0x01 0xca 0x00, DC 0x0a 0x01 0xca 0x00, DC 0x0f 0x01 0xca 0x00,
    DC 0x18 0x01 0xca 0x00, DC 0x1f 0x01 0xca 0x00, DC 0x29 0x01 0xca 0x00, DC 0x38 0x01 0xca 0x01,
    DC 0x03 0x01 0xcd 0x00, DC 0x06 0x01 0xcd 0x00, DC 0x0a 0x01 0xcd 0x00, DC 0x0f 0x01 0xcd 0x00,
    DC 0x18 0x01 0xcd 0x00, DC 0x1f 0x01 0xcd 0x00, DC 0x29 0x01 0xcd 0x00, DC 0x38 0x01 0xcd 0x01],
    \<comment> \<open>198\<close>
   [DC 0x03 0x01 0xd2 0x00, DC 0x06 0x01 0xd2 0x00, DC 0x0a 0x01 0xd2 0x00, DC 0x0f 0x01 0xd2 0x00,
    DC 0x18 0x01 0xd2 0x00, DC 0x1f 0x01 0xd2 0x00, DC 0x29 0x01 0xd2 0x00, DC 0x38 0x01 0xd2 0x01,
    DC 0x03 0x01 0xd5 0x00, DC 0x06 0x01 0xd5 0x00, DC 0x0a 0x01 0xd5 0x00, DC 0x0f 0x01 0xd5 0x00,
    DC 0x18 0x01 0xd5 0x00, DC 0x1f 0x01 0xd5 0x00, DC 0x29 0x01 0xd5 0x00, DC 0x38 0x01 0xd5 0x01],
    \<comment> \<open>199\<close>
   [DC 0x01 0x01 0xda 0x00, DC 0x16 0x01 0xda 0x01, DC 0x01 0x01 0xdb 0x00, DC 0x16 0x01 0xdb 0x01,
    DC 0x01 0x01 0xee 0x00, DC 0x16 0x01 0xee 0x01, DC 0x01 0x01 0xf0 0x00, DC 0x16 0x01 0xf0 0x01,
    DC 0x01 0x01 0xf2 0x00, DC 0x16 0x01 0xf2 0x01, DC 0x01 0x01 0xf3 0x00, DC 0x16 0x01 0xf3 0x01,
    DC 0x01 0x01 0xff 0x00, DC 0x16 0x01 0xff 0x01, DC 0x00 0x01 0xcb 0x01, DC 0x00 0x01 0xcc 0x01]
   ]"

definition huff_codes_200 :: "ngx_http_v2_huff_decode_code_t list list" where
  "huff_codes_200 = [
    \<comment> \<open>200\<close>
   [DC 0x02 0x01 0xda 0x00, DC 0x09 0x01 0xda 0x00, DC 0x17 0x01 0xda 0x00, DC 0x28 0x01 0xda 0x01,
    DC 0x02 0x01 0xdb 0x00, DC 0x09 0x01 0xdb 0x00, DC 0x17 0x01 0xdb 0x00, DC 0x28 0x01 0xdb 0x01,
    DC 0x02 0x01 0xee 0x00, DC 0x09 0x01 0xee 0x00, DC 0x17 0x01 0xee 0x00, DC 0x28 0x01 0xee 0x01,
    DC 0x02 0x01 0xf0 0x00, DC 0x09 0x01 0xf0 0x00, DC 0x17 0x01 0xf0 0x00, DC 0x28 0x01 0xf0 0x01],
    \<comment> \<open>201\<close>
   [DC 0x03 0x01 0xda 0x00, DC 0x06 0x01 0xda 0x00, DC 0x0a 0x01 0xda 0x00, DC 0x0f 0x01 0xda 0x00,
    DC 0x18 0x01 0xda 0x00, DC 0x1f 0x01 0xda 0x00, DC 0x29 0x01 0xda 0x00, DC 0x38 0x01 0xda 0x01,
    DC 0x03 0x01 0xdb 0x00, DC 0x06 0x01 0xdb 0x00, DC 0x0a 0x01 0xdb 0x00, DC 0x0f 0x01 0xdb 0x00,
    DC 0x18 0x01 0xdb 0x00, DC 0x1f 0x01 0xdb 0x00, DC 0x29 0x01 0xdb 0x00, DC 0x38 0x01 0xdb 0x01],
    \<comment> \<open>202\<close>
   [DC 0x03 0x01 0xee 0x00, DC 0x06 0x01 0xee 0x00, DC 0x0a 0x01 0xee 0x00, DC 0x0f 0x01 0xee 0x00,
    DC 0x18 0x01 0xee 0x00, DC 0x1f 0x01 0xee 0x00, DC 0x29 0x01 0xee 0x00, DC 0x38 0x01 0xee 0x01,
    DC 0x03 0x01 0xf0 0x00, DC 0x06 0x01 0xf0 0x00, DC 0x0a 0x01 0xf0 0x00, DC 0x0f 0x01 0xf0 0x00,
    DC 0x18 0x01 0xf0 0x00, DC 0x1f 0x01 0xf0 0x00, DC 0x29 0x01 0xf0 0x00, DC 0x38 0x01 0xf0 0x01],
    \<comment> \<open>203\<close>
   [DC 0x02 0x01 0xf2 0x00, DC 0x09 0x01 0xf2 0x00, DC 0x17 0x01 0xf2 0x00, DC 0x28 0x01 0xf2 0x01,
    DC 0x02 0x01 0xf3 0x00, DC 0x09 0x01 0xf3 0x00, DC 0x17 0x01 0xf3 0x00, DC 0x28 0x01 0xf3 0x01,
    DC 0x02 0x01 0xff 0x00, DC 0x09 0x01 0xff 0x00, DC 0x17 0x01 0xff 0x00, DC 0x28 0x01 0xff 0x01,
    DC 0x01 0x01 0xcb 0x00, DC 0x16 0x01 0xcb 0x01, DC 0x01 0x01 0xcc 0x00, DC 0x16 0x01 0xcc 0x01],
    \<comment> \<open>204\<close>
   [DC 0x03 0x01 0xf2 0x00, DC 0x06 0x01 0xf2 0x00, DC 0x0a 0x01 0xf2 0x00, DC 0x0f 0x01 0xf2 0x00,
    DC 0x18 0x01 0xf2 0x00, DC 0x1f 0x01 0xf2 0x00, DC 0x29 0x01 0xf2 0x00, DC 0x38 0x01 0xf2 0x01,
    DC 0x03 0x01 0xf3 0x00, DC 0x06 0x01 0xf3 0x00, DC 0x0a 0x01 0xf3 0x00, DC 0x0f 0x01 0xf3 0x00,
    DC 0x18 0x01 0xf3 0x00, DC 0x1f 0x01 0xf3 0x00, DC 0x29 0x01 0xf3 0x00, DC 0x38 0x01 0xf3 0x01],
    \<comment> \<open>205\<close>
   [DC 0x03 0x01 0xff 0x00, DC 0x06 0x01 0xff 0x00, DC 0x0a 0x01 0xff 0x00, DC 0x0f 0x01 0xff 0x00,
    DC 0x18 0x01 0xff 0x00, DC 0x1f 0x01 0xff 0x00, DC 0x29 0x01 0xff 0x00, DC 0x38 0x01 0xff 0x01,
    DC 0x02 0x01 0xcb 0x00, DC 0x09 0x01 0xcb 0x00, DC 0x17 0x01 0xcb 0x00, DC 0x28 0x01 0xcb 0x01,
    DC 0x02 0x01 0xcc 0x00, DC 0x09 0x01 0xcc 0x00, DC 0x17 0x01 0xcc 0x00, DC 0x28 0x01 0xcc 0x01],
    \<comment> \<open>206\<close>
   [DC 0x03 0x01 0xcb 0x00, DC 0x06 0x01 0xcb 0x00, DC 0x0a 0x01 0xcb 0x00, DC 0x0f 0x01 0xcb 0x00,
    DC 0x18 0x01 0xcb 0x00, DC 0x1f 0x01 0xcb 0x00, DC 0x29 0x01 0xcb 0x00, DC 0x38 0x01 0xcb 0x01,
    DC 0x03 0x01 0xcc 0x00, DC 0x06 0x01 0xcc 0x00, DC 0x0a 0x01 0xcc 0x00, DC 0x0f 0x01 0xcc 0x00,
    DC 0x18 0x01 0xcc 0x00, DC 0x1f 0x01 0xcc 0x00, DC 0x29 0x01 0xcc 0x00, DC 0x38 0x01 0xcc 0x01],
    \<comment> \<open>207\<close>
   [DC 0xd3 0x00 0x00 0x00, DC 0xd4 0x00 0x00 0x00, DC 0xd6 0x00 0x00 0x00, DC 0xd7 0x00 0x00 0x00,
    DC 0xda 0x00 0x00 0x00, DC 0xdb 0x00 0x00 0x00, DC 0xdd 0x00 0x00 0x00, DC 0xde 0x00 0x00 0x00,
    DC 0xe2 0x00 0x00 0x00, DC 0xe4 0x00 0x00 0x00, DC 0xe8 0x00 0x00 0x00, DC 0xeb 0x00 0x00 0x00,
    DC 0xf0 0x00 0x00 0x00, DC 0xf3 0x00 0x00 0x00, DC 0xf7 0x00 0x00 0x00, DC 0xfa 0x00 0x00 0x01]
   ]"

definition huff_codes_208 :: "ngx_http_v2_huff_decode_code_t list list" where
  "huff_codes_208 = [
    \<comment> \<open>208\<close>
   [DC 0x00 0x01 0xd3 0x01, DC 0x00 0x01 0xd4 0x01, DC 0x00 0x01 0xd6 0x01, DC 0x00 0x01 0xdd 0x01,
    DC 0x00 0x01 0xde 0x01, DC 0x00 0x01 0xdf 0x01, DC 0x00 0x01 0xf1 0x01, DC 0x00 0x01 0xf4 0x01,
    DC 0x00 0x01 0xf5 0x01, DC 0x00 0x01 0xf6 0x01, DC 0x00 0x01 0xf7 0x01, DC 0x00 0x01 0xf8 0x01,
    DC 0x00 0x01 0xfa 0x01, DC 0x00 0x01 0xfb 0x01, DC 0x00 0x01 0xfc 0x01, DC 0x00 0x01 0xfd 0x01],
    \<comment> \<open>209\<close>
   [DC 0x01 0x01 0xd3 0x00, DC 0x16 0x01 0xd3 0x01, DC 0x01 0x01 0xd4 0x00, DC 0x16 0x01 0xd4 0x01,
    DC 0x01 0x01 0xd6 0x00, DC 0x16 0x01 0xd6 0x01, DC 0x01 0x01 0xdd 0x00, DC 0x16 0x01 0xdd 0x01,
    DC 0x01 0x01 0xde 0x00, DC 0x16 0x01 0xde 0x01, DC 0x01 0x01 0xdf 0x00, DC 0x16 0x01 0xdf 0x01,
    DC 0x01 0x01 0xf1 0x00, DC 0x16 0x01 0xf1 0x01, DC 0x01 0x01 0xf4 0x00, DC 0x16 0x01 0xf4 0x01],
    \<comment> \<open>210\<close>
   [DC 0x02 0x01 0xd3 0x00, DC 0x09 0x01 0xd3 0x00, DC 0x17 0x01 0xd3 0x00, DC 0x28 0x01 0xd3 0x01,
    DC 0x02 0x01 0xd4 0x00, DC 0x09 0x01 0xd4 0x00, DC 0x17 0x01 0xd4 0x00, DC 0x28 0x01 0xd4 0x01,
    DC 0x02 0x01 0xd6 0x00, DC 0x09 0x01 0xd6 0x00, DC 0x17 0x01 0xd6 0x00, DC 0x28 0x01 0xd6 0x01,
    DC 0x02 0x01 0xdd 0x00, DC 0x09 0x01 0xdd 0x00, DC 0x17 0x01 0xdd 0x00, DC 0x28 0x01 0xdd 0x01],
    \<comment> \<open>211\<close>
   [DC 0x03 0x01 0xd3 0x00, DC 0x06 0x01 0xd3 0x00, DC 0x0a 0x01 0xd3 0x00, DC 0x0f 0x01 0xd3 0x00,
    DC 0x18 0x01 0xd3 0x00, DC 0x1f 0x01 0xd3 0x00, DC 0x29 0x01 0xd3 0x00, DC 0x38 0x01 0xd3 0x01,
    DC 0x03 0x01 0xd4 0x00, DC 0x06 0x01 0xd4 0x00, DC 0x0a 0x01 0xd4 0x00, DC 0x0f 0x01 0xd4 0x00,
    DC 0x18 0x01 0xd4 0x00, DC 0x1f 0x01 0xd4 0x00, DC 0x29 0x01 0xd4 0x00, DC 0x38 0x01 0xd4 0x01],
    \<comment> \<open>212\<close>
   [DC 0x03 0x01 0xd6 0x00, DC 0x06 0x01 0xd6 0x00, DC 0x0a 0x01 0xd6 0x00, DC 0x0f 0x01 0xd6 0x00,
    DC 0x18 0x01 0xd6 0x00, DC 0x1f 0x01 0xd6 0x00, DC 0x29 0x01 0xd6 0x00, DC 0x38 0x01 0xd6 0x01,
    DC 0x03 0x01 0xdd 0x00, DC 0x06 0x01 0xdd 0x00, DC 0x0a 0x01 0xdd 0x00, DC 0x0f 0x01 0xdd 0x00,
    DC 0x18 0x01 0xdd 0x00, DC 0x1f 0x01 0xdd 0x00, DC 0x29 0x01 0xdd 0x00, DC 0x38 0x01 0xdd 0x01],
    \<comment> \<open>213\<close>
   [DC 0x02 0x01 0xde 0x00, DC 0x09 0x01 0xde 0x00, DC 0x17 0x01 0xde 0x00, DC 0x28 0x01 0xde 0x01,
    DC 0x02 0x01 0xdf 0x00, DC 0x09 0x01 0xdf 0x00, DC 0x17 0x01 0xdf 0x00, DC 0x28 0x01 0xdf 0x01,
    DC 0x02 0x01 0xf1 0x00, DC 0x09 0x01 0xf1 0x00, DC 0x17 0x01 0xf1 0x00, DC 0x28 0x01 0xf1 0x01,
    DC 0x02 0x01 0xf4 0x00, DC 0x09 0x01 0xf4 0x00, DC 0x17 0x01 0xf4 0x00, DC 0x28 0x01 0xf4 0x01],
    \<comment> \<open>214\<close>
   [DC 0x03 0x01 0xde 0x00, DC 0x06 0x01 0xde 0x00, DC 0x0a 0x01 0xde 0x00, DC 0x0f 0x01 0xde 0x00,
    DC 0x18 0x01 0xde 0x00, DC 0x1f 0x01 0xde 0x00, DC 0x29 0x01 0xde 0x00, DC 0x38 0x01 0xde 0x01,
    DC 0x03 0x01 0xdf 0x00, DC 0x06 0x01 0xdf 0x00, DC 0x0a 0x01 0xdf 0x00, DC 0x0f 0x01 0xdf 0x00,
    DC 0x18 0x01 0xdf 0x00, DC 0x1f 0x01 0xdf 0x00, DC 0x29 0x01 0xdf 0x00, DC 0x38 0x01 0xdf 0x01],
    \<comment> \<open>215\<close>
   [DC 0x03 0x01 0xf1 0x00, DC 0x06 0x01 0xf1 0x00, DC 0x0a 0x01 0xf1 0x00, DC 0x0f 0x01 0xf1 0x00,
    DC 0x18 0x01 0xf1 0x00, DC 0x1f 0x01 0xf1 0x00, DC 0x29 0x01 0xf1 0x00, DC 0x38 0x01 0xf1 0x01,
    DC 0x03 0x01 0xf4 0x00, DC 0x06 0x01 0xf4 0x00, DC 0x0a 0x01 0xf4 0x00, DC 0x0f 0x01 0xf4 0x00,
    DC 0x18 0x01 0xf4 0x00, DC 0x1f 0x01 0xf4 0x00, DC 0x29 0x01 0xf4 0x00, DC 0x38 0x01 0xf4 0x01]
   ]"

definition huff_codes_216 :: "ngx_http_v2_huff_decode_code_t list list" where
  "huff_codes_216 = [
    \<comment> \<open>216\<close>
   [DC 0x01 0x01 0xf5 0x00, DC 0x16 0x01 0xf5 0x01, DC 0x01 0x01 0xf6 0x00, DC 0x16 0x01 0xf6 0x01,
    DC 0x01 0x01 0xf7 0x00, DC 0x16 0x01 0xf7 0x01, DC 0x01 0x01 0xf8 0x00, DC 0x16 0x01 0xf8 0x01,
    DC 0x01 0x01 0xfa 0x00, DC 0x16 0x01 0xfa 0x01, DC 0x01 0x01 0xfb 0x00, DC 0x16 0x01 0xfb 0x01,
    DC 0x01 0x01 0xfc 0x00, DC 0x16 0x01 0xfc 0x01, DC 0x01 0x01 0xfd 0x00, DC 0x16 0x01 0xfd 0x01],
    \<comment> \<open>217\<close>
   [DC 0x02 0x01 0xf5 0x00, DC 0x09 0x01 0xf5 0x00, DC 0x17 0x01 0xf5 0x00, DC 0x28 0x01 0xf5 0x01,
    DC 0x02 0x01 0xf6 0x00, DC 0x09 0x01 0xf6 0x00, DC 0x17 0x01 0xf6 0x00, DC 0x28 0x01 0xf6 0x01,
    DC 0x02 0x01 0xf7 0x00, DC 0x09 0x01 0xf7 0x00, DC 0x17 0x01 0xf7 0x00, DC 0x28 0x01 0xf7 0x01,
    DC 0x02 0x01 0xf8 0x00, DC 0x09 0x01 0xf8 0x00, DC 0x17 0x01 0xf8 0x00, DC 0x28 0x01 0xf8 0x01],
    \<comment> \<open>218\<close>
   [DC 0x03 0x01 0xf5 0x00, DC 0x06 0x01 0xf5 0x00, DC 0x0a 0x01 0xf5 0x00, DC 0x0f 0x01 0xf5 0x00,
    DC 0x18 0x01 0xf5 0x00, DC 0x1f 0x01 0xf5 0x00, DC 0x29 0x01 0xf5 0x00, DC 0x38 0x01 0xf5 0x01,
    DC 0x03 0x01 0xf6 0x00, DC 0x06 0x01 0xf6 0x00, DC 0x0a 0x01 0xf6 0x00, DC 0x0f 0x01 0xf6 0x00,
    DC 0x18 0x01 0xf6 0x00, DC 0x1f 0x01 0xf6 0x00, DC 0x29 0x01 0xf6 0x00, DC 0x38 0x01 0xf6 0x01],
    \<comment> \<open>219\<close>
   [DC 0x03 0x01 0xf7 0x00, DC 0x06 0x01 0xf7 0x00, DC 0x0a 0x01 0xf7 0x00, DC 0x0f 0x01 0xf7 0x00,
    DC 0x18 0x01 0xf7 0x00, DC 0x1f 0x01 0xf7 0x00, DC 0x29 0x01 0xf7 0x00, DC 0x38 0x01 0xf7 0x01,
    DC 0x03 0x01 0xf8 0x00, DC 0x06 0x01 0xf8 0x00, DC 0x0a 0x01 0xf8 0x00, DC 0x0f 0x01 0xf8 0x00,
    DC 0x18 0x01 0xf8 0x00, DC 0x1f 0x01 0xf8 0x00, DC 0x29 0x01 0xf8 0x00, DC 0x38 0x01 0xf8 0x01],
    \<comment> \<open>220\<close>
   [DC 0x02 0x01 0xfa 0x00, DC 0x09 0x01 0xfa 0x00, DC 0x17 0x01 0xfa 0x00, DC 0x28 0x01 0xfa 0x01,
    DC 0x02 0x01 0xfb 0x00, DC 0x09 0x01 0xfb 0x00, DC 0x17 0x01 0xfb 0x00, DC 0x28 0x01 0xfb 0x01,
    DC 0x02 0x01 0xfc 0x00, DC 0x09 0x01 0xfc 0x00, DC 0x17 0x01 0xfc 0x00, DC 0x28 0x01 0xfc 0x01,
    DC 0x02 0x01 0xfd 0x00, DC 0x09 0x01 0xfd 0x00, DC 0x17 0x01 0xfd 0x00, DC 0x28 0x01 0xfd 0x01],
    \<comment> \<open>221\<close>
   [DC 0x03 0x01 0xfa 0x00, DC 0x06 0x01 0xfa 0x00, DC 0x0a 0x01 0xfa 0x00, DC 0x0f 0x01 0xfa 0x00,
    DC 0x18 0x01 0xfa 0x00, DC 0x1f 0x01 0xfa 0x00, DC 0x29 0x01 0xfa 0x00, DC 0x38 0x01 0xfa 0x01,
    DC 0x03 0x01 0xfb 0x00, DC 0x06 0x01 0xfb 0x00, DC 0x0a 0x01 0xfb 0x00, DC 0x0f 0x01 0xfb 0x00,
    DC 0x18 0x01 0xfb 0x00, DC 0x1f 0x01 0xfb 0x00, DC 0x29 0x01 0xfb 0x00, DC 0x38 0x01 0xfb 0x01],
    \<comment> \<open>222\<close>
   [DC 0x03 0x01 0xfc 0x00, DC 0x06 0x01 0xfc 0x00, DC 0x0a 0x01 0xfc 0x00, DC 0x0f 0x01 0xfc 0x00,
    DC 0x18 0x01 0xfc 0x00, DC 0x1f 0x01 0xfc 0x00, DC 0x29 0x01 0xfc 0x00, DC 0x38 0x01 0xfc 0x01,
    DC 0x03 0x01 0xfd 0x00, DC 0x06 0x01 0xfd 0x00, DC 0x0a 0x01 0xfd 0x00, DC 0x0f 0x01 0xfd 0x00,
    DC 0x18 0x01 0xfd 0x00, DC 0x1f 0x01 0xfd 0x00, DC 0x29 0x01 0xfd 0x00, DC 0x38 0x01 0xfd 0x01],
    \<comment> \<open>223\<close>
   [DC 0x00 0x01 0xfe 0x01, DC 0xe3 0x00 0x00 0x00, DC 0xe5 0x00 0x00 0x00, DC 0xe6 0x00 0x00 0x00,
    DC 0xe9 0x00 0x00 0x00, DC 0xea 0x00 0x00 0x00, DC 0xec 0x00 0x00 0x00, DC 0xed 0x00 0x00 0x00,
    DC 0xf1 0x00 0x00 0x00, DC 0xf2 0x00 0x00 0x00, DC 0xf4 0x00 0x00 0x00, DC 0xf5 0x00 0x00 0x00,
    DC 0xf8 0x00 0x00 0x00, DC 0xf9 0x00 0x00 0x00, DC 0xfb 0x00 0x00 0x00, DC 0xfc 0x00 0x00 0x01]
   ]"

definition huff_codes_224 :: "ngx_http_v2_huff_decode_code_t list list" where
  "huff_codes_224 = [
    \<comment> \<open>224\<close>
   [DC 0x01 0x01 0xfe 0x00, DC 0x16 0x01 0xfe 0x01, DC 0x00 0x01 0x02 0x01, DC 0x00 0x01 0x03 0x01,
    DC 0x00 0x01 0x04 0x01, DC 0x00 0x01 0x05 0x01, DC 0x00 0x01 0x06 0x01, DC 0x00 0x01 0x07 0x01,
    DC 0x00 0x01 0x08 0x01, DC 0x00 0x01 0x0b 0x01, DC 0x00 0x01 0x0c 0x01, DC 0x00 0x01 0x0e 0x01,
    DC 0x00 0x01 0x0f 0x01, DC 0x00 0x01 0x10 0x01, DC 0x00 0x01 0x11 0x01, DC 0x00 0x01 0x12 0x01],
    \<comment> \<open>225\<close>
   [DC 0x02 0x01 0xfe 0x00, DC 0x09 0x01 0xfe 0x00, DC 0x17 0x01 0xfe 0x00, DC 0x28 0x01 0xfe 0x01,
    DC 0x01 0x01 0x02 0x00, DC 0x16 0x01 0x02 0x01, DC 0x01 0x01 0x03 0x00, DC 0x16 0x01 0x03 0x01,
    DC 0x01 0x01 0x04 0x00, DC 0x16 0x01 0x04 0x01, DC 0x01 0x01 0x05 0x00, DC 0x16 0x01 0x05 0x01,
    DC 0x01 0x01 0x06 0x00, DC 0x16 0x01 0x06 0x01, DC 0x01 0x01 0x07 0x00, DC 0x16 0x01 0x07 0x01],
    \<comment> \<open>226\<close>
   [DC 0x03 0x01 0xfe 0x00, DC 0x06 0x01 0xfe 0x00, DC 0x0a 0x01 0xfe 0x00, DC 0x0f 0x01 0xfe 0x00,
    DC 0x18 0x01 0xfe 0x00, DC 0x1f 0x01 0xfe 0x00, DC 0x29 0x01 0xfe 0x00, DC 0x38 0x01 0xfe 0x01,
    DC 0x02 0x01 0x02 0x00, DC 0x09 0x01 0x02 0x00, DC 0x17 0x01 0x02 0x00, DC 0x28 0x01 0x02 0x01,
    DC 0x02 0x01 0x03 0x00, DC 0x09 0x01 0x03 0x00, DC 0x17 0x01 0x03 0x00, DC 0x28 0x01 0x03 0x01],
    \<comment> \<open>227\<close>
   [DC 0x03 0x01 0x02 0x00, DC 0x06 0x01 0x02 0x00, DC 0x0a 0x01 0x02 0x00, DC 0x0f 0x01 0x02 0x00,
    DC 0x18 0x01 0x02 0x00, DC 0x1f 0x01 0x02 0x00, DC 0x29 0x01 0x02 0x00, DC 0x38 0x01 0x02 0x01,
    DC 0x03 0x01 0x03 0x00, DC 0x06 0x01 0x03 0x00, DC 0x0a 0x01 0x03 0x00, DC 0x0f 0x01 0x03 0x00,
    DC 0x18 0x01 0x03 0x00, DC 0x1f 0x01 0x03 0x00, DC 0x29 0x01 0x03 0x00, DC 0x38 0x01 0x03 0x01],
    \<comment> \<open>228\<close>
   [DC 0x02 0x01 0x04 0x00, DC 0x09 0x01 0x04 0x00, DC 0x17 0x01 0x04 0x00, DC 0x28 0x01 0x04 0x01,
    DC 0x02 0x01 0x05 0x00, DC 0x09 0x01 0x05 0x00, DC 0x17 0x01 0x05 0x00, DC 0x28 0x01 0x05 0x01,
    DC 0x02 0x01 0x06 0x00, DC 0x09 0x01 0x06 0x00, DC 0x17 0x01 0x06 0x00, DC 0x28 0x01 0x06 0x01,
    DC 0x02 0x01 0x07 0x00, DC 0x09 0x01 0x07 0x00, DC 0x17 0x01 0x07 0x00, DC 0x28 0x01 0x07 0x01],
    \<comment> \<open>229\<close>
   [DC 0x03 0x01 0x04 0x00, DC 0x06 0x01 0x04 0x00, DC 0x0a 0x01 0x04 0x00, DC 0x0f 0x01 0x04 0x00,
    DC 0x18 0x01 0x04 0x00, DC 0x1f 0x01 0x04 0x00, DC 0x29 0x01 0x04 0x00, DC 0x38 0x01 0x04 0x01,
    DC 0x03 0x01 0x05 0x00, DC 0x06 0x01 0x05 0x00, DC 0x0a 0x01 0x05 0x00, DC 0x0f 0x01 0x05 0x00,
    DC 0x18 0x01 0x05 0x00, DC 0x1f 0x01 0x05 0x00, DC 0x29 0x01 0x05 0x00, DC 0x38 0x01 0x05 0x01],
    \<comment> \<open>230\<close>
   [DC 0x03 0x01 0x06 0x00, DC 0x06 0x01 0x06 0x00, DC 0x0a 0x01 0x06 0x00, DC 0x0f 0x01 0x06 0x00,
    DC 0x18 0x01 0x06 0x00, DC 0x1f 0x01 0x06 0x00, DC 0x29 0x01 0x06 0x00, DC 0x38 0x01 0x06 0x01,
    DC 0x03 0x01 0x07 0x00, DC 0x06 0x01 0x07 0x00, DC 0x0a 0x01 0x07 0x00, DC 0x0f 0x01 0x07 0x00,
    DC 0x18 0x01 0x07 0x00, DC 0x1f 0x01 0x07 0x00, DC 0x29 0x01 0x07 0x00, DC 0x38 0x01 0x07 0x01],
    \<comment> \<open>231\<close>
   [DC 0x01 0x01 0x08 0x00, DC 0x16 0x01 0x08 0x01, DC 0x01 0x01 0x0b 0x00, DC 0x16 0x01 0x0b 0x01,
    DC 0x01 0x01 0x0c 0x00, DC 0x16 0x01 0x0c 0x01, DC 0x01 0x01 0x0e 0x00, DC 0x16 0x01 0x0e 0x01,
    DC 0x01 0x01 0x0f 0x00, DC 0x16 0x01 0x0f 0x01, DC 0x01 0x01 0x10 0x00, DC 0x16 0x01 0x10 0x01,
    DC 0x01 0x01 0x11 0x00, DC 0x16 0x01 0x11 0x01, DC 0x01 0x01 0x12 0x00, DC 0x16 0x01 0x12 0x01]
   ]"

definition huff_codes_232 :: "ngx_http_v2_huff_decode_code_t list list" where
  "huff_codes_232 = [
    \<comment> \<open>232\<close>
   [DC 0x02 0x01 0x08 0x00, DC 0x09 0x01 0x08 0x00, DC 0x17 0x01 0x08 0x00, DC 0x28 0x01 0x08 0x01,
    DC 0x02 0x01 0x0b 0x00, DC 0x09 0x01 0x0b 0x00, DC 0x17 0x01 0x0b 0x00, DC 0x28 0x01 0x0b 0x01,
    DC 0x02 0x01 0x0c 0x00, DC 0x09 0x01 0x0c 0x00, DC 0x17 0x01 0x0c 0x00, DC 0x28 0x01 0x0c 0x01,
    DC 0x02 0x01 0x0e 0x00, DC 0x09 0x01 0x0e 0x00, DC 0x17 0x01 0x0e 0x00, DC 0x28 0x01 0x0e 0x01],
    \<comment> \<open>233\<close>
   [DC 0x03 0x01 0x08 0x00, DC 0x06 0x01 0x08 0x00, DC 0x0a 0x01 0x08 0x00, DC 0x0f 0x01 0x08 0x00,
    DC 0x18 0x01 0x08 0x00, DC 0x1f 0x01 0x08 0x00, DC 0x29 0x01 0x08 0x00, DC 0x38 0x01 0x08 0x01,
    DC 0x03 0x01 0x0b 0x00, DC 0x06 0x01 0x0b 0x00, DC 0x0a 0x01 0x0b 0x00, DC 0x0f 0x01 0x0b 0x00,
    DC 0x18 0x01 0x0b 0x00, DC 0x1f 0x01 0x0b 0x00, DC 0x29 0x01 0x0b 0x00, DC 0x38 0x01 0x0b 0x01],
    \<comment> \<open>234\<close>
   [DC 0x03 0x01 0x0c 0x00, DC 0x06 0x01 0x0c 0x00, DC 0x0a 0x01 0x0c 0x00, DC 0x0f 0x01 0x0c 0x00,
    DC 0x18 0x01 0x0c 0x00, DC 0x1f 0x01 0x0c 0x00, DC 0x29 0x01 0x0c 0x00, DC 0x38 0x01 0x0c 0x01,
    DC 0x03 0x01 0x0e 0x00, DC 0x06 0x01 0x0e 0x00, DC 0x0a 0x01 0x0e 0x00, DC 0x0f 0x01 0x0e 0x00,
    DC 0x18 0x01 0x0e 0x00, DC 0x1f 0x01 0x0e 0x00, DC 0x29 0x01 0x0e 0x00, DC 0x38 0x01 0x0e 0x01],
    \<comment> \<open>235\<close>
   [DC 0x02 0x01 0x0f 0x00, DC 0x09 0x01 0x0f 0x00, DC 0x17 0x01 0x0f 0x00, DC 0x28 0x01 0x0f 0x01,
    DC 0x02 0x01 0x10 0x00, DC 0x09 0x01 0x10 0x00, DC 0x17 0x01 0x10 0x00, DC 0x28 0x01 0x10 0x01,
    DC 0x02 0x01 0x11 0x00, DC 0x09 0x01 0x11 0x00, DC 0x17 0x01 0x11 0x00, DC 0x28 0x01 0x11 0x01,
    DC 0x02 0x01 0x12 0x00, DC 0x09 0x01 0x12 0x00, DC 0x17 0x01 0x12 0x00, DC 0x28 0x01 0x12 0x01],
    \<comment> \<open>236\<close>
   [DC 0x03 0x01 0x0f 0x00, DC 0x06 0x01 0x0f 0x00, DC 0x0a 0x01 0x0f 0x00, DC 0x0f 0x01 0x0f 0x00,
    DC 0x18 0x01 0x0f 0x00, DC 0x1f 0x01 0x0f 0x00, DC 0x29 0x01 0x0f 0x00, DC 0x38 0x01 0x0f 0x01,
    DC 0x03 0x01 0x10 0x00, DC 0x06 0x01 0x10 0x00, DC 0x0a 0x01 0x10 0x00, DC 0x0f 0x01 0x10 0x00,
    DC 0x18 0x01 0x10 0x00, DC 0x1f 0x01 0x10 0x00, DC 0x29 0x01 0x10 0x00, DC 0x38 0x01 0x10 0x01],
    \<comment> \<open>237\<close>
   [DC 0x03 0x01 0x11 0x00, DC 0x06 0x01 0x11 0x00, DC 0x0a 0x01 0x11 0x00, DC 0x0f 0x01 0x11 0x00,
    DC 0x18 0x01 0x11 0x00, DC 0x1f 0x01 0x11 0x00, DC 0x29 0x01 0x11 0x00, DC 0x38 0x01 0x11 0x01,
    DC 0x03 0x01 0x12 0x00, DC 0x06 0x01 0x12 0x00, DC 0x0a 0x01 0x12 0x00, DC 0x0f 0x01 0x12 0x00,
    DC 0x18 0x01 0x12 0x00, DC 0x1f 0x01 0x12 0x00, DC 0x29 0x01 0x12 0x00, DC 0x38 0x01 0x12 0x01],
    \<comment> \<open>238\<close>
   [DC 0x00 0x01 0x13 0x01, DC 0x00 0x01 0x14 0x01, DC 0x00 0x01 0x15 0x01, DC 0x00 0x01 0x17 0x01,
    DC 0x00 0x01 0x18 0x01, DC 0x00 0x01 0x19 0x01, DC 0x00 0x01 0x1a 0x01, DC 0x00 0x01 0x1b 0x01,
    DC 0x00 0x01 0x1c 0x01, DC 0x00 0x01 0x1d 0x01, DC 0x00 0x01 0x1e 0x01, DC 0x00 0x01 0x1f 0x01,
    DC 0x00 0x01 0x7f 0x01, DC 0x00 0x01 0xdc 0x01, DC 0x00 0x01 0xf9 0x01, DC 0xfd 0x00 0x00 0x01],
    \<comment> \<open>239\<close>
   [DC 0x01 0x01 0x13 0x00, DC 0x16 0x01 0x13 0x01, DC 0x01 0x01 0x14 0x00, DC 0x16 0x01 0x14 0x01,
    DC 0x01 0x01 0x15 0x00, DC 0x16 0x01 0x15 0x01, DC 0x01 0x01 0x17 0x00, DC 0x16 0x01 0x17 0x01,
    DC 0x01 0x01 0x18 0x00, DC 0x16 0x01 0x18 0x01, DC 0x01 0x01 0x19 0x00, DC 0x16 0x01 0x19 0x01,
    DC 0x01 0x01 0x1a 0x00, DC 0x16 0x01 0x1a 0x01, DC 0x01 0x01 0x1b 0x00, DC 0x16 0x01 0x1b 0x01]
   ]"

definition huff_codes_240 :: "ngx_http_v2_huff_decode_code_t list list" where
  "huff_codes_240 = [
    \<comment> \<open>240\<close>
   [DC 0x02 0x01 0x13 0x00, DC 0x09 0x01 0x13 0x00, DC 0x17 0x01 0x13 0x00, DC 0x28 0x01 0x13 0x01,
    DC 0x02 0x01 0x14 0x00, DC 0x09 0x01 0x14 0x00, DC 0x17 0x01 0x14 0x00, DC 0x28 0x01 0x14 0x01,
    DC 0x02 0x01 0x15 0x00, DC 0x09 0x01 0x15 0x00, DC 0x17 0x01 0x15 0x00, DC 0x28 0x01 0x15 0x01,
    DC 0x02 0x01 0x17 0x00, DC 0x09 0x01 0x17 0x00, DC 0x17 0x01 0x17 0x00, DC 0x28 0x01 0x17 0x01],
    \<comment> \<open>241\<close>
   [DC 0x03 0x01 0x13 0x00, DC 0x06 0x01 0x13 0x00, DC 0x0a 0x01 0x13 0x00, DC 0x0f 0x01 0x13 0x00,
    DC 0x18 0x01 0x13 0x00, DC 0x1f 0x01 0x13 0x00, DC 0x29 0x01 0x13 0x00, DC 0x38 0x01 0x13 0x01,
    DC 0x03 0x01 0x14 0x00, DC 0x06 0x01 0x14 0x00, DC 0x0a 0x01 0x14 0x00, DC 0x0f 0x01 0x14 0x00,
    DC 0x18 0x01 0x14 0x00, DC 0x1f 0x01 0x14 0x00, DC 0x29 0x01 0x14 0x00, DC 0x38 0x01 0x14 0x01],
    \<comment> \<open>242\<close>
   [DC 0x03 0x01 0x15 0x00, DC 0x06 0x01 0x15 0x00, DC 0x0a 0x01 0x15 0x00, DC 0x0f 0x01 0x15 0x00,
    DC 0x18 0x01 0x15 0x00, DC 0x1f 0x01 0x15 0x00, DC 0x29 0x01 0x15 0x00, DC 0x38 0x01 0x15 0x01,
    DC 0x03 0x01 0x17 0x00, DC 0x06 0x01 0x17 0x00, DC 0x0a 0x01 0x17 0x00, DC 0x0f 0x01 0x17 0x00,
    DC 0x18 0x01 0x17 0x00, DC 0x1f 0x01 0x17 0x00, DC 0x29 0x01 0x17 0x00, DC 0x38 0x01 0x17 0x01],
    \<comment> \<open>243\<close>
   [DC 0x02 0x01 0x18 0x00, DC 0x09 0x01 0x18 0x00, DC 0x17 0x01 0x18 0x00, DC 0x28 0x01 0x18 0x01,
    DC 0x02 0x01 0x19 0x00, DC 0x09 0x01 0x19 0x00, DC 0x17 0x01 0x19 0x00, DC 0x28 0x01 0x19 0x01,
    DC 0x02 0x01 0x1a 0x00, DC 0x09 0x01 0x1a 0x00, DC 0x17 0x01 0x1a 0x00, DC 0x28 0x01 0x1a 0x01,
    DC 0x02 0x01 0x1b 0x00, DC 0x09 0x01 0x1b 0x00, DC 0x17 0x01 0x1b 0x00, DC 0x28 0x01 0x1b 0x01],
    \<comment> \<open>244\<close>
   [DC 0x03 0x01 0x18 0x00, DC 0x06 0x01 0x18 0x00, DC 0x0a 0x01 0x18 0x00, DC 0x0f 0x01 0x18 0x00,
    DC 0x18 0x01 0x18 0x00, DC 0x1f 0x01 0x18 0x00, DC 0x29 0x01 0x18 0x00, DC 0x38 0x01 0x18 0x01,
    DC 0x03 0x01 0x19 0x00, DC 0x06 0x01 0x19 0x00, DC 0x0a 0x01 0x19 0x00, DC 0x0f 0x01 0x19 0x00,
    DC 0x18 0x01 0x19 0x00, DC 0x1f 0x01 0x19 0x00, DC 0x29 0x01 0x19 0x00, DC 0x38 0x01 0x19 0x01],
    \<comment> \<open>245\<close>
   [DC 0x03 0x01 0x1a 0x00, DC 0x06 0x01 0x1a 0x00, DC 0x0a 0x01 0x1a 0x00, DC 0x0f 0x01 0x1a 0x00,
    DC 0x18 0x01 0x1a 0x00, DC 0x1f 0x01 0x1a 0x00, DC 0x29 0x01 0x1a 0x00, DC 0x38 0x01 0x1a 0x01,
    DC 0x03 0x01 0x1b 0x00, DC 0x06 0x01 0x1b 0x00, DC 0x0a 0x01 0x1b 0x00, DC 0x0f 0x01 0x1b 0x00,
    DC 0x18 0x01 0x1b 0x00, DC 0x1f 0x01 0x1b 0x00, DC 0x29 0x01 0x1b 0x00, DC 0x38 0x01 0x1b 0x01],
    \<comment> \<open>246\<close>
   [DC 0x01 0x01 0x1c 0x00, DC 0x16 0x01 0x1c 0x01, DC 0x01 0x01 0x1d 0x00, DC 0x16 0x01 0x1d 0x01,
    DC 0x01 0x01 0x1e 0x00, DC 0x16 0x01 0x1e 0x01, DC 0x01 0x01 0x1f 0x00, DC 0x16 0x01 0x1f 0x01,
    DC 0x01 0x01 0x7f 0x00, DC 0x16 0x01 0x7f 0x01, DC 0x01 0x01 0xdc 0x00, DC 0x16 0x01 0xdc 0x01,
    DC 0x01 0x01 0xf9 0x00, DC 0x16 0x01 0xf9 0x01, DC 0xfe 0x00 0x00 0x00, DC 0xff 0x00 0x00 0x01],
    \<comment> \<open>247\<close>
   [DC 0x02 0x01 0x1c 0x00, DC 0x09 0x01 0x1c 0x00, DC 0x17 0x01 0x1c 0x00, DC 0x28 0x01 0x1c 0x01,
    DC 0x02 0x01 0x1d 0x00, DC 0x09 0x01 0x1d 0x00, DC 0x17 0x01 0x1d 0x00, DC 0x28 0x01 0x1d 0x01,
    DC 0x02 0x01 0x1e 0x00, DC 0x09 0x01 0x1e 0x00, DC 0x17 0x01 0x1e 0x00, DC 0x28 0x01 0x1e 0x01,
    DC 0x02 0x01 0x1f 0x00, DC 0x09 0x01 0x1f 0x00, DC 0x17 0x01 0x1f 0x00, DC 0x28 0x01 0x1f 0x01]
   ]"

definition huff_codes_248 :: "ngx_http_v2_huff_decode_code_t list list" where
  "huff_codes_248 = [
    \<comment> \<open>248\<close>
   [DC 0x03 0x01 0x1c 0x00, DC 0x06 0x01 0x1c 0x00, DC 0x0a 0x01 0x1c 0x00, DC 0x0f 0x01 0x1c 0x00,
    DC 0x18 0x01 0x1c 0x00, DC 0x1f 0x01 0x1c 0x00, DC 0x29 0x01 0x1c 0x00, DC 0x38 0x01 0x1c 0x01,
    DC 0x03 0x01 0x1d 0x00, DC 0x06 0x01 0x1d 0x00, DC 0x0a 0x01 0x1d 0x00, DC 0x0f 0x01 0x1d 0x00,
    DC 0x18 0x01 0x1d 0x00, DC 0x1f 0x01 0x1d 0x00, DC 0x29 0x01 0x1d 0x00, DC 0x38 0x01 0x1d 0x01],
    \<comment> \<open>249\<close>
   [DC 0x03 0x01 0x1e 0x00, DC 0x06 0x01 0x1e 0x00, DC 0x0a 0x01 0x1e 0x00, DC 0x0f 0x01 0x1e 0x00,
    DC 0x18 0x01 0x1e 0x00, DC 0x1f 0x01 0x1e 0x00, DC 0x29 0x01 0x1e 0x00, DC 0x38 0x01 0x1e 0x01,
    DC 0x03 0x01 0x1f 0x00, DC 0x06 0x01 0x1f 0x00, DC 0x0a 0x01 0x1f 0x00, DC 0x0f 0x01 0x1f 0x00,
    DC 0x18 0x01 0x1f 0x00, DC 0x1f 0x01 0x1f 0x00, DC 0x29 0x01 0x1f 0x00, DC 0x38 0x01 0x1f 0x01],
    \<comment> \<open>250\<close>
   [DC 0x02 0x01 0x7f 0x00, DC 0x09 0x01 0x7f 0x00, DC 0x17 0x01 0x7f 0x00, DC 0x28 0x01 0x7f 0x01,
    DC 0x02 0x01 0xdc 0x00, DC 0x09 0x01 0xdc 0x00, DC 0x17 0x01 0xdc 0x00, DC 0x28 0x01 0xdc 0x01,
    DC 0x02 0x01 0xf9 0x00, DC 0x09 0x01 0xf9 0x00, DC 0x17 0x01 0xf9 0x00, DC 0x28 0x01 0xf9 0x01,
    DC 0x00 0x01 0x0a 0x01, DC 0x00 0x01 0x0d 0x01, DC 0x00 0x01 0x16 0x01, DC 0xfa 0x00 0x00 0x00],
    \<comment> \<open>251\<close>
   [DC 0x03 0x01 0x7f 0x00, DC 0x06 0x01 0x7f 0x00, DC 0x0a 0x01 0x7f 0x00, DC 0x0f 0x01 0x7f 0x00,
    DC 0x18 0x01 0x7f 0x00, DC 0x1f 0x01 0x7f 0x00, DC 0x29 0x01 0x7f 0x00, DC 0x38 0x01 0x7f 0x01,
    DC 0x03 0x01 0xdc 0x00, DC 0x06 0x01 0xdc 0x00, DC 0x0a 0x01 0xdc 0x00, DC 0x0f 0x01 0xdc 0x00,
    DC 0x18 0x01 0xdc 0x00, DC 0x1f 0x01 0xdc 0x00, DC 0x29 0x01 0xdc 0x00, DC 0x38 0x01 0xdc 0x01],
    \<comment> \<open>252\<close>
   [DC 0x03 0x01 0xf9 0x00, DC 0x06 0x01 0xf9 0x00, DC 0x0a 0x01 0xf9 0x00, DC 0x0f 0x01 0xf9 0x00,
    DC 0x18 0x01 0xf9 0x00, DC 0x1f 0x01 0xf9 0x00, DC 0x29 0x01 0xf9 0x00, DC 0x38 0x01 0xf9 0x01,
    DC 0x01 0x01 0x0a 0x00, DC 0x16 0x01 0x0a 0x01, DC 0x01 0x01 0x0d 0x00, DC 0x16 0x01 0x0d 0x01,
    DC 0x01 0x01 0x16 0x00, DC 0x16 0x01 0x16 0x01, DC 0xfc 0x00 0x00 0x00, DC 0xfc 0x00 0x00 0x00],
    \<comment> \<open>253\<close>
   [DC 0x02 0x01 0x0a 0x00, DC 0x09 0x01 0x0a 0x00, DC 0x17 0x01 0x0a 0x00, DC 0x28 0x01 0x0a 0x01,
    DC 0x02 0x01 0x0d 0x00, DC 0x09 0x01 0x0d 0x00, DC 0x17 0x01 0x0d 0x00, DC 0x28 0x01 0x0d 0x01,
    DC 0x02 0x01 0x16 0x00, DC 0x09 0x01 0x16 0x00, DC 0x17 0x01 0x16 0x00, DC 0x28 0x01 0x16 0x01,
    DC 0xfd 0x00 0x00 0x00, DC 0xfd 0x00 0x00 0x00, DC 0xfd 0x00 0x00 0x00, DC 0xfd 0x00 0x00 0x00],
    \<comment> \<open>254\<close>
   [DC 0x03 0x01 0x0a 0x00, DC 0x06 0x01 0x0a 0x00, DC 0x0a 0x01 0x0a 0x00, DC 0x0f 0x01 0x0a 0x00,
    DC 0x18 0x01 0x0a 0x00, DC 0x1f 0x01 0x0a 0x00, DC 0x29 0x01 0x0a 0x00, DC 0x38 0x01 0x0a 0x01,
    DC 0x03 0x01 0x0d 0x00, DC 0x06 0x01 0x0d 0x00, DC 0x0a 0x01 0x0d 0x00, DC 0x0f 0x01 0x0d 0x00,
    DC 0x18 0x01 0x0d 0x00, DC 0x1f 0x01 0x0d 0x00, DC 0x29 0x01 0x0d 0x00, DC 0x38 0x01 0x0d 0x01],
    \<comment> \<open>255\<close>
   [DC 0x03 0x01 0x16 0x00, DC 0x06 0x01 0x16 0x00, DC 0x0a 0x01 0x16 0x00, DC 0x0f 0x01 0x16 0x00,
    DC 0x18 0x01 0x16 0x00, DC 0x1f 0x01 0x16 0x00, DC 0x29 0x01 0x16 0x00, DC 0x38 0x01 0x16 0x01,
    DC 0xff 0x00 0x00 0x00, DC 0xff 0x00 0x00 0x00, DC 0xff 0x00 0x00 0x00, DC 0xff 0x00 0x00 0x00,
    DC 0xff 0x00 0x00 0x00, DC 0xff 0x00 0x00 0x00, DC 0xff 0x00 0x00 0x00, DC 0xff 0x00 0x00 0x00]
   ]"

definition ngx_http_v2_huff_decode_codes :: "ngx_http_v2_huff_decode_code_t list list" where
  "ngx_http_v2_huff_decode_codes =
     concat [huff_codes_0, huff_codes_8, huff_codes_16, huff_codes_24,
       huff_codes_32, huff_codes_40, huff_codes_48, huff_codes_56,
       huff_codes_64, huff_codes_72, huff_codes_80, huff_codes_88,
       huff_codes_96, huff_codes_104, huff_codes_112, huff_codes_120,
       huff_codes_128, huff_codes_136, huff_codes_144, huff_codes_152,
       huff_codes_160, huff_codes_168, huff_codes_176, huff_codes_184,
       huff_codes_192, huff_codes_200, huff_codes_208, huff_codes_216,
       huff_codes_224, huff_codes_232, huff_codes_240, huff_codes_248]"

end
