(* ===== verification/HuffCode.thy ===== *)
theory HuffCode
  imports HuffTables
begin

text \<open>
  The Huffman code as a set of bit strings, read off the encoder's table: \<open>huff_code c\<close> is the
  code word of the byte \<open>c\<close>.  The code is prefix-free, which makes every bit string the
  concatenation of at most one sequence of code words, and no code word is shorter than 5 or
  longer than 30 bits.
\<close>

section \<open>Code words\<close>

definition huff_len :: "u8 \<Rightarrow> nat" where
  "huff_len c = unat (code_len (ngx_http_v2_huff_encode_table ! unat c))"

definition huff_val :: "u8 \<Rightarrow> nat" where
  "huff_val c = unat (code (ngx_http_v2_huff_encode_table ! unat c))"

definition huff_code :: "u8 \<Rightarrow> bool list" where
  "huff_code c = wbits (huff_len c) (huff_val c)"

definition huff_bits :: "bytes \<Rightarrow> bool list" where
  "huff_bits cs = concat (map huff_code cs)"

lemma huff_bits_simps [simp]:
  "huff_bits [] = []" "huff_bits (c # cs) = huff_code c @ huff_bits cs"
  "huff_bits (as @ bs) = huff_bits as @ huff_bits bs"
  by (simp_all add: huff_bits_def)

text \<open>Every entry of the encoder's table as a pair of numbers, for evaluation.\<close>

lemma huff_entries:
  "map (\<lambda>c. (huff_len (word_of_nat c), huff_val (word_of_nat c))) [0..<256] =
   map (\<lambda>e. (unat (code_len e), unat (code e))) ngx_http_v2_huff_encode_table"
proof (rule nth_equalityI)
  show "length (map (\<lambda>c. (huff_len (word_of_nat c), huff_val (word_of_nat c))) [0..<256]) =
        length (map (\<lambda>e. (unat (code_len e), unat (code e))) ngx_http_v2_huff_encode_table)"
    by (simp add: ngx_http_v2_huff_encode_table_def)
next
  fix i assume "i < length (map (\<lambda>c. (huff_len (word_of_nat c), huff_val (word_of_nat c))) [0..<256])"
  then have i: "i < 256" by simp
  then have "unat (word_of_nat i :: u8) = i"
    by (simp add: unat_of_nat)
  with i show "map (\<lambda>c. (huff_len (word_of_nat c), huff_val (word_of_nat c))) [0..<256] ! i =
      map (\<lambda>e. (unat (code_len e), unat (code e))) ngx_http_v2_huff_encode_table ! i"
    by (simp add: huff_len_def huff_val_def ngx_http_v2_huff_encode_table_def [THEN arg_cong [where f = length]])
qed

lemmas huff_entry_eqs = huff_entries
  [unfolded ngx_http_v2_huff_encode_table_def, simplified upt_eval list.map EC_sel prod.inject list.inject, simplified]

section \<open>Prefix-freeness\<close>

text \<open>
  A code word of length \<open>l\<close> and value \<open>v\<close> stands for the interval of 30-bit numbers that start
  with it.  In the canonical order of the code words the intervals follow each other without
  overlap, so no code word can be the start of another one.
\<close>

definition huff_lo :: "u8 \<Rightarrow> nat" where
  "huff_lo c = huff_val c * 2 ^ (30 - huff_len c)"

definition huff_hi :: "u8 \<Rightarrow> nat" where
  "huff_hi c = Suc (huff_val c) * 2 ^ (30 - huff_len c)"

definition huff_order :: "u8 list" where
  "huff_order = [
    48, 49, 50, 97, 99, 101, 105, 111, 115, 116, 32, 37, 45, 46, 47, 51,
    52, 53, 54, 55, 56, 57, 61, 65, 95, 98, 100, 102, 103, 104, 108, 109,
    110, 112, 114, 117, 58, 66, 67, 68, 69, 70, 71, 72, 73, 74, 75, 76,
    77, 78, 79, 80, 81, 82, 83, 84, 85, 86, 87, 89, 106, 107, 113, 118,
    119, 120, 121, 122, 38, 42, 44, 59, 88, 90, 33, 34, 40, 41, 63, 39,
    43, 124, 35, 62, 0, 36, 64, 91, 93, 126, 94, 125, 60, 96, 123, 92,
    195, 208, 128, 130, 131, 162, 184, 194, 224, 226, 153, 161, 167, 172, 176, 177,
    179, 209, 216, 217, 227, 229, 230, 129, 132, 133, 134, 136, 146, 154, 156, 160,
    163, 164, 169, 170, 173, 178, 181, 185, 186, 187, 189, 190, 196, 198, 228, 232,
    233, 1, 135, 137, 138, 139, 140, 141, 143, 147, 149, 150, 151, 152, 155, 157,
    158, 165, 166, 168, 174, 175, 180, 182, 183, 188, 191, 197, 231, 239, 9, 142,
    144, 145, 148, 159, 171, 206, 215, 225, 236, 237, 199, 207, 234, 235, 192, 193,
    200, 201, 202, 205, 210, 213, 218, 219, 238, 240, 242, 243, 255, 203, 204, 211,
    212, 214, 221, 222, 223, 241, 244, 245, 246, 247, 248, 250, 251, 252, 253, 254,
    2, 3, 4, 5, 6, 7, 8, 11, 12, 14, 15, 16, 17, 18, 19, 20,
    21, 23, 24, 25, 26, 27, 28, 29, 30, 31, 127, 220, 249, 10, 13, 22]"

lemma huff_order_chain: "successively (\<lambda>x y. huff_hi x \<le> huff_lo y) huff_order"
  by (simp add: huff_order_def huff_lo_def huff_hi_def huff_entry_eqs)

lemma huff_len_val:
  "list_all (\<lambda>(l, v). 5 \<le> l \<and> l \<le> 30 \<and> v + 1 < 2 ^ l)
     (map (\<lambda>c. (huff_len (word_of_nat c), huff_val (word_of_nat c))) [0..<256])"
  unfolding huff_entries ngx_http_v2_huff_encode_table_def by simp

lemma huff_bounds:
  "5 \<le> huff_len c" "huff_len c \<le> 30" "huff_val c + 1 < 2 ^ huff_len c"
proof -
  have "unat c < 256"
    by (rule u8_less)
  then have "case (huff_len c, huff_val c) of (l, v) \<Rightarrow> 5 \<le> l \<and> l \<le> 30 \<and> v + 1 < 2 ^ l"
    using huff_len_val by (auto simp: list_all_length dest!: spec [of _ "unat c"])
  then show "5 \<le> huff_len c" "huff_len c \<le> 30" "huff_val c + 1 < 2 ^ huff_len c"
    by simp_all
qed

lemma huff_val_less: "huff_val c < 2 ^ huff_len c"
  using huff_bounds(3) [of c] by simp

lemma length_huff_code [simp]: "length (huff_code c) = huff_len c"
  by (simp add: huff_code_def)

lemma huff_lo_less_hi: "huff_lo c < huff_hi c"
  by (simp add: huff_lo_def huff_hi_def)

lemma huff_order_sorted: "sorted_wrt (\<lambda>x y. huff_hi x \<le> huff_lo y) huff_order"
proof -
  have "transp (\<lambda>x y. huff_hi x \<le> huff_lo y)"
    by (rule transpI) (meson huff_lo_less_hi less_imp_le order_trans)
  then show ?thesis
    using huff_order_chain by (simp add: successively_conv_sorted_wrt)
qed

lemma huff_order_complete: "set huff_order = UNIV"
proof (rule card_subset_eq)
  have "huff_order ! i \<noteq> huff_order ! j" if "i < j" "j < length huff_order" for i j
    using sorted_wrt_nth_less [OF huff_order_sorted that] huff_lo_less_hi [of "huff_order ! i"] by auto
  then have "distinct huff_order"
    by (metis distinct_conv_nth linorder_neqE_nat)
  then have "card (set huff_order) = length huff_order"
    by (rule distinct_card)
  also have "\<dots> = 256"
    by (simp add: huff_order_def)
  finally show "card (set huff_order) = card (UNIV :: u8 set)"
    by (simp add: card_word)
qed simp_all

lemma huff_disjoint:
  assumes "x \<noteq> y"
  shows "huff_hi x \<le> huff_lo y \<or> huff_hi y \<le> huff_lo x"
proof -
  obtain i j where "i < length huff_order" "huff_order ! i = x" "j < length huff_order" "huff_order ! j = y"
    using huff_order_complete by (metis UNIV_I in_set_conv_nth)
  with assms show ?thesis
    using sorted_wrt_nth_less [OF huff_order_sorted] by (metis linorder_neqE_nat)
qed

lemma huff_code_prefix:
  assumes "huff_code y = huff_code x @ us"
  shows "x = y"
proof -
  define d where "d = huff_len y - huff_len x"
  have le: "huff_len x \<le> huff_len y"
    using arg_cong [OF assms, of length] by simp
  then have "huff_code y = wbits (huff_len x) (drop_bit d (huff_val y)) @ wbits d (huff_val y)"
    unfolding huff_code_def d_def by (metis le_add_diff_inverse wbits_add)
  with assms have "wbits (huff_len x) (huff_val x) = wbits (huff_len x) (drop_bit d (huff_val y))"
    by (simp add: huff_code_def)
  moreover have "drop_bit d (huff_val y) < 2 ^ huff_len x"
    using huff_val_less [of y] le
    by (simp add: drop_bit_eq_div less_mult_imp_div_less d_def flip: power_add)
  ultimately have x: "huff_val x = huff_val y div 2 ^ d"
    by (metis drop_bit_eq_div huff_val_less wbits_nat_inj)
  define e where "e = 30 - huff_len y"
  have e: "30 - huff_len x = d + e"
    using le huff_bounds(2) [of y] by (simp add: d_def e_def)
  have "huff_val x * 2 ^ d \<le> huff_val y" and "huff_val y < Suc (huff_val x) * 2 ^ d"
    unfolding x by (simp_all add: div_times_less_eq_dividend dividend_less_div_times)
  then have "huff_lo x \<le> huff_lo y" and "huff_lo y < huff_hi x"
    unfolding huff_lo_def huff_hi_def e e_def [symmetric] power_add mult.assoc [symmetric]
    by (simp_all del: mult_Suc)
  then show "x = y"
    using huff_disjoint [of x y] huff_lo_less_hi [of x] huff_lo_less_hi [of y] by linarith
qed

lemma huff_code_unique:
  assumes "huff_code x @ zs = huff_code y @ ws"
  shows "x = y" "zs = ws"
proof -
  from assms consider us where "huff_code x = huff_code y @ us" | us where "huff_code y = huff_code x @ us"
    unfolding append_eq_append_conv2 by metis
  then show "x = y"
    by cases (auto dest: huff_code_prefix)
  with assms show "zs = ws"
    by simp
qed

lemma huff_code_not_ones: "huff_code c \<noteq> replicate n True"
proof
  assume "huff_code c = replicate n True"
  moreover from this have "n = huff_len c"
    by (metis length_huff_code length_replicate)
  ultimately have "huff_val c = 2 ^ huff_len c - 1"
    using huff_val_less wbits_nat_ones_iff by (auto simp: huff_code_def)
  with huff_bounds(3) [of c] show False
    by simp
qed

end
