(* ===== verification/HuffAutomaton.thy ===== *)
theory HuffAutomaton
  imports HuffCode
begin

text \<open>
  The HPACK Huffman decoder of \<^verbatim>\<open>src/http/v2/ngx_http_v2_huff_decode.c\<close>: an automaton that
  consumes four bits at a time.  Every state stands for a proper prefix of some code word
  (\<open>huff_path\<close>); the checks of this theory establish that for each of the 4096 transitions,
  and the lemmas derive from it exactly which inputs the decoder accepts and what it emits.
\<close>

section \<open>The decoder\<close>

text \<open>
  What the caller passes by reference (\<open>*state\<close>, \<open>*dst\<close>) and the local \<open>ending\<close>.
  \<open>dst\<close> is the list of bytes written so far.
\<close>

record huff_dec =
  dstate :: u8
  dending :: u8
  dst :: bytes

definition ngx_http_v2_huff_decode_bits :: "huff_dec \<Rightarrow> nat \<Rightarrow> ngx_rc \<times> huff_dec" where
  "ngx_http_v2_huff_decode_bits d bits =
     (let c = ngx_http_v2_huff_decode_codes ! unat (dstate d) ! bits in
      if next_st c = dstate d then (NGX_ERROR, d)
      else (NGX_OK,
            d\<lparr>dst := (if emit c \<noteq> 0 then dst d @ [sym c] else dst d),
              dending := ending c,
              dstate := next_st c\<rparr>))"

text \<open>The \<open>while\<close> loop: the high nibble, then the low nibble of each byte.\<close>

fun huff_decode_loop :: "bytes \<Rightarrow> huff_dec \<Rightarrow> ngx_rc \<times> huff_dec" where
  "huff_decode_loop [] d = (NGX_OK, d)"
| "huff_decode_loop (ch # src) d =
     (case ngx_http_v2_huff_decode_bits d (unat (drop_bit 4 ch)) of
        (rc, d1) \<Rightarrow>
          if rc \<noteq> NGX_OK then (NGX_ERROR, d1)
          else (case ngx_http_v2_huff_decode_bits d1 (unat (ch AND 0xf)) of
                  (rc', d2) \<Rightarrow>
                    if rc' \<noteq> NGX_OK then (NGX_ERROR, d2)
                    else huff_decode_loop src d2))"

definition ngx_http_v2_huff_decode ::
    "u8 \<Rightarrow> bytes \<Rightarrow> bytes \<Rightarrow> bool \<Rightarrow> ngx_rc \<times> u8 \<times> bytes" where
  "ngx_http_v2_huff_decode state src out is_last =
     (case huff_decode_loop src \<lparr>dstate = state, dending = 1, dst = out\<rparr> of
        (rc, d) \<Rightarrow>
          if rc \<noteq> NGX_OK then (NGX_ERROR, dstate d, dst d)
          else if is_last then
            (if dending d = 0 then (NGX_ERROR, dstate d, dst d) else (NGX_OK, 0, dst d))
          else (NGX_OK, dstate d, dst d))"

section \<open>What the states stand for\<close>

text \<open>
  State \<open>s\<close> has consumed the bits \<open>huff_path s\<close> since the last symbol it emitted; the table
  gives the length and the value of these bits.
\<close>

definition huff_paths :: "(nat \<times> nat) list" where
  "huff_paths = [
    (0, 0x0), (1, 0x0), (2, 0x0), (3, 0x0), (4, 0x0), (4, 0x1), (3, 0x1), (4, 0x2),
    (4, 0x3), (2, 0x1), (3, 0x2), (4, 0x4), (4, 0x5), (5, 0xa), (5, 0xb), (3, 0x3),
    (4, 0x6), (5, 0xc), (5, 0xd), (4, 0x7), (5, 0xe), (5, 0xf), (1, 0x1), (2, 0x2),
    (3, 0x4), (4, 0x8), (5, 0x10), (5, 0x11), (4, 0x9), (5, 0x12), (5, 0x13), (3, 0x5),
    (4, 0xa), (5, 0x14), (5, 0x15), (4, 0xb), (5, 0x16), (5, 0x17), (6, 0x2e), (6, 0x2f),
    (2, 0x3), (3, 0x6), (4, 0xc), (5, 0x18), (6, 0x30), (6, 0x31), (5, 0x19), (6, 0x32),
    (6, 0x33), (4, 0xd), (5, 0x1a), (6, 0x34), (6, 0x35), (5, 0x1b), (6, 0x36), (6, 0x37),
    (3, 0x7), (4, 0xe), (5, 0x1c), (6, 0x38), (6, 0x39), (5, 0x1d), (6, 0x3a), (6, 0x3b),
    (4, 0xf), (5, 0x1e), (6, 0x3c), (6, 0x3d), (5, 0x1f), (6, 0x3e), (7, 0x7c), (7, 0x7d),
    (6, 0x3f), (7, 0x7e), (7, 0x7f), (8, 0xfe), (9, 0x1fc), (9, 0x1fd), (8, 0xff), (9, 0x1fe),
    (10, 0x3fd), (9, 0x1ff), (10, 0x3fe), (11, 0x7fd), (10, 0x3ff), (11, 0x7fe), (12, 0xffc), (12, 0xffd),
    (11, 0x7ff), (12, 0xffe), (12, 0xfff), (13, 0x1ffe), (13, 0x1fff), (14, 0x3ffe), (14, 0x3fff), (15, 0x7fff),
    (16, 0xfffe), (17, 0x1fffc), (18, 0x3fff8), (18, 0x3fff9), (19, 0x7fff3), (17, 0x1fffd), (18, 0x3fffa), (19, 0x7fff4),
    (19, 0x7fff5), (18, 0x3fffb), (19, 0x7fff6), (19, 0x7fff7), (20, 0xfffee), (20, 0xfffef), (16, 0xffff), (17, 0x1fffe),
    (18, 0x3fffc), (19, 0x7fff8), (20, 0xffff0), (20, 0xffff1), (19, 0x7fff9), (20, 0xffff2), (20, 0xffff3), (18, 0x3fffd),
    (19, 0x7fffa), (20, 0xffff4), (21, 0x1fffe9), (20, 0xffff5), (21, 0x1fffea), (21, 0x1fffeb), (19, 0x7fffb), (20, 0xffff6),
    (21, 0x1fffec), (21, 0x1fffed), (20, 0xffff7), (21, 0x1fffee), (21, 0x1fffef), (17, 0x1ffff), (18, 0x3fffe), (19, 0x7fffc),
    (20, 0xffff8), (21, 0x1ffff0), (21, 0x1ffff1), (20, 0xffff9), (21, 0x1ffff2), (21, 0x1ffff3), (19, 0x7fffd), (20, 0xffffa),
    (21, 0x1ffff4), (21, 0x1ffff5), (20, 0xffffb), (21, 0x1ffff6), (22, 0x3fffec), (22, 0x3fffed), (21, 0x1ffff7), (22, 0x3fffee),
    (22, 0x3fffef), (18, 0x3ffff), (19, 0x7fffe), (20, 0xffffc), (21, 0x1ffff8), (22, 0x3ffff0), (22, 0x3ffff1), (21, 0x1ffff9),
    (22, 0x3ffff2), (22, 0x3ffff3), (20, 0xffffd), (21, 0x1ffffa), (22, 0x3ffff4), (22, 0x3ffff5), (21, 0x1ffffb), (22, 0x3ffff6),
    (22, 0x3ffff7), (19, 0x7ffff), (20, 0xffffe), (21, 0x1ffffc), (22, 0x3ffff8), (22, 0x3ffff9), (21, 0x1ffffd), (22, 0x3ffffa),
    (23, 0x7ffff5), (22, 0x3ffffb), (23, 0x7ffff6), (23, 0x7ffff7), (20, 0xfffff), (21, 0x1ffffe), (22, 0x3ffffc), (23, 0x7ffff8),
    (23, 0x7ffff9), (22, 0x3ffffd), (23, 0x7ffffa), (23, 0x7ffffb), (24, 0xfffff6), (24, 0xfffff7), (21, 0x1fffff), (22, 0x3ffffe),
    (23, 0x7ffffc), (24, 0xfffff8), (25, 0x1fffff0), (25, 0x1fffff1), (24, 0xfffff9), (25, 0x1fffff2), (25, 0x1fffff3), (23, 0x7ffffd),
    (24, 0xfffffa), (25, 0x1fffff4), (25, 0x1fffff5), (24, 0xfffffb), (25, 0x1fffff6), (25, 0x1fffff7), (26, 0x3ffffef), (22, 0x3fffff),
    (23, 0x7ffffe), (24, 0xfffffc), (25, 0x1fffff8), (26, 0x3fffff0), (26, 0x3fffff1), (25, 0x1fffff9), (26, 0x3fffff2), (26, 0x3fffff3),
    (24, 0xfffffd), (25, 0x1fffffa), (26, 0x3fffff4), (26, 0x3fffff5), (25, 0x1fffffb), (26, 0x3fffff6), (26, 0x3fffff7), (23, 0x7fffff),
    (24, 0xfffffe), (25, 0x1fffffc), (26, 0x3fffff8), (27, 0x7fffff1), (26, 0x3fffff9), (27, 0x7fffff2), (27, 0x7fffff3), (25, 0x1fffffd),
    (26, 0x3fffffa), (27, 0x7fffff4), (27, 0x7fffff5), (26, 0x3fffffb), (27, 0x7fffff6), (27, 0x7fffff7), (24, 0xffffff), (25, 0x1fffffe),
    (26, 0x3fffffc), (27, 0x7fffff8), (27, 0x7fffff9), (26, 0x3fffffd), (27, 0x7fffffa), (27, 0x7fffffb), (25, 0x1ffffff), (26, 0x3fffffe),
    (27, 0x7fffffc), (27, 0x7fffffd), (26, 0x3ffffff), (27, 0x7fffffe), (27, 0x7ffffff), (28, 0xfffffff), (29, 0x1ffffffe), (29, 0x1fffffff)]"

definition path_len :: "nat \<Rightarrow> nat" where
  "path_len s = fst (huff_paths ! s)"

definition path_val :: "nat \<Rightarrow> nat" where
  "path_val s = snd (huff_paths ! s)"

definition huff_path :: "u8 \<Rightarrow> bool list" where
  "huff_path s = wbits (path_len (unat s)) (path_val (unat s))"

lemma length_huff_paths: "length huff_paths = 256"
  by (simp add: huff_paths_def)

lemma path_entries: "map (\<lambda>s. (path_len s, path_val s)) [0..<256] = huff_paths"
  by (rule nth_equalityI) (simp_all add: length_huff_paths path_len_def path_val_def)

lemmas path_eqs = path_entries [unfolded huff_paths_def, simplified upt_eval list.map prod.inject list.inject, simplified]

lemma path_bounds: "list_all (\<lambda>(l, v). l < 30 \<and> v < 2 ^ l) huff_paths"
  by (simp add: huff_paths_def)

text \<open>The 4096 transitions, checked group by group.\<close>

definition transition_ok :: "nat \<Rightarrow> nat \<Rightarrow> ngx_http_v2_huff_decode_code_t \<Rightarrow> bool" where
  "transition_ok s b c =
     (let n = unat (next_st c);
          l = path_len s + 4;
          v = path_val s * 16 + b in
      if n = s then 30 \<le> l \<and> v div 2 ^ (l - 30) = 2 ^ 30 - 1
      else
        (if emit c \<noteq> 0
         then l = huff_len (sym c) + path_len n \<and> v = huff_val (sym c) * 2 ^ path_len n + path_val n
         else l = path_len n \<and> v = path_val n) \<and>
        (ending c \<noteq> 0) = (path_val n = 2 ^ path_len n - 1))"

definition state_ok :: "nat \<Rightarrow> ngx_http_v2_huff_decode_code_t list \<Rightarrow> bool" where
  "state_ok s row \<longleftrightarrow> length row = 16 \<and> list_all (\<lambda>(b, c). transition_ok s b c) (zip [0..<16] row)"

lemmas huff_eval = state_ok_def transition_ok_def path_eqs huff_entry_eqs upt_eval

lemma huff_codes_0_ok: "list_all (\<lambda>(s, row). state_ok s row) (zip [0..<8] huff_codes_0)"
  by (simp add: huff_codes_0_def huff_eval)

lemma huff_codes_8_ok: "list_all (\<lambda>(s, row). state_ok s row) (zip [8..<16] huff_codes_8)"
  by (simp add: huff_codes_8_def huff_eval)

lemma huff_codes_16_ok: "list_all (\<lambda>(s, row). state_ok s row) (zip [16..<24] huff_codes_16)"
  by (simp add: huff_codes_16_def huff_eval)

lemma huff_codes_24_ok: "list_all (\<lambda>(s, row). state_ok s row) (zip [24..<32] huff_codes_24)"
  by (simp add: huff_codes_24_def huff_eval)

lemma huff_codes_32_ok: "list_all (\<lambda>(s, row). state_ok s row) (zip [32..<40] huff_codes_32)"
  by (simp add: huff_codes_32_def huff_eval)

lemma huff_codes_40_ok: "list_all (\<lambda>(s, row). state_ok s row) (zip [40..<48] huff_codes_40)"
  by (simp add: huff_codes_40_def huff_eval)

lemma huff_codes_48_ok: "list_all (\<lambda>(s, row). state_ok s row) (zip [48..<56] huff_codes_48)"
  by (simp add: huff_codes_48_def huff_eval)

lemma huff_codes_56_ok: "list_all (\<lambda>(s, row). state_ok s row) (zip [56..<64] huff_codes_56)"
  by (simp add: huff_codes_56_def huff_eval)

lemma huff_codes_64_ok: "list_all (\<lambda>(s, row). state_ok s row) (zip [64..<72] huff_codes_64)"
  by (simp add: huff_codes_64_def huff_eval)

lemma huff_codes_72_ok: "list_all (\<lambda>(s, row). state_ok s row) (zip [72..<80] huff_codes_72)"
  by (simp add: huff_codes_72_def huff_eval)

lemma huff_codes_80_ok: "list_all (\<lambda>(s, row). state_ok s row) (zip [80..<88] huff_codes_80)"
  by (simp add: huff_codes_80_def huff_eval)

lemma huff_codes_88_ok: "list_all (\<lambda>(s, row). state_ok s row) (zip [88..<96] huff_codes_88)"
  by (simp add: huff_codes_88_def huff_eval)

lemma huff_codes_96_ok: "list_all (\<lambda>(s, row). state_ok s row) (zip [96..<104] huff_codes_96)"
  by (simp add: huff_codes_96_def huff_eval)

lemma huff_codes_104_ok: "list_all (\<lambda>(s, row). state_ok s row) (zip [104..<112] huff_codes_104)"
  by (simp add: huff_codes_104_def huff_eval)

lemma huff_codes_112_ok: "list_all (\<lambda>(s, row). state_ok s row) (zip [112..<120] huff_codes_112)"
  by (simp add: huff_codes_112_def huff_eval)

lemma huff_codes_120_ok: "list_all (\<lambda>(s, row). state_ok s row) (zip [120..<128] huff_codes_120)"
  by (simp add: huff_codes_120_def huff_eval)

lemma huff_codes_128_ok: "list_all (\<lambda>(s, row). state_ok s row) (zip [128..<136] huff_codes_128)"
  by (simp add: huff_codes_128_def huff_eval)

lemma huff_codes_136_ok: "list_all (\<lambda>(s, row). state_ok s row) (zip [136..<144] huff_codes_136)"
  by (simp add: huff_codes_136_def huff_eval)

lemma huff_codes_144_ok: "list_all (\<lambda>(s, row). state_ok s row) (zip [144..<152] huff_codes_144)"
  by (simp add: huff_codes_144_def huff_eval)

lemma huff_codes_152_ok: "list_all (\<lambda>(s, row). state_ok s row) (zip [152..<160] huff_codes_152)"
  by (simp add: huff_codes_152_def huff_eval)

lemma huff_codes_160_ok: "list_all (\<lambda>(s, row). state_ok s row) (zip [160..<168] huff_codes_160)"
  by (simp add: huff_codes_160_def huff_eval)

lemma huff_codes_168_ok: "list_all (\<lambda>(s, row). state_ok s row) (zip [168..<176] huff_codes_168)"
  by (simp add: huff_codes_168_def huff_eval)

lemma huff_codes_176_ok: "list_all (\<lambda>(s, row). state_ok s row) (zip [176..<184] huff_codes_176)"
  by (simp add: huff_codes_176_def huff_eval)

lemma huff_codes_184_ok: "list_all (\<lambda>(s, row). state_ok s row) (zip [184..<192] huff_codes_184)"
  by (simp add: huff_codes_184_def huff_eval)

lemma huff_codes_192_ok: "list_all (\<lambda>(s, row). state_ok s row) (zip [192..<200] huff_codes_192)"
  by (simp add: huff_codes_192_def huff_eval)

lemma huff_codes_200_ok: "list_all (\<lambda>(s, row). state_ok s row) (zip [200..<208] huff_codes_200)"
  by (simp add: huff_codes_200_def huff_eval)

lemma huff_codes_208_ok: "list_all (\<lambda>(s, row). state_ok s row) (zip [208..<216] huff_codes_208)"
  by (simp add: huff_codes_208_def huff_eval)

lemma huff_codes_216_ok: "list_all (\<lambda>(s, row). state_ok s row) (zip [216..<224] huff_codes_216)"
  by (simp add: huff_codes_216_def huff_eval)

lemma huff_codes_224_ok: "list_all (\<lambda>(s, row). state_ok s row) (zip [224..<232] huff_codes_224)"
  by (simp add: huff_codes_224_def huff_eval)

lemma huff_codes_232_ok: "list_all (\<lambda>(s, row). state_ok s row) (zip [232..<240] huff_codes_232)"
  by (simp add: huff_codes_232_def huff_eval)

lemma huff_codes_240_ok: "list_all (\<lambda>(s, row). state_ok s row) (zip [240..<248] huff_codes_240)"
  by (simp add: huff_codes_240_def huff_eval)

lemma huff_codes_248_ok: "list_all (\<lambda>(s, row). state_ok s row) (zip [248..<256] huff_codes_248)"
  by (simp add: huff_codes_248_def huff_eval)

lemmas huff_groups_ok =
  huff_codes_0_ok huff_codes_8_ok huff_codes_16_ok huff_codes_24_ok huff_codes_32_ok
  huff_codes_40_ok huff_codes_48_ok huff_codes_56_ok huff_codes_64_ok huff_codes_72_ok
  huff_codes_80_ok huff_codes_88_ok huff_codes_96_ok huff_codes_104_ok huff_codes_112_ok
  huff_codes_120_ok huff_codes_128_ok huff_codes_136_ok huff_codes_144_ok huff_codes_152_ok
  huff_codes_160_ok huff_codes_168_ok huff_codes_176_ok huff_codes_184_ok huff_codes_192_ok
  huff_codes_200_ok huff_codes_208_ok huff_codes_216_ok huff_codes_224_ok huff_codes_232_ok
  huff_codes_240_ok huff_codes_248_ok

lemma length_huff_codes:
  "length huff_codes_0 = 8" "length huff_codes_8 = 8" "length huff_codes_16 = 8"
  "length huff_codes_24 = 8" "length huff_codes_32 = 8" "length huff_codes_40 = 8"
  "length huff_codes_48 = 8" "length huff_codes_56 = 8" "length huff_codes_64 = 8"
  "length huff_codes_72 = 8" "length huff_codes_80 = 8" "length huff_codes_88 = 8"
  "length huff_codes_96 = 8" "length huff_codes_104 = 8" "length huff_codes_112 = 8"
  "length huff_codes_120 = 8" "length huff_codes_128 = 8" "length huff_codes_136 = 8"
  "length huff_codes_144 = 8" "length huff_codes_152 = 8" "length huff_codes_160 = 8"
  "length huff_codes_168 = 8" "length huff_codes_176 = 8" "length huff_codes_184 = 8"
  "length huff_codes_192 = 8" "length huff_codes_200 = 8" "length huff_codes_208 = 8"
  "length huff_codes_216 = 8" "length huff_codes_224 = 8" "length huff_codes_232 = 8"
  "length huff_codes_240 = 8" "length huff_codes_248 = 8"
  by (simp_all add: huff_codes_0_def huff_codes_8_def huff_codes_16_def huff_codes_24_def huff_codes_32_def
  huff_codes_40_def huff_codes_48_def huff_codes_56_def huff_codes_64_def huff_codes_72_def
  huff_codes_80_def huff_codes_88_def huff_codes_96_def huff_codes_104_def huff_codes_112_def
  huff_codes_120_def huff_codes_128_def huff_codes_136_def huff_codes_144_def huff_codes_152_def
  huff_codes_160_def huff_codes_168_def huff_codes_176_def huff_codes_184_def huff_codes_192_def
  huff_codes_200_def huff_codes_208_def huff_codes_216_def huff_codes_224_def huff_codes_232_def
  huff_codes_240_def huff_codes_248_def)

lemma list_all_zip_upt_append:
  "a + length xs \<le> n \<Longrightarrow>
   list_all f (zip [a..<n] (xs @ ys)) \<longleftrightarrow>
     list_all f (zip [a..<a + length xs] xs) \<and> list_all f (zip [a + length xs..<n] ys)"
  using upt_add_eq_append [of a "a + length xs" "n - (a + length xs)"]
  by (simp add: zip_append1 list_all_append)

lemma huff_states_ok: "list_all (\<lambda>(s, row). state_ok s row) (zip [0..<256] ngx_http_v2_huff_decode_codes)"
  unfolding ngx_http_v2_huff_decode_codes_def concat.simps
  by (simp add: list_all_zip_upt_append length_huff_codes huff_groups_ok del: upt_rec_numeral)

lemma length_decode_codes: "length ngx_http_v2_huff_decode_codes = 256"
  by (simp add: ngx_http_v2_huff_decode_codes_def length_huff_codes)

lemma transition_check:
  assumes "s < 256" "b < 16"
  shows "transition_ok s b (ngx_http_v2_huff_decode_codes ! s ! b)"
proof -
  have "state_ok s (ngx_http_v2_huff_decode_codes ! s)"
    using huff_states_ok assms(1)
    by (auto simp: list_all_length length_decode_codes dest!: spec [of _ s] simp del: upt_rec_numeral)
  with assms(2) show ?thesis
    by (auto simp: state_ok_def list_all_length dest!: spec [of _ b] simp del: upt_rec_numeral)
qed

lemma path_len_less: "s < 256 \<Longrightarrow> path_len s < 30"
  and path_val_less: "s < 256 \<Longrightarrow> path_val s < 2 ^ path_len s"
  using path_bounds by (auto simp: list_all_length length_huff_paths path_len_def path_val_def split_beta)

text \<open>
  Every path can be completed to a code word: \<open>huff_leaf ! s\<close> is the symbol reached from state
  \<open>s\<close> by zeros.
\<close>

definition huff_leaf :: "u8 list" where
  "huff_leaf = [
    48, 48, 48, 48, 48, 50, 99, 99, 105, 115, 115, 115, 32, 32, 45, 47,
    47, 47, 52, 54, 54, 56, 61, 61, 61, 61, 61, 95, 100, 100, 103, 108,
    108, 108, 110, 114, 114, 58, 58, 67, 69, 69, 69, 69, 69, 71, 73, 73,
    75, 77, 77, 77, 79, 81, 81, 83, 85, 85, 85, 85, 87, 106, 106, 113,
    119, 119, 119, 121, 38, 38, 38, 44, 88, 88, 33, 33, 33, 40, 63, 63,
    39, 124, 124, 35, 0, 0, 0, 64, 93, 93, 94, 94, 60, 60, 123, 92,
    92, 92, 92, 208, 128, 131, 131, 131, 184, 224, 224, 153, 153, 167, 176, 176,
    176, 176, 176, 179, 216, 216, 227, 230, 230, 230, 129, 133, 133, 136, 154, 154,
    154, 160, 164, 164, 170, 178, 178, 178, 178, 178, 185, 187, 187, 190, 198, 198,
    198, 232, 1, 1, 1, 137, 139, 139, 141, 147, 147, 147, 147, 147, 150, 152,
    152, 157, 165, 165, 165, 168, 175, 175, 182, 188, 188, 188, 188, 197, 239, 239,
    9, 144, 144, 148, 171, 171, 171, 171, 215, 236, 236, 199, 199, 234, 192, 192,
    192, 192, 192, 200, 202, 202, 210, 218, 218, 218, 238, 242, 242, 255, 203, 211,
    211, 211, 211, 211, 214, 222, 222, 241, 245, 245, 245, 247, 250, 250, 252, 254,
    254, 254, 254, 2, 4, 4, 6, 8, 8, 8, 12, 15, 15, 17, 19, 19,
    19, 19, 21, 24, 24, 26, 28, 28, 28, 30, 127, 127, 249, 10, 10, 22]"

lemma huff_leaf_check:
  "list_all (\<lambda>(s, c). path_len s < huff_len c \<and> huff_val c = path_val s * 2 ^ (huff_len c - path_len s))
     (zip [0..<256] huff_leaf)"
  by (simp add: huff_leaf_def path_eqs huff_entry_eqs upt_eval)

lemma huff_leaf_entry:
  assumes "s < 256"
  shows "path_len s < huff_len (huff_leaf ! s)"
    and "huff_val (huff_leaf ! s) = path_val s * 2 ^ (huff_len (huff_leaf ! s) - path_len s)"
proof -
  have "length huff_leaf = 256"
    by (simp add: huff_leaf_def)
  with assms show "path_len s < huff_len (huff_leaf ! s)"
    and "huff_val (huff_leaf ! s) = path_val s * 2 ^ (huff_len (huff_leaf ! s) - path_len s)"
    using huff_leaf_check by (auto simp: list_all_length dest!: spec [of _ s] simp del: upt_rec_numeral)
qed

end
