(* ===== verification/HuffDecode.thy ===== *)
theory HuffDecode
  imports HuffAutomaton
begin

text \<open>
  Correctness of the Huffman decoder, derived from the checked automaton of \<open>HuffAutomaton\<close>:
  which inputs \<open>ngx_http_v2_huff_decode\<close> accepts, what it writes, that a field may arrive in
  pieces, and how much room the output needs.
\<close>

section \<open>One transition\<close>

lemma huff_path_0: "huff_path 0 = []"
  by (simp add: huff_path_def path_eqs)

lemma huff_path_inj_len: "length (huff_path s) < 30"
  by (simp add: huff_path_def path_len_less u8_less)

lemma huff_path_nibble:
  assumes "b < 16"
  shows "huff_path s @ wbits 4 b = wbits (path_len (unat s) + 4) (path_val (unat s) * 16 + b)"
  using wbits_nat_add [of b 4 "path_len (unat s)" "path_val (unat s)"] assms
  by (simp add: huff_path_def)

text \<open>A refused nibble would complete the end-of-string code, thirty ones.\<close>

lemma decode_bits_error:
  assumes "ngx_http_v2_huff_decode_bits d b = (NGX_ERROR, d')" "b < 16"
  shows "d' = d" "take 30 (huff_path (dstate d) @ wbits 4 b) = replicate 30 True"
proof -
  let ?s = "unat (dstate d)"
  from assms(1) have "next_st (ngx_http_v2_huff_decode_codes ! ?s ! b) = dstate d" and "d' = d"
    by (auto simp: ngx_http_v2_huff_decode_bits_def Let_def split: if_splits)
  then obtain k where k: "path_len ?s + 4 = 30 + k"
    and v: "(path_val ?s * 16 + b) div 2 ^ k = 2 ^ 30 - 1"
    using transition_check [OF u8_less [of "dstate d"] assms(2)]
    by (auto simp: transition_ok_def Let_def le_iff_add)
  show "d' = d" by fact
  have "wbits (30 + k) (path_val ?s * 16 + b) = replicate 30 True @ wbits k (path_val ?s * 16 + b)"
    unfolding wbits_add drop_bit_eq_div v
    using wbits_mask [of 30] by (simp add: mask_eq_exp_minus_1)
  then show "take 30 (huff_path (dstate d) @ wbits 4 b) = replicate 30 True"
    by (simp add: huff_path_nibble [OF assms(2)] k)
qed

lemma decode_bits_ok:
  assumes "ngx_http_v2_huff_decode_bits d b = (NGX_OK, d')" "b < 16"
  obtains cs where "dst d' = dst d @ cs"
    and "huff_path (dstate d) @ wbits 4 b = huff_bits cs @ huff_path (dstate d')"
    and "dending d' \<noteq> 0 \<longleftrightarrow> all_ones (huff_path (dstate d'))"
proof -
  let ?c = "ngx_http_v2_huff_decode_codes ! unat (dstate d) ! b"
  define s n where "s = unat (dstate d)" and "n = unat (next_st ?c)"
  define cs where "cs = (if emit ?c \<noteq> 0 then [sym ?c] else [])"
  from assms(1) have ne: "n \<noteq> s"
    and d': "dst d' = dst d @ cs" "dending d' = ending ?c" "dstate d' = next_st ?c"
    by (auto simp: ngx_http_v2_huff_decode_bits_def Let_def cs_def n_def s_def word_unat_eq_iff split: if_splits)
  have "transition_ok s b ?c"
    unfolding s_def by (rule transition_check [OF u8_less assms(2)])
  with ne have emit: "emit ?c \<noteq> 0 \<Longrightarrow> path_len s + 4 = huff_len (sym ?c) + path_len n \<and>
      path_val s * 16 + b = huff_val (sym ?c) * 2 ^ path_len n + path_val n"
    and no_emit: "emit ?c = 0 \<Longrightarrow> path_len s + 4 = path_len n \<and> path_val s * 16 + b = path_val n"
    and ending: "ending ?c \<noteq> 0 \<longleftrightarrow> path_val n = 2 ^ path_len n - 1"
    by (simp_all add: transition_ok_def Let_def flip: n_def)
  have less: "path_val n < 2 ^ path_len n"
    unfolding n_def by (rule path_val_less [OF u8_less])
  have "wbits (path_len s + 4) (path_val s * 16 + b) = huff_bits cs @ wbits (path_len n) (path_val n)"
    using emit no_emit less by (cases "emit ?c = 0") (simp_all add: cs_def huff_code_def wbits_nat_add)
  then have "huff_path (dstate d) @ wbits 4 b = huff_bits cs @ huff_path (next_st ?c)"
    unfolding huff_path_nibble [OF assms(2)] by (simp add: s_def n_def huff_path_def)
  moreover have "ending ?c \<noteq> 0 \<longleftrightarrow> all_ones (huff_path (next_st ?c))"
    using ending less by (simp add: huff_path_def wbits_nat_ones_iff all_ones_conv flip: n_def)
  ultimately show thesis
    using d' by (intro that) simp_all
qed

lemma decode_bits_rc: "ngx_http_v2_huff_decode_bits d b = (rc, d') \<Longrightarrow> rc = NGX_OK \<or> rc = NGX_ERROR"
  by (auto simp: ngx_http_v2_huff_decode_bits_def Let_def split: if_splits)

section \<open>Unambiguous parses\<close>

text \<open>Bits that no code word starts: what remains when no further symbol can be read.\<close>

definition stuck :: "bool list \<Rightarrow> bool" where
  "stuck u \<longleftrightarrow> (\<forall>c w. u \<noteq> huff_code c @ w)"

lemma parse_unique:
  assumes "huff_bits as @ u = huff_bits bs @ v" "stuck u" "stuck v"
  shows "as = bs \<and> u = v"
  using assms
proof (induction as arbitrary: bs)
  case Nil
  then show ?case
    by (cases bs) (auto simp: stuck_def)
next
  case (Cons a as)
  then show ?case
    by (cases bs) (auto simp: stuck_def dest: huff_code_unique)
qed

lemma stuck_ones: "stuck (replicate k True)"
  unfolding stuck_def
proof (intro allI notI)
  fix c w assume "replicate k True = huff_code c @ w"
  then have "huff_code c = replicate (huff_len c) True"
    using append_replicate_eq_split [of "huff_code c" w k True] by simp
  then show False
    using huff_code_not_ones by blast
qed

lemma stuck_eos: "stuck (replicate 30 True @ zs)"
  unfolding stuck_def
proof (intro allI notI)
  fix c w assume "replicate 30 True @ zs = huff_code c @ w"
  then have "take (huff_len c) (replicate 30 True @ zs) = huff_code c"
    by simp
  then have "huff_code c = replicate (huff_len c) True"
    using huff_bounds(2) [of c] by (simp add: min_def)
  then show False
    using huff_code_not_ones by blast
qed

lemma stuck_path: "stuck (huff_path s)"
  unfolding stuck_def
proof (intro allI notI)
  fix c w assume eq: "huff_path s = huff_code c @ w"
  let ?l = "huff_leaf ! unat s"
  define k where "k = huff_len ?l - path_len (unat s)"
  have k: "huff_len ?l = path_len (unat s) + k" "0 < k"
    using huff_leaf_entry(1) [OF u8_less, of s] by (simp_all add: k_def)
  have "huff_code ?l = huff_path s @ wbits k (0 :: nat)"
    using huff_leaf_entry(2) [OF u8_less, of s] wbits_nat_add [of 0 k]
    by (simp add: huff_code_def huff_path_def k flip: k_def)
  then have "huff_code c @ w @ wbits k (0 :: nat) = huff_code ?l @ []"
    by (simp only: eq append.assoc append_Nil2)
  then have "w @ wbits k (0 :: nat) = []"
    by (rule huff_code_unique(2))
  then have "length (w @ wbits k (0 :: nat)) = 0"
    by (simp only: list.size)
  with k(2) show False
    by simp
qed

section \<open>The loop\<close>

lemma nibbles: "wbits 8 (ch :: u8) = wbits 4 (unat (drop_bit 4 ch)) @ wbits 4 (unat (ch AND 15))"
proof -
  have "wbits 8 ch = wbits 4 (drop_bit 4 ch) @ wbits 4 ch"
    using wbits_add [of 4 4 ch] by simp
  also have "wbits 4 ch = wbits 4 (ch AND 15)"
    using wbits_take_bit [of 4 ch] by (simp add: take_bit_eq_mask mask_eq_exp_minus_1)
  finally show ?thesis
    by (simp add: wbits_unsigned)
qed

lemma chain_paths2:
  assumes "p @ hi = a @ p1" "p1 @ lo @ bs = c"
  shows "p @ (hi @ lo) @ bs = a @ c"
proof -
  have "p @ (hi @ lo) @ bs = (p @ hi) @ lo @ bs" by simp
  also have "\<dots> = a @ p1 @ lo @ bs" by (simp only: assms(1) append.assoc)
  also have "\<dots> = a @ c" by (simp only: assms(2))
  finally show ?thesis .
qed

lemma chain_paths:
  assumes "p @ hi = a @ p1" "p1 @ lo = b @ p2" "p2 @ bs = c"
  shows "p @ (hi @ lo) @ bs = a @ b @ c"
proof (rule chain_paths2 [OF assms(1)])
  have "p1 @ lo @ bs = (p1 @ lo) @ bs" by simp
  also have "\<dots> = b @ c" by (simp only: assms(2,3) append.assoc)
  finally show "p1 @ lo @ bs = b @ c" .
qed

lemma loop_ok:
  assumes "huff_decode_loop src d = (NGX_OK, d')"
  shows "\<exists>cs. dst d' = dst d @ cs \<and>
     huff_path (dstate d) @ bits_of src = huff_bits cs @ huff_path (dstate d') \<and>
     (src \<noteq> [] \<longrightarrow> (dending d' \<noteq> 0 \<longleftrightarrow> all_ones (huff_path (dstate d'))))"
  using assms
proof (induction src arbitrary: d)
  case Nil
  then show ?case by (auto intro: exI [of _ "[]"])
next
  case (Cons ch src)
  then obtain d1 d2 where 1: "ngx_http_v2_huff_decode_bits d (unat (drop_bit 4 ch)) = (NGX_OK, d1)"
    and 2: "ngx_http_v2_huff_decode_bits d1 (unat (ch AND 15)) = (NGX_OK, d2)"
    and rest: "huff_decode_loop src d2 = (NGX_OK, d')"
    by (auto split: prod.splits if_splits)
  from decode_bits_ok [OF 1 nibble_less(1)] obtain cs1 where
    cs1: "dst d1 = dst d @ cs1" "huff_path (dstate d) @ wbits 4 (unat (drop_bit 4 ch)) = huff_bits cs1 @ huff_path (dstate d1)"
    by blast
  from decode_bits_ok [OF 2 nibble_less(2)] obtain cs2 where
    cs2: "dst d2 = dst d1 @ cs2" "huff_path (dstate d1) @ wbits 4 (unat (ch AND 15)) = huff_bits cs2 @ huff_path (dstate d2)"
    "dending d2 \<noteq> 0 \<longleftrightarrow> all_ones (huff_path (dstate d2))"
    by blast
  from Cons.IH [OF rest] obtain cs3 where
    cs3: "dst d' = dst d2 @ cs3" "huff_path (dstate d2) @ bits_of src = huff_bits cs3 @ huff_path (dstate d')"
    "src \<noteq> [] \<longrightarrow> (dending d' \<noteq> 0 \<longleftrightarrow> all_ones (huff_path (dstate d')))"
    by blast
  have "huff_path (dstate d) @ bits_of (ch # src) = huff_bits (cs1 @ cs2 @ cs3) @ huff_path (dstate d')"
    using chain_paths [OF cs1(2) cs2(2) cs3(2)] by (simp add: nibbles)
  moreover have "dending d' \<noteq> 0 \<longleftrightarrow> all_ones (huff_path (dstate d'))"
    using cs3(3) cs2(3) rest by (cases src) auto
  ultimately show ?case
    using cs1(1) cs2(1) cs3(1) by (intro exI [of _ "cs1 @ cs2 @ cs3"]) simp
qed

lemma eos_prefix:
  assumes "take 30 (p @ b) = replicate 30 True"
  shows "\<exists>zs. p @ b @ rest = replicate 30 True @ zs"
  by (metis append.assoc append_take_drop_id assms)

lemma loop_error:
  assumes "huff_decode_loop src d = (rc, d')" "rc \<noteq> NGX_OK"
  shows "rc = NGX_ERROR \<and>
     (\<exists>cs zs. huff_path (dstate d) @ bits_of src = huff_bits cs @ replicate 30 True @ zs)"
  using assms
proof (induction src arbitrary: d)
  case Nil
  then show ?case by simp
next
  case (Cons ch src)
  let ?hi = "unat (drop_bit 4 ch)" and ?lo = "unat (ch AND 15)"
  obtain rc1 d1 where 1: "ngx_http_v2_huff_decode_bits d ?hi = (rc1, d1)"
    by fastforce
  obtain rc2 d2 where 2: "ngx_http_v2_huff_decode_bits d1 ?lo = (rc2, d2)"
    by fastforce
  show ?case
  proof (cases "rc1 = NGX_OK")
    case False
    with 1 have "rc1 = NGX_ERROR"
      using decode_bits_rc by blast
    with 1 have "take 30 (huff_path (dstate d) @ wbits 4 ?hi) = replicate 30 True"
      using decode_bits_error(2) [OF _ nibble_less(1)] by blast
    from eos_prefix [OF this, of "wbits 4 ?lo @ bits_of src"] obtain zs where
      "huff_path (dstate d) @ bits_of (ch # src) = huff_bits [] @ replicate 30 True @ zs"
      by (auto simp: nibbles)
    moreover have "rc = NGX_ERROR"
      using Cons.prems 1 False by simp
    ultimately show ?thesis by blast
  next
    case ok1: True
    from decode_bits_ok [OF 1 [unfolded ok1] nibble_less(1)] obtain cs1 where
      cs1: "huff_path (dstate d) @ wbits 4 ?hi = huff_bits cs1 @ huff_path (dstate d1)"
      by blast
    show ?thesis
    proof (cases "rc2 = NGX_OK")
      case False
      with 2 have "rc2 = NGX_ERROR"
        using decode_bits_rc by blast
      with 2 have "take 30 (huff_path (dstate d1) @ wbits 4 ?lo) = replicate 30 True"
        using decode_bits_error(2) [OF _ nibble_less(2)] by blast
      from eos_prefix [OF this, of "bits_of src"] obtain zs where
        "huff_path (dstate d1) @ wbits 4 ?lo @ bits_of src = replicate 30 True @ zs"
        by blast
      from chain_paths2 [OF cs1 this] have
        "huff_path (dstate d) @ bits_of (ch # src) = huff_bits cs1 @ replicate 30 True @ zs"
        by (simp add: nibbles)
      moreover have "rc = NGX_ERROR"
        using Cons.prems 1 2 ok1 False by simp
      ultimately show ?thesis by blast
    next
      case ok2: True
      from decode_bits_ok [OF 2 [unfolded ok2] nibble_less(2)] obtain cs2 where
        cs2: "huff_path (dstate d1) @ wbits 4 ?lo = huff_bits cs2 @ huff_path (dstate d2)"
        by blast
      have "huff_decode_loop src d2 = (rc, d')"
        using Cons.prems(1) 1 2 ok1 ok2 by simp
      from Cons.IH [OF this Cons.prems(2)] obtain cs zs where rc: "rc = NGX_ERROR"
        and cs: "huff_path (dstate d2) @ bits_of src = huff_bits cs @ replicate 30 True @ zs"
        by blast
      have "huff_path (dstate d) @ bits_of (ch # src) = huff_bits (cs1 @ cs2 @ cs) @ replicate 30 True @ zs"
        using chain_paths [OF cs1 cs2 cs] by (simp add: nibbles)
      with rc show ?thesis by blast
    qed
  qed
qed

section \<open>Properties\<close>

lemma huff_decode_ok:
  assumes "ngx_http_v2_huff_decode s src out is_last = (NGX_OK, s', out')"
  shows "\<exists>cs t. out' = out @ cs \<and> huff_path s @ bits_of src = huff_bits cs @ huff_path t \<and>
     s' = (if is_last then 0 else t) \<and> (is_last \<and> src \<noteq> [] \<longrightarrow> all_ones (huff_path t))"
proof -
  obtain d' where loop: "huff_decode_loop src \<lparr>dstate = s, dending = 1, dst = out\<rparr> = (NGX_OK, d')"
    and d': "out' = dst d'" "s' = (if is_last then 0 else dstate d')" "is_last \<longrightarrow> dending d' \<noteq> 0"
    using assms by (auto simp: ngx_http_v2_huff_decode_def split: prod.splits if_splits)
  from loop_ok [OF loop] d' show ?thesis
    by (intro exI [of _ "drop (length out) out'"] exI [of _ "dstate d'"]) auto
qed

lemma huff_decode_iff:
  "ngx_http_v2_huff_decode 0 src out True = (NGX_OK, 0, out @ cs) \<longleftrightarrow>
   (\<exists>k < 30. bits_of src = huff_bits cs @ replicate k True)"
proof
  assume "ngx_http_v2_huff_decode 0 src out True = (NGX_OK, 0, out @ cs)"
  from huff_decode_ok [OF this] obtain t where
    eq: "bits_of src = huff_bits cs @ huff_path t" and ones: "src \<noteq> [] \<longrightarrow> all_ones (huff_path t)"
    by (auto simp: huff_path_0)
  have "all_ones (huff_path t)"
    using eq ones by (cases "src = []") (simp_all add: all_ones_def)
  then obtain k where "huff_path t = replicate k True" "length (huff_path t) = k"
    by (rule all_onesE)
  with eq huff_path_inj_len [of t] show "\<exists>k < 30. bits_of src = huff_bits cs @ replicate k True"
    by auto
next
  assume "\<exists>k < 30. bits_of src = huff_bits cs @ replicate k True"
  then obtain k where k: "k < 30" and eq: "bits_of src = huff_bits cs @ replicate k True"
    by blast
  obtain rc d' where loop: "huff_decode_loop src \<lparr>dstate = 0, dending = 1, dst = out\<rparr> = (rc, d')"
    by fastforce
  have rc: "rc = NGX_OK"
  proof (rule ccontr)
    assume "rc \<noteq> NGX_OK"
    from loop_error [OF loop this] obtain cs' zs where
      "bits_of src = huff_bits cs' @ replicate 30 True @ zs"
      by (auto simp: huff_path_0)
    with eq have "replicate k True = replicate 30 True @ zs"
      by (metis parse_unique stuck_eos stuck_ones)
    from arg_cong [OF this, of length] k show False
      by simp
  qed
  from loop_ok [OF loop [unfolded rc]] obtain cs' where
    cs': "dst d' = out @ cs'" "bits_of src = huff_bits cs' @ huff_path (dstate d')"
    and fin: "src \<noteq> [] \<longrightarrow> (dending d' \<noteq> 0 \<longleftrightarrow> all_ones (huff_path (dstate d')))"
    by (auto simp: huff_path_0)
  from cs'(2) eq have same: "cs' = cs \<and> huff_path (dstate d') = replicate k True"
    by (metis parse_unique stuck_path stuck_ones)
  have "dending d' \<noteq> 0"
    using fin same loop rc by (cases "src = []") auto
  then show "ngx_http_v2_huff_decode 0 src out True = (NGX_OK, 0, out @ cs)"
    using loop rc cs'(1) same by (simp add: ngx_http_v2_huff_decode_def)
qed

lemma huff_decode_loop_append:
  "huff_decode_loop (as @ bs) d =
     (case huff_decode_loop as d of (rc, d') \<Rightarrow> if rc \<noteq> NGX_OK then (rc, d') else huff_decode_loop bs d')"
  by (induction as arbitrary: d) (auto split: prod.splits)

text \<open>The initial \<open>ending\<close> only matters when there is no input.\<close>

lemma decode_bits_dending:
  "ngx_http_v2_huff_decode_bits (d\<lparr>dending := e\<rparr>) b =
   (if next_st (ngx_http_v2_huff_decode_codes ! unat (dstate d) ! b) = dstate d
    then (NGX_ERROR, d\<lparr>dending := e\<rparr>) else ngx_http_v2_huff_decode_bits d b)"
  by (simp add: ngx_http_v2_huff_decode_bits_def Let_def)

lemma huff_decode_loop_dending:
  assumes "bs \<noteq> []"
  shows "huff_decode_loop bs (d\<lparr>dending := e\<rparr>) = huff_decode_loop bs d \<or>
    (\<exists>e'. huff_decode_loop bs (d\<lparr>dending := e\<rparr>) = (NGX_ERROR, d\<lparr>dending := e\<rparr>) \<and>
          huff_decode_loop bs d = (NGX_ERROR, d))"
  using assms
  by (cases bs; cases "next_st (ngx_http_v2_huff_decode_codes ! unat (dstate d) ! unat (drop_bit 4 (hd bs))) = dstate d")
    (auto simp: decode_bits_dending ngx_http_v2_huff_decode_bits_def Let_def split: prod.splits)

lemma huff_decode_split:
  assumes "bs \<noteq> []"
  shows "(case ngx_http_v2_huff_decode s as out False of
            (rc, s', out') \<Rightarrow> if rc \<noteq> NGX_OK then (rc, s', out') else ngx_http_v2_huff_decode s' bs out' is_last) =
         ngx_http_v2_huff_decode s (as @ bs) out is_last"
proof -
  obtain rc d where d: "huff_decode_loop as \<lparr>dstate = s, dending = 1, dst = out\<rparr> = (rc, d)"
    by fastforce
  have "d = (d\<lparr>dending := 1\<rparr>)\<lparr>dending := dending d\<rparr>" and
    "d\<lparr>dending := 1\<rparr> = \<lparr>dstate = dstate d, dending = 1, dst = dst d\<rparr>"
    by simp_all
  with huff_decode_loop_dending [OF assms, where d = d and e = 1] d show ?thesis
    by (cases "rc = NGX_OK")
      (auto simp: ngx_http_v2_huff_decode_def huff_decode_loop_append split: prod.splits)
qed

section \<open>Room for the output\<close>

lemma length_huff_bits: "5 * length cs \<le> length (huff_bits cs)"
proof (induction cs)
  case (Cons c cs)
  then show ?case
    using huff_bounds(1) [of c] by simp
qed simp

lemma decode_bits_room:
  assumes "ngx_http_v2_huff_decode_bits d b = (rc, d')" "b < 16"
  shows "5 * length (dst d') + length (huff_path (dstate d'))
         \<le> 5 * length (dst d) + length (huff_path (dstate d)) + 4"
proof (cases "rc = NGX_OK")
  case True
  from decode_bits_ok [OF assms(1) [unfolded True] assms(2)] obtain cs where
    dst: "dst d' = dst d @ cs" and eq: "huff_path (dstate d) @ wbits 4 b = huff_bits cs @ huff_path (dstate d')"
    by blast
  have "length (huff_path (dstate d)) + 4 = length (huff_bits cs) + length (huff_path (dstate d'))"
    using arg_cong [OF eq, of length] by simp
  with dst length_huff_bits [of cs] show ?thesis
    by simp
next
  case False
  with assms have "d' = d"
    using decode_bits_rc decode_bits_error(1) by blast
  then show ?thesis by simp
qed

lemma huff_decode_loop_room:
  "huff_decode_loop src d = (rc, d') \<Longrightarrow>
   5 * length (dst d') + length (huff_path (dstate d'))
   \<le> 5 * length (dst d) + length (huff_path (dstate d)) + 8 * length src"
proof (induction src arbitrary: d)
  case (Cons ch src)
  obtain rc1 d1 where 1: "ngx_http_v2_huff_decode_bits d (unat (drop_bit 4 ch)) = (rc1, d1)"
    by fastforce
  obtain rc2 d2 where 2: "ngx_http_v2_huff_decode_bits d1 (unat (ch AND 15)) = (rc2, d2)"
    by fastforce
  show ?case
    using Cons.prems Cons.IH [of d2] 1 2
      decode_bits_room [OF 1 nibble_less(1)] decode_bits_room [OF 2 nibble_less(2)]
    by (auto split: if_splits)
qed simp

section \<open>Properties\<close>

text \<open>C18: the decoder accepts exactly the concatenations of code words padded with fewer than thirty
  one bits, and then writes exactly the encoded symbols.\<close>

theorem huff_decode_exact:
  "ngx_http_v2_huff_decode 0 src out True = (NGX_OK, 0, out @ cs) \<longleftrightarrow>
   (\<exists>k < 30. bits_of src = huff_bits cs @ replicate k True)"
  by (rule huff_decode_iff)

text \<open>A field that arrives in two pieces is decoded like the whole field, provided the last
  piece is not empty.\<close>

theorem huff_decode_pieces:
  assumes "bs \<noteq> []"
  shows "(case ngx_http_v2_huff_decode s as out False of
            (rc, s', out') \<Rightarrow> if rc \<noteq> NGX_OK then (rc, s', out') else ngx_http_v2_huff_decode s' bs out' is_last) =
         ngx_http_v2_huff_decode s (as @ bs) out is_last"
  by (rule huff_decode_split [OF assms])

theorem huff_decode_pieces_witness:
  "ngx_http_v2_huff_decode 0 ([0x1f] @ [0xff]) [] True = ngx_http_v2_huff_decode 0 [0x1f, 0xff] [] True"
  using huff_decode_pieces [where s = 0 and as = "[0x1f]" and bs = "[0xff]" and out = "[]" and is_last = True]
    huff_decode_iff [where src = "[0x1f, 0xff]" and out = "[]" and cs = "[0x61]"]
  by simp

text \<open>The output never needs more than \<open>len * 8 / 5\<close> bytes, the room that
  \<open>ngx_http_v2_state_field_len\<close> allocates, whether the input is accepted or refused.\<close>

theorem huff_decode_room:
  assumes "ngx_http_v2_huff_decode 0 src out is_last = (rc, s', out')"
  shows "length out' \<le> length out + length src * 8 div 5"
proof -
  obtain rc' d' where "huff_decode_loop src \<lparr>dstate = 0, dending = 1, dst = out\<rparr> = (rc', d')" and "out' = dst d'"
    using assms by (auto simp: ngx_http_v2_huff_decode_def split: prod.splits if_splits)
  from huff_decode_loop_room [OF this(1)] this(2) show ?thesis
    by (simp add: huff_path_0)
qed

theorem huff_decode_room_witness:
  "length (snd (snd (ngx_http_v2_huff_decode 0 [0x1f, 0xff] [] True))) \<le> 3"
  using huff_decode_room [where src = "[0x1f, 0xff]" and out = "[]" and is_last = True
      and rc = "fst (ngx_http_v2_huff_decode 0 [0x1f, 0xff] [] True)"
      and s' = "fst (snd (ngx_http_v2_huff_decode 0 [0x1f, 0xff] [] True))"
      and out' = "snd (snd (ngx_http_v2_huff_decode 0 [0x1f, 0xff] [] True))"]
  by simp

text \<open>RFC 7541 requires a padding longer than seven bits to be refused; the decoder accepts
  whole bytes of it, up to three: the bytes \<open>ff ff ff\<close> decode to nothing.\<close>

theorem huff_decode_long_padding:
  "ngx_http_v2_huff_decode 0 (replicate n 0xff) [] True = (NGX_OK, 0, []) \<longleftrightarrow> n \<le> 3"
proof -
  have bits: "bits_of (replicate n (0xff :: u8)) = replicate (8 * n) True" for n
  proof (induction n)
    case (Suc n)
    have "wbits 8 (0xff :: u8) = replicate 8 True"
      by (simp add: wbits_def upt_eval numeral_eq_Suc)
    with Suc show ?case
      by (simp add: replicate_add)
  qed simp
  have "(\<exists>k < 30. replicate (8 * n) True = replicate k True) \<longleftrightarrow> 8 * n < 30"
    by auto
  then show ?thesis
    using huff_decode_iff [where src = "replicate n 0xff" and out = "[]" and cs = "[]"]
    by (simp add: bits) linarith
qed

end
