(* ===== verification/HuffEncode.thy ===== *)
theory HuffEncode
  imports HuffDecode
begin

text \<open>
  The HPACK Huffman encoder of \<^verbatim>\<open>src/http/v2/ngx_http_v2_huff_encode.c\<close>.  Code words are
  collected in a 64-bit buffer from its most significant end; a full buffer is written to
  \<open>dst\<close> in network byte order.  The encoder gives up (returns 0) when the result would not be
  shorter than the input.
\<close>

section \<open>The encoder\<close>

text \<open>\<open>ngx_http_v2_huff_encode_buf\<close>: the eight bytes of \<open>buf\<close>, most significant first.\<close>

definition ngx_http_v2_huff_encode_buf :: "u64 \<Rightarrow> bytes" where
  "ngx_http_v2_huff_encode_buf buf =
     [ucast (drop_bit 56 buf), ucast (drop_bit 48 buf), ucast (drop_bit 40 buf), ucast (drop_bit 32 buf),
      ucast (drop_bit 24 buf), ucast (drop_bit 16 buf), ucast (drop_bit 8 buf), ucast buf]"

text \<open>
  The \<open>while\<close> loop.  \<open>out\<close> is \<open>dst[0..hlen]\<close>, so that \<open>hlen = length out\<close>; \<open>None\<close> is the early
  \<open>return 0\<close>; otherwise the buffer and the number of pending bits are handed to the tail.
\<close>

fun huff_encode_loop ::
    "ngx_http_v2_huff_encode_code_t list \<Rightarrow> nat \<Rightarrow> bytes \<Rightarrow> bytes \<Rightarrow> u64 \<Rightarrow> nat \<Rightarrow> (bytes \<times> u64 \<times> nat) option"
where
  "huff_encode_loop table len [] out buf pending = Some (out, buf, pending)"
| "huff_encode_loop table len (ch # src) out buf pending =
     (let nxt = table ! unat ch;
          cw = ucast (code nxt) :: u64;
          pending = pending + unat (code_len nxt)
      in if pending < 64
         then huff_encode_loop table len src out (buf OR push_bit (64 - pending) cw) pending
         else if length out + 8 \<ge> len then None
         else (let pending = pending - 64;
                   buf = buf OR drop_bit pending cw
               in huff_encode_loop table len src (out @ ngx_http_v2_huff_encode_buf buf)
                    (if pending \<noteq> 0 then push_bit (64 - pending) cw else 0) pending))"

text \<open>\<open>ngx_align(d, a)\<close> of \<^verbatim>\<open>src/core/ngx_config.h\<close>, for a power of two \<open>a\<close>.\<close>

definition ngx_align :: "nat \<Rightarrow> nat \<Rightarrow> nat" where
  "ngx_align d a = (d + (a - 1)) div a * a"

text \<open>The final \<open>do ... while (pending)\<close>.\<close>

fun huff_encode_tail :: "bytes \<Rightarrow> u64 \<Rightarrow> nat \<Rightarrow> bytes" where
  "huff_encode_tail out buf pending =
     (let pending = pending - 8;
          out = out @ [ucast (drop_bit pending buf)]
      in if pending \<noteq> 0 then huff_encode_tail out buf pending else out)"

declare huff_encode_tail.simps [simp del]

text \<open>The first \<open>hlen\<close> bytes of \<open>dst\<close>; the empty string where the C function returns 0.\<close>

definition ngx_http_v2_huff_encode :: "bytes \<Rightarrow> bool \<Rightarrow> bytes" where
  "ngx_http_v2_huff_encode src lower =
     (let table = (if lower then ngx_http_v2_huff_encode_table_lc else ngx_http_v2_huff_encode_table);
          len = length src
      in case huff_encode_loop table len src [] 0 0 of
           None \<Rightarrow> []
         | Some (out, buf, pending) \<Rightarrow>
             if pending = 0 then out
             else (let buf = buf OR drop_bit pending (- 1);
                       pending = ngx_align pending 8
                   in if length out + pending div 8 \<ge> len then []
                      else huff_encode_tail out (drop_bit (64 - pending) buf) pending))"

section \<open>Bytes of a word\<close>

lemma wbits_ucast_drop: "n + m \<le> 64 \<Longrightarrow> m \<le> 8 \<Longrightarrow> wbits m (ucast (drop_bit n w) :: u8) = wbits m (drop_bit n (w :: u64))"
  by (rule wbits_cong) (simp add: bit_simps)

lemma bits_of_encode_buf: "bits_of (ngx_http_v2_huff_encode_buf w) = wbits 64 w"
proof -
  have "wbits (8 + n) w = wbits 8 (ucast (drop_bit n w) :: u8) @ wbits n w" if "n \<le> 56" for n
    using wbits_ucast_drop [of n 8 w] that by (simp add: wbits_add)
  from this [of 56] this [of 48] this [of 40] this [of 32] this [of 24] this [of 16] this [of 8] this [of 0]
  show ?thesis
    by (simp add: ngx_http_v2_huff_encode_buf_def)
qed

lemma bits_of_encode_tail:
  assumes "pending = 8 * Suc k" "pending \<le> 64"
  shows "bits_of (huff_encode_tail out buf pending) = bits_of out @ wbits pending buf"
  using assms
proof (induction k arbitrary: out pending)
  case 0
  then show ?case
    using wbits_ucast_drop [of 0 8 buf] by (subst huff_encode_tail.simps) simp
next
  case (Suc k)
  define p where "p = 8 * Suc k"
  have p: "pending = 8 + p" "p \<noteq> 0" "p \<le> 56"
    using Suc.prems by (simp_all add: p_def)
  have "bits_of (huff_encode_tail out buf pending) =
        bits_of (huff_encode_tail (out @ [ucast (drop_bit p buf)]) buf p)"
    using p by (subst huff_encode_tail.simps) simp
  also have "\<dots> = bits_of out @ wbits 8 (ucast (drop_bit p buf) :: u8) @ wbits p buf"
    using Suc.IH [of p] p by (simp add: p_def)
  also have "\<dots> = bits_of out @ wbits pending buf"
    using wbits_ucast_drop [of p 8 buf] p by (simp add: wbits_add)
  finally show ?case .
qed

section \<open>The buffer\<close>

text \<open>
  \<open>buf_top n w\<close> are the first \<open>n\<close> of the 64 bits of \<open>w\<close>.  The buffer holds the pending bits on top
  and zeros below.
\<close>

definition buf_top :: "nat \<Rightarrow> u64 \<Rightarrow> bool list" where
  "buf_top n w = wbits n (drop_bit (64 - n) w)"

definition buf_ok :: "u64 \<Rightarrow> nat \<Rightarrow> bool" where
  "buf_ok buf n \<longleftrightarrow> n < 64 \<and> (\<forall>i < 64 - n. \<not> bit buf i)"

lemma buf_top_nth:
  assumes "i < n" "n \<le> 64"
  shows "buf_top n w ! i = bit w (63 - i)"
proof -
  have "64 - n + (n - Suc i) = 63 - i"
    using assms by simp
  then show ?thesis
    using assms by (simp add: buf_top_def nth_wbits bit_drop_bit_eq)
qed

lemma length_buf_top [simp]: "length (buf_top n w) = n"
  by (simp add: buf_top_def)

lemma buf_top_0 [simp]: "buf_top 0 w = []"
  by (simp add: buf_top_def)

lemma buf_top_64: "buf_top 64 w = wbits 64 w"
  by (simp add: buf_top_def)

lemma buf_top_add_bits:
  assumes "buf_ok buf n" "n + l < 64" "\<And>i. l \<le> i \<Longrightarrow> \<not> bit cw i"
  shows "buf_ok (buf OR push_bit (64 - (n + l)) cw) (n + l)"
    and "buf_top (n + l) (buf OR push_bit (64 - (n + l)) cw) = buf_top n buf @ wbits l cw"
proof -
  show "buf_ok (buf OR push_bit (64 - (n + l)) cw) (n + l)"
    using assms(1,2) by (auto simp: buf_ok_def bit_simps)
  show "buf_top (n + l) (buf OR push_bit (64 - (n + l)) cw) = buf_top n buf @ wbits l cw"
  proof (rule nth_equalityI)
    fix i assume "i < length (buf_top (n + l) (buf OR push_bit (64 - (n + l)) cw))"
    then have i: "i < n + l" by simp
    show "buf_top (n + l) (buf OR push_bit (64 - (n + l)) cw) ! i = (buf_top n buf @ wbits l cw) ! i"
    proof (cases "i < n")
      case True
      with assms(2,3) i show ?thesis
        by (simp add: buf_top_nth nth_append bit_simps)
    next
      case False
      then have "63 - i - (64 - (n + l)) = l - Suc (i - n)" and "64 - (n + l) \<le> 63 - i" and "63 - i < 64"
        using i assms(2) by simp_all
      with False assms(1,2) i show ?thesis
        by (simp add: buf_top_nth nth_append nth_wbits bit_simps buf_ok_def)
    qed
  qed simp
qed

lemma buf_top_flush:
  assumes "buf_ok buf n" "n + l = 64 + p" "l < 64" "\<And>i. l \<le> i \<Longrightarrow> \<not> bit cw i"
  shows "wbits 64 (buf OR drop_bit p cw) @ wbits p cw = buf_top n buf @ wbits l cw"
proof -
  have l: "l = (64 - n) + p" and n: "n < 64"
    using assms(1,2) by (simp_all add: buf_ok_def)
  have "wbits 64 (buf OR drop_bit p cw) = buf_top n buf @ wbits (64 - n) (drop_bit p cw)"
  proof (rule nth_equalityI)
    fix i assume "i < length (wbits 64 (buf OR drop_bit p cw))"
    then have i: "i < 64" by simp
    show "wbits 64 (buf OR drop_bit p cw) ! i = (buf_top n buf @ wbits (64 - n) (drop_bit p cw)) ! i"
    proof (cases "i < n")
      case True
      with assms(4) i n l show ?thesis
        by (simp add: buf_top_nth nth_wbits nth_append bit_simps)
    next
      case False
      then have "63 - i = 64 - n - Suc (i - n)"
        using i n by simp
      with False assms(1) i n show ?thesis
        by (simp add: nth_wbits nth_append bit_simps buf_ok_def)
    qed
  qed (use n in simp)
  then show ?thesis
    using wbits_add [of "64 - n" p cw] l by simp
qed

lemma buf_top_rest:
  assumes "p < 64"
  shows "buf_ok (if p \<noteq> 0 then push_bit (64 - p) cw else 0) p"
    and "buf_top p (if p \<noteq> 0 then push_bit (64 - p) cw else 0) = wbits p cw"
proof -
  show "buf_ok (if p \<noteq> 0 then push_bit (64 - p) cw else 0) p"
    using assms by (auto simp: buf_ok_def bit_simps)
  show "buf_top p (if p \<noteq> 0 then push_bit (64 - p) cw else 0) = wbits p cw"
  proof (rule nth_equalityI)
    fix i assume "i < length (buf_top p (if p \<noteq> 0 then push_bit (64 - p) cw else 0))"
    then have i: "i < p" by simp
    then have "63 - i - (64 - p) = p - Suc i" "64 - p \<le> 63 - i" "63 - i < 64"
      using assms by simp_all
    with i assms show "buf_top p (if p \<noteq> 0 then push_bit (64 - p) cw else 0) ! i = wbits p cw ! i"
      by (simp add: buf_top_nth nth_wbits bit_simps)
  qed simp
qed

lemma buf_top_pad:
  assumes "buf_ok buf p" "p \<le> q" "q \<le> 64"
  shows "buf_top q (buf OR drop_bit p (- 1)) = buf_top p buf @ replicate (q - p) True"
proof (rule nth_equalityI)
  fix i assume "i < length (buf_top q (buf OR drop_bit p (- 1)))"
  then have i: "i < q" by simp
  with assms show "buf_top q (buf OR drop_bit p (- 1)) ! i = (buf_top p buf @ replicate (q - p) True) ! i"
    by (cases "i < p") (auto simp: buf_top_nth nth_append bit_simps buf_ok_def)
qed (use assms in simp)

section \<open>The loop\<close>

text \<open>
  A table \<open>table\<close> codes through \<open>f\<close> when its entry for \<open>c\<close> is the plain table's entry for \<open>f c\<close>.
  The lower-casing table codes through \<open>ngx_tolower\<close>.
\<close>

definition codes_through :: "ngx_http_v2_huff_encode_code_t list \<Rightarrow> (u8 \<Rightarrow> u8) \<Rightarrow> bool" where
  "codes_through table f \<longleftrightarrow> (\<forall>c. table ! unat c = ngx_http_v2_huff_encode_table ! unat (f c))"

lemma entry_bits:
  fixes c :: u8
  defines "e \<equiv> ngx_http_v2_huff_encode_table ! unat c"
  shows "wbits (unat (code_len e)) (ucast (code e) :: u64) = huff_code c"
    and "unat (code_len e) = huff_len c"
    and "huff_len c \<le> i \<Longrightarrow> \<not> bit (ucast (code e) :: u64) i"
proof -
  show l: "unat (code_len e) = huff_len c"
    by (simp add: e_def huff_len_def)
  have bit: "bit (ucast (code e) :: u64) i \<longleftrightarrow> bit (huff_val c) i" if "i < 64" for i
    using that by (simp add: e_def huff_val_def bit_simps)
  show "wbits (unat (code_len e)) (ucast (code e) :: u64) = huff_code c"
    unfolding l huff_code_def by (rule wbits_cong) (use huff_bounds(2) [of c] in \<open>simp add: bit\<close>)
  show "\<not> bit (ucast (code e) :: u64) i" if "huff_len c \<le> i" for i
  proof
    assume *: "bit (ucast (code e) :: u64) i"
    then have "i < 64"
      using bit_imp_le_length by fastforce
    moreover have "huff_val c = take_bit (huff_len c) (huff_val c)"
      using huff_val_less by (simp add: take_bit_nat_eq_self)
    ultimately show False
      using * bit that by (metis bit_take_bit_iff not_le)
  qed
qed

lemma huff_encode_loop_correct:
  assumes "codes_through table f" "buf_ok buf pending"
  shows "case huff_encode_loop table len src out buf pending of
           None \<Rightarrow> 8 * len \<le> 8 * length out + pending + length (huff_bits (map f src))
         | Some (out', buf', pending') \<Rightarrow>
             buf_ok buf' pending' \<and> (out' = out \<or> length out' < len) \<and>
             bits_of out' @ buf_top pending' buf' = bits_of out @ buf_top pending buf @ huff_bits (map f src)"
  using assms(2)
proof (induction src arbitrary: out buf pending)
  case Nil
  then show ?case by simp
next
  case (Cons ch src)
  define e where "e = ngx_http_v2_huff_encode_table ! unat (f ch)"
  define cw where "cw = (ucast (code e) :: u64)"
  define l where "l = huff_len (f ch)"
  have e: "table ! unat ch = e"
    using assms(1) by (simp add: codes_through_def e_def)
  note entry = entry_bits [of "f ch", folded e_def cw_def, folded l_def]
  have l: "unat (code_len e) = l" and bound: "l < 64"
    using entry(2) huff_bounds(2) [of "f ch"] by (simp_all add: l_def)
  show ?case
  proof (cases "pending + l < 64")
    case True
    define buf' where "buf' = buf OR push_bit (64 - (pending + l)) cw"
    have step: "huff_encode_loop table len (ch # src) out buf pending =
        huff_encode_loop table len src out buf' (pending + l)"
      using True by (simp add: e l buf'_def Let_def flip: cw_def)
    note top = buf_top_add_bits [OF Cons.prems True entry(3), folded buf'_def]
    show ?thesis
      unfolding step using Cons.IH [OF top(1), of out] top(2) entry(1)
      by (simp add: l l_def split: option.splits prod.splits)
  next
    case flush: False
    show ?thesis
    proof (cases "length out + 8 \<ge> len")
      case True
      then have "huff_encode_loop table len (ch # src) out buf pending = None"
        using flush by (simp add: e l Let_def)
      with flush True show ?thesis
        by (simp add: l_def)
    next
      case False
      define p where "p = pending + l - 64"
      define rest where "rest = (if p \<noteq> 0 then push_bit (64 - p) cw else 0)"
      define out' where "out' = out @ ngx_http_v2_huff_encode_buf (buf OR drop_bit p cw)"
      have p: "pending + l = 64 + p" "p < 64"
        using flush bound Cons.prems by (auto simp: p_def buf_ok_def)
      have step: "huff_encode_loop table len (ch # src) out buf pending =
          huff_encode_loop table len src out' rest p"
        using flush False p by (simp add: e l Let_def rest_def out'_def flip: cw_def)
      have ok: "buf_ok rest p" and top: "buf_top p rest = wbits p cw"
        unfolding rest_def using buf_top_rest [OF p(2)] by blast+
      have "bits_of out' @ buf_top p rest = bits_of out @ buf_top pending buf @ huff_code (f ch)"
        using buf_top_flush [OF Cons.prems p(1) bound entry(3)] entry(1)
        by (simp add: out'_def bits_of_encode_buf top l)
      then have bits: "bits_of out' @ buf_top p rest @ bs = bits_of out @ buf_top pending buf @ huff_code (f ch) @ bs" for bs
        by (metis append.assoc)
      have len: "length out' = length out + 8"
        by (simp add: out'_def ngx_http_v2_huff_encode_buf_def)
      show ?thesis
        unfolding step using Cons.IH [OF ok, of out'] bits len False p
        by (auto simp: l_def split: option.splits prod.splits)
    qed
  qed
qed

lemma codes_through_plain: "codes_through ngx_http_v2_huff_encode_table (\<lambda>c. c)"
  by (simp add: codes_through_def)

text \<open>The lower-casing table repeats the codes of a-z (97 to 122) for A-Z (65 to 90).\<close>

lemma table_lc_pieces:
  "ngx_http_v2_huff_encode_table_lc =
   take 65 ngx_http_v2_huff_encode_table @ take 26 (drop 97 ngx_http_v2_huff_encode_table) @
   drop 91 ngx_http_v2_huff_encode_table"
  by (simp add: ngx_http_v2_huff_encode_table_def ngx_http_v2_huff_encode_table_lc_def)

lemma length_encode_table: "length ngx_http_v2_huff_encode_table = 256"
  by (simp add: ngx_http_v2_huff_encode_table_def)

lemma ngx_tolower_nat: "unat (ngx_tolower c) = (if 65 \<le> unat c \<and> unat c \<le> 90 then unat c + 32 else unat c)"
proof -
  have eq: "\<forall>n \<in> set [65..<91]. unat ((word_of_nat n :: u8) OR 0x20) = n + 32"
    by (simp add: upt_eval)
  then have "unat (c OR 0x20) = unat c + 32" if "65 \<le> unat c" "unat c \<le> 90"
    using bspec [OF eq, of "unat c"] that by (simp del: upt_rec_numeral)
  then show ?thesis
    by (simp add: ngx_tolower_def word_le_nat_alt)
qed

lemma codes_through_lower: "codes_through ngx_http_v2_huff_encode_table_lc ngx_tolower"
  unfolding codes_through_def
proof
  fix c :: u8
  show "ngx_http_v2_huff_encode_table_lc ! unat c = ngx_http_v2_huff_encode_table ! unat (ngx_tolower c)"
    using u8_less [of c]
    by (auto simp: table_lc_pieces ngx_tolower_nat nth_append length_encode_table min_def add.commute)
qed

section \<open>The whole encoder\<close>

definition lower_if :: "bool \<Rightarrow> bytes \<Rightarrow> bytes" where
  "lower_if lower src = (if lower then map ngx_tolower src else src)"

lemma huff_encode_result:
  fixes src lower
  defines "bits \<equiv> huff_bits (lower_if lower src)"
  defines "n \<equiv> (length bits + 7) div 8"
  defines "out \<equiv> ngx_http_v2_huff_encode src lower"
  shows "if n < length src
         then length out = n \<and> bits_of out = bits @ replicate (8 * n - length bits) True
         else out = []"
proof -
  define table where "table = (if lower then ngx_http_v2_huff_encode_table_lc else ngx_http_v2_huff_encode_table)"
  define f where "f = (if lower then ngx_tolower else (\<lambda>c. c))"
  have f: "huff_bits (map f src) = bits"
    by (simp add: f_def bits_def lower_if_def)
  have through: "codes_through table f"
    by (simp add: table_def f_def codes_through_plain codes_through_lower)
  have ok: "buf_ok 0 0"
    by (simp add: buf_ok_def)
  note loop = huff_encode_loop_correct [OF through ok, where len = "length src" and src = src and out = "[]", unfolded f]
  show ?thesis
  proof (cases "huff_encode_loop table (length src) src [] 0 0")
    case None
    have "8 * length src \<le> length bits"
      using loop unfolding None by simp
    then have "length src \<le> n"
      unfolding n_def by linarith
    with None show ?thesis
      by (simp add: out_def ngx_http_v2_huff_encode_def Let_def flip: table_def)
  next
    case (Some r)
    then obtain ob buf p where r: "huff_encode_loop table (length src) src [] 0 0 = Some (ob, buf, p)"
      by (cases r) auto
    with loop have buf: "buf_ok buf p" and short: "ob = [] \<or> length ob < length src"
      and bits: "bits_of ob @ buf_top p buf = bits"
      by simp_all
    have p: "p < 64" and blen: "length bits = 8 * length ob + p"
      using buf bits by (auto simp: buf_ok_def)
    define q where "q = ngx_align p 8"
    have q: "q = (p + 7) div 8 * 8" and n: "n = length ob + q div 8"
      by (simp_all add: q_def ngx_align_def n_def blen)
    show ?thesis
    proof (cases "p = 0")
      case True
      then have "out = ob"
        using r by (simp add: out_def ngx_http_v2_huff_encode_def Let_def flip: table_def)
      with True bits short q n blen show ?thesis
        by auto
    next
      case False
      define buf' where "buf' = buf OR drop_bit p (- 1)"
      define k where "k = (p + 7) div 8"
      have k: "8 * k \<le> p + 7" "p + 7 < 8 * k + 8" "q = 8 * k" "q div 8 = k"
        by (simp_all add: k_def q)
      then have pq: "p \<le> q" "q \<le> 64" "q = 8 * Suc (k - 1)" "8 * n - length bits = q - p" "8 * n = 8 * length ob + q"
        using False p unfolding blen n by simp_all
      have out: "out = (if length ob + q div 8 \<ge> length src then []
                        else huff_encode_tail ob (drop_bit (64 - q) buf') q)"
        unfolding out_def ngx_http_v2_huff_encode_def table_def [symmetric] Let_def r
        using False by (simp only: option.case prod.case if_False q_def buf'_def)
      have "bits_of (huff_encode_tail ob (drop_bit (64 - q) buf') q) =
            bits_of ob @ buf_top p buf @ replicate (q - p) True"
        unfolding bits_of_encode_tail [OF pq(3,2)]
        using buf_top_pad [OF buf pq(1,2), folded buf'_def] unfolding buf_top_def by (simp only:)
      also have "\<dots> = (bits_of ob @ buf_top p buf) @ replicate (q - p) True"
        by simp
      finally have tail: "bits_of (huff_encode_tail ob (drop_bit (64 - q) buf') q) = bits @ replicate (q - p) True"
        unfolding bits .
      have "8 * length (huff_encode_tail ob (drop_bit (64 - q) buf') q) = 8 * n"
        using arg_cong [OF tail, of length] blen pq by simp
      with out tail n pq(4) show ?thesis
        by simp
    qed
  qed
qed

lemma huff_encode_decode:
  assumes "ngx_http_v2_huff_encode src lower \<noteq> []"
  shows "ngx_http_v2_huff_decode 0 (ngx_http_v2_huff_encode src lower) out True =
         (NGX_OK, 0, out @ lower_if lower src)"
proof -
  define bits where "bits = huff_bits (lower_if lower src)"
  define n where "n = (length bits + 7) div 8"
  have "bits_of (ngx_http_v2_huff_encode src lower) = bits @ replicate (8 * n - length bits) True"
    using huff_encode_result [where src = src and lower = lower] assms by (auto simp: bits_def n_def Let_def split: if_splits)
  moreover have "8 * n - length bits < 30"
    unfolding n_def by presburger
  ultimately show ?thesis
    unfolding huff_decode_iff bits_def by blast
qed

section \<open>Properties\<close>

text \<open>The encoder returns the code words of the (possibly lower-cased) input, padded with ones
  to a whole number of bytes, when that is shorter than the input, and nothing otherwise.\<close>

theorem huff_encode_exact:
  "let bits = huff_bits (lower_if lower src); n = (length bits + 7) div 8;
       out = ngx_http_v2_huff_encode src lower
   in if n < length src
      then length out = n \<and> bits_of out = bits @ replicate (8 * n - length bits) True
      else out = []"
  using huff_encode_result [where src = src and lower = lower] by (simp add: Let_def)

text \<open>C19: round trip.  What the encoder produces, the decoder turns back into the (possibly
  lower-cased) input.\<close>

theorem huff_roundtrip:
  assumes "ngx_http_v2_huff_encode src lower \<noteq> []"
  shows "ngx_http_v2_huff_decode 0 (ngx_http_v2_huff_encode src lower) out True =
         (NGX_OK, 0, out @ lower_if lower src)"
  by (rule huff_encode_decode [OF assms])

theorem huff_roundtrip_witness:
  "ngx_http_v2_huff_decode 0 (ngx_http_v2_huff_encode (str ''Host'') True) [] True = (NGX_OK, 0, str ''host'')"
proof -
  have "ngx_http_v2_huff_encode (str ''Host'') True \<noteq> []"
    using huff_encode_result [where src = "str ''Host''" and lower = True]
    by (auto simp: str_def lower_if_def ngx_tolower_def huff_code_def huff_entry_eqs)
  from huff_roundtrip [OF this, of "[]"] show ?thesis
    by (simp add: str_def lower_if_def ngx_tolower_def)
qed

end
