(* ===== verification/HpackInt.thy ===== *)
theory HpackInt
  imports HuffEncode
begin

text \<open>
  HPACK integers and string literals: \<open>ngx_http_v2_write_int\<close> and \<open>ngx_http_v2_string_encode\<close> of
  \<^verbatim>\<open>src/http/v2/ngx_http_v2_encode.c\<close>, and their reader \<open>ngx_http_v2_parse_int\<close> of
  \<^verbatim>\<open>src/http/v2/ngx_http_v2.c\<close>.
\<close>

section \<open>Writing\<close>

text \<open>The \<open>while (value >= 128)\<close> loop and the last octet.\<close>

function write_int_rest :: "u64 \<Rightarrow> bytes" where
  "write_int_rest value =
     (if value \<ge> 128 then ucast (value mod 128 + 128) # write_int_rest (value div 128)
      else [ucast value])"
  by pat_completeness auto
termination
  by (relation "measure unat") (auto simp: unat_div word_le_nat_alt)

declare write_int_rest.simps [simp del]

text \<open>\<open>*pos++ |= value\<close> keeps the flag bits \<open>octet\<close> that the caller has stored at \<open>*pos\<close>.\<close>

definition ngx_http_v2_write_int :: "u8 \<Rightarrow> u64 \<Rightarrow> u64 \<Rightarrow> bytes" where
  "ngx_http_v2_write_int octet prefix value =
     (if value < prefix then [octet OR ucast value]
      else (octet OR ucast prefix) # write_int_rest (value - prefix))"

definition ngx_http_v2_prefix :: "nat \<Rightarrow> u64" where
  "ngx_http_v2_prefix bits = push_bit bits 1 - 1"

section \<open>Reading\<close>

definition NGX_HTTP_V2_INT_OCTETS :: nat where
  "NGX_HTTP_V2_INT_OCTETS = 4"

text \<open>\<open>Inr (value, n)\<close>: the value, \<open>*pos\<close> advanced by \<open>n\<close>.\<close>

fun parse_int_loop :: "u64 \<Rightarrow> nat \<Rightarrow> nat \<Rightarrow> bytes \<Rightarrow> (u64 \<times> nat) option" where
  "parse_int_loop value shift n [] = None"
| "parse_int_loop value shift n (octet # p) =
     (let value = value + push_bit shift (ucast (octet AND 0x7f))
      in if octet < 128 then Some (value, Suc n) else parse_int_loop value (shift + 7) (Suc n) p)"

text \<open>
  \<open>src\<close> is the input from \<open>*pos\<close> to \<open>end\<close>, never empty; \<open>len\<close> is \<open>h2c->state.length\<close>, the rest of
  the frame's payload.  The result is an error code, or the value with the number of octets
  read and the new \<open>state.length\<close>.
\<close>

fun ngx_http_v2_parse_int :: "nat \<Rightarrow> bytes \<Rightarrow> u64 \<Rightarrow> ngx_rc + u64 \<times> nat \<times> nat" where
  "ngx_http_v2_parse_int len [] prefix = Inl NGX_AGAIN"
| "ngx_http_v2_parse_int len (octet # p) prefix =
     (let value = ucast octet AND prefix;
          avail = min (Suc (length p)) NGX_HTTP_V2_INT_OCTETS
      in if value \<noteq> prefix then (if len = 0 then Inl NGX_ERROR else Inr (value, 1, len - 1))
         else (case parse_int_loop value 0 1 (take (avail - 1) p) of
                 Some (value, n) \<Rightarrow> if n > len then Inl NGX_ERROR else Inr (value, n, len - n)
               | None \<Rightarrow> if avail \<ge> len then Inl NGX_ERROR
                          else if avail = NGX_HTTP_V2_INT_OCTETS then Inl NGX_DECLINED
                          else Inl NGX_AGAIN))"

section \<open>The string literal\<close>

definition ngx_http_v2_string_encode :: "bytes \<Rightarrow> bool \<Rightarrow> bytes" where
  "ngx_http_v2_string_encode src lower =
     (let tmp = ngx_http_v2_huff_encode src lower;
          hlen = length tmp
      in if hlen > 0 then ngx_http_v2_write_int 0x80 (ngx_http_v2_prefix 7) (word_of_nat hlen) @ tmp
         else ngx_http_v2_write_int 0 (ngx_http_v2_prefix 7) (word_of_nat (length src)) @
              (if lower then map ngx_tolower src else src))"

section \<open>Lemmas\<close>

lemma length_write_int_rest: "length (write_int_rest v) \<le> Suc k \<longleftrightarrow> unat v < 128 ^ Suc k"
proof (induction k arbitrary: v)
  case 0
  then show ?case
    by (subst write_int_rest.simps) (auto simp: word_le_nat_alt word_less_nat_alt write_int_rest.simps [of "v div 128"])
next
  case (Suc k)
  have "length (write_int_rest v) \<le> Suc (Suc k) \<longleftrightarrow> v < 128 \<or> length (write_int_rest (v div 128)) \<le> Suc k"
    by (subst write_int_rest.simps) auto
  also have "\<dots> \<longleftrightarrow> unat v < 128 \<or> unat v div 128 < 128 ^ Suc k"
    by (simp only: Suc.IH unat_div word_less_nat_alt) simp
  also have "\<dots> \<longleftrightarrow> unat v < 128 ^ Suc (Suc k)"
  proof -
    have "(128 :: nat) \<le> 128 ^ Suc (Suc k)"
      by (rule self_le_power) simp_all
    then have "unat v < 128 ^ Suc (Suc k)" if "unat v < 128"
      using that by (rule less_le_trans [rotated])
    moreover have "unat v div 128 < 128 ^ Suc k \<longleftrightarrow> unat v < 128 ^ Suc (Suc k)"
      by (simp add: div_less_iff_less_mult)
    ultimately show ?thesis by blast
  qed
  finally show ?case .
qed

lemma and_127: "w AND 0x7f = take_bit 7 w" for w :: "'a::len word"
  by (simp add: take_bit_eq_mask mask_eq_exp_minus_1)

lemma octet_more:
  fixes v :: u64
  defines "b \<equiv> (ucast (v mod 128 + 128) :: u8)"
  shows "\<not> b < 128" "ucast (b AND 0x7f) = v mod 128"
proof -
  have m: "unat (v mod 128) = unat v mod 128"
    by (simp add: unat_mod)
  have "unat (v mod 128 + 128) = unat v mod 128 + 128"
    using m by (simp add: unat_word_ariths)
  then have b: "unat b = unat v mod 128 + 128"
    by (simp add: b_def unsigned_ucast_eq take_bit_eq_mod)
  then show "\<not> b < 128"
    by (simp add: word_less_nat_alt)
  have "unat (b AND 0x7f) = unat v mod 128"
    by (simp add: and_127 unsigned_take_bit_eq b) (simp add: take_bit_eq_mod)
  then show "ucast (b AND 0x7f) = v mod 128"
    by (simp add: word_unat_eq_iff m unsigned_ucast_eq take_bit_eq_mod)
qed

lemma octet_last:
  fixes v :: u64
  assumes "v < 128"
  shows "(ucast v :: u8) < 128" "ucast ((ucast v :: u8) AND 0x7f) = v"
proof -
  have "unat v < 128"
    using assms by (simp add: word_less_nat_alt)
  then have b: "unat (ucast v :: u8) = unat v"
    by (simp add: unsigned_ucast_eq take_bit_eq_mod)
  with \<open>unat v < 128\<close> show "(ucast v :: u8) < 128"
    by (simp add: word_less_nat_alt)
  have "unat ((ucast v :: u8) AND 0x7f) = unat v"
    using \<open>unat v < 128\<close> by (simp add: and_127 unsigned_take_bit_eq b) (simp add: take_bit_eq_mod)
  then show "ucast ((ucast v :: u8) AND 0x7f) = v"
    using \<open>unat v < 128\<close> by (simp add: word_unat_eq_iff unsigned_ucast_eq take_bit_eq_mod)
qed

text \<open>Seven more bits: what one octet and the rest of the value add up to.\<close>

lemma push_bit_split: "push_bit s (v mod 128) + push_bit (s + 7) (v div 128) = push_bit s v" for v :: u64
proof -
  have "push_bit s (v mod 128) + push_bit (s + 7) (v div 128) = 2 ^ s * (v mod 128 + 128 * (v div 128))"
    by (simp add: push_bit_eq_mult power_add algebra_simps)
  also have "v mod 128 + 128 * (v div 128) = v"
    by (metis add.commute mult_div_mod_eq)
  finally show ?thesis
    by (simp add: push_bit_eq_mult mult.commute)
qed

lemma parse_int_loop_write:
  "parse_int_loop acc shift n (write_int_rest v @ rest) = Some (acc + push_bit shift v, n + length (write_int_rest v))"
proof (induction v arbitrary: acc shift n rule: write_int_rest.induct)
  case (1 v)
  show ?case
  proof (cases "v \<ge> 128")
    case True
    then show ?thesis
      using "1.IH" [OF True]
      by (subst (1 2) write_int_rest.simps) (simp add: octet_more Let_def add.assoc push_bit_split)
  next
    case False
    then show ?thesis
      by (subst (1 2) write_int_rest.simps) (simp add: octet_last Let_def)
  qed
qed

text \<open>A strict prefix of the octets leaves the loop without a value.\<close>

lemma parse_int_loop_partial:
  "m < length (write_int_rest v) \<Longrightarrow> parse_int_loop acc shift n (take m (write_int_rest v)) = None"
proof (induction v arbitrary: acc shift n m rule: write_int_rest.induct)
  case (1 v)
  show ?case
  proof (cases "v \<ge> 128")
    case True
    then show ?thesis
      using "1.IH" [OF True] "1.prems"
      by (cases m) (auto simp: write_int_rest.simps [of v] octet_more Let_def)
  next
    case False
    then show ?thesis
      using "1.prems" by (simp add: write_int_rest.simps [of v])
  qed
qed

lemma prefix_mask: "ngx_http_v2_prefix k = mask k"
  by (simp add: ngx_http_v2_prefix_def mask_eq_decr_exp push_bit_eq_mult)

lemma unat_prefix: "k \<le> 8 \<Longrightarrow> unat (ngx_http_v2_prefix k) = 2 ^ k - 1"
  by (simp add: prefix_mask unat_mask)

lemma first_octet:
  fixes v :: u64 and octet :: u8
  assumes "k \<le> 8" "octet AND mask k = 0" "v \<le> ngx_http_v2_prefix k"
  shows "ucast (octet OR ucast v) AND ngx_http_v2_prefix k = v"
    and "(octet OR ucast v) AND NOT (mask k) = octet"
proof -
  have v: "bit v i \<Longrightarrow> i < k" for i
  proof -
    have "unat v < 2 ^ k"
      using assms(3) unat_prefix [OF assms(1)] zero_less_power [of "2 :: nat" k]
      unfolding word_le_nat_alt by linarith
    then have "take_bit k v = v"
      by (simp add: word_unat_eq_iff unsigned_take_bit_eq take_bit_nat_eq_self)
    then show "bit v i \<Longrightarrow> i < k"
      by (metis bit_take_bit_iff)
  qed
  have o: "bit octet i \<Longrightarrow> \<not> i < k" for i
    using arg_cong [OF assms(2), of "\<lambda>w. bit w i"] bit_imp_le_length [of octet i]
    by (auto simp: bit_simps)
  show "ucast (octet OR ucast v) AND ngx_http_v2_prefix k = v"
  proof (rule bit_word_eqI)
    fix n
    show "bit (ucast (octet OR ucast v) AND ngx_http_v2_prefix k) n \<longleftrightarrow> bit v n"
      using v [of n] o [of n] assms(1) by (cases "n < k") (auto simp: prefix_mask bit_simps)
  qed
  show "(octet OR ucast v) AND NOT (mask k) = octet"
  proof (rule bit_word_eqI)
    fix n assume "n < LENGTH(8)"
    then show "bit ((octet OR ucast v) AND NOT (mask k)) n \<longleftrightarrow> bit octet n"
      using v [of n] o [of n] assms(1) by (cases "n < k") (auto simp: bit_simps)
  qed
qed

text \<open>The four octets at most that the reader accepts.\<close>

definition int_limit :: "nat \<Rightarrow> nat" where
  "int_limit k = 2 ^ k - 1 + 2 ^ 21"

lemma length_write_int:
  assumes "k \<le> 8" "unat v < int_limit k"
  shows "length (ngx_http_v2_write_int octet (ngx_http_v2_prefix k) v) \<le> 4"
proof -
  have "length (write_int_rest (v - ngx_http_v2_prefix k)) \<le> Suc 2" if "\<not> v < ngx_http_v2_prefix k"
    using that assms
    by (simp only: length_write_int_rest unat_sub not_less unat_prefix) (simp add: int_limit_def)
  then show ?thesis
    by (auto simp: ngx_http_v2_write_int_def)
qed

section \<open>Properties\<close>

lemma parse_write_int:
  assumes "k \<le> 8" "octet AND mask k = 0"
    and "w = ngx_http_v2_write_int octet (ngx_http_v2_prefix k) v" "length w \<le> 4"
  shows "ngx_http_v2_parse_int len (w @ rest) (ngx_http_v2_prefix k) =
    (if length w > len then Inl NGX_ERROR else Inr (v, length w, len - length w))"
proof (cases "v < ngx_http_v2_prefix k")
  case True
  then show ?thesis
    using first_octet(1) [OF assms(1,2), of v] assms(3)
    by (auto simp: ngx_http_v2_write_int_def Let_def)
next
  case False
  let ?p = "ngx_http_v2_prefix k"
  define t where "t = write_int_rest (v - ?p)"
  have w: "w = (octet OR ucast ?p) # t"
    using False assms(3) by (simp add: ngx_http_v2_write_int_def t_def)
  have len: "length t \<le> 3"
    using assms(4) w by simp
  define m where "m = min (Suc (length (t @ rest))) NGX_HTTP_V2_INT_OCTETS - 1"
  have m: "take m (t @ rest) = t @ take (m - length t) rest"
    using len by (simp add: m_def NGX_HTTP_V2_INT_OCTETS_def)
  have "parse_int_loop ?p 0 1 (take m (t @ rest)) = Some (v, Suc (length t))"
    unfolding m unfolding t_def parse_int_loop_write by simp
  moreover have "ucast (octet OR ucast ?p) AND ?p = ?p"
    using first_octet(1) [OF assms(1,2), of ?p] by simp
  ultimately show ?thesis
    unfolding w append_Cons ngx_http_v2_parse_int.simps Let_def m_def [symmetric] by simp
qed

lemma write_parse_int:
  assumes "k \<le> 8" "octet AND mask k = 0" "unat v < int_limit k"
    and "w = ngx_http_v2_write_int octet (ngx_http_v2_prefix k) v" "length w \<le> len"
  shows "ngx_http_v2_parse_int len (w @ rest) (ngx_http_v2_prefix k) = Inr (v, length w, len - length w) \<and>
    hd w AND NOT (mask k) = octet"
proof
  have "length w \<le> 4"
    using length_write_int [OF assms(1,3)] assms(4) by simp
  with assms show "ngx_http_v2_parse_int len (w @ rest) (ngx_http_v2_prefix k) = Inr (v, length w, len - length w)"
    by (simp add: parse_write_int)
  show "hd w AND NOT (mask k) = octet"
    unfolding assms(4) ngx_http_v2_write_int_def
    using first_octet(2) [OF assms(1,2), of v] first_octet(2) [OF assms(1,2), of "ngx_http_v2_prefix k"]
    by (cases "v < ngx_http_v2_prefix k") simp_all
qed

lemma parse_int_loop_bounds:
  assumes "parse_int_loop v s n p = Some (v', n')" "unat v + 2 ^ (s + 7 * length p) < 2 ^ 64 + 2 ^ s"
  shows "unat v' + 2 ^ s \<le> unat v + 2 ^ (s + 7 * length p) \<and> n < n' \<and> n' \<le> n + length p"
  using assms
proof (induction p arbitrary: v s n)
  case Nil
  then show ?case by simp
next
  case (Cons octet p)
  define w where "w = (ucast (octet AND 0x7f) :: u64)"
  have c: "unat w < 128"
    by (simp add: w_def and_127 unsigned_ucast_eq unsigned_take_bit_eq) (simp add: take_bit_eq_mod)
  have exp: "s + 7 * length (octet # p) = s + 7 + 7 * length p" by simp
  have "Suc (unat w) * 2 ^ s \<le> 128 * 2 ^ s"
    using c by (intro mult_le_mono1) simp
  then have c2: "unat w * 2 ^ s + 2 ^ s \<le> 2 ^ (s + 7)"
    by (simp add: power_add)
  have pow: "(2 :: nat) ^ (s + 7) \<le> 2 ^ (s + 7 + 7 * length p)"
    by (rule power_increasing) simp_all
  with c2 have "unat v + unat w * 2 ^ s < 2 ^ 64" and
    next_pre: "unat v + unat w * 2 ^ s + 2 ^ (s + 7 + 7 * length p) < 2 ^ 64 + 2 ^ (s + 7)"
    using Cons.prems(2) unfolding exp by linarith+
  then have v1: "unat (v + push_bit s w) = unat v + unat w * 2 ^ s"
    using unat_push_bit [of w s] by (simp add: unat_add_no_wrap)
  show ?case
  proof (cases "octet < 128")
    case True
    then have "v' = v + push_bit s w" "n' = Suc n"
      using Cons.prems(1) by (simp_all add: w_def Let_def)
    moreover have "unat w * 2 ^ s + 2 ^ s \<le> 2 ^ (s + 7 + 7 * length p)"
      using c2 pow by (rule order_trans)
    ultimately show ?thesis
      unfolding exp using v1 by simp
  next
    case False
    have loop: "parse_int_loop (v + push_bit s w) (s + 7) (Suc n) p = Some (v', n')"
      using Cons.prems(1) False by (simp add: w_def Let_def)
    from Cons.IH [OF loop] next_pre v1 c2 show ?thesis
      unfolding exp by simp
  qed
qed

section \<open>Properties\<close>

text \<open>Round trip.  An integer below the limit of four octets that was written behind the flag bits
  of an octet is read back, whatever follows it, and the flag bits are kept.\<close>

theorem hpack_int_roundtrip:
  assumes "k \<le> 8" "octet AND mask k = 0" "unat v < int_limit k"
    and "w = ngx_http_v2_write_int octet (ngx_http_v2_prefix k) v" "length w \<le> len"
  shows "ngx_http_v2_parse_int len (w @ rest) (ngx_http_v2_prefix k) = Inr (v, length w, len - length w) \<and>
    hd w AND NOT (mask k) = octet"
  by (rule write_parse_int [OF assms])

theorem hpack_int_roundtrip_witness:
  "ngx_http_v2_parse_int 10 (ngx_http_v2_write_int 0x80 (ngx_http_v2_prefix 7) 1337 @ [1, 2]) (ngx_http_v2_prefix 7) =
   Inr (1337, 3, 7)"
proof -
  have "length (ngx_http_v2_write_int 0x80 (ngx_http_v2_prefix 7) 1337) = 3"
    by (simp add: ngx_http_v2_write_int_def ngx_http_v2_prefix_def write_int_rest.simps)
  moreover have "(0x80 :: u8) AND mask 7 = 0" "unat (1337 :: u64) < int_limit 7"
    by (simp_all add: mask_eq_exp_minus_1 int_limit_def)
  ultimately show ?thesis
    using hpack_int_roundtrip [where k = 7 and octet = "0x80" and v = 1337 and len = 10 and rest = "[1, 2]", OF _ _ _ refl]
    by simp
qed

text \<open>C39: what is read is below the limit, so nothing wrapped around; it was really there, and the
  rest of the payload is counted down by the octets read.\<close>

theorem hpack_int_bounds:
  assumes "k \<le> 8" "ngx_http_v2_parse_int len src (ngx_http_v2_prefix k) = Inr (v, n, len')"
  shows "unat v < int_limit k \<and> 0 < n \<and> n \<le> 4 \<and> n \<le> length src \<and> len = n + len'"
proof (cases src)
  case Nil
  with assms(2) show ?thesis by simp
next
  case (Cons octet p)
  let ?p = "ngx_http_v2_prefix k"
  note prefix = unat_prefix [OF assms(1)]
  define m where "m = min (Suc (length p)) NGX_HTTP_V2_INT_OCTETS - 1"
  have m: "m \<le> 3" "m \<le> length p"
    by (auto simp: m_def NGX_HTTP_V2_INT_OCTETS_def)
  show ?thesis
  proof (cases "ucast octet AND ?p = ?p")
    case False
    then have "v = ucast octet AND ?p" "n = 1" "len = Suc len'"
      using assms(2) unfolding Cons by (auto simp: Let_def split: if_splits)
    moreover have "unat (ucast octet AND ?p) \<le> unat ?p"
      by (rule word_and_le1 [THEN word_le_nat_alt [THEN iffD1]])
    ultimately show ?thesis
      unfolding prefix by (simp add: int_limit_def Cons)
  next
    case True
    then have loop: "parse_int_loop ?p 0 1 (take m p) = Some (v, n)" and len: "len = n + len'"
      using assms(2) unfolding Cons ngx_http_v2_parse_int.simps Let_def m_def [symmetric]
      by (auto split: option.splits if_splits)
    have "(2 :: nat) ^ k \<le> 2 ^ 8"
      using assms(1) by (rule power_increasing) simp
    moreover have "(2 :: nat) ^ (7 * m) \<le> 2 ^ 21"
      using m(1) by (intro power_increasing) simp_all
    ultimately have "2 ^ k - 1 + 2 ^ (7 * m) < (2 :: nat) ^ 64 + 1" and
      lim: "2 ^ k - 1 + 2 ^ (7 * m) \<le> int_limit k"
      by (simp_all add: int_limit_def)
    then have "Suc (unat v) \<le> 2 ^ k - 1 + 2 ^ (7 * m) \<and> 1 < n \<and> n \<le> Suc m"
      using parse_int_loop_bounds [OF loop] m(2) by (simp add: prefix min_absorb2)
    with lim m len show ?thesis
      unfolding Cons by simp
  qed
qed

theorem hpack_int_bounds_witness:
  "ngx_http_v2_parse_int 9 [0xff, 0x9a, 0x0a, 0x41] (ngx_http_v2_prefix 7) = Inr (1433, 3, 6) \<and>
   unat (1433 :: u64) < int_limit 7"
proof -
  have "ngx_http_v2_parse_int 9 [0xff, 0x9a, 0x0a, 0x41] (ngx_http_v2_prefix 7) = Inr (1433, 3, 6)"
    by (simp add: ngx_http_v2_prefix_def NGX_HTTP_V2_INT_OCTETS_def Let_def)
  with hpack_int_bounds [OF _ this] show ?thesis
    by simp
qed

text \<open>An integer that needs a fifth octet is refused.\<close>

theorem hpack_int_too_long:
  assumes "k \<le> 8" "octet AND mask k = 0" "int_limit k \<le> unat v" "4 < len"
    and "w = ngx_http_v2_write_int octet (ngx_http_v2_prefix k) v"
  shows "ngx_http_v2_parse_int len (w @ rest) (ngx_http_v2_prefix k) = Inl NGX_DECLINED"
proof -
  let ?p = "ngx_http_v2_prefix k"
  have ge: "\<not> v < ?p"
    using assms(3) unat_prefix [OF assms(1)] by (simp add: word_less_nat_alt int_limit_def)
  define t where "t = write_int_rest (v - ?p)"
  have w: "w = (octet OR ucast ?p) # t"
    using ge assms(5) by (simp add: ngx_http_v2_write_int_def t_def)
  have "\<not> length t \<le> Suc 2"
    using ge assms(1,3) unfolding t_def length_write_int_rest
    by (simp add: unat_sub not_less unat_prefix int_limit_def)
  then have t: "3 < length t"
    by simp
  then have "parse_int_loop ?p 0 1 (take 3 (t @ rest)) = None"
    using parse_int_loop_partial [of 3 "v - ?p"] by (simp add: t_def)
  moreover have "min (Suc (length (t @ rest))) NGX_HTTP_V2_INT_OCTETS = 4"
    using t by (simp add: NGX_HTTP_V2_INT_OCTETS_def)
  moreover have "ucast (octet OR ucast ?p) AND ?p = ?p"
    using first_octet(1) [OF assms(1,2), of ?p] by simp
  ultimately show ?thesis
    using assms(4) unfolding w append_Cons ngx_http_v2_parse_int.simps Let_def
    by (simp add: NGX_HTTP_V2_INT_OCTETS_def)
qed

theorem hpack_int_too_long_witness:
  "ngx_http_v2_parse_int 100 (ngx_http_v2_write_int 0 (ngx_http_v2_prefix 5) 2097183 @ [7]) (ngx_http_v2_prefix 5) =
   Inl NGX_DECLINED"
  by (rule hpack_int_too_long [OF _ _ _ _ refl]) (simp_all add: int_limit_def)

text \<open>An integer that is not there completely yet asks for more input, whatever the cut.\<close>

theorem hpack_int_incomplete:
  assumes "k \<le> 8" "octet AND mask k = 0" "unat v < int_limit k"
    and "w = ngx_http_v2_write_int octet (ngx_http_v2_prefix k) v"
    and "0 < m" "m < length w" "length w \<le> len"
  shows "ngx_http_v2_parse_int len (take m w) (ngx_http_v2_prefix k) = Inl NGX_AGAIN"
proof -
  let ?p = "ngx_http_v2_prefix k"
  have "length w \<le> 4"
    using length_write_int [OF assms(1,3)] assms(4) by simp
  have ge: "\<not> v < ?p"
    using assms(4,5,6) by (auto simp: ngx_http_v2_write_int_def)
  define t where "t = write_int_rest (v - ?p)"
  obtain j where m: "m = Suc j"
    using assms(5) by (cases m) auto
  have w: "w = (octet OR ucast ?p) # t"
    using ge assms(4) by (simp add: ngx_http_v2_write_int_def t_def)
  then have j: "j < length t" "length t \<le> 3"
    using assms(6) m \<open>length w \<le> 4\<close> by simp_all
  then have "parse_int_loop ?p 0 1 (take j t) = None"
    using parse_int_loop_partial [of j "v - ?p"] by (simp add: t_def)
  moreover have "ucast (octet OR ucast ?p) AND ?p = ?p"
    using first_octet(1) [OF assms(1,2), of ?p] by simp
  moreover have "min (Suc (length (take j t))) NGX_HTTP_V2_INT_OCTETS = Suc j"
    using j by (simp add: NGX_HTTP_V2_INT_OCTETS_def)
  ultimately show ?thesis
    using assms(7) j unfolding m w take_Suc_Cons ngx_http_v2_parse_int.simps Let_def
    by (simp add: NGX_HTTP_V2_INT_OCTETS_def)
qed

theorem hpack_int_incomplete_witness:
  "ngx_http_v2_parse_int 10 (take 2 (ngx_http_v2_write_int 0x80 (ngx_http_v2_prefix 7) 1337)) (ngx_http_v2_prefix 7) =
   Inl NGX_AGAIN"
proof -
  have len: "length (ngx_http_v2_write_int 0x80 (ngx_http_v2_prefix 7) 1337) = 3"
    by (simp add: ngx_http_v2_write_int_def ngx_http_v2_prefix_def write_int_rest.simps)
  show ?thesis
    by (rule hpack_int_incomplete [OF _ _ _ refl]) (simp_all add: int_limit_def mask_eq_exp_minus_1 len)
qed

end
