(* ===== verification/HpackField.thy ===== *)
theory HpackField
  imports HpackInt
begin

text \<open>
  How the HTTP/2 input state machine of \<^verbatim>\<open>src/http/v2/ngx_http_v2.c\<close> reads one string literal of
  a header block: \<open>ngx_http_v2_state_field_len\<close> and the three handlers it continues with.  A
  handler consumes part of its input and either has the whole field (\<open>Process_header\<close>), waits
  for more bytes of the frame (\<open>Save\<close>), waits for a CONTINUATION frame (\<open>Continuation\<close>) or
  closes the connection with an error.
\<close>

section \<open>State and outcomes\<close>

datatype h2_error = NGX_HTTP_V2_NO_ERROR | NGX_HTTP_V2_PROTOCOL_ERROR | NGX_HTTP_V2_INTERNAL_ERROR
  | NGX_HTTP_V2_FLOW_CTRL_ERROR | NGX_HTTP_V2_STREAM_CLOSED | NGX_HTTP_V2_SIZE_ERROR | NGX_HTTP_V2_REFUSED_STREAM
  | NGX_HTTP_V2_COMP_ERROR | NGX_HTTP_V2_ENHANCE_YOUR_CALM

datatype field_handler = Field_len | Field_huff | Field_raw | Field_skip

datatype field_result = Process_header | Save field_handler | Continuation field_handler
  | Connection_error h2_error

text \<open>
  The fields of \<open>ngx_http_v2_state_t\<close> that the handlers use.  \<open>field\<close> are the bytes between
  \<open>field_start\<close> and \<open>field_end\<close>; \<open>field_alloc\<close> is the size of the allocation that holds them.
\<close>

record h2_state =
  st_length :: nat
  end_headers :: bool
  index :: bool
  has_stream :: bool
  field_rest :: nat
  field_state :: u8
  field :: bytes
  field_alloc :: nat

section \<open>Handlers\<close>

text \<open>How much a handler may take: what is there, what the field needs, what the frame has.\<close>

definition field_size :: "h2_state \<Rightarrow> bytes \<Rightarrow> nat" where
  "field_size st src = min (min (length src) (field_rest st)) (st_length st)"

definition take_field :: "h2_state \<Rightarrow> bytes \<Rightarrow> h2_state" where
  "take_field st src =
     st\<lparr>st_length := st_length st - field_size st src, field_rest := field_rest st - field_size st src\<rparr>"

text \<open>The common end of the handlers: the field is complete, or where the rest will come from.\<close>

definition field_next :: "h2_state \<Rightarrow> field_handler \<Rightarrow> field_result" where
  "field_next st h =
     (if field_rest st = 0 then Process_header
      else if st_length st \<noteq> 0 then Save h
      else if end_headers st then Connection_error NGX_HTTP_V2_SIZE_ERROR
      else Continuation h)"

definition ngx_http_v2_state_field_huff :: "h2_state \<Rightarrow> bytes \<Rightarrow> h2_state \<times> bytes \<times> field_result" where
  "ngx_http_v2_state_field_huff st src =
     (let size = field_size st src;
          st1 = take_field st src
      in case ngx_http_v2_huff_decode (field_state st1) (take size src) (field st1) (field_rest st1 = 0) of
           (rc, s, out) \<Rightarrow>
             let st2 = st1\<lparr>field_state := s, field := out\<rparr>
             in if rc \<noteq> NGX_OK then (st2, src, Connection_error NGX_HTTP_V2_COMP_ERROR)
                else (st2, drop size src, field_next st2 Field_huff))"

definition ngx_http_v2_state_field_raw :: "h2_state \<Rightarrow> bytes \<Rightarrow> h2_state \<times> bytes \<times> field_result" where
  "ngx_http_v2_state_field_raw st src =
     (let size = field_size st src;
          st1 = (take_field st src)\<lparr>field := field st @ take size src\<rparr>
      in (st1, drop size src, field_next st1 Field_raw))"

definition ngx_http_v2_state_field_skip :: "h2_state \<Rightarrow> bytes \<Rightarrow> h2_state \<times> bytes \<times> field_result" where
  "ngx_http_v2_state_field_skip st src =
     (let size = field_size st src;
          st1 = take_field st src
      in (st1, drop size src, field_next st1 Field_skip))"

text \<open>
  \<open>max_field_size\<close> is the configured \<open>http2_max_field_size\<close>, \<open>alloc_ok\<close> tells whether the pool
  allocation of the field succeeds.
\<close>

definition ngx_http_v2_state_field_len ::
    "nat \<Rightarrow> bool \<Rightarrow> h2_state \<Rightarrow> bytes \<Rightarrow> h2_state \<times> bytes \<times> field_result" where
  "ngx_http_v2_state_field_len max_field_size alloc_ok st src =
     (if \<not> end_headers st \<and> st_length st < NGX_HTTP_V2_INT_OCTETS then (st, src, Continuation Field_len)
      else if st_length st < 1 then (st, src, Connection_error NGX_HTTP_V2_SIZE_ERROR)
      else if length src < 1 then (st, src, Save Field_len)
      else (let huff = drop_bit 7 (hd src) \<noteq> 0
            in case ngx_http_v2_parse_int (st_length st) src (ngx_http_v2_prefix 7) of
                 Inl rc \<Rightarrow>
                   (st, src,
                    if rc = NGX_AGAIN then Save Field_len
                    else if rc = NGX_DECLINED then Connection_error NGX_HTTP_V2_COMP_ERROR
                    else Connection_error NGX_HTTP_V2_SIZE_ERROR)
               | Inr (len, n, st_len) \<Rightarrow>
                   let pos = drop n src;
                       st1 = st\<lparr>st_length := st_len\<rparr>
                   in if unat len > max_field_size
                      then (st1, pos, Connection_error NGX_HTTP_V2_ENHANCE_YOUR_CALM)
                      else let st2 = st1\<lparr>field_rest := unat len\<rparr>
                           in if \<not> has_stream st2 \<and> \<not> index st2 then ngx_http_v2_state_field_skip st2 pos
                              else if \<not> alloc_ok then (st2, pos, Connection_error NGX_HTTP_V2_INTERNAL_ERROR)
                              else let st3 = st2\<lparr>field_alloc := (if huff then unat len * 8 div 5 else unat len) + 1,
                                                 field := []\<rparr>
                                   in if huff then ngx_http_v2_state_field_huff st3 pos
                                      else ngx_http_v2_state_field_raw st3 pos))"

section \<open>Lemmas\<close>

lemma take_field_sel [simp]:
  "st_length (take_field st src) = st_length st - field_size st src"
  "field_rest (take_field st src) = field_rest st - field_size st src"
  "field_state (take_field st src) = field_state st"
  "field (take_field st src) = field st"
  "field_alloc (take_field st src) = field_alloc st"
  "end_headers (take_field st src) = end_headers st"
  by (simp_all add: take_field_def)

lemma field_size_frame [simp]: "field_size (st\<lparr>field_state := s, field := out\<rparr>) src = field_size st src"
  by (simp add: field_size_def)

lemma take_field_frame [simp]:
  "take_field (st\<lparr>field_state := s, field := out\<rparr>) src = (take_field st src)\<lparr>field_state := s, field := out\<rparr>"
  by (simp add: take_field_def)

lemma field_size_le:
  "field_size st src \<le> length src" "field_size st src \<le> field_rest st" "field_size st src \<le> st_length st"
  by (simp_all add: field_size_def)

text \<open>
  The room invariant: what has been written and the most that can still be written fit in the
  allocation, with one byte left for the terminating NUL.  A Huffman-coded octet yields at most
  8/5 bytes.
\<close>

definition field_room :: "bool \<Rightarrow> h2_state \<Rightarrow> bool" where
  "field_room huff st \<longleftrightarrow> 0 < field_alloc st \<and>
     (if huff
      then 5 * length (field st) + length (huff_path (field_state st)) + 8 * field_rest st < 5 * field_alloc st
      else length (field st) + field_rest st < field_alloc st)"

lemma huff_decode_room_gen:
  assumes "ngx_http_v2_huff_decode s src out is_last = (rc, s', out')"
  shows "5 * length out' + length (huff_path s') \<le> 5 * length out + length (huff_path s) + 8 * length src"
proof -
  obtain rc' d' where loop: "huff_decode_loop src \<lparr>dstate = s, dending = 1, dst = out\<rparr> = (rc', d')"
    and "out' = dst d'" "s' = dstate d' \<or> s' = 0"
    using assms by (auto simp: ngx_http_v2_huff_decode_def split: prod.splits if_splits)
  with huff_decode_loop_room [OF loop] show ?thesis
    by (auto simp: huff_path_0)
qed

lemma field_room_huff:
  assumes "field_room True st" "ngx_http_v2_state_field_huff st src = (st', rest, res)"
  shows "field_room True st'"
proof -
  let ?n = "field_size st src"
  obtain rc s out where dec: "ngx_http_v2_huff_decode (field_state st) (take ?n src) (field st)
      (field_rest st - ?n = 0) = (rc, s, out)"
    using prod_cases3 by blast
  then have st': "st' = (take_field st src)\<lparr>field_state := s, field := out\<rparr>"
    using assms(2) by (auto simp: ngx_http_v2_state_field_huff_def Let_def split: if_splits)
  have "length (take ?n src) = ?n"
    using field_size_le(1) by simp
  moreover obtain r where "field_rest st = ?n + r"
    using field_size_le(2) le_Suc_ex by blast
  ultimately show ?thesis
    using huff_decode_room_gen [OF dec] assms(1) by (simp add: st' field_room_def)
qed

lemma field_room_raw:
  assumes "field_room False st" "ngx_http_v2_state_field_raw st src = (st', rest, res)"
  shows "field_room False st'"
  using assms field_size_le [of st src]
  by (auto simp: field_room_def ngx_http_v2_state_field_raw_def Let_def)

text \<open>Which handler \<open>ngx_http_v2_state_field_len\<close> hands a stored field to, and in which state.\<close>

lemma field_len_cases:
  assumes "ngx_http_v2_state_field_len max_field_size alloc_ok st src = (st', rest, res)"
    and "has_stream st \<or> index st"
  obtains (error) e where "res = Connection_error e"
  | (wait) "st' = st" "rest = src" "res = Save Field_len \<or> res = Continuation Field_len"
  | (field) len n st_len st3 where
      "ngx_http_v2_parse_int (st_length st) src (ngx_http_v2_prefix 7) = Inr (len, n, st_len)"
      "st3 = st\<lparr>st_length := st_len, field_rest := unat len,
                field_alloc := (if drop_bit 7 (hd src) \<noteq> 0 then unat len * 8 div 5 else unat len) + 1,
                field := []\<rparr>"
      "(st', rest, res) = (if drop_bit 7 (hd src) \<noteq> 0 then ngx_http_v2_state_field_huff st3 (drop n src)
                           else ngx_http_v2_state_field_raw st3 (drop n src))"
  using assms unfolding ngx_http_v2_state_field_len_def Let_def
  by (auto split: if_splits sum.splits prod.splits)

text \<open>
  The states in which a stored field is read: first \<open>ngx_http_v2_state_field_len\<close>, then the
  handler it saved, on further input of the same frame (\<open>Save\<close>) or of a CONTINUATION frame,
  which sets a new payload length and flag.
\<close>

inductive field_reach :: "h2_state \<Rightarrow> field_result \<Rightarrow> bool" where
  start: "field_state st = 0 \<Longrightarrow> has_stream st \<or> index st \<Longrightarrow>
    ngx_http_v2_state_field_len max_field_size alloc_ok st src = (st', rest, res) \<Longrightarrow>
    res = Process_header \<or> (\<exists>h. h \<noteq> Field_len \<and> (res = Save h \<or> res = Continuation h)) \<Longrightarrow>
    field_reach st' res"
| huff: "field_reach st res \<Longrightarrow> res = Save Field_huff \<Longrightarrow>
    ngx_http_v2_state_field_huff st src = (st', rest, res') \<Longrightarrow> field_reach st' res'"
| huff_cont: "field_reach st res \<Longrightarrow> res = Continuation Field_huff \<Longrightarrow>
    ngx_http_v2_state_field_huff (st\<lparr>st_length := l, end_headers := e\<rparr>) src = (st', rest, res') \<Longrightarrow>
    field_reach st' res'"
| raw: "field_reach st res \<Longrightarrow> res = Save Field_raw \<Longrightarrow>
    ngx_http_v2_state_field_raw st src = (st', rest, res') \<Longrightarrow> field_reach st' res'"
| raw_cont: "field_reach st res \<Longrightarrow> res = Continuation Field_raw \<Longrightarrow>
    ngx_http_v2_state_field_raw (st\<lparr>st_length := l, end_headers := e\<rparr>) src = (st', rest, res') \<Longrightarrow>
    field_reach st' res'"

definition field_reach_inv :: "h2_state \<Rightarrow> field_result \<Rightarrow> bool" where
  "field_reach_inv st res \<longleftrightarrow>
     (res \<in> {Save Field_huff, Continuation Field_huff} \<longrightarrow> field_room True st) \<and>
     (res \<in> {Save Field_raw, Continuation Field_raw} \<longrightarrow> field_room False st) \<and>
     length (field st) < field_alloc st"

lemma field_roomD: "field_room huff st \<Longrightarrow> length (field st) < field_alloc st"
  by (auto simp: field_room_def split: if_splits)

lemma handler_result_huff:
  "ngx_http_v2_state_field_huff st src = (st', rest, res) \<Longrightarrow>
   res \<notin> {Save Field_raw, Continuation Field_raw}"
  by (auto simp: ngx_http_v2_state_field_huff_def Let_def field_next_def split: prod.splits if_splits)

lemma handler_result_raw:
  "ngx_http_v2_state_field_raw st src = (st', rest, res) \<Longrightarrow>
   res \<notin> {Save Field_huff, Continuation Field_huff}"
  by (auto simp: ngx_http_v2_state_field_raw_def Let_def field_next_def split: if_splits)

lemma inv_huff:
  "field_room True st \<Longrightarrow> ngx_http_v2_state_field_huff st src = (st', rest, res) \<Longrightarrow> field_reach_inv st' res"
  using field_room_huff handler_result_huff field_roomD unfolding field_reach_inv_def by blast

lemma inv_raw:
  "field_room False st \<Longrightarrow> ngx_http_v2_state_field_raw st src = (st', rest, res) \<Longrightarrow> field_reach_inv st' res"
  using field_room_raw handler_result_raw field_roomD unfolding field_reach_inv_def by blast

lemma field_reach_invD:
  "field_reach_inv st (Save Field_huff) \<Longrightarrow> field_room True st"
  "field_reach_inv st (Continuation Field_huff) \<Longrightarrow> field_room True st"
  "field_reach_inv st (Save Field_raw) \<Longrightarrow> field_room False st"
  "field_reach_inv st (Continuation Field_raw) \<Longrightarrow> field_room False st"
  by (simp_all add: field_reach_inv_def)

lemma field_room_frame [simp]: "field_room huff (st\<lparr>st_length := l, end_headers := e\<rparr>) = field_room huff st"
  by (simp add: field_room_def)

lemmas inv_cont =
  inv_huff [of "st\<lparr>st_length := l, end_headers := e\<rparr>" for st l e, unfolded field_room_frame]
  inv_raw [of "st\<lparr>st_length := l, end_headers := e\<rparr>" for st l e, unfolded field_room_frame]

lemma field_reach_invariant: "field_reach st res \<Longrightarrow> field_reach_inv st res"
proof (induction rule: field_reach.induct)
  case (start st max_field_size alloc_ok src st' rest res)
  from start(3,2) show ?case
  proof (cases rule: field_len_cases)
    case (field len n st_len st3)
    have "field_room (drop_bit 7 (hd src) \<noteq> 0) st3"
      using start(1) unfolding field(2) field_room_def by (simp add: huff_path_0) linarith
    with field(3) [symmetric] show ?thesis
      by (cases "drop_bit 7 (hd src) \<noteq> 0") (auto intro: inv_huff inv_raw)
  qed (use start(4) in auto)
qed (auto dest: field_reach_invD intro: inv_huff inv_raw inv_cont)

section \<open>Properties\<close>

text \<open>C17: whatever the client sends, in whatever pieces, a field and its terminating NUL fit in the
  memory allocated for it.\<close>

theorem field_no_overflow:
  assumes "field_reach st res"
  shows "length (field st) < field_alloc st"
  using field_reach_invariant [OF assms] by (simp add: field_reach_inv_def)

theorem field_no_overflow_witness:
  "\<exists>st res. field_reach st res \<and> res = Process_header \<and> field st = str ''a'' \<and> length (field st) < field_alloc st"
proof -
  define st where "st = \<lparr>st_length = 2, end_headers = True, index = False, has_stream = True,
    field_rest = 0, field_state = 0, field = [], field_alloc = 0\<rparr>"
  define st' where "st' = \<lparr>st_length = 0, end_headers = True, index = False, has_stream = True,
    field_rest = 0, field_state = 0, field = str ''a'', field_alloc = 2\<rparr>"
  have "ngx_http_v2_state_field_len 100 True st [0x01, 0x61] = (st', [], Process_header)"
    by (simp add: st_def st'_def ngx_http_v2_state_field_len_def ngx_http_v2_state_field_raw_def Let_def
        ngx_http_v2_prefix_def field_size_def take_field_def field_next_def str_def)
  then have "field_reach st' Process_header"
    by (rule field_reach.start [rotated 2]) (simp_all add: st_def)
  with field_no_overflow [OF this] show ?thesis
    by (intro exI [of _ st'] exI [of _ Process_header]) (simp add: st'_def)
qed

text \<open>
  Round trip of a string literal: what \<open>ngx_http_v2_string_encode\<close> writes,
  \<open>ngx_http_v2_state_field_len\<close> reads back, leaving the input that follows.
\<close>

lemma string_encode_split:
  assumes "length src < int_limit 7"
  obtains octet body where
    "ngx_http_v2_string_encode src lower =
       ngx_http_v2_write_int octet (ngx_http_v2_prefix 7) (word_of_nat (length body)) @ body"
    "octet AND mask 7 = 0" "length body \<le> length src"
    "octet = 0x80 \<and> body = ngx_http_v2_huff_encode src lower \<and> body \<noteq> [] \<or> octet = 0 \<and> body = lower_if lower src"
proof (cases "ngx_http_v2_huff_encode src lower = []")
  case True
  show thesis
    by (rule that [of 0 "lower_if lower src"])
      (simp_all add: ngx_http_v2_string_encode_def Let_def True lower_if_def)
next
  case False
  have "length (ngx_http_v2_huff_encode src lower) \<le> length src"
    using huff_encode_result [where src = src and lower = lower] False by (auto split: if_splits)
  then show thesis
    using False by (intro that [of "0x80" "ngx_http_v2_huff_encode src lower"])
      (simp_all add: ngx_http_v2_string_encode_def Let_def mask_eq_exp_minus_1)
qed

lemma high_bit: "drop_bit 7 octet \<noteq> 0 \<longleftrightarrow> octet AND NOT (mask 7) \<noteq> 0" for octet :: u8
proof -
  have "push_bit 7 (drop_bit 7 octet) = octet AND NOT (mask 7)"
  proof (rule bit_word_eqI)
    fix n assume "n < LENGTH(8)"
    then show "bit (push_bit 7 (drop_bit 7 octet)) n \<longleftrightarrow> bit (octet AND NOT (mask 7)) n"
      by (cases "n = 7") (auto simp: bit_simps)
  qed
  moreover have "drop_bit 7 octet = drop_bit 7 (octet AND NOT (mask 7))"
    by (rule bit_word_eqI) (auto simp: bit_simps dest: bit_imp_le_length)
  ultimately show ?thesis
    by (metis drop_bit_of_0 push_bit_of_0)
qed

lemma field_size_full:
  "field_rest st = n \<Longrightarrow> n \<le> length src \<Longrightarrow> n \<le> st_length st \<Longrightarrow> field_size st src = n"
  by (simp add: field_size_def)

text \<open>The handlers on a field that is completely there.\<close>

lemma field_huff_complete:
  assumes "field_rest st = length body" "length body \<le> st_length st"
    and "ngx_http_v2_huff_decode (field_state st) body (field st) True = (NGX_OK, s, out)"
  shows "ngx_http_v2_state_field_huff st (body @ rest) =
    (st\<lparr>st_length := st_length st - length body, field_rest := 0, field_state := s, field := out\<rparr>, rest, Process_header)"
  using assms field_size_full [of st "length body" "body @ rest"]
  by (simp add: ngx_http_v2_state_field_huff_def Let_def field_next_def take_field_def)

lemma field_raw_complete:
  assumes "field_rest st = length body" "length body \<le> st_length st"
  shows "ngx_http_v2_state_field_raw st (body @ rest) =
    (st\<lparr>st_length := st_length st - length body, field_rest := 0, field := field st @ body\<rparr>, rest, Process_header)"
  using assms field_size_full [of st "length body" "body @ rest"]
  by (simp add: ngx_http_v2_state_field_raw_def Let_def field_next_def take_field_def)

text \<open>C16: round trip of a string literal.  What \<open>ngx_http_v2_string_encode\<close> writes,
  \<open>ngx_http_v2_state_field_len\<close> reads back, leaving the input that follows.\<close>

theorem field_roundtrip:
  fixes src lower
  defines "e \<equiv> ngx_http_v2_string_encode src lower"
  assumes size: "length src < int_limit 7" "length src \<le> max_field_size"
    and frame: "length e \<le> st_length st" "end_headers st \<or> 4 \<le> st_length st"
    and st: "has_stream st \<or> index st" "field_state st = 0"
    and run: "ngx_http_v2_state_field_len max_field_size True st (e @ rest) = (st', rest', res)"
  shows "res = Process_header \<and> rest' = rest \<and> field st' = lower_if lower src \<and>
    st_length st' = st_length st - length e \<and> field_state st' = 0"
proof -
  obtain octet body where e: "e = ngx_http_v2_write_int octet (ngx_http_v2_prefix 7) (word_of_nat (length body)) @ body"
    and octet: "octet AND mask 7 = 0" and body: "length body \<le> length src"
    and kind: "octet = 0x80 \<and> body = ngx_http_v2_huff_encode src lower \<and> body \<noteq> [] \<or>
               octet = 0 \<and> body = lower_if lower src"
    using string_encode_split [OF size(1)] unfolding e_def by blast
  define w where "w = ngx_http_v2_write_int octet (ngx_http_v2_prefix 7) (word_of_nat (length body))"
  have blen: "unat (word_of_nat (length body) :: u64) = length body"
    using body size(1) by (simp add: unat_of_nat int_limit_def)
  have w: "w \<noteq> []" "length w + length body \<le> st_length st" "e = w @ body"
    using frame(1) by (auto simp: w_def e ngx_http_v2_write_int_def)
  have parse: "ngx_http_v2_parse_int (st_length st) (w @ body @ rest) (ngx_http_v2_prefix 7) =
      Inr (word_of_nat (length body), length w, st_length st - length w)"
    and hd: "hd w AND NOT (mask 7) = octet"
    using write_parse_int [OF _ octet _ w_def, of "st_length st" "body @ rest"] blen body size(1) w(2) by simp_all
  have huff: "drop_bit 7 (hd (e @ rest)) \<noteq> 0 \<longleftrightarrow> octet = 0x80"
    using hd w(1,3) kind unfolding high_bit by auto
  have guards: "\<not> (\<not> end_headers st \<and> st_length st < NGX_HTTP_V2_INT_OCTETS)" "\<not> st_length st < 1"
      "\<not> length (e @ rest) < 1"
    using frame(2) w by (cases w; auto simp: NGX_HTTP_V2_INT_OCTETS_def)+
  have active: "(\<not> has_stream st \<and> \<not> index st) = False"
    using st(1) by blast
  define st3 where "st3 = st\<lparr>st_length := st_length st - length w, field_rest := length body,
      field_alloc := (if octet = 0x80 then length body * 8 div 5 else length body) + 1, field := []\<rparr>"
  have step: "(st', rest', res) = (if octet = 0x80 then ngx_http_v2_state_field_huff st3 (body @ rest)
      else ngx_http_v2_state_field_raw st3 (body @ rest))"
    using run active body size(2) guards parse unfolding ngx_http_v2_state_field_len_def Let_def huff
    by (cases "octet = 0x80") (simp_all add: w(1,3) blen st3_def)
  have st3: "field_rest st3 = length body" "length body \<le> st_length st3" "field st3 = []" "field_state st3 = 0"
    "st_length st3 = st_length st - length w"
    using w(2) st(2) by (simp_all add: st3_def)
  show ?thesis
  proof (cases "octet = 0x80")
    case True
    with kind have "ngx_http_v2_huff_decode (field_state st3) body (field st3) True = (NGX_OK, 0, lower_if lower src)"
      using huff_encode_decode [of src lower "[]"] st3 by auto
    from field_huff_complete [OF st3(1,2) this, of rest] step True st3 w(3) show ?thesis
      by simp
  next
    case False
    with kind have "body = lower_if lower src"
      by blast
    with field_raw_complete [OF st3(1,2), of rest] step False st3 w(3) show ?thesis
      by simp
  qed
qed

theorem field_roundtrip_witness:
  "\<exists>st' res. ngx_http_v2_state_field_len 4096 True
      \<lparr>st_length = 50, end_headers = True, index = True, has_stream = True, field_rest = 0,
       field_state = 0, field = [], field_alloc = 0\<rparr>
      (ngx_http_v2_string_encode (str ''Age'') True @ [0x82]) = (st', [0x82], res) \<and>
    res = Process_header \<and> field st' = str ''age''"
proof -
  define st where "st = \<lparr>st_length = 50, end_headers = True, index = True, has_stream = True,
    field_rest = 0, field_state = 0, field = [], field_alloc = 0\<rparr>"
  obtain st' rest' res where run: "ngx_http_v2_state_field_len 4096 True st
      (ngx_http_v2_string_encode (str ''Age'') True @ [0x82]) = (st', rest', res)"
    using prod_cases3 by blast
  obtain octet body where "length body \<le> length (str ''Age'')"
    "ngx_http_v2_string_encode (str ''Age'') True =
       ngx_http_v2_write_int octet (ngx_http_v2_prefix 7) (word_of_nat (length body)) @ body"
    by (rule string_encode_split [of "str ''Age''" True]) (simp add: str_def int_limit_def)
  moreover have "length (ngx_http_v2_write_int octet (ngx_http_v2_prefix 7) (word_of_nat (length body))) \<le> 4"
    using \<open>length body \<le> length (str ''Age'')\<close>
    by (intro length_write_int) (simp_all add: str_def int_limit_def unat_of_nat)
  ultimately have "length (ngx_http_v2_string_encode (str ''Age'') True) \<le> st_length st"
    by (simp add: st_def str_def)
  then have "res = Process_header \<and> rest' = [0x82] \<and> field st' = str ''age''"
    using field_roundtrip [OF _ _ _ _ _ _ run]
    by (simp add: st_def str_def int_limit_def lower_if_def ngx_tolower_def)
  with run show ?thesis
    unfolding st_def by blast
qed

text \<open>A Huffman-coded field that arrives in two reads is decoded like the field in one read.\<close>

lemma field_size_append:
  assumes "length as < field_rest st" "length as < st_length st"
  shows "field_size st as = length as"
    and "field_size st (as @ bs) = length as + field_size (take_field st as) bs"
    and "bs \<noteq> [] \<Longrightarrow> 0 < field_size (take_field st as) bs"
  using assms by (auto simp: field_size_def take_field_def)

text \<open>A Huffman-coded field that arrives in two reads is decoded like the field in one read.\<close>

theorem field_huff_pieces:
  assumes len: "length as < field_rest st" "length as < st_length st" "bs \<noteq> []"
    and first: "ngx_http_v2_state_field_huff st as = (st1, rest1, res1)"
    and whole: "ngx_http_v2_state_field_huff st (as @ bs) = (st2, rest2, res2)"
  shows "if res1 = Save Field_huff
         then rest1 = [] \<and> (\<exists>rest. ngx_http_v2_state_field_huff st1 bs = (st2, rest, res2) \<and>
                (res2 \<noteq> Connection_error NGX_HTTP_V2_COMP_ERROR \<longrightarrow> rest = rest2))
         else res1 = Connection_error NGX_HTTP_V2_COMP_ERROR \<and> res2 = res1"
proof -
  let ?t = "take_field st as"
  define n where "n = field_size ?t bs"
  note size = field_size_append(1) [OF len(1,2)] field_size_append(2) [OF len(1,2), of bs, folded n_def]
    field_size_append(3) [OF len, folded n_def]
  obtain rc s out where dec: "ngx_http_v2_huff_decode (field_state st) as (field st) False = (rc, s, out)"
    using prod_cases3 by blast
  have nonempty: "take n bs \<noteq> []"
    using size(3) len(3) by simp
  have lastp: "(field_rest st - length as = 0) = False" "(st_length st - length as = 0) = False"
    using len by simp_all
  have pieces: "ngx_http_v2_huff_decode (field_state st) (as @ take n bs) (field st) b =
      (if rc \<noteq> NGX_OK then (rc, s, out) else ngx_http_v2_huff_decode s (take n bs) out b)" for b
    using huff_decode_split [OF nonempty, where s = "field_state st" and as = as and out = "field st" and is_last = b] dec by simp
  have st1: "(st1, rest1, res1) =
     (?t\<lparr>field_state := s, field := out\<rparr>, if rc \<noteq> NGX_OK then as else [],
      if rc \<noteq> NGX_OK then Connection_error NGX_HTTP_V2_COMP_ERROR else Save Field_huff)"
    using first dec lastp
    by (cases "rc = NGX_OK") (auto simp: ngx_http_v2_state_field_huff_def Let_def size field_next_def)
  have n: "field_size st (as @ bs) = length as + n"
    by (rule size(2))
  have "take_field ?t bs = ?t\<lparr>st_length := st_length ?t - n, field_rest := field_rest ?t - n\<rparr>"
    by (simp only: take_field_def [of ?t bs] n_def)
  then have t: "take_field st (as @ bs) = take_field ?t bs"
    by (simp add: take_field_def [of st] size(1) n)
  define b where "b = (field_rest (take_field ?t bs) = 0)"
  obtain rc' s' out' where dec': "ngx_http_v2_huff_decode s (take n bs) out b = (rc', s', out')"
    using prod_cases3 by blast
  have w: "(st2, rest2, res2) = (if rc \<noteq> NGX_OK then (st2, rest2, Connection_error NGX_HTTP_V2_COMP_ERROR)
     else let u = (take_field ?t bs)\<lparr>field_state := s', field := out'\<rparr>
          in if rc' \<noteq> NGX_OK then (u, as @ bs, Connection_error NGX_HTTP_V2_COMP_ERROR)
             else (u, drop n bs, field_next u Field_huff))"
    using whole unfolding ngx_http_v2_state_field_huff_def Let_def t n b_def [symmetric]
    by (cases "rc = NGX_OK") (auto simp: pieces dec' split: if_splits)
  have second: "ngx_http_v2_state_field_huff (?t\<lparr>field_state := s, field := out\<rparr>) bs =
     (let u = (take_field ?t bs)\<lparr>field_state := s', field := out'\<rparr>
      in if rc' \<noteq> NGX_OK then (u, bs, Connection_error NGX_HTTP_V2_COMP_ERROR)
         else (u, drop n bs, field_next u Field_huff))"
    unfolding ngx_http_v2_state_field_huff_def Let_def field_size_frame take_field_frame n_def [symmetric]
    using dec' unfolding b_def by simp
  show ?thesis
    using st1 w second by (cases "rc = NGX_OK") (auto simp: Let_def split: if_splits)
qed

theorem field_huff_pieces_witness:
  "\<exists>st st1 rest1 res1 st2 rest2 res2.
     ngx_http_v2_state_field_huff st [0x1f] = (st1, rest1, res1) \<and>
     ngx_http_v2_state_field_huff st ([0x1f] @ [0xff]) = (st2, rest2, res2) \<and>
     (if res1 = Save Field_huff
      then rest1 = [] \<and> (\<exists>rest. ngx_http_v2_state_field_huff st1 [0xff] = (st2, rest, res2))
      else res2 = Connection_error NGX_HTTP_V2_COMP_ERROR)"
proof -
  define st where "st = \<lparr>st_length = 2, end_headers = True, index = True, has_stream = True,
    field_rest = 2, field_state = 0, field = [], field_alloc = 4\<rparr>"
  obtain st1 rest1 res1 where 1: "ngx_http_v2_state_field_huff st [0x1f] = (st1, rest1, res1)"
    using prod_cases3 by blast
  obtain st2 rest2 res2 where 2: "ngx_http_v2_state_field_huff st ([0x1f] @ [0xff]) = (st2, rest2, res2)"
    using prod_cases3 by blast
  from field_huff_pieces [OF _ _ _ 1 2] have
    "if res1 = Save Field_huff
     then rest1 = [] \<and> (\<exists>rest. ngx_http_v2_state_field_huff st1 [0xff] = (st2, rest, res2) \<and>
            (res2 \<noteq> Connection_error NGX_HTTP_V2_COMP_ERROR \<longrightarrow> rest = rest2))
     else res1 = Connection_error NGX_HTTP_V2_COMP_ERROR \<and> res2 = res1"
    by (simp add: st_def)
  with 1 2 show ?thesis
    by (intro exI [of _ st] exI [of _ st1] exI [of _ rest1] exI [of _ res1] exI [of _ st2] exI [of _ rest2]
        exI [of _ res2]) (auto split: if_splits)
qed

end
