(* ===== verification/HpackTableSpec.thy ===== *)
theory HpackTableSpec
  imports HpackTable
begin

text \<open>
  The dynamic table as RFC 7541 describes it, and the proof that the operations of \<open>HpackTable\<close>
  implement it: the ring and the circular storage always hold exactly the list of header fields
  of the specification.
\<close>

section \<open>The specification\<close>

text \<open>A table is the list of its header fields, newest first.\<close>

definition entry_size :: "header \<Rightarrow> nat" where
  "entry_size h = 32 + length (fst h) + length (snd h)"

definition table_bytes :: "header list \<Rightarrow> nat" where
  "table_bytes tbl = sum_list (map entry_size tbl)"

text \<open>The newest entries that fit into \<open>m\<close>; older ones are evicted.\<close>

fun keep :: "nat \<Rightarrow> header list \<Rightarrow> header list" where
  "keep m [] = []"
| "keep m (h # tbl) = (if entry_size h \<le> m then h # keep (m - entry_size h) tbl else [])"

definition dyn_add :: "nat \<Rightarrow> header \<Rightarrow> header list \<Rightarrow> header list" where
  "dyn_add m h tbl = (if entry_size h > m then [] else h # keep (m - entry_size h) tbl)"

lemma table_bytes_simps [simp]:
  "table_bytes [] = 0" "table_bytes (h # hs) = entry_size h + table_bytes hs"
  "table_bytes (as @ bs) = table_bytes as + table_bytes bs" "table_bytes (rev hs) = table_bytes hs"
  by (simp_all add: table_bytes_def rev_map [symmetric] del: rev_map)

lemma keep_all: "table_bytes tbl \<le> m \<Longrightarrow> keep m tbl = tbl"
  by (induction tbl arbitrary: m) auto

lemma keep_snoc: "m < table_bytes (tbl @ [h]) \<Longrightarrow> keep m (tbl @ [h]) = keep m tbl"
  by (induction tbl arbitrary: m) auto

lemma keep_bytes: "table_bytes (keep m tbl) \<le> m"
proof (induction tbl arbitrary: m)
  case (Cons h tbl)
  show ?case
    using Cons.IH [of "m - entry_size h"] by auto
qed simp

section \<open>Reading the implementation's state\<close>

definition read_header :: "ngx_http_v2_hpack_t \<Rightarrow> nat \<Rightarrow> header" where
  "read_header hp i =
     (let e = entry_at hp i
      in (storage_get hp (name_data e) (name_len e), storage_get hp (value_data e) (value_len e)))"

text \<open>The header fields in the ring, oldest first.\<close>

definition live :: "ngx_http_v2_hpack_t \<Rightarrow> header list" where
  "live hp = map (read_header hp) [deleted hp..<added hp]"

definition abs_table :: "ngx_http_v2_hpack_t \<Rightarrow> header list" where
  "abs_table hp = (if entries hp = None then [] else rev (live hp))"

section \<open>The representation invariant\<close>

definition flat :: "header list \<Rightarrow> bytes" where
  "flat hs = concat (map (\<lambda>h. fst h @ snd h) hs)"

lemma flat_simps [simp]:
  "flat [] = []" "flat (h # hs) = fst h @ snd h @ flat hs" "flat (as @ bs) = flat as @ flat bs"
  by (simp_all add: flat_def)

lemma length_flat: "length (flat hs) \<le> table_bytes hs"
  by (induction hs) (auto simp: entry_size_def)

text \<open>\<open>bs\<close> is stored circularly from (virtual) position \<open>a\<close> on.\<close>

definition mirror :: "bytes \<Rightarrow> nat \<Rightarrow> bytes \<Rightarrow> bool" where
  "mirror st a bs \<longleftrightarrow> length st = 4096 \<and> (\<forall>i < length bs. st ! ((a + i) mod 4096) = bs ! i)"

definition entry_matches :: "hpack_entry \<Rightarrow> nat \<Rightarrow> header \<Rightarrow> bool" where
  "entry_matches e a h \<longleftrightarrow>
     name_data e \<le> 4096 \<and> name_data e mod 4096 = a mod 4096 \<and> name_len e = length (fst h) \<and>
     value_data e \<le> 4096 \<and> value_data e mod 4096 = (a + length (fst h)) mod 4096 \<and>
     value_len e = length (snd h)"

fun laid :: "nat \<Rightarrow> hpack_entry list \<Rightarrow> header list \<Rightarrow> bool" where
  "laid a [] [] = True"
| "laid a (e # es) (h # hs) = (entry_matches e a h \<and> laid (a + length (fst h @ snd h)) es hs)"
| "laid a _ _ = False"

definition ring_ok :: "ngx_http_v2_hpack_t \<Rightarrow> bool" where
  "ring_ok hp \<longleftrightarrow>
     (\<exists>es. entries hp = Some es \<and> length es = allocated hp) \<and> 0 < allocated hp \<and>
     reused hp \<le> deleted hp \<and> deleted hp \<le> added hp \<and> added hp \<le> reused hp + allocated hp \<and>
     inj_on (slot hp) {reused hp..<added hp} \<and> (\<forall>i \<in> {reused hp..<added hp}. slot hp i < fresh hp)"

text \<open>
  \<open>rep r hp hs\<close>: the table holds \<open>hs\<close> (oldest first), with \<open>r\<close> bytes of its size set aside for the
  entry that is being added.
\<close>

definition rep :: "nat \<Rightarrow> ngx_http_v2_hpack_t \<Rightarrow> header list \<Rightarrow> bool" where
  "rep r hp hs \<longleftrightarrow>
     ring_ok hp \<and> free hp + r + table_bytes hs = hsize hp \<and> hsize hp \<le> 4096 \<and> pos hp \<le> 4096 \<and>
     (\<exists>a. mirror (storage hp) a (flat hs) \<and> laid a (map (entry_at hp) [deleted hp..<added hp]) hs \<and>
          pos hp mod 4096 = (a + length (flat hs)) mod 4096)"

lemma laid_length: "laid a es hs \<Longrightarrow> length es = length hs"
  by (induction a es hs rule: laid.induct) auto

lemma laid_append:
  "length es = length hs \<Longrightarrow>
   laid a (es @ es') (hs @ hs') \<longleftrightarrow> laid a es hs \<and> laid (a + length (flat hs)) es' hs'"
  by (induction a es hs rule: laid.induct) (auto simp: add.assoc)

section \<open>The circular storage\<close>

lemma mod_4096_nat: "(n :: nat) mod 4096 < 4096"
  by simp

lemma storage_get_nth:
  assumes "length (storage hp) = 4096" "off \<le> 4096" "len \<le> 4096" "i < len"
  shows "storage_get hp off len ! i = storage hp ! ((off + i) mod 4096)"
proof (cases "off + i < 4096")
  case True
  with assms show ?thesis
    by (auto simp: storage_get_def NGX_HTTP_V2_TABLE_SIZE_def Let_def nth_append)
next
  case False
  then have "(off + i) mod 4096 = off + i - 4096"
    using assms by (simp add: mod_if)
  moreover have "i - (4096 - off) = off + i - 4096" "i < len - (4096 - off) + (4096 - off)"
    using assms False by auto
  ultimately show ?thesis
    using False assms
    by (auto simp: storage_get_def NGX_HTTP_V2_TABLE_SIZE_def Let_def nth_append)
qed

lemma storage_get_length:
  "length (storage hp) = 4096 \<Longrightarrow> off \<le> 4096 \<Longrightarrow> len \<le> 4096 \<Longrightarrow> length (storage_get hp off len) = len"
  by (auto simp: storage_get_def NGX_HTTP_V2_TABLE_SIZE_def Let_def)

lemma mirror_get:
  assumes "mirror (storage hp) a bs" "length bs \<le> 4096" "off \<le> 4096"
    and "off mod 4096 = (a + j) mod 4096" "j + len \<le> length bs"
  shows "storage_get hp off len = take len (drop j bs)"
proof (rule nth_equalityI)
  have st: "length (storage hp) = 4096"
    using assms(1) by (simp add: mirror_def)
  show "length (storage_get hp off len) = length (take len (drop j bs))"
    using storage_get_length [OF st assms(3), of len] assms(2,5) by simp
  fix i assume "i < length (storage_get hp off len)"
  then have i: "i < len"
    using storage_get_length [OF st assms(3), of len] assms(2,5) by simp
  have "(off + i) mod 4096 = (a + (j + i)) mod 4096"
    using assms(4) by (metis add.assoc mod_add_left_eq)
  moreover have "storage hp ! ((a + (j + i)) mod 4096) = bs ! (j + i)"
    using assms(1,5) i unfolding mirror_def by simp
  moreover have "take len (drop j bs) ! i = bs ! (j + i)"
    using i assms(5) by simp
  ultimately show "storage_get hp off len ! i = take len (drop j bs) ! i"
    using storage_get_nth [OF st assms(3) _ i] assms(2,5) by simp
qed

lemma mem_put_nth:
  "off + length bs \<le> length st \<Longrightarrow> i < length st \<Longrightarrow>
   mem_put off bs st ! i = (if off \<le> i \<and> i < off + length bs then bs ! (i - off) else st ! i)"
  by (auto simp: mem_put_def nth_append min_def)

lemma length_mem_put: "off + length bs \<le> length st \<Longrightarrow> length (mem_put off bs st) = length st"
  by (simp add: mem_put_def)

lemma mod_shift_neq:
  "i < n \<Longrightarrow> n \<le> k \<Longrightarrow> k < (4096 :: nat) \<Longrightarrow> (a + i) mod 4096 \<noteq> (a + k) mod 4096"
proof
  assume "i < n" "n \<le> k" "k < 4096" "(a + i) mod 4096 = (a + k) mod 4096"
  then have "4096 dvd (a + k) - (a + i)"
    using mod_eq_dvd_iff_nat [of "a + i" "a + k" 4096] by simp
  then show False
    using \<open>i < n\<close> \<open>n \<le> k\<close> \<open>k < 4096\<close> by (auto dest: dvd_imp_le)
qed

text \<open>What \<open>storage_put\<close> writes, byte by byte.\<close>

lemma storage_put_nth:
  assumes st: "length (storage hp) = 4096" and p: "pos hp \<le> 4096" and n: "length ws \<le> 4096"
    and fits: "length ws \<le> avail \<Longrightarrow> pos hp + length ws \<le> 4096"
    and wraps: "avail < length ws \<Longrightarrow> avail = 4096 - pos hp"
    and j: "j < 4096"
  shows "storage (storage_put avail ws hp) ! j =
    (if pos hp \<le> j \<and> j < pos hp + length ws then ws ! (j - pos hp)
     else if j + 4096 < pos hp + length ws then ws ! (j + 4096 - pos hp) else storage hp ! j)"
proof (cases "length ws \<le> avail")
  case True
  then show ?thesis
    using fits st j by (simp add: storage_put_def mem_put_nth)
next
  case False
  then have a: "avail = 4096 - pos hp" "avail < length ws"
    using wraps by auto
  then have l: "length (mem_put (pos hp) (take avail ws) (storage hp)) = 4096"
    using st p by (subst length_mem_put) auto
  show ?thesis
    using False a st p n j l
    by (auto simp: storage_put_def mem_put_nth add.commute)
qed

lemma storage_put_length:
  assumes "length (storage hp) = 4096" "pos hp \<le> 4096" "length ws \<le> 4096"
    and "length ws \<le> avail \<Longrightarrow> pos hp + length ws \<le> 4096"
    and "avail < length ws \<Longrightarrow> avail = 4096 - pos hp"
  shows "length (storage (storage_put avail ws hp)) = 4096"
  using assms by (auto simp: storage_put_def length_mem_put)

lemma storage_put_mirror:
  assumes m: "mirror (storage hp) a bs" and p: "pos hp \<le> 4096"
    and pm: "pos hp mod 4096 = (a + length bs) mod 4096" and n: "length bs + length ws \<le> 4096"
    and fits: "length ws \<le> avail \<Longrightarrow> pos hp + length ws \<le> 4096"
    and wraps: "avail < length ws \<Longrightarrow> avail = 4096 - pos hp"
  shows "mirror (storage (storage_put avail ws hp)) a (bs @ ws)"
    and "pos (storage_put avail ws hp) \<le> 4096"
    and "pos (storage_put avail ws hp) mod 4096 = (a + length (bs @ ws)) mod 4096"
proof -
  have st: "length (storage hp) = 4096"
    using m by (simp add: mirror_def)
  have n': "length ws \<le> 4096" using n by simp
  note nth = storage_put_nth [OF st p n' fits wraps]
  have pk: "(pos hp + k) mod 4096 = (a + (length bs + k)) mod 4096" for k
    using pm by (metis add.assoc mod_add_left_eq)
  have new: "storage (storage_put avail ws hp) ! ((pos hp + k) mod 4096) = ws ! k" if "k < length ws" for k
  proof (cases "pos hp + k < 4096")
    case True
    then show ?thesis using nth [of "pos hp + k"] that by simp
  next
    case False
    then have "(pos hp + k) mod 4096 = pos hp + k - 4096"
      using p that n' by (simp add: mod_if)
    then show ?thesis
      using nth [of "pos hp + k - 4096"] that False p n' by auto
  qed
  have old: "storage (storage_put avail ws hp) ! ((a + i) mod 4096) = storage hp ! ((a + i) mod 4096)"
    if i: "i < length bs" for i
  proof -
    let ?j = "(a + i) mod 4096"
    have "?j \<noteq> (pos hp + k) mod 4096" if "k < length ws" for k
      unfolding pk using mod_shift_neq [OF i] that n by simp
    note far = this
    have "\<not> (pos hp \<le> ?j \<and> ?j < pos hp + length ws)"
      using far [of "?j - pos hp"] by (auto simp: less_diff_conv2)
    moreover have "\<not> ?j + 4096 < pos hp + length ws"
    proof
      assume "?j + 4096 < pos hp + length ws"
      then have "?j + 4096 - pos hp < length ws" "pos hp + (?j + 4096 - pos hp) = ?j + 4096"
        using p by auto
      then show False
        using far [of "?j + 4096 - pos hp"] by simp
    qed
    ultimately show ?thesis
      using nth [of ?j] by auto
  qed
  show "mirror (storage (storage_put avail ws hp)) a (bs @ ws)"
    unfolding mirror_def
  proof (intro conjI allI impI)
    show "length (storage (storage_put avail ws hp)) = 4096"
      by (rule storage_put_length [OF st p n' fits wraps])
    fix i assume i: "i < length (bs @ ws)"
    show "storage (storage_put avail ws hp) ! ((a + i) mod 4096) = (bs @ ws) ! i"
    proof (cases "i < length bs")
      case True
      then show ?thesis using old m by (simp add: mirror_def nth_append)
    next
      case False
      then show ?thesis
        using new [of "i - length bs"] pk [of "i - length bs"] i by (simp add: nth_append)
    qed
  qed
  show "pos (storage_put avail ws hp) \<le> 4096"
    using fits wraps n' p by (auto simp: storage_put_def)
  show "pos (storage_put avail ws hp) mod 4096 = (a + length (bs @ ws)) mod 4096"
  proof (cases "length ws \<le> avail")
    case True
    then show ?thesis
      using pk [of "length ws"] by (simp add: storage_put_def)
  next
    case False
    then have "length ws - avail + 4096 = pos hp + length ws"
      using wraps p by simp
    moreover have "(length ws - avail) mod 4096 = (length ws - avail + 4096) mod 4096"
      by simp
    ultimately have "(length ws - avail) mod 4096 = (a + (length bs + length ws)) mod 4096"
      using pk [of "length ws"] by simp
    then show ?thesis
      using False by (simp add: storage_put_def)
  qed
qed

section \<open>The steps of the operations keep the invariant\<close>

lemma mirror_drop: "mirror st a (bs @ cs) \<Longrightarrow> mirror st (a + length bs) cs"
  unfolding mirror_def
proof (intro conjI allI impI)
  fix i assume m: "length st = 4096 \<and> (\<forall>i < length (bs @ cs). st ! ((a + i) mod 4096) = (bs @ cs) ! i)"
    and i: "i < length cs"
  then have "st ! ((a + (length bs + i)) mod 4096) = (bs @ cs) ! (length bs + i)"
    by (auto simp del: nth_append_length_plus)
  then show "st ! ((a + length bs + i) mod 4096) = cs ! i"
    by (simp add: add.assoc)
qed simp

lemma slot_cong [simp]:
  "slot (hp\<lparr>free := x1\<rparr>) = slot hp" "slot (hp\<lparr>deleted := x2\<rparr>) = slot hp" "slot (hp\<lparr>hsize := x3\<rparr>) = slot hp"
  "slot (hp\<lparr>reused := x4\<rparr>) = slot hp" "slot (hp\<lparr>fresh := x5\<rparr>) = slot hp" "slot (hp\<lparr>heap := x6\<rparr>) = slot hp"
  "slot (hp\<lparr>storage := x7\<rparr>) = slot hp" "slot (hp\<lparr>pos := x8\<rparr>) = slot hp" "slot (hp\<lparr>added := x9\<rparr>) = slot hp"
  by (simp_all add: slot_def fun_eq_iff)

lemma entry_at_cong [simp]:
  "entry_at (hp\<lparr>free := x1\<rparr>) = entry_at hp" "entry_at (hp\<lparr>deleted := x2\<rparr>) = entry_at hp"
  "entry_at (hp\<lparr>hsize := x3\<rparr>) = entry_at hp" "entry_at (hp\<lparr>reused := x4\<rparr>) = entry_at hp"
  "entry_at (hp\<lparr>fresh := x5\<rparr>) = entry_at hp" "entry_at (hp\<lparr>storage := x6\<rparr>) = entry_at hp"
  "entry_at (hp\<lparr>pos := x7\<rparr>) = entry_at hp" "entry_at (hp\<lparr>added := x8\<rparr>) = entry_at hp"
  by (simp_all add: entry_at_def fun_eq_iff)

lemma rep_length: "rep r hp hs \<Longrightarrow> length hs = added hp - deleted hp"
  by (auto simp: rep_def dest: laid_length)

lemma evict_one_rep:
  assumes "rep r hp (h # hs)"
  shows "rep r (evict_one hp) hs" and "hsize (evict_one hp) = hsize hp"
    and "free (evict_one hp) = free hp + entry_size h"
proof -
  have lt: "deleted hp < added hp"
    using rep_length [OF assms] by simp
  obtain a where a: "mirror (storage hp) a (flat (h # hs))" "pos hp mod 4096 = (a + length (flat (h # hs))) mod 4096"
    and l: "laid a (map (entry_at hp) [deleted hp..<added hp]) (h # hs)"
    using assms by (auto simp: rep_def)
  have e: "entry_matches (entry_at hp (deleted hp)) a h"
    "laid (a + length (fst h @ snd h)) (map (entry_at hp) [Suc (deleted hp)..<added hp]) hs"
    using l lt by (simp_all add: upt_conv_Cons)
  show f: "free (evict_one hp) = free hp + entry_size h"
    using e(1) by (simp add: evict_one_def entry_matches_def entry_size_def Let_def)
  show "hsize (evict_one hp) = hsize hp"
    by (simp add: evict_one_def Let_def)
  have "mirror (storage hp) (a + length (fst h @ snd h)) (flat hs)"
    using mirror_drop [of _ a "fst h @ snd h" "flat hs"] a(1) by simp
  moreover have "ring_ok (evict_one hp)"
    using assms lt by (auto simp: rep_def ring_ok_def evict_one_def Let_def)
  ultimately show "rep r (evict_one hp) hs"
    using assms a(2) e(2) f unfolding rep_def
    by (auto simp: evict_one_def Let_def add.assoc intro!: exI [of _ "a + length (fst h @ snd h)"])
qed

text \<open>Both eviction loops stop at the longest suffix that fits.\<close>

lemma account_loop_rep:
  assumes "rep 0 hp hs" "free hp < sz" "sz \<le> hsize hp"
  shows "\<exists>hs'. rep 0 (account_loop sz hp) hs' \<and> rev hs' = keep (hsize hp - sz) (rev hs) \<and>
    sz \<le> free (account_loop sz hp) \<and> hsize (account_loop sz hp) = hsize hp"
  using assms
proof (induction sz hp arbitrary: hs rule: account_loop.induct)
  case (1 sz hp)
  have bytes: "free hp + table_bytes hs = hsize hp"
    using 1(2) by (simp add: rep_def)
  then obtain h hs1 where hs: "hs = h # hs1"
    using 1(3,4) by (cases hs) auto
  note ev = evict_one_rep [OF 1(2) [unfolded hs]]
  have k: "keep (hsize hp - sz) (rev hs) = keep (hsize hp - sz) (rev hs1)"
    using bytes 1(3,4) by (auto simp: hs intro: keep_snoc)
  show ?case
  proof (cases "sz > free (evict_one hp)")
    case True
    then have "account_loop sz hp = account_loop sz (evict_one hp)"
      by (subst account_loop.simps) (simp add: Let_def)
    then show ?thesis
      using "1.IH" [OF refl True ev(1) True] 1(4) ev(2) k by simp
  next
    case False
    then have "account_loop sz hp = evict_one hp"
      by (subst account_loop.simps) (simp add: Let_def)
    moreover have "free (evict_one hp) + table_bytes hs1 = hsize hp"
      using ev by (simp add: rep_def)
    ultimately show ?thesis
      using ev False k by (auto simp: keep_all intro!: exI [of _ hs1])
  qed
qed

lemma table_size_loop_rep:
  assumes "rep 0 hp hs" "needed = int (hsize hp) - int sz"
  shows "\<exists>hs'. rep 0 (table_size_loop needed hp) hs' \<and> rev hs' = keep sz (rev hs) \<and>
    needed \<le> int (free (table_size_loop needed hp)) \<and> hsize (table_size_loop needed hp) = hsize hp"
  using assms
proof (induction needed hp arbitrary: hs rule: table_size_loop.induct)
  case (1 needed hp)
  have bytes: "free hp + table_bytes hs = hsize hp"
    using 1(2) by (simp add: rep_def)
  show ?case
  proof (cases "needed > int (free hp)")
    case True
    then obtain h hs1 where hs: "hs = h # hs1"
      using bytes 1(3) by (cases hs) auto
    note ev = evict_one_rep [OF 1(2) [unfolded hs]]
    have "keep sz (rev hs) = keep sz (rev hs1)"
      using bytes 1(3) True by (auto simp: hs intro: keep_snoc)
    then show ?thesis
      using "1.IH" [OF True ev(1)] 1(3) ev(2) True
      by (subst (1 2 3) table_size_loop.simps) simp
  next
    case False
    then show ?thesis
      using 1(2,3) bytes by (subst (1 2 3) table_size_loop.simps) (auto simp: keep_all intro!: exI [of _ hs])
  qed
qed

text \<open>Accounting for a new entry evicts the oldest ones until it fits.\<close>

lemma rep_free: "rep r hp hs \<Longrightarrow> n \<le> free hp \<Longrightarrow> rep (r + n) (hp\<lparr>free := free hp - n\<rparr>) hs"
  by (auto simp: rep_def ring_ok_def)

lemma account_rep:
  assumes "rep 0 hp hs" "sz + 32 \<le> hsize hp"
  obtains hp' hs' where "ngx_http_v2_table_account sz hp = (NGX_OK, hp')" "rep (sz + 32) hp' hs'"
    "rev hs' = keep (hsize hp - (sz + 32)) (rev hs)" "hsize hp' = hsize hp"
proof (cases "sz + 32 \<le> free hp")
  case True
  have "free hp + table_bytes hs = hsize hp"
    using assms(1) by (simp add: rep_def)
  then have "rev hs = keep (hsize hp - (sz + 32)) (rev hs)"
    using True by (simp add: keep_all)
  moreover have "ngx_http_v2_table_account sz hp = (NGX_OK, hp\<lparr>free := free hp - (sz + 32)\<rparr>)"
    using True by (simp add: ngx_http_v2_table_account_def)
  ultimately show thesis
    using that rep_free [OF assms(1) True] by simp
next
  case False
  then obtain hs' where hs': "rep 0 (account_loop (sz + 32) hp) hs'"
    "rev hs' = keep (hsize hp - (sz + 32)) (rev hs)" "sz + 32 \<le> free (account_loop (sz + 32) hp)"
    "hsize (account_loop (sz + 32) hp) = hsize hp"
    using account_loop_rep [OF assms(1) _ assms(2)] by auto
  have "ngx_http_v2_table_account sz hp = (NGX_OK, (account_loop (sz + 32) hp)
      \<lparr>free := free (account_loop (sz + 32) hp) - (sz + 32)\<rparr>)"
    using False assms(2) by (simp add: ngx_http_v2_table_account_def Let_def)
  then show thesis
    using that rep_free [OF hs'(1,3)] hs'(2,4) by simp
qed

lemma account_declined:
  assumes "rep 0 hp hs" "hsize hp < sz + 32"
  shows "\<exists>hp'. ngx_http_v2_table_account sz hp = (NGX_DECLINED, hp') \<and> rep 0 hp' [] \<and> hsize hp' = hsize hp"
proof -
  have "free hp \<le> hsize hp"
    using assms(1) by (auto simp: rep_def)
  then have "ngx_http_v2_table_account sz hp = (NGX_DECLINED, hp\<lparr>deleted := added hp, free := hsize hp\<rparr>)"
    using assms(2) by (simp add: ngx_http_v2_table_account_def)
  moreover have "rep 0 (hp\<lparr>deleted := added hp, free := hsize hp\<rparr>) []"
    using assms(1) by (auto simp: rep_def ring_ok_def mirror_def)
  ultimately show ?thesis by simp
qed

text \<open>The structure chosen for the new entry is not in use.\<close>

definition pending :: "ngx_http_v2_hpack_t \<Rightarrow> nat \<Rightarrow> bool" where
  "pending hp e \<longleftrightarrow>
     e < fresh hp \<and> e \<notin> slot hp ` {reused hp..<added hp} \<and>
     (reused hp = deleted hp \<or> added hp < reused hp + allocated hp)"

text \<open>The state once its strings are stored.\<close>

definition filled :: "ngx_http_v2_hpack_t \<Rightarrow> nat \<Rightarrow> header list \<Rightarrow> header \<Rightarrow> bool" where
  "filled hp e hs h \<longleftrightarrow>
     ring_ok hp \<and> pending hp e \<and> free hp + table_bytes (hs @ [h]) = hsize hp \<and> hsize hp \<le> 4096 \<and> pos hp \<le> 4096 \<and>
     (\<exists>a. mirror (storage hp) a (flat (hs @ [h])) \<and>
          laid a (map (entry_at hp) [deleted hp..<added hp] @ [heap hp e]) (hs @ [h]) \<and>
          pos hp mod 4096 = (a + length (flat (hs @ [h]))) mod 4096)"

lemma add_entry_rep:
  assumes "rep r hp hs" "ok 2"
  obtains e hp' where "add_entry ok hp = Some (e, hp')" "rep r hp' hs" "pending hp' e" "hsize hp' = hsize hp"
proof (cases "reused hp = deleted hp")
  case True
  have "rep r (hp\<lparr>fresh := fresh hp + 1\<rparr>) hs" and "pending (hp\<lparr>fresh := fresh hp + 1\<rparr>) (fresh hp)"
    using assms(1) True by (force simp: rep_def ring_ok_def pending_def)+
  moreover have "add_entry ok hp = Some (fresh hp, hp\<lparr>fresh := fresh hp + 1\<rparr>)"
    using True assms(2) by (simp add: add_entry_def)
  ultimately show thesis using that by simp
next
  case False
  let ?hp = "hp\<lparr>reused := reused hp + 1\<rparr>"
  have r: "ring_ok hp" using assms(1) by (simp add: rep_def)
  then have lt: "reused hp < deleted hp" "deleted hp \<le> added hp"
    using False by (auto simp: ring_ok_def)
  have "slot hp (reused hp) \<notin> slot hp ` {reused hp + 1..<added hp}"
    using r lt by (auto simp: ring_ok_def dest!: inj_onD)
  then have "pending ?hp (slot hp (reused hp))"
    using r lt by (auto simp: pending_def ring_ok_def)
  moreover have "ring_ok ?hp"
    using r lt by (auto simp: ring_ok_def inj_on_def)
  then have "rep r ?hp hs"
    using assms(1) by (auto simp: rep_def)
  moreover have "add_entry ok hp = Some (slot hp (reused hp), ?hp)"
    using False by (simp add: add_entry_def)
  ultimately show thesis using that by simp
qed

lemma storage_put_fields [simp]:
  "entries (storage_put n ws hp) = entries hp" "added (storage_put n ws hp) = added hp"
  "deleted (storage_put n ws hp) = deleted hp" "reused (storage_put n ws hp) = reused hp"
  "allocated (storage_put n ws hp) = allocated hp" "hsize (storage_put n ws hp) = hsize hp"
  "free (storage_put n ws hp) = free hp" "heap (storage_put n ws hp) = heap hp"
  "fresh (storage_put n ws hp) = fresh hp" "slot (storage_put n ws hp) = slot hp"
  by (simp_all add: storage_put_def)

lemma add_strings_fields [simp]:
  "entries (add_strings h e hp) = entries hp" "added (add_strings h e hp) = added hp"
  "deleted (add_strings h e hp) = deleted hp" "reused (add_strings h e hp) = reused hp"
  "allocated (add_strings h e hp) = allocated hp" "hsize (add_strings h e hp) = hsize hp"
  "free (add_strings h e hp) = free hp" "fresh (add_strings h e hp) = fresh hp"
  "slot (add_strings h e hp) = slot hp"
  by (simp_all add: add_strings_def Let_def)

lemma add_strings_filled:
  assumes rep: "rep (entry_size h) hp hs" and pend: "pending hp e"
  shows "filled (add_strings h e hp) e hs h"
proof -
  obtain a where a: "mirror (storage hp) a (flat hs)" "laid a (map (entry_at hp) [deleted hp..<added hp]) hs"
    "pos hp mod 4096 = (a + length (flat hs)) mod 4096"
    and p: "pos hp \<le> 4096" and r: "ring_ok hp"
    and bytes: "free hp + entry_size h + table_bytes hs = hsize hp" "hsize hp \<le> 4096"
    using rep by (auto simp: rep_def)
  let ?n = "fst h" let ?v = "snd h" let ?av = "NGX_HTTP_V2_TABLE_SIZE - pos hp"
  let ?hp1 = "storage_put ?av ?n hp"
  let ?av2 = "(if length ?n \<le> ?av then ?av else NGX_HTTP_V2_TABLE_SIZE) - length ?n"
  let ?hp2 = "storage_put ?av2 ?v ?hp1"
  have len: "length (flat hs) + length ?n + length ?v + 32 \<le> 4096"
    using bytes length_flat [of hs] by (simp add: entry_size_def)
  have p1: "length ?n \<le> ?av \<Longrightarrow> pos hp + length ?n \<le> 4096" "?av < length ?n \<Longrightarrow> ?av = 4096 - pos hp"
    using p by (auto simp: NGX_HTTP_V2_TABLE_SIZE_def)
  have l1: "length (flat hs) + length ?n \<le> 4096" using len by simp
  note s1 = storage_put_mirror [OF a(1) p a(3) l1 p1]
  have p2: "length ?v \<le> ?av2 \<Longrightarrow> pos ?hp1 + length ?v \<le> 4096" "?av2 < length ?v \<Longrightarrow> ?av2 = 4096 - pos ?hp1"
    using p len by (auto simp: NGX_HTTP_V2_TABLE_SIZE_def storage_put_def)
  have l2: "length (flat hs @ ?n) + length ?v \<le> 4096" using len by simp
  note s2 = storage_put_mirror [OF s1 l2 p2]
  let ?hp3 = "add_strings h e hp"
  have fields: "storage ?hp3 = storage ?hp2" "pos ?hp3 = pos ?hp2"
    "heap ?hp3 = (heap hp)(e := \<lparr>name_data = pos hp, name_len = length ?n, value_data = pos ?hp1, value_len = length ?v\<rparr>)"
    by (simp_all add: add_strings_def Let_def)
  have old: "entry_at ?hp3 i = entry_at hp i" if "i \<in> {deleted hp..<added hp}" for i
    using that pend r by (auto simp: entry_at_def fields pending_def ring_ok_def)
  have "entry_matches (heap ?hp3 e) (a + length (flat hs)) h"
    using a(3) p s1(2,3) by (simp add: fields entry_matches_def add.assoc)
  moreover have same: "map (entry_at ?hp3) [deleted hp..<added hp] = map (entry_at hp) [deleted hp..<added hp]"
    using old by simp
  ultimately have "laid a (map (entry_at ?hp3) [deleted hp..<added hp] @ [heap ?hp3 e]) (hs @ [h])"
    unfolding same using a(2) laid_length [OF a(2)] by (simp add: laid_append)
  moreover have "mirror (storage ?hp3) a (flat (hs @ [h]))"
    using s2(1) by (simp add: fields)
  moreover have "pos ?hp3 mod 4096 = (a + length (flat (hs @ [h]))) mod 4096" "pos ?hp3 \<le> 4096"
    using s2(2,3) by (simp_all add: fields add.assoc)
  moreover have "ring_ok ?hp3" "pending ?hp3 e"
    using r pend by (auto simp: ring_ok_def pending_def)
  ultimately show ?thesis
    using bytes unfolding filled_def by auto
qed

text \<open>Growing a full ring keeps the order of its entries.\<close>

lemma grow_slot:
  assumes "ring_ok hp" "i < allocated hp"
  shows "slot (grow_entries hp) i = slot hp (deleted hp + i)"
proof -
  let ?k = "deleted hp mod allocated hp"
  obtain es where es: "entries hp = Some es" "length es = allocated hp" "?k < allocated hp"
    using assms(1) by (auto simp: ring_ok_def)
  have "(drop ?k es @ take ?k es @ replicate 64 0) ! i = es ! ((?k + i) mod allocated hp)"
  proof (cases "?k + i < allocated hp")
    case True
    then show ?thesis
      using es assms(2) by (simp add: nth_append less_diff_conv add.commute)
  next
    case False
    moreover have "?k + i - allocated hp < allocated hp"
      using es(3) assms(2) by linarith
    ultimately have "(?k + i) mod allocated hp = ?k + i - allocated hp"
      by (simp add: le_mod_geq)
    moreover have "i - (allocated hp - ?k) = ?k + i - allocated hp"
      using es(3) False by simp
    moreover have "?k + i - allocated hp < ?k"
      using assms(2) False by linarith
    ultimately show ?thesis
      using es assms(2) False by (simp add: nth_append less_diff_conv add.commute)
  qed
  moreover have "(?k + i) mod allocated hp = (deleted hp + i) mod allocated hp"
    by (simp add: mod_add_left_eq)
  moreover have "i mod (allocated hp + 64) = i"
    using assms(2) by simp
  ultimately show ?thesis
    using es by (simp add: slot_def grow_entries_def Let_def)
qed

lemma grow_fields [simp]:
  "deleted (grow_entries hp) = 0" "reused (grow_entries hp) = 0" "added (grow_entries hp) = allocated hp"
  "allocated (grow_entries hp) = allocated hp + 64" "hsize (grow_entries hp) = hsize hp"
  "free (grow_entries hp) = free hp" "fresh (grow_entries hp) = fresh hp" "heap (grow_entries hp) = heap hp"
  "storage (grow_entries hp) = storage hp" "pos (grow_entries hp) = pos hp"
  by (simp_all add: grow_entries_def Let_def)

lemma map_upt_shift: "map f [m..<m + n] = map (\<lambda>i. f (m + i)) [0..<n]"
  by (rule nth_equalityI) simp_all

lemma grow_filled:
  assumes f: "filled hp e hs h" and full: "allocated hp = added hp - deleted hp"
  shows "filled (grow_entries hp) e hs h"
    and "added (grow_entries hp) < reused (grow_entries hp) + allocated (grow_entries hp)"
proof -
  let ?hp = "grow_entries hp"
  have r: "ring_ok hp" and pend: "pending hp e"
    using f by (simp_all add: filled_def)
  then have ad: "added hp = deleted hp + allocated hp" "reused hp = deleted hp"
    using full by (auto simp: ring_ok_def pending_def)
  have inj: "inj_on (slot ?hp) {0..<allocated hp}"
  proof (rule inj_onI)
    fix i j assume ij: "i \<in> {0..<allocated hp}" "j \<in> {0..<allocated hp}" "slot ?hp i = slot ?hp j"
    then have "slot hp (deleted hp + i) = slot hp (deleted hp + j)"
      using grow_slot [OF r] by simp
    then have "deleted hp + i = deleted hp + j"
      using r ij ad by (auto simp: ring_ok_def dest: inj_onD)
    then show "i = j" by simp
  qed
  have img: "slot ?hp ` {0..<allocated hp} = slot hp ` {reused hp..<added hp}"
  proof -
    have "{reused hp..<added hp} = (\<lambda>i. deleted hp + i) ` {0..<allocated hp}"
      by (simp add: ad add.commute image_add_atLeastLessThan [of "deleted hp" 0, simplified])
    then have "slot hp ` {reused hp..<added hp} = (\<lambda>i. slot hp (deleted hp + i)) ` {0..<allocated hp}"
      by (simp only: image_image)
    then show ?thesis
      using grow_slot [OF r] by simp
  qed
  have ring: "ring_ok ?hp"
    unfolding ring_ok_def
  proof (intro conjI)
    show "\<exists>es. entries ?hp = Some es \<and> length es = allocated ?hp"
      using r by (auto simp: grow_entries_def Let_def ring_ok_def min_def)
    show "\<forall>i \<in> {reused ?hp..<added ?hp}. slot ?hp i < fresh ?hp"
      using img r by (auto simp: ring_ok_def dest!: equalityD1)
  qed (use inj in simp_all)
  have pend': "pending ?hp e"
    using pend img by (auto simp: pending_def)
  have "map (entry_at ?hp) [deleted ?hp..<added ?hp] = map (entry_at hp) [deleted hp..<added hp]"
    unfolding ad map_upt_shift [of _ "deleted hp"]
    using grow_slot [OF r] by (simp add: entry_at_def)
  then show "filled ?hp e hs h"
    using f ring pend' unfolding filled_def by simp
  show "added ?hp < reused ?hp + allocated ?hp"
    by simp
qed

text \<open>Putting the new entry into its slot.\<close>

definition place :: "nat \<Rightarrow> ngx_http_v2_hpack_t \<Rightarrow> ngx_http_v2_hpack_t" where
  "place e hp = hp\<lparr>entries := Some ((the (entries hp))[added hp mod allocated hp := e]), added := added hp + 1\<rparr>"

lemma mod_neq_between: "i < j \<Longrightarrow> j < i + n \<Longrightarrow> i mod n \<noteq> j mod (n :: nat)"
proof
  assume "i < j" "j < i + n" "i mod n = j mod n"
  then have "n dvd j - i"
    using mod_eq_dvd_iff_nat [of i j n] by simp
  then show False
    using \<open>i < j\<close> \<open>j < i + n\<close> by (auto dest: dvd_imp_le)
qed

lemma place_rep:
  assumes f: "filled hp e hs h" and room: "added hp < reused hp + allocated hp"
  shows "rep 0 (place e hp) (hs @ [h])"
proof -
  have r: "ring_ok hp" and pend: "pending hp e"
    using f by (simp_all add: filled_def)
  obtain es where es: "entries hp = Some es" "length es = allocated hp" "0 < allocated hp"
    using r by (auto simp: ring_ok_def)
  have le: "reused hp \<le> deleted hp" "deleted hp \<le> added hp"
    using r by (auto simp: ring_ok_def)
  have old: "slot (place e hp) i = slot hp i" if "i \<in> {reused hp..<added hp}" for i
    using that room mod_neq_between [of i "added hp" "allocated hp"] es
    by (auto simp: slot_def place_def)
  have new: "slot (place e hp) (added hp) = e"
    using es by (simp add: slot_def place_def)
  have set: "{reused (place e hp)..<added (place e hp)} = insert (added hp) {reused hp..<added hp}"
    using le by (auto simp: place_def)
  have "inj_on (slot (place e hp)) (insert (added hp) {reused hp..<added hp})"
    unfolding inj_on_insert using r pend old new
    by (auto simp: ring_ok_def pending_def image_def inj_on_def)
  moreover have "\<forall>i \<in> insert (added hp) {reused hp..<added hp}. slot (place e hp) i < fresh hp"
    using r pend old new by (auto simp: ring_ok_def pending_def)
  ultimately have "ring_ok (place e hp)"
    unfolding ring_ok_def set using es room le by (auto simp: place_def)
  moreover have "map (entry_at (place e hp)) [deleted hp..<added hp + 1] =
      map (entry_at hp) [deleted hp..<added hp] @ [heap hp e]"
    using le old new by (simp add: entry_at_def) (simp add: place_def)
  ultimately show ?thesis
    using f unfolding rep_def filled_def by (auto simp: place_def)
qed

text \<open>The whole operation, once the ring exists.\<close>

lemma add_header_rep:
  assumes rep: "rep 0 hp hs" and ok: "ok 2" "ok 3"
  obtains hp' hs' where "ngx_http_v2_add_header ok h hp = (NGX_OK, hp')" "rep 0 hp' hs'"
    "rev hs' = dyn_add (hsize hp) h (rev hs)" "hsize hp' = hsize hp"
proof -
  have init: "add_init ok hp = (NGX_OK, hp)"
    using rep by (auto simp: add_init_def rep_def ring_ok_def)
  let ?sz = "length (fst h) + length (snd h)"
  have sz: "entry_size h = ?sz + 32" by (simp add: entry_size_def)
  show thesis
  proof (cases "?sz + 32 \<le> hsize hp")
    case False
    then obtain hp' where "ngx_http_v2_table_account ?sz hp = (NGX_DECLINED, hp')" "rep 0 hp' []" "hsize hp' = hsize hp"
      using account_declined [OF rep, of ?sz] by auto
    then show thesis
      using that init False sz by (simp add: ngx_http_v2_add_header_def dyn_add_def)
  next
    case True
    obtain hp1 hs1 where acc: "ngx_http_v2_table_account ?sz hp = (NGX_OK, hp1)" "rep (?sz + 32) hp1 hs1"
      "rev hs1 = keep (hsize hp - (?sz + 32)) (rev hs)" "hsize hp1 = hsize hp"
      using account_rep [OF rep True] .
    obtain e hp2 where ent: "add_entry ok hp1 = Some (e, hp2)" "rep (?sz + 32) hp2 hs1" "pending hp2 e" "hsize hp2 = hsize hp1"
      using add_entry_rep [where ok = ok, OF acc(2) ok(1)] .
    let ?hp3 = "add_strings h e hp2"
    let ?hp4 = "if allocated ?hp3 = added ?hp3 - deleted ?hp3 then grow_entries ?hp3 else ?hp3"
    have filled3: "filled ?hp3 e hs1 h"
      using add_strings_filled ent(2,3) by (simp add: sz)
    have "filled ?hp4 e hs1 h" "added ?hp4 < reused ?hp4 + allocated ?hp4"
      using filled3 grow_filled [OF filled3]
      by (auto simp: filled_def ring_ok_def pending_def split: if_splits)
    then have "rep 0 (place e ?hp4) (hs1 @ [h])"
      by (rule place_rep)
    moreover have "ngx_http_v2_add_header ok h hp = (NGX_OK, place e ?hp4)"
      using init acc(1) ent(1) ok by (simp add: ngx_http_v2_add_header_def place_def Let_def)
    moreover have "rev (hs1 @ [h]) = dyn_add (hsize hp) h (rev hs)"
      using True acc(3) sz by (simp add: dyn_add_def)
    moreover have "hsize (place e ?hp4) = hsize hp"
      using acc(4) ent(4) by (simp add: place_def)
    ultimately show thesis
      using that by blast
  qed
qed

lemma table_size_rep:
  assumes rep: "rep 0 hp hs" and sz: "sz \<le> NGX_HTTP_V2_TABLE_SIZE"
  obtains hp' hs' where "ngx_http_v2_table_size sz hp = (NGX_OK, hp')" "rep 0 hp' hs'"
    "rev hs' = keep sz (rev hs)" "hsize hp' = sz"
proof -
  let ?n = "int (hsize hp) - int sz" let ?hp = "table_size_loop ?n hp"
  obtain hs' where hs': "rep 0 ?hp hs'" "rev hs' = keep sz (rev hs)" "?n \<le> int (free ?hp)" "hsize ?hp = hsize hp"
    using table_size_loop_rep [OF rep refl] by blast
  have "rep 0 (?hp\<lparr>hsize := sz, free := nat (int (free ?hp) - ?n)\<rparr>) hs'"
    using hs' sz by (auto simp: rep_def ring_ok_def NGX_HTTP_V2_TABLE_SIZE_def nat_diff_distrib')
  moreover have "ngx_http_v2_table_size sz hp = (NGX_OK, ?hp\<lparr>hsize := sz, free := nat (int (free ?hp) - ?n)\<rparr>)"
    using sz by (simp add: ngx_http_v2_table_size_def Let_def)
  ultimately show thesis
    using that hs'(2) by simp
qed

section \<open>Lookups\<close>

lemma laid_read:
  assumes "laid a (map (entry_at hp) [d..<n]) hs" "mirror (storage hp) a (flat hs)" "length (flat hs) \<le> 4096"
  shows "map (read_header hp) [d..<n] = hs"
  using assms
proof (induction hs arbitrary: a d)
  case Nil
  then show ?case by (auto dest: laid_length)
next
  case (Cons h hs)
  then have d: "d < n"
    by (auto dest: laid_length)
  have e: "entry_matches (entry_at hp d) a h"
    "laid (a + length (fst h @ snd h)) (map (entry_at hp) [Suc d..<n]) hs"
    using Cons.prems(1) d by (simp_all add: upt_conv_Cons)
  have "mirror (storage hp) (a + length (fst h @ snd h)) (flat hs)"
    using mirror_drop [of _ a "fst h @ snd h" "flat hs"] Cons.prems(2) by simp
  then have rest: "map (read_header hp) [Suc d..<n] = hs"
    using Cons.IH [OF e(2)] Cons.prems(3) by simp
  have "storage_get hp (name_data (entry_at hp d)) (name_len (entry_at hp d)) = fst h"
    using mirror_get [OF Cons.prems(2,3), of "name_data (entry_at hp d)" 0 "length (fst h)"] e(1)
    by (simp add: entry_matches_def)
  moreover have "storage_get hp (value_data (entry_at hp d)) (value_len (entry_at hp d)) = snd h"
    using mirror_get [OF Cons.prems(2,3), of "value_data (entry_at hp d)" "length (fst h)" "length (snd h)"] e(1)
    by (simp add: entry_matches_def)
  ultimately have "read_header hp d = h"
    by (simp add: read_header_def Let_def)
  then show ?case
    using rest d by (simp add: upt_conv_Cons)
qed

lemma rep_bytes: "rep r hp hs \<Longrightarrow> table_bytes hs \<le> hsize hp \<and> hsize hp \<le> 4096"
  by (auto simp: rep_def)

lemma rep_live: "rep r hp hs \<Longrightarrow> live hp = hs"
  using rep_bytes [of r hp hs] length_flat [of hs] laid_read [of _ hp "deleted hp" "added hp" hs]
  by (auto simp: rep_def live_def)

lemma rep_abs: "rep r hp hs \<Longrightarrow> abs_table hp = rev hs"
  using rep_live [of r hp hs] by (auto simp: abs_table_def rep_def ring_ok_def)

abbreviation all_ok :: "nat \<Rightarrow> bool" where
  "all_ok \<equiv> (\<lambda>_. True)"

lemma get_dynamic:
  assumes rep: "rep r hp hs"
  shows "ngx_http_v2_get_indexed_header all_ok hp (62 + i) False hdr =
    (if i < length (rev hs) then (NGX_OK, rev hs ! i) else (NGX_ERROR, hdr))"
proof -
  have n: "length hs = added hp - deleted hp"
    by (rule rep_length [OF rep])
  have "read_header hp (added hp - i - 1) = rev hs ! i" if i: "i < length hs"
  proof -
    have "rev hs ! i = live hp ! (length hs - Suc i)"
      using i rep_live [OF rep] by (simp add: rev_nth)
    also have "\<dots> = read_header hp (deleted hp + (length hs - Suc i))"
      using i n by (simp add: live_def)
    also have "deleted hp + (length hs - Suc i) = added hp - i - 1"
      using i n by simp
    finally show ?thesis by simp
  qed
  moreover have "length ngx_http_v2_static_table = 61"
    by (simp add: ngx_http_v2_static_table_def)
  ultimately show ?thesis
    using n by (auto simp: ngx_http_v2_get_indexed_header_def read_header_def Let_def)
qed

section \<open>The interface of a dynamic table\<close>

text \<open>What a peer does to the table: insertions and size updates, in the order of the header block.\<close>

datatype table_op = Insert header | Resize nat

fun run_ops :: "(header \<Rightarrow> 's \<Rightarrow> 's) \<Rightarrow> (nat \<Rightarrow> 's \<Rightarrow> 's) \<Rightarrow> table_op list \<Rightarrow> 's \<Rightarrow> 's" where
  "run_ops ins rsz [] s = s"
| "run_ops ins rsz (Insert h # ops) s = run_ops ins rsz ops (ins h s)"
| "run_ops ins rsz (Resize n # ops) s = run_ops ins rsz ops (rsz n s)"

fun op_ok :: "table_op \<Rightarrow> bool" where
  "op_ok (Insert h) = True"
| "op_ok (Resize n) = (n \<le> NGX_HTTP_V2_TABLE_SIZE)"

text \<open>The specification on pairs of the maximum size and the entries.\<close>

definition spec_insert :: "header \<Rightarrow> nat \<times> header list \<Rightarrow> nat \<times> header list" where
  "spec_insert h s = (fst s, dyn_add (fst s) h (snd s))"

definition spec_resize :: "nat \<Rightarrow> nat \<times> header list \<Rightarrow> nat \<times> header list" where
  "spec_resize n s = (n, keep n (snd s))"

locale dynamic_table =
  fixes inv :: "'s \<Rightarrow> bool"
    and cap :: "'s \<Rightarrow> nat"
    and tbl :: "'s \<Rightarrow> header list"
    and ins :: "header \<Rightarrow> 's \<Rightarrow> 's"
    and rsz :: "nat \<Rightarrow> 's \<Rightarrow> 's"
    and get :: "'s \<Rightarrow> nat \<Rightarrow> header option"
  assumes inv_ins: "inv s \<Longrightarrow> inv (ins h s)"
    and ins_abs: "inv s \<Longrightarrow> (cap (ins h s), tbl (ins h s)) = spec_insert h (cap s, tbl s)"
    and inv_rsz: "inv s \<Longrightarrow> n \<le> NGX_HTTP_V2_TABLE_SIZE \<Longrightarrow> inv (rsz n s)"
    and rsz_abs: "inv s \<Longrightarrow> n \<le> NGX_HTTP_V2_TABLE_SIZE \<Longrightarrow> (cap (rsz n s), tbl (rsz n s)) = spec_resize n (cap s, tbl s)"
    and get_abs: "inv s \<Longrightarrow> get s i = (if i < length (tbl s) then Some (tbl s ! i) else None)"
    and fits: "inv s \<Longrightarrow> table_bytes (tbl s) \<le> cap s"
    and cap_max: "inv s \<Longrightarrow> cap s \<le> NGX_HTTP_V2_TABLE_SIZE"
begin

lemma run_inv: "inv s \<Longrightarrow> list_all op_ok ops \<Longrightarrow> inv (run_ops ins rsz ops s)"
proof (induction ops arbitrary: s)
  case (Cons op ops)
  then show ?case
    by (cases op) (simp_all add: inv_ins inv_rsz)
qed simp

lemma run_refines:
  "inv s \<Longrightarrow> list_all op_ok ops \<Longrightarrow>
   (cap (run_ops ins rsz ops s), tbl (run_ops ins rsz ops s)) = run_ops spec_insert spec_resize ops (cap s, tbl s)"
proof (induction ops arbitrary: s)
  case (Cons op ops)
  then show ?case
    by (cases op) (simp_all add: ins_abs inv_ins rsz_abs inv_rsz)
qed simp

text \<open>A lookup after any run of operations returns the field of the specification.\<close>

lemma run_lookup:
  assumes "inv s" "list_all op_ok ops" "run_ops spec_insert spec_resize ops (cap s, tbl s) = (m, hs)"
  shows "get (run_ops ins rsz ops s) i = (if i < length hs then Some (hs ! i) else None)"
    and "table_bytes hs \<le> m" and "m \<le> NGX_HTTP_V2_TABLE_SIZE"
  using run_refines [OF assms(1,2)] run_inv [OF assms(1,2)] assms(3) get_abs fits cap_max by force+

lemma newest_first:
  assumes "inv s" "entry_size h \<le> cap s"
  shows "get (ins h s) 0 = Some h"
  using ins_abs [OF assms(1), of h] get_abs [OF inv_ins [OF assms(1)], of h 0] assms(2)
  by (simp add: spec_insert_def dyn_add_def)

end

text \<open>The code's table provides it.\<close>

definition ngx_insert :: "header \<Rightarrow> ngx_http_v2_hpack_t \<Rightarrow> ngx_http_v2_hpack_t" where
  "ngx_insert h hp = snd (ngx_http_v2_add_header all_ok h hp)"

definition ngx_resize :: "nat \<Rightarrow> ngx_http_v2_hpack_t \<Rightarrow> ngx_http_v2_hpack_t" where
  "ngx_resize n hp = snd (ngx_http_v2_table_size n hp)"

definition ngx_lookup :: "ngx_http_v2_hpack_t \<Rightarrow> nat \<Rightarrow> header option" where
  "ngx_lookup hp i =
     (case ngx_http_v2_get_indexed_header all_ok hp (62 + i) False ([], []) of
        (rc, h) \<Rightarrow> if rc = NGX_OK then Some h else None)"

definition table_inv :: "ngx_http_v2_hpack_t \<Rightarrow> bool" where
  "table_inv hp \<longleftrightarrow> (\<exists>hs. rep 0 hp hs)"

lemma insert_rep:
  "rep 0 hp hs \<Longrightarrow> \<exists>hs'. rep 0 (ngx_insert h hp) hs' \<and> rev hs' = dyn_add (hsize hp) h (rev hs) \<and>
     hsize (ngx_insert h hp) = hsize hp"
  by (erule add_header_rep [where ok = all_ok and h = h]) (auto simp: ngx_insert_def)

lemma resize_rep:
  "rep 0 hp hs \<Longrightarrow> n \<le> NGX_HTTP_V2_TABLE_SIZE \<Longrightarrow>
   \<exists>hs'. rep 0 (ngx_resize n hp) hs' \<and> rev hs' = keep n (rev hs) \<and> hsize (ngx_resize n hp) = n"
  by (erule (1) table_size_rep) (auto simp: ngx_resize_def)

interpretation ngx_table: dynamic_table table_inv hsize abs_table ngx_insert ngx_resize ngx_lookup
proof unfold_locales
  fix s h n i assume "table_inv s"
  then obtain hs where hs: "rep 0 s hs" by (auto simp: table_inv_def)
  note abs = rep_abs [OF hs]
  obtain hs1 where "rep 0 (ngx_insert h s) hs1 \<and> rev hs1 = dyn_add (hsize s) h (rev hs) \<and> hsize (ngx_insert h s) = hsize s"
    using insert_rep [OF hs] by blast
  then show "table_inv (ngx_insert h s)"
    "(hsize (ngx_insert h s), abs_table (ngx_insert h s)) = spec_insert h (hsize s, abs_table s)"
    using abs by (auto simp: table_inv_def spec_insert_def dest: rep_abs)
  show "ngx_lookup s i = (if i < length (abs_table s) then Some (abs_table s ! i) else None)"
    using get_dynamic [OF hs, of i] abs by (simp add: ngx_lookup_def)
  show "table_bytes (abs_table s) \<le> hsize s" "hsize s \<le> NGX_HTTP_V2_TABLE_SIZE"
    using rep_bytes [OF hs] abs by (simp_all add: NGX_HTTP_V2_TABLE_SIZE_def)
  assume "n \<le> NGX_HTTP_V2_TABLE_SIZE"
  then obtain hs2 where "rep 0 (ngx_resize n s) hs2 \<and> rev hs2 = keep n (rev hs) \<and> hsize (ngx_resize n s) = n"
    using resize_rep [OF hs] by blast
  then show "table_inv (ngx_resize n s)"
    "(hsize (ngx_resize n s), abs_table (ngx_resize n s)) = spec_resize n (hsize s, abs_table s)"
    using abs by (auto simp: table_inv_def spec_resize_def dest: rep_abs)
qed

section \<open>Opening the table\<close>

text \<open>Before the first insertion there is no ring; size updates only change \<open>hsize\<close> and \<open>free\<close>.\<close>

definition unopened :: "ngx_http_v2_hpack_t \<Rightarrow> bool" where
  "unopened hp \<longleftrightarrow> entries hp = None \<and> added hp = 0 \<and> deleted hp = 0 \<and> reused hp = 0 \<and> free hp = hsize hp"

lemma unopened_init: "unopened hpack_init"
  by (simp add: unopened_def hpack_init_def)

lemma unopened_resize:
  assumes "unopened hp" "n \<le> NGX_HTTP_V2_TABLE_SIZE"
  shows "unopened (ngx_resize n hp)" and "hsize (ngx_resize n hp) = n"
proof -
  have "table_size_loop (int (hsize hp) - int n) hp = hp"
    using assms(1) by (subst table_size_loop.simps) (simp add: unopened_def)
  then have "ngx_resize n hp = hp\<lparr>hsize := n, free := n\<rparr>"
    using assms by (simp add: ngx_resize_def ngx_http_v2_table_size_def unopened_def Let_def)
  then show "unopened (ngx_resize n hp)" "hsize (ngx_resize n hp) = n"
    using assms(1) by (simp_all add: unopened_def)
qed

lemma add_init_rep:
  assumes "unopened hp"
  obtains hp0 where "add_init all_ok hp = (NGX_OK, hp0)" "rep 0 hp0 []" "hsize hp0 = 4096"
proof -
  let ?hp = "hp\<lparr>allocated := 64, hsize := 4096, free := 4096, entries := Some (replicate 64 0),
    storage := replicate 4096 0, pos := 0\<rparr>"
  have "add_init all_ok hp = (NGX_OK, ?hp)"
    using assms by (simp add: add_init_def unopened_def Let_def NGX_HTTP_V2_TABLE_SIZE_def)
  moreover have "rep 0 ?hp []"
    using assms by (auto simp: rep_def ring_ok_def mirror_def unopened_def intro: exI [of _ 0])
  ultimately show thesis using that by simp
qed

lemma first_insert:
  assumes "unopened hp"
  shows "table_inv (ngx_insert h hp)" and "hsize (ngx_insert h hp) = 4096"
    and "abs_table (ngx_insert h hp) = dyn_add 4096 h []"
proof -
  obtain hp0 where hp0: "add_init all_ok hp = (NGX_OK, hp0)" "rep 0 hp0 []" "hsize hp0 = 4096"
    using add_init_rep [OF assms] .
  have "add_init all_ok hp0 = (NGX_OK, hp0)"
    using hp0(2) by (auto simp: add_init_def rep_def ring_ok_def)
  then have "ngx_insert h hp = ngx_insert h hp0"
    using hp0(1) by (simp add: ngx_insert_def ngx_http_v2_add_header_def)
  then show "table_inv (ngx_insert h hp)" "hsize (ngx_insert h hp) = 4096" "abs_table (ngx_insert h hp) = dyn_add 4096 h []"
    using insert_rep [OF hp0(2), of h] hp0(3) by (auto simp: table_inv_def dest: rep_abs)
qed

section \<open>Properties\<close>

text \<open>C15: a table that was opened by its first insertion and then saw any sequence of insertions
  and size updates holds exactly the entries, and answers every lookup, as the specification of
  RFC 7541 says; its contents fit its size, which is at most 4096.\<close>

theorem hpack_table_refines:
  assumes "list_all op_ok ops"
    and "run_ops spec_insert spec_resize ops (4096, dyn_add 4096 h []) = (m, hs)"
  shows "let hp = run_ops ngx_insert ngx_resize ops (ngx_insert h hpack_init)
         in abs_table hp = hs \<and> hsize hp = m \<and> table_bytes hs \<le> m \<and> m \<le> 4096 \<and>
            ngx_lookup hp i = (if i < length hs then Some (hs ! i) else None)"
proof -
  note first = first_insert [OF unopened_init, of h]
  have run: "run_ops spec_insert spec_resize ops
      (hsize (ngx_insert h hpack_init), abs_table (ngx_insert h hpack_init)) = (m, hs)"
    using assms(2) first by simp
  show ?thesis
    using ngx_table.run_lookup [OF first(1) assms(1) run] ngx_table.run_refines [OF first(1) assms(1)] run
    by (simp add: Let_def NGX_HTTP_V2_TABLE_SIZE_def)
qed

theorem hpack_table_refines_witness:
  "abs_table (run_ops ngx_insert ngx_resize [Insert (str ''b'', str ''2''), Resize 40, Insert (str ''c'', str ''3'')]
     (ngx_insert (str ''a'', str ''1'') hpack_init)) = [(str ''c'', str ''3'')]"
  using hpack_table_refines [of "[Insert (str ''b'', str ''2''), Resize 40, Insert (str ''c'', str ''3'')]"
      "(str ''a'', str ''1'')" 40 "[(str ''c'', str ''3'')]"]
  by (simp add: NGX_HTTP_V2_TABLE_SIZE_def spec_insert_def spec_resize_def dyn_add_def entry_size_def str_def Let_def)

text \<open>The index space of RFC 7541: the static table, then the dynamic table.\<close>

definition index_lookup :: "header list \<Rightarrow> nat \<Rightarrow> header option" where
  "index_lookup hs index =
     (if index = 0 then None
      else if index \<le> 61 then Some (ngx_http_v2_static_table ! (index - 1))
      else if index - 62 < length hs then Some (hs ! (index - 62)) else None)"

lemma length_static_table: "length ngx_http_v2_static_table = 61"
  by (simp add: ngx_http_v2_static_table_def)

lemma get_indexed:
  assumes "rep r hp hs"
  shows "ngx_http_v2_get_indexed_header all_ok hp index False hdr =
    (case index_lookup (rev hs) index of None \<Rightarrow> (NGX_ERROR, hdr) | Some h \<Rightarrow> (NGX_OK, h))"
proof (cases "index \<le> 61")
  case True
  then show ?thesis
    by (auto simp: ngx_http_v2_get_indexed_header_def index_lookup_def length_static_table Let_def)
next
  case False
  then have "index = 62 + (index - 62)" by simp
  then have "ngx_http_v2_get_indexed_header all_ok hp index False hdr =
    (if index - 62 < length (rev hs) then (NGX_OK, rev hs ! (index - 62)) else (NGX_ERROR, hdr))"
    using get_dynamic [OF assms, of "index - 62" hdr] by simp
  then show ?thesis
    using False by (auto simp: index_lookup_def)
qed

text \<open>With \<open>name_only\<close> a dynamic entry leaves the caller's value alone.\<close>

lemma get_indexed_name:
  assumes "rep r hp hs"
  shows "ngx_http_v2_get_indexed_header all_ok hp index True hdr =
    (case index_lookup (rev hs) index of None \<Rightarrow> (NGX_ERROR, hdr)
     | Some h \<Rightarrow> (NGX_OK, if index \<le> 61 then h else (fst h, snd hdr)))"
  using get_indexed [OF assms, of index hdr]
  by (auto simp: ngx_http_v2_get_indexed_header_def Let_def length_static_table split: option.splits if_splits)

lemma table_run_rep:
  assumes "list_all op_ok ops"
    and "run_ops spec_insert spec_resize ops (4096, dyn_add 4096 h []) = (m, hs)"
  shows "rep 0 (run_ops ngx_insert ngx_resize ops (ngx_insert h hpack_init)) (rev hs)"
proof -
  note first = first_insert [OF unopened_init, of h]
  obtain hs' where "rep 0 (run_ops ngx_insert ngx_resize ops (ngx_insert h hpack_init)) hs'"
    using ngx_table.run_inv [OF first(1) assms(1)] by (auto simp: table_inv_def)
  moreover from rep_abs [OF this] have "rev hs' = hs"
    using ngx_table.run_refines [OF first(1) assms(1)] assms(2) first by simp
  then have "rev hs = hs'" by auto
  ultimately show ?thesis by simp
qed



text \<open>An insertion fails only when one of its allocations fails; an insertion that returns
  \<open>NGX_OK\<close> although some allocation would have failed did what it does when all succeed.\<close>

theorem hpack_insert_errors:
  assumes "ngx_http_v2_add_header ok h hp = (rc, hp')"
  shows "rc = NGX_OK \<and> hp' = ngx_insert h hp \<or> rc = NGX_ERROR \<and> (\<exists>k < 4. \<not> ok k)"
  using assms
  by (auto simp: ngx_http_v2_add_header_def ngx_insert_def add_init_def add_entry_def Let_def
      split: if_splits prod.splits option.splits intro: exI [of _ 0] exI [of _ 1] exI [of _ 2] exI [of _ 3])

theorem hpack_insert_errors_witness:
  "fst (ngx_http_v2_add_header (\<lambda>k. k \<noteq> 1) (str ''a'', str ''1'') hpack_init) = NGX_ERROR"
  using hpack_insert_errors [of "\<lambda>k. k \<noteq> 1" "(str ''a'', str ''1'')" hpack_init NGX_ERROR
      "snd (ngx_http_v2_add_header (\<lambda>k. k \<noteq> 1) (str ''a'', str ''1'') hpack_init)"]
  by (simp add: ngx_http_v2_add_header_def add_init_def hpack_init_def Let_def)

text \<open>A size update is refused, without effect, exactly above 4096; one that comes before the
  first insertion is forgotten by it, since opening the table sets its size to 4096 again.\<close>

theorem hpack_resize_before_first_insert:
  "ngx_http_v2_table_size n hpack_init = (rc, hp) \<Longrightarrow>
   (rc = NGX_ERROR \<longleftrightarrow> 4096 < n) \<and> (4096 < n \<longrightarrow> hp = hpack_init) \<and> (n \<le> 4096 \<longrightarrow> hsize hp = n) \<and>
   hsize (ngx_insert h hp) = 4096 \<and> abs_table (ngx_insert h hp) = dyn_add 4096 h []"
proof -
  assume n: "ngx_http_v2_table_size n hpack_init = (rc, hp)"
  show ?thesis
  proof (cases "n \<le> 4096")
    case True
    then have "rc = NGX_OK" "hp = ngx_resize n hpack_init"
      using n by (auto simp: ngx_http_v2_table_size_def ngx_resize_def NGX_HTTP_V2_TABLE_SIZE_def Let_def)
    then show ?thesis
      using True unopened_resize [OF unopened_init, of n] first_insert [of hp h]
      by (simp add: NGX_HTTP_V2_TABLE_SIZE_def)
  next
    case False
    then have "rc = NGX_ERROR" "hp = hpack_init"
      using n by (auto simp: ngx_http_v2_table_size_def NGX_HTTP_V2_TABLE_SIZE_def)
    then show ?thesis
      using False first_insert [OF unopened_init, of h] by simp
  qed
qed

theorem hpack_resize_before_first_insert_witness:
  "abs_table (ngx_insert (str ''a'', str ''1'') (snd (ngx_http_v2_table_size 0 hpack_init))) = [(str ''a'', str ''1'')]"
  using hpack_resize_before_first_insert [of 0 "fst (ngx_http_v2_table_size 0 hpack_init)"
      "snd (ngx_http_v2_table_size 0 hpack_init)" "(str ''a'', str ''1'')"]
  by (simp add: dyn_add_def entry_size_def str_def)

end
