(* ===== verification/Numbers.thy ===== *)
theory Numbers
  imports Prelude
begin

text \<open>
  Numbers in text: \<open>ngx_atoi\<close> and its relatives, \<open>ngx_hextoi\<close>, \<open>ngx_hex_dump\<close> and \<open>ngx_sprintf_num\<close>
  of \<^verbatim>\<open>src/core/ngx_string.c\<close>, and the sizes, offsets and time intervals of the configuration,
  \<^verbatim>\<open>src/core/ngx_parse.c\<close>.  A string is the list of its \<open>n\<close> bytes; the result \<open>NGX_ERROR\<close> (-1) of
  these functions is \<open>None\<close>.  The signed arithmetic wraps around (\<open>s64\<close>), and the theorems show
  that it never does.
\<close>

section \<open>Parsing\<close>

definition is_digit :: "u8 \<Rightarrow> bool" where
  "is_digit ch \<longleftrightarrow> \<not> (ch < 0x30 \<or> ch > 0x39)"

definition digit_val :: "u8 \<Rightarrow> int" where
  "digit_val ch = uint ch - 48"

fun ato_loop :: "int \<Rightarrow> int \<Rightarrow> int \<Rightarrow> bytes \<Rightarrow> int option" where
  "ato_loop cutoff cutlim value [] = Some value"
| "ato_loop cutoff cutlim value (ch # line) =
     (if ch < 0x30 \<or> ch > 0x39 then None
      else if value \<ge> cutoff \<and> (value > cutoff \<or> digit_val ch > cutlim) then None
      else ato_loop cutoff cutlim (s64 (value * 10 + digit_val ch)) line)"

definition ngx_atoi :: "bytes \<Rightarrow> int option" where
  "ngx_atoi line =
     (if length line = 0 then None
      else let cutoff = NGX_MAX_INT_T_VALUE div 10; cutlim = NGX_MAX_INT_T_VALUE mod 10
           in ato_loop cutoff cutlim 0 line)"

text \<open>On a 64-bit target the limits of \<open>ssize_t\<close>, \<open>off_t\<close> and \<open>time_t\<close> are that of \<open>ngx_int_t\<close>.\<close>

definition ngx_atosz :: "bytes \<Rightarrow> int option" where
  "ngx_atosz line =
     (if length line = 0 then None
      else let cutoff = NGX_MAX_INT_T_VALUE div 10; cutlim = NGX_MAX_INT_T_VALUE mod 10
           in ato_loop cutoff cutlim 0 line)"

definition ngx_atoof :: "bytes \<Rightarrow> int option" where
  "ngx_atoof line =
     (if length line = 0 then None
      else let cutoff = NGX_MAX_INT_T_VALUE div 10; cutlim = NGX_MAX_INT_T_VALUE mod 10
           in ato_loop cutoff cutlim 0 line)"

definition ngx_atotm :: "bytes \<Rightarrow> int option" where
  "ngx_atotm line =
     (if length line = 0 then None
      else let cutoff = NGX_MAX_INT_T_VALUE div 10; cutlim = NGX_MAX_INT_T_VALUE mod 10
           in ato_loop cutoff cutlim 0 line)"

fun atofp_loop :: "int \<Rightarrow> int \<Rightarrow> int \<Rightarrow> bool \<Rightarrow> nat \<Rightarrow> bytes \<Rightarrow> (int \<times> nat) option" where
  "atofp_loop cutoff cutlim value dot point [] = Some (value, point)"
| "atofp_loop cutoff cutlim value dot point (ch # line) =
     (if point = 0 then None
      else if ch = 0x2e
      then (if dot then None else atofp_loop cutoff cutlim value True point line)
      else if ch < 0x30 \<or> ch > 0x39 then None
      else if value \<ge> cutoff \<and> (value > cutoff \<or> digit_val ch > cutlim) then None
      else atofp_loop cutoff cutlim (s64 (value * 10 + digit_val ch)) dot (point - (if dot then 1 else 0)) line)"

fun atofp_scale :: "int \<Rightarrow> int \<Rightarrow> nat \<Rightarrow> int option" where
  "atofp_scale cutoff value 0 = Some value"
| "atofp_scale cutoff value (Suc point) =
     (if value > cutoff then None else atofp_scale cutoff (s64 (value * 10)) point)"

definition ngx_atofp :: "bytes \<Rightarrow> nat \<Rightarrow> int option" where
  "ngx_atofp line point =
     (if length line = 0 then None
      else let cutoff = NGX_MAX_INT_T_VALUE div 10; cutlim = NGX_MAX_INT_T_VALUE mod 10
           in case atofp_loop cutoff cutlim 0 False point line of
                None \<Rightarrow> None
              | Some (value, point) \<Rightarrow> atofp_scale cutoff value point)"

fun hextoi_loop :: "int \<Rightarrow> int \<Rightarrow> bytes \<Rightarrow> int option" where
  "hextoi_loop cutoff value [] = Some value"
| "hextoi_loop cutoff value (ch # line) =
     (if value > cutoff then None
      else if ch \<ge> 0x30 \<and> ch \<le> 0x39 then hextoi_loop cutoff (s64 (value * 16 + (uint ch - 48))) line
      else let c = ch OR 0x20
           in if c \<ge> 0x61 \<and> c \<le> 0x66 then hextoi_loop cutoff (s64 (value * 16 + (uint c - 97 + 10))) line
              else None)"

definition ngx_hextoi :: "bytes \<Rightarrow> int option" where
  "ngx_hextoi line = (if length line = 0 then None else hextoi_loop (NGX_MAX_INT_T_VALUE div 16) 0 line)"

section \<open>Printing\<close>

definition hex_digits :: bytes where
  "hex_digits = str ''0123456789abcdef''"

definition HEX_digits :: bytes where
  "HEX_digits = str ''0123456789ABCDEF''"

fun ngx_hex_dump :: "bytes \<Rightarrow> bytes" where
  "ngx_hex_dump [] = []"
| "ngx_hex_dump (c # src) =
     hex_digits ! unat (drop_bit 4 c) # hex_digits ! unat (c AND 0xf) # ngx_hex_dump src"

text \<open>The three loops that write the digits in front of \<open>p\<close>.\<close>

fun dec_loop :: "nat \<Rightarrow> bytes \<Rightarrow> bytes" where
  "dec_loop ui p =
     (let p = (word_of_nat (ui mod 10) + 0x30) # p in if ui div 10 = 0 then p else dec_loop (ui div 10) p)"

fun hex_loop :: "bytes \<Rightarrow> nat \<Rightarrow> bytes \<Rightarrow> bytes" where
  "hex_loop digits ui p =
     (let p = digits ! (ui mod 16) # p in if ui div 16 = 0 then p else hex_loop digits (ui div 16) p)"

declare dec_loop.simps [simp del]
declare hex_loop.simps [simp del]

text \<open>What is written between \<open>buf\<close> and \<open>last\<close>, which is \<open>room\<close> bytes behind it.\<close>

definition ngx_sprintf_num :: "nat \<Rightarrow> u64 \<Rightarrow> u8 \<Rightarrow> nat \<Rightarrow> nat \<Rightarrow> bytes" where
  "ngx_sprintf_num room ui64 zero hexadecimal width =
     (let p = (if hexadecimal = 0
               then (if ui64 \<le> 0xffffffff then dec_loop (unat (ucast ui64 :: u32)) [] else dec_loop (unat ui64) [])
               else if hexadecimal = 1 then hex_loop hex_digits (unat ui64) []
               else hex_loop HEX_digits (unat ui64) []);
          pad = min (width - length p) room;
          len = (if pad + length p > room then room - pad else length p)
      in replicate pad zero @ take len p)"

section \<open>The meaning of digits\<close>

definition dec_val :: "int \<Rightarrow> bytes \<Rightarrow> int" where
  "dec_val v line = foldl (\<lambda>v ch. v * 10 + digit_val ch) v line"

lemma dec_val_simps [simp]:
  "dec_val v [] = v" "dec_val v (ch # line) = dec_val (v * 10 + digit_val ch) line"
  "dec_val v (as @ bs) = dec_val (dec_val v as) bs"
  by (simp_all add: dec_val_def)

lemma digit_range: "is_digit ch \<Longrightarrow> 0 \<le> digit_val ch \<and> digit_val ch \<le> 9"
  by (auto simp: is_digit_def digit_val_def word_less_def not_less word_le_def)

lemma dec_val_mono: "list_all is_digit line \<Longrightarrow> 0 \<le> v \<Longrightarrow> v \<le> dec_val v line"
proof (induction line arbitrary: v)
  case (Cons ch line)
  then have "0 \<le> digit_val ch" "v * 10 + digit_val ch \<le> dec_val (v * 10 + digit_val ch) line"
    using digit_range [of ch] by simp_all
  then show ?case
    using Cons.prems(2) by simp
qed simp

lemma not_digit [simp]: "(ch < 0x30 \<or> ch > 0x39) \<longleftrightarrow> \<not> is_digit ch"
  by (simp add: is_digit_def)

abbreviation INT_MAX :: int where
  "INT_MAX \<equiv> NGX_MAX_INT_T_VALUE"

text \<open>The two-part comparison with \<open>cutoff\<close> and \<open>cutlim\<close> is exactly the overflow test.\<close>

lemma cutoff_iff:
  assumes "0 \<le> d" "d \<le> 9"
  shows "(v \<ge> INT_MAX div 10 \<and> (v > INT_MAX div 10 \<or> d > INT_MAX mod 10)) \<longleftrightarrow> INT_MAX < v * 10 + d"
  using assms by (auto simp: NGX_MAX_INT_T_VALUE_def)

lemma overflow_iff:
  "is_digit ch \<Longrightarrow>
   (INT_MAX div 10 \<le> v \<and> (INT_MAX div 10 < v \<or> INT_MAX mod 10 < digit_val ch)) \<longleftrightarrow> INT_MAX < v * 10 + digit_val ch"
  using cutoff_iff [of "digit_val ch" v] digit_range [of ch] by auto

lemma s64_next: "is_digit ch \<Longrightarrow> 0 \<le> v \<Longrightarrow> \<not> INT_MAX < v * 10 + digit_val ch \<Longrightarrow> s64 (v * 10 + digit_val ch) = v * 10 + digit_val ch"
  using digit_range [of ch] by (intro s64_id) (simp_all add: NGX_MAX_INT_T_VALUE_def)

lemma dot_no_digit: "is_digit ch \<Longrightarrow> ch \<noteq> 0x2e"
  by (auto simp: is_digit_def simp del: not_digit)

lemma ato_loop_exact:
  "0 \<le> v \<Longrightarrow> v \<le> INT_MAX \<Longrightarrow>
   ato_loop (INT_MAX div 10) (INT_MAX mod 10) v line =
     (if list_all is_digit line \<and> dec_val v line \<le> INT_MAX then Some (dec_val v line) else None)"
proof (induction line arbitrary: v)
  case (Cons ch line)
  show ?case
  proof (cases "is_digit ch")
    case True
    let ?v = "v * 10 + digit_val ch"
    have "0 \<le> ?v" using digit_range [OF True] Cons.prems by simp
    then show ?thesis
      using True Cons.IH [of ?v] dec_val_mono [of line ?v] Cons.prems
      by (cases "INT_MAX < ?v") (auto simp: overflow_iff s64_next)
  qed simp
qed simp

lemma dec_val_bound: "list_all is_digit line \<Longrightarrow> 0 \<le> v \<Longrightarrow> dec_val v line < (v + 1) * 10 ^ length line"
proof (induction line arbitrary: v)
  case (Cons ch line)
  then have d: "0 \<le> digit_val ch" "digit_val ch \<le> 9"
    using digit_range [of ch] by simp_all
  have "dec_val (v * 10 + digit_val ch) line < (v * 10 + digit_val ch + 1) * 10 ^ length line"
    using Cons.IH [of "v * 10 + digit_val ch"] Cons.prems d by simp
  also have "\<dots> \<le> (v + 1) * 10 * 10 ^ length line"
    using d by (intro mult_right_mono) simp_all
  finally show ?case by (simp add: algebra_simps)
qed simp

text \<open>The digits of a number, as they are printed, mean the number.\<close>

lemma digit_char:
  assumes "d < 10"
  shows "is_digit (word_of_nat d + 0x30)" and "digit_val (word_of_nat d + 0x30) = int d"
proof -
  have "unat (word_of_nat d + 0x30 :: u8) = d + 48"
    using assms by (simp add: unat_word_ariths unat_of_nat)
  then have "uint (word_of_nat d + 0x30 :: u8) = int d + 48"
    by (metis of_nat_add of_nat_numeral uint_nat)
  then show "is_digit (word_of_nat d + 0x30)" "digit_val (word_of_nat d + 0x30) = int d"
    using assms by (auto simp: is_digit_def digit_val_def word_less_def simp del: not_digit)
qed

lemma dec_loop_correct:
  "\<exists>ds. dec_loop n p = ds @ p \<and> ds \<noteq> [] \<and> list_all is_digit ds \<and> dec_val 0 ds = int n \<and>
     (n \<noteq> 0 \<longrightarrow> 10 ^ (length ds - 1) \<le> n)"
proof (induction n p rule: dec_loop.induct)
  case (1 n p)
  let ?c = "word_of_nat (n mod 10) + 0x30 :: u8"
  note c = digit_char [of "n mod 10"]
  show ?case
  proof (cases "n div 10 = 0")
    case True
    then have "dec_loop n p = [?c] @ p"
      by (subst dec_loop.simps) simp
    moreover have "n mod 10 = n" using True by auto
    ultimately show ?thesis
      using c by (intro exI [of _ "[?c]"]) simp
  next
    case False
    then obtain ds where ds: "dec_loop (n div 10) (?c # p) = ds @ ?c # p" "ds \<noteq> []" "list_all is_digit ds"
      "dec_val 0 ds = int (n div 10)" "10 ^ (length ds - 1) \<le> n div 10"
      using "1.IH" [OF refl False] by auto
    have "dec_loop n p = (ds @ [?c]) @ p"
      using False ds(1) by (subst dec_loop.simps) simp
    moreover have "int (n div 10) * 10 + int (n mod 10) = int n"
      by presburger
    moreover have "10 ^ length ds \<le> n"
    proof -
      have "(10 :: nat) ^ length ds = 10 * 10 ^ (length ds - 1)"
        using ds(2) by (cases ds) simp_all
      with ds(5) show ?thesis by linarith
    qed
    ultimately show ?thesis
      using c ds by (intro exI [of _ "ds @ [?c]"]) simp
  qed
qed

section \<open>Fixed point\<close>

lemma dec_val_digits_mono:
  "list_all is_digit as \<Longrightarrow> list_all is_digit bs \<Longrightarrow> 0 \<le> v \<Longrightarrow> dec_val v as \<le> dec_val v (as @ bs)"
  using dec_val_mono [of as v] dec_val_mono [of bs "dec_val v as"] by simp

text \<open>Digits before the dot do not use up the places.\<close>

lemma atofp_digits:
  assumes "list_all is_digit ds" "0 \<le> v" "v \<le> INT_MAX" "0 < point"
  shows "atofp_loop (INT_MAX div 10) (INT_MAX mod 10) v False point (ds @ line) =
    (if dec_val v ds \<le> INT_MAX
     then atofp_loop (INT_MAX div 10) (INT_MAX mod 10) (dec_val v ds) False point line else None)"
  using assms
proof (induction ds arbitrary: v)
  case (Cons ch ds)
  let ?v = "v * 10 + digit_val ch"
  have d: "is_digit ch" "list_all is_digit ds" "0 \<le> ?v"
    using Cons.prems digit_range [of ch] by simp_all
  then show ?case
    using Cons.IH [of ?v] dec_val_mono [of ds ?v] Cons.prems(2,4)
    by (cases "INT_MAX < ?v") (auto simp: overflow_iff s64_next dot_no_digit)
qed simp

lemma atofp_fraction:
  assumes "list_all is_digit fs" "0 \<le> v" "v \<le> INT_MAX"
  shows "atofp_loop (INT_MAX div 10) (INT_MAX mod 10) v True point fs =
    (if length fs \<le> point \<and> dec_val v fs \<le> INT_MAX then Some (dec_val v fs, point - length fs) else None)"
  using assms
proof (induction fs arbitrary: v point)
  case (Cons ch fs)
  let ?v = "v * 10 + digit_val ch"
  have d: "is_digit ch" "list_all is_digit fs" "0 \<le> ?v"
    using Cons.prems digit_range [of ch] by simp_all
  then show ?case
    using Cons.IH [of ?v "point - 1"] dec_val_mono [of fs ?v] Cons.prems(2)
    by (cases "INT_MAX < ?v"; cases point) (auto simp: overflow_iff s64_next dot_no_digit)
qed simp

lemma atofp_scale_exact:
  assumes "0 \<le> v" "v \<le> INT_MAX"
  shows "atofp_scale (INT_MAX div 10) v n = (if v * 10 ^ n \<le> INT_MAX then Some (v * 10 ^ n) else None)"
  using assms
proof (induction n arbitrary: v)
  case (Suc n)
  show ?case
  proof (cases "v > INT_MAX div 10")
    case True
    then have "INT_MAX < v * 10"
      by (simp add: NGX_MAX_INT_T_VALUE_def)
    also have "v * 10 \<le> v * 10 ^ Suc n"
      using Suc.prems(1) by (intro mult_left_mono) simp_all
    finally show ?thesis using True by simp
  next
    case False
    then have v: "v * 10 \<le> INT_MAX"
      by (simp add: NGX_MAX_INT_T_VALUE_def)
    then have "s64 (v * 10) = v * 10"
      using Suc.prems(1) by (intro s64_id) (simp_all add: NGX_MAX_INT_T_VALUE_def)
    then show ?thesis
      using False v Suc by (simp add: mult.assoc)
  qed
qed simp

lemma scale_le: "0 \<le> v \<Longrightarrow> v \<le> v * 10 ^ n" for v :: int
  by (simp add: mult_le_cancel_left1)

section \<open>Hexadecimal\<close>

text \<open>The value of a hexadecimal digit, in either case.\<close>

definition hex_digit :: "u8 \<Rightarrow> int option" where
  "hex_digit ch =
     (if ch \<ge> 0x30 \<and> ch \<le> 0x39 then Some (uint ch - 48)
      else if ch OR 0x20 \<ge> 0x61 \<and> ch OR 0x20 \<le> 0x66 then Some (uint (ch OR 0x20) - 87) else None)"

fun hex_val :: "int \<Rightarrow> bytes \<Rightarrow> int option" where
  "hex_val v [] = Some v"
| "hex_val v (ch # line) = (case hex_digit ch of None \<Rightarrow> None | Some d \<Rightarrow> hex_val (v * 16 + d) line)"

lemma hex_digit_range: "hex_digit ch = Some d \<Longrightarrow> 0 \<le> d \<and> d \<le> 15"
  by (auto simp: hex_digit_def word_le_def split: if_splits)

lemma hex_val_mono: "hex_val v line = Some w \<Longrightarrow> 0 \<le> v \<Longrightarrow> v \<le> w"
proof (induction line arbitrary: v)
  case (Cons ch line)
  then obtain d where "hex_digit ch = Some d" "hex_val (v * 16 + d) line = Some w"
    by (auto split: option.splits)
  with Cons hex_digit_range [of ch d] show ?case by fastforce
qed simp

lemma hextoi_loop_exact:
  "0 \<le> v \<Longrightarrow> v \<le> INT_MAX \<Longrightarrow>
   hextoi_loop (INT_MAX div 16) v line =
     (case hex_val v line of None \<Rightarrow> None | Some w \<Rightarrow> if w \<le> INT_MAX then Some w else None)"
proof (induction line arbitrary: v)
  case (Cons ch line)
  show ?case
  proof (cases "hex_digit ch")
    case None
    then show ?thesis
      by (auto simp: hex_digit_def Let_def split: if_splits)
  next
    case (Some d)
    note range = hex_digit_range [OF Some]
    show ?thesis
    proof (cases "v > INT_MAX div 16")
      case True
      then have over: "INT_MAX < v * 16 + d"
        using range by (simp add: NGX_MAX_INT_T_VALUE_def)
      have "INT_MAX < w" if "hex_val (v * 16 + d) line = Some w" for w
        using hex_val_mono [OF that] over range Cons.prems(1) by simp
      then show ?thesis
        using True Some by (auto split: option.splits)
    next
      case False
      then have v: "v * 16 + d \<le> INT_MAX" "0 \<le> v * 16 + d"
        using range Cons.prems(1) by (simp_all add: NGX_MAX_INT_T_VALUE_def)
      then have "s64 (v * 16 + d) = v * 16 + d"
        by (intro s64_id) (simp_all add: NGX_MAX_INT_T_VALUE_def)
      moreover have "hextoi_loop (INT_MAX div 16) v (ch # line) =
          hextoi_loop (INT_MAX div 16) (s64 (v * 16 + d)) line"
        using False Some by (auto simp: hex_digit_def Let_def algebra_simps split: if_splits)
      ultimately show ?thesis
        using Cons.IH [OF v(2,1)] Some by simp
    qed
  qed
qed simp

lemma hex_digit_char:
  assumes "n < 16"
  shows "hex_digit (hex_digits ! n) = Some (int n)" and "hex_digit (HEX_digits ! n) = Some (int n)"
proof -
  have "list_all (\<lambda>n. hex_digit (hex_digits ! n) = Some (int n) \<and> hex_digit (HEX_digits ! n) = Some (int n)) [0..<16]"
    by (simp add: upt_eval hex_digits_def HEX_digits_def str_def hex_digit_def)
  then show "hex_digit (hex_digits ! n) = Some (int n)" "hex_digit (HEX_digits ! n) = Some (int n)"
    using assms by (simp_all add: list_all_iff)
qed

lemma hex_val_append: "hex_val v (as @ bs) = Option.bind (hex_val v as) (\<lambda>v. hex_val v bs)"
  by (induction as arbitrary: v) (auto split: option.splits)

lemma hex_loop_correct:
  assumes "digits = hex_digits \<or> digits = HEX_digits"
  shows "\<exists>ds. hex_loop digits n p = ds @ p \<and> ds \<noteq> [] \<and> hex_val 0 ds = Some (int n) \<and>
     (n \<noteq> 0 \<longrightarrow> 16 ^ (length ds - 1) \<le> n)"
  using assms
proof (induction digits n p rule: hex_loop.induct)
  case (1 digits n p)
  let ?c = "digits ! (n mod 16)"
  have c: "hex_digit ?c = Some (int (n mod 16))"
    using "1.prems" hex_digit_char [of "n mod 16"] by auto
  show ?case
  proof (cases "n div 16 = 0")
    case True
    then have "hex_loop digits n p = [?c] @ p"
      by (subst hex_loop.simps) simp
    moreover have "n mod 16 = n" using True by auto
    ultimately show ?thesis
      using c by (intro exI [of _ "[?c]"]) simp
  next
    case False
    then obtain ds where ds: "hex_loop digits (n div 16) (?c # p) = ds @ ?c # p" "ds \<noteq> []"
      "hex_val 0 ds = Some (int (n div 16))" "16 ^ (length ds - 1) \<le> n div 16"
      using "1.IH" [OF refl False "1.prems"] by auto
    have "hex_loop digits n p = (ds @ [?c]) @ p"
      using False ds(1) by (subst hex_loop.simps) simp
    moreover have "int (n div 16) * 16 + int (n mod 16) = int n"
      by presburger
    moreover have "16 ^ length ds \<le> n"
    proof -
      have "(16 :: nat) ^ length ds = 16 * 16 ^ (length ds - 1)"
        using ds(2) by (cases ds) simp_all
      with ds(4) show ?thesis by linarith
    qed
    ultimately show ?thesis
      using c ds by (intro exI [of _ "ds @ [?c]"]) (simp add: hex_val_append)
  qed
qed

lemma digits_length:
  assumes "(n \<noteq> 0 \<longrightarrow> b ^ (length ds - 1) \<le> n)" "n < 2 ^ 64" "(2 :: nat) ^ 64 \<le> b ^ 20" "1 < b" "ds \<noteq> []"
    "n = 0 \<longrightarrow> length ds = 1"
  shows "length ds \<le> 20"
proof (cases "n = 0")
  case False
  then have "b ^ (length ds - 1) < b ^ 20"
    using assms(1-3) by linarith
  then have "length ds - 1 < 20"
    using assms(4) power_strict_increasing_iff by blast
  then show ?thesis by simp
qed (use assms in simp)

text \<open>The digits of a 64-bit number, as \<open>ngx_sprintf_num\<close> has them in \<open>temp\<close>.\<close>

definition num_digits :: "u64 \<Rightarrow> nat \<Rightarrow> bytes" where
  "num_digits ui64 hexadecimal =
     (if hexadecimal = 0 then dec_loop (unat ui64) []
      else if hexadecimal = 1 then hex_loop hex_digits (unat ui64) []
      else hex_loop HEX_digits (unat ui64) [])"

lemma if_same_cond: "(c \<Longrightarrow> x = y) \<Longrightarrow> (if c then x else y) = y"
  by simp

lemma sprintf_num_eq:
  "ngx_sprintf_num room ui64 zero hexadecimal width =
   take room (replicate (width - length (num_digits ui64 hexadecimal)) zero @ num_digits ui64 hexadecimal)"
proof -
  have "dec_loop (unat (ucast ui64 :: u32)) [] = dec_loop (unat ui64) []" if "ui64 \<le> 0xffffffff"
  proof -
    have "unat ui64 < 2 ^ 32"
      using that by (simp add: word_le_nat_alt)
    then show ?thesis
      by (simp add: unsigned_ucast_eq unsigned_take_bit_eq take_bit_nat_eq_self)
  qed
  then have E: "(if ui64 \<le> 0xffffffff then dec_loop (unat (ucast ui64 :: u32)) [] else dec_loop (unat ui64) []) = dec_loop (unat ui64) []"
    by (rule if_same_cond)
  have "ngx_sprintf_num room ui64 zero hexadecimal width =
     (let p = num_digits ui64 hexadecimal; pad = min (width - length p) room;
          len = (if pad + length p > room then room - pad else length p)
      in replicate pad zero @ take len p)"
    unfolding ngx_sprintf_num_def E num_digits_def Let_def by (rule refl)
  moreover define p k where "p = num_digits ui64 hexadecimal" and "k = width - length p"
  have "take (if min k room + length p > room then room - min k room else length p) p = take (room - k) p"
    by (cases "k \<le> room") (simp_all add: min_def)
  then have "replicate (min k room) zero @ take (if min k room + length p > room then room - min k room else length p) p =
      take room (replicate k zero @ p)"
    by (simp add: take_replicate min.commute)
  ultimately show ?thesis
    unfolding Let_def p_def k_def by (simp only:)
qed

lemma num_digits_length: "length (num_digits ui64 hexadecimal) \<le> 20"
proof -
  have n: "unat ui64 < 2 ^ 64" using unsigned_less [of ui64] by simp
  have one: "length (dec_loop 0 []) = 1" "length (hex_loop d 0 []) = 1" for d
    by (subst dec_loop.simps hex_loop.simps; simp)+
  show ?thesis
  proof (cases "hexadecimal = 0")
    case True
    obtain ds where "dec_loop (unat ui64) [] = ds @ []" "ds \<noteq> []" "unat ui64 \<noteq> 0 \<longrightarrow> 10 ^ (length ds - 1) \<le> unat ui64"
      using dec_loop_correct [of "unat ui64" "[]"] by blast
    then show ?thesis
      using digits_length [of "unat ui64" 10 ds] n one True by (auto simp: num_digits_def)
  next
    case False
    define d where "d = (if hexadecimal = 1 then hex_digits else HEX_digits)"
    obtain ds where "hex_loop d (unat ui64) [] = ds @ []" "ds \<noteq> []" "unat ui64 \<noteq> 0 \<longrightarrow> 16 ^ (length ds - 1) \<le> unat ui64"
      using hex_loop_correct [of d "unat ui64" "[]"] by (auto simp: d_def)
    then show ?thesis
      using digits_length [of "unat ui64" 16 ds] n one False by (auto simp: num_digits_def d_def)
  qed
qed

section \<open>Sizes and offsets\<close>

definition ngx_parse_size :: "bytes \<Rightarrow> int option" where
  "ngx_parse_size line =
     (let len = length line
      in if len = 0 then None
         else let u = line ! (len - 1);
                  (len, max, scale) =
                    (if u = 0x4b \<or> u = 0x6b then (len - 1, NGX_MAX_INT_T_VALUE div 1024, 1024)
                     else if u = 0x4d \<or> u = 0x6d
                     then (len - 1, NGX_MAX_INT_T_VALUE div (1024 * 1024), 1024 * 1024)
                     else (len, NGX_MAX_INT_T_VALUE, 1))
              in case ngx_atosz (take len line) of
                   None \<Rightarrow> None
                 | Some sz \<Rightarrow> if sz > max then None else Some (s64 (sz * scale)))"

definition ngx_parse_offset :: "bytes \<Rightarrow> int option" where
  "ngx_parse_offset line =
     (let len = length line
      in if len = 0 then None
         else let u = line ! (len - 1);
                  (len, max, scale) =
                    (if u = 0x4b \<or> u = 0x6b then (len - 1, NGX_MAX_INT_T_VALUE div 1024, 1024)
                     else if u = 0x4d \<or> u = 0x6d
                     then (len - 1, NGX_MAX_INT_T_VALUE div (1024 * 1024), 1024 * 1024)
                     else if u = 0x47 \<or> u = 0x67
                     then (len - 1, NGX_MAX_INT_T_VALUE div (1024 * 1024 * 1024), 1024 * 1024 * 1024)
                     else (len, NGX_MAX_INT_T_VALUE, 1))
              in case ngx_atoof (take len line) of
                   None \<Rightarrow> None
                 | Some offset \<Rightarrow> if offset > max then None else Some (s64 (offset * scale)))"

lemma atoi_exact:
  "ngx_atoi line = (if line \<noteq> [] \<and> list_all is_digit line \<and> dec_val 0 line \<le> INT_MAX then Some (dec_val 0 line) else None)"
  using ato_loop_exact [of 0 line] by (simp add: ngx_atoi_def Let_def NGX_MAX_INT_T_VALUE_def)

lemmas atosz_exact = atoi_exact [unfolded ngx_atoi_def, folded ngx_atosz_def]
lemmas atoof_exact = atoi_exact [unfolded ngx_atoi_def, folded ngx_atoof_def]
lemmas atotm_exact = atoi_exact [unfolded ngx_atoi_def, folded ngx_atotm_def]

text \<open>A number with an optional suffix: its digits and what the suffix stands for.\<close>

definition split_unit :: "bool \<Rightarrow> bytes \<Rightarrow> bytes \<times> int" where
  "split_unit giga line =
     (let u = ngx_tolower (List.last line)
      in if u = 0x6b then (butlast line, 2 ^ 10)
         else if u = 0x6d then (butlast line, 2 ^ 20)
         else if giga \<and> u = 0x67 then (butlast line, 2 ^ 30)
         else (line, 1))"

lemma tolower_eq:
  "ngx_tolower u = 0x6b \<longleftrightarrow> u = 0x4b \<or> u = 0x6b" "ngx_tolower u = 0x6d \<longleftrightarrow> u = 0x4d \<or> u = 0x6d"
  "ngx_tolower u = 0x67 \<longleftrightarrow> u = 0x47 \<or> u = 0x67"
proof -
  have "list_all (\<lambda>n. (\<lambda>u. (ngx_tolower u = 0x6b \<longleftrightarrow> u = 0x4b \<or> u = 0x6b) \<and> (ngx_tolower u = 0x6d \<longleftrightarrow> u = 0x4d \<or> u = 0x6d) \<and>
      (ngx_tolower u = 0x67 \<longleftrightarrow> u = 0x47 \<or> u = 0x67)) (word_of_nat n :: u8)) [0..<256]"
    by (simp add: upt_eval ngx_tolower_def)
  from u8_check [OF this, of u]
  show "ngx_tolower u = 0x6b \<longleftrightarrow> u = 0x4b \<or> u = 0x6b" "ngx_tolower u = 0x6d \<longleftrightarrow> u = 0x4d \<or> u = 0x6d"
    "ngx_tolower u = 0x67 \<longleftrightarrow> u = 0x47 \<or> u = 0x67"
    by blast+
qed

lemma le_div_iff_int:
  assumes "0 < (s :: int)"
  shows "v \<le> m div s \<longleftrightarrow> v * s \<le> m"
proof
  assume "v \<le> m div s"
  then have "v * s \<le> m div s * s"
    using assms by (simp add: mult_right_mono)
  also have "\<dots> \<le> m"
    using div_mult_mod_eq [of m s] pos_mod_sign [OF assms, of m] by linarith
  finally show "v * s \<le> m" .
next
  assume "v * s \<le> m"
  then have "v * s div s \<le> m div s"
    using assms by (rule zdiv_mono1)
  then show "v \<le> m div s"
    using assms by simp
qed

lemma parse_unit_exact:
  assumes "0 < scale" "\<And>ds. ato ds = (if ds \<noteq> [] \<and> list_all is_digit ds \<and> dec_val 0 ds \<le> INT_MAX then Some (dec_val 0 ds) else None)"
  shows "(case ato ds of None \<Rightarrow> None | Some sz \<Rightarrow> if sz > INT_MAX div scale then None else Some (s64 (sz * scale))) =
    (if ds \<noteq> [] \<and> list_all is_digit ds \<and> dec_val 0 ds * scale \<le> INT_MAX then Some (dec_val 0 ds * scale) else None)"
proof (cases "ds \<noteq> [] \<and> list_all is_digit ds")
  case True
  define v where "v = dec_val 0 ds"
  have v: "0 \<le> v"
    using True dec_val_mono [of ds 0] by (simp add: v_def)
  have max: "v * scale \<le> INT_MAX \<longleftrightarrow> v \<le> INT_MAX div scale"
    using le_div_iff_int [OF assms(1)] by simp
  have "v \<le> INT_MAX" if "v * scale \<le> INT_MAX"
    using that v assms(1) mult_left_mono [of 1 scale v] by simp
  moreover have "0 \<le> v * scale"
    using v assms(1) by simp
  then have "s64 (v * scale) = v * scale" if "v * scale \<le> INT_MAX"
    using that unfolding NGX_MAX_INT_T_VALUE_def by (intro s64_id) linarith+
  ultimately show ?thesis
    using True max assms(2) [of ds] by (auto simp: v_def)
next
  case False
  then show ?thesis
    using assms(2) [of ds] by auto
qed

lemma parse_size_exact:
  "ngx_parse_size line =
     (let (ds, scale) = split_unit False line
      in if ds \<noteq> [] \<and> list_all is_digit ds \<and> dec_val 0 ds * scale \<le> INT_MAX then Some (dec_val 0 ds * scale) else None)"
proof (cases "line = []")
  case False
  then have u: "List.last line = line ! (length line - 1)" "take (length line - 1) line = butlast line"
    by (simp_all add: last_conv_nth butlast_conv_take)
  have one: "(case ngx_atosz ds of None \<Rightarrow> None | Some sz \<Rightarrow> if sz > INT_MAX then None else Some (s64 (sz * 1))) =
     (if ds \<noteq> [] \<and> list_all is_digit ds \<and> dec_val 0 ds \<le> INT_MAX then Some (dec_val 0 ds) else None)" for ds
    using parse_unit_exact [of 1 ngx_atosz ds, OF zero_less_one atosz_exact] unfolding div_by_1 mult_1_right .
  show ?thesis
    using False u parse_unit_exact [of _ ngx_atosz, OF _ atosz_exact, of 1024]
      parse_unit_exact [of _ ngx_atosz, OF _ atosz_exact, of 1048576]
      one
    by (simp add: ngx_parse_size_def split_unit_def tolower_eq Let_def)
qed (simp add: ngx_parse_size_def split_unit_def Let_def)

lemma parse_offset_exact:
  "ngx_parse_offset line =
     (let (ds, scale) = split_unit True line
      in if ds \<noteq> [] \<and> list_all is_digit ds \<and> dec_val 0 ds * scale \<le> INT_MAX then Some (dec_val 0 ds * scale) else None)"
proof (cases "line = []")
  case False
  then have u: "List.last line = line ! (length line - 1)" "take (length line - 1) line = butlast line"
    by (simp_all add: last_conv_nth butlast_conv_take)
  have one: "(case ngx_atoof ds of None \<Rightarrow> None | Some sz \<Rightarrow> if sz > INT_MAX then None else Some (s64 (sz * 1))) =
     (if ds \<noteq> [] \<and> list_all is_digit ds \<and> dec_val 0 ds \<le> INT_MAX then Some (dec_val 0 ds) else None)" for ds
    using parse_unit_exact [of 1 ngx_atoof ds, OF zero_less_one atoof_exact] unfolding div_by_1 mult_1_right .
  show ?thesis
    using False u parse_unit_exact [of _ ngx_atoof, OF _ atoof_exact, of 1024]
      parse_unit_exact [of _ ngx_atoof, OF _ atoof_exact, of 1048576]
      parse_unit_exact [of _ ngx_atoof, OF _ atoof_exact, of 1073741824]
      one
    by (simp add: ngx_parse_offset_def split_unit_def tolower_eq Let_def)
qed (simp add: ngx_parse_offset_def split_unit_def Let_def)

section \<open>Time intervals\<close>

text \<open>The steps of \<open>ngx_parse_time\<close>, in the order in which units may appear.\<close>

datatype time_step = St_start | St_year | St_month | St_week | St_day | St_hour | St_min | St_sec | St_msec | St_last

fun step_num :: "time_step \<Rightarrow> nat" where
  "step_num St_start = 0" | "step_num St_year = 1" | "step_num St_month = 2" | "step_num St_week = 3"
| "step_num St_day = 4" | "step_num St_hour = 5" | "step_num St_min = 6" | "step_num St_sec = 7"
| "step_num St_msec = 8" | "step_num St_last = 9"

lemma step_num_inj: "step_num a = step_num b \<longleftrightarrow> a = b"
  by (cases a; cases b) simp_all

instantiation time_step :: linorder
begin

definition less_eq_time_step :: "time_step \<Rightarrow> time_step \<Rightarrow> bool" where
  "a \<le> b \<longleftrightarrow> step_num a \<le> step_num b"

definition less_time_step :: "time_step \<Rightarrow> time_step \<Rightarrow> bool" where
  "a < b \<longleftrightarrow> step_num a < step_num b"

instance
  by standard (auto simp: less_eq_time_step_def less_time_step_def step_num_inj)

end

text \<open>The switch on the character behind a number: the new step, \<open>max\<close>, \<open>scale\<close> and what follows.\<close>

definition time_unit :: "bool \<Rightarrow> time_step \<Rightarrow> u8 \<Rightarrow> bytes \<Rightarrow> (time_step \<times> int \<times> int \<times> bytes) option" where
  "time_unit is_sec step ch p =
     (if ch = 0x79 then
        (if step > St_start then None
         else Some (St_year, NGX_MAX_INT_T_VALUE div (60 * 60 * 24 * 365), 60 * 60 * 24 * 365, p))
      else if ch = 0x4d then
        (if step \<ge> St_month then None
         else Some (St_month, NGX_MAX_INT_T_VALUE div (60 * 60 * 24 * 30), 60 * 60 * 24 * 30, p))
      else if ch = 0x77 then
        (if step \<ge> St_week then None
         else Some (St_week, NGX_MAX_INT_T_VALUE div (60 * 60 * 24 * 7), 60 * 60 * 24 * 7, p))
      else if ch = 0x64 then
        (if step \<ge> St_day then None
         else Some (St_day, NGX_MAX_INT_T_VALUE div (60 * 60 * 24), 60 * 60 * 24, p))
      else if ch = 0x68 then
        (if step \<ge> St_hour then None
         else Some (St_hour, NGX_MAX_INT_T_VALUE div (60 * 60), 60 * 60, p))
      else if ch = 0x6d then
        (if p \<noteq> [] \<and> hd p = 0x73
         then (if is_sec \<or> step \<ge> St_msec then None else Some (St_msec, NGX_MAX_INT_T_VALUE, 1, tl p))
         else if step \<ge> St_min then None
         else Some (St_min, NGX_MAX_INT_T_VALUE div 60, 60, p))
      else if ch = 0x73 then
        (if step \<ge> St_sec then None else Some (St_sec, NGX_MAX_INT_T_VALUE, 1, p))
      else if ch = 0x20 then
        (if step \<ge> St_sec then None else Some (St_last, NGX_MAX_INT_T_VALUE, 1, p))
      else None)"

lemma time_unit_shorter: "time_unit is_sec step ch p = Some (step', max', scale, p') \<Longrightarrow> length p' \<le> length p"
  by (auto simp: time_unit_def split: if_splits)

text \<open>One number with its unit: the scaled value, once \<open>ngx_parse_time\<close> has checked it.\<close>

definition time_scale :: "bool \<Rightarrow> time_step \<Rightarrow> int \<Rightarrow> int \<Rightarrow> int \<Rightarrow> int \<Rightarrow> int option" where
  "time_scale is_sec step max_v scale value tot =
     (let (scale, max_v) = (if step \<noteq> St_msec \<and> \<not> is_sec then (s64 (scale * 1000), max_v div 1000) else (scale, max_v))
      in if value > max_v then None
         else let value = s64 (value * scale)
              in if tot > s64 (NGX_MAX_INT_T_VALUE - value) then None else Some (s64 (tot + value)))"

function parse_time_loop :: "bool \<Rightarrow> time_step \<Rightarrow> int \<Rightarrow> int \<Rightarrow> bool \<Rightarrow> bytes \<Rightarrow> (int \<times> int \<times> bool) option" where
  "parse_time_loop is_sec step value tot valid [] = Some (value, tot, valid)"
| "parse_time_loop is_sec step value tot valid (ch # p) =
     (if ch \<ge> 0x30 \<and> ch \<le> 0x39
      then (if value \<ge> NGX_MAX_INT_T_VALUE div 10 \<and>
                (value > NGX_MAX_INT_T_VALUE div 10 \<or> digit_val ch > NGX_MAX_INT_T_VALUE mod 10)
            then None
            else parse_time_loop is_sec step (s64 (value * 10 + digit_val ch)) tot True p)
      else case time_unit is_sec step ch p of
             None \<Rightarrow> None
           | Some (step, max_v, scale, p') \<Rightarrow>
               (case time_scale is_sec step max_v scale value tot of
                  None \<Rightarrow> None
                | Some tot \<Rightarrow> parse_time_loop is_sec step 0 tot valid (dropWhile (\<lambda>c. c = 0x20) p')))"
  by pat_completeness auto
termination
  by (relation "measure (\<lambda>(is_sec, step, value, tot, valid, p). length p)")
    (auto dest!: time_unit_shorter intro: le_less_trans [OF length_dropWhile_le])

definition ngx_parse_time :: "bytes \<Rightarrow> bool \<Rightarrow> int option" where
  "ngx_parse_time line is_sec =
     (case parse_time_loop is_sec (if is_sec then St_start else St_month) 0 0 False line of
        None \<Rightarrow> None
      | Some (value, tot, valid) \<Rightarrow>
          if \<not> valid then None
          else if \<not> is_sec \<and> value > NGX_MAX_INT_T_VALUE div 1000 then None
          else let value = (if is_sec then value else s64 (value * 1000))
               in if tot > s64 (NGX_MAX_INT_T_VALUE - value) then None else Some (s64 (tot + value)))"

text \<open>The meaning of an interval: numbers with units in descending order.\<close>

fun unit_text :: "time_step \<Rightarrow> bytes" where
  "unit_text St_year = str ''y''" | "unit_text St_month = str ''M''" | "unit_text St_week = str ''w''"
| "unit_text St_day = str ''d''" | "unit_text St_hour = str ''h''" | "unit_text St_min = str ''m''"
| "unit_text St_sec = str ''s''" | "unit_text St_msec = str ''ms''" | "unit_text St_start = []" | "unit_text St_last = []"

fun unit_secs :: "time_step \<Rightarrow> int" where
  "unit_secs St_year = 31536000" | "unit_secs St_month = 2592000" | "unit_secs St_week = 604800"
| "unit_secs St_day = 86400" | "unit_secs St_hour = 3600" | "unit_secs St_min = 60" | "unit_secs u = 1"

definition unit_value :: "bool \<Rightarrow> time_step \<Rightarrow> int" where
  "unit_value is_sec u = (if u = St_msec \<or> is_sec then unit_secs u else unit_secs u * 1000)"

fun interval_ok :: "bool \<Rightarrow> time_step \<Rightarrow> (bytes \<times> time_step) list \<Rightarrow> bool" where
  "interval_ok is_sec step [] = True"
| "interval_ok is_sec step ((ds, u) # parts) =
     (ds \<noteq> [] \<and> list_all is_digit ds \<and> step < u \<and> u \<noteq> St_last \<and> (u = St_msec \<longrightarrow> \<not> is_sec) \<and> interval_ok is_sec u parts)"

definition interval_text :: "(bytes \<times> time_step) list \<Rightarrow> bytes" where
  "interval_text parts = concat (map (\<lambda>(ds, u). ds @ unit_text u) parts)"

definition interval_value :: "bool \<Rightarrow> (bytes \<times> time_step) list \<Rightarrow> int" where
  "interval_value is_sec parts = sum_list (map (\<lambda>(ds, u). dec_val 0 ds * unit_value is_sec u) parts)"

lemma time_loop_digits:
  assumes "list_all is_digit ds" "0 \<le> v" "v \<le> INT_MAX"
  shows "parse_time_loop is_sec step v tot valid (ds @ rest) =
    (if dec_val v ds \<le> INT_MAX then parse_time_loop is_sec step (dec_val v ds) tot (valid \<or> ds \<noteq> []) rest else None)"
  using assms
proof (induction ds arbitrary: v valid)
  case (Cons ch ds)
  let ?v = "v * 10 + digit_val ch"
  have d: "is_digit ch" "list_all is_digit ds" "0 \<le> ?v"
    using Cons.prems digit_range [of ch] by simp_all
  have ch: "ch \<ge> 0x30 \<and> ch \<le> 0x39"
    using d(1) by (auto simp: is_digit_def simp del: not_digit)
  show ?case
    using Cons.IH [of ?v True] dec_val_mono [of ds ?v] Cons.prems(2) d ch
    by (cases "INT_MAX < ?v") (auto simp: overflow_iff s64_next)
qed simp

lemma time_scale_exact:
  assumes "0 \<le> v" "v \<le> INT_MAX" "0 \<le> tot" "tot \<le> INT_MAX" "0 < scale" "scale \<le> 31536000"
    "k = (if step \<noteq> St_msec \<and> \<not> is_sec then scale * 1000 else scale)"
  shows "time_scale is_sec step (INT_MAX div scale) scale v tot =
    (if tot + v * k \<le> INT_MAX then Some (tot + v * k) else None)"
proof -
  have k: "0 < k" using assms by auto
  have s: "s64 (scale * 1000) = scale * 1000"
    using assms(5,6) by (intro s64_id) simp_all
  have max: "(if step \<noteq> St_msec \<and> \<not> is_sec then (s64 (scale * 1000), INT_MAX div scale div 1000) else (scale, INT_MAX div scale)) =
      (k, INT_MAX div k)"
    using assms(5,7) s by (simp add: zdiv_zmult2_eq)
  have le: "v > INT_MAX div k \<longleftrightarrow> \<not> v * k \<le> INT_MAX"
    using le_div_iff_int [OF k] by (simp add: not_less [symmetric])
  have p: "0 \<le> v * k" using assms(1) k by simp
  show ?thesis
  proof (cases "v * k \<le> INT_MAX")
    case True
    then have s1: "s64 (v * k) = v * k" "s64 (INT_MAX - v * k) = INT_MAX - v * k"
      using p unfolding NGX_MAX_INT_T_VALUE_def by (auto intro!: s64_id)
    have s2: "s64 (tot + v * k) = tot + v * k" if "tot + v * k \<le> INT_MAX"
      using p that assms(3) unfolding NGX_MAX_INT_T_VALUE_def by (auto intro!: s64_id)
    show ?thesis
      using True le s1 s2 unfolding time_scale_def max by (auto simp: Let_def)
  next
    case False
    then show ?thesis
      using le p assms(3) unfolding time_scale_def max by simp
  qed
qed

lemma time_unit_text:
  assumes "step < u" "u \<noteq> St_last" "u = St_msec \<longrightarrow> \<not> is_sec" "rest = [] \<or> hd rest \<noteq> 0x73"
  obtains ch p where "unit_text u @ rest = ch # p" "\<not> is_digit ch"
    "time_unit is_sec step ch p = Some (u, INT_MAX div unit_secs u, unit_secs u, rest)"
  using assms
  by (cases u) (simp_all add: time_unit_def str_def is_digit_def less_time_step_def less_eq_time_step_def del: not_digit)

lemma interval_ok_starts:
  assumes "interval_ok is_sec step parts" "list_all is_digit fs"
  shows "interval_text parts @ fs = [] \<or> is_digit (hd (interval_text parts @ fs))"
proof (cases parts)
  case Nil
  then show ?thesis using assms(2) by (cases fs) (simp_all add: interval_text_def)
next
  case (Cons part parts')
  then obtain ds u where "part = (ds, u)" "ds \<noteq> []" "list_all is_digit ds"
    using assms(1) by (cases part) auto
  then show ?thesis using Cons by (cases ds) (simp_all add: interval_text_def)
qed

lemma digit_no_stop: "is_digit c \<Longrightarrow> c \<noteq> 0x73 \<and> c \<noteq> 0x20"
  by (auto simp: is_digit_def simp del: not_digit)

lemma unit_value_pos: "0 < unit_value is_sec u"
  by (cases u) (simp_all add: unit_value_def)

lemma interval_value_nonneg: "interval_ok is_sec step parts \<Longrightarrow> 0 \<le> interval_value is_sec parts"
proof (induction parts arbitrary: step)
  case (Cons part parts)
  then obtain ds u where p: "part = (ds, u)" "list_all is_digit ds" "interval_ok is_sec u parts"
    by (cases part) auto
  then have "0 \<le> dec_val 0 ds * unit_value is_sec u"
    using dec_val_mono [of ds 0] unit_value_pos [of is_sec u] by simp
  with p Cons.IH show ?case by (simp add: interval_value_def)
qed (simp add: interval_value_def)

lemma time_loop_parts:
  assumes "interval_ok is_sec step parts" "list_all is_digit fs" "0 \<le> tot" "tot \<le> INT_MAX"
  shows "parse_time_loop is_sec step 0 tot valid (interval_text parts @ fs) =
    (if tot + interval_value is_sec parts \<le> INT_MAX \<and> dec_val 0 fs \<le> INT_MAX
     then Some (dec_val 0 fs, tot + interval_value is_sec parts, valid \<or> parts \<noteq> [] \<or> fs \<noteq> []) else None)"
  using assms
proof (induction parts arbitrary: step tot valid)
  case Nil
  then show ?case
    using time_loop_digits [of fs 0 is_sec step tot valid "[]"]
    by (simp add: interval_text_def interval_value_def NGX_MAX_INT_T_VALUE_def)
next
  case (Cons part parts)
  obtain ds u where part: "part = (ds, u)" by (cases part)
  have ok: "ds \<noteq> []" "list_all is_digit ds" "step < u" "u \<noteq> St_last" "u = St_msec \<longrightarrow> \<not> is_sec" "interval_ok is_sec u parts"
    using Cons.prems(1) part by simp_all
  define rest where "rest = interval_text parts @ fs"
  have starts: "rest = [] \<or> is_digit (hd rest)"
    unfolding rest_def by (rule interval_ok_starts [OF ok(6) Cons.prems(2)])
  then have stop: "rest = [] \<or> hd rest \<noteq> 0x73" "dropWhile (\<lambda>c. c = 0x20) rest = rest"
    using digit_no_stop by (auto simp: dropWhile_eq_self_iff)
  obtain ch p where ch: "unit_text u @ rest = ch # p" "\<not> is_digit ch"
    "time_unit is_sec step ch p = Some (u, INT_MAX div unit_secs u, unit_secs u, rest)"
    using time_unit_text [OF ok(3,4,5) stop(1)] .
  define v where "v = dec_val 0 ds"
  have v: "0 \<le> v" using dec_val_mono [OF ok(2), of 0] by (simp add: v_def)
  note pos = unit_value_pos [of is_sec u]
  have nonneg: "0 \<le> interval_value is_sec parts"
    by (rule interval_value_nonneg [OF ok(6)])
  have inp: "interval_text (part # parts) @ fs = ds @ ch # p"
    using ch(1) by (simp add: interval_text_def part rest_def)
  have val: "interval_value is_sec (part # parts) = v * unit_value is_sec u + interval_value is_sec parts"
    by (simp add: interval_value_def part v_def)
  have secs: "0 < unit_secs u" "unit_secs u \<le> 31536000"
    "unit_value is_sec u = (if u \<noteq> St_msec \<and> \<not> is_sec then unit_secs u * 1000 else unit_secs u)"
    by (cases u; simp add: unit_value_def)+
  show ?case
  proof (cases "v \<le> INT_MAX")
    case True
    have step: "parse_time_loop is_sec step v tot True (ch # p) =
      (case time_scale is_sec u (INT_MAX div unit_secs u) (unit_secs u) v tot of None \<Rightarrow> None
       | Some tot \<Rightarrow> parse_time_loop is_sec u 0 tot True rest)"
    proof -
      have "\<not> (ch \<ge> 0x30 \<and> ch \<le> 0x39)"
        using ch(2) by (auto simp: is_digit_def simp del: not_digit)
      then show ?thesis
        by (simp only: parse_time_loop.simps if_False ch(3) option.case prod.case stop(2))
    qed
    have scale: "time_scale is_sec u (INT_MAX div unit_secs u) (unit_secs u) v tot =
      (if tot + v * unit_value is_sec u \<le> INT_MAX then Some (tot + v * unit_value is_sec u) else None)"
      by (rule time_scale_exact [OF v True Cons.prems(3,4) secs])
    have "parse_time_loop is_sec step 0 tot valid (ds @ ch # p) = parse_time_loop is_sec step v tot True (ch # p)"
      using time_loop_digits [of ds 0 is_sec step tot valid "ch # p"] ok(1,2) True
      by (simp add: v_def NGX_MAX_INT_T_VALUE_def)
    moreover have "0 \<le> tot + v * unit_value is_sec u"
      using Cons.prems(3) v pos by simp
    ultimately show ?thesis
      unfolding inp val step scale
      using Cons.IH [OF ok(6) Cons.prems(2), of "tot + v * unit_value is_sec u" True] nonneg
      by (auto simp: rest_def algebra_simps)
  next
    case False
    then have "INT_MAX < v * unit_value is_sec u"
      using pos v mult_left_mono [of 1 "unit_value is_sec u" v] by simp
    then show ?thesis
      unfolding inp val
      using time_loop_digits [of ds 0 is_sec step tot valid "ch # p"] ok(2) False nonneg Cons.prems(3)
      by (simp add: v_def NGX_MAX_INT_T_VALUE_def)
  qed
qed

section \<open>Properties\<close>

text \<open>The four parsers of decimal numbers accept exactly the nonempty digit strings whose value
  does not exceed the largest signed 64-bit number, and return the value; nothing wraps around.\<close>

theorem ngx_ato_exact:
  "\<forall>f \<in> {ngx_atoi, ngx_atosz, ngx_atoof, ngx_atotm}.
     f line = (if line \<noteq> [] \<and> list_all is_digit line \<and> dec_val 0 line \<le> NGX_MAX_INT_T_VALUE
               then Some (dec_val 0 line) else None)"
  using atoi_exact [of line] by (simp add: ngx_atoi_def ngx_atosz_def ngx_atoof_def ngx_atotm_def)

theorem ngx_ato_exact_witness:
  "ngx_atotm (str ''9223372036854775807'') = Some 9223372036854775807 \<and> ngx_atotm (str ''9223372036854775808'') = None"
  using ngx_ato_exact [of "str ''9223372036854775807''"] ngx_ato_exact [of "str ''9223372036854775808''"]
  by (simp add: str_def is_digit_def digit_val_def NGX_MAX_INT_T_VALUE_def del: not_digit)

text \<open>C39: a fixed point number is read exactly: the digits before and behind the dot, at most \<open>point\<close>
  of them, are scaled by the missing places, and the result is an error exactly when it would
  overflow.  (\<open>ngx_atofp("10.5", 4, 2)\<close> is 1050.)\<close>

theorem ngx_atofp_exact:
  assumes "list_all is_digit ds" "list_all is_digit fs" "0 < point"
  shows "ngx_atofp (ds @ 0x2e # fs) point =
    (if length fs \<le> point \<and> dec_val 0 (ds @ fs) * 10 ^ (point - length fs) \<le> NGX_MAX_INT_T_VALUE
     then Some (dec_val 0 (ds @ fs) * 10 ^ (point - length fs)) else None)"
proof -
  have pos: "0 \<le> dec_val 0 ds" "dec_val 0 ds \<le> dec_val 0 (ds @ fs)"
    using dec_val_mono [OF assms(1), of 0] dec_val_mono [OF assms(2), of "dec_val 0 ds"] by simp_all
  have big: "INT_MAX < dec_val 0 (ds @ fs) * 10 ^ n" if "INT_MAX < dec_val 0 (ds @ fs)" for n
    using that scale_le [of "dec_val 0 (ds @ fs)" n] pos by simp
  have start: "atofp_loop (INT_MAX div 10) (INT_MAX mod 10) 0 False point (ds @ 0x2e # fs) =
     (if dec_val 0 ds \<le> INT_MAX
      then if length fs \<le> point \<and> dec_val 0 (ds @ fs) \<le> INT_MAX then Some (dec_val 0 (ds @ fs), point - length fs) else None
      else None)"
    using atofp_digits [OF assms(1) _ _ assms(3), of 0 "0x2e # fs"] atofp_fraction [OF assms(2) pos(1), of point] assms(3)
    by (simp add: NGX_MAX_INT_T_VALUE_def)
  show ?thesis
    using start atofp_scale_exact [of "dec_val 0 (ds @ fs)" "point - length fs"] pos big [of "point - length fs"]
    by (auto simp: ngx_atofp_def Let_def)
qed

theorem ngx_atofp_exact_witness: "ngx_atofp (str ''10.5'') 2 = Some 1050"
  using ngx_atofp_exact [of "str ''10''" "str ''5''" 2]
  by (simp add: str_def is_digit_def digit_val_def NGX_MAX_INT_T_VALUE_def del: not_digit)

lemma dec_val_zeros: "dec_val 0 (replicate k 0x30 @ ds) = dec_val 0 ds"
  by (induction k) (simp_all add: digit_val_def)

lemma hex_val_zeros: "hex_val 0 (replicate k 0x30 @ ds) = hex_val 0 ds"
  by (induction k) (simp_all add: hex_digit_def)

lemma sprintf_num_fits:
  assumes "width \<le> room" "20 \<le> room"
  shows "ngx_sprintf_num room n 0x30 h width = replicate (width - length (num_digits n h)) 0x30 @ num_digits n h"
  using assms num_digits_length [of n h] unfolding sprintf_num_eq by (intro take_all) simp

lemma num_digits_dec: "num_digits n 0 \<noteq> [] \<and> list_all is_digit (num_digits n 0) \<and> dec_val 0 (num_digits n 0) = uint n"
  using dec_loop_correct [of "unat n" "[]"] by (auto simp: num_digits_def)

lemma num_digits_hex: "h \<noteq> 0 \<Longrightarrow> num_digits n h \<noteq> [] \<and> hex_val 0 (num_digits n h) = Some (uint n)"
  using hex_loop_correct [of hex_digits "unat n" "[]"] hex_loop_correct [of HEX_digits "unat n" "[]"]
  by (auto simp: num_digits_def)

lemma hextoi_exact:
  "ngx_hextoi line = (if line = [] then None else
     case hex_val 0 line of None \<Rightarrow> None | Some w \<Rightarrow> if w \<le> INT_MAX then Some w else None)"
  using hextoi_loop_exact [of 0 line] by (simp add: ngx_hextoi_def NGX_MAX_INT_T_VALUE_def)

text \<open>Round trip.  A 64-bit number that \<open>ngx_sprintf_num\<close> prints with any zero-padded width that
  fits the buffer is read back by \<open>ngx_atoi\<close> (decimal) and \<open>ngx_hextoi\<close> (both hexadecimal forms) when
  it is a signed 64-bit number, and refused otherwise; the output never leaves the buffer.\<close>

theorem ngx_sprintf_num_roundtrip:
  "length (ngx_sprintf_num room n zero h width) \<le> room \<and>
   (width \<le> room \<longrightarrow> 20 \<le> room \<longrightarrow>
    (if h = 0 then ngx_atoi else ngx_hextoi) (ngx_sprintf_num room n 0x30 h width) =
    (if uint n \<le> NGX_MAX_INT_T_VALUE then Some (uint n) else None))"
proof (intro conjI impI)
  show "length (ngx_sprintf_num room n zero h width) \<le> room"
    by (simp add: sprintf_num_eq)
  assume "width \<le> room" "20 \<le> room"
  note out = sprintf_num_fits [OF this, of n h]
  show "(if h = 0 then ngx_atoi else ngx_hextoi) (ngx_sprintf_num room n 0x30 h width) =
    (if uint n \<le> NGX_MAX_INT_T_VALUE then Some (uint n) else None)"
  proof (cases "h = 0")
    case True
    have "list_all is_digit (replicate k 0x30)" for k
      by (induction k) (simp_all add: is_digit_def del: not_digit)
    then show ?thesis
      using True num_digits_dec [of n] unfolding out by (simp add: atoi_exact dec_val_zeros del: dec_val_simps(3))
  next
    case False
    then show ?thesis
      using num_digits_hex [of h n] unfolding out by (simp add: hextoi_exact hex_val_zeros)
  qed
qed

theorem ngx_sprintf_num_roundtrip_witness:
  "ngx_hextoi (ngx_sprintf_num 32 48879 0x30 2 8) = Some 48879"
  using ngx_sprintf_num_roundtrip [of 32 48879 "0x30" 2 8] by (simp add: NGX_MAX_INT_T_VALUE_def)

text \<open>The value of a dump: its bytes as one big-endian number.\<close>

definition be_val :: "int \<Rightarrow> bytes \<Rightarrow> int" where
  "be_val v src = foldl (\<lambda>v c. v * 256 + uint c) v src"

lemma hex_val_dump: "hex_val v (ngx_hex_dump src) = Some (be_val v src)"
proof (induction src arbitrary: v)
  case (Cons c src)
  have "int (unat (drop_bit 4 c)) * 16 + int (unat (c AND 0xf)) = uint c"
    using nibble_val [of c] by (metis of_nat_add of_nat_mult of_nat_numeral uint_nat)
  then have eq: "(v * 16 + uint (drop_bit 4 c)) * 16 + uint (c AND 0xf) = v * 256 + uint c"
    by simp
  have step: "hex_val v (ngx_hex_dump (c # src)) = hex_val ((v * 16 + uint (drop_bit 4 c)) * 16 + uint (c AND 0xf)) (ngx_hex_dump src)"
    using hex_digit_char(1) [OF nibble_less(1), of c] hex_digit_char(1) [OF nibble_less(2), of c] by simp
  show ?case
    unfolding step eq Cons by (simp add: be_val_def)
qed (simp add: be_val_def)

text \<open>A hexadecimal dump reads back as the big-endian number of its bytes, and as an error exactly
  when that is no signed 64-bit number; it has two characters a byte.\<close>

theorem ngx_hex_dump_roundtrip:
  "ngx_hextoi (ngx_hex_dump src) =
     (if src \<noteq> [] \<and> be_val 0 src \<le> NGX_MAX_INT_T_VALUE then Some (be_val 0 src) else None) \<and>
   length (ngx_hex_dump src) = 2 * length src"
proof -
  have "length (ngx_hex_dump src) = 2 * length src"
    by (induction src) simp_all
  then show ?thesis
    by (cases src) (simp_all add: hextoi_exact hex_val_dump del: ngx_hex_dump.simps(2), simp add: hextoi_exact)
qed

text \<open>The sizes and offsets of the configuration: digits with an optional \<open>k\<close>, \<open>m\<close> (and, for offsets,
  \<open>g\<close>) of either case; the error cases are exactly no digits, other characters and overflow of the
  scaled value.\<close>

theorem ngx_parse_size_offset_exact:
  "\<forall>(f, giga) \<in> {(ngx_parse_size, False), (ngx_parse_offset, True)}.
     f line = (let (ds, scale) = split_unit giga line
               in if ds \<noteq> [] \<and> list_all is_digit ds \<and> dec_val 0 ds * scale \<le> NGX_MAX_INT_T_VALUE
                  then Some (dec_val 0 ds * scale) else None)"
  using parse_size_exact [of line] parse_offset_exact [of line] by simp

theorem ngx_parse_size_offset_exact_witness:
  "ngx_parse_size (str ''10K'') = Some 10240 \<and> ngx_parse_offset (str ''9G'') = Some 9663676416 \<and> ngx_parse_size (str ''9G'') = None"
  using ngx_parse_size_offset_exact [of "str ''10K''"] ngx_parse_size_offset_exact [of "str ''9G''"]
  by (simp add: str_def split_unit_def ngx_tolower_def is_digit_def digit_val_def NGX_MAX_INT_T_VALUE_def del: not_digit)

text \<open>C40: a time interval written as numbers with units in descending order, and possibly a last
  number without a unit, means the sum of its parts (in seconds, or in milliseconds when
  \<open>is_sec\<close> is 0), and is an error exactly when that sum overflows or there is no part at all.\<close>

theorem ngx_parse_time_exact:
  assumes "interval_ok is_sec (if is_sec then St_start else St_month) parts" "list_all is_digit fs"
  shows "ngx_parse_time (interval_text parts @ fs) is_sec =
    (let v = interval_value is_sec parts + dec_val 0 fs * (if is_sec then 1 else 1000)
     in if v \<le> NGX_MAX_INT_T_VALUE \<and> (parts \<noteq> [] \<or> fs \<noteq> []) then Some v else None)"
proof -
  define t where "t = interval_value is_sec parts"
  define f where "f = dec_val 0 fs"
  have pos: "0 \<le> t" "0 \<le> f"
    using interval_value_nonneg [OF assms(1)] dec_val_mono [OF assms(2), of 0] by (simp_all add: t_def f_def)
  have loop: "parse_time_loop is_sec (if is_sec then St_start else St_month) 0 0 False (interval_text parts @ fs) =
    (if t \<le> INT_MAX \<and> f \<le> INT_MAX then Some (f, t, parts \<noteq> [] \<or> fs \<noteq> []) else None)"
    using time_loop_parts [OF assms, of 0 False] by (simp add: t_def f_def NGX_MAX_INT_T_VALUE_def)
  have lim: "f > INT_MAX div 1000 \<longleftrightarrow> INT_MAX < f * 1000"
    using le_div_iff_int [of 1000 f INT_MAX] by linarith
  have s: "s64 (INT_MAX - w) = INT_MAX - w" "s64 w = w" if "0 \<le> w" "w \<le> INT_MAX" for w
    using that unfolding NGX_MAX_INT_T_VALUE_def by (auto intro!: s64_id)
  define g where "g = (if is_sec then f else f * 1000)"
  have g: "0 \<le> g" "f \<le> g" "g = f * (if is_sec then 1 else 1000)"
    using pos by (simp_all add: g_def)
  have final: "ngx_parse_time (interval_text parts @ fs) is_sec =
     (if t \<le> INT_MAX \<and> g \<le> INT_MAX \<and> (parts \<noteq> [] \<or> fs \<noteq> [])
      then if t > s64 (INT_MAX - g) then None else Some (s64 (t + g)) else None)"
  proof (cases "t \<le> INT_MAX \<and> f \<le> INT_MAX")
    case True
    then show ?thesis
      unfolding ngx_parse_time_def loop using lim s(2) [of g] g pos by (auto simp: g_def Let_def)
  next
    case False
    then show ?thesis
      unfolding ngx_parse_time_def loop using g by auto
  qed
  show ?thesis
  proof (cases "t + g \<le> INT_MAX")
    case True
    then show ?thesis
      unfolding final Let_def t_def [symmetric] f_def [symmetric] g(3) [symmetric]
      using g(1) pos(1) s(1) [of g] s(2) [of "t + g"] by auto
  next
    case False
    then show ?thesis
      unfolding final Let_def t_def [symmetric] f_def [symmetric] g(3) [symmetric]
      using g(1) pos(1) s(1) [of g] by auto
  qed
qed

theorem ngx_parse_time_exact_witness:
  "ngx_parse_time (str ''1h30m5'') True = Some 5405"
  using ngx_parse_time_exact [of True "[(str ''1'', St_hour), (str ''30'', St_min)]" "str ''5''"]
  by (simp add: str_def interval_text_def interval_value_def unit_value_def is_digit_def digit_val_def
      less_time_step_def NGX_MAX_INT_T_VALUE_def Let_def del: not_digit)

end
