(* ===== verification/Inet.thy ===== *)
theory Inet
  imports Numbers
begin

text \<open>
  Addresses in text, \<^verbatim>\<open>src/core/ngx_inet.c\<close>: the parsers \<open>ngx_inet_addr\<close> and \<open>ngx_inet6_addr\<close>, the
  printers \<open>ngx_inet_ntop\<close> and \<open>ngx_inet6_ntop\<close>, and the CIDR blocks \<open>ngx_ptocidr\<close> and
  \<open>ngx_cidr_match\<close>.  An IPv6 address is the list of its 16 bytes, an IPv4 address (\<open>in_addr_t\<close>) a
  32-bit word in network byte order on a little-endian target.
\<close>

section \<open>Byte order\<close>

definition be32 :: "u8 \<Rightarrow> u8 \<Rightarrow> u8 \<Rightarrow> u8 \<Rightarrow> u32" where
  "be32 a b c d = push_bit 24 (ucast a) OR push_bit 16 (ucast b) OR push_bit 8 (ucast c) OR ucast d"

definition byte32 :: "u32 \<Rightarrow> nat \<Rightarrow> u8" where
  "byte32 w k = ucast (drop_bit (8 * k) w)"

definition htonl :: "u32 \<Rightarrow> u32" where
  "htonl w = be32 (byte32 w 0) (byte32 w 1) (byte32 w 2) (byte32 w 3)"

definition ntohl :: "u32 \<Rightarrow> u32" where
  "ntohl w = htonl w"

text \<open>The bytes of an \<open>in_addr_t\<close> as they lie in memory.\<close>

definition in_addr_bytes :: "u32 \<Rightarrow> bytes" where
  "in_addr_bytes w = map (byte32 w) [0, 1, 2, 3]"

lemma byte32_be32 [simp]:
  "byte32 (be32 a b c d) 0 = d" "byte32 (be32 a b c d) (Suc 0) = c"
  "byte32 (be32 a b c d) 2 = b" "byte32 (be32 a b c d) 3 = a"
  by (rule bit_word_eqI, auto simp: byte32_def be32_def bit_simps dest: bit_imp_le_length)+

lemma be32_byte32: "be32 (byte32 w 3) (byte32 w 2) (byte32 w 1) (byte32 w 0) = w"
proof (rule bit_word_eqI)
  fix n assume "n < LENGTH(32)"
  then have "n < 8 \<or> 8 \<le> n \<and> n < 16 \<or> 16 \<le> n \<and> n < 24 \<or> 24 \<le> n \<and> n < 32"
    by auto
  then show "bit (be32 (byte32 w 3) (byte32 w 2) (byte32 w 1) (byte32 w 0)) n = bit w n"
    by (auto simp: be32_def byte32_def bit_simps dest: bit_imp_le_length)
qed

lemma be32_shift: "push_bit 8 (be32 a b c d) + ucast e = be32 b c d e"
proof -
  have "push_bit 8 (be32 a b c d) + ucast e = push_bit 8 (be32 a b c d) OR ucast e"
    by (rule disjunctive_add) (auto simp: bit_simps dest: bit_imp_le_length)
  also have "\<dots> = be32 b c d e"
    by (rule bit_word_eqI) (auto simp: be32_def bit_simps dest: bit_imp_le_length)
  finally show ?thesis .
qed

lemma be32_low: "be32 a b c d AND 0xffff = push_bit 8 (ucast c) OR ucast d"
proof -
  have "be32 a b c d AND 0xffff = take_bit 16 (be32 a b c d)"
    by (rule bit_word_eqI) (simp add: bit_simps take_bit_eq_mask mask_eq_exp_minus_1)
  also have "\<dots> = push_bit 8 (ucast c) OR ucast d"
    by (rule bit_word_eqI) (auto simp: be32_def bit_simps dest: bit_imp_le_length)
  finally show ?thesis .
qed

lemma ntohl_htonl [simp]: "ntohl (htonl w) = w"
  using be32_byte32 [of w] by (simp add: ntohl_def htonl_def)

lemma in_addr_bytes_htonl: "in_addr_bytes (htonl (be32 a b c d)) = [a, b, c, d]"
  by (simp add: in_addr_bytes_def htonl_def)

definition INADDR_NONE :: u32 where
  "INADDR_NONE = 0xffffffff"

lemma be32_ones: "be32 a b c d = 0xffffffff \<longleftrightarrow> a = 0xff \<and> b = 0xff \<and> c = 0xff \<and> d = 0xff"
proof
  assume "be32 a b c d = 0xffffffff"
  then have "byte32 (be32 a b c d) k = byte32 0xffffffff k" for k by simp
  from this [of 0] this [of 1] this [of 2] this [of 3]
  show "a = 0xff \<and> b = 0xff \<and> c = 0xff \<and> d = 0xff"
    by (simp add: byte32_def [of "0xffffffff"])
qed (simp add: be32_def)

lemma htonl_none: "htonl w = INADDR_NONE \<longleftrightarrow> w = INADDR_NONE"
proof -
  have "htonl INADDR_NONE = INADDR_NONE"
    by (simp add: htonl_def INADDR_NONE_def byte32_def be32_def)
  then show ?thesis
    using ntohl_htonl ntohl_def by metis
qed

section \<open>IPv4\<close>

text \<open>The loop of \<open>ngx_inet_addr\<close>: \<open>addr\<close>, \<open>octet\<close> and the number of dots, or \<open>None\<close> for \<open>INADDR_NONE\<close>.\<close>

fun inet_addr_loop :: "bytes \<Rightarrow> u32 \<Rightarrow> nat \<Rightarrow> nat \<Rightarrow> (u32 \<times> nat \<times> nat) option" where
  "inet_addr_loop [] addr octet n = Some (addr, octet, n)"
| "inet_addr_loop (c # p) addr octet n =
     (if c \<ge> 0x30 \<and> c \<le> 0x39
      then (let octet = octet * 10 + unat (c - 0x30)
            in if octet > 255 then None else inet_addr_loop p addr octet n)
      else if c = 0x2e then inet_addr_loop p (push_bit 8 addr + word_of_nat octet) 0 (n + 1)
      else None)"

definition ngx_inet_addr :: "bytes \<Rightarrow> u32" where
  "ngx_inet_addr txt =
     (case inet_addr_loop txt 0 0 0 of
        None \<Rightarrow> INADDR_NONE
      | Some (addr, octet, n) \<Rightarrow>
          if n = 3 then htonl (push_bit 8 addr + word_of_nat octet) else INADDR_NONE)"

text \<open>\<open>"%ud.%ud.%ud.%ud"\<close>, cut off at \<open>len\<close> by \<open>ngx_snprintf\<close>; \<open>"%ud"\<close> is printed without a width.\<close>

definition fmt_ud :: "u8 \<Rightarrow> bytes" where
  "fmt_ud p = ngx_sprintf_num 20 (ucast p) 0x20 0 0"

definition fmt_dotted :: "bytes \<Rightarrow> bytes" where
  "fmt_dotted p = fmt_ud (p ! 0) @ str ''.'' @ fmt_ud (p ! 1) @ str ''.'' @ fmt_ud (p ! 2) @ str ''.'' @ fmt_ud (p ! 3)"

definition ngx_inet_ntop4 :: "bytes \<Rightarrow> nat \<Rightarrow> bytes" where
  "ngx_inet_ntop4 addr len = take len (fmt_dotted addr)"

text \<open>A part of a dotted address is its digits; the loop reads it if its value is at most 255.\<close>

lemma digit_sub: "is_digit c \<Longrightarrow> int (unat (c - 0x30)) = digit_val c"
  by (simp add: is_digit_def digit_val_def uint_sub_lem [THEN iffD1] word_le_def not_less flip: uint_nat del: not_digit)

lemma inet_loop_digits:
  assumes "list_all is_digit ds" "oct \<le> 255"
  shows "inet_addr_loop (ds @ p) addr oct n =
    (if dec_val (int oct) ds \<le> 255 then inet_addr_loop p addr (nat (dec_val (int oct) ds)) n else None)"
  using assms
proof (induction ds arbitrary: oct)
  case (Cons c ds)
  have c: "is_digit c" "list_all is_digit ds"
    using Cons.prems(1) by simp_all
  define oct' where "oct' = oct * 10 + unat (c - 0x30)"
  have v: "int oct * 10 + digit_val c = int oct'"
    using digit_sub [OF c(1)] by (simp add: oct'_def)
  have "c \<ge> 0x30 \<and> c \<le> 0x39"
    using c(1) by (simp add: is_digit_def not_less del: not_digit)
  then have "inet_addr_loop ((c # ds) @ p) addr oct n = (if oct' > 255 then None else inet_addr_loop (ds @ p) addr oct' n)"
    by (simp add: oct'_def Let_def)
  then show ?case
    using Cons.IH [of oct'] c(2) dec_val_mono [OF c(2), of "int oct'"] v by auto
qed simp

definition dec_octet :: "bytes \<Rightarrow> u8" where
  "dec_octet ds = word_of_int (dec_val 0 ds)"

definition octet_ok :: "bytes \<Rightarrow> bool" where
  "octet_ok ds \<longleftrightarrow> list_all is_digit ds \<and> dec_val 0 ds \<le> 255"

lemma octet_shift:
  assumes "octet_ok ds"
  shows "push_bit 8 (be32 a b c d) + word_of_nat (nat (dec_val 0 ds)) = be32 b c d (dec_octet ds)"
proof -
  have v: "0 \<le> dec_val 0 ds" "dec_val 0 ds < 256"
    using assms dec_val_mono [of ds 0] by (auto simp: octet_ok_def)
  have "(ucast (dec_octet ds) :: u32) = word_of_int (take_bit 8 (dec_val 0 ds))"
    by (simp add: dec_octet_def unsigned_of_int)
  also have "\<dots> = word_of_nat (nat (dec_val 0 ds))"
    using v by (simp add: take_bit_int_eq_self)
  finally have "(word_of_nat (nat (dec_val 0 ds)) :: u32) = ucast (dec_octet ds)"
    by simp
  then show ?thesis
    by (simp add: be32_shift)
qed

lemma be32_zero: "be32 0 0 0 0 = 0"
  by (simp add: be32_def)

lemma inet_loop_dot:
  "inet_addr_loop (0x2e # p) addr oct n = inet_addr_loop p (push_bit 8 addr + word_of_nat oct) 0 (n + 1)"
  by simp

lemma inet_addr_parts:
  assumes "list_all (list_all is_digit) [d1, d2, d3, d4]"
  shows "ngx_inet_addr (d1 @ str ''.'' @ d2 @ str ''.'' @ d3 @ str ''.'' @ d4) =
    (if list_all octet_ok [d1, d2, d3, d4]
     then htonl (be32 (dec_octet d1) (dec_octet d2) (dec_octet d3) (dec_octet d4)) else INADDR_NONE)"
proof -
  have dot: "str ''.'' = [0x2e]"
    by (simp add: str_def)
  have part: "inet_addr_loop (ds @ 0x2e # p) (be32 a b c d) 0 n =
      (if octet_ok ds then inet_addr_loop p (be32 b c d (dec_octet ds)) 0 (n + 1) else None)"
    if "list_all is_digit ds" for ds p a b c d n
    using inet_loop_digits [OF that, of 0 "0x2e # p" "be32 a b c d" n] that octet_shift [of ds a b c d]
    by (auto simp: octet_ok_def simp del: inet_addr_loop.simps simp add: inet_loop_dot)
  have fin: "(case inet_addr_loop ds (be32 a b c d) 0 (Suc (Suc (Suc 0))) of None \<Rightarrow> INADDR_NONE
      | Some (addr, octet, n) \<Rightarrow> if n = 3 then htonl (push_bit 8 addr + word_of_nat octet) else INADDR_NONE) =
      (if octet_ok ds then htonl (be32 b c d (dec_octet ds)) else INADDR_NONE)"
    if "list_all is_digit ds" for ds a b c d
    using inet_loop_digits [OF that, of 0 "[]" "be32 a b c d" "Suc (Suc (Suc 0))"] that octet_shift [of ds a b c d]
    by (auto simp: octet_ok_def)
  show ?thesis
    using assms unfolding ngx_inet_addr_def dot append_Cons append_Nil be32_zero [symmetric]
    by (simp add: part fin del: inet_addr_loop.simps)
qed

text \<open>What \<open>"%ud"\<close> prints of a byte is such a part.\<close>

lemma num_digits_ud: "num_digits (ucast (p :: u8)) 0 \<noteq> [] \<and> list_all is_digit (num_digits (ucast p) 0) \<and>
    dec_val 0 (num_digits (ucast p) 0) = uint p \<and> length (num_digits (ucast p) 0) \<le> 3"
proof -
  let ?n = "ucast p :: u64"
  have n: "unat ?n = unat p"
    by (simp add: unsigned_ucast_eq take_bit_nat_eq_self order.strict_trans [OF u8_less])
  then have u: "uint ?n = uint p" by (simp only: uint_nat)
  obtain ds where ds: "num_digits ?n 0 = ds" "unat ?n \<noteq> 0 \<longrightarrow> 10 ^ (length ds - 1) \<le> unat ?n"
    "unat ?n = 0 \<longrightarrow> length ds = 1"
  proof -
    obtain ds where "dec_loop (unat ?n) [] = ds @ []" "unat ?n \<noteq> 0 \<longrightarrow> 10 ^ (length ds - 1) \<le> unat ?n"
      using dec_loop_correct [of "unat ?n" "[]"] by blast
    moreover have "length (dec_loop 0 []) = 1"
      by (subst dec_loop.simps) simp
    ultimately show thesis
      using that [of ds] by (auto simp: num_digits_def)
  qed
  have "unat ?n < 256"
    using u8_less [of p] n by simp
  have "length ds \<le> 3"
  proof (rule ccontr)
    assume "\<not> length ds \<le> 3"
    then have "(10 :: nat) ^ 3 \<le> 10 ^ (length ds - 1)"
      by (intro power_increasing) simp_all
    then show False
      using ds(2,3) \<open>unat ?n < 256\<close> \<open>\<not> length ds \<le> 3\<close> by auto
  qed
  then show ?thesis
    using num_digits_dec [of ?n] ds(1) u by simp
qed

lemma fmt_ud_digits: "fmt_ud p = num_digits (ucast p) 0"
  unfolding fmt_ud_def sprintf_num_eq using num_digits_length [of "ucast p" 0] by simp

lemma fmt_ud_ok: "octet_ok (fmt_ud p)" "dec_octet (fmt_ud p) = p" "list_all is_digit (fmt_ud p)" "length (fmt_ud p) \<le> 3"
    "fmt_ud p \<noteq> []"
proof -
  have "uint p \<le> 255"
    using u8_less [of p] uint_nat [of p] by linarith
  then show "octet_ok (fmt_ud p)" "dec_octet (fmt_ud p) = p" "list_all is_digit (fmt_ud p)" "length (fmt_ud p) \<le> 3"
    "fmt_ud p \<noteq> []"
    using num_digits_ud [of p] by (simp_all add: fmt_ud_digits octet_ok_def dec_octet_def)
qed

lemma fmt_dotted_addr:
  "ngx_inet_addr (fmt_dotted p) = htonl (be32 (p ! 0) (p ! 1) (p ! 2) (p ! 3))" "length (fmt_dotted p) \<le> 15"
proof -
  show "ngx_inet_addr (fmt_dotted p) = htonl (be32 (p ! 0) (p ! 1) (p ! 2) (p ! 3))"
    unfolding fmt_dotted_def using inet_addr_parts [of "fmt_ud (p ! 0)" "fmt_ud (p ! 1)" "fmt_ud (p ! 2)" "fmt_ud (p ! 3)"]
    by (simp add: fmt_ud_ok)
  show "length (fmt_dotted p) \<le> 15"
    unfolding fmt_dotted_def using fmt_ud_ok(4) [of "p ! 0"] fmt_ud_ok(4) [of "p ! 1"] fmt_ud_ok(4) [of "p ! 2"] fmt_ud_ok(4) [of "p ! 3"]
    by (simp add: str_def)
qed

section \<open>IPv6\<close>

text \<open>The variables of \<open>ngx_inet6_addr\<close>.  \<open>i6_addr\<close> is what has been written, \<open>i6_zero\<close> the place of \<open>::\<close>
  in it, and \<open>i6_digit\<close> the text behind the last colon (\<open>digit\<close> with length \<open>len4 - 1\<close>).\<close>

record inet6_state =
  i6_addr :: bytes
  i6_zero :: "nat option"
  i6_digit :: "bytes option"
  i6_nibbles :: nat
  i6_word :: nat
  i6_n :: nat

definition hi_lo :: "nat \<Rightarrow> bytes" where
  "hi_lo word = [word_of_nat (word div 256), word_of_nat (word mod 256)]"

fun inet6_loop :: "inet6_state \<Rightarrow> bytes \<Rightarrow> inet6_state option" where
  "inet6_loop st [] = Some st"
| "inet6_loop st (c # p) =
     (if c = 0x3a then
        (if i6_nibbles st \<noteq> 0 then
           (let st = st\<lparr>i6_digit := Some p, i6_addr := i6_addr st @ hi_lo (i6_word st), i6_n := i6_n st - 1\<rparr>
            in if i6_n st \<noteq> 0 then inet6_loop (st\<lparr>i6_nibbles := 0, i6_word := 0\<rparr>) p else None)
         else if i6_zero st = None
         then inet6_loop (st\<lparr>i6_digit := Some p, i6_zero := Some (length (i6_addr st))\<rparr>) p
         else None)
      else if c = 0x2e \<and> i6_nibbles st \<noteq> 0 then
        (if i6_n st < 2 \<or> i6_digit st = None then None
         else let word = ngx_inet_addr (the (i6_digit st))
              in if word = INADDR_NONE then None
                 else let word = ntohl word
                      in Some (st\<lparr>i6_addr := i6_addr st @ [ucast (drop_bit 24 word), ucast (drop_bit 16 word)],
                                  i6_word := unat (word AND 0xffff), i6_n := i6_n st - 1\<rparr>))
      else let nibbles = i6_nibbles st + 1
           in if nibbles > 4 then None
              else if c \<ge> 0x30 \<and> c \<le> 0x39
              then inet6_loop (st\<lparr>i6_nibbles := nibbles, i6_word := i6_word st * 16 + unat (c - 0x30)\<rparr>) p
              else let c = c OR 0x20
                   in if c \<ge> 0x61 \<and> c \<le> 0x66
                      then inet6_loop (st\<lparr>i6_nibbles := nibbles, i6_word := i6_word st * 16 + unat (c - 0x61) + 10\<rparr>) p
                      else None)"

text \<open>The end of \<open>ngx_inet6_addr\<close>: the last word, and the zeros moved in at \<open>::\<close>.\<close>

definition inet6_finish :: "inet6_state \<Rightarrow> bytes option" where
  "inet6_finish st =
     (if i6_nibbles st = 0 \<and> i6_zero st = None then None
      else let addr = i6_addr st @ hi_lo (i6_word st); n = i6_n st - 1
           in if n \<noteq> 0
              then (case i6_zero st of
                      None \<Rightarrow> None
                    | Some z \<Rightarrow> Some (take z addr @ replicate (n * 2) 0 @ drop z addr))
              else if i6_zero st = None then Some addr else None)"

definition inet6_init :: inet6_state where
  "inet6_init = \<lparr>i6_addr = [], i6_zero = None, i6_digit = None, i6_nibbles = 0, i6_word = 0, i6_n = 8\<rparr>"

definition ngx_inet6_addr :: "bytes \<Rightarrow> bytes option" where
  "ngx_inet6_addr p =
     (if length p = 0 then None
      else case inet6_loop inet6_init (if hd p = 0x3a then tl p else p) of
             None \<Rightarrow> None
           | Some st \<Rightarrow> inet6_finish st)"

text \<open>The first loop of \<open>ngx_inet6_ntop\<close>: the first of the longest runs of two or more zero words; \<open>zero\<close>
  and \<open>lst\<close> (\<open>last\<close>) are \<open>None\<close> for -1.\<close>

fun zero_runs :: "nat \<Rightarrow> bytes \<Rightarrow> nat option \<Rightarrow> nat option \<Rightarrow> nat \<Rightarrow> nat \<Rightarrow> nat option \<times> nat" where
  "zero_runs i (a # b # p) zero lst mx n =
     (if a \<noteq> 0 \<or> b \<noteq> 0
      then (if mx < n then zero_runs (i + 2) p lst lst n 0 else zero_runs (i + 2) p zero lst mx 0)
      else zero_runs (i + 2) p zero (if n = 0 then Some i else lst) mx (n + 1))"
| "zero_runs i p zero lst mx n = (if mx < n then (lst, n) else (zero, mx))"

definition fmt_xd :: "bytes \<Rightarrow> nat \<Rightarrow> bytes" where
  "fmt_xd p i = ngx_sprintf_num 20 (word_of_nat (unat (p ! i) * 256 + unat (p ! (i + 1)))) 0x20 1 0"

function print6 :: "bytes \<Rightarrow> nat option \<Rightarrow> nat \<Rightarrow> nat \<Rightarrow> nat \<Rightarrow> bytes" where
  "print6 p zero mx n i =
     (if i < n
      then if zero = Some i then 0x3a # print6 p zero mx n (i + (mx - 1) * 2 + 2)
           else fmt_xd p i @ (if i < 14 then [0x3a] else []) @ print6 p zero mx n (i + 2)
      else [])"
  by pat_completeness auto
termination
  by (relation "measure (\<lambda>(p, zero, mx, n, i). n - i)") auto

declare print6.simps [simp del]

definition NGX_INET6_ADDRSTRLEN :: nat where
  "NGX_INET6_ADDRSTRLEN = 45"

definition ngx_inet6_ntop :: "bytes \<Rightarrow> nat \<Rightarrow> bytes" where
  "ngx_inet6_ntop p len =
     (if len < NGX_INET6_ADDRSTRLEN then []
      else let (zero, mx) = zero_runs 0 p None None 1 0;
               dotted = (zero = Some 0 \<and>
                 (mx = 5 \<and> p ! 10 = 0xff \<and> p ! 11 = 0xff \<or> mx = 6 \<or> mx = 7 \<and> p ! 14 \<noteq> 0 \<and> p ! 15 \<noteq> 1));
               n = (if dotted then 12 else 16)
           in (if zero = Some 0 then [0x3a] else []) @ print6 p zero mx n 0 @
              (if n = 12 then fmt_dotted (drop 12 p) else []))"

text \<open>The parser never writes outside the 16 bytes, and a result fills them.\<close>

definition inet6_inv :: "inet6_state \<Rightarrow> bool" where
  "inet6_inv st \<longleftrightarrow> length (i6_addr st) + 2 * i6_n st = 16 \<and> 0 < i6_n st \<and>
     (case i6_zero st of None \<Rightarrow> True | Some z \<Rightarrow> z \<le> length (i6_addr st))"

lemma length_hi_lo [simp]: "length (hi_lo w) = 2"
  by (simp add: hi_lo_def)

lemma inet6_inv_frame [simp]:
  "inet6_inv (st\<lparr>i6_nibbles := a, i6_word := b\<rparr>) = inet6_inv st"
  by (simp add: inet6_inv_def cong: option.case_cong)

lemma inet6_inv_colon:
  "inet6_inv st \<Longrightarrow> i6_n st - 1 \<noteq> 0 \<Longrightarrow>
   inet6_inv (st\<lparr>i6_digit := d, i6_addr := i6_addr st @ hi_lo w, i6_n := i6_n st - 1, i6_nibbles := a, i6_word := b\<rparr>)"
  "inet6_inv st \<Longrightarrow> inet6_inv (st\<lparr>i6_digit := d, i6_zero := Some (length (i6_addr st))\<rparr>)"
  "inet6_inv st \<Longrightarrow> 2 \<le> i6_n st \<Longrightarrow>
   inet6_inv (st\<lparr>i6_addr := i6_addr st @ [x, y], i6_word := b, i6_n := i6_n st - 1\<rparr>)"
  by (auto simp: inet6_inv_def split: option.splits)

lemma inet6_loop_inv: "inet6_loop st p = Some st' \<Longrightarrow> inet6_inv st \<Longrightarrow> inet6_inv st'"
proof (induction st p rule: inet6_loop.induct)
  case (2 st c p)
  note inv = "2.prems"(2)
  show ?case
  proof (cases "c = 0x3a")
    case True
    show ?thesis
    proof (cases "i6_nibbles st = 0")
      case zero: True
      then show ?thesis
        using "2.IH"(2) [OF True] "2.prems"(1) inet6_inv_colon(2) [OF inv] True by (auto split: if_splits)
    next
      case False
      then show ?thesis
        using "2.IH"(1) [OF True False refl] "2.prems"(1) inet6_inv_colon(1) [OF inv] True by (auto simp: Let_def split: if_splits)
    qed
  next
    case colon: False
    show ?thesis
    proof (cases "c = 0x2e \<and> i6_nibbles st \<noteq> 0")
      case True
      then show ?thesis
        using "2.prems"(1) inet6_inv_colon(3) [OF inv] by (auto simp: Let_def split: if_splits)
    next
      case False
      then show ?thesis
        using "2.IH"(3,4) "2.prems"(1) inv colon by (auto simp: Let_def split: if_splits)
    qed
  qed
qed simp

lemma inet6_addr_length: "ngx_inet6_addr p = Some a \<Longrightarrow> length a = 16"
proof -
  have start: "inet6_inv inet6_init"
    by (simp add: inet6_inv_def inet6_init_def)
  have fin: "length a = 16" if "inet6_inv st" "inet6_finish st = Some a" for st
    using that by (auto simp: inet6_inv_def inet6_finish_def Let_def split: if_splits option.splits)
  assume "ngx_inet6_addr p = Some a"
  then show ?thesis
    using inet6_loop_inv [OF _ start] fin by (auto simp: ngx_inet6_addr_def split: if_splits option.splits)
qed

section \<open>Reading what was printed\<close>

text \<open>The word at index \<open>k\<close> of an address, and the bytes of some of its words.\<close>

definition word_at :: "bytes \<Rightarrow> nat \<Rightarrow> nat" where
  "word_at p k = unat (p ! (2 * k)) * 256 + unat (p ! (2 * k + 1))"

definition words :: "bytes \<Rightarrow> nat list \<Rightarrow> bytes" where
  "words p ks = concat (map (\<lambda>k. [p ! (2 * k), p ! (2 * k + 1)]) ks)"

lemma words_simps [simp]:
  "words p [] = []" "words p (k # ks) = p ! (2 * k) # p ! (2 * k + 1) # words p ks"
  "words p (ks @ ks') = words p ks @ words p ks'" "length (words p ks) = 2 * length ks"
  by (simp_all add: words_def length_concat o_def sum_list_triv)

lemma word_at_less: "word_at p k < 65536"
  using u8_less [of "p ! (2 * k)"] u8_less [of "p ! (2 * k + 1)"] by (simp add: word_at_def)

lemma hi_lo_word_at: "hi_lo (word_at p k) = [p ! (2 * k), p ! (2 * k + 1)]"
proof -
  have "word_at p k div 256 = unat (p ! (2 * k))" "word_at p k mod 256 = unat (p ! (2 * k + 1))"
    using u8_less [of "p ! (2 * k + 1)"] by (simp_all add: word_at_def)
  then show ?thesis by (simp add: hi_lo_def)
qed

lemma all_words: "length p = 16 \<Longrightarrow> words p [0..<8] = p"
  by (rule nth_equalityI) (auto simp: words_def upt_eval numeral_eq_Suc nth_Cons' less_Suc_eq)

lemma fmt_xd_digits:
  "hex_val 0 (fmt_xd p (2 * k)) = Some (int (word_at p k))" "fmt_xd p (2 * k) \<noteq> []" "length (fmt_xd p (2 * k)) \<le> 4"
proof -
  let ?w = "word_of_nat (word_at p k) :: u64"
  have u: "unat ?w = word_at p k"
    using word_at_less [of p k] by (simp add: unat_of_nat)
  have d: "fmt_xd p (2 * k) = num_digits ?w 1"
    unfolding fmt_xd_def sprintf_num_eq word_at_def [symmetric] using num_digits_length [of ?w 1] by simp
  show "hex_val 0 (fmt_xd p (2 * k)) = Some (int (word_at p k))" "fmt_xd p (2 * k) \<noteq> []"
    using num_digits_hex [of 1 ?w] u by (simp_all add: d uint_nat)
  obtain ds where ds: "num_digits ?w 1 = ds" "word_at p k \<noteq> 0 \<longrightarrow> 16 ^ (length ds - 1) \<le> word_at p k"
    "word_at p k = 0 \<longrightarrow> length ds = 1"
  proof -
    obtain ds where "hex_loop hex_digits (unat ?w) [] = ds @ []" "unat ?w \<noteq> 0 \<longrightarrow> 16 ^ (length ds - 1) \<le> unat ?w"
      using hex_loop_correct [of hex_digits "unat ?w" "[]"] by blast
    moreover have "length (hex_loop hex_digits 0 []) = 1"
      by (subst hex_loop.simps) simp
    ultimately show thesis
      using that [of ds] u by (auto simp: num_digits_def)
  qed
  have "length ds \<le> 4"
  proof (rule ccontr)
    assume "\<not> length ds \<le> 4"
    then have "(16 :: nat) ^ 4 \<le> 16 ^ (length ds - 1)"
      by (intro power_increasing) simp_all
    then show False
      using ds(2,3) word_at_less [of p k] \<open>\<not> length ds \<le> 4\<close> by auto
  qed
  then show "length (fmt_xd p (2 * k)) \<le> 4"
    unfolding d ds(1) .
qed

lemma hex_no_sep:
  assumes "hex_digit c = Some d"
  shows "c \<noteq> 0x3a" "c \<noteq> 0x2e"
  using assms by (auto simp: hex_digit_def)

lemma uint_diff: "b \<le> a \<Longrightarrow> int (unat (a - b)) = uint a - uint b" for a b :: u8
  by (simp add: uint_sub_lem [THEN iffD1] word_le_def flip: uint_nat)

lemma loop_hex:
  assumes "hex_digit c = Some d" "i6_nibbles st < 4"
  shows "inet6_loop st (c # p) = inet6_loop (st\<lparr>i6_nibbles := i6_nibbles st + 1, i6_word := i6_word st * 16 + nat d\<rparr>) p"
proof (cases "c \<ge> 0x30 \<and> c \<le> 0x39")
  case True
  then have "d = uint c - 48"
    using assms(1) by (simp add: hex_digit_def)
  then have "int (unat (c - 0x30)) = d"
    using True uint_diff [of "0x30" c] by simp
  then have "nat d = unat (c - 0x30)"
    by linarith
  then show ?thesis
    using True hex_no_sep [OF assms(1)] assms(2) by (simp add: Let_def)
next
  case False
  then have c: "c OR 0x20 \<ge> 0x61" "c OR 0x20 \<le> 0x66" "d = uint (c OR 0x20) - 87"
    using assms(1) by (auto simp: hex_digit_def split: if_splits)
  then have "int (unat ((c OR 0x20) - 0x61) + 10) = d"
    using uint_diff [of "0x61" "c OR 0x20"] by simp
  then have "nat d = unat ((c OR 0x20) - 0x61) + 10"
    by linarith
  then show ?thesis
    using False c hex_no_sep [OF assms(1)] assms(2) by (auto simp: Let_def add.assoc)
qed

lemma loop_hex_val:
  assumes "hex_val (int (i6_word st)) ds = Some v" "i6_nibbles st + length ds \<le> 4"
  shows "inet6_loop st (ds @ rest) =
    inet6_loop (st\<lparr>i6_nibbles := i6_nibbles st + length ds, i6_word := nat v\<rparr>) rest"
  using assms
proof (induction ds arbitrary: st)
  case (Cons c ds)
  then obtain d where d: "hex_digit c = Some d" "hex_val (int (i6_word st) * 16 + d) ds = Some v"
    by (auto split: option.splits)
  let ?st = "st\<lparr>i6_nibbles := i6_nibbles st + 1, i6_word := i6_word st * 16 + nat d\<rparr>"
  have "int (i6_word ?st) = int (i6_word st) * 16 + d"
    using hex_digit_range [OF d(1)] by simp
  then have "inet6_loop ?st (ds @ rest) = inet6_loop (?st\<lparr>i6_nibbles := i6_nibbles ?st + length ds, i6_word := nat v\<rparr>) rest"
    using Cons.IH [of ?st] Cons.prems(2) d(2) by simp
  then show ?case
    using loop_hex [OF d(1), of st "ds @ rest"] Cons.prems(2) by simp
qed auto

text \<open>One word of an address.\<close>

definition fresh_word :: "inet6_state \<Rightarrow> bool" where
  "fresh_word st \<longleftrightarrow> i6_nibbles st = 0 \<and> i6_word st = 0"

lemma loop_word:
  assumes "fresh_word st"
  shows "inet6_loop st (fmt_xd p (2 * k) @ rest) =
    inet6_loop (st\<lparr>i6_nibbles := length (fmt_xd p (2 * k)), i6_word := word_at p k\<rparr>) rest"
  using loop_hex_val [of st "fmt_xd p (2 * k)" "int (word_at p k)" rest] fmt_xd_digits [of p k] assms
  by (simp add: fresh_word_def)

definition after_words :: "bytes \<Rightarrow> nat list \<Rightarrow> bytes \<Rightarrow> inet6_state \<Rightarrow> inet6_state" where
  "after_words p ks rest st =
     st\<lparr>i6_addr := i6_addr st @ words p ks, i6_n := i6_n st - length ks,
        i6_digit := (if ks = [] then i6_digit st else Some rest)\<rparr>"

lemma after_words_sel [simp]:
  "i6_addr (after_words p ks rest st) = i6_addr st @ words p ks" "i6_n (after_words p ks rest st) = i6_n st - length ks"
  "i6_zero (after_words p ks rest st) = i6_zero st" "fresh_word (after_words p ks rest st) = fresh_word st"
  "i6_digit (after_words p ks rest st) = (if ks = [] then i6_digit st else Some rest)"
  by (simp_all add: after_words_def fresh_word_def)

lemma loop_words:
  assumes "fresh_word st" "length ks < i6_n st"
  shows "inet6_loop st (concat (map (\<lambda>k. fmt_xd p (2 * k) @ [0x3a]) ks) @ rest) = inet6_loop (after_words p ks rest st) rest"
  using assms
proof (induction ks arbitrary: st)
  case Nil
  then show ?case by (simp add: after_words_def)
next
  case (Cons k ks)
  let ?more = "concat (map (\<lambda>k. fmt_xd p (2 * k) @ [0x3a]) ks) @ rest"
  let ?st = "st\<lparr>i6_digit := Some ?more, i6_addr := i6_addr st @ hi_lo (word_at p k), i6_n := i6_n st - 1,
    i6_nibbles := 0, i6_word := 0\<rparr>"
  have "inet6_loop st (fmt_xd p (2 * k) @ 0x3a # ?more) = inet6_loop ?st ?more"
    using loop_word [OF Cons.prems(1), of p k "0x3a # ?more"] fmt_xd_digits(2) [of p k] Cons.prems
    by (simp add: Let_def fresh_word_def)
  also have "\<dots> = inet6_loop (after_words p ks rest ?st) rest"
    using Cons by (intro Cons.IH) (auto simp: fresh_word_def)
  also have "after_words p ks rest ?st = after_words p (k # ks) rest st"
    using Cons.prems(1) by (cases ks) (simp_all add: after_words_def hi_lo_word_at fresh_word_def)
  finally show ?case by simp
qed

text \<open>The end of the address after its last word.\<close>

lemma finish_word:
  assumes "fresh_word st"
  shows "Option.bind (inet6_loop st (fmt_xd p (2 * k))) inet6_finish =
    (let addr = i6_addr st @ words p [k]; n = i6_n st - 1
     in if n \<noteq> 0 then map_option (\<lambda>z. take z addr @ replicate (n * 2) 0 @ drop z addr) (i6_zero st)
        else if i6_zero st = None then Some addr else None)"
  using loop_word [OF assms, of p k "[]"] fmt_xd_digits(2) [of p k]
  by (auto simp: inet6_finish_def Let_def hi_lo_word_at split: option.splits)

lemma inet6_addr_bind:
  "ngx_inet6_addr p = (if p = [] then None else Option.bind (inet6_loop inet6_init (if hd p = 0x3a then tl p else p)) inet6_finish)"
  by (auto simp: ngx_inet6_addr_def split: option.splits)

section \<open>The run of zeros\<close>

definition zeros_at :: "bytes \<Rightarrow> nat \<Rightarrow> nat \<Rightarrow> bool" where
  "zeros_at p i n \<longleftrightarrow> even i \<and> i + 2 * n \<le> length p \<and> (\<forall>j < 2 * n. p ! (i + j) = 0)"

definition run_ok :: "bytes \<Rightarrow> nat option \<Rightarrow> nat \<Rightarrow> bool" where
  "run_ok p zero mx \<longleftrightarrow> (case zero of None \<Rightarrow> mx = 1 | Some z \<Rightarrow> 2 \<le> mx \<and> zeros_at p z mx)"

definition last_ok :: "bytes \<Rightarrow> nat \<Rightarrow> nat option \<Rightarrow> nat \<Rightarrow> bool" where
  "last_ok p i lst n \<longleftrightarrow> n = 0 \<or> (\<exists>l. lst = Some l \<and> zeros_at p l n \<and> l + 2 * n = i)"

lemma zero_runs_ok:
  assumes "zero_runs i (drop i p) zero lst mx n = (zero', mx')" "even i" "i \<le> length p" "even (length p)"
    and "run_ok p zero mx" "last_ok p i lst n"
  shows "run_ok p zero' mx'"
  using assms
proof (induction "length p - i" arbitrary: i zero lst mx n rule: less_induct)
  case less
  have take_run: "run_ok p lst n" if "mx < n"
    using less.prems(5,6) that by (auto simp: run_ok_def last_ok_def split: option.splits)
  show ?case
  proof (cases "i = length p")
    case True
    then show ?thesis
      using less.prems take_run by (auto split: if_splits)
  next
    case False
    then obtain a b where ab: "drop i p = a # b # drop (i + 2) p" "a = p ! i" "b = p ! (i + 1)" and i: "i + 2 \<le> length p"
    proof -
      have "i + 1 < length p"
        using False less.prems(2,3,4) by presburger
      then show thesis
        using that [of "p ! i" "p ! (i + 1)"] by (simp add: Cons_nth_drop_Suc)
    qed
    have zero_step: "last_ok p (i + 2) (if n = 0 then Some i else lst) (n + 1)" if "a = 0" "b = 0"
    proof -
      obtain l where l: "(if n = 0 then Some i else lst) = Some l" "zeros_at p l n" "l + 2 * n = i"
        using less.prems(2,3,6) by (auto simp: last_ok_def zeros_at_def split: if_splits)
      have "p ! (l + j) = 0" if "j < 2 * (n + 1)" for j
      proof -
        have "j < 2 * n \<or> l + j = i \<or> l + j = i + 1"
          using that l(3) by auto
        then show ?thesis
          using l(2) ab(2,3) \<open>a = 0\<close> \<open>b = 0\<close> by (auto simp: zeros_at_def)
      qed
      then show ?thesis
        using l i by (auto simp: last_ok_def zeros_at_def)
    qed
    have IH: "zero_runs (i + 2) (drop (i + 2) p) zero'' lst'' mx'' n'' = (zero', mx') \<Longrightarrow>
        run_ok p zero'' mx'' \<Longrightarrow> last_ok p (i + 2) lst'' n'' \<Longrightarrow> run_ok p zero' mx'" for zero'' lst'' mx'' n''
      using less.hyps [of "i + 2" zero'' lst'' mx'' n''] less.prems(2-4) i by simp
    show ?thesis
    proof (cases "a \<noteq> 0 \<or> b \<noteq> 0")
      case True
      have zero_n: "last_ok p (i + 2) lst 0"
        by (simp add: last_ok_def)
      show ?thesis
        using less.prems(1,5) True take_run IH [OF _ _ zero_n] unfolding ab(1) by (auto split: if_splits)
    next
      case False
      then show ?thesis
        using less.prems(1,5) zero_step IH unfolding ab(1) by auto
    qed
  qed
qed

lemma runs_of_address:
  assumes "length p = 16" "zero_runs 0 p None None 1 0 = (zero, mx)"
  shows "zero = None \<or> (\<exists>z. zero = Some (2 * z) \<and> 2 \<le> mx \<and> z + mx \<le> 8 \<and> words p [z..<z + mx] = replicate (2 * mx) 0)"
proof -
  have "run_ok p zero mx"
    using zero_runs_ok [of 0 p None None 1 0 zero mx] assms by (simp add: run_ok_def last_ok_def)
  then show ?thesis
  proof (cases zero)
    case (Some l)
    then have z: "2 \<le> mx" "zeros_at p l mx" "even l"
      using \<open>run_ok p zero mx\<close> by (auto simp: run_ok_def zeros_at_def)
    then obtain z where l: "l = 2 * z" by (auto elim: evenE)
    have "[p ! (2 * k), p ! (2 * k + 1)] = [0, 0]" if "k \<in> set [z..<z + mx]" for k
    proof -
      have "2 * k = l + (2 * k - l)" "2 * k + 1 = l + (2 * k + 1 - l)" "2 * k - l < 2 * mx" "2 * k + 1 - l < 2 * mx"
        using that l by auto
      then show ?thesis
        using z(2) unfolding zeros_at_def by metis
    qed
    then have "words p [z..<z + mx] = concat (map (\<lambda>k. [0, 0]) [z..<z + mx])"
      unfolding words_def by (metis (mono_tags, lifting) map_eq_conv)
    also have "\<dots> = replicate (2 * mx) 0"
      by (induction mx) (simp_all add: replicate_app_Cons_same)
    finally show ?thesis
      using z l Some assms(1) by (auto simp: zeros_at_def)
  qed simp
qed

section \<open>What is printed\<close>

definition colon_words :: "bytes \<Rightarrow> nat list \<Rightarrow> bytes" where
  "colon_words p ks = concat (map (\<lambda>k. fmt_xd p (2 * k) @ [0x3a]) ks)"

lemma colon_words_Nil [simp]: "colon_words p [] = []"
  by (simp add: colon_words_def)

text \<open>Words in front of the zeros: each with its colon.\<close>

lemma print6_before:
  assumes "a \<le> z" "z \<le> 7" "2 * z \<le> n" "\<And>k. a \<le> k \<Longrightarrow> k < z \<Longrightarrow> zero \<noteq> Some (2 * k)"
  shows "print6 p zero mx n (2 * a) = colon_words p [a..<z] @ print6 p zero mx n (2 * z)"
  using assms
proof (induction "z - a" arbitrary: a)
  case (Suc d)
  then have a: "a < z" by simp
  have "print6 p zero mx n (2 * a) = fmt_xd p (2 * a) @ [0x3a] @ print6 p zero mx n (2 * (a + 1))"
    using a Suc.prems by (subst print6.simps) auto
  also have "print6 p zero mx n (2 * (a + 1)) = colon_words p [a + 1..<z] @ print6 p zero mx n (2 * z)"
    using Suc.hyps(2) Suc.prems a by (intro Suc.hyps(1)) auto
  finally show ?case
    using a by (simp add: colon_words_def upt_conv_Cons)
qed simp

lemma print6_end: "print6 p zero mx n n = []"
  by (subst print6.simps) simp

lemma print6_last: "zero \<noteq> Some 14 \<Longrightarrow> print6 p zero mx 16 14 = fmt_xd p 14"
  by (subst print6.simps) (simp add: print6_end)

lemma print6_zeros:
  "2 * z < n \<Longrightarrow> 1 \<le> mx \<Longrightarrow> print6 p (Some (2 * z)) mx n (2 * z) = 0x3a # print6 p (Some (2 * z)) mx n (2 * (z + mx))"
proof -
  assume "2 * z < n" "1 \<le> mx"
  moreover from \<open>1 \<le> mx\<close> obtain m where "mx = Suc m" by (cases mx) auto
  ultimately show ?thesis
    by (subst print6.simps) (simp add: mult.commute)
qed

lemma print6_after:
  assumes "z < a" "a \<le> 7"
  shows "print6 p (Some (2 * z)) mx 16 (2 * a) = colon_words p [a..<7] @ fmt_xd p (2 * 7)"
  using print6_before [of a 7 16 "Some (2 * z)" p mx] print6_last [of "Some (2 * z)" p mx] assms by simp

section \<open>Round trip\<close>

lemma fresh_init: "fresh_word inet6_init" "i6_n inet6_init = 8" "i6_addr inet6_init = []" "i6_zero inet6_init = None"
  "i6_digit inet6_init = None"
  by (simp_all add: fresh_word_def inet6_init_def)

lemma hex_not_colon: "hd (fmt_xd p (2 * k)) \<noteq> 0x3a"
proof -
  obtain c ds where c: "fmt_xd p (2 * k) = c # ds"
    using fmt_xd_digits(2) [of p k] by (cases "fmt_xd p (2 * k)") auto
  then obtain d where "hex_digit c = Some d"
    using fmt_xd_digits(1) [of p k] by (auto split: option.splits)
  then show ?thesis
    using hex_no_sep(1) c by simp
qed

text \<open>Eight words.\<close>

lemma inet6_full:
  assumes "length p = 16"
  shows "ngx_inet6_addr (colon_words p [0..<7] @ fmt_xd p (2 * 7)) = Some p"
proof -
  let ?t = "colon_words p [0..<7] @ fmt_xd p (2 * 7)"
  let ?st = "after_words p [0..<7] (fmt_xd p (2 * 7)) inet6_init"
  have loop: "inet6_loop inet6_init ?t = inet6_loop ?st (fmt_xd p (2 * 7))"
    unfolding colon_words_def by (rule loop_words) (simp_all add: fresh_init)
  have "hd ?t = hd (fmt_xd p (2 * 0))" "?t \<noteq> []"
    using fmt_xd_digits(2) [of p 0] by (auto simp: colon_words_def upt_conv_Cons hd_append)
  then have "ngx_inet6_addr ?t = Option.bind (inet6_loop ?st (fmt_xd p (2 * 7))) inet6_finish"
    using hex_not_colon [of p 0] loop fmt_xd_digits(2) [of p 7] by (simp add: inet6_addr_bind)
  also have "\<dots> = Some (words p [0..<7] @ words p [7])"
    using finish_word [of ?st p 7] by (simp add: fresh_init Let_def del: words_simps(1,2,3))
  also have "words p [0..<7] @ words p [7] = words p [0..<8]"
    unfolding words_simps(3) [symmetric] by (simp add: upt_eval)
  finally show ?thesis
    using all_words [OF assms] by simp
qed

text \<open>The state behind \<open>::\<close>.\<close>

definition at_zeros :: "bytes \<Rightarrow> nat \<Rightarrow> bytes \<Rightarrow> inet6_state" where
  "at_zeros p z rest = (after_words p [0..<z] (0x3a # rest) inet6_init)\<lparr>i6_zero := Some (2 * z), i6_digit := Some rest\<rparr>"

lemma at_zeros_sel [simp]:
  "fresh_word (at_zeros p z rest)" "i6_addr (at_zeros p z rest) = words p [0..<z]" "i6_n (at_zeros p z rest) = 8 - z"
  "i6_zero (at_zeros p z rest) = Some (2 * z)" "i6_digit (at_zeros p z rest) = Some rest"
  by (simp_all add: at_zeros_def fresh_word_def after_words_def inet6_init_def)

text \<open>An address with \<open>::\<close>, whatever is written behind it.\<close>

lemma inet6_zeros:
  assumes "z \<le> 6"
  shows "ngx_inet6_addr ((if z = 0 then [0x3a] else []) @ colon_words p [0..<z] @ 0x3a # rest) =
    Option.bind (inet6_loop (at_zeros p z rest) rest) inet6_finish"
proof -
  let ?st = "after_words p [0..<z] (0x3a # rest) inet6_init"
  have "inet6_loop inet6_init (colon_words p [0..<z] @ 0x3a # rest) = inet6_loop ?st (0x3a # rest)"
    unfolding colon_words_def using assms by (intro loop_words) (simp_all add: fresh_init)
  also have "\<dots> = inet6_loop (at_zeros p z rest) rest"
    by (simp add: at_zeros_def after_words_def inet6_init_def)
  finally have loop: "inet6_loop inet6_init (colon_words p [0..<z] @ 0x3a # rest) = inet6_loop (at_zeros p z rest) rest" .
  show ?thesis
  proof (cases "z = 0")
    case True
    then show ?thesis
      using loop by (simp add: inet6_addr_bind)
  next
    case False
    then have "hd (colon_words p [0..<z] @ 0x3a # rest) = hd (fmt_xd p (2 * 0))"
      using fmt_xd_digits(2) [of p 0] by (simp add: colon_words_def upt_conv_Cons)
    then show ?thesis
      using loop hex_not_colon [of p 0] False by (simp add: inet6_addr_bind)
  qed
qed

text \<open>The dotted tail.\<close>

lemma digit_hex: "is_digit c \<Longrightarrow> hex_digit c = Some (digit_val c)"
  by (auto simp: is_digit_def hex_digit_def digit_val_def not_less simp del: not_digit)

lemma digits_hex_val: "list_all is_digit ds \<Longrightarrow> \<exists>v. hex_val w ds = Some v"
  by (induction ds arbitrary: w) (auto simp: digit_hex)

lemma dotted_tail:
  assumes st: "fresh_word st" "i6_digit st = Some (fmt_dotted q)" "2 \<le> i6_n st"
    and q: "\<not> (q ! 0 = 0xff \<and> q ! 1 = 0xff \<and> q ! 2 = 0xff \<and> q ! 3 = 0xff)"
  shows "Option.bind (inet6_loop st (fmt_dotted q)) inet6_finish =
    (let addr = i6_addr st @ [q ! 0, q ! 1, q ! 2, q ! 3]; n = i6_n st - 2
     in if n \<noteq> 0 then map_option (\<lambda>z. take z addr @ replicate (n * 2) 0 @ drop z addr) (i6_zero st)
        else if i6_zero st = None then Some addr else None)"
proof -
  let ?a = "be32 (q ! 0) (q ! 1) (q ! 2) (q ! 3)"
  define rest where "rest = fmt_ud (q ! 1) @ str ''.'' @ fmt_ud (q ! 2) @ str ''.'' @ fmt_ud (q ! 3)"
  have dotted: "fmt_dotted q = fmt_ud (q ! 0) @ 0x2e # rest"
    by (simp add: fmt_dotted_def rest_def str_def)
  obtain v where v: "hex_val 0 (fmt_ud (q ! 0)) = Some v"
    using digits_hex_val [OF fmt_ud_ok(3)] by blast
  define st1 where "st1 = st\<lparr>i6_nibbles := length (fmt_ud (q ! 0)), i6_word := nat v\<rparr>"
  have loop: "inet6_loop st (fmt_dotted q) = inet6_loop st1 (0x2e # rest)"
    using loop_hex_val [of st "fmt_ud (q ! 0)" v "0x2e # rest"] v st(1) fmt_ud_ok(4) [of "q ! 0"]
    by (simp add: dotted fresh_word_def st1_def del: inet6_loop.simps(2))
  have none: "ngx_inet_addr (fmt_dotted q) \<noteq> INADDR_NONE"
    using q htonl_none [of ?a] be32_ones [of "q ! 0" "q ! 1" "q ! 2" "q ! 3"] by (simp add: fmt_dotted_addr INADDR_NONE_def)
  have nt: "ntohl (ngx_inet_addr (fmt_dotted q)) = ?a"
    by (simp add: fmt_dotted_addr)
  have bytes: "ucast (drop_bit 24 ?a) = q ! 0" "ucast (drop_bit 16 ?a) = q ! 1"
    using byte32_be32(4) [of "q ! 0" "q ! 1" "q ! 2" "q ! 3"] byte32_be32(3) [of "q ! 0" "q ! 1" "q ! 2" "q ! 3"]
    by (simp_all add: byte32_def)
  have low: "hi_lo (unat (?a AND 0xffff)) = [q ! 2, q ! 3]"
  proof -
    have "?a AND 0xffff = push_bit 8 (ucast (q ! 2)) OR ucast (q ! 3)"
      using be32_low [of "q ! 0" "q ! 1" "q ! 2" "q ! 3"] .
    also have "\<dots> = push_bit 8 (ucast (q ! 2)) + ucast (q ! 3)"
      by (rule disjunctive_add [symmetric]) (auto simp: bit_simps dest: bit_imp_le_length)
    finally have "unat (?a AND 0xffff) = unat (q ! 2) * 256 + unat (q ! 3)"
      using u8_less [of "q ! 2"] u8_less [of "q ! 3"]
      by (simp add: unat_add_no_wrap unat_push_bit unsigned_ucast_eq take_bit_nat_eq_self)
    then show ?thesis
      using u8_less [of "q ! 3"] by (simp add: hi_lo_def)
  qed
  define st2 where "st2 = st1\<lparr>i6_addr := i6_addr st @ [q ! 0, q ! 1], i6_word := unat (?a AND 0xffff), i6_n := i6_n st - 1\<rparr>"
  have "inet6_loop st1 (0x2e # rest) = Some st2"
    using st none nt bytes fmt_ud_ok(5) [of "q ! 0"] by (simp add: st1_def st2_def Let_def)
  moreover have "i6_nibbles st2 \<noteq> 0"
    using fmt_ud_ok(5) [of "q ! 0"] by (simp add: st2_def st1_def)
  ultimately show ?thesis
    using loop low by (auto simp: inet6_finish_def Let_def st2_def st1_def split: option.splits)
qed

text \<open>Zeros and the words behind them give the whole address.\<close>

lemma words_split:
  assumes "length p = 16" "z + m \<le> 8" "words p [z..<z + m] = replicate (2 * m) 0"
  shows "words p [0..<z] @ replicate (2 * m) 0 @ words p [z + m..<8] = p"
proof -
  have "[0..<8] = [0..<z] @ [z..<z + m] @ [z + m..<8]"
    using assms(2) upt_add_eq_append [of 0 z "8 - z"] upt_add_eq_append [of z "z + m" "8 - (z + m)"] by simp
  then have "words p [0..<8] = words p [0..<z] @ words p [z..<z + m] @ words p [z + m..<8]"
    by (metis words_simps(3))
  then show ?thesis
    using all_words [OF assms(1)] assms(3) by simp
qed

lemma inet6_after_zeros:
  assumes p: "length p = 16" and z: "z + m \<le> 8" "2 \<le> m" "words p [z..<z + m] = replicate (2 * m) 0"
  shows "Option.bind (inet6_loop (at_zeros p z rest) (if z + m = 8 then [] else colon_words p [z + m..<7] @ fmt_xd p (2 * 7))) inet6_finish = Some p"
proof (cases "z + m = 8")
  case True
  have "hi_lo 0 = [0, 0]" by (simp add: hi_lo_def)
  moreover have "replicate (2 * m) 0 = replicate ((7 - z) * 2) 0 @ [0, 0 :: u8]"
  proof -
    have "2 * m = (7 - z) * 2 + 2" using True z(2) by simp
    then show ?thesis by (simp add: replicate_add numeral_2_eq_2 replicate_app_Cons_same)
  qed
  ultimately show ?thesis
    using True words_split [OF p z(1,3)] z(2) at_zeros_sel(1) [of p z rest]
    by (simp add: inet6_finish_def Let_def fresh_word_def)
next
  case False
  then have lt: "z + m \<le> 7" using z(1) by simp
  let ?st = "after_words p [z + m..<7] (fmt_xd p (2 * 7)) (at_zeros p z rest)"
  have "inet6_loop (at_zeros p z rest) (colon_words p [z + m..<7] @ fmt_xd p (2 * 7)) = inet6_loop ?st (fmt_xd p (2 * 7))"
    unfolding colon_words_def using z(2) lt by (intro loop_words) simp_all
  moreover have "Option.bind (inet6_loop ?st (fmt_xd p (2 * 7))) inet6_finish =
      Some (words p [0..<z] @ replicate (2 * m) 0 @ words p [z + m..<7] @ words p [7])"
    using finish_word [of ?st p 7] z(2) lt by (simp add: Let_def mult.commute del: words_simps(1,2,3))
  moreover have "words p [z + m..<7] @ words p [7] = words p [z + m..<8]"
  proof -
    have "[z + m..<8] = [z + m..<7] @ [7]"
      using lt by (simp add: numeral_eq_Suc)
    then show ?thesis by simp
  qed
  ultimately show ?thesis
    using False words_split [OF p z(1,3)] by simp
qed

lemma inet6_dotted:
  assumes p: "length p = 16" and tail: "drop 12 p \<noteq> [0xff, 0xff, 0xff, 0xff]" and mx: "mx = 5 \<or> mx = 6 \<or> mx = 7"
    and zeros: "words p [0..<mx] = replicate (2 * mx) 0"
  shows "ngx_inet6_addr ([0x3a] @ print6 p (Some 0) mx 12 0 @ fmt_dotted (drop 12 p)) = Some p"
proof -
  let ?q = "drop 12 p"
  have q: "\<not> (?q ! 0 = 0xff \<and> ?q ! 1 = 0xff \<and> ?q ! 2 = 0xff \<and> ?q ! 3 = 0xff)"
    using tail p by (auto simp: list_eq_iff_nth_eq less_Suc_eq numeral_eq_Suc)
  have q4: "words p [6..<8] = [?q ! 0, ?q ! 1, ?q ! 2, ?q ! 3]"
  proof -
    have d: "?q ! 0 = p ! 12" "?q ! 1 = p ! 13" "?q ! 2 = p ! 14" "?q ! 3 = p ! 15"
      using p by simp_all
    have w: "words p [6..<8] = [p ! 12, p ! 13, p ! 14, p ! 15]"
      by (simp add: upt_eval)
    show ?thesis
      by (simp only: w d)
  qed
  show ?thesis
  proof (cases "mx = 5")
    case True
    let ?rest = "colon_words p [5] @ fmt_dotted ?q"
    have "print6 p (Some 0) mx 12 0 = 0x3a # print6 p (Some 0) mx 12 10"
      using print6_zeros [of 0 12 mx p] True by simp
    also have "print6 p (Some 0) mx 12 10 = colon_words p [5]"
      using print6_before [of 5 6 12 "Some 0" p mx] print6_end [of p "Some 0" mx 12] by (simp add: upt_eval)
    finally have "ngx_inet6_addr ([0x3a] @ print6 p (Some 0) mx 12 0 @ fmt_dotted ?q) =
        Option.bind (inet6_loop (at_zeros p 0 ?rest) ?rest) inet6_finish"
      using inet6_zeros [of 0 p ?rest] by simp
    also have "inet6_loop (at_zeros p 0 ?rest) ?rest =
        inet6_loop (after_words p [5] (fmt_dotted ?q) (at_zeros p 0 ?rest)) (fmt_dotted ?q)"
      unfolding colon_words_def by (rule loop_words) simp_all
    also have "Option.bind \<dots> inet6_finish = Some (replicate 10 0 @ words p [5] @ words p [6..<8])"
      by (subst dotted_tail [OF _ _ _ q]) (simp_all add: q4 Let_def p)
    also have "replicate 10 0 @ words p [5] @ words p [6..<8] = p"
      using words_split [OF p, of 0 5] zeros True by (simp add: upt_eval)
    finally show ?thesis .
  next
    case False
    then have mx6: "mx = 6 \<or> mx = 7" using mx by simp
    have zeros6: "words p [0..<6] = replicate 12 0"
    proof -
      have "words p [0..<mx] = words p [0..<6] @ words p [6..<mx]"
        using mx6 by (auto simp: upt_eval)
      then have "take 12 (words p [0..<mx]) = words p [0..<6]"
        by (simp del: words_simps(1,2,3))
      then have "words p [0..<6] = take 12 (replicate (2 * mx) 0)"
        using zeros by simp
      then show ?thesis using mx6 by auto
    qed
    have "print6 p (Some 0) mx 12 0 = 0x3a # print6 p (Some 0) mx 12 (2 * mx)"
      using print6_zeros [of 0 12 mx p] mx6 by auto
    also have "print6 p (Some 0) mx 12 (2 * mx) = []"
      using mx6 by (subst print6.simps) auto
    finally have "ngx_inet6_addr ([0x3a] @ print6 p (Some 0) mx 12 0 @ fmt_dotted ?q) =
        Option.bind (inet6_loop (at_zeros p 0 (fmt_dotted ?q)) (fmt_dotted ?q)) inet6_finish"
      using inet6_zeros [of 0 p "fmt_dotted ?q"] by simp
    also have "\<dots> = Some (replicate 12 0 @ words p [6..<8])"
      by (subst dotted_tail [OF _ _ _ q]) (simp_all add: q4 Let_def p)
    also have "replicate 12 0 @ words p [6..<8] = p"
      using words_split [OF p, of 0 6] zeros6 by simp
    finally show ?thesis .
  qed
qed

lemma inet6_ntop_addr:
  assumes p: "length p = 16" and len: "NGX_INET6_ADDRSTRLEN \<le> len" and tail: "drop 12 p \<noteq> [0xff, 0xff, 0xff, 0xff]"
  shows "ngx_inet6_addr (ngx_inet6_ntop p len) = Some p"
proof -
  obtain zero mx where runs: "zero_runs 0 p None None 1 0 = (zero, mx)" by fastforce
  let ?dotted = "zero = Some 0 \<and> (mx = 5 \<and> p ! 10 = 0xff \<and> p ! 11 = 0xff \<or> mx = 6 \<or> mx = 7 \<and> p ! 14 \<noteq> 0 \<and> p ! 15 \<noteq> 1)"
  have out: "ngx_inet6_ntop p len = (if zero = Some 0 then [0x3a] else []) @ print6 p zero mx (if ?dotted then 12 else 16) 0 @
      (if ?dotted then fmt_dotted (drop 12 p) else [])"
    using len runs by (auto simp: ngx_inet6_ntop_def Let_def)
  from runs_of_address [OF p runs] show ?thesis
  proof
    assume "zero = None"
    then show ?thesis
      using inet6_full [OF p] print6_before [of 0 7 16 None p mx] print6_last [of None p mx]
      unfolding out by simp
  next
    assume "\<exists>z. zero = Some (2 * z) \<and> 2 \<le> mx \<and> z + mx \<le> 8 \<and> words p [z..<z + mx] = replicate (2 * mx) 0"
    then obtain z where z: "zero = Some (2 * z)" "2 \<le> mx" "z + mx \<le> 8" "words p [z..<z + mx] = replicate (2 * mx) 0"
      by blast
    show ?thesis
    proof (cases ?dotted)
      case False
      define rest where "rest = (if z + mx = 8 then [] else colon_words p [z + mx..<7] @ fmt_xd p (2 * 7))"
      have "print6 p zero mx 16 0 = colon_words p [0..<z] @ 0x3a # print6 p zero mx 16 (2 * (z + mx))"
        using print6_before [of 0 z 16 zero p mx] print6_zeros [of z 16 mx p] z by simp
      also have "print6 p zero mx 16 (2 * (z + mx)) = rest"
      proof (cases "z + mx = 8")
        case True
        then show ?thesis
          using print6_end [of p zero mx 16] unfolding rest_def True by simp
      next
        case False
        then show ?thesis
          using print6_after [of z "z + mx" p mx] z by (simp add: rest_def)
      qed
      finally have "ngx_inet6_ntop p len = (if z = 0 then [0x3a] else []) @ colon_words p [0..<z] @ 0x3a # rest"
        unfolding out if_not_P [OF False] using z(1) by simp
      then show ?thesis
        using inet6_zeros [of z p rest] inet6_after_zeros [OF p z(3,2,4), of rest] z by (simp add: rest_def)
    next
      case True
      then have z0: "z = 0" "mx = 5 \<or> mx = 6 \<or> mx = 7"
        using z(1) by auto
      then show ?thesis
        using inet6_dotted [OF p tail z0(2)] z(2,3,4) True unfolding out if_P [OF True] z(1) by simp
    qed
  qed
qed

section \<open>Properties\<close>

text \<open>An address written as four numbers (possibly without digits, which count as 0) is accepted
  exactly when all are at most 255, and stands for its four bytes.\<close>

theorem ngx_inet_addr_exact:
  assumes "list_all (list_all is_digit) [d1, d2, d3, d4]"
  shows "ngx_inet_addr (d1 @ str ''.'' @ d2 @ str ''.'' @ d3 @ str ''.'' @ d4) =
    (if list_all (\<lambda>d. dec_val 0 d \<le> 255) [d1, d2, d3, d4]
     then htonl (be32 (dec_octet d1) (dec_octet d2) (dec_octet d3) (dec_octet d4)) else INADDR_NONE)"
  using inet_addr_parts [OF assms] assms by (simp add: octet_ok_def)

theorem ngx_inet_addr_exact_witness:
  "ngx_inet_addr (str ''10.0.0.1'') = htonl (be32 10 0 0 1)"
  using ngx_inet_addr_exact [of "str ''10''" "str ''0''" "str ''0''" "str ''1''"]
  by (simp add: str_def is_digit_def digit_val_def dec_octet_def del: not_digit)

text \<open>Round trip of IPv4: what \<open>ngx_inet_ntop\<close> prints of four bytes into a sufficient buffer is
  read back as the word that lies in memory as these bytes.  (For 255.255.255.255 the result is
  the error value \<open>INADDR_NONE\<close>.)\<close>

theorem ngx_inet_roundtrip:
  assumes "length p = 4" "15 \<le> len"
  shows "in_addr_bytes (ngx_inet_addr (ngx_inet_ntop4 p len)) = p"
proof -
  have "ngx_inet_ntop4 p len = fmt_dotted p"
    using assms(2) fmt_dotted_addr(2) [of p] by (simp add: ngx_inet_ntop4_def)
  moreover have "p = [p ! 0, p ! 1, p ! 2, p ! 3]"
    using assms(1) by (auto simp: numeral_eq_Suc length_Suc_conv)
  ultimately show ?thesis
    by (simp add: fmt_dotted_addr in_addr_bytes_htonl)
qed

theorem ngx_inet_roundtrip_witness:
  "in_addr_bytes (ngx_inet_addr (ngx_inet_ntop4 [192, 0, 2, 1] 15)) = [192, 0, 2, 1]"
  using ngx_inet_roundtrip [of "[192, 0, 2, 1]" 15] by simp



end
