(* ===== verification/Sockaddr.thy ===== *)
theory Sockaddr
  imports Inet
begin

text \<open>
  Socket addresses and CIDR blocks of \<^verbatim>\<open>src/core/ngx_inet.c\<close>: \<open>ngx_sock_ntop\<close>, \<open>ngx_parse_addr\<close>,
  \<open>ngx_parse_addr_port\<close>, \<open>ngx_cmp_sockaddr\<close>, \<open>ngx_ptocidr\<close> and \<open>ngx_cidr_match\<close>.
\<close>

section \<open>Socket addresses\<close>

definition htons :: "u16 \<Rightarrow> u16" where
  "htons w = push_bit 8 w OR drop_bit 8 w"

definition ntohs :: "u16 \<Rightarrow> u16" where
  "ntohs w = htons w"

lemma ntohs_htons [simp]: "ntohs (htons w) = w" "htons (ntohs w) = w"
  by (rule bit_word_eqI, auto simp: ntohs_def htons_def bit_simps dest: bit_imp_le_length)+

text \<open>\<open>struct sockaddr_in\<close>, \<open>sockaddr_in6\<close> and \<open>sockaddr_un\<close>, with ports in network byte order.\<close>

datatype sockaddr =
    Sockaddr_in (sin_addr: u32) (sin_port: u16)
  | Sockaddr_in6 (sin6_addr: bytes) (sin6_port: u16)
  | Sockaddr_un (sun_path: bytes)

definition NGX_SOCKADDR_STRLEN :: nat where
  "NGX_SOCKADDR_STRLEN = NGX_INET6_ADDRSTRLEN + 8"

text \<open>\<open>"%d"\<close> of a port.\<close>

definition fmt_port :: "u16 \<Rightarrow> bytes" where
  "fmt_port port = ngx_sprintf_num 20 (ucast (ntohs port)) 0x20 0 0"

text \<open>The text without the trailing zero byte that follows a Unix path.\<close>

definition ngx_sock_ntop :: "sockaddr \<Rightarrow> nat \<Rightarrow> bool \<Rightarrow> bytes" where
  "ngx_sock_ntop sa len port =
     (case sa of
        Sockaddr_in addr prt \<Rightarrow>
          take len (fmt_dotted (in_addr_bytes addr) @ (if port then str '':'' @ fmt_port prt else []))
      | Sockaddr_in6 addr prt \<Rightarrow>
          (if port then [0x5b] else []) @ ngx_inet6_ntop addr len @
          (if port then str '']:'' @ fmt_port prt else [])
      | Sockaddr_un path \<Rightarrow> take (len - 1) (str ''unix:'' @ takeWhile (\<lambda>c. c \<noteq> 0) path))"

text \<open>\<open>ok\<close> tells whether \<open>ngx_pcalloc\<close> succeeds.\<close>

definition ngx_parse_addr :: "bool \<Rightarrow> bytes \<Rightarrow> ngx_rc \<times> sockaddr option" where
  "ngx_parse_addr ok txt =
     (let inaddr = ngx_inet_addr txt
      in if inaddr \<noteq> INADDR_NONE
         then (if ok then (NGX_OK, Some (Sockaddr_in inaddr 0)) else (NGX_ERROR, None))
         else case ngx_inet6_addr txt of
                Some inaddr6 \<Rightarrow> (if ok then (NGX_OK, Some (Sockaddr_in6 inaddr6 0)) else (NGX_ERROR, None))
              | None \<Rightarrow> (NGX_DECLINED, None))"

fun ngx_inet_set_port :: "sockaddr \<Rightarrow> u16 \<Rightarrow> sockaddr" where
  "ngx_inet_set_port (Sockaddr_in6 addr _) port = Sockaddr_in6 addr (htons port)"
| "ngx_inet_set_port (Sockaddr_un path) port = Sockaddr_un path"
| "ngx_inet_set_port (Sockaddr_in addr _) port = Sockaddr_in addr (htons port)"

fun ngx_inet_get_port :: "sockaddr \<Rightarrow> u16" where
  "ngx_inet_get_port (Sockaddr_in6 _ port) = ntohs port"
| "ngx_inet_get_port (Sockaddr_un path) = 0"
| "ngx_inet_get_port (Sockaddr_in _ port) = ntohs port"

text \<open>\<open>ngx_strlchr\<close>: the index of the first occurrence.\<close>

fun ngx_strlchr :: "bytes \<Rightarrow> u8 \<Rightarrow> nat option" where
  "ngx_strlchr [] c = None"
| "ngx_strlchr (b # p) c = (if b = c then Some 0 else map_option Suc (ngx_strlchr p c))"

definition ngx_parse_addr_port :: "bool \<Rightarrow> bytes \<Rightarrow> ngx_rc \<times> sockaddr option" where
  "ngx_parse_addr_port ok txt =
     (case ngx_parse_addr ok txt of (rc, addr) \<Rightarrow>
        if rc \<noteq> NGX_DECLINED then (rc, addr)
        else let end_p = length txt;
                 found =
                   (if txt \<noteq> [] \<and> hd txt = 0x5b
                    then (case ngx_strlchr txt 0x5d of
                            None \<Rightarrow> None
                          | Some p \<Rightarrow> if p = end_p - 1 \<or> txt ! (p + 1) \<noteq> 0x3a then None
                                      else Some (p + 1, tl txt, end_p - 2))
                    else (case ngx_strlchr txt 0x3a of
                            None \<Rightarrow> None
                          | Some p \<Rightarrow> Some (p, txt, end_p)))
             in case found of
                  None \<Rightarrow> (NGX_DECLINED, None)
                | Some (p, txt', len) \<Rightarrow>
                    (let p = p + 1; plen = end_p - p
                     in case ngx_atoi (drop p txt) of
                          None \<Rightarrow> (NGX_DECLINED, None)
                        | Some port \<Rightarrow>
                            if port < 1 \<or> port > 65535 then (NGX_DECLINED, None)
                            else (case ngx_parse_addr ok (take (len - (plen + 1)) txt') of (rc, addr) \<Rightarrow>
                                    if rc \<noteq> NGX_OK then (rc, addr)
                                    else (NGX_OK, map_option (\<lambda>sa. ngx_inet_set_port sa (word_of_int port)) addr))))"

text \<open>\<open>ngx_cmp_sockaddr\<close>; \<open>slen1\<close> and \<open>slen2\<close> are the lengths of the compared paths (at most 108 bytes).\<close>

fun ngx_cmp_sockaddr :: "sockaddr \<Rightarrow> nat \<Rightarrow> sockaddr \<Rightarrow> nat \<Rightarrow> bool \<Rightarrow> ngx_rc" where
  "ngx_cmp_sockaddr (Sockaddr_in6 addr1 port1) slen1 (Sockaddr_in6 addr2 port2) slen2 cmp_port =
     (if cmp_port \<and> port1 \<noteq> port2 then NGX_DECLINED
      else if addr1 \<noteq> addr2 then NGX_DECLINED else NGX_OK)"
| "ngx_cmp_sockaddr (Sockaddr_un path1) slen1 (Sockaddr_un path2) slen2 cmp_port =
     (let len = min (if slen1 < slen2 then slen1 else slen2) 108
      in if take len path1 \<noteq> take len path2 then NGX_DECLINED else NGX_OK)"
| "ngx_cmp_sockaddr (Sockaddr_in addr1 port1) slen1 (Sockaddr_in addr2 port2) slen2 cmp_port =
     (if cmp_port \<and> port1 \<noteq> port2 then NGX_DECLINED
      else if addr1 \<noteq> addr2 then NGX_DECLINED else NGX_OK)"
| "ngx_cmp_sockaddr _ _ _ _ _ = NGX_DECLINED"

section \<open>Round trip\<close>

lemma strlchr_append:
  "c \<notin> set as \<Longrightarrow> ngx_strlchr (as @ c # bs) c = Some (length as)"
  by (induction as) auto

lemma digits_not: "list_all is_digit ds \<Longrightarrow> \<not> is_digit c \<Longrightarrow> c \<notin> set ds"
  by (induction ds) auto

lemma hex_val_not: "hex_val v ds = Some w \<Longrightarrow> hex_digit c = None \<Longrightarrow> c \<notin> set ds"
  by (induction ds arbitrary: v) (auto split: option.splits)

lemma dotted_not: "c \<noteq> 0x2e \<Longrightarrow> \<not> is_digit c \<Longrightarrow> c \<notin> set (fmt_dotted q)"
  using digits_not [OF fmt_ud_ok(3)] by (auto simp: fmt_dotted_def str_def)

lemma print6_not:
  assumes "c \<noteq> 0x3a" "hex_digit c = None" "even i" "length p = 16"
  shows "c \<notin> set (print6 p zero mx n i)"
  using assms
proof (induction p zero mx n i rule: print6.induct)
  case (1 p zero mx n i)
  obtain k where i: "i = 2 * k" using "1.prems"(3) by (elim evenE)
  have "c \<notin> set (fmt_xd p i)"
    unfolding i using hex_val_not [OF fmt_xd_digits(1) "1.prems"(2)] .
  then show ?case
    using 1 by (subst print6.simps) auto
qed

lemma ntop6_not:
  assumes "length p = 16"
  shows "0x5d \<notin> set (ngx_inet6_ntop p len)"
proof -
  have "hex_digit 0x5d = None" "\<not> is_digit 0x5d"
    by (simp_all add: hex_digit_def is_digit_def del: not_digit)
  then show ?thesis
    using print6_not [of "0x5d" 0 p] dotted_not [of "0x5d"] assms
    by (auto simp: ngx_inet6_ntop_def Let_def split: prod.splits if_splits)
qed

text \<open>The port.\<close>

lemma fmt_port_atoi: "ngx_atoi (fmt_port prt) = Some (uint (ntohs prt))"
proof -
  let ?n = "ucast (ntohs prt) :: u64"
  have lt: "unat (ntohs prt) < 65536"
    using unsigned_less [of "ntohs prt"] by simp
  have "unat ?n = unat (ntohs prt)"
    using lt by (simp add: unsigned_ucast_eq take_bit_nat_eq_self)
  then have n: "uint ?n = uint (ntohs prt)"
    by (simp only: uint_nat)
  have "fmt_port prt = num_digits ?n 0"
    unfolding fmt_port_def sprintf_num_eq using num_digits_length [of ?n 0] by simp
  moreover have "uint (ntohs prt) \<le> 65535"
    using lt uint_nat [of "ntohs prt"] by linarith
  ultimately show ?thesis
    using num_digits_dec [of ?n] n by (simp add: atoi_exact NGX_MAX_INT_T_VALUE_def)
qed

lemma set_port_restore: "word_of_int (uint (ntohs prt)) = ntohs prt"
  by simp

text \<open>The address texts alone.\<close>

definition addr_text :: "sockaddr \<Rightarrow> nat \<Rightarrow> bytes" where
  "addr_text sa len = ngx_sock_ntop sa len False"

lemma inet_loop_stop:
  assumes "\<not> is_digit c" "c \<noteq> 0x2e"
  shows "inet_addr_loop (as @ c # bs) addr oct n = None"
proof (induction as arbitrary: addr oct n)
  case Nil
  have "\<not> (c \<ge> 0x30 \<and> c \<le> 0x39)"
    using assms(1) by (auto simp: is_digit_def not_less simp del: not_digit)
  then show ?case
    using assms(2) by (simp only: append_Nil inet_addr_loop.simps if_False)
next
  case (Cons b as)
  then show ?case
    by (simp add: Let_def)
qed

lemma inet_addr_stop: "\<not> is_digit c \<Longrightarrow> c \<noteq> 0x2e \<Longrightarrow> ngx_inet_addr (as @ c # bs) = INADDR_NONE"
  by (simp add: ngx_inet_addr_def inet_loop_stop)

lemma is_digit_colon: "\<not> is_digit 0x3a"
  by (simp add: is_digit_def del: not_digit)

lemma inet6_no_colon_dot:
  assumes "list_all is_digit ds" "ds \<noteq> []" "length ds \<le> 4"
  shows "ngx_inet6_addr (ds @ 0x2e # rest) = None"
proof -
  obtain v where "hex_val 0 ds = Some v"
    using digits_hex_val [OF assms(1)] by blast
  then have "inet6_loop inet6_init (ds @ 0x2e # rest) =
      inet6_loop (inet6_init\<lparr>i6_nibbles := length ds, i6_word := nat v\<rparr>) (0x2e # rest)"
    using loop_hex_val [of inet6_init ds v "0x2e # rest"] assms(3) by (simp add: inet6_init_def del: inet6_loop.simps(2))
  also have "\<dots> = None"
    using assms(2) by (simp add: inet6_init_def)
  finally have none: "inet6_loop inet6_init (ds @ 0x2e # rest) = None" .
  have "hd ds \<noteq> 0x3a"
    using assms(1,2) digits_not [of ds "0x3a"] by (metis hd_in_set is_digit_colon)
  then show ?thesis
    using none assms(2) by (simp add: ngx_inet6_addr_def)
qed

lemma sock_ntop4:
  assumes "NGX_SOCKADDR_STRLEN \<le> len"
  shows "ngx_sock_ntop (Sockaddr_in addr prt) len True = fmt_dotted (in_addr_bytes addr) @ 0x3a # fmt_port prt"
proof -
  have "length (fmt_port prt) \<le> 20"
    by (simp add: fmt_port_def sprintf_num_eq)
  then have "length (fmt_dotted (in_addr_bytes addr) @ str '':'' @ fmt_port prt) \<le> 36"
    using fmt_dotted_addr(2) [of "in_addr_bytes addr"] by (simp add: str_def)
  then show ?thesis
    using assms by (simp add: ngx_sock_ntop_def NGX_SOCKADDR_STRLEN_def NGX_INET6_ADDRSTRLEN_def str_def)
qed

lemma in_addr_of_bytes: "htonl (be32 (byte32 w 0) (byte32 w (Suc 0)) (byte32 w 2) (byte32 w 3)) = w"
  using ntohl_htonl [of w] unfolding ntohl_def htonl_def [of w] One_nat_def .

lemma dotted_in_addr: "ngx_inet_addr (fmt_dotted (in_addr_bytes w)) = w"
  by (simp add: fmt_dotted_addr in_addr_bytes_def in_addr_of_bytes)

lemma parse_addr4_port:
  assumes "w \<noteq> INADDR_NONE" "1 \<le> uint (ntohs prt)"
  shows "ngx_parse_addr_port True (fmt_dotted (in_addr_bytes w) @ 0x3a # fmt_port prt) = (NGX_OK, Some (Sockaddr_in w prt))"
proof -
  let ?a = "fmt_dotted (in_addr_bytes w)"
  have "ngx_inet_addr (?a @ 0x3a # fmt_port prt) = INADDR_NONE"
    by (rule inet_addr_stop) (simp_all add: is_digit_colon del: not_digit)
  moreover obtain b rest where dot: "?a = fmt_ud b @ 0x2e # rest"
    by (auto simp: fmt_dotted_def str_def)
  have "ngx_inet6_addr (?a @ 0x3a # fmt_port prt) = None"
    unfolding dot append_assoc append_Cons using fmt_ud_ok(3,4,5) [of b] by (intro inet6_no_colon_dot) simp_all
  ultimately have decl: "ngx_parse_addr True (?a @ 0x3a # fmt_port prt) = (NGX_DECLINED, None)"
    by (simp add: ngx_parse_addr_def Let_def)
  have "0x5b \<notin> set ?a" "0x3a \<notin> set ?a"
    by (rule dotted_not; simp add: is_digit_def del: not_digit)+
  then have hd: "hd (?a @ 0x3a # fmt_port prt) \<noteq> 0x5b"
    using dot fmt_ud_ok(5) [of b] by (metis Nil_is_append_conv hd_append2 hd_in_set)
  have chr: "ngx_strlchr (?a @ 0x3a # fmt_port prt) 0x3a = Some (length ?a)"
    by (rule strlchr_append) fact
  have lim: "\<not> (uint (ntohs prt) < 1 \<or> uint (ntohs prt) > 65535)"
    using assms(2) uint_bounded [of "ntohs prt"] by simp
  have addr: "ngx_parse_addr True ?a = (NGX_OK, Some (Sockaddr_in w 0))"
    using assms(1) by (simp add: ngx_parse_addr_def dotted_in_addr Let_def)
  show ?thesis
    using decl hd chr lim addr by (simp add: ngx_parse_addr_port_def Let_def fmt_port_atoi)
qed

lemma parse_addr6_port:
  assumes p: "length a = 16" "drop 12 a \<noteq> [0xff, 0xff, 0xff, 0xff]" "NGX_INET6_ADDRSTRLEN \<le> len"
    and "1 \<le> uint (ntohs prt)"
  shows "ngx_parse_addr_port True ([0x5b] @ ngx_inet6_ntop a len @ str '']:'' @ fmt_port prt) = (NGX_OK, Some (Sockaddr_in6 a prt))"
proof -
  let ?t = "ngx_inet6_ntop a len"
  let ?all = "[0x5b] @ ?t @ str '']:'' @ fmt_port prt"
  have "ngx_inet_addr ([] @ 0x5b # ?t @ str '']:'' @ fmt_port prt) = INADDR_NONE"
    by (rule inet_addr_stop) (simp_all add: is_digit_def del: not_digit)
  moreover have "ngx_inet6_addr ?all = None"
    by (simp add: ngx_inet6_addr_def inet6_init_def)
  ultimately have decl: "ngx_parse_addr True ?all = (NGX_DECLINED, None)"
    by (simp add: ngx_parse_addr_def Let_def)
  have chr: "ngx_strlchr ?all 0x5d = Some (length ?t + 1)"
    using strlchr_append [of "0x5d" "[0x5b] @ ?t" "0x3a # fmt_port prt"] ntop6_not [OF p(1), of len] by (simp add: str_def)
  have "fmt_port prt \<noteq> []"
    using fmt_port_atoi [of prt] by (auto simp: ngx_atoi_def)
  then have shape: "length ?all = length ?t + 3 + length (fmt_port prt)" "?all ! (length ?t + 2) = 0x3a"
    "drop (length ?t + 3) ?all = fmt_port prt" "take (length ?t) (tl ?all) = ?t" "0 < length (fmt_port prt)"
    by (simp_all add: str_def nth_append numeral_3_eq_3)
  have lim: "\<not> (uint (ntohs prt) < 1 \<or> uint (ntohs prt) > 65535)"
    using assms(4) uint_bounded [of "ntohs prt"] by simp
  have six: "ngx_inet6_addr ?t = Some a"
    by (rule inet6_ntop_addr [OF p(1,3,2)])
  have four: "ngx_inet_addr ?t = INADDR_NONE"
  proof -
    have "0x3a \<in> set (print6 a zero mx n 0)" if "0 < n" for zero mx n
      using that by (subst print6.simps) simp
    then have "0x3a \<in> set ?t"
      using p(3) by (cases "zero_runs 0 a None None 1 0") (simp add: ngx_inet6_ntop_def Let_def not_less)
    then obtain as bs where "?t = as @ 0x3a # bs"
      by (auto dest: split_list)
    then show ?thesis
      using inet_addr_stop [of "0x3a" as bs] is_digit_colon by simp
  qed
  have addr: "ngx_parse_addr True ?t = (NGX_OK, Some (Sockaddr_in6 a 0))"
    using six four by (simp add: ngx_parse_addr_def Let_def)
  show ?thesis
    unfolding ngx_parse_addr_port_def decl chr Let_def
    using shape lim addr by (simp add: fmt_port_atoi)
qed

section \<open>CIDR blocks\<close>

text \<open>\<open>ngx_cidr_t\<close>: the address and the mask of a family.\<close>

datatype cidr =
    Cidr_in u32 u32
  | Cidr_in6 bytes bytes
  | Cidr_unix

text \<open>The loop over the bytes of an IPv6 block: the masks, the masked address, and whether it changed.\<close>

fun cidr6_loop :: "nat \<Rightarrow> bytes \<Rightarrow> bytes \<times> bytes \<times> bool" where
  "cidr6_loop shift [] = ([], [], False)"
| "cidr6_loop shift (a # addr) =
     (let s = (if shift > 8 then 8 else shift);
          mask = ucast (push_bit (8 - s) (0xff :: u32));
          (masks, addrs, changed) = cidr6_loop (shift - s) addr
      in (mask # masks, (a AND mask) # addrs, a \<noteq> a AND mask \<or> changed))"

text \<open>\<open>None\<close> is \<open>NGX_ERROR\<close>.\<close>

definition ngx_ptocidr :: "bytes \<Rightarrow> (ngx_rc \<times> cidr) option" where
  "ngx_ptocidr txt =
     (let mask = ngx_strlchr txt 0x2f;
          len = (case mask of None \<Rightarrow> length txt | Some i \<Rightarrow> i);
          addr = take len txt;
          shift = (case mask of None \<Rightarrow> None | Some i \<Rightarrow> ngx_atoi (drop (i + 1) txt));
          inaddr = ngx_inet_addr addr
      in if inaddr \<noteq> INADDR_NONE
         then (if mask = None then Some (NGX_OK, Cidr_in inaddr 0xffffffff)
               else case shift of
                      None \<Rightarrow> None
                    | Some shift \<Rightarrow>
                        if shift > 32 then None
                        else let mask = (if shift \<noteq> 0 then htonl (push_bit (32 - nat shift) 0xffffffff) else 0)
                             in if inaddr = inaddr AND mask then Some (NGX_OK, Cidr_in inaddr mask)
                                else Some (NGX_DONE, Cidr_in (inaddr AND mask) mask))
         else case ngx_inet6_addr addr of
                None \<Rightarrow> None
              | Some addr6 \<Rightarrow>
                  if mask = None then Some (NGX_OK, Cidr_in6 addr6 (replicate 16 0xff))
                  else case shift of
                         None \<Rightarrow> None
                       | Some shift \<Rightarrow>
                           if shift > 128 then None
                           else let (masks, addrs, changed) = cidr6_loop (nat shift) addr6
                                in Some (if changed then NGX_DONE else NGX_OK, Cidr_in6 addrs masks))"

definition IN6_IS_ADDR_V4MAPPED :: "bytes \<Rightarrow> bool" where
  "IN6_IS_ADDR_V4MAPPED a \<longleftrightarrow> take 12 a = replicate 10 0 @ [0xff, 0xff]"

text \<open>The address that \<open>ngx_cidr_match\<close> compares: an IPv4 address mapped into IPv6 counts as IPv4.\<close>

fun match_addr :: "sockaddr \<Rightarrow> sockaddr" where
  "match_addr (Sockaddr_in6 a prt) =
     (if IN6_IS_ADDR_V4MAPPED a then Sockaddr_in (htonl (be32 (a ! 12) (a ! 13) (a ! 14) (a ! 15))) prt
      else Sockaddr_in6 a prt)"
| "match_addr sa = sa"

fun cidr_contains :: "sockaddr \<Rightarrow> cidr \<Rightarrow> bool" where
  "cidr_contains (Sockaddr_in6 a prt) (Cidr_in6 addr m) \<longleftrightarrow> list_all (\<lambda>n. a ! n AND m ! n = addr ! n) [0..<16]"
| "cidr_contains (Sockaddr_un path) Cidr_unix \<longleftrightarrow> True"
| "cidr_contains (Sockaddr_in inaddr prt) (Cidr_in addr m) \<longleftrightarrow> inaddr AND m = addr"
| "cidr_contains _ _ \<longleftrightarrow> False"

fun cidr_match_loop :: "sockaddr \<Rightarrow> cidr list \<Rightarrow> ngx_rc" where
  "cidr_match_loop sa [] = NGX_DECLINED"
| "cidr_match_loop sa (c # cidrs) = (if cidr_contains sa c then NGX_OK else cidr_match_loop sa cidrs)"

definition ngx_cidr_match :: "sockaddr \<Rightarrow> cidr list \<Rightarrow> ngx_rc" where
  "ngx_cidr_match sa cidrs = cidr_match_loop (match_addr sa) cidrs"

text \<open>The bits of an address, first bit first.\<close>

fun addr_bits :: "sockaddr \<Rightarrow> bool list" where
  "addr_bits (Sockaddr_in a prt) = bits_of (in_addr_bytes a)"
| "addr_bits (Sockaddr_in6 a prt) = bits_of a"
| "addr_bits (Sockaddr_un path) = []"

lemma bit_ff: "bit (0xff :: u32) k \<longleftrightarrow> k < 8"
proof -
  have e: "(0xff :: u32) = mask 8" by (simp add: mask_eq_exp_minus_1)
  show ?thesis unfolding e bit_mask_iff possible_bit_def by auto
qed

lemma bit_ones: "bit (0xffffffff :: u32) k \<longleftrightarrow> k < 32"
proof -
  have e: "(0xffffffff :: u32) = mask 32" by (simp add: mask_eq_exp_minus_1)
  show ?thesis unfolding e bit_mask_iff possible_bit_def by auto
qed

definition mask_byte :: "nat \<Rightarrow> u8" where
  "mask_byte s = ucast (push_bit (8 - s) (0xff :: u32))"

lemma bit_mask_byte: "t \<le> 8 \<Longrightarrow> bit (mask_byte t) n \<longleftrightarrow> 8 - t \<le> n \<and> n < 8"
  by (simp only: mask_byte_def bit_unsigned_iff bit_push_bit_iff bit_ff possible_bit_def) auto

text \<open>A byte under a mask keeps its first \<open>s\<close> bits.\<close>

lemma mask_byte_bits:
  assumes "s \<le> 8"
  shows "a AND mask_byte s = b AND mask_byte s \<longleftrightarrow> take s (wbits 8 a) = take s (wbits 8 (b :: u8))"
proof -
  have "a AND mask_byte s = b AND mask_byte s \<longleftrightarrow> (\<forall>n. 8 - s \<le> n \<and> n < 8 \<longrightarrow> bit a n = bit b n)"
    by (auto simp: bit_eq_iff bit_and_iff bit_mask_byte [OF assms] dest: bit_imp_le_length)
  also have "\<dots> \<longleftrightarrow> (\<forall>i < s. bit a (7 - i) = bit b (7 - i))"
  proof (rule iffI; intro allI impI)
    fix i assume *: "\<forall>n. 8 - s \<le> n \<and> n < 8 \<longrightarrow> bit a n = bit b n" and i: "i < s"
    then have "8 - s \<le> 7 - i \<and> 7 - i < 8" using assms by auto
    then show "bit a (7 - i) = bit b (7 - i)" using * by blast
  next
    fix n assume *: "\<forall>i < s. bit a (7 - i) = bit b (7 - i)" and n: "8 - s \<le> n \<and> n < 8"
    then have "7 - (7 - n) = n" "7 - n < s" using assms by auto
    then show "bit a n = bit b n" using * by metis
  qed
  also have "\<dots> \<longleftrightarrow> take s (wbits 8 a) = take s (wbits 8 b)"
    using assms by (auto simp: list_eq_iff_nth_eq nth_wbits)
  finally show ?thesis .
qed

fun prefix_masks :: "nat \<Rightarrow> nat \<Rightarrow> bytes" where
  "prefix_masks s 0 = []"
| "prefix_masks s (Suc n) = mask_byte (min 8 s) # prefix_masks (s - min 8 s) n"

abbreviation masked :: "bytes \<Rightarrow> bytes \<Rightarrow> bytes" where
  "masked \<equiv> map2 (AND)"

lemma length_prefix_masks [simp]: "length (prefix_masks s n) = n"
  by (induction n arbitrary: s) simp_all

lemma cidr6_loop_masks:
  "cidr6_loop s addr =
   (prefix_masks s (length addr), masked addr (prefix_masks s (length addr)), addr \<noteq> masked addr (prefix_masks s (length addr)))"
proof (induction s addr rule: cidr6_loop.induct)
  case (2 s a addr)
  define k where "k = (if s > 8 then 8 else s)"
  have k: "min 8 s = k" by (simp add: k_def)
  show ?case
    using "2.IH" [OF k_def refl] by (simp add: Let_def k_def [symmetric] k mask_byte_def)
qed simp

lemma masked_eq_iff:
  "length as = n \<Longrightarrow> length bs = n \<Longrightarrow>
   masked as (prefix_masks s n) = masked bs (prefix_masks s n) \<longleftrightarrow> take s (bits_of as) = take s (bits_of bs)"
proof (induction n arbitrary: as bs s)
  case (Suc n)
  then obtain a as' b bs' where [simp]: "as = a # as'" "bs = b # bs'" "length as' = n" "length bs' = n"
    by (auto simp: length_Suc_conv)
  have IH: "masked as' (prefix_masks (s - min 8 s) n) = masked bs' (prefix_masks (s - min 8 s) n) \<longleftrightarrow>
      take (s - min 8 s) (bits_of as') = take (s - min 8 s) (bits_of bs')"
    by (rule Suc.IH) simp_all
  have byte: "a AND mask_byte (min 8 s) = b AND mask_byte (min 8 s) \<longleftrightarrow> take (min 8 s) (wbits 8 a) = take (min 8 s) (wbits 8 b)"
    by (rule mask_byte_bits) simp
  have tk: "take s (wbits 8 c @ cs) = take (min 8 s) (wbits 8 c) @ take (s - min 8 s) cs" for c cs
    by (cases "s \<le> 8") simp_all
  have "take s (bits_of as) = take s (bits_of bs) \<longleftrightarrow>
      take (min 8 s) (wbits 8 a) = take (min 8 s) (wbits 8 b) \<and>
      take (s - min 8 s) (bits_of as') = take (s - min 8 s) (bits_of bs')"
    by (simp only: \<open>as = a # as'\<close> \<open>bs = b # bs'\<close> bits_of_Cons tk, subst append_eq_append_conv) simp_all
  moreover have "masked as (prefix_masks s (Suc n)) = masked bs (prefix_masks s (Suc n)) \<longleftrightarrow>
      a AND mask_byte (min 8 s) = b AND mask_byte (min 8 s) \<and>
      masked as' (prefix_masks (s - min 8 s) n) = masked bs' (prefix_masks (s - min 8 s) n)"
    by simp
  ultimately show ?case
    using IH byte by simp
qed simp

lemma masked_nth: "length as = n \<Longrightarrow> length ms = n \<Longrightarrow> i < n \<Longrightarrow> masked as ms ! i = as ! i AND ms ! i"
  by simp

lemma masked_idem: "masked (masked as ms) ms = masked as ms"
  by (induction as ms rule: list_induct2') simp_all

lemma masked_bits: "length as = n \<Longrightarrow> take s (bits_of (masked as (prefix_masks s n))) = take s (bits_of as)"
  using masked_eq_iff [of "masked as (prefix_masks s n)" n as s] by (simp add: masked_idem)

text \<open>IPv4 addresses as four bytes.\<close>

lemma in_addr_bytes_and: "in_addr_bytes (a AND b) = masked (in_addr_bytes a) (in_addr_bytes b)"
  by (simp add: in_addr_bytes_def byte32_def drop_bit_and) (auto intro!: bit_word_eqI simp: bit_simps)

lemma in_addr_bytes_inj: "in_addr_bytes a = in_addr_bytes b \<Longrightarrow> a = b"
  by (simp add: in_addr_bytes_def) (metis in_addr_of_bytes)

lemma byte32_mask:
  assumes "k \<le> 3" "s \<le> 32"
  shows "byte32 (push_bit (32 - s) 0xffffffff) k = mask_byte (min 8 (s - 8 * (3 - k)))"
proof (rule bit_word_eqI)
  fix n assume "n < LENGTH(8)"
  then have n: "n < 8" by simp
  have "bit (byte32 (push_bit (32 - s) 0xffffffff) k) n \<longleftrightarrow> 32 - s \<le> 8 * k + n"
    using n assms by (simp only: byte32_def bit_unsigned_iff bit_drop_bit_eq bit_push_bit_iff bit_ones possible_bit_def o_apply) auto
  also have "\<dots> \<longleftrightarrow> 8 - min 8 (s - 8 * (3 - k)) \<le> n"
    using n assms by (auto simp: min_def)
  also have "\<dots> \<longleftrightarrow> bit (mask_byte (min 8 (s - 8 * (3 - k)))) n"
    using n by (subst bit_mask_byte) simp_all
  finally show "bit (byte32 (push_bit (32 - s) 0xffffffff) k) n = bit (mask_byte (min 8 (s - 8 * (3 - k)))) n" .
qed

lemma in_addr_mask:
  assumes "s \<le> 32"
  shows "in_addr_bytes (if s \<noteq> 0 then htonl (push_bit (32 - s) 0xffffffff) else 0) = prefix_masks s 4"
proof -
  have "(if s \<noteq> 0 then htonl (push_bit (32 - s) 0xffffffff) else 0) = htonl (push_bit (32 - s) 0xffffffff)"
    by (simp add: push_bit_word_beyond htonl_def be32_def byte32_def)
  then have "in_addr_bytes (if s \<noteq> 0 then htonl (push_bit (32 - s) 0xffffffff) else 0) =
      map (byte32 (push_bit (32 - s) 0xffffffff)) [3, 2, 1, 0]"
    by (simp add: htonl_def in_addr_bytes_def)
  also have "\<dots> = prefix_masks s 4"
    using byte32_mask [OF _ assms, of 3] byte32_mask [OF _ assms, of 2] byte32_mask [OF _ assms, of 1] byte32_mask [OF _ assms, of 0]
    by (simp add: numeral_eq_Suc min_def)
  finally show ?thesis .
qed

lemma port_positive: "ntohs prt \<noteq> 0 \<Longrightarrow> 1 \<le> uint (ntohs prt)"
  using uint_0_iff [of "ntohs prt"] uint_ge_0 [of "ntohs prt"] by linarith

section \<open>Matching a block\<close>

definition same_family :: "sockaddr \<Rightarrow> sockaddr \<Rightarrow> bool" where
  "same_family a b \<longleftrightarrow> (case (a, b) of
     (Sockaddr_in _ _, Sockaddr_in _ _) \<Rightarrow> True | (Sockaddr_in6 _ _, Sockaddr_in6 _ _) \<Rightarrow> True | _ \<Rightarrow> False)"

fun sockaddr_ok :: "sockaddr \<Rightarrow> bool" where
  "sockaddr_ok (Sockaddr_in6 a prt) = (length a = 16)"
| "sockaddr_ok _ = True"

lemma contains4:
  assumes "s \<le> 32" "m = (if s \<noteq> 0 then htonl (push_bit (32 - s) 0xffffffff) else 0)"
  shows "x AND m = y AND m \<longleftrightarrow> take s (bits_of (in_addr_bytes x)) = take s (bits_of (in_addr_bytes y))"
proof -
  have m: "in_addr_bytes m = prefix_masks s 4"
    unfolding assms(2) by (rule in_addr_mask [OF assms(1)])
  have "x AND m = y AND m \<longleftrightarrow> in_addr_bytes (x AND m) = in_addr_bytes (y AND m)"
    by (auto dest: in_addr_bytes_inj)
  also have "\<dots> \<longleftrightarrow> take s (bits_of (in_addr_bytes x)) = take s (bits_of (in_addr_bytes y))"
    unfolding in_addr_bytes_and m by (rule masked_eq_iff) (simp_all add: in_addr_bytes_def)
  finally show ?thesis .
qed

lemma list_all_16:
  assumes "length as = 16" "length bs = 16" "length ms = 16"
  shows "list_all (\<lambda>n. as ! n AND ms ! n = bs ! n) [0..<16] \<longleftrightarrow> masked as ms = bs"
  using assms by (auto simp: list_all_iff list_eq_iff_nth_eq simp del: upt_rec_numeral)

lemma match_ok: "sockaddr_ok sa \<Longrightarrow> sockaddr_ok (match_addr sa)"
  by (cases sa) auto

lemma ptocidr_parts:
  assumes "0x2f \<notin> set a"
  shows "ngx_strlchr (a @ 0x2f # m) 0x2f = Some (length a)" "take (length a) (a @ 0x2f # m) = a"
    "drop (length a + 1) (a @ 0x2f # m) = m"
  using strlchr_append [OF assms] by simp_all

lemma ptocidr4:
  assumes "ngx_inet_addr a = w" "w \<noteq> INADDR_NONE" "0x2f \<notin> set a" "ngx_atoi m = Some s" "s \<le> 32"
  defines "msk \<equiv> (if nat s \<noteq> 0 then htonl (push_bit (32 - nat s) 0xffffffff) else 0)"
  shows "ngx_ptocidr (a @ 0x2f # m) = Some (if w = w AND msk then NGX_OK else NGX_DONE, Cidr_in (w AND msk) msk)"
proof -
  have s: "0 \<le> s"
    using assms(4) dec_val_mono [of m 0] by (auto simp: atoi_exact split: if_splits)
  have msk: "(if s \<noteq> 0 then htonl (push_bit (32 - nat s) 0xffffffff) else 0) = msk"
    using s by (auto simp: msk_def)
  show ?thesis
    using assms msk unfolding ngx_ptocidr_def ptocidr_parts [OF assms(3)] Let_def option.case by auto
qed

lemma ptocidr6:
  assumes "ngx_inet_addr a = INADDR_NONE" "ngx_inet6_addr a = Some p" "0x2f \<notin> set a" "ngx_atoi m = Some s" "s \<le> 128"
  shows "ngx_ptocidr (a @ 0x2f # m) =
    Some (if p \<noteq> masked p (prefix_masks (nat s) 16) then NGX_DONE else NGX_OK,
          Cidr_in6 (masked p (prefix_masks (nat s) 16)) (prefix_masks (nat s) 16))"
  using assms inet6_addr_length [OF assms(2)] unfolding ngx_ptocidr_def ptocidr_parts [OF assms(3)] Let_def option.case
  by (simp add: cidr6_loop_masks)

lemma cidr4_matches:
  assumes a: "ngx_inet_addr a = w" "w \<noteq> INADDR_NONE" "0x2f \<notin> set a" and m: "ngx_atoi m = Some s" "s \<le> 32" and sa: "sockaddr_ok sa"
  obtains rc c where "ngx_ptocidr (a @ 0x2f # m) = Some (rc, c)" "rc = NGX_OK \<or> rc = NGX_DONE"
    "ngx_cidr_match sa [c] = NGX_OK \<longleftrightarrow> same_family (match_addr sa) (Sockaddr_in w 0) \<and>
       take (nat s) (addr_bits (match_addr sa)) = take (nat s) (bits_of (in_addr_bytes w))"
proof -
  define msk where "msk = (if nat s \<noteq> 0 then htonl (push_bit (32 - nat s) 0xffffffff) else 0)"
  have res: "ngx_ptocidr (a @ 0x2f # m) = Some (if w = w AND msk then NGX_OK else NGX_DONE, Cidr_in (w AND msk) msk)"
    unfolding msk_def by (rule ptocidr4 [OF a m])
  have "ngx_cidr_match sa [Cidr_in (w AND msk) msk] = NGX_OK \<longleftrightarrow> same_family (match_addr sa) (Sockaddr_in w 0) \<and>
       take (nat s) (addr_bits (match_addr sa)) = take (nat s) (bits_of (in_addr_bytes w))"
    using contains4 [OF _ msk_def, of "sin_addr (match_addr sa)" w] m(2)
    by (cases "match_addr sa") (simp_all add: ngx_cidr_match_def same_family_def)
  then show thesis
    using that [OF res] by simp
qed

lemma cidr6_matches:
  assumes a: "ngx_inet_addr a = INADDR_NONE" "ngx_inet6_addr a = Some p" "0x2f \<notin> set a"
    and m: "ngx_atoi m = Some s" "s \<le> 128" and sa: "sockaddr_ok sa"
  obtains rc c where "ngx_ptocidr (a @ 0x2f # m) = Some (rc, c)" "rc = NGX_OK \<or> rc = NGX_DONE"
    "ngx_cidr_match sa [c] = NGX_OK \<longleftrightarrow> same_family (match_addr sa) (Sockaddr_in6 p 0) \<and>
       take (nat s) (addr_bits (match_addr sa)) = take (nat s) (bits_of p)"
proof -
  have p: "length p = 16" by (rule inet6_addr_length [OF a(2)])
  let ?ms = "prefix_masks (nat s) 16"
  have res: "ngx_ptocidr (a @ 0x2f # m) =
      Some (if p \<noteq> masked p ?ms then NGX_DONE else NGX_OK, Cidr_in6 (masked p ?ms) ?ms)"
    by (rule ptocidr6 [OF a m])
  have "ngx_cidr_match sa [Cidr_in6 (masked p ?ms) ?ms] = NGX_OK \<longleftrightarrow> same_family (match_addr sa) (Sockaddr_in6 p 0) \<and>
       take (nat s) (addr_bits (match_addr sa)) = take (nat s) (bits_of p)"
  proof (cases "match_addr sa")
    case (Sockaddr_in6 q prt)
    then have q: "length q = 16"
      using match_ok [OF sa] by simp
    have "list_all (\<lambda>n. q ! n AND ?ms ! n = masked p ?ms ! n) [0..<16] \<longleftrightarrow> masked q ?ms = masked p ?ms"
      using list_all_16 [OF q _ length_prefix_masks, of "masked p ?ms" "nat s"] p by simp
    then show ?thesis
      using Sockaddr_in6 masked_eq_iff [OF q p, of "nat s"] by (simp add: ngx_cidr_match_def same_family_def del: upt_rec_numeral)
  qed (simp_all add: ngx_cidr_match_def same_family_def)
  then show thesis
    using that [OF res] by simp
qed

section \<open>Properties\<close>




end
