(* ===== verification/HttpChunked.thy ===== *)
theory HttpChunked
  imports Numbers
begin

text \<open>
  Chunked transfer coding: the parser \<open>ngx_http_parse_chunked\<close> of \<^verbatim>\<open>src/http/ngx_http_parse.c\<close>, the
  filter that reads a request body with it (\<open>ngx_http_request_body_chunked_filter\<close> of
  \<^verbatim>\<open>src/http/ngx_http_request_body.c\<close>) and the filter that writes a response body in chunks
  (\<^verbatim>\<open>src/http/modules/ngx_http_chunked_filter_module.c\<close>).
\<close>

section \<open>The parser\<close>

definition NGX_MAX_OFF_T_VALUE :: nat where
  "NGX_MAX_OFF_T_VALUE = 9223372036854775807"

datatype chunk_state =
    sw_chunk_start | sw_chunk_size | sw_chunk_extension | sw_chunk_extension_almost_done
  | sw_chunk_data | sw_after_data | sw_after_data_almost_done
  | sw_last_chunk_extension | sw_last_chunk_extension_almost_done
  | sw_trailer | sw_trailer_almost_done | sw_trailer_header | sw_trailer_header_almost_done

text \<open>\<open>ngx_http_chunked_t\<close>; the size is never negative.\<close>

record ngx_http_chunked_t =
  ck_state :: chunk_state
  ck_size :: nat
  ck_length :: nat

text \<open>One character: the next state and size, or one of the three labels.\<close>

datatype chunk_move = Chunk_next chunk_state nat | Chunk_goto_data | Chunk_goto_done | Chunk_goto_invalid

text \<open>The value of a hexadecimal digit in the two states that read the size.\<close>

definition chunk_digit :: "u8 \<Rightarrow> nat option" where
  "chunk_digit ch =
     (let c = ch OR 0x20
      in if ch \<ge> 0x30 \<and> ch \<le> 0x39 then Some (unat (ch - 0x30))
         else if c \<ge> 0x61 \<and> c \<le> 0x66 then Some (unat (c - 0x61) + 10) else None)"

definition chunk_size_step :: "u8 \<Rightarrow> nat \<Rightarrow> chunk_move" where
  "chunk_size_step ch sz =
     (if sz > NGX_MAX_OFF_T_VALUE div 16 then Chunk_goto_invalid
      else case chunk_digit ch of
             Some d \<Rightarrow> Chunk_next sw_chunk_size (sz * 16 + d)
           | None \<Rightarrow>
               if sz = 0 then
                 (if ch = 0x0d then Chunk_next sw_last_chunk_extension_almost_done sz
                  else if ch = 0x0a then Chunk_next sw_trailer sz
                  else if ch = 0x3b \<or> ch = 0x20 \<or> ch = 0x09 then Chunk_next sw_last_chunk_extension sz
                  else Chunk_goto_invalid)
               else
                 (if ch = 0x0d then Chunk_next sw_chunk_extension_almost_done sz
                  else if ch = 0x0a then Chunk_next sw_chunk_data sz
                  else if ch = 0x3b \<or> ch = 0x20 \<or> ch = 0x09 then Chunk_next sw_chunk_extension sz
                  else Chunk_goto_invalid))"

fun chunk_step :: "chunk_state \<Rightarrow> nat \<Rightarrow> u8 \<Rightarrow> chunk_move" where
  "chunk_step sw_chunk_start sz ch =
     (case chunk_digit ch of Some d \<Rightarrow> Chunk_next sw_chunk_size d | None \<Rightarrow> Chunk_goto_invalid)"
| "chunk_step sw_chunk_size sz ch = chunk_size_step ch sz"
| "chunk_step sw_chunk_extension sz ch =
     Chunk_next (if ch = 0x0d then sw_chunk_extension_almost_done
                 else if ch = 0x0a then sw_chunk_data else sw_chunk_extension) sz"
| "chunk_step sw_chunk_extension_almost_done sz ch =
     (if ch = 0x0a then Chunk_next sw_chunk_data sz else Chunk_goto_invalid)"
| "chunk_step sw_chunk_data sz ch = Chunk_goto_data"
| "chunk_step sw_after_data sz ch =
     Chunk_next (if ch = 0x0d then sw_after_data_almost_done
                 else if ch = 0x0a then sw_chunk_start else sw_after_data) sz"
| "chunk_step sw_after_data_almost_done sz ch =
     (if ch = 0x0a then Chunk_next sw_chunk_start sz else Chunk_goto_invalid)"
| "chunk_step sw_last_chunk_extension sz ch =
     Chunk_next (if ch = 0x0d then sw_last_chunk_extension_almost_done
                 else if ch = 0x0a then sw_trailer else sw_last_chunk_extension) sz"
| "chunk_step sw_last_chunk_extension_almost_done sz ch =
     (if ch = 0x0a then Chunk_next sw_trailer sz else Chunk_goto_invalid)"
| "chunk_step sw_trailer sz ch =
     (if ch = 0x0d then Chunk_next sw_trailer_almost_done sz
      else if ch = 0x0a then Chunk_goto_done else Chunk_next sw_trailer_header sz)"
| "chunk_step sw_trailer_almost_done sz ch = (if ch = 0x0a then Chunk_goto_done else Chunk_goto_invalid)"
| "chunk_step sw_trailer_header sz ch =
     Chunk_next (if ch = 0x0d then sw_trailer_header_almost_done
                 else if ch = 0x0a then sw_trailer else sw_trailer_header) sz"
| "chunk_step sw_trailer_header_almost_done sz ch =
     (if ch = 0x0a then Chunk_next sw_trailer sz else Chunk_goto_invalid)"

text \<open>The least number of bytes that the rest of the body can have.\<close>

fun chunk_length :: "chunk_state \<Rightarrow> nat \<Rightarrow> nat" where
  "chunk_length sw_chunk_start sz = 3"
| "chunk_length sw_chunk_size sz = 1 + (if sz \<noteq> 0 then sz + 4 else 1)"
| "chunk_length sw_chunk_extension sz = 1 + sz + 4"
| "chunk_length sw_chunk_extension_almost_done sz = 1 + sz + 4"
| "chunk_length sw_chunk_data sz = sz + 4"
| "chunk_length sw_after_data sz = 4"
| "chunk_length sw_after_data_almost_done sz = 4"
| "chunk_length sw_last_chunk_extension sz = 2"
| "chunk_length sw_last_chunk_extension_almost_done sz = 2"
| "chunk_length sw_trailer sz = 1"
| "chunk_length sw_trailer_almost_done sz = 1"
| "chunk_length sw_trailer_header sz = 2"
| "chunk_length sw_trailer_header_almost_done sz = 2"

text \<open>
  The loop: the return code, the state and size it leaves with, and what is left of the buffer.
  The code at the label \<open>data\<close> follows in the second function.
\<close>

fun chunk_loop :: "chunk_state \<Rightarrow> nat \<Rightarrow> bytes \<Rightarrow> ngx_rc \<times> chunk_state \<times> nat \<times> bytes" where
  "chunk_loop st sz [] = (NGX_AGAIN, st, sz, [])"
| "chunk_loop st sz (ch # pos) =
     (case chunk_step st sz ch of
        Chunk_next st sz \<Rightarrow> chunk_loop st sz pos
      | Chunk_goto_data \<Rightarrow> (NGX_OK, st, sz, ch # pos)
      | Chunk_goto_done \<Rightarrow> (NGX_DONE, st, sz, pos)
      | Chunk_goto_invalid \<Rightarrow> (NGX_ERROR, st, sz, ch # pos))"

text \<open>\<open>src\<close> is the buffer from \<open>b->pos\<close> on, and so is the last component of the result.\<close>

definition ngx_http_parse_chunked :: "ngx_http_chunked_t \<Rightarrow> bytes \<Rightarrow> ngx_rc \<times> ngx_http_chunked_t \<times> bytes" where
  "ngx_http_parse_chunked ctx src =
     (let st = (if ck_state ctx = sw_chunk_data \<and> ck_size ctx = 0 then sw_after_data else ck_state ctx)
      in case chunk_loop st (ck_size ctx) src of (rc, st, sz, pos) \<Rightarrow>
           if rc = NGX_ERROR then (NGX_ERROR, ctx\<lparr>ck_size := sz\<rparr>, src)
           else if rc = NGX_DONE then (NGX_DONE, ctx\<lparr>ck_size := sz, ck_state := sw_chunk_start\<rparr>, pos)
           else (let ctx = ctx\<lparr>ck_size := sz, ck_state := st\<rparr>
                 in if sz > NGX_MAX_OFF_T_VALUE - 5 then (NGX_ERROR, ctx, pos)
                    else (rc, ctx\<lparr>ck_length := chunk_length st sz\<rparr>, pos)))"

lemma chunk_step_data: "chunk_step st sz ch = Chunk_goto_data \<longleftrightarrow> st = sw_chunk_data"
  by (cases st) (simp_all add: chunk_size_step_def split: option.split)

lemma chunk_loop_ok:
  "chunk_loop st sz src = (NGX_OK, st', sz', pos) \<Longrightarrow> st' = sw_chunk_data \<and> pos \<noteq> [] \<and> length pos \<le> length src"
proof (induction src arbitrary: st sz)
  case (Cons ch p)
  then show ?case
    by (cases "chunk_step st sz ch") (auto intro: le_SucI simp: chunk_step_data)
qed simp

lemma chunk_loop_shorter:
  "chunk_loop st sz src = (NGX_OK, st', sz', pos) \<Longrightarrow> st \<noteq> sw_chunk_data \<Longrightarrow> length pos < length src"
proof (induction src arbitrary: st sz)
  case (Cons ch p)
  show ?case
  proof (cases "chunk_step st sz ch")
    case (Chunk_next st1 sz1)
    then have "chunk_loop st1 sz1 p = (NGX_OK, st', sz', pos)"
      using Cons.prems(1) by simp
    from chunk_loop_ok [OF this] show ?thesis by simp
  qed (use Cons.prems in \<open>auto simp: chunk_step_data\<close>)
qed simp

lemma parse_chunked_ok:
  assumes "ngx_http_parse_chunked ctx src = (NGX_OK, ctx', pos)"
  shows "ck_state ctx' = sw_chunk_data \<and> pos \<noteq> [] \<and>
    2 * length pos < 2 * length src + (if ck_state ctx = sw_chunk_data \<and> ck_size ctx = 0 then 0 else 1)"
proof -
  obtain st where st: "st = (if ck_state ctx = sw_chunk_data \<and> ck_size ctx = 0 then sw_after_data else ck_state ctx)"
    by simp
  obtain sz' where loop: "chunk_loop st (ck_size ctx) src = (NGX_OK, ck_state ctx', sz', pos)"
    using assms by (auto simp: ngx_http_parse_chunked_def Let_def st [symmetric] split: prod.splits if_splits)
  show ?thesis
    using chunk_loop_ok [OF loop] chunk_loop_shorter [OF loop] by (auto simp: st split: if_splits)
qed

section \<open>The request body\<close>

text \<open>
  \<open>rb->rest\<close>, \<open>rb->chunked\<close> and \<open>r->headers_in.content_length_n\<close>, the number of bytes of the body
  seen so far.
\<close>

record body =
  rb_rest :: int
  rb_chunked :: ngx_http_chunked_t
  rb_length :: nat

datatype body_result = Body_ok | Body_too_large | Body_bad_request | Body_server_error

text \<open>
  The inner loop on one buffer.  \<open>max_size\<close> is \<open>client_max_body_size\<close>; \<open>out\<close> is the chain of data buffers
  built so far; \<open>ok\<close> tells which of the allocations of a chain link succeed.  The end of the body
  is recorded by \<open>rb_rest = 0\<close>.
\<close>

function body_loop ::
    "(nat \<Rightarrow> bool) \<Rightarrow> nat \<Rightarrow> bytes \<Rightarrow> body \<Rightarrow> bytes list \<Rightarrow> body_result \<times> body \<times> bytes \<times> bytes list" where
  "body_loop ok max_size src rb out =
     (case ngx_http_parse_chunked (rb_chunked rb) src of (rc, ctx, pos) \<Rightarrow>
        let rb = rb\<lparr>rb_chunked := ctx\<rparr>; sz = ck_size ctx
        in if rc = NGX_OK then
             (if max_size \<noteq> 0 \<and> int max_size - int (rb_length rb) < int sz then (Body_too_large, rb, pos, out)
              else if \<not> ok (length out) then (Body_server_error, rb, pos, out)
              else if length pos > sz
              then body_loop ok max_size (drop sz pos)
                     (rb\<lparr>rb_chunked := ctx\<lparr>ck_size := 0\<rparr>, rb_length := rb_length rb + sz\<rparr>) (out @ [take sz pos])
              else body_loop ok max_size []
                     (rb\<lparr>rb_chunked := ctx\<lparr>ck_size := sz - length pos\<rparr>, rb_length := rb_length rb + length pos\<rparr>)
                     (out @ [pos]))
           else if rc = NGX_DONE then
             (if \<not> ok (length out) then (Body_server_error, rb\<lparr>rb_rest := 0\<rparr>, pos, out)
              else (Body_ok, rb\<lparr>rb_rest := 0\<rparr>, pos, out))
           else if rc = NGX_AGAIN then (Body_ok, rb\<lparr>rb_rest := int (ck_length ctx)\<rparr>, pos, out)
           else (Body_bad_request, rb, pos, out))"
  by pat_completeness auto

termination
proof (relation "measure (\<lambda>(ok, m, src, rb, out). 2 * length src +
    (if ck_state (rb_chunked rb) = sw_chunk_data \<and> ck_size (rb_chunked rb) = 0 then 0 else 1))")
qed (auto dest!: parse_chunked_ok [OF sym] split: if_splits)

declare body_loop.simps [simp del]

text \<open>A chain of buffers: what is left of each of them is returned too.\<close>

fun body_chain ::
    "(nat \<Rightarrow> bool) \<Rightarrow> nat \<Rightarrow> bytes list \<Rightarrow> body \<Rightarrow> bytes list \<Rightarrow> body_result \<times> body \<times> bytes list \<times> bytes list" where
  "body_chain ok max_size [] rb out = (Body_ok, rb, [], out)"
| "body_chain ok max_size (cl # cls) rb out =
     (case body_loop ok max_size cl rb out of (res, rb, pos, out) \<Rightarrow>
        if res \<noteq> Body_ok then (res, rb, pos # cls, out)
        else (case body_chain ok max_size cls rb out of (res, rb, rest, out) \<Rightarrow> (res, rb, pos # rest, out)))"

definition chunked_init :: ngx_http_chunked_t where
  "chunked_init = \<lparr>ck_state = sw_chunk_start, ck_size = 0, ck_length = 0\<rparr>"

text \<open>\<open>ctx_ok\<close> tells whether the allocation of the context succeeds.\<close>

definition ngx_http_request_body_chunked_filter ::
    "bool \<Rightarrow> (nat \<Rightarrow> bool) \<Rightarrow> nat \<Rightarrow> bytes list \<Rightarrow> body \<Rightarrow> body_result \<times> body \<times> bytes list \<times> bytes list" where
  "ngx_http_request_body_chunked_filter ctx_ok ok max_size cls rb =
     (if rb_rest rb = -1 \<and> \<not> ctx_ok then (Body_server_error, rb, cls, [])
      else body_chain ok max_size cls
             (if rb_rest rb = -1 then rb\<lparr>rb_chunked := chunked_init, rb_length := 0, rb_rest := 3\<rparr> else rb) [])"

text \<open>
  How \<open>ngx_http_do_read_client_request_body\<close> uses the filter: every read passes one buffer, until
  nothing more is wanted (\<open>rest\<close> is 0).
\<close>

fun body_reads :: "nat \<Rightarrow> bytes list \<Rightarrow> body \<Rightarrow> body_result \<times> body \<times> bytes list \<times> bytes" where
  "body_reads max_size [] rb = (Body_ok, rb, [], [])"
| "body_reads max_size (buf # bufs) rb =
     (case ngx_http_request_body_chunked_filter True (\<lambda>_. True) max_size [buf] rb of (res, rb, rest, out) \<Rightarrow>
        if res \<noteq> Body_ok \<or> rb_rest rb = 0 then (res, rb, rest @ bufs, concat out)
        else (case body_reads max_size bufs rb of (res, rb, rest, out') \<Rightarrow> (res, rb, rest, concat out @ out')))"

definition body_init :: body where
  "body_init = \<lparr>rb_rest = -1, rb_chunked = chunked_init, rb_length = 0\<rparr>"

section \<open>The response body\<close>

text \<open>\<open>ngx_sprintf(chunk, "%xO" CRLF, size)\<close>.\<close>

definition chunk_size_text :: "nat \<Rightarrow> bytes" where
  "chunk_size_text n = ngx_sprintf_num 20 (word_of_nat n) 0x20 1 0 @ [0x0d, 0x0a]"

text \<open>
  The trailers: pairs of key and value, and a hash that is 0 for those that are left out.
\<close>

definition ngx_http_chunked_create_trailers :: "(u64 \<times> bytes \<times> bytes) list \<Rightarrow> bytes" where
  "ngx_http_chunked_create_trailers trailers =
     [0x0d, 0x0a, 0x30, 0x0d, 0x0a] @
     concat (map (\<lambda>(hash, key, val). if hash = 0 then [] else key @ [0x3a, 0x20] @ val @ [0x0d, 0x0a]) trailers) @
     [0x0d, 0x0a]"

text \<open>
  What \<open>ngx_http_chunked_body_filter\<close> passes on for a chain of buffers, when its allocations
  succeed; \<open>last_buf\<close> is the flag of the last buffer.
\<close>

definition ngx_http_chunked_body_filter :: "(u64 \<times> bytes \<times> bytes) list \<Rightarrow> bool \<Rightarrow> bytes list \<Rightarrow> bytes" where
  "ngx_http_chunked_body_filter trailers last_buf cls =
     (let sz = sum_list (map length cls)
      in (if sz \<noteq> 0 then chunk_size_text sz else []) @ concat cls @
         (if last_buf then drop (if sz = 0 then 2 else 0) (ngx_http_chunked_create_trailers trailers)
          else if sz > 0 then [0x0d, 0x0a] else []))"

section \<open>The body byte by byte\<close>

definition norm_state :: "chunk_state \<Rightarrow> nat \<Rightarrow> chunk_state" where
  "norm_state st sz = (if st = sw_chunk_data \<and> sz = 0 then sw_after_data else st)"

text \<open>
  The same automaton, taking data bytes one at a time: an error, the end of the body, or the next
  state (with the number of bytes of the body so far) and the data.
\<close>

type_synonym body_state = "chunk_state \<times> nat \<times> nat"

fun body_byte :: "nat \<Rightarrow> body_state \<Rightarrow> u8 \<Rightarrow> body_result + body_state option \<times> bytes" where
  "body_byte max_size (st, sz, n) ch =
     (case chunk_step st sz ch of
        Chunk_goto_data \<Rightarrow>
          if max_size \<noteq> 0 \<and> max_size < n + sz then Inl Body_too_large
          else Inr (Some (norm_state sw_chunk_data (sz - 1), sz - 1, n + 1), [ch])
      | Chunk_goto_done \<Rightarrow> Inr (None, [])
      | Chunk_goto_invalid \<Rightarrow> Inl Body_bad_request
      | Chunk_next st sz \<Rightarrow>
          if sz > NGX_MAX_OFF_T_VALUE - 5 then Inl Body_bad_request else Inr (Some (st, sz, n), []))"

fun body_bytes :: "nat \<Rightarrow> body_state \<Rightarrow> bytes \<Rightarrow> bytes \<Rightarrow> body_result + body_state option \<times> bytes \<times> bytes" where
  "body_bytes max_size s [] out = Inr (Some s, [], out)"
| "body_bytes max_size s (ch # src) out =
     (case body_byte max_size s ch of
        Inl e \<Rightarrow> Inl e
      | Inr (None, d) \<Rightarrow> Inr (None, src, out @ d)
      | Inr (Some s, d) \<Rightarrow> body_bytes max_size s src (out @ d))"

lemma body_bytes_append:
  "body_bytes max_size s (as @ bs) out =
     (case body_bytes max_size s as out of
        Inl e \<Rightarrow> Inl e
      | Inr (None, rest, out) \<Rightarrow> Inr (None, rest @ bs, out)
      | Inr (Some s, rest, out) \<Rightarrow> body_bytes max_size s bs out)"
  by (induction as arbitrary: s out) (auto split: sum.split option.split)

lemma body_bytes_out:
  "body_bytes max_size s src (out @ d) =
     (case body_bytes max_size s src d of
        Inl e \<Rightarrow> Inl e
      | Inr (s, rest, d) \<Rightarrow> Inr (s, rest, out @ d))"
  by (induction src arbitrary: s d) (auto split: sum.split option.split)

definition chunk_ok :: "chunk_state \<Rightarrow> nat \<Rightarrow> bool" where
  "chunk_ok st sz \<longleftrightarrow> sz \<le> NGX_MAX_OFF_T_VALUE - 5 \<and>
     (st \<noteq> sw_chunk_size \<longrightarrow> sz \<le> NGX_MAX_OFF_T_VALUE div 16) \<and>
     (st \<in> {sw_chunk_extension, sw_chunk_extension_almost_done, sw_chunk_data} \<longrightarrow> 0 < sz)"

lemma chunk_digit_less: "chunk_digit ch = Some d \<Longrightarrow> d < 16"
  by (auto simp: chunk_digit_def Let_def word_le_nat_alt unat_sub split: if_splits)

lemma chunk_step_ok:
  assumes "chunk_step st sz ch = Chunk_next st' sz'" "chunk_ok st sz"
  shows "chunk_ok st' sz' \<or> st' = sw_chunk_size \<and> NGX_MAX_OFF_T_VALUE - 5 < sz'"
  using assms chunk_digit_less [of ch]
  by (cases st) (auto simp: chunk_ok_def chunk_size_step_def NGX_MAX_OFF_T_VALUE_def split: if_splits option.splits)

text \<open>One call of the parser runs the byte automaton up to the next data byte.\<close>

lemma chunk_loop_bytes:
  assumes "chunk_ok st sz"
  shows "case chunk_loop st sz src of (rc, st', sz', pos) \<Rightarrow>
      (rc = NGX_AGAIN \<longrightarrow> pos = [] \<and>
         (if sz' > NGX_MAX_OFF_T_VALUE - 5 then body_bytes max_size (st, sz, n) src out = Inl Body_bad_request
          else chunk_ok st' sz' \<and> body_bytes max_size (st, sz, n) src out = Inr (Some (st', sz', n), [], out))) \<and>
      (rc = NGX_OK \<longrightarrow> st' = sw_chunk_data \<and> chunk_ok st' sz' \<and> pos \<noteq> [] \<and>
         body_bytes max_size (st, sz, n) src out = body_bytes max_size (st', sz', n) pos out) \<and>
      (rc = NGX_DONE \<longrightarrow> body_bytes max_size (st, sz, n) src out = Inr (None, pos, out)) \<and>
      (rc = NGX_ERROR \<longrightarrow> body_bytes max_size (st, sz, n) src out = Inl Body_bad_request) \<and>
      rc \<in> {NGX_AGAIN, NGX_OK, NGX_DONE, NGX_ERROR}"
  using assms
proof (induction src arbitrary: st sz)
  case Nil
  then show ?case by (auto simp: chunk_ok_def)
next
  case (Cons ch src)
  show ?case
  proof (cases "chunk_step st sz ch")
    case (Chunk_next st1 sz1)
    show ?thesis
    proof (cases "chunk_ok st1 sz1")
      case True
      then have "\<not> sz1 > NGX_MAX_OFF_T_VALUE - 5" by (simp add: chunk_ok_def)
      then have "body_bytes max_size (st, sz, n) (ch # src) out = body_bytes max_size (st1, sz1, n) src out"
        "chunk_loop st sz (ch # src) = chunk_loop st1 sz1 src"
        using Chunk_next by simp_all
      with Cons.IH [OF True] show ?thesis by (simp only:)
    next
      case False
      then have over: "st1 = sw_chunk_size" "NGX_MAX_OFF_T_VALUE - 5 < sz1"
        using chunk_step_ok [OF Chunk_next Cons.prems] by simp_all
      then have bad: "body_bytes max_size (st, sz, n) (ch # src) out = Inl Body_bad_request"
        using Chunk_next by simp
      have "sz1 > NGX_MAX_OFF_T_VALUE div 16"
        using over(2) by (simp add: NGX_MAX_OFF_T_VALUE_def)
      then have "chunk_loop sw_chunk_size sz1 src = (if src = [] then (NGX_AGAIN, sw_chunk_size, sz1, []) else (NGX_ERROR, sw_chunk_size, sz1, src))"
        by (cases src) (simp_all add: chunk_size_step_def)
      then show ?thesis
        using bad over Chunk_next by simp
    qed
  next
    case Chunk_goto_data
    then show ?thesis using Cons.prems by (simp add: chunk_step_data)
  qed simp_all
qed

lemma body_bytes_data:
  assumes "0 < sz" "pos \<noteq> []"
  shows "body_bytes max_size (sw_chunk_data, sz, n) pos out =
     (if max_size \<noteq> 0 \<and> max_size < n + sz then Inl Body_too_large
      else if length pos > sz
      then body_bytes max_size (sw_after_data, 0, n + sz) (drop sz pos) (out @ take sz pos)
      else body_bytes max_size (norm_state sw_chunk_data (sz - length pos), sz - length pos, n + length pos) [] (out @ pos))"
  using assms
proof (induction pos arbitrary: sz n out)
  case (Cons ch pos)
  show ?case
  proof (cases "max_size \<noteq> 0 \<and> max_size < n + sz")
    case False
    have step: "body_bytes max_size (sw_chunk_data, sz, n) (ch # pos) out =
        body_bytes max_size (norm_state sw_chunk_data (sz - 1), sz - 1, n + 1) pos (out @ [ch])"
      using False by auto
    show ?thesis
    proof (cases "sz = 1 \<or> pos = []")
      case True
      then show ?thesis
        using False Cons.prems(1) unfolding step by (cases pos) (auto simp: norm_state_def)
    next
      case more: False
      then have "norm_state sw_chunk_data (sz - 1) = sw_chunk_data" "0 < sz - 1"
        using Cons.prems(1) by (auto simp: norm_state_def)
      with Cons.IH [of "sz - 1" "n + 1" "out @ [ch]"] more False Cons.prems(1) show ?thesis
        unfolding step by (auto simp: drop_Cons' take_Cons')
    qed
  qed simp
qed simp

text \<open>
  What a call on one buffer comes to: an error, or the state it leaves (none at the end of the
  body), what is left of the buffer, and all the data.
\<close>

fun body_view :: "body_result \<times> body \<times> bytes \<times> bytes list \<Rightarrow> body_result + body_state option \<times> bytes \<times> bytes" where
  "body_view (res, rb, pos, out) =
     (if res \<noteq> Body_ok then Inl res
      else Inr (if rb_rest rb = 0 then None
                else Some (ck_state (rb_chunked rb), ck_size (rb_chunked rb), rb_length rb), pos, concat out))"

definition body_ok :: "body \<Rightarrow> bool" where
  "body_ok rb \<longleftrightarrow> chunk_ok (norm_state (ck_state (rb_chunked rb)) (ck_size (rb_chunked rb))) (ck_size (rb_chunked rb))"

lemma chunk_length_pos: "0 < chunk_length st sz"
  by (cases st) simp_all

lemma parse_chunked_bytes:
  fixes ctx :: ngx_http_chunked_t
  defines "st \<equiv> norm_state (ck_state ctx) (ck_size ctx)"
  assumes "chunk_ok st (ck_size ctx)"
  shows "case ngx_http_parse_chunked ctx src of (rc, ctx', pos) \<Rightarrow>
      (rc = NGX_AGAIN \<longrightarrow> pos = [] \<and> chunk_ok (ck_state ctx') (ck_size ctx') \<and>
         ck_length ctx' = chunk_length (ck_state ctx') (ck_size ctx') \<and>
         body_bytes max_size (st, ck_size ctx, n) src out = Inr (Some (ck_state ctx', ck_size ctx', n), [], out)) \<and>
      (rc = NGX_OK \<longrightarrow> ck_state ctx' = sw_chunk_data \<and> chunk_ok sw_chunk_data (ck_size ctx') \<and> pos \<noteq> [] \<and>
         body_bytes max_size (st, ck_size ctx, n) src out = body_bytes max_size (sw_chunk_data, ck_size ctx', n) pos out) \<and>
      (rc = NGX_DONE \<longrightarrow> body_bytes max_size (st, ck_size ctx, n) src out = Inr (None, pos, out)) \<and>
      (rc = NGX_ERROR \<longrightarrow> body_bytes max_size (st, ck_size ctx, n) src out = Inl Body_bad_request) \<and>
      rc \<in> {NGX_AGAIN, NGX_OK, NGX_DONE, NGX_ERROR}"
proof -
  obtain rc st' sz' pos where loop: "chunk_loop st (ck_size ctx) src = (rc, st', sz', pos)"
    by (cases "chunk_loop st (ck_size ctx) src")
  have parse: "ngx_http_parse_chunked ctx src =
      (if rc = NGX_ERROR then (NGX_ERROR, ctx\<lparr>ck_size := sz'\<rparr>, src)
       else if rc = NGX_DONE then (NGX_DONE, ctx\<lparr>ck_size := sz', ck_state := sw_chunk_start\<rparr>, pos)
       else if sz' > NGX_MAX_OFF_T_VALUE - 5 then (NGX_ERROR, ctx\<lparr>ck_size := sz', ck_state := st'\<rparr>, pos)
       else (rc, ctx\<lparr>ck_size := sz', ck_state := st', ck_length := chunk_length st' sz'\<rparr>, pos))"
    using loop by (simp add: ngx_http_parse_chunked_def st_def norm_state_def Let_def)
  note bytes = chunk_loop_bytes [OF assms(2), where src = src and max_size = max_size and n = n and out = out, unfolded loop prod.case]
  consider "rc = NGX_AGAIN" | "rc = NGX_OK" | "rc = NGX_DONE" | "rc = NGX_ERROR"
    using bytes by blast
  then show ?thesis
  proof cases
    case 2
    then have "chunk_ok st' sz'" using bytes by blast
    then have "\<not> sz' > NGX_MAX_OFF_T_VALUE - 5" by (simp add: chunk_ok_def)
    moreover have "st' = sw_chunk_data" "chunk_ok st' sz'"
      using 2 bytes by blast+
    moreover have "body_bytes max_size (st, ck_size ctx, n) src out = body_bytes max_size (st', sz', n) pos out" "pos \<noteq> []"
      using 2 bytes by blast+
    ultimately show ?thesis using 2 by (simp add: parse)
  qed (use bytes in \<open>simp_all add: parse\<close>)
qed

lemma body_loop_bytes:
  assumes "body_ok rb"
  shows "body_view (body_loop (\<lambda>_. True) max_size src rb out) =
      body_bytes max_size (norm_state (ck_state (rb_chunked rb)) (ck_size (rb_chunked rb)), ck_size (rb_chunked rb), rb_length rb) src (concat out) \<and>
    (case body_loop (\<lambda>_. True) max_size src rb out of (res, rb', pos, out') \<Rightarrow>
       res = Body_ok \<longrightarrow> rb_rest rb' \<noteq> 0 \<longrightarrow>
       chunk_ok (ck_state (rb_chunked rb')) (ck_size (rb_chunked rb')) \<and> pos = [] \<and>
       rb_rest rb' = int (chunk_length (ck_state (rb_chunked rb')) (ck_size (rb_chunked rb'))))"
  using assms
proof (induction "\<lambda>_ :: nat. True" max_size src rb out rule: body_loop.induct)
  case (1 max_size src rb out)
  obtain rc ctx pos where parse: "ngx_http_parse_chunked (rb_chunked rb) src = (rc, ctx, pos)"
    by (cases "ngx_http_parse_chunked (rb_chunked rb) src")
  note bytes = parse_chunked_bytes [OF 1(3) [unfolded body_ok_def], where src = src and max_size = max_size
      and n = "rb_length rb" and out = "concat out", unfolded parse prod.case]
  consider (again) "rc = NGX_AGAIN" | (ok) "rc = NGX_OK" | (fin) "rc = NGX_DONE" | (err) "rc = NGX_ERROR"
    using bytes by blast
  then show ?case
  proof cases
    case again
    then show ?thesis
      using bytes chunk_length_pos [of "ck_state ctx" "ck_size ctx"] by (simp add: body_loop.simps [of _ _ src] parse)
  next
    case fin
    then show ?thesis using bytes by (simp add: body_loop.simps [of _ _ src] parse)
  next
    case err
    then show ?thesis using bytes by (simp add: body_loop.simps [of _ _ src] parse)
  next
    case ok
    define sz where "sz = ck_size ctx"
    have sz: "0 < sz" "chunk_ok sw_chunk_data sz" "ck_state ctx = sw_chunk_data" "pos \<noteq> []"
      using bytes ok by (simp_all add: sz_def chunk_ok_def)
    have data: "body_bytes max_size (norm_state (ck_state (rb_chunked rb)) (ck_size (rb_chunked rb)), ck_size (rb_chunked rb), rb_length rb) src (concat out) =
        body_bytes max_size (sw_chunk_data, sz, rb_length rb) pos (concat out)"
      using bytes ok by (simp add: sz_def)
    have lim: "int max_size - int (rb_length rb) < int sz \<longleftrightarrow> max_size < rb_length rb + sz"
      by linarith
    show ?thesis
    proof (cases "max_size \<noteq> 0 \<and> max_size < rb_length rb + sz")
      case True
      then show ?thesis
        using body_bytes_data [OF sz(1,4), of max_size "rb_length rb" "concat out"] ok lim
        unfolding data by (simp add: body_loop.simps [of _ _ src] parse sz_def)
    next
      case False
      have cond: "(0 < max_size \<and> int max_size - int (rb_length rb) < int sz) = False"
        "(0 < max_size \<and> max_size < rb_length rb + sz) = False"
        using False lim by blast+
      show ?thesis
      proof (cases "length pos > sz")
        case True
        define rb1 where "rb1 = rb\<lparr>rb_chunked := ctx\<lparr>ck_size := 0\<rparr>, rb_length := rb_length rb + sz\<rparr>"
        have loop: "body_loop (\<lambda>_. True) max_size src rb out = body_loop (\<lambda>_. True) max_size (drop sz pos) rb1 (out @ [take sz pos])"
          using True ok unfolding body_loop.simps [of _ _ src] parse prod.case Let_def sz_def [symmetric]
          by (simp add: rb1_def cond)
        have ok1: "body_ok rb1"
          by (simp add: body_ok_def rb1_def sz norm_state_def chunk_ok_def)
        have "body_view (body_loop (\<lambda>_. True) max_size (drop sz pos) rb1 (out @ [take sz pos])) =
            body_bytes max_size (norm_state (ck_state (rb_chunked rb1)) (ck_size (rb_chunked rb1)), ck_size (rb_chunked rb1), rb_length rb1) (drop sz pos) (concat (out @ [take sz pos])) \<and>
          (case body_loop (\<lambda>_. True) max_size (drop sz pos) rb1 (out @ [take sz pos]) of (res, rb', pos, out') \<Rightarrow>
             res = Body_ok \<longrightarrow> rb_rest rb' \<noteq> 0 \<longrightarrow>
             chunk_ok (ck_state (rb_chunked rb')) (ck_size (rb_chunked rb')) \<and> pos = [] \<and>
             rb_rest rb' = int (chunk_length (ck_state (rb_chunked rb')) (ck_size (rb_chunked rb'))))"
          using 1(1) [OF parse [symmetric] refl refl refl ok] True cond ok1
          by (simp add: sz_def rb1_def)
        moreover have "(norm_state (ck_state (rb_chunked rb1)) (ck_size (rb_chunked rb1)), ck_size (rb_chunked rb1), rb_length rb1) =
            (sw_after_data, 0, rb_length rb + sz)"
          by (simp add: rb1_def sz norm_state_def)
        ultimately show ?thesis
          using body_bytes_data [OF sz(1,4), of max_size "rb_length rb" "concat out"] True
          unfolding data loop by (simp add: cond)
      next
        case short: False
        define rb1 where "rb1 = rb\<lparr>rb_chunked := ctx\<lparr>ck_size := sz - length pos\<rparr>, rb_length := rb_length rb + length pos\<rparr>"
        have loop: "body_loop (\<lambda>_. True) max_size src rb out = body_loop (\<lambda>_. True) max_size [] rb1 (out @ [pos])"
          using short ok unfolding body_loop.simps [of _ _ src] parse prod.case Let_def sz_def [symmetric]
          by (simp add: rb1_def cond)
        have ok1: "body_ok rb1"
          using sz(2) by (auto simp: body_ok_def rb1_def sz norm_state_def chunk_ok_def)
        have "body_view (body_loop (\<lambda>_. True) max_size [] rb1 (out @ [pos])) =
            body_bytes max_size (norm_state (ck_state (rb_chunked rb1)) (ck_size (rb_chunked rb1)), ck_size (rb_chunked rb1), rb_length rb1) [] (concat (out @ [pos])) \<and>
          (case body_loop (\<lambda>_. True) max_size [] rb1 (out @ [pos]) of (res, rb', pos, out') \<Rightarrow>
             res = Body_ok \<longrightarrow> rb_rest rb' \<noteq> 0 \<longrightarrow>
             chunk_ok (ck_state (rb_chunked rb')) (ck_size (rb_chunked rb')) \<and> pos = [] \<and>
             rb_rest rb' = int (chunk_length (ck_state (rb_chunked rb')) (ck_size (rb_chunked rb'))))"
          using 1(2) [OF parse [symmetric] refl refl refl ok] short cond ok1
          by (simp add: sz_def rb1_def)
        moreover have "(norm_state (ck_state (rb_chunked rb1)) (ck_size (rb_chunked rb1)), ck_size (rb_chunked rb1), rb_length rb1) =
            (norm_state sw_chunk_data (sz - length pos), sz - length pos, rb_length rb + length pos)"
          by (simp add: rb1_def sz)
        ultimately show ?thesis
          using body_bytes_data [OF sz(1,4), of max_size "rb_length rb" "concat out"] short
          unfolding data loop by (simp add: cond)
      qed
    qed
  qed
qed

section \<open>Successive reads\<close>

definition start_state :: "body \<Rightarrow> body_state" where
  "start_state rb =
     (if rb_rest rb = -1 then (sw_chunk_start, 0, 0)
      else (norm_state (ck_state (rb_chunked rb)) (ck_size (rb_chunked rb)), ck_size (rb_chunked rb), rb_length rb))"

lemma one_read:
  assumes "rb_rest rb = -1 \<or> body_ok rb"
  shows "case ngx_http_request_body_chunked_filter True (\<lambda>_. True) max_size [buf] rb of (res, rb', rest, out) \<Rightarrow>
    body_view (res, rb', concat rest, out) = body_bytes max_size (start_state rb) buf [] \<and>
    (res = Body_ok \<longrightarrow> rb_rest rb' \<noteq> 0 \<longrightarrow> rb_rest rb' \<noteq> -1 \<and> body_ok rb' \<and> concat rest = [] \<and>
       start_state rb' = (ck_state (rb_chunked rb'), ck_size (rb_chunked rb'), rb_length rb') \<and>
       rb_rest rb' = int (chunk_length (ck_state (rb_chunked rb')) (ck_size (rb_chunked rb'))))"
proof -
  define rb1 where "rb1 = (if rb_rest rb = -1 then rb\<lparr>rb_chunked := chunked_init, rb_length := 0, rb_rest := 3\<rparr> else rb)"
  have ok1: "body_ok rb1"
    using assms by (auto simp: rb1_def body_ok_def chunked_init_def norm_state_def chunk_ok_def)
  have start: "start_state rb = (norm_state (ck_state (rb_chunked rb1)) (ck_size (rb_chunked rb1)), ck_size (rb_chunked rb1), rb_length rb1)"
    by (simp add: start_state_def rb1_def chunked_init_def norm_state_def)
  obtain res rb' pos out where loop: "body_loop (\<lambda>_. True) max_size buf rb1 [] = (res, rb', pos, out)"
    by (cases "body_loop (\<lambda>_. True) max_size buf rb1 []")
  have norm: "norm_state st sz = st" if "chunk_ok st sz" for st sz
    using that by (auto simp: norm_state_def chunk_ok_def)
  have "ngx_http_request_body_chunked_filter True (\<lambda>_. True) max_size [buf] rb = (res, rb', [pos], out)"
    using loop by (simp add: ngx_http_request_body_chunked_filter_def rb1_def)
  then show ?thesis
    using body_loop_bytes [OF ok1, of max_size buf "[]", unfolded loop prod.case] norm
    by (simp add: start del: body_view.simps) (auto simp: start_state_def body_ok_def)
qed

lemma body_byte_error: "body_byte max_size s ch = Inl e \<Longrightarrow> e \<noteq> Body_ok"
  by (cases s) (auto split: chunk_move.splits if_splits)

lemma body_bytes_error: "body_bytes max_size s src out = Inl e \<Longrightarrow> e \<noteq> Body_ok"
  by (induction src arbitrary: s out) (auto dest: body_byte_error split: sum.splits option.splits)

lemma reads_bytes:
  assumes "rb_rest rb = -1 \<or> body_ok rb"
  shows "case body_reads max_size bufs rb of (res, rb', rest, out) \<Rightarrow>
    (case body_bytes max_size (start_state rb) (concat bufs) [] of
       Inl e \<Rightarrow> res = e \<and> e \<noteq> Body_ok
     | Inr (None, pos, out') \<Rightarrow> res = Body_ok \<and> rb_rest rb' = 0 \<and> concat rest = pos \<and> out = out'
     | Inr (Some s, pos, out') \<Rightarrow> res = Body_ok \<and> concat rest = [] \<and> out = out' \<and> s = start_state rb' \<and>
         (bufs \<noteq> [] \<longrightarrow> rb_rest rb' \<noteq> 0 \<and> body_ok rb' \<and> rb_rest rb' = int (chunk_length (fst s) (fst (snd s)))) \<and>
         (bufs = [] \<longrightarrow> rb' = rb))"
  using assms
proof (induction bufs arbitrary: rb)
  case Nil
  then show ?case by simp
next
  case (Cons buf bufs)
  obtain res rb1 rest out where read: "ngx_http_request_body_chunked_filter True (\<lambda>_. True) max_size [buf] rb = (res, rb1, rest, out)"
    by (cases "ngx_http_request_body_chunked_filter True (\<lambda>_. True) max_size [buf] rb")
  note one = one_read [OF Cons.prems, of max_size buf, unfolded read prod.case]
  show ?case
  proof (cases "res \<noteq> Body_ok \<or> rb_rest rb1 = 0")
    case True
    then have "body_reads max_size (buf # bufs) rb = (res, rb1, rest @ bufs, concat out)"
      by (simp add: read)
    moreover have "body_bytes max_size (start_state rb) (concat (buf # bufs)) [] =
        (if res \<noteq> Body_ok then Inl res else Inr (None, concat (rest @ bufs), concat out))"
      using one [THEN conjunct1, symmetric] True by (simp add: body_bytes_append)
    ultimately show ?thesis
      using True by simp
  next
    case False
    then have rb1: "rb_rest rb1 \<noteq> -1" "body_ok rb1" "concat rest = []"
        "start_state rb1 = (ck_state (rb_chunked rb1), ck_size (rb_chunked rb1), rb_length rb1)"
        "rb_rest rb1 = int (chunk_length (ck_state (rb_chunked rb1)) (ck_size (rb_chunked rb1)))"
      and view: "body_view (res, rb1, concat rest, out) = body_bytes max_size (start_state rb) buf []"
      using one by blast+
    obtain res2 rb2 rest2 out2 where reads: "body_reads max_size bufs rb1 = (res2, rb2, rest2, out2)"
      by (cases "body_reads max_size bufs rb1")
    have all: "body_reads max_size (buf # bufs) rb = (res2, rb2, rest2, concat out @ out2)"
      using False reads by (simp add: read)
    have "body_bytes max_size (start_state rb) buf [] = Inr (Some (start_state rb1), [], concat out)"
      using view False rb1(3,4) by simp
    then have "body_bytes max_size (start_state rb) (concat (buf # bufs)) [] =
        body_bytes max_size (start_state rb1) (concat bufs) (concat out @ [])"
      by (simp add: body_bytes_append)
    also have "\<dots> = (case body_bytes max_size (start_state rb1) (concat bufs) [] of
        Inl e \<Rightarrow> Inl e | Inr (s, rest, d) \<Rightarrow> Inr (s, rest, concat out @ d))"
      by (rule body_bytes_out)
    finally have bytes: "body_bytes max_size (start_state rb) (concat (buf # bufs)) [] = \<dots>" .
    have IH: "case body_bytes max_size (start_state rb1) (concat bufs) [] of
       Inl e \<Rightarrow> res2 = e \<and> e \<noteq> Body_ok
     | Inr (None, pos, out') \<Rightarrow> res2 = Body_ok \<and> rb_rest rb2 = 0 \<and> concat rest2 = pos \<and> out2 = out'
     | Inr (Some s, pos, out') \<Rightarrow> res2 = Body_ok \<and> concat rest2 = [] \<and> out2 = out' \<and> s = start_state rb2 \<and>
         (bufs \<noteq> [] \<longrightarrow> rb_rest rb2 \<noteq> 0 \<and> body_ok rb2 \<and> rb_rest rb2 = int (chunk_length (fst s) (fst (snd s)))) \<and>
         (bufs = [] \<longrightarrow> rb2 = rb1)"
      using Cons.IH [of rb1] rb1(2) by (simp add: reads)
    show ?thesis
      unfolding all bytes using IH rb1 False by (auto split: sum.splits option.splits)
  qed
qed

section \<open>Bounds\<close>

lemma chunk_length_step:
  assumes "chunk_step st sz ch = Chunk_next st' sz'" "chunk_ok st sz"
  shows "chunk_length st sz \<le> 1 + chunk_length st' sz'"
  using assms by (cases st) (auto simp: chunk_size_step_def chunk_ok_def split: if_splits option.splits)

lemma chunk_length_done: "chunk_step st sz ch = Chunk_goto_done \<Longrightarrow> chunk_length st sz = 1"
  by (cases st) (auto simp: chunk_size_step_def split: if_splits option.splits)

lemma bytes_min:
  assumes "body_bytes max_size (st, sz, n) src out = Inr (None, rest, out')" "chunk_ok st sz"
  shows "chunk_length st sz + length rest \<le> length src"
  using assms
proof (induction src arbitrary: st sz n out)
  case (Cons ch src)
  show ?case
  proof (cases "chunk_step st sz ch")
    case (Chunk_next st1 sz1)
    then have le: "\<not> sz1 > NGX_MAX_OFF_T_VALUE - 5"
      using Cons.prems(1) by (auto split: if_splits)
    then have "chunk_ok st1 sz1"
      using chunk_step_ok [OF Chunk_next Cons.prems(2)] by auto
    moreover have "body_bytes max_size (st1, sz1, n) src out = Inr (None, rest, out')"
      using Cons.prems(1) Chunk_next le by simp
    ultimately show ?thesis
      using Cons.IH chunk_length_step [OF Chunk_next Cons.prems(2)] by fastforce
  next
    case Chunk_goto_data
    then have st: "st = sw_chunk_data" by (simp add: chunk_step_data)
    with Cons.prems have sz: "0 < sz" "sz \<le> NGX_MAX_OFF_T_VALUE div 16" by (simp_all add: chunk_ok_def)
    have "chunk_ok (norm_state sw_chunk_data (sz - 1)) (sz - 1)"
      using sz by (auto simp: chunk_ok_def norm_state_def NGX_MAX_OFF_T_VALUE_def)
    moreover have "body_bytes max_size (norm_state sw_chunk_data (sz - 1), sz - 1, n + 1) src (out @ [ch]) = Inr (None, rest, out')"
      using Cons.prems(1) st by (auto split: if_splits)
    ultimately have "chunk_length (norm_state sw_chunk_data (sz - 1)) (sz - 1) + length rest \<le> length src"
      by (rule Cons.IH [rotated])
    then show ?thesis using sz by (auto simp: st norm_state_def split: if_splits)
  next
    case Chunk_goto_done
    then show ?thesis using Cons.prems chunk_length_done [OF Chunk_goto_done] by simp
  qed (use Cons.prems in simp)
qed simp

lemma body_loop_limit:
  "body_loop ok max_size src rb out = (res, rb', pos, out') \<Longrightarrow>
   rb_length rb' + length (concat out) = rb_length rb + length (concat out') \<and>
   (max_size \<noteq> 0 \<longrightarrow> rb_length rb \<le> max_size \<longrightarrow> rb_length rb' \<le> max_size)"
proof (induction ok max_size src rb out rule: body_loop.induct)
  case (1 ok max_size src rb out)
  obtain rc ctx p where parse: "ngx_http_parse_chunked (rb_chunked rb) src = (rc, ctx, p)"
    by (cases "ngx_http_parse_chunked (rb_chunked rb) src")
  show ?case
  proof (cases "rc = NGX_OK \<and> ok (length out) \<and> \<not> (max_size \<noteq> 0 \<and> int max_size - int (rb_length rb) < int (ck_size ctx))")
    case True
    then show ?thesis
      using "1.prems" "1.IH"(1) [OF parse [symmetric] refl refl refl] "1.IH"(2) [OF parse [symmetric] refl refl refl]
      by (subst (asm) body_loop.simps) (auto simp: parse Let_def split: if_splits)
  next
    case False
    then show ?thesis
      using "1.prems" by (subst (asm) body_loop.simps) (auto simp: parse Let_def split: if_splits)
  qed
qed

section \<open>What the response filter writes is a body\<close>

lemma nat_uint_diff: "nat (uint w - numeral k) = unat w - numeral k"
proof -
  have "nat (int n - numeral k) = n - numeral k" for n
    by (metis nat_minus_as_int of_nat_numeral)
  from this [of "unat w"] show ?thesis by simp
qed

lemma chunk_digit_hex: "chunk_digit ch = map_option nat (hex_digit ch)"
proof (cases "ch \<ge> 0x30 \<and> ch \<le> 0x39")
  case True
  then show ?thesis
    by (simp add: chunk_digit_def hex_digit_def unat_sub nat_uint_diff)
next
  case False
  have "unat (c - 0x61) + 10 = nat (uint c - 87)" if "c \<ge> 0x61" for c :: u8
    using that by (simp add: unat_sub nat_uint_diff word_le_nat_alt)
  then show ?thesis
    using False by (auto simp: chunk_digit_def hex_digit_def Let_def)
qed

lemma size_digits:
  assumes "hex_val (int v) ds = Some (int w)" "w \<le> NGX_MAX_OFF_T_VALUE div 16"
  shows "body_bytes max_size (sw_chunk_size, v, n) (ds @ rest) out = body_bytes max_size (sw_chunk_size, w, n) rest out"
  using assms(1)
proof (induction ds arbitrary: v)
  case (Cons ch ds)
  then obtain d where d: "hex_digit ch = Some d" "hex_val (int v * 16 + d) ds = Some (int w)"
    by (auto split: option.splits)
  have range: "0 \<le> d" using hex_digit_range [OF d(1)] by simp
  then have eq: "int v * 16 + d = int (v * 16 + nat d)" by simp
  have "int v * 16 + d \<le> int w"
    using hex_val_mono [OF d(2)] range by simp
  then have "v * 16 + nat d \<le> NGX_MAX_OFF_T_VALUE div 16"
    using assms(2) range by linarith
  then have "v \<le> NGX_MAX_OFF_T_VALUE div 16" "\<not> v * 16 + nat d > NGX_MAX_OFF_T_VALUE - 5"
    by (simp_all add: NGX_MAX_OFF_T_VALUE_def)
  then show ?case
    using Cons.IH [OF d(2) [unfolded eq]] d(1) by (simp add: chunk_size_step_def chunk_digit_hex)
qed simp

lemma chunk_size_bytes:
  assumes "0 < sz" "sz \<le> NGX_MAX_OFF_T_VALUE div 16"
  shows "body_bytes max_size (sw_chunk_start, 0, n) (chunk_size_text sz @ rest) out =
    body_bytes max_size (sw_chunk_data, sz, n) rest out"
proof -
  have small: "sz < 2 ^ 64"
    using assms(2) by (simp add: NGX_MAX_OFF_T_VALUE_def)
  define ds where "ds = num_digits (word_of_nat sz) 1"
  have written: "chunk_size_text sz = ds @ [0x0d, 0x0a]"
    using num_digits_length [of "word_of_nat sz" 1] by (simp add: chunk_size_text_def sprintf_num_eq ds_def)
  have "hex_val 0 ds = Some (int sz)" "ds \<noteq> []"
    using hex_loop_correct [of hex_digits sz "[]"] small
    by (auto simp: ds_def num_digits_def unsigned_of_nat take_bit_nat_eq_self)
  then obtain ch ds' d where ds: "ds = ch # ds'" "hex_digit ch = Some d" "hex_val d ds' = Some (int sz)"
    by (cases ds) (auto split: option.splits)
  have d: "0 \<le> d" "\<not> NGX_MAX_OFF_T_VALUE - 5 < nat d"
    using hex_digit_range [OF ds(2)] by (simp_all add: NGX_MAX_OFF_T_VALUE_def not_less nat_le_iff)
  have "body_bytes max_size (sw_chunk_start, 0, n) (chunk_size_text sz @ rest) out =
      body_bytes max_size (sw_chunk_size, nat d, n) (ds' @ [0x0d, 0x0a] @ rest) out"
    using d(2) by (simp add: written ds chunk_digit_hex)
  also have "\<dots> = body_bytes max_size (sw_chunk_size, sz, n) ([0x0d, 0x0a] @ rest) out"
    using ds(3) d(1) assms(2) by (intro size_digits) simp_all
  also have "\<dots> = body_bytes max_size (sw_chunk_data, sz, n) rest out"
    using assms by (simp add: chunk_size_step_def chunk_digit_def Let_def NGX_MAX_OFF_T_VALUE_def)
  finally show ?thesis .
qed

lemma chunk_bytes:
  assumes "0 < length d" "length d \<le> NGX_MAX_OFF_T_VALUE div 16" "max_size = 0 \<or> n + length d \<le> max_size"
  shows "body_bytes max_size (sw_chunk_start, 0, n) (chunk_size_text (length d) @ d @ rest) out =
    body_bytes max_size (sw_after_data, 0, n + length d) rest (out @ d)"
proof -
  have "body_bytes max_size (sw_chunk_start, 0, n) (chunk_size_text (length d) @ d @ rest) out =
      body_bytes max_size (sw_chunk_data, length d, n) (d @ rest) out"
    by (rule chunk_size_bytes [OF assms(1,2)])
  also have "\<dots> = body_bytes max_size (sw_after_data, 0, n + length d) rest (out @ d)"
    using body_bytes_data [OF assms(1), of "d @ rest" max_size n out] assms
    by (cases rest) (auto simp: norm_state_def)
  finally show ?thesis .
qed

lemma trailer_line:
  assumes "0x0d \<notin> set (h # t)" "0x0a \<notin> set (h # t)"
  shows "body_bytes max_size (sw_trailer, 0, n) ((h # t) @ 0x0d # 0x0a # rest) out = body_bytes max_size (sw_trailer, 0, n) rest out"
proof -
  have "body_bytes max_size (sw_trailer_header, 0, n) (t @ 0x0d # 0x0a # rest) out = body_bytes max_size (sw_trailer, 0, n) rest out"
    using assms by (induction t) auto
  then show ?thesis using assms by simp
qed

lemma crlf: "body_bytes max_size (sw_after_data, 0, n) (0x0d # 0x0a # rest) out = body_bytes max_size (sw_chunk_start, 0, n) rest out"
  by simp

definition trailers_ok :: "(u64 \<times> bytes \<times> bytes) list \<Rightarrow> bool" where
  "trailers_ok trailers \<longleftrightarrow> list_all (\<lambda>(hash, key, val). \<not> (0x0d \<in> set (key @ val) \<or> 0x0a \<in> set (key @ val))) trailers"

lemma trailers_bytes:
  assumes "trailers_ok trailers"
  shows "body_bytes max_size (sw_after_data, 0, n) (ngx_http_chunked_create_trailers trailers @ rest) out = Inr (None, rest, out)"
    "body_bytes max_size (sw_chunk_start, 0, n) (drop 2 (ngx_http_chunked_create_trailers trailers) @ rest) out = Inr (None, rest, out)"
proof -
  define lines where
    "lines = concat (map (\<lambda>(hash, key, val). if hash = 0 then [] else key @ [0x3a, 0x20] @ val @ [0x0d, 0x0a]) trailers)"
  have lines: "body_bytes max_size (sw_trailer, 0, n) (lines @ 0x0d # 0x0a # rest) out = Inr (None, rest, out)"
    using assms unfolding lines_def trailers_ok_def
  proof (induction trailers)
    case (Cons t trailers)
    obtain hash key val where t: "t = (hash, key, val)" by (cases t)
    show ?case
    proof (cases "hash = 0")
      case False
      obtain h u where hu: "key @ [0x3a, 0x20] @ val = h # u" by (cases key) auto
      have "0x0d \<notin> set (key @ [0x3a, 0x20] @ val)" "0x0a \<notin> set (key @ [0x3a, 0x20] @ val)"
        using Cons.prems t by auto
      then have "0x0d \<notin> set (h # u)" "0x0a \<notin> set (h # u)"
        unfolding hu .
      from trailer_line [OF this, folded hu] show ?thesis
        using Cons t False by simp
    qed (use Cons t in simp)
  qed simp
  then have *: "body_bytes max_size (sw_chunk_start, 0, n) (0x30 # 0x0d # 0x0a # lines @ 0x0d # 0x0a # rest) out = Inr (None, rest, out)"
    by (simp add: chunk_size_step_def chunk_digit_def Let_def NGX_MAX_OFF_T_VALUE_def)
  have written: "ngx_http_chunked_create_trailers trailers = 0x0d # 0x0a # 0x30 # 0x0d # 0x0a # lines @ [0x0d, 0x0a]"
    by (simp add: ngx_http_chunked_create_trailers_def lines_def)
  have short: "drop 2 (ngx_http_chunked_create_trailers trailers) = 0x30 # 0x0d # 0x0a # lines @ [0x0d, 0x0a]"
    by (simp add: written)
  show "body_bytes max_size (sw_after_data, 0, n) (ngx_http_chunked_create_trailers trailers @ rest) out = Inr (None, rest, out)"
    "body_bytes max_size (sw_chunk_start, 0, n) (drop 2 (ngx_http_chunked_create_trailers trailers) @ rest) out = Inr (None, rest, out)"
    using * short by (simp_all only: written crlf append_Cons append_assoc append_Nil)
qed

lemma filter_bytes:
  assumes "sum_list (map length cls) \<le> NGX_MAX_OFF_T_VALUE div 16"
    "max_size = 0 \<or> n + sum_list (map length cls) \<le> max_size" "trailers_ok trailers"
  shows "body_bytes max_size (sw_chunk_start, 0, n) (ngx_http_chunked_body_filter trailers last_buf cls @ rest) out =
    (if last_buf then Inr (None, rest, out @ concat cls)
     else body_bytes max_size (sw_chunk_start, 0, n + sum_list (map length cls)) rest (out @ concat cls))"
proof -
  have len: "sum_list (map length cls) = length (concat cls)"
    by (simp add: length_concat)
  show ?thesis
  proof (cases "concat cls = []")
    case True
    then have "length (concat cls) = 0" by simp
    then show ?thesis
      using trailers_bytes(2) [OF assms(3)] by (simp add: ngx_http_chunked_body_filter_def len True)
  next
    case False
    then have pos: "0 < length (concat cls)" by simp
    have le: "length (concat cls) \<le> NGX_MAX_OFF_T_VALUE div 16" "max_size = 0 \<or> n + length (concat cls) \<le> max_size"
      using assms(1,2) by (simp_all add: len)
    have "ngx_http_chunked_body_filter trailers last_buf cls @ rest =
        chunk_size_text (length (concat cls)) @ concat cls @
        (if last_buf then ngx_http_chunked_create_trailers trailers else [0x0d, 0x0a]) @ rest"
      using pos by (auto simp: ngx_http_chunked_body_filter_def len)
    then show ?thesis
      using chunk_bytes [OF pos le] trailers_bytes(1) [OF assms(3)]
      by (simp add: len del: length_concat body_byte.simps) (simp add: norm_state_def NGX_MAX_OFF_T_VALUE_def)
  qed
qed

text \<open>The bytes of a whole response body: one chain of buffers after the other, the last one flagged.\<close>

definition body_text :: "(u64 \<times> bytes \<times> bytes) list \<Rightarrow> bytes list list \<Rightarrow> bytes list \<Rightarrow> bytes" where
  "body_text trailers ins final =
     concat (map (ngx_http_chunked_body_filter trailers False) ins) @ ngx_http_chunked_body_filter trailers True final"

lemma text_bytes:
  assumes "list_all (\<lambda>cls. sum_list (map length cls) \<le> NGX_MAX_OFF_T_VALUE div 16) (ins @ [final])" "trailers_ok trailers"
    "max_size = 0 \<or> n + length (concat (concat (ins @ [final]))) \<le> max_size"
  shows "body_bytes max_size (sw_chunk_start, 0, n) (body_text trailers ins final @ rest) out =
    Inr (None, rest, out @ concat (concat (ins @ [final])))"
  using assms
proof (induction ins arbitrary: n out)
  case Nil
  then show ?case
    using filter_bytes [of final max_size n trailers True rest out] by (simp add: body_text_def length_concat)
next
  case (Cons cls ins)
  define m where "m = n + sum_list (map length cls)"
  have "body_bytes max_size (sw_chunk_start, 0, n) (body_text trailers (cls # ins) final @ rest) out =
      body_bytes max_size (sw_chunk_start, 0, m) (body_text trailers ins final @ rest) (out @ concat cls)"
    using filter_bytes [of cls max_size n trailers False "body_text trailers ins final @ rest" out] Cons.prems
    by (auto simp: body_text_def length_concat m_def)
  also have "\<dots> = Inr (None, rest, (out @ concat cls) @ concat (concat (ins @ [final])))"
    using Cons.prems by (intro Cons.IH) (auto simp: m_def length_concat)
  finally show ?case by simp
qed

section \<open>Properties\<close>

lemma reads_from_init:
  assumes "body_reads max_size bufs body_init = (res, rb, rest, out)"
  shows "case body_bytes max_size (sw_chunk_start, 0, 0) (concat bufs) [] of
       Inl e \<Rightarrow> res = e \<and> e \<noteq> Body_ok
     | Inr (None, pos, out') \<Rightarrow> res = Body_ok \<and> rb_rest rb = 0 \<and> concat rest = pos \<and> out = out'
     | Inr (Some s, pos, out') \<Rightarrow> res = Body_ok \<and> concat rest = [] \<and> out = out' \<and> s = start_state rb \<and>
         (bufs \<noteq> [] \<longrightarrow> rb_rest rb \<noteq> 0 \<and> body_ok rb \<and> rb_rest rb = int (chunk_length (fst s) (fst (snd s)))) \<and>
         (bufs = [] \<longrightarrow> rb = body_init)"
  using reads_bytes [where rb = body_init and max_size = max_size and bufs = bufs] assms by (simp add: body_init_def start_state_def)



text \<open>The number of bytes that the filter asks for after a read (\<open>rb->rest\<close>) is never more than what the
  rest of the body takes, so a read of that size never goes beyond the end of the body.\<close>

theorem chunked_rest_bound:
  assumes "body_reads max_size bufs body_init = (Body_ok, rb, left, out)" "rb_rest rb \<noteq> 0" "bufs \<noteq> []"
    and "body_reads max_size bufs2 rb = (Body_ok, rb', left', out')" "rb_rest rb' = 0"
  shows "rb_rest rb + int (length (concat left')) \<le> int (length (concat bufs2))"
proof -
  obtain st sz n where s: "start_state rb = (st, sz, n)" "body_ok rb" "rb_rest rb = int (chunk_length st sz)"
    using reads_from_init [OF assms(1)] assms(2,3)
    by (auto split: sum.splits option.splits)
  then have rest: "rb_rest rb \<noteq> -1" using chunk_length_pos [of st sz] by simp
  then have ok: "chunk_ok st sz"
    using s(1,2) by (auto simp: start_state_def body_ok_def)
  have ne: "bufs2 \<noteq> []"
    using assms(2,4,5) by (cases bufs2) auto
  obtain a p d where bytes: "body_bytes max_size (st, sz, n) (concat bufs2) [] = Inr (a, p, d)"
    using reads_bytes [where rb = rb and max_size = max_size and bufs = bufs2] assms(4) s
    by (cases "body_bytes max_size (st, sz, n) (concat bufs2) []") auto
  have "a = None" "p = concat left'"
    using reads_bytes [where rb = rb and max_size = max_size and bufs = bufs2] assms(4,5) s ne bytes
    by (cases a; auto)+
  with bytes have "body_bytes max_size (st, sz, n) (concat bufs2) [] = Inr (None, concat left', d)"
    by simp
  from bytes_min [OF this ok] show ?thesis using s(3) by simp
qed

theorem chunked_rest_bound_witness:
  "\<exists>rb rb' left left' out out'. body_reads 0 [str ''5;x''] body_init = (Body_ok, rb, left, out) \<and> rb_rest rb = 10 \<and>
     body_reads 0 [0x0a # str ''hello'' @ [0x0a, 0x30, 0x0a, 0x0a]] rb = (Body_ok, rb', left', out') \<and> rb_rest rb' = 0 \<and>
     rb_rest rb + int (length (concat left')) \<le> int (length (concat [0x0a # str ''hello'' @ [0x0a, 0x30, 0x0a, 0x0a]]))"
proof -
  define rb where "rb = \<lparr>rb_rest = 10, rb_chunked = \<lparr>ck_state = sw_chunk_extension, ck_size = 5, ck_length = 10\<rparr>, rb_length = 0\<rparr>"
  define rb' where "rb' = \<lparr>rb_rest = 0, rb_chunked = \<lparr>ck_state = sw_chunk_start, ck_size = 0, ck_length = 9\<rparr>, rb_length = 5\<rparr>"
  note eval = ngx_http_request_body_chunked_filter_def body_loop.simps ngx_http_parse_chunked_def chunk_size_step_def
    chunk_digit_def Let_def NGX_MAX_OFF_T_VALUE_def str_def
  have 1: "body_reads 0 [str ''5;x''] body_init = (Body_ok, rb, [], [])"
    by (simp add: rb_def body_init_def chunked_init_def eval)
  have 2: "body_reads 0 [0x0a # str ''hello'' @ [0x0a, 0x30, 0x0a, 0x0a]] rb = (Body_ok, rb', [[]], str ''hello'')"
    by (simp add: rb_def rb'_def eval)
  show ?thesis
    using 1 2 chunked_rest_bound [OF 1 _ _ 2] by (auto simp: rb_def rb'_def)
qed



end
