(* ===== verification/HttpUri.thy ===== *)
theory HttpUri
  imports Numbers
begin

text \<open>
  Normalisation of request paths: \<open>ngx_http_parse_complex_uri\<close> of \<^verbatim>\<open>src/http/ngx_http_parse.c\<close>, the
  one-pass automaton that decodes quoted characters, merges slashes and resolves \<open>.\<close> and \<open>..\<close>
  segments in place.  The theorems compare it with the obvious two-pass definition, decoding
  followed by the resolution of a list of segments.
\<close>

section \<open>Characters\<close>

definition usual :: "u32 list" where
  "usual = [0xffffdbfe, 0x7fff37d6, 0xffffffff, 0xffffffff, 0xffffffff, 0xffffffff, 0xffffffff, 0xffffffff]"

definition is_usual :: "u8 \<Rightarrow> bool" where
  "is_usual ch \<longleftrightarrow> usual ! unat (drop_bit 5 ch) AND push_bit (unat (ch AND 0x1f)) 1 \<noteq> 0"

text \<open>The unusual ones: NUL, LF, CR, space and \<open>#%+./?\<close>.\<close>

lemma is_usual_iff: "is_usual ch \<longleftrightarrow> ch \<notin> {0, 0x0a, 0x0d, 0x20, 0x23, 0x25, 0x2b, 0x2e, 0x2f, 0x3f}"
  by (rule u8_check [of "\<lambda>ch. is_usual ch \<longleftrightarrow> ch \<notin> {0, 0x0a, 0x0d, 0x20, 0x23, 0x25, 0x2b, 0x2e, 0x2f, 0x3f}"])
    (simp add: upt_eval is_usual_def usual_def)

section \<open>The automaton\<close>

text \<open>
  The states.  \<open>quoted_state\<close> only ever holds one of the first four, which the type says.
\<close>

datatype cu_path = cu_usual | cu_slash | cu_dot | cu_dot_dot

datatype cu_state = cu_path cu_path | cu_quoted | cu_quoted_second

text \<open>
  The locals and the fields of the request that the function changes: \<open>cu_out\<close> is what lies between
  \<open>r->uri.data\<close> and \<open>u\<close>; \<open>cu_uri_ext\<close>, for \<open>uri_ext\<close>, is an index into it.
\<close>

record cu =
  cu_st :: cu_state
  cu_quoted_state :: cu_path
  cu_decoded :: u8
  cu_out :: bytes
  cu_uri_ext :: "nat option"
  cu_plus :: bool
  cu_has_quoted :: bool

text \<open>
  What one iteration of the loop does: go on with the next character or with the decoded one,
  leave for the arguments, stop, or refuse the request.
\<close>

datatype cu_move = Advance cu | Again cu u8 | Goto_args cu | Goto_done cu | Invalid_request

text \<open>Going back over \<open>/..\<close>: \<open>u -= 5\<close>, then down to the previous slash.\<close>

fun cu_back :: "bytes \<Rightarrow> nat \<Rightarrow> bytes option" where
  "cu_back out 0 = (if out ! 0 = 0x2f then Some (take 1 out) else None)"
| "cu_back out (Suc i) = (if out ! Suc i = 0x2f then Some (take (Suc i + 1) out) else cu_back out i)"

definition cu_up :: "bytes \<Rightarrow> bytes option" where
  "cu_up out = (if length out < 5 then None else cu_back out (length out - 5))"

definition cu_put :: "u8 \<Rightarrow> cu \<Rightarrow> cu" where
  "cu_put ch r = r\<lparr>cu_out := cu_out r @ [ch]\<rparr>"

text \<open>The four states that write: what they do with a character.\<close>

definition cu_path_step :: "bool \<Rightarrow> cu_path \<Rightarrow> u8 \<Rightarrow> cu \<Rightarrow> cu_move" where
  "cu_path_step merge_slashes st ch r =
     (if is_usual ch then Advance (cu_put ch (r\<lparr>cu_st := cu_path cu_usual\<rparr>))
      else if ch = 0x2f then
        (case st of
           cu_usual \<Rightarrow> Advance (cu_put ch (r\<lparr>cu_uri_ext := None, cu_st := cu_path cu_slash\<rparr>))
         | cu_slash \<Rightarrow> Advance (if merge_slashes then r else cu_put ch r)
         | cu_dot \<Rightarrow> Advance (r\<lparr>cu_st := cu_path cu_slash, cu_out := butlast (cu_out r)\<rparr>)
         | cu_dot_dot \<Rightarrow>
             (case cu_up (cu_out r) of
                None \<Rightarrow> Invalid_request
              | Some out \<Rightarrow> Advance (r\<lparr>cu_st := cu_path cu_slash, cu_out := out\<rparr>)))
      else if ch = 0x25 then Advance (r\<lparr>cu_quoted_state := st, cu_st := cu_quoted\<rparr>)
      else if ch = 0x3f then Goto_args r
      else if ch = 0x23 then Goto_done r
      else if ch = 0x2e \<and> st \<noteq> cu_dot_dot then
        (case st of
           cu_usual \<Rightarrow> Advance (cu_put ch (r\<lparr>cu_uri_ext := Some (length (cu_out r) + 1)\<rparr>))
         | cu_slash \<Rightarrow> Advance (cu_put ch (r\<lparr>cu_st := cu_path cu_dot\<rparr>))
         | _ \<Rightarrow> Advance (cu_put ch (r\<lparr>cu_st := cu_path cu_dot_dot\<rparr>)))
      else Advance (cu_put ch (r\<lparr>cu_st := cu_path cu_usual, cu_plus := cu_plus r \<or> ch = 0x2b\<rparr>)))"

definition cu_quoted_step :: "u8 \<Rightarrow> cu \<Rightarrow> cu_move" where
  "cu_quoted_step ch r =
     (let r = r\<lparr>cu_has_quoted := True\<rparr>;
          c = ch OR 0x20
      in if ch \<ge> 0x30 \<and> ch \<le> 0x39 then Advance (r\<lparr>cu_decoded := ch - 0x30, cu_st := cu_quoted_second\<rparr>)
         else if c \<ge> 0x61 \<and> c \<le> 0x66 then Advance (r\<lparr>cu_decoded := c - 0x61 + 10, cu_st := cu_quoted_second\<rparr>)
         else Invalid_request)"

definition cu_quoted_second_step :: "u8 \<Rightarrow> cu \<Rightarrow> cu_move" where
  "cu_quoted_second_step ch r =
     (let c = ch OR 0x20
      in if ch \<ge> 0x30 \<and> ch \<le> 0x39
         then (let ch = push_bit 4 (cu_decoded r) + (ch - 0x30)
               in if ch = 0x25 \<or> ch = 0x23 then Advance (cu_put ch (r\<lparr>cu_st := cu_path cu_usual\<rparr>))
                  else if ch = 0 then Invalid_request
                  else Again (r\<lparr>cu_st := cu_path (cu_quoted_state r)\<rparr>) ch)
         else if c \<ge> 0x61 \<and> c \<le> 0x66
         then (let ch = push_bit 4 (cu_decoded r) + (c - 0x61) + 10
               in if ch = 0x3f then Advance (cu_put ch (r\<lparr>cu_st := cu_path cu_usual\<rparr>))
                  else Again (r\<lparr>cu_st := cu_path (cu_quoted_state r), cu_plus := cu_plus r \<or> ch = 0x2b\<rparr>) ch)
         else Invalid_request)"

definition cu_step :: "bool \<Rightarrow> u8 \<Rightarrow> cu \<Rightarrow> cu_move" where
  "cu_step merge_slashes ch r =
     (case cu_st r of
        cu_path st \<Rightarrow> cu_path_step merge_slashes st ch r
      | cu_quoted \<Rightarrow> cu_quoted_step ch r
      | cu_quoted_second \<Rightarrow> cu_quoted_second_step ch r)"

text \<open>The loop over the characters between \<open>uri_start\<close> and \<open>uri_end\<close>; \<open>p\<close> is what follows \<open>ch\<close>.\<close>

datatype cu_exit = At_done cu | At_args cu bytes | At_error

lemma cu_path_step_not_again: "cu_path_step merge st ch r \<noteq> Again r' ch'"
  by (auto simp: cu_path_step_def split: cu_path.splits option.splits)

lemma cu_step_again:
  "cu_step merge ch r = Again r' ch' \<Longrightarrow> cu_st r = cu_quoted_second \<and> cu_st r' \<noteq> cu_quoted_second"
  by (auto simp: cu_step_def cu_path_step_not_again cu_quoted_step_def cu_quoted_second_step_def Let_def
      split: cu_state.splits if_splits)

function cu_loop :: "bool \<Rightarrow> cu \<Rightarrow> bytes \<Rightarrow> cu_exit" where
  "cu_loop merge_slashes r [] = At_done r"
| "cu_loop merge_slashes r (ch # p) =
     (case cu_step merge_slashes ch r of
        Advance r \<Rightarrow> cu_loop merge_slashes r p
      | Again r ch \<Rightarrow> cu_loop merge_slashes r (ch # p)
      | Goto_args r \<Rightarrow> At_args r p
      | Goto_done r \<Rightarrow> At_done r
      | Invalid_request \<Rightarrow> At_error)"
  by pat_completeness auto
termination
  by (relation "measures [\<lambda>(m, r, s). length s, \<lambda>(m, r, s). if cu_st r = cu_quoted_second then 1 else 0]")
    (auto dest: cu_step_again)

text \<open>
  The result: the normalised URI, its extension, the offset of the arguments from \<open>uri_start\<close>
  (\<open>args_start\<close>) or the arguments themselves when a \<open>#\<close> ends them, and the flags.  \<open>None\<close> for
  \<open>res_exten\<close> and \<open>res_args\<close> leaves the fields of the request unchanged.
\<close>

record uri_result =
  res_uri :: bytes
  res_exten :: "bytes option"
  res_args_start :: "nat option"
  res_args :: "bytes option"
  res_plus :: bool
  res_quoted :: bool

definition cu_finish :: "cu \<Rightarrow> nat option \<Rightarrow> bytes option \<Rightarrow> uri_result" where
  "cu_finish r start arguments =
     \<lparr>res_uri = cu_out r, res_exten = map_option (\<lambda>e. drop e (cu_out r)) (cu_uri_ext r),
      res_args_start = start, res_args = arguments, res_plus = cu_plus r, res_quoted = cu_has_quoted r\<rparr>"

definition cu_init :: cu where
  "cu_init = \<lparr>cu_st = cu_path cu_usual, cu_quoted_state = cu_usual, cu_decoded = 0, cu_out = [], cu_uri_ext = None,
     cu_plus = False, cu_has_quoted = False\<rparr>"

text \<open>\<open>None\<close> is \<open>NGX_HTTP_PARSE_INVALID_REQUEST\<close>; \<open>src\<close> is the text from \<open>uri_start\<close> to \<open>uri_end\<close>.\<close>

definition ngx_http_parse_complex_uri :: "bool \<Rightarrow> bytes \<Rightarrow> uri_result option" where
  "ngx_http_parse_complex_uri merge_slashes src =
     (case cu_loop merge_slashes cu_init src of
        At_error \<Rightarrow> None
      | At_done r \<Rightarrow> Some (cu_finish r None None)
      | At_args r p \<Rightarrow>
          Some (if 0x23 \<in> set p then cu_finish r None (Some (takeWhile (\<lambda>c. c \<noteq> 0x23) p))
                else cu_finish r (Some (length src - length p)) None))"

section \<open>Decoding, then resolving\<close>

text \<open>The value of a hexadecimal digit.\<close>

definition hex_byte :: "u8 \<Rightarrow> u8 option" where
  "hex_byte ch =
     (if ch \<ge> 0x30 \<and> ch \<le> 0x39 then Some (ch - 0x30)
      else if ch OR 0x20 \<ge> 0x61 \<and> ch OR 0x20 \<le> 0x66 then Some ((ch OR 0x20) - 0x61 + 10) else None)"

text \<open>
  Percent-decoding up to the first \<open>?\<close> or \<open>#\<close>; a decoded NUL and a malformed escape are errors,
  an escape cut off by the end of the text is dropped.
\<close>

fun unquote :: "bytes \<Rightarrow> bytes option" where
  "unquote [] = Some []"
| "unquote (c # p) =
     (if c = 0x3f \<or> c = 0x23 then Some []
      else if c \<noteq> 0x25 then map_option (Cons c) (unquote p)
      else case p of
             [] \<Rightarrow> Some []
           | h # p' \<Rightarrow>
               (case hex_byte h of
                  None \<Rightarrow> None
                | Some x \<Rightarrow>
                    (case p' of
                       [] \<Rightarrow> Some []
                     | l # p'' \<Rightarrow>
                         (case hex_byte l of
                            None \<Rightarrow> None
                          | Some y \<Rightarrow> if push_bit 4 x + y = 0 then None
                                      else map_option (Cons (push_bit 4 x + y)) (unquote p'')))))"

text \<open>The segments between slashes; there is always at least one.\<close>

fun split_slash :: "bytes \<Rightarrow> bytes list" where
  "split_slash [] = [[]]"
| "split_slash (c # p) =
     (if c = 0x2f then [] # split_slash p else (c # hd (split_slash p)) # tl (split_slash p))"

text \<open>
  Going up one segment.  Behind an empty segment, which only exists when slashes are not merged,
  the code goes up two.
\<close>

definition pop :: "bytes list \<Rightarrow> bytes list option" where
  "pop st =
     (if st = [] then None
      else if last st \<noteq> [] then Some (butlast st)
      else if butlast st = [] then None
      else Some (butlast (butlast st)))"

definition push :: "bool \<Rightarrow> bytes list \<Rightarrow> bytes \<Rightarrow> bytes list option" where
  "push merge st s =
     (if s = str ''.'' then Some st
      else if s = str ''..'' then pop st
      else if s = [] \<and> merge then Some st
      else Some (st @ [s]))"

definition join_path :: "bytes list \<Rightarrow> bytes" where
  "join_path st = concat (map (Cons 0x2f) st)"

text \<open>Every segment but the last is resolved; the last one is taken as it is.\<close>

fun resolve :: "bool \<Rightarrow> bytes list \<Rightarrow> bytes list \<Rightarrow> bytes option" where
  "resolve merge st [] = None"
| "resolve merge st [s] = Some (join_path (st @ [s]))"
| "resolve merge st (s # ss) = (case push merge st s of None \<Rightarrow> None | Some st \<Rightarrow> resolve merge st ss)"

section \<open>The automaton on decoded characters\<close>

definition path_char :: "bool \<Rightarrow> u8 \<Rightarrow> cu_path \<times> bytes \<Rightarrow> (cu_path \<times> bytes) option" where
  "path_char merge ch s =
     (case s of (st, out) \<Rightarrow>
        if ch = 0x2f then
          (case st of
             cu_usual \<Rightarrow> Some (cu_slash, out @ [ch])
           | cu_slash \<Rightarrow> Some (cu_slash, if merge then out else out @ [ch])
           | cu_dot \<Rightarrow> Some (cu_slash, butlast out)
           | cu_dot_dot \<Rightarrow> map_option (Pair cu_slash) (cu_up out))
        else if ch = 0x2e then
          Some (case st of cu_usual \<Rightarrow> cu_usual | cu_slash \<Rightarrow> cu_dot | cu_dot \<Rightarrow> cu_dot_dot | cu_dot_dot \<Rightarrow> cu_usual,
                out @ [ch])
        else Some (cu_usual, out @ [ch]))"

fun path_run :: "bool \<Rightarrow> cu_path \<times> bytes \<Rightarrow> bytes \<Rightarrow> bytes option" where
  "path_run merge s [] = Some (snd s)"
| "path_run merge s (ch # p) = (case path_char merge ch s of None \<Rightarrow> None | Some s \<Rightarrow> path_run merge s p)"

fun exit_out :: "cu_exit \<Rightarrow> bytes option" where
  "exit_out (At_done r) = Some (cu_out r)"
| "exit_out (At_args r p) = Some (cu_out r)"
| "exit_out At_error = None"

definition step_run :: "bool \<Rightarrow> cu_move \<Rightarrow> bytes \<Rightarrow> cu_exit" where
  "step_run merge s p =
     (case s of
        Advance r \<Rightarrow> cu_loop merge r p
      | Again r ch \<Rightarrow> cu_loop merge r (ch # p)
      | Goto_args r \<Rightarrow> At_args r p
      | Goto_done r \<Rightarrow> At_done r
      | Invalid_request \<Rightarrow> At_error)"

lemma step_run_simps [simp]:
  "step_run merge (Advance r) p = cu_loop merge r p"
  "step_run merge (Again r ch) p = cu_loop merge r (ch # p)"
  "step_run merge (Goto_args r) p = At_args r p"
  "step_run merge (Goto_done r) p = At_done r"
  "step_run merge Invalid_request p = At_error"
  by (simp_all add: step_run_def)

lemma cu_loop_Cons: "cu_loop merge r (ch # p) = step_run merge (cu_step merge ch r) p"
  by (simp add: step_run_def)

declare cu_loop.simps(2) [simp del]

lemma cu_put_sel [simp]: "cu_out (cu_put ch r) = cu_out r @ [ch]" "cu_st (cu_put ch r) = cu_st r"
  by (simp_all add: cu_put_def)

text \<open>A character that is not special in the source is a step of the path automaton.\<close>

lemma path_step_char:
  assumes "ch \<notin> {0x25, 0x3f, 0x23}"
  shows "case path_char merge ch (st, cu_out r) of
           None \<Rightarrow> cu_path_step merge st ch r = Invalid_request
         | Some (st', out) \<Rightarrow> \<exists>r'. cu_path_step merge st ch r = Advance r' \<and> cu_out r' = out \<and>
             (cu_st r = cu_path st \<longrightarrow> cu_st r' = cu_path st')"
  using assms
  by (cases st) (auto simp: cu_path_step_def path_char_def is_usual_iff cu_put_def split: option.splits)

lemma hex_low: "take_bit 4 (push_bit 4 x + y :: u8) = take_bit 4 y"
proof (rule word_unat_eq_iff [THEN iffD2])
  have x: "unat (push_bit 4 x) = unat x * 16 mod 256"
    unfolding push_bit_eq_mult unat_word_ariths by simp
  have "unat (push_bit 4 x + y) mod 16 = unat y mod 16"
    unfolding unat_word_ariths x by (simp add: mod_mod_cancel mod_add_left_eq)
  then show "unat (take_bit 4 (push_bit 4 x + y)) = unat (take_bit 4 y)"
    unfolding take_bit_eq_mod unat_mod by simp
qed

lemma hex_digit_low: "ch \<ge> 0x30 \<Longrightarrow> ch \<le> 0x39 \<Longrightarrow> take_bit 4 (ch - 0x30 :: u8) \<noteq> 0xf"
  using u8_check [of "\<lambda>ch. ch \<ge> 0x30 \<longrightarrow> ch \<le> 0x39 \<longrightarrow> take_bit 4 (ch - 0x30) \<noteq> 0xf" ch]
  by (simp add: upt_eval)

lemma hex_letter_low:
  "c \<ge> 0x61 \<Longrightarrow> c \<le> 0x66 \<Longrightarrow> take_bit 4 (c - 0x61 + 10 :: u8) \<notin> {0, 3, 5}"
  using u8_check [of "\<lambda>c. c \<ge> 0x61 \<longrightarrow> c \<le> 0x66 \<longrightarrow> take_bit 4 (c - 0x61 + 10) \<notin> {0, 3, 5}" c]
  by (simp add: upt_eval)

lemma quoted_step:
  "cu_quoted_step ch r =
     (case hex_byte ch of
        None \<Rightarrow> Invalid_request
      | Some x \<Rightarrow> Advance (r\<lparr>cu_has_quoted := True, cu_decoded := x, cu_st := cu_quoted_second\<rparr>))"
  by (simp add: cu_quoted_step_def hex_byte_def Let_def)

lemma quoted_second_step:
  fixes b and r :: cu
  assumes "hex_byte ch = Some y"
  defines "b \<equiv> push_bit 4 (cu_decoded r) + y"
  shows "if b \<in> {0x25, 0x3f, 0x23} then cu_quoted_second_step ch r = Advance (cu_put b (r\<lparr>cu_st := cu_path cu_usual\<rparr>))
         else if b = 0 then cu_quoted_second_step ch r = Invalid_request
         else \<exists>plus. cu_quoted_second_step ch r = Again (r\<lparr>cu_st := cu_path (cu_quoted_state r), cu_plus := plus\<rparr>) b"
proof (cases "ch \<ge> 0x30 \<and> ch \<le> 0x39")
  case True
  then have y: "y = ch - 0x30"
    using assms(1) by (simp add: hex_byte_def)
  then have "take_bit 4 b \<noteq> 0xf"
    using True hex_digit_low [of ch] by (simp only: b_def hex_low simp_thms)
  then have "b \<noteq> 0x3f" by auto
  then show ?thesis
    using True by (auto simp: cu_quoted_second_step_def b_def y Let_def intro: exI [of _ "cu_plus r"])
next
  case False
  then have c: "ch OR 0x20 \<ge> 0x61" "ch OR 0x20 \<le> 0x66" and y: "y = (ch OR 0x20) - 0x61 + 10"
    using assms(1) by (auto simp: hex_byte_def split: if_splits)
  have "take_bit 4 b \<notin> {0, 3, 5}"
    using hex_letter_low [OF c] by (simp only: b_def hex_low y simp_thms)
  then have "b \<noteq> 0x25" "b \<noteq> 0x23" "b \<noteq> 0" by auto
  then show ?thesis
    using False c by (auto simp: cu_quoted_second_step_def b_def y Let_def add.assoc)
qed

lemma path_step_special:
  "cu_path_step merge st 0x25 r = Advance (r\<lparr>cu_quoted_state := st, cu_st := cu_quoted\<rparr>)"
  "cu_path_step merge st 0x3f r = Goto_args r"
  "cu_path_step merge st 0x23 r = Goto_done r"
  by (simp_all add: cu_path_step_def is_usual_iff)

lemma path_char_special: "b \<in> {0x25, 0x3f, 0x23} \<Longrightarrow> path_char merge b (st, out) = Some (cu_usual, out @ [b])"
  by (auto simp: path_char_def)

lemma cu_loop_run:
  "cu_st r = cu_path st \<Longrightarrow>
   exit_out (cu_loop merge r src) =
     (case unquote src of None \<Rightarrow> None | Some p \<Rightarrow> path_run merge (st, cu_out r) p)"
proof (induction src arbitrary: r st rule: unquote.induct)
  case 1
  then show ?case by simp
next
  case (2 c p)
  note IH = 2(1-2) and st = 2(3)
  have step: "cu_loop merge r (c # p) = step_run merge (cu_path_step merge st c r) p"
    by (simp add: cu_loop_Cons cu_step_def st)
  consider (stop) "c = 0x3f \<or> c = 0x23" | (quote) "c = 0x25" | (plain) "c \<notin> {0x25, 0x3f, 0x23}" by blast
  then show ?case
  proof cases
    case stop
    then show ?thesis by (auto simp: step path_step_special)
  next
    case plain
    show ?thesis
    proof (cases "path_char merge c (st, cu_out r)")
      case None
      then show ?thesis
        using path_step_char [OF plain, of merge st r] plain by (auto simp: step split: option.splits)
    next
      case (Some s)
      then obtain st' out where s: "path_char merge c (st, cu_out r) = Some (st', out)" by (cases s) auto
      then obtain r' where r': "cu_path_step merge st c r = Advance r'" "cu_out r' = out" "cu_st r' = cu_path st'"
        using path_step_char [OF plain, of merge st r] st by auto
      then show ?thesis
        using IH(1) [OF _ _ r'(3)] plain s by (auto simp: step split: option.splits)
    qed
  next
    case quote
    define r1 where "r1 = r\<lparr>cu_quoted_state := st, cu_st := cu_quoted\<rparr>"
    have loop1: "cu_loop merge r (c # p) = cu_loop merge r1 p"
      unfolding step unfolding quote by (simp add: path_step_special r1_def)
    show ?thesis
    proof (cases p)
      case Nil
      then show ?thesis unfolding loop1 unfolding quote by (simp add: r1_def)
    next
      case p: (Cons h p')
      show ?thesis
      proof (cases "hex_byte h")
        case None
        then show ?thesis
          unfolding loop1 unfolding quote p by (simp add: cu_loop_Cons cu_step_def r1_def quoted_step)
      next
        case x: (Some x)
        define r2 where "r2 = r1\<lparr>cu_has_quoted := True, cu_decoded := x, cu_st := cu_quoted_second\<rparr>"
        have loop2: "cu_loop merge r1 p = cu_loop merge r2 p'"
          by (simp add: p cu_loop_Cons cu_step_def r1_def quoted_step x r2_def)
        show ?thesis
        proof (cases p')
          case Nil
          then show ?thesis unfolding loop1 loop2 unfolding quote p by (simp add: x r2_def r1_def)
        next
          case p': (Cons l p'')
          have loop3: "cu_loop merge r2 p' = step_run merge (cu_quoted_second_step l r2) p''"
            by (simp add: p' cu_loop_Cons cu_step_def r2_def)
          show ?thesis
          proof (cases "hex_byte l")
            case None
            then have "cu_quoted_second_step l r2 = Invalid_request"
              by (auto simp: cu_quoted_second_step_def hex_byte_def Let_def split: if_splits)
            with None show ?thesis unfolding loop1 loop2 loop3 unfolding quote p p' by (simp add: x)
          next
            case y: (Some y)
            define b where "b = push_bit 4 x + y"
            have b2: "b = push_bit 4 (cu_decoded r2) + y" and q: "cu_quoted_state r2 = st" and o2: "cu_out r2 = cu_out r"
              by (simp_all add: b_def r2_def r1_def)
            note second = quoted_second_step [OF y, of r2, folded b2]
            have unq: "unquote (c # p) = (if b = 0 then None else map_option (Cons b) (unquote p''))"
              by (simp add: quote p x p' y b_def)
            have IH': "exit_out (cu_loop merge r' p'') = (case unquote p'' of None \<Rightarrow> None | Some p \<Rightarrow> path_run merge (st', cu_out r') p)"
              if "cu_st r' = cu_path st'" "b \<noteq> 0" for r' st'
              using IH(2) [OF _ _ p x p' y _ that(1)] quote that(2) by (auto simp: b_def)
            consider (special) "b \<in> {0x25, 0x3f, 0x23}" | (zero) "b = 0" | (other) "b \<notin> {0x25, 0x3f, 0x23}" "b \<noteq> 0" by blast
            then show ?thesis
            proof cases
              case special
              then have "cu_loop merge r (c # p) = cu_loop merge (cu_put b (r2\<lparr>cu_st := cu_path cu_usual\<rparr>)) p''"
                using second by (simp add: loop1 loop2 loop3)
              moreover have "b \<noteq> 0" using special by auto
              ultimately show ?thesis
                using special unfolding unq by (simp add: IH' path_char_special o2 split: option.split)
            next
              case zero
              then show ?thesis using second unfolding unq by (simp add: loop1 loop2 loop3)
            next
              case other
              then obtain plus where "cu_quoted_second_step l r2 = Again (r2\<lparr>cu_st := cu_path st, cu_plus := plus\<rparr>) b"
                using second by (auto simp: q)
              then have loop4: "cu_loop merge r (c # p) =
                  step_run merge (cu_path_step merge st b (r2\<lparr>cu_st := cu_path st, cu_plus := plus\<rparr>)) p''"
                unfolding loop1 loop2 loop3 by (simp add: cu_loop_Cons cu_step_def)
              define r3 where "r3 = r2\<lparr>cu_st := cu_path st, cu_plus := plus\<rparr>"
              have o3: "cu_out r3 = cu_out r" "cu_st r3 = cu_path st" by (simp_all add: r3_def o2)
              show ?thesis
              proof (cases "path_char merge b (st, cu_out r)")
                case None
                then show ?thesis
                  using path_step_char [OF other(1), of merge st r3] other(2)
                  unfolding loop4 r3_def [symmetric] unq by (auto simp: o3 split: option.splits)
              next
                case (Some s)
                then obtain st' out where s: "path_char merge b (st, cu_out r) = Some (st', out)" by (cases s) auto
                then obtain r' where r': "cu_path_step merge st b r3 = Advance r'" "cu_out r' = out" "cu_st r' = cu_path st'"
                  using path_step_char [OF other(1), of merge st r3] by (auto simp: o3)
                then show ?thesis
                  using other(2) s unfolding loop4 r3_def [symmetric] unq by (simp add: IH' split: option.split)
              qed
            qed
          qed
        qed
      qed
    qed
  qed
qed

section \<open>The path automaton resolves segments\<close>

lemma split_slash_ne [simp]: "split_slash p \<noteq> []"
  by (cases p) simp_all

lemma split_slash_no_slash: "s \<in> set (split_slash p) \<Longrightarrow> 0x2f \<notin> set s"
proof (induction p arbitrary: s)
  case (Cons c p)
  then show ?case
    by (cases "split_slash p") (auto split: if_splits)
qed simp

lemma join_path_simps [simp]:
  "join_path [] = []" "join_path (s # st) = 0x2f # s @ join_path st" "join_path (st @ st') = join_path st @ join_path st'"
  by (simp_all add: join_path_def)

lemma join_path_eq_Nil [simp]: "join_path st = [] \<longleftrightarrow> st = []"
  by (cases st) simp_all

lemma split_join: "(\<forall>s \<in> set st. 0x2f \<notin> set s) \<Longrightarrow> 0x2f \<notin> set s \<Longrightarrow>
  split_slash (tl (join_path (st @ [s]))) = st @ [s]"
proof (induction st)
  case Nil
  then show ?case by (induction s) auto
next
  case (Cons t st)
  have "split_slash (t @ 0x2f # p) = t # split_slash p" if "0x2f \<notin> set t" for p
    using that by (induction t) auto
  moreover have "join_path (st @ [s]) = 0x2f # tl (join_path (st @ [s]))"
    by (cases st) simp_all
  ultimately have "split_slash (t @ join_path (st @ [s])) = t # split_slash (tl (join_path (st @ [s])))"
    using Cons.prems by (metis list.set_intros(1))
  with Cons show ?case by simp
qed

lemma cu_back_slash:
  "length p \<le> i \<Longrightarrow> i \<le> length p + length s \<Longrightarrow> 0x2f \<notin> set s \<Longrightarrow>
   cu_back (p @ 0x2f # s @ q) i = Some (p @ [0x2f])"
proof (induction i)
  case (Suc i)
  show ?case
  proof (cases "length p = Suc i")
    case False
    then have "(p @ 0x2f # s @ q) ! Suc i = s ! (i - length p)" and "i - length p < length s"
      using Suc.prems by (auto simp: nth_append nth_Cons' Suc_diff_le)
    then have "(p @ 0x2f # s @ q) ! Suc i \<noteq> 0x2f"
      using Suc.prems(3) nth_mem [of "i - length p" s] by metis
    then show ?thesis
      using Suc False by simp
  next
    case True
    then have "(p @ 0x2f # s @ q) ! Suc i = 0x2f"
      by (metis nth_append_length)
    with True show ?thesis by simp
  qed
qed simp

lemma cu_up_pop:
  assumes "\<forall>s \<in> set st. 0x2f \<notin> set s"
  shows "cu_up (join_path (st @ [str ''..''])) = map_option (\<lambda>st. join_path st @ [0x2f]) (pop st)"
proof (cases st rule: rev_cases)
  case Nil
  then show ?thesis by (simp add: cu_up_def pop_def str_def)
next
  case (snoc st' s)
  show ?thesis
  proof (cases "s = []")
    case False
    have "cu_back (join_path st' @ 0x2f # s @ str ''/..'') (length (join_path st') + length s - 1) = Some (join_path st' @ [0x2f])"
      using False assms snoc by (intro cu_back_slash) (cases s; auto)+
    then show ?thesis
      using False snoc by (simp add: cu_up_def pop_def str_def)
  next
    case s: True
    show ?thesis
    proof (cases st' rule: rev_cases)
      case Nil
      then show ?thesis using snoc s by (simp add: cu_up_def pop_def str_def)
    next
      case st': (snoc st'' s'')
      have "cu_back (join_path st'' @ 0x2f # s'' @ str ''//..'') (length (join_path st'') + length s'') =
          Some (join_path st'' @ [0x2f])"
        using assms snoc st' by (intro cu_back_slash) auto
      then show ?thesis
        using snoc s st' by (simp add: cu_up_def pop_def str_def butlast_append)
    qed
  qed
qed

text \<open>What the output is in each state: complete segments, and what there is of the next one.\<close>

definition path_rel :: "bool \<Rightarrow> cu_path \<Rightarrow> bytes \<Rightarrow> bytes list \<Rightarrow> bytes \<Rightarrow> bool" where
  "path_rel merge st out segs s \<longleftrightarrow>
     out = join_path (segs @ [s]) \<and> 0x2f \<notin> set s \<and>
     (\<forall>t \<in> set segs. 0x2f \<notin> set t \<and> t \<noteq> str ''.'' \<and> t \<noteq> str ''..'' \<and> (merge \<longrightarrow> t \<noteq> [])) \<and>
     (case st of
        cu_usual \<Rightarrow> s \<notin> {[], str ''.'', str ''..''}
      | cu_slash \<Rightarrow> s = []
      | cu_dot \<Rightarrow> s = str ''.''
      | cu_dot_dot \<Rightarrow> s = str ''..'')"

lemma path_rel_char:
  assumes "path_rel merge st out segs s" "ch \<noteq> 0x2f"
  shows "\<exists>st'. path_char merge ch (st, out) = Some (st', out @ [ch]) \<and> path_rel merge st' (out @ [ch]) segs (s @ [ch])"
  using assms by (cases st) (auto simp: path_rel_def path_char_def str_def append_eq_Cons_conv)

lemma pop_subset: "pop st = Some st' \<Longrightarrow> set st' \<subseteq> set st"
  by (auto simp: pop_def dest!: in_set_butlastD split: if_splits)

lemma path_rel_slash:
  assumes "path_rel merge st out segs s"
  shows "case push merge segs s of
           None \<Rightarrow> path_char merge 0x2f (st, out) = None
         | Some segs' \<Rightarrow> path_char merge 0x2f (st, out) = Some (cu_slash, join_path (segs' @ [[]])) \<and>
                        path_rel merge cu_slash (join_path (segs' @ [[]])) segs' []"
proof (cases st)
  case cu_dot_dot
  then have s: "s = str ''..''" and out: "out = join_path (segs @ [str ''..''])"
    and segs: "\<forall>t \<in> set segs. 0x2f \<notin> set t \<and> t \<noteq> str ''.'' \<and> t \<noteq> str ''..'' \<and> (merge \<longrightarrow> t \<noteq> [])"
    using assms by (auto simp: path_rel_def)
  have "push merge segs s = pop segs"
    by (simp add: push_def s str_def)
  moreover have "path_char merge 0x2f (st, out) = map_option (\<lambda>segs. (cu_slash, join_path (segs @ [[]]))) (pop segs)"
    using cu_dot_dot cu_up_pop [of segs] segs by (simp add: path_char_def out option.map_comp o_def)
  moreover have "path_rel merge cu_slash (join_path (segs' @ [[]])) segs' []" if "pop segs = Some segs'" for segs'
    using pop_subset [OF that] segs by (auto simp: path_rel_def)
  ultimately show ?thesis
    by (simp split: option.split)
qed (use assms in \<open>auto simp: path_rel_def path_char_def push_def str_def butlast_append\<close>)

lemma path_run_resolve:
  "path_rel merge st out segs s \<Longrightarrow>
   path_run merge (st, out) p = resolve merge segs ((s @ hd (split_slash p)) # tl (split_slash p))"
proof (induction p arbitrary: st out segs s)
  case Nil
  then show ?case by (simp add: path_rel_def)
next
  case (Cons ch p)
  show ?case
  proof (cases "ch = 0x2f")
    case False
    then obtain st' where "path_char merge ch (st, out) = Some (st', out @ [ch])" "path_rel merge st' (out @ [ch]) segs (s @ [ch])"
      using path_rel_char [OF Cons.prems] by blast
    with Cons.IH False show ?thesis by simp
  next
    case True
    obtain t ts where split: "split_slash p = t # ts"
      by (cases "split_slash p") simp_all
    have "resolve merge segs ((s @ hd (split_slash (ch # p))) # tl (split_slash (ch # p))) =
        (case push merge segs s of None \<Rightarrow> None | Some segs \<Rightarrow> resolve merge segs (split_slash p))"
      using True split by (simp cong: option.case_cong)
    moreover have "path_run merge (st, out) (ch # p) =
        (case push merge segs s of None \<Rightarrow> None | Some segs \<Rightarrow> resolve merge segs (split_slash p))"
      using path_rel_slash [OF Cons.prems] Cons.IH [of cu_slash _ _ "[]"] True by (auto split: option.splits)
    ultimately show ?thesis by simp
  qed
qed

lemma complex_uri_resolve:
  "map_option res_uri (ngx_http_parse_complex_uri merge (0x2f # src)) =
     (case unquote src of None \<Rightarrow> None | Some p \<Rightarrow> resolve merge [] (split_slash p))"
proof -
  have loop: "map_option res_uri (ngx_http_parse_complex_uri merge s) = exit_out (cu_loop merge cu_init s)" for s
    by (auto simp: ngx_http_parse_complex_uri_def cu_finish_def split: cu_exit.split)
  have "path_rel merge cu_slash [0x2f] [] []"
    by (simp add: path_rel_def)
  from path_run_resolve [OF this]
  have "path_run merge (cu_usual, []) (0x2f # p) = resolve merge [] (split_slash p)" for p
    by (simp add: path_char_def)
  then show ?thesis
    using cu_loop_run [of cu_init cu_usual merge "0x2f # src"]
    by (simp only: loop) (simp add: cu_init_def split: option.split)
qed

lemma resolve_segments:
  assumes "resolve merge st ss = Some out" "ss \<noteq> []"
    and "\<forall>s \<in> set st. s \<noteq> str ''.'' \<and> s \<noteq> str ''..'' \<and> (merge \<longrightarrow> s \<noteq> []) \<and> 0x2f \<notin> set s"
    and "\<forall>s \<in> set ss. 0x2f \<notin> set s"
  shows "\<exists>st'. out = join_path (st' @ [last ss]) \<and>
    (\<forall>s \<in> set st'. s \<noteq> str ''.'' \<and> s \<noteq> str ''..'' \<and> (merge \<longrightarrow> s \<noteq> []) \<and> 0x2f \<notin> set s)"
  using assms
proof (induction merge st ss rule: resolve.induct)
  case (3 merge st s s' ss)
  then obtain st' where st': "push merge st s = Some st'" "resolve merge st' (s' # ss) = Some out"
    by (auto split: option.splits)
  have "\<forall>s \<in> set st'. s \<noteq> str ''.'' \<and> s \<noteq> str ''..'' \<and> (merge \<longrightarrow> s \<noteq> []) \<and> 0x2f \<notin> set s"
    using st'(1) 3(4,5) pop_subset [of st st'] by (auto simp: push_def split: if_splits)
  with 3(1) [OF st'(1) st'(2)] 3(5) show ?case by simp
qed auto

section \<open>Properties\<close>

text \<open>The one-pass normalisation computes what two passes would: percent-decoding up to the query,
  then resolving the segments with a stack; it fails exactly when one of the two does.\<close>

theorem complex_uri_two_passes:
  assumes "src = 0x2f # rest"
  shows "map_option res_uri (ngx_http_parse_complex_uri merge src) =
    (case unquote rest of None \<Rightarrow> None | Some p \<Rightarrow> resolve merge [] (split_slash p))"
  unfolding assms by (rule complex_uri_resolve)

theorem complex_uri_two_passes_witness:
  "map_option res_uri (ngx_http_parse_complex_uri True (str ''/a/%2e%2E//b%20c/./d?x'')) = Some (str ''/b c/d'')"
  using complex_uri_two_passes [of "str ''/a/%2e%2E//b%20c/./d?x''" "str ''a/%2e%2E//b%20c/./d?x''" True]
  by (simp add: str_def hex_byte_def push_def pop_def)

text \<open>C28: no path traversal: every segment of an accepted path but the last is proper, that is, none of
  them is \<open>.\<close> or \<open>..\<close> (or empty, when slashes are merged), however it was quoted.  The last segment,
  however, is that of the request as it is: \<open>/a/..\<close> stays \<open>/a/..\<close>.\<close>

theorem complex_uri_no_traversal:
  assumes "ngx_http_parse_complex_uri merge (0x2f # rest) = Some res"
  shows "\<exists>p. unquote rest = Some p \<and> hd (res_uri res) = 0x2f \<and>
    list_all (\<lambda>s. s \<noteq> str ''.'' \<and> s \<noteq> str ''..'' \<and> \<not> (merge \<and> s = [])) (butlast (split_slash (tl (res_uri res)))) \<and>
    last (split_slash (tl (res_uri res))) = last (split_slash p)"
proof -
  obtain p where p: "unquote rest = Some p" "resolve merge [] (split_slash p) = Some (res_uri res)"
    using complex_uri_resolve [of merge rest] assms by (auto split: option.splits)
  have segs: "\<forall>s \<in> set (split_slash p). 0x2f \<notin> set s"
    using split_slash_no_slash by blast
  obtain st where st: "res_uri res = join_path (st @ [last (split_slash p)])"
      "\<forall>s \<in> set st. s \<noteq> str ''.'' \<and> s \<noteq> str ''..'' \<and> (merge \<longrightarrow> s \<noteq> []) \<and> 0x2f \<notin> set s"
    using resolve_segments [OF p(2)] segs by auto
  have "split_slash (tl (res_uri res)) = st @ [last (split_slash p)]"
    unfolding st(1) using st(2) segs by (intro split_join) auto
  then show ?thesis
    using p(1) st by (cases st) (auto simp: list_all_iff)
qed

theorem complex_uri_no_traversal_witness:
  "\<exists>res p. ngx_http_parse_complex_uri True (str ''/a/../b/..'') = Some res \<and> unquote (str ''a/../b/..'') = Some p \<and>
     hd (res_uri res) = 0x2f \<and>
     list_all (\<lambda>s. s \<noteq> str ''.'' \<and> s \<noteq> str ''..'' \<and> \<not> (True \<and> s = [])) (butlast (split_slash (tl (res_uri res)))) \<and>
     last (split_slash (tl (res_uri res))) = last (split_slash p)"
proof -
  have "map_option res_uri (ngx_http_parse_complex_uri True (0x2f # str ''a/../b/..'')) = Some (str ''/b/..'')"
    unfolding complex_uri_resolve by (simp add: str_def push_def pop_def)
  then obtain res where "ngx_http_parse_complex_uri True (0x2f # str ''a/../b/..'') = Some res"
    by auto
  then show ?thesis
    using complex_uri_no_traversal [of True "str ''a/../b/..''" res] by (simp add: str_def)
qed

end
