(* ===== verification/HttpRequestLine.thy ===== *)
theory HttpRequestLine
  imports HttpUri
begin

text \<open>
  The request line: \<open>ngx_http_parse_request_line\<close> of \<^verbatim>\<open>src/http/ngx_http_parse.c\<close>, a resumable
  automaton over the bytes of the connection's header buffer, one definition for each of its
  states or group of states; \<open>ngx_http_parse_uri\<close>, the part of it that HTTP/2 uses for the path, and
  \<open>ngx_http_process_request_uri\<close> of \<^verbatim>\<open>src/http/ngx_http_request.c\<close>, which decides whether the path
  needs the normalisation of \<open>HttpUri\<close>.  (The code for Windows is left out.)
\<close>

section \<open>State\<close>

datatype http_rc = Rc ngx_rc | NGX_HTTP_PARSE_HEADER_DONE | NGX_HTTP_PARSE_INVALID_METHOD
  | NGX_HTTP_PARSE_INVALID_REQUEST | NGX_HTTP_PARSE_INVALID_VERSION | NGX_HTTP_PARSE_INVALID_09_METHOD
  | NGX_HTTP_PARSE_INVALID_HEADER

text \<open>The states of \<open>ngx_http_parse_request_line\<close>, \<open>rl_x\<close> for \<open>sw_x\<close>.\<close>

datatype rl_state =
    rl_start | rl_method | rl_spaces_before_uri | rl_schema | rl_schema_slash | rl_schema_slash_slash
  | rl_host_start | rl_host | rl_host_end | rl_host_ip_literal | rl_port | rl_host_http_09
  | rl_after_slash_in_uri | rl_check_uri | rl_check_uri_http_09 | rl_uri | rl_http_09
  | rl_http_H | rl_http_HT | rl_http_HTT | rl_http_HTTP
  | rl_first_major_digit | rl_major_digit | rl_first_minor_digit | rl_minor_digit
  | rl_spaces_after_digit | rl_almost_done

definition NGX_HTTP_UNKNOWN :: nat where "NGX_HTTP_UNKNOWN = 0x0001"
definition NGX_HTTP_GET :: nat where "NGX_HTTP_GET = 0x0002"
definition NGX_HTTP_HEAD :: nat where "NGX_HTTP_HEAD = 0x0004"
definition NGX_HTTP_POST :: nat where "NGX_HTTP_POST = 0x0008"
definition NGX_HTTP_PUT :: nat where "NGX_HTTP_PUT = 0x0010"
definition NGX_HTTP_DELETE :: nat where "NGX_HTTP_DELETE = 0x0020"
definition NGX_HTTP_MKCOL :: nat where "NGX_HTTP_MKCOL = 0x0040"
definition NGX_HTTP_COPY :: nat where "NGX_HTTP_COPY = 0x0080"
definition NGX_HTTP_MOVE :: nat where "NGX_HTTP_MOVE = 0x0100"
definition NGX_HTTP_OPTIONS :: nat where "NGX_HTTP_OPTIONS = 0x0200"
definition NGX_HTTP_PROPFIND :: nat where "NGX_HTTP_PROPFIND = 0x0400"
definition NGX_HTTP_PROPPATCH :: nat where "NGX_HTTP_PROPPATCH = 0x0800"
definition NGX_HTTP_LOCK :: nat where "NGX_HTTP_LOCK = 0x1000"
definition NGX_HTTP_UNLOCK :: nat where "NGX_HTTP_UNLOCK = 0x2000"
definition NGX_HTTP_PATCH :: nat where "NGX_HTTP_PATCH = 0x4000"
definition NGX_HTTP_TRACE :: nat where "NGX_HTTP_TRACE = 0x8000"

text \<open>
  The fields of \<open>ngx_http_request_t\<close> that the parser uses.  Pointers are offsets into the buffer,
  \<open>None\<close> for NULL.
\<close>

record rl =
  rq_state :: rl_state
  rq_start :: "nat option"
  rq_method_end :: "nat option"
  rq_method :: nat
  rq_schema_start :: "nat option"
  rq_schema_end :: "nat option"
  rq_host_start :: "nat option"
  rq_host_end :: "nat option"
  rq_port_end :: "nat option"
  rq_uri_start :: "nat option"
  rq_uri_end :: "nat option"
  rq_uri_ext :: "nat option"
  rq_args_start :: "nat option"
  rq_end :: "nat option"
  rq_protocol :: "nat option"
  rq_major :: nat
  rq_minor :: nat
  rq_version :: nat
  rq_complex_uri :: bool
  rq_quoted_uri :: bool
  rq_plus_in_uri :: bool
  rq_space_in_uri :: bool

text \<open>A request as \<open>ngx_http_create_request\<close> leaves it.\<close>

definition rl_init :: rl where
  "rl_init = \<lparr>rq_state = rl_start, rq_start = None, rq_method_end = None, rq_method = NGX_HTTP_UNKNOWN,
     rq_schema_start = None, rq_schema_end = None, rq_host_start = None, rq_host_end = None, rq_port_end = None,
     rq_uri_start = None, rq_uri_end = None, rq_uri_ext = None, rq_args_start = None, rq_end = None,
     rq_protocol = None, rq_major = 0, rq_minor = 0, rq_version = 0,
     rq_complex_uri = False, rq_quoted_uri = False, rq_plus_in_uri = False, rq_space_in_uri = False\<rparr>"

text \<open>
  What a state does with a character: go on with the next one, look at the same one again in
  another state (\<open>p--\<close>), finish, or fail.
\<close>

datatype rl_move = Rl_next rl | Rl_again rl | Rl_done rl | Rl_fail http_rc rl

definition is_letter :: "u8 \<Rightarrow> bool" where
  "is_letter ch \<longleftrightarrow> (let c = ch OR 0x20 in c \<ge> 0x61 \<and> c \<le> 0x7a)"

section \<open>The method\<close>

definition rl_case_start :: "rl \<Rightarrow> nat \<Rightarrow> u8 \<Rightarrow> rl_move" where
  "rl_case_start r p ch =
     (let r = r\<lparr>rq_start := Some p\<rparr>
      in if ch = 0x0d \<or> ch = 0x0a then Rl_next r
         else if (ch < 0x41 \<or> ch > 0x5a) \<and> ch \<noteq> 0x5f \<and> ch \<noteq> 0x2d then Rl_fail NGX_HTTP_PARSE_INVALID_METHOD r
         else Rl_next (r\<lparr>rq_state := rl_method\<rparr>))"

text \<open>
  The switch on the length of the method: the code of a known method, otherwise the old one.  The
  comparisons of whole words that include the space behind the method compare that space with the
  character just read.
\<close>

definition method_code :: "bytes \<Rightarrow> nat \<Rightarrow> nat" where
  "method_code m old =
     (if length m = 3 then
        (if m = str ''GET'' then NGX_HTTP_GET else if m = str ''PUT'' then NGX_HTTP_PUT else old)
      else if length m = 4 then
        (if m ! 1 = 0x4f then
           (if m = str ''POST'' then NGX_HTTP_POST
            else if m = str ''COPY'' then NGX_HTTP_COPY
            else if m = str ''MOVE'' then NGX_HTTP_MOVE
            else if m = str ''LOCK'' then NGX_HTTP_LOCK else old)
         else (if m = str ''HEAD'' then NGX_HTTP_HEAD else old))
      else if length m = 5 then
        (if m = str ''MKCOL'' then NGX_HTTP_MKCOL
         else if m = str ''PATCH'' then NGX_HTTP_PATCH
         else if m = str ''TRACE'' then NGX_HTTP_TRACE else old)
      else if length m = 6 then
        (if m = str ''DELETE'' then NGX_HTTP_DELETE
         else if m = str ''UNLOCK'' then NGX_HTTP_UNLOCK else old)
      else if length m = 7 then (if m = str ''OPTIONS'' then NGX_HTTP_OPTIONS else old)
      else if length m = 8 then (if m = str ''PROPFIND'' then NGX_HTTP_PROPFIND else old)
      else if length m = 9 then (if m = str ''PROPPATCH'' then NGX_HTTP_PROPPATCH else old)
      else old)"

text \<open>\<open>mem\<close> are the bytes of the buffer.\<close>

definition rl_case_method :: "bytes \<Rightarrow> rl \<Rightarrow> nat \<Rightarrow> u8 \<Rightarrow> rl_move" where
  "rl_case_method mem r p ch =
     (if ch = 0x20 then
        (let m = the (rq_start r)
         in Rl_next (r\<lparr>rq_method_end := Some (p - 1),
                       rq_method := method_code (take (p - m) (drop m mem)) (rq_method r),
                       rq_state := rl_spaces_before_uri\<rparr>))
      else if (ch < 0x41 \<or> ch > 0x5a) \<and> ch \<noteq> 0x5f \<and> ch \<noteq> 0x2d then Rl_fail NGX_HTTP_PARSE_INVALID_METHOD r
      else Rl_next r)"

section \<open>Scheme, host and port\<close>

definition rl_case_spaces_before_uri :: "rl \<Rightarrow> nat \<Rightarrow> u8 \<Rightarrow> rl_move" where
  "rl_case_spaces_before_uri r p ch =
     (if ch = 0x2f then Rl_next (r\<lparr>rq_uri_start := Some p, rq_state := rl_after_slash_in_uri\<rparr>)
      else if is_letter ch then Rl_next (r\<lparr>rq_schema_start := Some p, rq_state := rl_schema\<rparr>)
      else if ch = 0x20 then Rl_next r
      else Rl_fail NGX_HTTP_PARSE_INVALID_REQUEST r)"

definition rl_case_schema :: "rl \<Rightarrow> nat \<Rightarrow> u8 \<Rightarrow> rl_move" where
  "rl_case_schema r p ch =
     (if is_letter ch then Rl_next r
      else if ch = 0x3a then Rl_next (r\<lparr>rq_schema_end := Some p, rq_state := rl_schema_slash\<rparr>)
      else Rl_fail NGX_HTTP_PARSE_INVALID_REQUEST r)"

text \<open>The states that want one particular character.\<close>

definition rl_expect :: "u8 \<Rightarrow> rl_state \<Rightarrow> rl \<Rightarrow> u8 \<Rightarrow> rl_move" where
  "rl_expect c st r ch =
     (if ch = c then Rl_next (r\<lparr>rq_state := st\<rparr>) else Rl_fail NGX_HTTP_PARSE_INVALID_REQUEST r)"

definition rl_case_host_end :: "rl \<Rightarrow> nat \<Rightarrow> u8 \<Rightarrow> rl_move" where
  "rl_case_host_end r p ch =
     (let r = r\<lparr>rq_host_end := Some p\<rparr>
      in if ch = 0x3a then Rl_next (r\<lparr>rq_state := rl_port\<rparr>)
         else if ch = 0x2f then Rl_next (r\<lparr>rq_uri_start := Some p, rq_state := rl_after_slash_in_uri\<rparr>)
         else if ch = 0x20 then
           Rl_next (r\<lparr>rq_uri_start := Some (the (rq_schema_end r) + 1), rq_uri_end := Some (the (rq_schema_end r) + 2),
                      rq_state := rl_host_http_09\<rparr>)
         else Rl_fail NGX_HTTP_PARSE_INVALID_REQUEST r)"

text \<open>The two cases fall through.\<close>

definition rl_case_host :: "rl \<Rightarrow> nat \<Rightarrow> u8 \<Rightarrow> rl_move" where
  "rl_case_host r p ch =
     (if is_letter ch then Rl_next r
      else if (ch \<ge> 0x30 \<and> ch \<le> 0x39) \<or> ch = 0x2e \<or> ch = 0x2d then Rl_next r
      else rl_case_host_end r p ch)"

definition rl_case_host_start :: "rl \<Rightarrow> nat \<Rightarrow> u8 \<Rightarrow> rl_move" where
  "rl_case_host_start r p ch =
     (let r = r\<lparr>rq_host_start := Some p\<rparr>
      in if ch = 0x5b then Rl_next (r\<lparr>rq_state := rl_host_ip_literal\<rparr>)
         else rl_case_host (r\<lparr>rq_state := rl_host\<rparr>) p ch)"

definition rl_case_host_ip_literal :: "rl \<Rightarrow> nat \<Rightarrow> u8 \<Rightarrow> rl_move" where
  "rl_case_host_ip_literal r p ch =
     (if ch \<ge> 0x30 \<and> ch \<le> 0x39 then Rl_next r
      else if is_letter ch then Rl_next r
      else if ch = 0x3a then Rl_next r
      else if ch = 0x5d then Rl_next (r\<lparr>rq_state := rl_host_end\<rparr>)
      else if ch \<in> set (str ''-._~'') then Rl_next r
      else if ch \<in> set (str ''!$&'' @ [0x27] @ str ''()*+,;='') then Rl_next r
      else Rl_fail NGX_HTTP_PARSE_INVALID_REQUEST r)"

definition rl_case_port :: "rl \<Rightarrow> nat \<Rightarrow> u8 \<Rightarrow> rl_move" where
  "rl_case_port r p ch =
     (if ch \<ge> 0x30 \<and> ch \<le> 0x39 then Rl_next r
      else if ch = 0x2f then
        Rl_next (r\<lparr>rq_port_end := Some p, rq_uri_start := Some p, rq_state := rl_after_slash_in_uri\<rparr>)
      else if ch = 0x20 then
        Rl_next (r\<lparr>rq_port_end := Some p, rq_uri_start := Some (the (rq_schema_end r) + 1),
                   rq_uri_end := Some (the (rq_schema_end r) + 2), rq_state := rl_host_http_09\<rparr>)
      else Rl_fail NGX_HTTP_PARSE_INVALID_REQUEST r)"

definition rl_case_host_http_09 :: "rl \<Rightarrow> nat \<Rightarrow> u8 \<Rightarrow> rl_move" where
  "rl_case_host_http_09 r p ch =
     (if ch = 0x20 then Rl_next r
      else if ch = 0x0d then Rl_next (r\<lparr>rq_minor := 9, rq_state := rl_almost_done\<rparr>)
      else if ch = 0x0a then Rl_done (r\<lparr>rq_minor := 9\<rparr>)
      else if ch = 0x48 then Rl_next (r\<lparr>rq_protocol := Some p, rq_state := rl_http_H\<rparr>)
      else Rl_fail NGX_HTTP_PARSE_INVALID_REQUEST r)"

section \<open>The URI\<close>

definition rl_case_after_slash_in_uri :: "rl \<Rightarrow> nat \<Rightarrow> u8 \<Rightarrow> rl_move" where
  "rl_case_after_slash_in_uri r p ch =
     (if is_usual ch then Rl_next (r\<lparr>rq_state := rl_check_uri\<rparr>)
      else if ch = 0x20 then Rl_next (r\<lparr>rq_uri_end := Some p, rq_state := rl_check_uri_http_09\<rparr>)
      else if ch = 0x0d then Rl_next (r\<lparr>rq_uri_end := Some p, rq_minor := 9, rq_state := rl_almost_done\<rparr>)
      else if ch = 0x0a then Rl_done (r\<lparr>rq_uri_end := Some p, rq_minor := 9\<rparr>)
      else if ch = 0x2e then Rl_next (r\<lparr>rq_complex_uri := True, rq_state := rl_uri\<rparr>)
      else if ch = 0x25 then Rl_next (r\<lparr>rq_quoted_uri := True, rq_state := rl_uri\<rparr>)
      else if ch = 0x2f then Rl_next (r\<lparr>rq_complex_uri := True, rq_state := rl_uri\<rparr>)
      else if ch = 0x3f then Rl_next (r\<lparr>rq_args_start := Some (p + 1), rq_state := rl_uri\<rparr>)
      else if ch = 0x23 then Rl_next (r\<lparr>rq_complex_uri := True, rq_state := rl_uri\<rparr>)
      else if ch = 0x2b then Rl_next (r\<lparr>rq_plus_in_uri := True\<rparr>)
      else if ch = 0 then Rl_fail NGX_HTTP_PARSE_INVALID_REQUEST r
      else Rl_next (r\<lparr>rq_state := rl_check_uri\<rparr>))"

definition rl_case_check_uri :: "rl \<Rightarrow> nat \<Rightarrow> u8 \<Rightarrow> rl_move" where
  "rl_case_check_uri r p ch =
     (if is_usual ch then Rl_next r
      else if ch = 0x2f then Rl_next (r\<lparr>rq_uri_ext := None, rq_state := rl_after_slash_in_uri\<rparr>)
      else if ch = 0x2e then Rl_next (r\<lparr>rq_uri_ext := Some (p + 1)\<rparr>)
      else if ch = 0x20 then Rl_next (r\<lparr>rq_uri_end := Some p, rq_state := rl_check_uri_http_09\<rparr>)
      else if ch = 0x0d then Rl_next (r\<lparr>rq_uri_end := Some p, rq_minor := 9, rq_state := rl_almost_done\<rparr>)
      else if ch = 0x0a then Rl_done (r\<lparr>rq_uri_end := Some p, rq_minor := 9\<rparr>)
      else if ch = 0x25 then Rl_next (r\<lparr>rq_quoted_uri := True, rq_state := rl_uri\<rparr>)
      else if ch = 0x3f then Rl_next (r\<lparr>rq_args_start := Some (p + 1), rq_state := rl_uri\<rparr>)
      else if ch = 0x23 then Rl_next (r\<lparr>rq_complex_uri := True, rq_state := rl_uri\<rparr>)
      else if ch = 0x2b then Rl_next (r\<lparr>rq_plus_in_uri := True\<rparr>)
      else if ch = 0 then Rl_fail NGX_HTTP_PARSE_INVALID_REQUEST r
      else Rl_next r)"

text \<open>Spaces behind the URI: what follows is the protocol, or belongs to the URI after all.\<close>

definition rl_case_check_uri_http_09 :: "rl \<Rightarrow> nat \<Rightarrow> u8 \<Rightarrow> rl_move" where
  "rl_case_check_uri_http_09 r p ch =
     (if ch = 0x20 then Rl_next r
      else if ch = 0x0d then Rl_next (r\<lparr>rq_minor := 9, rq_state := rl_almost_done\<rparr>)
      else if ch = 0x0a then Rl_done (r\<lparr>rq_minor := 9\<rparr>)
      else if ch = 0x48 then Rl_next (r\<lparr>rq_protocol := Some p, rq_state := rl_http_H\<rparr>)
      else Rl_again (r\<lparr>rq_space_in_uri := True, rq_state := rl_check_uri\<rparr>))"

definition rl_case_uri :: "rl \<Rightarrow> nat \<Rightarrow> u8 \<Rightarrow> rl_move" where
  "rl_case_uri r p ch =
     (if is_usual ch then Rl_next r
      else if ch = 0x20 then Rl_next (r\<lparr>rq_uri_end := Some p, rq_state := rl_http_09\<rparr>)
      else if ch = 0x0d then Rl_next (r\<lparr>rq_uri_end := Some p, rq_minor := 9, rq_state := rl_almost_done\<rparr>)
      else if ch = 0x0a then Rl_done (r\<lparr>rq_uri_end := Some p, rq_minor := 9\<rparr>)
      else if ch = 0x23 then Rl_next (r\<lparr>rq_complex_uri := True\<rparr>)
      else if ch = 0 then Rl_fail NGX_HTTP_PARSE_INVALID_REQUEST r
      else Rl_next r)"

definition rl_case_http_09 :: "rl \<Rightarrow> nat \<Rightarrow> u8 \<Rightarrow> rl_move" where
  "rl_case_http_09 r p ch =
     (if ch = 0x20 then Rl_next r
      else if ch = 0x0d then Rl_next (r\<lparr>rq_minor := 9, rq_state := rl_almost_done\<rparr>)
      else if ch = 0x0a then Rl_done (r\<lparr>rq_minor := 9\<rparr>)
      else if ch = 0x48 then Rl_next (r\<lparr>rq_protocol := Some p, rq_state := rl_http_H\<rparr>)
      else Rl_again (r\<lparr>rq_space_in_uri := True, rq_state := rl_uri\<rparr>))"

section \<open>The version\<close>

definition rl_case_first_major_digit :: "rl \<Rightarrow> u8 \<Rightarrow> rl_move" where
  "rl_case_first_major_digit r ch =
     (if ch < 0x31 \<or> ch > 0x39 then Rl_fail NGX_HTTP_PARSE_INVALID_REQUEST r
      else let r = r\<lparr>rq_major := unat (ch - 0x30)\<rparr>
           in if rq_major r > 1 then Rl_fail NGX_HTTP_PARSE_INVALID_VERSION r
              else Rl_next (r\<lparr>rq_state := rl_major_digit\<rparr>))"

definition rl_case_major_digit :: "rl \<Rightarrow> u8 \<Rightarrow> rl_move" where
  "rl_case_major_digit r ch =
     (if ch = 0x2e then Rl_next (r\<lparr>rq_state := rl_first_minor_digit\<rparr>)
      else if ch < 0x30 \<or> ch > 0x39 then Rl_fail NGX_HTTP_PARSE_INVALID_REQUEST r
      else let r = r\<lparr>rq_major := rq_major r * 10 + unat (ch - 0x30)\<rparr>
           in if rq_major r > 1 then Rl_fail NGX_HTTP_PARSE_INVALID_VERSION r else Rl_next r)"

definition rl_case_first_minor_digit :: "rl \<Rightarrow> u8 \<Rightarrow> rl_move" where
  "rl_case_first_minor_digit r ch =
     (if ch < 0x30 \<or> ch > 0x39 then Rl_fail NGX_HTTP_PARSE_INVALID_REQUEST r
      else Rl_next (r\<lparr>rq_minor := unat (ch - 0x30), rq_state := rl_minor_digit\<rparr>))"

definition rl_case_minor_digit :: "rl \<Rightarrow> u8 \<Rightarrow> rl_move" where
  "rl_case_minor_digit r ch =
     (if ch = 0x0d then Rl_next (r\<lparr>rq_state := rl_almost_done\<rparr>)
      else if ch = 0x0a then Rl_done r
      else if ch = 0x20 then Rl_next (r\<lparr>rq_state := rl_spaces_after_digit\<rparr>)
      else if ch < 0x30 \<or> ch > 0x39 then Rl_fail NGX_HTTP_PARSE_INVALID_REQUEST r
      else if rq_minor r > 99 then Rl_fail NGX_HTTP_PARSE_INVALID_REQUEST r
      else Rl_next (r\<lparr>rq_minor := rq_minor r * 10 + unat (ch - 0x30)\<rparr>))"

definition rl_case_spaces_after_digit :: "rl \<Rightarrow> u8 \<Rightarrow> rl_move" where
  "rl_case_spaces_after_digit r ch =
     (if ch = 0x20 then Rl_next r
      else if ch = 0x0d then Rl_next (r\<lparr>rq_state := rl_almost_done\<rparr>)
      else if ch = 0x0a then Rl_done r
      else Rl_fail NGX_HTTP_PARSE_INVALID_REQUEST r)"

definition rl_case_almost_done :: "rl \<Rightarrow> nat \<Rightarrow> u8 \<Rightarrow> rl_move" where
  "rl_case_almost_done r p ch =
     (let r = r\<lparr>rq_end := Some (p - 1)\<rparr>
      in if ch = 0x0a then Rl_done r else Rl_fail NGX_HTTP_PARSE_INVALID_REQUEST r)"

section \<open>The parser\<close>

definition rl_step :: "bytes \<Rightarrow> rl \<Rightarrow> nat \<Rightarrow> u8 \<Rightarrow> rl_move" where
  "rl_step mem r p ch =
     (case rq_state r of
        rl_start \<Rightarrow> rl_case_start r p ch
      | rl_method \<Rightarrow> rl_case_method mem r p ch
      | rl_spaces_before_uri \<Rightarrow> rl_case_spaces_before_uri r p ch
      | rl_schema \<Rightarrow> rl_case_schema r p ch
      | rl_schema_slash \<Rightarrow> rl_expect 0x2f rl_schema_slash_slash r ch
      | rl_schema_slash_slash \<Rightarrow> rl_expect 0x2f rl_host_start r ch
      | rl_host_start \<Rightarrow> rl_case_host_start r p ch
      | rl_host \<Rightarrow> rl_case_host r p ch
      | rl_host_end \<Rightarrow> rl_case_host_end r p ch
      | rl_host_ip_literal \<Rightarrow> rl_case_host_ip_literal r p ch
      | rl_port \<Rightarrow> rl_case_port r p ch
      | rl_host_http_09 \<Rightarrow> rl_case_host_http_09 r p ch
      | rl_after_slash_in_uri \<Rightarrow> rl_case_after_slash_in_uri r p ch
      | rl_check_uri \<Rightarrow> rl_case_check_uri r p ch
      | rl_check_uri_http_09 \<Rightarrow> rl_case_check_uri_http_09 r p ch
      | rl_uri \<Rightarrow> rl_case_uri r p ch
      | rl_http_09 \<Rightarrow> rl_case_http_09 r p ch
      | rl_http_H \<Rightarrow> rl_expect 0x54 rl_http_HT r ch
      | rl_http_HT \<Rightarrow> rl_expect 0x54 rl_http_HTT r ch
      | rl_http_HTT \<Rightarrow> rl_expect 0x50 rl_http_HTTP r ch
      | rl_http_HTTP \<Rightarrow> rl_expect 0x2f rl_first_major_digit r ch
      | rl_first_major_digit \<Rightarrow> rl_case_first_major_digit r ch
      | rl_major_digit \<Rightarrow> rl_case_major_digit r ch
      | rl_first_minor_digit \<Rightarrow> rl_case_first_minor_digit r ch
      | rl_minor_digit \<Rightarrow> rl_case_minor_digit r ch
      | rl_spaces_after_digit \<Rightarrow> rl_case_spaces_after_digit r ch
      | rl_almost_done \<Rightarrow> rl_case_almost_done r p ch)"

lemmas rl_case_defs =
  rl_case_start_def rl_case_method_def rl_case_spaces_before_uri_def rl_case_schema_def rl_expect_def
  rl_case_host_end_def rl_case_host_def rl_case_host_start_def rl_case_host_ip_literal_def rl_case_port_def
  rl_case_host_http_09_def rl_case_after_slash_in_uri_def rl_case_check_uri_def rl_case_check_uri_http_09_def
  rl_case_uri_def rl_case_http_09_def rl_case_first_major_digit_def rl_case_major_digit_def
  rl_case_first_minor_digit_def rl_case_minor_digit_def rl_case_spaces_after_digit_def rl_case_almost_done_def Let_def

lemma rl_step_again:
  "rl_step mem r p ch = Rl_again r' \<Longrightarrow>
   rq_state r \<in> {rl_check_uri_http_09, rl_http_09} \<and> rq_state r' \<in> {rl_check_uri, rl_uri}"
  by (cases "rq_state r") (auto simp: rl_step_def rl_case_defs split: if_splits)

lemma rl_step_fail: "rl_step mem r p ch = Rl_fail rc r' \<Longrightarrow> rc \<noteq> Rc NGX_OK"
  by (cases "rq_state r") (auto simp: rl_step_def rl_case_defs split: if_splits)

text \<open>
  The loop from \<open>p\<close> to the end of the bytes in the buffer: the code, the request and \<open>b->pos\<close>.  An
  error leaves \<open>b->pos\<close> and \<open>r->state\<close> as they were (\<open>pos\<close>, \<open>st\<close>).
\<close>

definition rl_finish :: "rl \<Rightarrow> nat \<Rightarrow> http_rc \<times> rl \<times> nat" where
  "rl_finish r p =
     (let r = r\<lparr>rq_end := (if rq_end r = None then Some p else rq_end r)\<rparr>;
          r = r\<lparr>rq_version := rq_major r * 1000 + rq_minor r, rq_state := rl_start\<rparr>
      in if rq_version r = 9 \<and> rq_method r \<noteq> NGX_HTTP_GET then (NGX_HTTP_PARSE_INVALID_09_METHOD, r, p + 1)
         else (Rc NGX_OK, r, p + 1))"

function rl_loop :: "bytes \<Rightarrow> nat \<Rightarrow> rl_state \<Rightarrow> rl \<Rightarrow> nat \<Rightarrow> http_rc \<times> rl \<times> nat" where
  "rl_loop mem pos st r p =
     (if p < length mem then
        (case rl_step mem r p (mem ! p) of
           Rl_next r \<Rightarrow> rl_loop mem pos st r (p + 1)
         | Rl_again r \<Rightarrow> rl_loop mem pos st r p
         | Rl_done r \<Rightarrow> rl_finish r p
         | Rl_fail rc r \<Rightarrow> (rc, r\<lparr>rq_state := st\<rparr>, pos))
      else (Rc NGX_AGAIN, r, p))"
  by pat_completeness auto
termination
  by (relation "measures [\<lambda>(mem, pos, st, r, p). length mem - p,
        \<lambda>(mem, pos, st, r, p). if rq_state r \<in> {rl_check_uri_http_09, rl_http_09} then 1 else 0]")
    (auto dest!: rl_step_again)

declare rl_loop.simps [simp del]

definition ngx_http_parse_request_line :: "bytes \<Rightarrow> rl \<Rightarrow> nat \<Rightarrow> http_rc \<times> rl \<times> nat" where
  "ngx_http_parse_request_line mem r pos = rl_loop mem pos (rq_state r) r pos"

section \<open>The path alone\<close>

text \<open>
  \<open>ngx_http_parse_uri\<close>: the states are among those of the request line; \<open>rl_start\<close> is its first state; the
  function keeps its state in a local variable, here in \<open>rq_state\<close>.
  \<open>p\<close> is the offset of the rest \<open>src\<close> of the text; the result is \<open>None\<close> for \<open>NGX_ERROR\<close>.
\<close>

definition pu_after_slash :: "rl \<Rightarrow> nat \<Rightarrow> u8 \<Rightarrow> rl" where
  "pu_after_slash r p ch =
     (if is_usual ch then r\<lparr>rq_state := rl_check_uri\<rparr>
      else if ch = 0x20 then r\<lparr>rq_space_in_uri := True, rq_state := rl_check_uri\<rparr>
      else if ch = 0x2e then r\<lparr>rq_complex_uri := True, rq_state := rl_uri\<rparr>
      else if ch = 0x25 then r\<lparr>rq_quoted_uri := True, rq_state := rl_uri\<rparr>
      else if ch = 0x2f then r\<lparr>rq_complex_uri := True, rq_state := rl_uri\<rparr>
      else if ch = 0x3f then r\<lparr>rq_args_start := Some (p + 1), rq_state := rl_uri\<rparr>
      else if ch = 0x23 then r\<lparr>rq_complex_uri := True, rq_state := rl_uri\<rparr>
      else if ch = 0x2b then r\<lparr>rq_plus_in_uri := True\<rparr>
      else r\<lparr>rq_state := rl_check_uri\<rparr>)"

definition pu_check_uri :: "rl \<Rightarrow> nat \<Rightarrow> u8 \<Rightarrow> rl" where
  "pu_check_uri r p ch =
     (if is_usual ch then r
      else if ch = 0x2f then r\<lparr>rq_uri_ext := None, rq_state := rl_after_slash_in_uri\<rparr>
      else if ch = 0x2e then r\<lparr>rq_uri_ext := Some (p + 1)\<rparr>
      else if ch = 0x20 then r\<lparr>rq_space_in_uri := True\<rparr>
      else if ch = 0x25 then r\<lparr>rq_quoted_uri := True, rq_state := rl_uri\<rparr>
      else if ch = 0x3f then r\<lparr>rq_args_start := Some (p + 1), rq_state := rl_uri\<rparr>
      else if ch = 0x23 then r\<lparr>rq_complex_uri := True, rq_state := rl_uri\<rparr>
      else if ch = 0x2b then r\<lparr>rq_plus_in_uri := True\<rparr>
      else r)"

definition pu_uri :: "rl \<Rightarrow> u8 \<Rightarrow> rl" where
  "pu_uri r ch =
     (if is_usual ch then r
      else if ch = 0x20 then r\<lparr>rq_space_in_uri := True\<rparr>
      else if ch = 0x23 then r\<lparr>rq_complex_uri := True\<rparr>
      else r)"

fun pu_loop :: "rl \<Rightarrow> nat \<Rightarrow> bytes \<Rightarrow> rl option" where
  "pu_loop r p [] = Some r"
| "pu_loop r p (ch # src) =
     (case rq_state r of
        rl_start \<Rightarrow> if ch \<noteq> 0x2f then None else pu_loop (r\<lparr>rq_state := rl_after_slash_in_uri\<rparr>) (p + 1) src
      | rl_after_slash_in_uri \<Rightarrow> pu_loop (pu_after_slash r p ch) (p + 1) src
      | rl_check_uri \<Rightarrow> pu_loop (pu_check_uri r p ch) (p + 1) src
      | _ \<Rightarrow> pu_loop (pu_uri r ch) (p + 1) src)"

text \<open>The text of the path is \<open>src\<close>, at offset \<open>start\<close> (\<open>uri_start\<close>).\<close>

definition ngx_http_parse_uri :: "rl \<Rightarrow> nat \<Rightarrow> bytes \<Rightarrow> rl option" where
  "ngx_http_parse_uri r start src = pu_loop (r\<lparr>rq_state := rl_start\<rparr>) start src"

section \<open>Using the parsed line\<close>

text \<open>
  What \<open>ngx_http_process_request_uri\<close> stores in the request (\<open>uri\<close>, \<open>unparsed_uri\<close>, \<open>exten\<close>, \<open>args\<close>,
  \<open>valid_unparsed_uri\<close>); \<open>exten\<close> and \<open>args\<close> are empty before.
\<close>

record uri_fields =
  pr_uri :: bytes
  pr_unparsed :: bytes
  pr_exten :: bytes
  pr_args :: bytes
  pr_valid_unparsed :: bool

datatype uri_error = Http_internal_server_error | Http_bad_request

definition span :: "bytes \<Rightarrow> nat \<Rightarrow> nat \<Rightarrow> bytes" where
  "span mem i j = take (j - i) (drop i mem)"

definition ngx_http_process_request_uri :: "bool \<Rightarrow> bool \<Rightarrow> bytes \<Rightarrow> rl \<Rightarrow> uri_error + uri_fields" where
  "ngx_http_process_request_uri merge_slashes alloc_ok mem r =
     (let start = the (rq_uri_start r); stop = the (rq_uri_end r);
          len = (case rq_args_start r of Some a \<Rightarrow> a - 1 - start | None \<Rightarrow> stop - start);
          unparsed = span mem start stop;
          arguments = (\<lambda>args_start before. case args_start of
              Some a \<Rightarrow> if stop > a then span mem a stop else before | None \<Rightarrow> before)
      in if rq_complex_uri r \<or> rq_quoted_uri r then
           (if \<not> alloc_ok then Inl Http_internal_server_error
            else case ngx_http_parse_complex_uri merge_slashes unparsed of
                   None \<Rightarrow> Inl Http_bad_request
                 | Some res \<Rightarrow>
                     Inr \<lparr>pr_uri = res_uri res, pr_unparsed = unparsed,
                          pr_exten = (case res_exten res of Some e \<Rightarrow> e | None \<Rightarrow> []),
                          pr_args = arguments (map_option ((+) start) (res_args_start res))
                                      (case res_args res of Some a \<Rightarrow> a | None \<Rightarrow> []),
                          pr_valid_unparsed = (\<not> rq_space_in_uri r)\<rparr>)
         else
           Inr \<lparr>pr_uri = span mem start (start + len), pr_unparsed = unparsed,
                pr_exten = (case rq_uri_ext r of
                     None \<Rightarrow> []
                   | Some e \<Rightarrow> span mem e (case rq_args_start r of Some a \<Rightarrow> a - 1 | None \<Rightarrow> stop)),
                pr_args = arguments (rq_args_start r) [],
                pr_valid_unparsed = (\<not> rq_space_in_uri r)\<rparr>)"

section \<open>The short cut for simple paths\<close>

lemma pu_flags_mono:
  assumes "pu_loop r p src = Some r'"
  shows "(rq_complex_uri r \<longrightarrow> rq_complex_uri r') \<and> (rq_quoted_uri r \<longrightarrow> rq_quoted_uri r')"
  using assms
proof (induction r p src rule: pu_loop.induct)
  case (2 r p ch src)
  then show ?case
    by (cases "rq_state r") (auto simp: pu_after_slash_def pu_check_uri_def pu_uri_def split: if_splits)
qed simp

lemma pu_args:
  assumes "pu_loop r p src = Some r'" "rq_state r = rl_uri"
  shows "rq_args_start r' = rq_args_start r \<and> rq_uri_ext r' = rq_uri_ext r \<and> (0x23 \<in> set src \<longrightarrow> rq_complex_uri r')"
  using assms
proof (induction src arbitrary: r p)
  case (Cons ch src)
  then have run: "pu_loop (pu_uri r ch) (p + 1) src = Some r'" "rq_state (pu_uri r ch) = rl_uri"
    by (simp_all add: pu_uri_def)
  have "rq_complex_uri r'" if "ch = 0x23"
    using pu_flags_mono [OF run(1)] that by (simp add: pu_uri_def is_usual_iff)
  then show ?case
    using Cons.IH [OF run] by (auto simp: pu_uri_def split: if_splits)
qed simp

text \<open>As long as no flag is set, the normalisation copies what it reads.\<close>

lemma pu_simple:
  assumes "pu_loop r p src = Some r'" "\<not> rq_complex_uri r'" "\<not> rq_quoted_uri r'"
    and "rq_state r = rl_after_slash_in_uri \<and> cu_st c \<in> {cu_path cu_slash, cu_path cu_usual} \<or>
         rq_state r = rl_check_uri \<and> cu_st c = cu_path cu_usual"
    and "rq_uri_ext r = map_option ((+) start) (cu_uri_ext c)" "p = start + length (cu_out c)" "rq_args_start r = None"
  shows "\<exists>c'. rq_uri_ext r' = map_option ((+) start) (cu_uri_ext c') \<and>
    (case rq_args_start r' of
       None \<Rightarrow> cu_loop merge c src = At_done c' \<and> cu_out c' = cu_out c @ src
     | Some a \<Rightarrow> \<exists>pre q. cu_loop merge c src = At_args c' q \<and> 0x23 \<notin> set q \<and> src = pre @ 0x3f # q \<and>
                   cu_out c' = cu_out c @ pre \<and> a = start + length (cu_out c') + 1)"
  using assms
proof (induction src arbitrary: r p c)
  case Nil
  then show ?case by auto
next
  case (Cons ch src)
  obtain st where st: "cu_st c = cu_path st" and st_cases: "st = cu_usual \<or> st = cu_slash"
    using Cons.prems(4) by auto
  have next_run: "pu_loop (if rq_state r = rl_after_slash_in_uri then pu_after_slash r p ch else pu_check_uri r p ch) (p + 1) src = Some r'"
    using Cons.prems(1,4) by auto
  define r1 where "r1 = (if rq_state r = rl_after_slash_in_uri then pu_after_slash r p ch else pu_check_uri r p ch)"
  have flags: "\<not> rq_complex_uri r1" "\<not> rq_quoted_uri r1"
    using pu_flags_mono [OF next_run] Cons.prems(2,3) by (auto simp: r1_def)
  have step: "cu_loop merge c (ch # src) = step_run merge (cu_path_step merge st ch c) src"
    by (simp add: cu_loop_Cons cu_step_def st)
  show ?case
  proof (cases "ch = 0x3f")
    case True
    then have r1: "r1 = r\<lparr>rq_args_start := Some (p + 1), rq_state := rl_uri\<rparr>"
      using Cons.prems(4) by (auto simp: r1_def pu_after_slash_def pu_check_uri_def is_usual_iff)
    have "rq_args_start r' = Some (p + 1)" "rq_uri_ext r' = rq_uri_ext r" "0x23 \<notin> set src"
      using pu_args [OF next_run [folded r1_def]] Cons.prems(2) by (auto simp: r1)
    moreover have "cu_loop merge c (ch # src) = At_args c src"
      unfolding step unfolding True by (simp add: path_step_special)
    ultimately show ?thesis
      using Cons.prems(5,6) True by (intro exI [of _ c]) simp
  next
    case False
    define c1 where "c1 = (if ch = 0x2f then cu_put ch (c\<lparr>cu_uri_ext := None, cu_st := cu_path cu_slash\<rparr>)
        else if ch = 0x2e then cu_put ch (c\<lparr>cu_uri_ext := Some (length (cu_out c) + 1)\<rparr>)
        else if is_usual ch then cu_put ch (c\<lparr>cu_st := cu_path cu_usual\<rparr>)
        else cu_put ch (c\<lparr>cu_st := cu_path cu_usual, cu_plus := cu_plus c \<or> ch = 0x2b\<rparr>))"
    have special: "ch \<noteq> 0x25 \<and> ch \<noteq> 0x23 \<and> (ch = 0x2f \<or> ch = 0x2e \<longrightarrow> rq_state r = rl_check_uri)"
      using flags Cons.prems(4) by (auto simp: r1_def pu_after_slash_def pu_check_uri_def is_usual_iff split: if_splits)
    then have "st = cu_usual" if "ch = 0x2f \<or> ch = 0x2e"
      using that Cons.prems(4) st by auto
    then have step1: "cu_path_step merge st ch c = Advance c1"
      using special False by (auto simp: cu_path_step_def c1_def is_usual_iff split: cu_path.split)
    have "rq_state r1 = rl_after_slash_in_uri \<and> cu_st c1 \<in> {cu_path cu_slash, cu_path cu_usual} \<or>
         rq_state r1 = rl_check_uri \<and> cu_st c1 = cu_path cu_usual"
      using special False Cons.prems(4)
      by (auto simp: r1_def c1_def pu_after_slash_def pu_check_uri_def cu_put_def is_usual_iff)
    moreover have "rq_uri_ext r1 = map_option ((+) start) (cu_uri_ext c1)" "rq_args_start r1 = None"
      using special False Cons.prems(4-7)
      by (auto simp: r1_def c1_def pu_after_slash_def pu_check_uri_def cu_put_def is_usual_iff)
    moreover have out1: "cu_out c1 = cu_out c @ [ch]"
      by (simp add: c1_def)
    ultimately obtain c' where "rq_uri_ext r' = map_option ((+) start) (cu_uri_ext c')"
      "case rq_args_start r' of
         None \<Rightarrow> cu_loop merge c1 src = At_done c' \<and> cu_out c' = cu_out c1 @ src
       | Some a \<Rightarrow> \<exists>pre q. cu_loop merge c1 src = At_args c' q \<and> 0x23 \<notin> set q \<and> src = pre @ 0x3f # q \<and>
                     cu_out c' = cu_out c1 @ pre \<and> a = start + length (cu_out c') + 1"
      using Cons.IH [OF next_run [folded r1_def] Cons.prems(2,3), of c1] Cons.prems(6) by auto
    then show ?thesis
      unfolding step step1 using out1
      by (intro exI [of _ c']) (auto split: option.splits intro: exI [of _ "ch # _"])
  qed
qed

text \<open>
  The request of a path text: what \<open>ngx_http_parse_uri\<close> (HTTP/2) makes of a fresh request.
\<close>

definition path_request :: "bytes \<Rightarrow> rl option" where
  "path_request src =
     ngx_http_parse_uri (rl_init\<lparr>rq_uri_start := Some 0, rq_uri_end := Some (length src)\<rparr>) 0 src"

text \<open>What the slow way, through the normalisation, would give.\<close>

definition slow_uri :: "bool \<Rightarrow> bytes \<Rightarrow> bool \<Rightarrow> uri_error + uri_fields" where
  "slow_uri merge src space =
     (case ngx_http_parse_complex_uri merge src of
        None \<Rightarrow> Inl Http_bad_request
      | Some res \<Rightarrow>
          Inr \<lparr>pr_uri = res_uri res, pr_unparsed = src,
               pr_exten = (case res_exten res of Some e \<Rightarrow> e | None \<Rightarrow> []),
               pr_args = (case res_args_start res of Some a \<Rightarrow> drop a src
                          | None \<Rightarrow> (case res_args res of Some a \<Rightarrow> a | None \<Rightarrow> [])),
               pr_valid_unparsed = (\<not> space)\<rparr>)"

lemma span_whole [simp]: "span src 0 (length src) = src"
  by (simp add: span_def)

lemma complex_args_start:
  "ngx_http_parse_complex_uri merge src = Some res \<Longrightarrow> res_args_start res = Some a \<Longrightarrow> res_args res = None \<and> a \<le> length src"
  by (auto simp: ngx_http_parse_complex_uri_def cu_finish_def split: cu_exit.splits if_splits)

lemma process_slow:
  assumes "rq_uri_start r = Some i" "rq_uri_end r = Some j" "i \<le> j" "j \<le> length mem" "rq_complex_uri r \<or> rq_quoted_uri r"
  shows "ngx_http_process_request_uri merge True mem r = slow_uri merge (span mem i j) (rq_space_in_uri r)"
proof -
  have "span mem (i + a) j = drop a (span mem i j)" for a
    by (simp add: span_def drop_take add.commute)
  moreover have "length (span mem i j) \<le> a" if "\<not> i + a < j" for a
    using that by (simp add: span_def)
  ultimately show ?thesis
    using assms complex_args_start [of merge "span mem i j"]
    by (auto simp: ngx_http_process_request_uri_def slow_uri_def Let_def split: option.splits)
qed

lemma process_simple:
  assumes r: "pu_loop r0 (i + 1) src = Some r'" "\<not> rq_complex_uri r'" "\<not> rq_quoted_uri r'"
      "rq_state r0 = rl_after_slash_in_uri" "rq_uri_ext r0 = None" "rq_args_start r0 = None"
    and eq: "rq_uri_start r = Some i" "rq_uri_end r = Some j" "\<not> rq_complex_uri r" "\<not> rq_quoted_uri r"
      "rq_uri_ext r = rq_uri_ext r'" "rq_args_start r = rq_args_start r'"
    and mem: "i \<le> j" "j \<le> length mem" "span mem i j = 0x2f # src"
  shows "ngx_http_process_request_uri merge True mem r = slow_uri merge (0x2f # src) (rq_space_in_uri r)"
proof -
  define c where "c = cu_put 0x2f (cu_init\<lparr>cu_uri_ext := None, cu_st := cu_path cu_slash\<rparr>)"
  have c: "cu_st c = cu_path cu_slash" "cu_out c = [0x2f]" "cu_uri_ext c = None"
    by (simp_all add: c_def cu_put_def cu_init_def)
  have loop: "cu_loop merge cu_init (0x2f # src) = cu_loop merge c src"
    by (simp add: cu_loop_Cons cu_step_def cu_init_def cu_path_step_def is_usual_iff c_def)
  obtain c' where ext: "rq_uri_ext r' = map_option ((+) i) (cu_uri_ext c')" and
    c': "case rq_args_start r' of
       None \<Rightarrow> cu_loop merge c src = At_done c' \<and> cu_out c' = cu_out c @ src
     | Some a \<Rightarrow> \<exists>pre q. cu_loop merge c src = At_args c' q \<and> 0x23 \<notin> set q \<and> src = pre @ 0x3f # q \<and>
                   cu_out c' = cu_out c @ pre \<and> a = i + length (cu_out c') + 1"
    using pu_simple [OF r(1-3), of c i merge] r(4-6) c by auto
  have len: "j - i = Suc (length src)"
    using arg_cong [OF mem(3), of length] mem(1,2) by (simp add: span_def)
  have dr: "drop i mem = 0x2f # src @ drop j mem"
    using mem(3) append_take_drop_id [of "j - i" "drop i mem"] mem(1) by (simp add: span_def)
  show ?thesis
  proof (cases "rq_args_start r'")
    case None
    then have loop': "cu_loop merge c src = At_done c'" "cu_out c' = 0x2f # src"
      using c' c by simp_all
    have "span mem (i + e) j = drop e (0x2f # src)" for e
      using mem by (simp add: span_def drop_take add.commute [of i] flip: drop_drop mem(3))
    then show ?thesis
      using eq ext None loop loop' mem by (auto simp: ngx_http_process_request_uri_def slow_uri_def Let_def
          ngx_http_parse_complex_uri_def cu_finish_def split: option.splits)
  next
    case (Some a)
    then obtain pre q where q: "cu_loop merge c src = At_args c' q" "0x23 \<notin> set q" "src = pre @ 0x3f # q"
        "cu_out c' = 0x2f # pre" "a = i + length pre + 2"
      using c' c by auto
    have j: "j = a + length q"
      using len mem(1) q(3,5) by simp
    have "span mem i (i + (a - 1 - i)) = 0x2f # pre"
      using dr q(3,5) by (simp add: span_def)
    moreover have "span mem a j = q"
    proof -
      have "drop a mem = drop (length pre + 2) (drop i mem)"
        by (simp add: q(5) add.commute add.left_commute)
      then show ?thesis
        using j dr q(3) by (simp add: span_def)
    qed
    moreover have "span mem (i + e) (a - 1) = drop e (0x2f # pre)" for e
    proof -
      have "drop (i + e) mem = drop e (drop i mem)" by (simp add: add.commute)
      then show ?thesis
        using dr q(3,5) by (simp add: span_def drop_take [symmetric] del: drop_drop)
    qed
    moreover have "drop (length (0x2f # src) - length q) (0x2f # src) = q"
      using q(3) by simp
    moreover have "j > a \<longleftrightarrow> q \<noteq> []" using j by auto
    ultimately show ?thesis
      using eq ext Some loop q(1,2,4) mem(3) by (auto simp: ngx_http_process_request_uri_def slow_uri_def Let_def
          ngx_http_parse_complex_uri_def cu_finish_def split: option.splits)
  qed
qed

end
