(* ===== verification/HttpRequestUri.thy ===== *)
theory HttpRequestUri
  imports HttpRequestLine
begin

text \<open>
  From the request line to the normalised path: the parser of request lines recognises the path the
  way \<open>ngx_http_parse_uri\<close> does, so that the request that \<open>ngx_http_process_request_uri\<close> makes of it
  is the one the normalisation of \<open>HttpUri\<close> would give, whether the short cut is taken or not.
\<close>

section \<open>The request line and the path\<close>

lemma pu_loop_append:
  "pu_loop r p (as @ bs) = Option.bind (pu_loop r p as) (\<lambda>r. pu_loop r (p + length as) bs)"
proof (induction as arbitrary: r p)
  case (Cons a as)
  then show ?case by (cases "rq_state r") simp_all
qed simp

text \<open>
  \<open>q\<close> is what the parser of paths knows after the text from the slash at \<open>i\<close> up to \<open>p\<close>.
\<close>

definition pu_at :: "bytes \<Rightarrow> nat \<Rightarrow> nat \<Rightarrow> rl \<Rightarrow> bool" where
  "pu_at mem i p q \<longleftrightarrow> i < p \<and> p \<le> length mem \<and> mem ! i = 0x2f \<and>
     pu_loop (rl_init\<lparr>rq_state := rl_after_slash_in_uri\<rparr>) (i + 1) (span mem (i + 1) p) = Some q"

definition pu_step :: "rl \<Rightarrow> nat \<Rightarrow> u8 \<Rightarrow> rl" where
  "pu_step q p ch =
     (case rq_state q of
        rl_after_slash_in_uri \<Rightarrow> pu_after_slash q p ch
      | rl_check_uri \<Rightarrow> pu_check_uri q p ch
      | _ \<Rightarrow> pu_uri q ch)"

lemma pu_at_start: "i < length mem \<Longrightarrow> mem ! i = 0x2f \<Longrightarrow> pu_at mem i (i + 1) (rl_init\<lparr>rq_state := rl_after_slash_in_uri\<rparr>)"
  by (simp add: pu_at_def span_def)

lemma span_snoc: "i \<le> p \<Longrightarrow> p < length mem \<Longrightarrow> span mem i (p + 1) = span mem i p @ [mem ! p]"
  by (simp add: span_def Suc_diff_le take_Suc_conv_app_nth)

lemma pu_at_next:
  assumes "pu_at mem i p q" "p < length mem" "rq_state q \<noteq> rl_start"
  shows "pu_at mem i (p + 1) (pu_step q p (mem ! p))"
  using assms span_snoc [of "i + 1" p mem]
  by (cases "rq_state q") (simp_all add: pu_at_def pu_step_def pu_loop_append, simp_all add: span_def)

definition same_path :: "rl \<Rightarrow> rl \<Rightarrow> bool" where
  "same_path r q \<longleftrightarrow> rq_complex_uri r = rq_complex_uri q \<and> rq_quoted_uri r = rq_quoted_uri q \<and>
     rq_args_start r = rq_args_start q \<and> rq_uri_ext r = rq_uri_ext q"

definition no_path :: "rl \<Rightarrow> bool" where
  "no_path r \<longleftrightarrow> \<not> rq_complex_uri r \<and> \<not> rq_quoted_uri r \<and> rq_args_start r = None \<and> rq_uri_ext r = None"

definition in_path :: "bytes \<Rightarrow> rl \<Rightarrow> nat \<Rightarrow> bool" where
  "in_path mem r p \<longleftrightarrow> (\<exists>i q. rq_uri_start r = Some i \<and> pu_at mem i p q \<and> rq_state q = rq_state r \<and> same_path r q)"

definition after_path :: "rl_state set \<Rightarrow> bytes \<Rightarrow> rl \<Rightarrow> nat \<Rightarrow> bool" where
  "after_path sts mem r p \<longleftrightarrow> (\<exists>i j q. rq_uri_start r = Some i \<and> rq_uri_end r = Some j \<and> j < p \<and> pu_at mem i j q \<and>
     rq_state q \<in> sts \<and> same_path r q \<and> (\<forall>k. j \<le> k \<longrightarrow> k < p \<longrightarrow> mem ! k = 0x20))"

definition path_known :: "bytes \<Rightarrow> rl \<Rightarrow> bool" where
  "path_known mem r \<longleftrightarrow> (\<exists>i j q. rq_uri_start r = Some i \<and> rq_uri_end r = Some j \<and> pu_at mem i j q \<and> same_path r q)"

definition rl_inv :: "bytes \<Rightarrow> rl \<Rightarrow> nat \<Rightarrow> bool" where
  "rl_inv mem r p \<longleftrightarrow>
     (if rq_state r \<in> {rl_start, rl_method, rl_spaces_before_uri, rl_schema} then no_path r
      else if rq_state r = rl_schema_slash then no_path r \<and> 0 < p \<and> rq_schema_end r = Some (p - 1)
      else if rq_state r = rl_schema_slash_slash then no_path r \<and> 1 < p \<and> rq_schema_end r = Some (p - 2) \<and> mem ! Suc (p - 2) = 0x2f
      else if rq_state r \<in> {rl_host_start, rl_host, rl_host_end, rl_host_ip_literal, rl_port}
      then no_path r \<and> (\<exists>s. rq_schema_end r = Some s \<and> s + 3 \<le> p \<and> mem ! (s + 1) = 0x2f)
      else if rq_state r \<in> {rl_after_slash_in_uri, rl_check_uri, rl_uri} then in_path mem r p
      else if rq_state r = rl_check_uri_http_09 then after_path {rl_after_slash_in_uri, rl_check_uri} mem r p
      else if rq_state r = rl_http_09 then after_path {rl_uri} mem r p
      else path_known mem r)"

lemma after_path_known: "after_path sts mem r p \<Longrightarrow> path_known mem r"
  unfolding after_path_def path_known_def by blast

lemma path_known_cong:
  "path_known mem r \<Longrightarrow> rq_uri_start r' = rq_uri_start r \<Longrightarrow> rq_uri_end r' = rq_uri_end r \<Longrightarrow> same_path r' r \<Longrightarrow> path_known mem r'"
  unfolding path_known_def same_path_def by auto

lemma pu_spaces:
  assumes "pu_at mem i j q" "j < p" "p \<le> length mem" "\<forall>k. j \<le> k \<longrightarrow> k < p \<longrightarrow> mem ! k = 0x20"
    "rq_state q \<in> {rl_after_slash_in_uri, rl_check_uri, rl_uri}"
  shows "\<exists>q'. pu_at mem i p q' \<and> same_path q' q \<and> rq_state q' = (if rq_state q = rl_uri then rl_uri else rl_check_uri)"
  using assms
proof (induction "p - j" arbitrary: j q)
  case (Suc n)
  have left: "n = p - (j + 1)" using Suc.hyps(2) by simp
  define q1 where "q1 = pu_step q j 0x20"
  have at: "pu_at mem i (j + 1) q1"
    using pu_at_next [OF Suc.prems(1)] Suc.prems by (auto simp: q1_def)
  have q1: "same_path q1 q" "rq_state q1 = (if rq_state q = rl_uri then rl_uri else rl_check_uri)"
    using Suc.prems(5) by (auto simp: q1_def pu_step_def pu_after_slash_def pu_check_uri_def pu_uri_def is_usual_iff same_path_def)
  show ?case
  proof (cases "j + 1 = p")
    case True
    then show ?thesis using at q1 by blast
  next
    case False
    then obtain q' where "pu_at mem i p q'" "same_path q' q1" "rq_state q' = (if rq_state q1 = rl_uri then rl_uri else rl_check_uri)"
      using Suc.hyps(1) [OF left at] Suc.prems q1 by (auto split: if_splits)
    then show ?thesis
      using q1 by (auto simp: same_path_def)
  qed
qed simp

text \<open>How the invariant starts, in the path, and ends.\<close>

lemma path_begins:
  "no_path r \<Longrightarrow> p < length mem \<Longrightarrow> mem ! p = 0x2f \<Longrightarrow> rq_uri_start r = Some p \<Longrightarrow> rq_state r = rl_after_slash_in_uri \<Longrightarrow>
   in_path mem r (Suc p)"
  using pu_at_start [of p mem] by (auto simp: in_path_def no_path_def same_path_def rl_init_def)

lemma path_of_scheme:
  "rq_uri_start r = Some i \<Longrightarrow> rq_uri_end r = Some (Suc i) \<Longrightarrow> no_path r \<Longrightarrow> mem ! i = 0x2f \<Longrightarrow> i < length mem \<Longrightarrow>
   path_known mem r"
  using pu_at_start [of i mem] by (auto simp: path_known_def no_path_def same_path_def rl_init_def)

lemma path_goes_on:
  assumes "in_path mem r p" "p < length mem" "rq_state r \<in> {rl_after_slash_in_uri, rl_check_uri, rl_uri}"
    and "rq_uri_start r' = rq_uri_start r"
    and "\<And>q. rq_state q = rq_state r \<Longrightarrow> same_path r q \<Longrightarrow>
         rq_state (pu_step q p (mem ! p)) = rq_state r' \<and> same_path r' (pu_step q p (mem ! p))"
  shows "in_path mem r' (Suc p)"
  using assms pu_at_next unfolding in_path_def by fastforce

lemma path_ends:
  "in_path mem r p \<Longrightarrow> rq_uri_start r' = rq_uri_start r \<Longrightarrow> rq_uri_end r' = Some p \<Longrightarrow> same_path r' r \<Longrightarrow> path_known mem r'"
  unfolding in_path_def path_known_def same_path_def by auto

lemma path_then_space:
  "in_path mem r p \<Longrightarrow> rq_uri_start r' = rq_uri_start r \<Longrightarrow> rq_uri_end r' = Some p \<Longrightarrow> same_path r' r \<Longrightarrow> mem ! p = 0x20 \<Longrightarrow>
   rq_state r \<in> sts \<Longrightarrow> after_path sts mem r' (Suc p)"
  unfolding in_path_def after_path_def same_path_def by (metis less_Suc_eq_le lessI le_antisym)

lemma after_path_space:
  "after_path sts mem r p \<Longrightarrow> mem ! p = 0x20 \<Longrightarrow> after_path sts mem r (Suc p)"
  unfolding after_path_def by (fastforce simp: less_Suc_eq)

lemma after_path_again:
  assumes "after_path sts mem r p" "p \<le> length mem" "sts \<subseteq> {rl_after_slash_in_uri, rl_check_uri, rl_uri}"
    and "rq_uri_start r' = rq_uri_start r" "same_path r' r" "\<And>st. st \<in> sts \<Longrightarrow> rq_state r' = (if st = rl_uri then rl_uri else rl_check_uri)"
  shows "in_path mem r' p"
proof -
  obtain i j q where q: "rq_uri_start r = Some i" "rq_uri_end r = Some j" "j < p" "pu_at mem i j q" "rq_state q \<in> sts" "same_path r q"
      "\<forall>k. j \<le> k \<longrightarrow> k < p \<longrightarrow> mem ! k = 0x20"
    using assms(1) by (auto simp: after_path_def)
  obtain q' where "pu_at mem i p q'" "same_path q' q" "rq_state q' = (if rq_state q = rl_uri then rl_uri else rl_check_uri)"
    using pu_spaces [OF q(4,3) assms(2) q(7)] q(5) assms(3) by blast
  then show ?thesis
    using q(1,5,6) assms(4-6) by (auto simp: in_path_def same_path_def)
qed

section \<open>Each state keeps the invariant\<close>

definition move_ok :: "bytes \<Rightarrow> nat \<Rightarrow> rl_move \<Rightarrow> bool" where
  "move_ok mem p m =
     (case m of
        Rl_next r \<Rightarrow> rl_inv mem r (p + 1)
      | Rl_again r \<Rightarrow> rl_inv mem r p
      | Rl_done r \<Rightarrow> path_known mem r
      | Rl_fail rc r \<Rightarrow> True)"

lemma move_ok_simps [simp]:
  "move_ok mem p (Rl_next r) = rl_inv mem r (p + 1)"
  "move_ok mem p (Rl_again r) = rl_inv mem r p"
  "move_ok mem p (Rl_done r) = path_known mem r"
  "move_ok mem p (Rl_fail rc r)"
  by (simp_all add: move_ok_def)

lemma keep_before:
  assumes "rl_inv mem r p" "p < length mem" "ch = mem ! p"
    "rq_state r \<in> {rl_start, rl_method, rl_spaces_before_uri, rl_schema, rl_schema_slash, rl_schema_slash_slash}"
  shows "move_ok mem p (rl_step mem r p ch)"
  using assms by (cases "rq_state r")
    (auto simp: rl_step_def rl_inv_def rl_case_defs no_path_def intro: path_begins)

lemma keep_host:
  assumes "rl_inv mem r p" "p < length mem" "ch = mem ! p"
    "rq_state r \<in> {rl_host_start, rl_host, rl_host_end, rl_host_ip_literal, rl_port}"
  shows "move_ok mem p (rl_step mem r p ch)"
  using assms by (cases "rq_state r")
    (auto simp: rl_step_def rl_inv_def rl_case_defs no_path_def intro: path_begins path_of_scheme)

lemma keep_path:
  assumes "rl_inv mem r p" "p < length mem" "ch = mem ! p"
    "rq_state r \<in> {rl_after_slash_in_uri, rl_check_uri, rl_uri}"
  shows "move_ok mem p (rl_step mem r p ch)"
proof -
  have at: "in_path mem r p" using assms by (auto simp: rl_inv_def)
  show ?thesis
    using assms(2-4) by (cases "rq_state r")
      (auto simp: rl_step_def rl_inv_def rl_case_defs pu_step_def pu_after_slash_def pu_check_uri_def pu_uri_def is_usual_iff
        same_path_def intro!: path_goes_on [OF at] path_then_space [OF at] path_ends [OF at])
qed

lemma keep_after:
  assumes "rl_inv mem r p" "p < length mem" "ch = mem ! p"
    "rq_state r \<in> {rl_check_uri_http_09, rl_http_09}"
  shows "move_ok mem p (rl_step mem r p ch)"
  using assms by (cases "rq_state r")
    (auto simp: rl_step_def rl_inv_def rl_case_defs same_path_def
      intro: after_path_again after_path_space path_known_cong [OF after_path_known])

lemma keep_version:
  assumes "rl_inv mem r p" "p < length mem" "ch = mem ! p"
    "rq_state r \<in> {rl_host_http_09, rl_http_H, rl_http_HT, rl_http_HTT, rl_http_HTTP, rl_first_major_digit, rl_major_digit,
       rl_first_minor_digit, rl_minor_digit, rl_spaces_after_digit, rl_almost_done}"
  shows "move_ok mem p (rl_step mem r p ch)"
  using assms by (cases "rq_state r")
    (auto simp: rl_step_def rl_inv_def rl_case_defs same_path_def intro: path_known_cong)

lemma rl_step_keeps:
  "rl_inv mem r p \<Longrightarrow> p < length mem \<Longrightarrow> move_ok mem p (rl_step mem r p (mem ! p))"
  by (cases "rq_state r") (auto intro: keep_before keep_host keep_path keep_after keep_version)

lemma rl_loop_path:
  "rl_inv mem r p \<Longrightarrow> rl_loop mem pos st r p = (Rc NGX_OK, r', p') \<Longrightarrow> path_known mem r'"
proof (induction mem pos st r p rule: rl_loop.induct)
  case (1 mem pos st r p)
  have keeps: "p < length mem \<Longrightarrow> move_ok mem p (rl_step mem r p (mem ! p))"
    using rl_step_keeps 1 by blast
  have "path_known mem r'" if "p < length mem" "rl_step mem r p (mem ! p) = Rl_done r1" for r1
  proof -
    have "rl_finish r1 p = (Rc NGX_OK, r', p')" "path_known mem r1"
      using 1 that keeps by (simp_all add: rl_loop.simps [of mem pos st r p])
    then show ?thesis
      by (auto simp: rl_finish_def Let_def same_path_def intro: path_known_cong split: if_splits)
  qed
  moreover have "rl_loop mem pos st r p \<noteq> (Rc NGX_OK, r', p')" if "rl_step mem r p (mem ! p) = Rl_fail rc r1" "p < length mem" for rc r1
    using that rl_step_fail [OF that(1)] by (simp add: rl_loop.simps [of mem pos st r p])
  ultimately show ?case
    using 1 keeps by (auto simp: rl_loop.simps [of mem pos st r p] split: if_splits rl_move.splits)
qed

lemma span_slash: "i < j \<Longrightarrow> j \<le> length mem \<Longrightarrow> mem ! i = 0x2f \<Longrightarrow> span mem i j = 0x2f # span mem (i + 1) j"
  by (simp add: span_def Cons_nth_drop_Suc [symmetric] take_Cons' flip: diff_Suc_1)

lemma pu_keeps_ends:
  "pu_loop r p src = Some r' \<Longrightarrow> rq_uri_start r' = rq_uri_start r \<and> rq_uri_end r' = rq_uri_end r"
proof (induction src arbitrary: r p)
  case (Cons ch src)
  then show ?case
    by (cases "rq_state r") (fastforce simp: pu_after_slash_def pu_check_uri_def pu_uri_def split: if_splits)+
qed simp

lemma known_path:
  assumes "path_known mem r"
  obtains i j where "rq_uri_start r = Some i" "rq_uri_end r = Some j" "i < j" "j \<le> length mem" "mem ! i = 0x2f"
    "\<And>merge. ngx_http_process_request_uri merge True mem r = slow_uri merge (span mem i j) (rq_space_in_uri r)"
proof -
  obtain i j q where q: "rq_uri_start r = Some i" "rq_uri_end r = Some j" "pu_at mem i j q" "same_path r q"
    using assms by (auto simp: path_known_def)
  then have ij: "i < j" "j \<le> length mem" "mem ! i = 0x2f" by (auto simp: pu_at_def)
  then have span: "span mem i j = 0x2f # span mem (i + 1) j"
    by (simp add: span_def Cons_nth_drop_Suc [symmetric] take_Cons' flip: diff_Suc_1)
  have "ngx_http_process_request_uri merge True mem r = slow_uri merge (span mem i j) (rq_space_in_uri r)" for merge
  proof (cases "rq_complex_uri r \<or> rq_quoted_uri r")
    case True
    then show ?thesis using process_slow [OF q(1,2)] ij by simp
  next
    case False
    then show ?thesis
      unfolding span
      using process_simple [of "rl_init\<lparr>rq_state := rl_after_slash_in_uri\<rparr>" i "span mem (i + 1) j" q r j mem merge] q ij span
      by (auto simp: pu_at_def same_path_def rl_init_def)
  qed
  then show ?thesis using that q(1,2) ij by blast
qed

section \<open>Claims\<close>

definition processed_uri :: "uri_error + uri_fields \<Rightarrow> bytes option" where
  "processed_uri res = (case res of Inl e \<Rightarrow> None | Inr f \<Rightarrow> Some (pr_uri f))"

lemma slow_uri_resolve:
  "processed_uri (slow_uri merge (0x2f # rest) space) =
   (case unquote rest of None \<Rightarrow> None | Some p \<Rightarrow> resolve merge [] (split_slash p))"
proof -
  have "processed_uri (slow_uri merge (0x2f # rest) space) = map_option res_uri (ngx_http_parse_complex_uri merge (0x2f # rest))"
    by (simp add: processed_uri_def slow_uri_def split: option.split)
  then show ?thesis using complex_uri_resolve [of merge rest] by simp
qed

lemma parsed_path:
  assumes "ngx_http_parse_request_line mem rl_init 0 = (Rc NGX_OK, r, pos)"
  shows "path_known mem r"
proof -
  have "rl_inv mem rl_init 0" by (simp add: rl_inv_def rl_init_def no_path_def)
  then show ?thesis
    using assms rl_loop_path by (auto simp: ngx_http_parse_request_line_def)
qed

lemma request_path:
  assumes "path_request src = Some r" "src \<noteq> []"
  shows "ngx_http_process_request_uri merge True src r = slow_uri merge src (rq_space_in_uri r)"
proof -
  obtain rest where src: "src = 0x2f # rest"
    using assms by (cases src) (auto simp: path_request_def ngx_http_parse_uri_def split: if_splits)
  define r0 where "r0 = rl_init\<lparr>rq_uri_start := Some 0, rq_uri_end := Some (length src), rq_state := rl_after_slash_in_uri\<rparr>"
  have run: "pu_loop r0 (0 + 1) rest = Some r"
    using assms(1) by (simp add: path_request_def ngx_http_parse_uri_def src r0_def)
  have ends: "rq_uri_start r = Some 0" "rq_uri_end r = Some (length src)"
    using pu_keeps_ends [OF run] by (simp_all add: r0_def)
  show ?thesis
  proof (cases "rq_complex_uri r \<or> rq_quoted_uri r")
    case True
    then show ?thesis using process_slow [OF ends] by simp
  next
    case False
    then show ?thesis
      using process_simple [OF run _ _ _ _ _ ends, of src merge] span_whole [of "0x2f # rest"] by (simp add: src r0_def rl_init_def)
  qed
qed

text \<open>C23: the short cut of HTTP/1: whatever request line the parser accepts, the request that is made of
  it is the one that the normalisation of the path would give, also when the parser's flags say that
  the path needs none.\<close>

theorem request_uri_shortcut:
  assumes "ngx_http_parse_request_line mem rl_init 0 = (Rc NGX_OK, r, pos)"
  shows "\<exists>i j. rq_uri_start r = Some i \<and> rq_uri_end r = Some j \<and> i < j \<and> j \<le> length mem \<and>
    ngx_http_process_request_uri merge True mem r = slow_uri merge (span mem i j) (rq_space_in_uri r)"
  using known_path [OF parsed_path [OF assms]] by metis

theorem request_uri_shortcut_witness:
  "\<exists>r. ngx_http_parse_request_line (str ''GET /a?b HTTP/1.1'' @ [0x0d, 0x0a]) rl_init 0 = (Rc NGX_OK, r, 19) \<and>
     ngx_http_process_request_uri True True (str ''GET /a?b HTTP/1.1'' @ [0x0d, 0x0a]) r = slow_uri True (str ''/a?b'') False"
proof -
  define mem :: bytes where "mem = str ''GET /a?b HTTP/1.1'' @ [0x0d, 0x0a]"
  obtain r where r: "ngx_http_parse_request_line mem rl_init 0 = (Rc NGX_OK, r, 19)"
      "rq_uri_start r = Some 4" "rq_uri_end r = Some 8" "\<not> rq_space_in_uri r"
    by (simp add: mem_def str_def ngx_http_parse_request_line_def rl_loop.simps rl_step_def rl_case_defs rl_init_def
        is_letter_def is_usual_iff rl_finish_def method_code_def)
  then show ?thesis
    using request_uri_shortcut [OF r(1), of True] by (auto simp: span_def mem_def str_def intro!: exI [of _ r])
qed

text \<open>The same short cut of HTTP/2, whose path is a text of its own.\<close>

theorem path_request_shortcut:
  assumes "path_request src = Some r" "src \<noteq> []"
  shows "ngx_http_process_request_uri merge True src r = slow_uri merge src (rq_space_in_uri r)"
  using assms by (rule request_path)

theorem path_request_shortcut_witness:
  "\<exists>r. path_request (str ''/a.b?c'') = Some r \<and>
     ngx_http_process_request_uri True True (str ''/a.b?c'') r = slow_uri True (str ''/a.b?c'') False"
proof -
  obtain r where r: "path_request (str ''/a.b?c'') = Some r" "\<not> rq_space_in_uri r"
    by (simp add: path_request_def ngx_http_parse_uri_def str_def pu_after_slash_def pu_check_uri_def pu_uri_def is_usual_iff rl_init_def)
  then show ?thesis
    using path_request_shortcut [OF r(1), of True] by (auto simp: str_def)
qed

text \<open>C14: from the bytes of the request line to the path of the request: percent-decoding, then resolving
  the segments; the request is refused exactly when one of the two fails.\<close>

theorem request_line_to_path:
  assumes "ngx_http_parse_request_line mem rl_init 0 = (Rc NGX_OK, r, pos)"
  shows "\<exists>i j rest. rq_uri_start r = Some i \<and> rq_uri_end r = Some j \<and> span mem i j = 0x2f # rest \<and>
    processed_uri (ngx_http_process_request_uri merge True mem r) =
      (case unquote rest of None \<Rightarrow> None | Some p \<Rightarrow> resolve merge [] (split_slash p))"
proof -
  obtain i j where ij: "rq_uri_start r = Some i" "rq_uri_end r = Some j" "i < j" "j \<le> length mem" "mem ! i = 0x2f"
    "ngx_http_process_request_uri merge True mem r = slow_uri merge (span mem i j) (rq_space_in_uri r)"
    using known_path [OF parsed_path [OF assms]] by metis
  have "span mem i j = 0x2f # span mem (i + 1) j"
    using ij(3-5) by (rule span_slash)
  then show ?thesis
    using ij slow_uri_resolve by auto
qed

theorem request_line_to_path_witness:
  "\<exists>r. ngx_http_parse_request_line (str ''GET /a/%2E./b HTTP/1.1'' @ [0x0a]) rl_init 0 = (Rc NGX_OK, r, 23) \<and>
     processed_uri (ngx_http_process_request_uri True True (str ''GET /a/%2E./b HTTP/1.1'' @ [0x0a]) r) = Some (str ''/b'')"
proof -
  define mem :: bytes where "mem = str ''GET /a/%2E./b HTTP/1.1'' @ [0x0a]"
  obtain r where r: "ngx_http_parse_request_line mem rl_init 0 = (Rc NGX_OK, r, 23)"
      "rq_uri_start r = Some 4" "rq_uri_end r = Some 13"
    by (simp add: mem_def str_def ngx_http_parse_request_line_def rl_loop.simps rl_step_def rl_case_defs rl_init_def
        is_letter_def is_usual_iff rl_finish_def method_code_def)
  then show ?thesis
    using request_line_to_path [OF r(1), of True]
    by (auto simp: span_def mem_def str_def hex_byte_def push_def pop_def intro!: exI [of _ r])
qed

end
