(* ===== verification/HttpRequestLineSpec.thy ===== *)
theory HttpRequestLineSpec
  imports HttpRequestLine
begin

text \<open>
  What the parser of request lines (\<open>HttpRequestLine\<close>) promises: a line may come in any number of
  pieces, and a line made by the book is read back into its parts.
\<close>

section \<open>Lines in pieces\<close>

text \<open>
  The outcome of a call: the code and, when the line was accepted or the buffer ran out, the request and
  the position; after an error the request is closed and neither matters.
\<close>

definition outcome :: "http_rc \<times> rl \<times> nat \<Rightarrow> http_rc \<times> (rl \<times> nat) option" where
  "outcome res = (case res of (rc, r, p) \<Rightarrow> (rc, if rc = Rc NGX_OK \<or> rc = Rc NGX_AGAIN then Some (r, p) else None))"

lemma rl_step_more: "p \<le> length mem \<Longrightarrow> rl_step (mem @ more_mem) r p ch = rl_step mem r p ch"
  by (cases "rq_state r") (simp_all add: rl_step_def rl_case_method_def Let_def)

lemma rl_step_fail_code: "rl_step mem r p ch = Rl_fail rc r' \<Longrightarrow> rc \<noteq> Rc NGX_OK \<and> rc \<noteq> Rc NGX_AGAIN"
  by (cases "rq_state r") (auto simp: rl_step_def rl_case_defs split: if_splits)

lemma rl_finish_code: "fst (rl_finish r p) \<noteq> Rc NGX_AGAIN"
  by (simp add: rl_finish_def Let_def)

lemma rl_loop_saved: "outcome (rl_loop mem pos st r p) = outcome (rl_loop mem pos' st' r p)"
proof (induction mem pos st r p rule: rl_loop.induct)
  case (1 mem pos st r p)
  then show ?case
    by (auto simp: rl_loop.simps [of mem pos st r p] rl_loop.simps [of mem pos' st' r p] outcome_def
        dest: rl_step_fail_code split: rl_move.split)
qed

lemma rl_loop_more:
  "rl_loop (mem @ more_mem) pos st r p =
   (case rl_loop mem pos st r p of (rc, r', p') \<Rightarrow>
      if rc = Rc NGX_AGAIN then rl_loop (mem @ more_mem) pos st r' p' else (rc, r', p'))"
proof (induction mem pos st r p rule: rl_loop.induct)
  case (1 mem pos st r p)
  show ?case
  proof (cases "p < length mem")
    case True
    then have step: "rl_step (mem @ more_mem) r p ((mem @ more_mem) ! p) = rl_step mem r p (mem ! p)"
      by (simp add: rl_step_more nth_append)
    show ?thesis
    proof (cases "rl_step mem r p (mem ! p)")
      case (Rl_next r1)
      then show ?thesis using 1(1) [OF True] True step by (simp add: rl_loop.simps [of _ pos st r p])
    next
      case (Rl_again r1)
      then show ?thesis using 1(2) [OF True] True step by (simp add: rl_loop.simps [of _ pos st r p])
    next
      case (Rl_done r1)
      then show ?thesis
        using True step rl_finish_code [of r1 p] by (auto simp: rl_loop.simps [of _ pos st r p] split: prod.split)
    next
      case (Rl_fail rc r1)
      then show ?thesis
        using True step rl_step_fail_code [OF Rl_fail] by (simp add: rl_loop.simps [of _ pos st r p])
    qed
  next
    case False
    then show ?thesis by (simp add: rl_loop.simps [of mem pos st r p])
  qed
qed

text \<open>C24: resuming the parser where the buffer ran out gives what parsing the whole line at once gives,
  however the line is cut into pieces.\<close>

theorem request_line_pieces:
  "outcome (ngx_http_parse_request_line (mem @ more_mem) r pos) =
   (case ngx_http_parse_request_line mem r pos of (rc, r', pos') \<Rightarrow>
      if rc = Rc NGX_AGAIN then outcome (ngx_http_parse_request_line (mem @ more_mem) r' pos')
      else outcome (rc, r', pos'))"
proof -
  obtain rc r' p' where first: "rl_loop mem pos (rq_state r) r pos = (rc, r', p')"
    by (cases "rl_loop mem pos (rq_state r) r pos")
  then show ?thesis
    using rl_loop_saved [of "mem @ more_mem" pos "rq_state r" r' p' p' "rq_state r'"]
      rl_loop_more [of mem more_mem pos "rq_state r" r pos]
    by (simp add: ngx_http_parse_request_line_def)
qed

section \<open>Lines by the book\<close>

text \<open>
  The line \<open>METHOD SP target SP HTTP/1.d CR LF\<close>, where the target starts with a slash and has no spaces
  or control characters that end it.
\<close>

definition method_char :: "u8 \<Rightarrow> bool" where
  "method_char ch \<longleftrightarrow> ch \<ge> 0x41 \<and> ch \<le> 0x5a \<or> ch = 0x5f \<or> ch = 0x2d"

definition target_char :: "u8 \<Rightarrow> bool" where
  "target_char ch \<longleftrightarrow> ch \<notin> {0, 0x0a, 0x0d, 0x20}"

definition request_line_text :: "bytes \<Rightarrow> bytes \<Rightarrow> u8 \<Rightarrow> bytes" where
  "request_line_text m target d = m @ [0x20] @ target @ [0x20] @ str ''HTTP/1.'' @ [d, 0x0d, 0x0a]"

text \<open>The states that go on with the next character, over a text.\<close>

fun rl_steps :: "bytes \<Rightarrow> rl \<Rightarrow> nat \<Rightarrow> bytes \<Rightarrow> rl option" where
  "rl_steps mem r p [] = Some r"
| "rl_steps mem r p (ch # w) = (case rl_step mem r p ch of Rl_next r' \<Rightarrow> rl_steps mem r' (p + 1) w | _ \<Rightarrow> None)"

lemma loop_steps:
  "rl_steps mem r (length pre) w = Some r' \<Longrightarrow> mem = pre @ w @ post \<Longrightarrow>
   rl_loop mem pos st r (length pre) = rl_loop mem pos st r' (length (pre @ w))"
proof (induction w arbitrary: r pre)
  case (Cons ch w)
  then obtain r1 where "rl_step mem r (length pre) ch = Rl_next r1" "rl_steps mem r1 (length (pre @ [ch])) w = Some r'"
    by (auto split: rl_move.splits)
  then show ?case
    using Cons.IH [of r1 "pre @ [ch]"] Cons.prems(2) by (subst rl_loop.simps) simp
qed simp

lemma steps_method:
  "list_all method_char m \<Longrightarrow> rq_state r = rl_method \<Longrightarrow> rl_steps mem r p m = Some r"
  by (induction m arbitrary: p) (auto simp: rl_step_def rl_case_method_def method_char_def)

lemma loop_method:
  assumes "list_all method_char m" "m \<noteq> []" "rq_state r = rl_start" "mem = m @ [0x20] @ post"
  shows "rl_loop mem pos st r 0 =
    rl_loop mem pos st (r\<lparr>rq_start := Some 0, rq_method_end := Some (length m - 1), rq_method := method_code m (rq_method r),
      rq_state := rl_spaces_before_uri\<rparr>) (length m + 1)"
proof -
  obtain ch m' where m: "m = ch # m'" using assms(2) by (cases m) auto
  define r1 where "r1 = r\<lparr>rq_start := Some 0, rq_state := rl_method\<rparr>"
  have "rl_step mem r 0 ch = Rl_next r1"
    using assms(1,3) m by (auto simp: rl_step_def rl_case_start_def method_char_def r1_def Let_def)
  then have "rl_steps mem r (length []) m = Some r1"
    using steps_method [of m' r1 mem 1] assms(1) m by (simp add: r1_def)
  then have "rl_loop mem pos st r 0 = rl_loop mem pos st r1 (length m)"
    using loop_steps [of mem r "[]" m r1 "[0x20] @ post" pos st] assms(4) by simp
  also have "\<dots> = rl_loop mem pos st (r\<lparr>rq_start := Some 0, rq_method_end := Some (length m - 1),
      rq_method := method_code m (rq_method r), rq_state := rl_spaces_before_uri\<rparr>) (length m + 1)"
    by (subst rl_loop.simps) (simp add: r1_def rl_step_def rl_case_method_def assms(4) nth_append)
  finally show ?thesis .
qed

lemma target_step:
  assumes "target_char ch" "rq_state r \<in> {rl_after_slash_in_uri, rl_check_uri, rl_uri}"
  shows "\<exists>r1. rl_step mem r p ch = Rl_next r1 \<and>
    rq_state r1 \<in> {rl_after_slash_in_uri, rl_check_uri, rl_uri} \<and> rq_uri_start r1 = rq_uri_start r \<and>
    rq_method r1 = rq_method r \<and> rq_end r1 = rq_end r \<and> rq_space_in_uri r1 = rq_space_in_uri r"
  using assms
  by (cases "rl_step mem r p ch")
    (auto simp: rl_step_def rl_case_defs target_char_def split: if_splits)

lemma loop_target:
  assumes "list_all target_char t" "rq_state r \<in> {rl_after_slash_in_uri, rl_check_uri, rl_uri}" "mem = pre @ t @ 0x20 # post"
  shows "\<exists>r'. rl_loop mem pos st r (length pre) = rl_loop mem pos st r' (length (pre @ t) + 1) \<and>
    rq_state r' \<in> {rl_check_uri_http_09, rl_http_09} \<and> rq_uri_start r' = rq_uri_start r \<and>
    rq_uri_end r' = Some (length (pre @ t)) \<and> rq_method r' = rq_method r \<and> rq_end r' = rq_end r \<and>
    rq_space_in_uri r' = rq_space_in_uri r"
  using assms
proof (induction t arbitrary: r pre)
  case Nil
  then have "\<exists>st'. rl_step mem r (length pre) 0x20 = Rl_next (r\<lparr>rq_uri_end := Some (length pre), rq_state := st'\<rparr>) \<and>
      st' \<in> {rl_check_uri_http_09, rl_http_09}"
    by (auto simp: rl_step_def rl_case_defs is_usual_iff)
  then show ?case
    using Nil by (subst rl_loop.simps) auto
next
  case (Cons ch t)
  obtain r1 where step: "rl_step mem r (length pre) ch = Rl_next r1"
      "rq_state r1 \<in> {rl_after_slash_in_uri, rl_check_uri, rl_uri}" "rq_uri_start r1 = rq_uri_start r"
      "rq_method r1 = rq_method r" "rq_end r1 = rq_end r" "rq_space_in_uri r1 = rq_space_in_uri r"
    using target_step [of ch r mem "length pre"] Cons.prems by auto
  have "rl_loop mem pos st r (length pre) = rl_loop mem pos st r1 (length (pre @ [ch]))"
    using Cons.prems step(1) by (subst rl_loop.simps) simp
  then show ?case
    using Cons.IH [of r1 "pre @ [ch]"] Cons.prems step by simp
qed

lemma loop_version:
  assumes "rq_state r \<in> {rl_check_uri_http_09, rl_http_09}" "is_digit d" "rq_end r = None"
    "mem = pre @ str ''HTTP/1.'' @ [d, 0x0d, 0x0a]"
  shows "\<exists>r'. rl_loop mem pos st r (length pre) = rl_finish r' (length mem - 1) \<and>
    rq_uri_start r' = rq_uri_start r \<and> rq_uri_end r' = rq_uri_end r \<and> rq_method r' = rq_method r \<and>
    rq_space_in_uri r' = rq_space_in_uri r \<and> rq_major r' = 1 \<and> rq_minor r' = unat (d - 0x30) \<and>
    rq_end r' = Some (length mem - 2)"
proof -
  define w where "w = str ''HTTP/1.'' @ [d, 0x0d]"
  define r1 where "r1 = r\<lparr>rq_protocol := Some (length pre), rq_major := 1, rq_minor := unat (d - 0x30), rq_state := rl_almost_done\<rparr>"
  have "rl_steps mem r (length pre) w = Some r1"
    using assms(1,2) by (auto simp: w_def str_def rl_step_def rl_case_defs r1_def)
  moreover have mem: "mem = pre @ w @ [0x0a]" by (simp add: assms(4) w_def)
  ultimately have "rl_loop mem pos st r (length pre) = rl_loop mem pos st r1 (length mem - 1)"
    by (subst loop_steps) (auto intro: arg_cong)
  also have "\<dots> = rl_finish (r1\<lparr>rq_end := Some (length mem - 2)\<rparr>) (length mem - 1)"
    by (subst rl_loop.simps) (simp add: mem r1_def rl_step_def rl_case_defs nth_append)
  finally show ?thesis by (auto simp: r1_def)
qed

text \<open>C25: a well-formed request line of HTTP/1 is accepted as a whole and split into the method, the target
  and the version; a method that the server does not know is accepted as \<open>NGX_HTTP_UNKNOWN\<close>.\<close>

theorem request_line_by_the_book:
  assumes "m \<noteq> []" "list_all method_char m" "list_all target_char target" "target = 0x2f # rest" "is_digit d"
  shows "\<exists>r i j. ngx_http_parse_request_line (request_line_text m target d) rl_init 0 =
      (Rc NGX_OK, r, length (request_line_text m target d)) \<and>
    rq_method r = method_code m NGX_HTTP_UNKNOWN \<and>
    rq_uri_start r = Some i \<and> rq_uri_end r = Some j \<and> span (request_line_text m target d) i j = target \<and>
    \<not> rq_space_in_uri r \<and> rq_version r = 1000 + unat (d - 0x30)"
proof -
  define mem where "mem = request_line_text m target d"
  define version where "version = str ''HTTP/1.'' @ [d, 0x0d, 0x0a]"
  have mem: "mem = m @ [0x20] @ target @ 0x20 # version"
    by (simp add: mem_def request_line_text_def version_def)
  define r1 where "r1 = rl_init\<lparr>rq_start := Some 0, rq_method_end := Some (length m - 1),
      rq_method := method_code m NGX_HTTP_UNKNOWN, rq_state := rl_spaces_before_uri\<rparr>"
  define r2 where "r2 = r1\<lparr>rq_uri_start := Some (length m + 1), rq_state := rl_after_slash_in_uri\<rparr>"
  define pre where "pre = m @ [0x20, 0x2f]"
  have "rl_loop mem 0 rl_start rl_init 0 = rl_loop mem 0 rl_start r1 (length m + 1)"
    using loop_method [OF assms(2,1) _ mem, of rl_init 0 rl_start] by (simp add: r1_def rl_init_def)
  also have "\<dots> = rl_loop mem 0 rl_start r2 (length pre)"
    by (subst rl_loop.simps)
      (simp add: mem assms(4) r1_def r2_def pre_def rl_step_def rl_case_spaces_before_uri_def nth_append)
  finally have start: "rl_loop mem 0 rl_start rl_init 0 = rl_loop mem 0 rl_start r2 (length pre)" .
  obtain r3 where r3: "rl_loop mem 0 rl_start r2 (length pre) = rl_loop mem 0 rl_start r3 (length (pre @ rest @ [0x20]))"
    "rq_state r3 \<in> {rl_check_uri_http_09, rl_http_09}" "rq_uri_start r3 = Some (length m + 1)"
    "rq_uri_end r3 = Some (length m + 1 + length target)" "rq_method r3 = method_code m NGX_HTTP_UNKNOWN" "rq_end r3 = None"
    "\<not> rq_space_in_uri r3"
    using loop_target [of rest r2 mem pre version 0 rl_start] assms(3,4) mem
    by (auto simp: r2_def r1_def pre_def rl_init_def)
  obtain r4 where r4: "rl_loop mem 0 rl_start r3 (length (pre @ rest @ [0x20])) = rl_finish r4 (length mem - 1)"
    "rq_uri_start r4 = rq_uri_start r3 \<and> rq_uri_end r4 = rq_uri_end r3 \<and> rq_method r4 = rq_method r3"
    "rq_space_in_uri r4 = rq_space_in_uri r3" "rq_major r4 = 1" "rq_minor r4 = unat (d - 0x30)" "rq_end r4 \<noteq> None"
    using loop_version [OF r3(2) assms(5) r3(6), of mem "pre @ rest @ [0x20]" 0 rl_start] mem assms(4)
    by (auto simp: pre_def version_def)
  define r where "r = r4\<lparr>rq_version := 1000 + unat (d - 0x30), rq_state := rl_start\<rparr>"
  have "rl_finish r4 (length mem - 1) = (Rc NGX_OK, r, length mem)"
    using r4(4-6) mem by (auto simp: rl_finish_def r_def)
  then have "ngx_http_parse_request_line mem rl_init 0 = (Rc NGX_OK, r, length mem)"
    using start r3(1) r4(1) by (simp add: ngx_http_parse_request_line_def rl_init_def)
  moreover have "span mem (length m + 1) (length m + 1 + length target) = target"
    by (simp add: span_def mem)
  ultimately show ?thesis
    unfolding mem_def [symmetric] using r3(3-7) r4(2,3) by (auto simp: r_def)
qed

theorem request_line_by_the_book_witness:
  "\<exists>r i j. ngx_http_parse_request_line (str ''POST /a%20b?c HTTP/1.1'' @ [0x0d, 0x0a]) rl_init 0 = (Rc NGX_OK, r, 24) \<and>
     rq_method r = NGX_HTTP_POST \<and> rq_uri_start r = Some i \<and> rq_uri_end r = Some j \<and>
     span (str ''POST /a%20b?c HTTP/1.1'' @ [0x0d, 0x0a]) i j = str ''/a%20b?c'' \<and> rq_version r = 1001"
proof -
  have line: "request_line_text (str ''POST'') (str ''/a%20b?c'') 0x31 = str ''POST /a%20b?c HTTP/1.1'' @ [0x0d, 0x0a]"
    by (simp add: request_line_text_def str_def)
  have code: "method_code (str ''POST'') NGX_HTTP_UNKNOWN = NGX_HTTP_POST"
    by (simp add: method_code_def str_def)
  have "length (str ''POST /a%20b?c HTTP/1.1'' @ [0x0d, 0x0a]) = 24"
    by (simp add: str_def)
  then show ?thesis
    using request_line_by_the_book [where m = "str ''POST''" and target = "str ''/a%20b?c''" and rest = "str ''a%20b?c''" and d = "0x31"] unfolding line code
    by (auto simp: str_def method_char_def target_char_def is_digit_def)
qed

end
