(* ===== verification/RoundRobin.thy ===== *)
theory RoundRobin
  imports Sockaddr
begin

text \<open>
  The weighted round-robin balancer of \<^verbatim>\<open>src/http/ngx_http_upstream_round_robin.c\<close>: the lists of peers made from
  the configuration or from resolved addresses, the choice of a peer, and the release of it.  Every
  function that touches the shared lists runs under their lock, so it is one step of the system of
  requests.  (The TLS session functions and the shared memory zone are left out.)
\<close>

section \<open>State\<close>

record rr_peer =
  pe_sockaddr :: sockaddr
  pe_name :: bytes
  pe_server :: bytes
  pe_current_weight :: int
  pe_effective_weight :: int
  pe_weight :: int
  pe_conns :: int
  pe_max_conns :: int
  pe_fails :: nat
  pe_accessed :: int
  pe_checked :: int
  pe_max_fails :: nat
  pe_fail_timeout :: int
  pe_down :: bool

text \<open>The linked list \<open>peer\<close> is a list; \<open>next\<close>, the backup peers, is in \<open>upstream\<close>.\<close>

record rr_peers =
  ps_number :: nat
  ps_total_weight :: int
  ps_single :: bool
  ps_weighted :: bool
  ps_peer :: "rr_peer list"

record upstream =
  us_peers :: rr_peers
  us_next :: "rr_peers option"

text \<open>
  The data of a request: which of the two lists \<open>peers\<close> points to, the index of the \<open>current\<close> peer
  in it, and the bit map of the peers it tried.
\<close>

record rr_data =
  rd_backup :: bool
  rd_current :: "nat option"
  rd_tried :: "u64 list"

text \<open>A \<open>server\<close> of the configuration with its resolved addresses.\<close>

record rr_server =
  sv_name :: bytes
  sv_addrs :: "(sockaddr \<times> bytes) list"
  sv_weight :: nat
  sv_max_conns :: nat
  sv_max_fails :: nat
  sv_fail_timeout :: nat
  sv_down :: bool
  sv_backup :: bool

section \<open>Making the lists\<close>

definition peer_of :: "rr_server \<Rightarrow> sockaddr \<times> bytes \<Rightarrow> rr_peer" where
  "peer_of server a =
     \<lparr>pe_sockaddr = fst a, pe_name = snd a, pe_server = sv_name server,
      pe_current_weight = 0, pe_effective_weight = int (sv_weight server), pe_weight = int (sv_weight server),
      pe_conns = 0, pe_max_conns = int (sv_max_conns server), pe_fails = 0, pe_accessed = 0, pe_checked = 0,
      pe_max_fails = sv_max_fails server, pe_fail_timeout = int (sv_fail_timeout server), pe_down = sv_down server\<rparr>"

text \<open>The loop that counts addresses and weights, and the loop that fills the array.\<close>

fun count_peers :: "bool \<Rightarrow> rr_server list \<Rightarrow> nat \<Rightarrow> nat \<Rightarrow> nat \<times> nat" where
  "count_peers backup [] n w = (n, w)"
| "count_peers backup (server # servers) n w =
     (if sv_backup server \<noteq> backup then count_peers backup servers n w
      else count_peers backup servers (n + length (sv_addrs server))
             (w + length (sv_addrs server) * sv_weight server))"

fun fill_peers :: "bool \<Rightarrow> rr_server list \<Rightarrow> rr_peer list" where
  "fill_peers backup [] = []"
| "fill_peers backup (server # servers) =
     (if sv_backup server \<noteq> backup then fill_peers backup servers
      else map (peer_of server) (sv_addrs server) @ fill_peers backup servers)"

text \<open>A peer of an upstream that is not configured but named by the proxied address.\<close>

definition implicit_peer :: "sockaddr \<Rightarrow> bytes \<Rightarrow> rr_peer" where
  "implicit_peer sa name =
     \<lparr>pe_sockaddr = sa, pe_name = name, pe_server = [], pe_current_weight = 0, pe_effective_weight = 1, pe_weight = 1,
      pe_conns = 0, pe_max_conns = 0, pe_fails = 0, pe_accessed = 0, pe_checked = 0,
      pe_max_fails = 1, pe_fail_timeout = 10, pe_down = False\<rparr>"

text \<open>
  \<open>servers\<close> is \<open>None\<close> for an implicit upstream; its name is resolved by \<open>ngx_inet_resolve_host\<close>, which is
  outside of the model and gives \<open>resolved\<close>.  \<open>ok i\<close> tells whether the \<open>i\<close>-th allocation succeeds.
\<close>

definition ngx_http_upstream_init_round_robin ::
    "(nat \<Rightarrow> bool) \<Rightarrow> rr_server list option \<Rightarrow> nat \<Rightarrow> (sockaddr \<times> bytes) list option \<Rightarrow> upstream option" where
  "ngx_http_upstream_init_round_robin ok us_servers port resolved =
     (case us_servers of
        Some servers \<Rightarrow>
          (case count_peers False servers 0 0 of (n, w) \<Rightarrow>
             if n = 0 then None
             else if \<not> ok 0 \<or> \<not> ok 1 then None
             else
               let peers = \<lparr>ps_number = n, ps_total_weight = int w, ps_single = (n = 1), ps_weighted = (w \<noteq> n),
                            ps_peer = fill_peers False servers\<rparr>
               in case count_peers True servers 0 0 of (n, w) \<Rightarrow>
                    if n = 0 then Some \<lparr>us_peers = peers, us_next = None\<rparr>
                    else if \<not> ok 2 \<or> \<not> ok 3 then None
                    else Some \<lparr>us_peers = peers\<lparr>ps_single := False\<rparr>,
                               us_next = Some \<lparr>ps_number = n, ps_total_weight = int w, ps_single = False,
                                 ps_weighted = (w \<noteq> n), ps_peer = fill_peers True servers\<rparr>\<rparr>)
      | None \<Rightarrow>
          if port = 0 then None
          else case resolved of
                 None \<Rightarrow> None
               | Some addrs \<Rightarrow>
                   if \<not> ok 0 \<or> \<not> ok 1 then None
                   else Some \<lparr>us_peers = \<lparr>ps_number = length addrs, ps_total_weight = int (length addrs),
                                ps_single = (length addrs = 1), ps_weighted = False,
                                ps_peer = map (\<lambda>a. implicit_peer (fst a) (snd a)) addrs\<rparr>, us_next = None\<rparr>)"

text \<open>\<open>ngx_http_upstream_tries\<close>.\<close>

definition ngx_http_upstream_tries :: "upstream \<Rightarrow> nat" where
  "ngx_http_upstream_tries us =
     ps_number (us_peers us) + (case us_next us of Some backup \<Rightarrow> ps_number backup | None \<Rightarrow> 0)"

definition tried_words :: "nat \<Rightarrow> u64 list" where
  "tried_words n = (if n \<le> 64 then [0] else replicate ((n + 63) div 64) 0)"

text \<open>The data of a new request, and its number of tries, when the allocations succeed.\<close>

definition ngx_http_upstream_init_round_robin_peer :: "upstream \<Rightarrow> rr_data \<times> nat" where
  "ngx_http_upstream_init_round_robin_peer us =
     (let n = ps_number (us_peers us);
          n = (case us_next us of Some backup \<Rightarrow> if ps_number backup > n then ps_number backup else n | None \<Rightarrow> n)
      in (\<lparr>rd_backup = False, rd_current = None, rd_tried = tried_words n\<rparr>, ngx_http_upstream_tries us))"

text \<open>
  The peers of a name that was resolved for one request.  \<open>single\<close> is the address of \<open>ur->sockaddr\<close> with its
  name (\<open>ur->name\<close> or, without one, \<open>ur->host\<close>); otherwise the addresses get the port and their text as a name.
\<close>

definition ngx_http_upstream_create_round_robin_peer ::
    "(sockaddr \<times> bytes) option \<Rightarrow> nat \<Rightarrow> sockaddr list \<Rightarrow> u16 \<Rightarrow> upstream \<times> rr_data \<times> nat" where
  "ngx_http_upstream_create_round_robin_peer single naddrs addrs port =
     (let peers = \<lparr>ps_number = naddrs, ps_total_weight = 0, ps_single = (naddrs = 1), ps_weighted = False,
            ps_peer = (case single of
                Some (sa, name) \<Rightarrow> [implicit_peer sa name]
              | None \<Rightarrow> map (\<lambda>sa. let sa = ngx_inet_set_port sa port
                                 in implicit_peer sa (ngx_sock_ntop sa NGX_SOCKADDR_STRLEN True)) (take naddrs addrs))\<rparr>;
          us = \<lparr>us_peers = peers, us_next = None\<rparr>
      in (us, \<lparr>rd_backup = False, rd_current = None, rd_tried = tried_words naddrs\<rparr>, ngx_http_upstream_tries us))"

section \<open>Choosing a peer\<close>

definition is_tried :: "u64 list \<Rightarrow> nat \<Rightarrow> bool" where
  "is_tried tried i \<longleftrightarrow> tried ! (i div 64) AND push_bit (i mod 64) 1 \<noteq> 0"

definition set_tried :: "u64 list \<Rightarrow> nat \<Rightarrow> u64 list" where
  "set_tried tried i = tried[i div 64 := tried ! (i div 64) OR push_bit (i mod 64) 1]"

text \<open>The four conditions under which the loop passes over a peer.\<close>

definition peer_skipped :: "int \<Rightarrow> u64 list \<Rightarrow> nat \<Rightarrow> rr_peer \<Rightarrow> bool" where
  "peer_skipped now tried i peer \<longleftrightarrow>
     is_tried tried i \<or>
     pe_down peer \<or>
     (pe_max_fails peer \<noteq> 0 \<and> pe_fails peer \<ge> pe_max_fails peer \<and> now - pe_checked peer \<le> pe_fail_timeout peer) \<or>
     (pe_max_conns peer \<noteq> 0 \<and> pe_conns peer \<ge> pe_max_conns peer)"

text \<open>
  The loop from the \<open>i\<close>-th peer on: the updated peers, the best with its index and current weight, and
  the total.
\<close>

fun get_peer_loop ::
    "int \<Rightarrow> u64 list \<Rightarrow> nat \<Rightarrow> rr_peer list \<Rightarrow> (nat \<times> int) option \<Rightarrow> int \<Rightarrow> rr_peer list \<times> (nat \<times> int) option \<times> int" where
  "get_peer_loop now tried i [] best tot = ([], best, tot)"
| "get_peer_loop now tried i (peer # peers) best tot =
     (if peer_skipped now tried i peer
      then case get_peer_loop now tried (i + 1) peers best tot of (peers, best, tot) \<Rightarrow> (peer # peers, best, tot)
      else
        let peer1 = peer\<lparr>pe_current_weight := pe_current_weight peer + pe_effective_weight peer\<rparr>;
            peer2 = (if pe_effective_weight peer1 < pe_weight peer1
                     then peer1\<lparr>pe_effective_weight := pe_effective_weight peer1 + 1\<rparr> else peer1);
            best = (case best of
                      None \<Rightarrow> Some (i, pe_current_weight peer2)
                    | Some (p, cw) \<Rightarrow> if pe_current_weight peer2 > cw then Some (i, pe_current_weight peer2) else best)
        in case get_peer_loop now tried (i + 1) peers best (tot + pe_effective_weight peer) of
             (peers, best, tot) \<Rightarrow> (peer2 # peers, best, tot))"

definition ngx_http_upstream_get_peer :: "int \<Rightarrow> rr_peer list \<Rightarrow> u64 list \<Rightarrow> (nat \<times> rr_peer list \<times> u64 list) option" where
  "ngx_http_upstream_get_peer now peers tried =
     (case get_peer_loop now tried 0 peers None 0 of
        (peers, None, tot) \<Rightarrow> None
      | (peers, Some (p, cw), tot) \<Rightarrow>
          let best = peers ! p;
              best = best\<lparr>pe_current_weight := pe_current_weight best - tot\<rparr>;
              best = (if now - pe_checked best > pe_fail_timeout best then best\<lparr>pe_checked := now\<rparr> else best)
          in Some (p, peers[p := best], set_tried tried p))"

text \<open>One of the two lists: the peer, with its connection counted, or \<open>None\<close> for the label \<open>failed\<close>.\<close>

definition get_from :: "int \<Rightarrow> rr_peers \<Rightarrow> rr_data \<Rightarrow> (rr_peers \<times> rr_data) option" where
  "get_from now peers rrp =
     (let chosen =
        (if ps_single peers then
           (let peer = ps_peer peers ! 0
            in if pe_down peer then None
               else if pe_max_conns peer \<noteq> 0 \<and> pe_conns peer \<ge> pe_max_conns peer then None
               else Some (0, ps_peer peers, rd_tried rrp))
         else ngx_http_upstream_get_peer now (ps_peer peers) (rd_tried rrp))
      in case chosen of
           None \<Rightarrow> None
         | Some (p, list, tried) \<Rightarrow>
             Some (peers\<lparr>ps_peer := list[p := (list ! p)\<lparr>pe_conns := pe_conns (list ! p) + 1\<rparr>]\<rparr>,
                   rrp\<lparr>rd_current := Some p, rd_tried := tried\<rparr>))"

text \<open>Falling back to the other list clears the bits of its peers.\<close>

definition clear_tried :: "nat \<Rightarrow> u64 list \<Rightarrow> u64 list" where
  "clear_tried peers_number tried = (let n = (peers_number + 63) div 64 in replicate n 0 @ drop n tried)"

definition get_backup :: "int \<Rightarrow> upstream \<Rightarrow> rr_data \<Rightarrow> ngx_rc \<times> upstream \<times> rr_data" where
  "get_backup now us rrp =
     (case us_next us of
        None \<Rightarrow> (NGX_BUSY, us, rrp)
      | Some backup \<Rightarrow>
          (case get_from now backup rrp of
             Some (backup, rrp) \<Rightarrow> (NGX_OK, us\<lparr>us_next := Some backup\<rparr>, rrp)
           | None \<Rightarrow> (NGX_BUSY, us, rrp)))"

definition ngx_http_upstream_get_round_robin_peer :: "int \<Rightarrow> upstream \<Rightarrow> rr_data \<Rightarrow> ngx_rc \<times> upstream \<times> rr_data" where
  "ngx_http_upstream_get_round_robin_peer now us rrp =
     (if rd_backup rrp then get_backup now us rrp
      else case get_from now (us_peers us) rrp of
             Some (peers, rrp) \<Rightarrow> (NGX_OK, us\<lparr>us_peers := peers\<rparr>, rrp)
           | None \<Rightarrow>
               (case us_next us of
                  Some backup \<Rightarrow>
                    get_backup now us (rrp\<lparr>rd_backup := True, rd_tried := clear_tried (ps_number backup) (rd_tried rrp)\<rparr>)
                | None \<Rightarrow> (NGX_BUSY, us, rrp)))"

section \<open>Releasing a peer\<close>

text \<open>\<open>failed\<close> is \<open>state & NGX_PEER_FAILED\<close>; the result are the peers and \<open>pc->tries\<close>.\<close>

definition free_peer :: "int \<Rightarrow> bool \<Rightarrow> rr_peer \<Rightarrow> rr_peer" where
  "free_peer now failed peer =
     (if failed then
        (let peer = peer\<lparr>pe_fails := pe_fails peer + 1, pe_accessed := now, pe_checked := now\<rparr>;
             peer = (if pe_max_fails peer \<noteq> 0
                     then peer\<lparr>pe_effective_weight := pe_effective_weight peer - pe_weight peer div int (pe_max_fails peer)\<rparr>
                     else peer)
         in if pe_effective_weight peer < 0 then peer\<lparr>pe_effective_weight := 0\<rparr> else peer)
      else if pe_accessed peer < pe_checked peer then peer\<lparr>pe_fails := 0\<rparr> else peer)"

definition free_from :: "int \<Rightarrow> bool \<Rightarrow> rr_peers \<Rightarrow> nat \<Rightarrow> nat \<Rightarrow> rr_peers \<times> nat" where
  "free_from now failed peers i tries =
     (let peer = ps_peer peers ! i
      in if ps_single peers
         then (peers\<lparr>ps_peer := (ps_peer peers)[i := peer\<lparr>pe_conns := pe_conns peer - 1\<rparr>]\<rparr>, 0)
         else (let peer = free_peer now failed peer
               in (peers\<lparr>ps_peer := (ps_peer peers)[i := peer\<lparr>pe_conns := pe_conns peer - 1\<rparr>]\<rparr>, tries - 1)))"

definition ngx_http_upstream_free_round_robin_peer ::
    "int \<Rightarrow> bool \<Rightarrow> upstream \<Rightarrow> rr_data \<Rightarrow> nat \<Rightarrow> upstream \<times> nat" where
  "ngx_http_upstream_free_round_robin_peer now failed us rrp tries =
     (let i = the (rd_current rrp)
      in if rd_backup rrp
         then (case free_from now failed (the (us_next us)) i tries of (backup, tries) \<Rightarrow> (us\<lparr>us_next := Some backup\<rparr>, tries))
         else (case free_from now failed (us_peers us) i tries of (peers, tries) \<Rightarrow> (us\<lparr>us_peers := peers\<rparr>, tries)))"

section \<open>One round\<close>

text \<open>What a round may change of a peer: the two weights, the effective one within its bounds, and \<open>checked\<close>.\<close>

definition weight_ok :: "rr_peer \<Rightarrow> bool" where
  "weight_ok peer \<longleftrightarrow> 0 \<le> pe_effective_weight peer \<and> pe_effective_weight peer \<le> pe_weight peer"

definition same_peer :: "rr_peer \<Rightarrow> rr_peer \<Rightarrow> bool" where
  "same_peer p q \<longleftrightarrow> pe_weight q = pe_weight p \<and> pe_conns q = pe_conns p \<and> pe_max_conns q = pe_max_conns p \<and>
     pe_fails q = pe_fails p \<and> pe_max_fails q = pe_max_fails p \<and> pe_down q = pe_down p \<and>
     (weight_ok p \<longrightarrow> weight_ok q) \<and>
     (pe_effective_weight p = pe_weight p \<longrightarrow> pe_effective_weight q = pe_weight q)"

lemma same_peer_refl [simp]: "same_peer p p"
  by (simp add: same_peer_def)

lemma same_peer_trans: "same_peer p q \<Longrightarrow> same_peer q r \<Longrightarrow> same_peer p r"
  by (simp add: same_peer_def)

definition sum_weights :: "rr_peer list \<Rightarrow> int" where
  "sum_weights peers = sum_list (map pe_current_weight peers)"

lemma sum_weights_update:
  "i < length peers \<Longrightarrow>
   sum_weights (peers[i := p]) = sum_weights peers - pe_current_weight (peers ! i) + pe_current_weight p"
  by (induction peers arbitrary: i) (auto simp: sum_weights_def split: nat.split)

lemma loop_same:
  "get_peer_loop now tried i peers best tot = (peers', best', tot') \<Longrightarrow> list_all2 same_peer peers peers'"
proof (induction peers arbitrary: i best tot peers')
  case (Cons peer peers)
  then show ?case
    by (auto simp: Let_def same_peer_def weight_ok_def split: if_splits prod.splits)
qed simp

lemma loop_sum:
  "get_peer_loop now tried i peers best tot = (peers', best', tot') \<Longrightarrow>
   sum_weights peers' - tot' = sum_weights peers - tot"
proof (induction peers arbitrary: i best tot peers')
  case (Cons peer peers)
  show ?case
    using Cons.prems
    by (auto simp: Let_def sum_weights_def split: if_splits prod.splits dest!: Cons.IH)
qed simp

text \<open>
  A peer of the round: one that is not passed over gains its effective weight.
\<close>

definition round_weight :: "int \<Rightarrow> u64 list \<Rightarrow> nat \<Rightarrow> rr_peer \<Rightarrow> int" where
  "round_weight now tried i peer =
     (if peer_skipped now tried i peer then pe_current_weight peer
      else pe_current_weight peer + pe_effective_weight peer)"

lemma loop_weight:
  "get_peer_loop now tried i peers best tot = (peers', best', tot') \<Longrightarrow> j < length peers \<Longrightarrow>
   pe_current_weight (peers' ! j) = round_weight now tried (i + j) (peers ! j)"
proof (induction peers arbitrary: i j best tot peers')
  case (Cons peer peers)
  then show ?case
    by (cases j) (auto simp: Let_def round_weight_def split: if_splits prod.splits)
qed simp

lemma loop_best:
  assumes "get_peer_loop now tried i peers best tot = (peers', best', tot')"
  shows "(\<forall>p cw. best = Some (p, cw) \<longrightarrow> (\<exists>p' cw'. best' = Some (p', cw') \<and> cw \<le> cw')) \<and>
    (\<forall>j < length peers. \<not> peer_skipped now tried (i + j) (peers ! j) \<longrightarrow>
       (\<exists>p cw. best' = Some (p, cw) \<and> round_weight now tried (i + j) (peers ! j) \<le> cw)) \<and>
    (best' = best \<or> (\<exists>j < length peers. \<not> peer_skipped now tried (i + j) (peers ! j) \<and>
       best' = Some (i + j, round_weight now tried (i + j) (peers ! j))))"
  using assms
proof (induction peers arbitrary: i best tot peers')
  case (Cons peer peers)
  show ?case
  proof (cases "peer_skipped now tried i peer")
    case True
    then obtain qs where "get_peer_loop now tried (i + 1) peers best tot = (qs, best', tot')"
      using Cons.prems by (auto split: prod.splits)
    from Cons.IH [OF this] show ?thesis
      using True by (auto simp: less_Suc_eq_0_disj)
  next
    case False
    define cw where "cw = pe_current_weight peer + pe_effective_weight peer"
    define best1 where "best1 = (case best of None \<Rightarrow> Some (i, cw) | Some (p, c) \<Rightarrow> if cw > c then Some (i, cw) else best)"
    have cw: "round_weight now tried i peer = cw" using False by (simp add: round_weight_def cw_def)
    have "\<exists>p c. best1 = Some (p, c) \<and> cw \<le> c \<and> (\<forall>q d. best = Some (q, d) \<longrightarrow> d \<le> c)"
      by (auto simp: best1_def split: option.splits)
    moreover obtain qs where "get_peer_loop now tried (i + 1) peers best1 (tot + pe_effective_weight peer) = (qs, best', tot')"
      using Cons.prems False
      by (cases best) (auto simp: Let_def best1_def cw_def split: prod.splits if_splits)
    note IH = Cons.IH [OF this]
    moreover have "best1 = best \<or> best1 = Some (i, cw)"
      by (auto simp: best1_def split: option.splits)
    ultimately show ?thesis
      using False cw by (force simp: less_Suc_eq_0_disj)
  qed
qed simp

text \<open>Nothing is chosen exactly when every peer is passed over, and then nothing changes.\<close>

lemma get_peer_None_iff:
  "ngx_http_upstream_get_peer now peers tried = None \<longleftrightarrow> (\<forall>i < length peers. peer_skipped now tried i (peers ! i))"
  using loop_best [of now tried 0 peers None 0]
  by (fastforce simp: ngx_http_upstream_get_peer_def Let_def split: prod.splits option.splits)

lemma get_peer_Some:
  assumes "ngx_http_upstream_get_peer now peers tried = Some (p, peers', tried')"
  shows "p < length peers \<and> \<not> peer_skipped now tried p (peers ! p) \<and> tried' = set_tried tried p \<and>
    list_all2 same_peer peers peers' \<and> sum_weights peers' = sum_weights peers \<and>
    (\<exists>tot. (\<forall>j < length peers. pe_current_weight (peers' ! j) =
        round_weight now tried j (peers ! j) - (if j = p then tot else 0)) \<and>
       (\<forall>j < length peers. \<not> peer_skipped now tried j (peers ! j) \<longrightarrow>
          round_weight now tried j (peers ! j) \<le> round_weight now tried p (peers ! p)))"
proof -
  obtain qs cw tot where loop: "get_peer_loop now tried 0 peers None 0 = (qs, Some (p, cw), tot)"
    using assms by (auto simp: ngx_http_upstream_get_peer_def Let_def split: prod.splits option.splits)
  define best where "best = (let best = (qs ! p)\<lparr>pe_current_weight := pe_current_weight (qs ! p) - tot\<rparr>
    in if now - pe_checked best > pe_fail_timeout best then best\<lparr>pe_checked := now\<rparr> else best)"
  have res: "peers' = qs[p := best]" "tried' = set_tried tried p"
    using assms loop by (auto simp: ngx_http_upstream_get_peer_def best_def Let_def)
  have p: "p < length peers" "\<not> peer_skipped now tried p (peers ! p)" "cw = round_weight now tried p (peers ! p)"
    and max: "\<forall>j < length peers. \<not> peer_skipped now tried j (peers ! j) \<longrightarrow> round_weight now tried j (peers ! j) \<le> cw"
    using loop_best [OF loop] by auto
  have same: "list_all2 same_peer peers qs" and len: "length qs = length peers"
    using loop_same [OF loop] by (auto dest: list_all2_lengthD)
  have best: "same_peer (qs ! p) best" "pe_current_weight best = pe_current_weight (qs ! p) - tot"
    by (auto simp: best_def Let_def same_peer_def weight_ok_def)
  have "list_all2 same_peer peers peers'"
    unfolding list_all2_conv_all_nth
    using same best(1) p(1) len by (auto simp: res list_all2_conv_all_nth nth_list_update intro: same_peer_trans)
  moreover have "sum_weights peers' = sum_weights peers"
    using loop_sum [OF loop] best(2) p(1) len by (simp add: res sum_weights_update)
  moreover have "pe_current_weight (peers' ! j) = round_weight now tried j (peers ! j) - (if j = p then tot else 0)"
    if "j < length peers" for j
    using loop_weight [OF loop that] best(2) that len by (cases "j = p") (simp_all add: res)
  ultimately show ?thesis using p max res(2) by auto
qed

section \<open>The bit map of tried peers\<close>

lemma is_tried_bit: "is_tried tried i \<longleftrightarrow> bit (tried ! (i div 64)) (i mod 64)"
  unfolding is_tried_def push_bit_eq_mult mult_1 using and_exp_eq_0_iff_not_bit by blast

lemma is_tried_set:
  "i < 64 * length tried \<Longrightarrow> is_tried (set_tried tried i) j \<longleftrightarrow> is_tried tried j \<or> j = i"
proof -
  assume "i < 64 * length tried"
  then have n: "i div 64 < length tried" by (simp add: less_mult_imp_div_less mult.commute)
  have "i = j \<longleftrightarrow> i div 64 = j div 64 \<and> i mod 64 = j mod 64"
    by (metis div_mult_mod_eq)
  moreover have "bit (push_bit (i mod 64) 1 :: u64) (j mod 64) \<longleftrightarrow> j mod 64 = i mod 64"
    by (auto simp: bit_exp_iff)
  ultimately show ?thesis
    using n by (cases "j div 64 = i div 64") (auto simp: is_tried_bit set_tried_def bit_or_iff)
qed

lemma length_set_tried [simp]: "length (set_tried tried i) = length tried"
  by (simp add: set_tried_def)

lemma is_tried_words: "i < n \<Longrightarrow> \<not> is_tried (tried_words n) i"
proof -
  assume "i < n"
  then obtain m where "n = Suc m" "i \<le> m" by (cases n) auto
  then have "i div 64 < (n + 63) div 64"
    using div_le_mono [of i m 64] by simp
  then show ?thesis using \<open>i < n\<close> by (auto simp: is_tried_def tried_words_def)
qed

lemma length_tried_words: "n \<le> 64 * length (tried_words n)"
  by (auto simp: tried_words_def)

section \<open>The system of requests\<close>

text \<open>
  A request holds a peer from a successful \<open>get\<close> to the \<open>free\<close> of it, which \<open>ngx_http_upstream_next\<close> and
  \<open>ngx_http_upstream_finalize_request\<close> call once, when the address of the peer is set.
\<close>

record rr_job =
  jb_data :: rr_data
  jb_held :: bool
  jb_tries :: nat

record rr_sys =
  sy_us :: upstream
  sy_jobs :: "rr_job list"

definition new_job :: "upstream \<Rightarrow> rr_job" where
  "new_job us = (case ngx_http_upstream_init_round_robin_peer us of (rrp, tries) \<Rightarrow>
     \<lparr>jb_data = rrp, jb_held = False, jb_tries = tries\<rparr>)"

inductive rr_step :: "rr_sys \<Rightarrow> rr_sys \<Rightarrow> bool" where
  new: "rr_step s (s\<lparr>sy_jobs := sy_jobs s @ [new_job (sy_us s)]\<rparr>)"
| get: "k < length (sy_jobs s) \<Longrightarrow> \<not> jb_held (sy_jobs s ! k) \<Longrightarrow>
    ngx_http_upstream_get_round_robin_peer now (sy_us s) (jb_data (sy_jobs s ! k)) = (rc, us, rrp) \<Longrightarrow>
    rr_step s (s\<lparr>sy_us := us,
      sy_jobs := (sy_jobs s)[k := (sy_jobs s ! k)\<lparr>jb_data := rrp, jb_held := (rc = NGX_OK)\<rparr>]\<rparr>)"
| free: "k < length (sy_jobs s) \<Longrightarrow> jb_held (sy_jobs s ! k) \<Longrightarrow>
    ngx_http_upstream_free_round_robin_peer now failed (sy_us s) (jb_data (sy_jobs s ! k)) (jb_tries (sy_jobs s ! k)) =
      (us, tries) \<Longrightarrow>
    rr_step s (s\<lparr>sy_us := us,
      sy_jobs := (sy_jobs s)[k := (sy_jobs s ! k)\<lparr>jb_held := False, jb_tries := tries\<rparr>]\<rparr>)"

inductive rr_reach :: "upstream \<Rightarrow> rr_sys \<Rightarrow> bool" for us where
  start: "rr_reach us \<lparr>sy_us = us, sy_jobs = []\<rparr>"
| step: "rr_reach us s \<Longrightarrow> rr_step s s' \<Longrightarrow> rr_reach us s'"

inductive_cases rr_stepE: "rr_step s s'"

text \<open>A list of peers and the number of connections that the requests hold to each of them.\<close>

definition holds :: "bool \<Rightarrow> nat \<Rightarrow> rr_job \<Rightarrow> bool" where
  "holds backup i job \<longleftrightarrow> jb_held job \<and> rd_backup (jb_data job) = backup \<and> rd_current (jb_data job) = Some i"

definition holders :: "bool \<Rightarrow> nat \<Rightarrow> rr_job list \<Rightarrow> nat" where
  "holders backup i jobs = number (holds backup i) jobs"

lemma holders_snoc: "\<not> jb_held job \<Longrightarrow> holders backup i (jobs @ [job]) = holders backup i jobs"
  by (simp add: holders_def holds_def number_def)

lemma holders_update:
  "k < length jobs \<Longrightarrow> holders backup i (jobs[k := job]) + (if holds backup i (jobs ! k) then 1 else 0) =
   holders backup i jobs + (if holds backup i job then 1 else 0)"
  using number_update [of k jobs "holds backup i" job] by (auto simp: holders_def)

definition list_of :: "bool \<Rightarrow> upstream \<Rightarrow> rr_peers option" where
  "list_of backup us = (if backup then us_next us else Some (us_peers us))"

text \<open>What holds of a list of peers while \<open>held i\<close> requests hold its \<open>i\<close>-th peer.\<close>

definition peer_inv :: "nat \<Rightarrow> rr_peer \<Rightarrow> bool" where
  "peer_inv held peer \<longleftrightarrow> weight_ok peer \<and> pe_conns peer = int held \<and> 0 \<le> pe_max_conns peer \<and>
     (pe_max_conns peer \<noteq> 0 \<longrightarrow> pe_conns peer \<le> pe_max_conns peer)"

definition peers_inv :: "(nat \<Rightarrow> nat) \<Rightarrow> rr_peers \<Rightarrow> bool" where
  "peers_inv held peers \<longleftrightarrow> ps_peer peers \<noteq> [] \<and> ps_number peers = length (ps_peer peers) \<and>
     sum_weights (ps_peer peers) = 0 \<and>
     (\<forall>i < length (ps_peer peers). peer_inv (held i) (ps_peer peers ! i))"

definition job_inv :: "upstream \<Rightarrow> rr_job \<Rightarrow> bool" where
  "job_inv us job \<longleftrightarrow> (jb_held job \<longrightarrow> (\<exists>peers i. list_of (rd_backup (jb_data job)) us = Some peers \<and>
     rd_current (jb_data job) = Some i \<and> i < length (ps_peer peers)))"

definition sys_inv :: "rr_sys \<Rightarrow> bool" where
  "sys_inv s \<longleftrightarrow>
     (\<forall>backup peers. list_of backup (sy_us s) = Some peers \<longrightarrow> peers_inv (\<lambda>i. holders backup i (sy_jobs s)) peers) \<and>
     list_all (job_inv (sy_us s)) (sy_jobs s)"

lemma peers_inv_cong:
  "(\<And>i. i < length (ps_peer peers) \<Longrightarrow> held i = held' i) \<Longrightarrow> peers_inv held peers = peers_inv held' peers"
  by (auto simp: peers_inv_def)

text \<open>A successful choice adds one holder of the chosen peer.\<close>

lemma get_from_inv:
  assumes "get_from now peers rrp = Some (peers', rrp')" "peers_inv held peers"
  shows "\<exists>p < length (ps_peer peers). rd_current rrp' = Some p \<and> rd_backup rrp' = rd_backup rrp \<and>
    length (ps_peer peers') = length (ps_peer peers) \<and> peers_inv (held(p := held p + 1)) peers'"
proof -
  obtain p qs tried where chosen: "p < length (ps_peer peers)" "list_all2 same_peer (ps_peer peers) qs"
      "sum_weights qs = sum_weights (ps_peer peers)"
      "pe_max_conns (ps_peer peers ! p) \<noteq> 0 \<longrightarrow> pe_conns (ps_peer peers ! p) < pe_max_conns (ps_peer peers ! p)"
    and res: "peers' = peers\<lparr>ps_peer := qs[p := (qs ! p)\<lparr>pe_conns := pe_conns (qs ! p) + 1\<rparr>]\<rparr>"
      "rrp' = rrp\<lparr>rd_current := Some p, rd_tried := tried\<rparr>"
  proof (cases "ps_single peers")
    case True
    then show ?thesis
      using assms that [of 0 "ps_peer peers" "rd_tried rrp"]
      by (auto simp: get_from_def Let_def peers_inv_def list.rel_refl split: if_splits)
  next
    case False
    then obtain p qs tried where "ngx_http_upstream_get_peer now (ps_peer peers) (rd_tried rrp) = Some (p, qs, tried)"
      "peers' = peers\<lparr>ps_peer := qs[p := (qs ! p)\<lparr>pe_conns := pe_conns (qs ! p) + 1\<rparr>]\<rparr>"
      "rrp' = rrp\<lparr>rd_current := Some p, rd_tried := tried\<rparr>"
      using assms(1) by (auto simp: get_from_def Let_def split: option.splits)
    then show ?thesis
      using that get_peer_Some by (metis not_le peer_skipped_def)
  qed
  have len: "length qs = length (ps_peer peers)" using chosen(2) by (simp add: list_all2_lengthD)
  have same: "same_peer (ps_peer peers ! i) (qs ! i)" if "i < length (ps_peer peers)" for i
    using chosen(2) that by (simp add: list_all2_nthD)
  have "peer_inv ((held(p := held p + 1)) i) (ps_peer peers' ! i)" if "i < length (ps_peer peers)" for i
    using assms(2) same [OF that] chosen(1,4) len that
    by (cases "i = p") (auto simp: peers_inv_def peer_inv_def same_peer_def res weight_ok_def)
  then show ?thesis
    using assms(2) chosen(1,3) len
    by (auto simp: peers_inv_def res sum_weights_update)
qed

text \<open>A release takes one away.\<close>

lemma free_peer_inv:
  assumes "weight_ok peer"
  shows "weight_ok (free_peer now failed peer) \<and>
    pe_current_weight (free_peer now failed peer) = pe_current_weight peer \<and>
    pe_conns (free_peer now failed peer) = pe_conns peer \<and> pe_max_conns (free_peer now failed peer) = pe_max_conns peer"
proof -
  have "0 \<le> pe_weight peer div int (pe_max_fails peer)"
    using assms by (cases "pe_max_fails peer = 0") (simp_all add: pos_imp_zdiv_nonneg_iff weight_ok_def)
  then show ?thesis
    using assms by (auto simp: free_peer_def Let_def weight_ok_def)
qed

lemma free_from_inv:
  assumes "free_from now failed peers i tries = (peers', tries')" "peers_inv held peers" "i < length (ps_peer peers)" "0 < held i"
  shows "length (ps_peer peers') = length (ps_peer peers) \<and> peers_inv (held(i := held i - 1)) peers'"
proof -
  define peer where "peer = (if ps_single peers then ps_peer peers ! i else free_peer now failed (ps_peer peers ! i))"
  have res: "peers' = peers\<lparr>ps_peer := (ps_peer peers)[i := peer\<lparr>pe_conns := pe_conns peer - 1\<rparr>]\<rparr>"
    using assms(1) by (auto simp: free_from_def Let_def peer_def split: if_splits)
  have "weight_ok (ps_peer peers ! i)" using assms(2,3) by (simp add: peers_inv_def peer_inv_def)
  then have "weight_ok peer \<and> pe_current_weight peer = pe_current_weight (ps_peer peers ! i) \<and>
      pe_conns peer = pe_conns (ps_peer peers ! i) \<and> pe_max_conns peer = pe_max_conns (ps_peer peers ! i)"
    using free_peer_inv by (auto simp: peer_def)
  then show ?thesis
    using assms(2-4)
    by (auto simp: peers_inv_def peer_inv_def res sum_weights_update nth_list_update weight_ok_def of_nat_diff)
qed

definition us_inv :: "(bool \<Rightarrow> nat \<Rightarrow> nat) \<Rightarrow> upstream \<Rightarrow> bool" where
  "us_inv held us \<longleftrightarrow> (\<forall>backup peers. list_of backup us = Some peers \<longrightarrow> peers_inv (held backup) peers)"

definition peer_count :: "bool \<Rightarrow> upstream \<Rightarrow> nat" where
  "peer_count backup us = (case list_of backup us of Some peers \<Rightarrow> length (ps_peer peers) | None \<Rightarrow> 0)"

lemma sys_inv_iff:
  "sys_inv s \<longleftrightarrow> us_inv (\<lambda>backup i. holders backup i (sy_jobs s)) (sy_us s) \<and>
     (\<forall>job \<in> set (sy_jobs s). jb_held job \<longrightarrow> (\<exists>i. rd_current (jb_data job) = Some i \<and>
        i < peer_count (rd_backup (jb_data job)) (sy_us s)))"
proof -
  have "job_inv us job \<longleftrightarrow> (jb_held job \<longrightarrow> (\<exists>i. rd_current (jb_data job) = Some i \<and> i < peer_count (rd_backup (jb_data job)) us))"
    for us job
    by (auto simp: job_inv_def peer_count_def split: option.splits)
  then show ?thesis by (simp add: sys_inv_def us_inv_def list_all_iff)
qed

lemma us_inv_backup: "us_inv held us \<Longrightarrow> us_next us = Some peers \<Longrightarrow> peers_inv (held True) peers"
  by (auto simp: us_inv_def list_of_def)

lemma us_inv_main: "us_inv held us \<Longrightarrow> peers_inv (held False) (us_peers us)"
  by (auto simp: us_inv_def list_of_def)

lemma us_inv_put_main:
  "us_inv held us \<Longrightarrow> peers_inv held' peers \<Longrightarrow> us_inv (held(False := held')) (us\<lparr>us_peers := peers\<rparr>)"
  by (auto simp: us_inv_def list_of_def split: if_splits)

lemma us_inv_put_backup:
  "us_inv held us \<Longrightarrow> peers_inv held' peers \<Longrightarrow> us_inv (held(True := held')) (us\<lparr>us_next := Some peers\<rparr>)"
  by (auto simp: us_inv_def list_of_def split: if_splits)

text \<open>The effect of a \<open>get\<close>: either nothing changes, or one peer of one list gains a holder.\<close>

lemma get_backup_inv:
  assumes "get_backup now us rrp = (rc, us', rrp')" "us_inv held us" "rd_backup rrp"
  shows "if rc = NGX_OK
    then \<exists>p < peer_count True us. rd_backup rrp' \<and> rd_current rrp' = Some p \<and>
      us_inv (held(True := (held True)(p := held True p + 1))) us' \<and> (\<forall>b. peer_count b us' = peer_count b us)
    else us' = us"
proof (cases "us_next us")
  case None
  then show ?thesis using assms(1) by (simp add: get_backup_def)
next
  case (Some backup)
  show ?thesis
  proof (cases "get_from now backup rrp")
    case None
    then show ?thesis using assms(1) Some by (simp add: get_backup_def)
  next
    case got: (Some res)
    obtain backup' rrp1 where res: "res = (backup', rrp1)" by (cases res)
    have out: "rc = NGX_OK" "us' = us\<lparr>us_next := Some backup'\<rparr>" "rrp' = rrp1"
      using assms(1) Some got res by (auto simp: get_backup_def)
    show ?thesis
      using get_from_inv [OF got [unfolded res] us_inv_backup [OF assms(2) Some]] assms(2,3) Some out
      by (auto simp: peer_count_def list_of_def intro: us_inv_put_backup)
  qed
qed

lemma get_inv:
  assumes "ngx_http_upstream_get_round_robin_peer now us rrp = (rc, us', rrp')" "us_inv held us"
  shows "if rc = NGX_OK
    then \<exists>p < peer_count (rd_backup rrp') us. rd_current rrp' = Some p \<and>
      us_inv (held(rd_backup rrp' := (held (rd_backup rrp'))(p := held (rd_backup rrp') p + 1))) us' \<and>
      (\<forall>b. peer_count b us' = peer_count b us)
    else us' = us"
proof (cases "rd_backup rrp")
  case True
  then show ?thesis
    using get_backup_inv [of now us rrp rc us' rrp' held] assms
    by (auto simp: ngx_http_upstream_get_round_robin_peer_def split: if_splits)
next
  case False
  show ?thesis
  proof (cases "get_from now (us_peers us) rrp")
    case None
    show ?thesis
    proof (cases "us_next us")
      case backup: (Some backup)
      show ?thesis
        using get_backup_inv [of now us "rrp\<lparr>rd_backup := True, rd_tried := clear_tried (ps_number backup) (rd_tried rrp)\<rparr>" rc us' rrp' held]
          assms False None backup
        by (auto simp: ngx_http_upstream_get_round_robin_peer_def split: if_splits)
    qed (use assms False None in \<open>auto simp: ngx_http_upstream_get_round_robin_peer_def\<close>)
  next
    case got: (Some res)
    obtain peers' rrp1 where res: "res = (peers', rrp1)" by (cases res)
    have out: "rc = NGX_OK" "us' = us\<lparr>us_peers := peers'\<rparr>" "rrp' = rrp1"
      using assms(1) False got res by (auto simp: ngx_http_upstream_get_round_robin_peer_def)
    show ?thesis
      using get_from_inv [OF got [unfolded res] us_inv_main [OF assms(2)]] assms(2) False out
      by (auto simp: peer_count_def list_of_def intro: us_inv_put_main)
  qed
qed

lemma free_inv:
  assumes "ngx_http_upstream_free_round_robin_peer now failed us rrp tries = (us', tries')" "us_inv held us"
    "rd_current rrp = Some p" "p < peer_count (rd_backup rrp) us" "0 < held (rd_backup rrp) p"
  shows "us_inv (held(rd_backup rrp := (held (rd_backup rrp))(p := held (rd_backup rrp) p - 1))) us' \<and>
    (\<forall>b. peer_count b us' = peer_count b us)"
proof -
  obtain peers where peers: "list_of (rd_backup rrp) us = Some peers" "p < length (ps_peer peers)"
    using assms(4) by (auto simp: peer_count_def split: option.splits)
  obtain peers' where free: "free_from now failed peers p tries = (peers', tries')"
    "us' = (if rd_backup rrp then us\<lparr>us_next := Some peers'\<rparr> else us\<lparr>us_peers := peers'\<rparr>)"
    using assms(1,3) peers(1)
    by (auto simp: ngx_http_upstream_free_round_robin_peer_def list_of_def split: if_splits prod.splits)
  have "peers_inv (held (rd_backup rrp)) peers" using assms(2) peers(1) by (simp add: us_inv_def)
  from free_from_inv [OF free(1) this peers(2) assms(5)] show ?thesis
    using peers(1) free(2) assms(2)
    by (auto simp: peer_count_def list_of_def split: if_splits intro: us_inv_put_main us_inv_put_backup)
qed

lemma step_inv: "rr_step s s' \<Longrightarrow> sys_inv s \<Longrightarrow> sys_inv s'"
proof (induction rule: rr_step.induct)
  case (new s)
  have job: "\<not> jb_held (new_job (sy_us s))" by (simp add: new_job_def split: prod.split)
  then have "(\<lambda>b i. holders b i (sy_jobs s @ [new_job (sy_us s)])) = (\<lambda>b i. holders b i (sy_jobs s))"
    by (simp add: holders_snoc)
  then show ?case using new job by (auto simp: sys_inv_iff)
next
  case (get k s now rc us rrp)
  define held where "held = (\<lambda>b i. holders b i (sy_jobs s))"
  define job where "job = (sy_jobs s ! k)\<lparr>jb_data := rrp, jb_held := (rc = NGX_OK)\<rparr>"
  have inv: "us_inv held (sy_us s)" using get(4) by (simp add: sys_inv_iff held_def)
  have count: "holders b i ((sy_jobs s)[k := job]) = held b i + (if holds b i job then 1 else 0)" for b i
    using holders_update [OF get(1), of b i job] get(2) by (simp add: held_def holds_def)
  show ?case
  proof (cases "rc = NGX_OK")
    case True
    obtain p where p: "p < peer_count (rd_backup rrp) (sy_us s)" "rd_current rrp = Some p"
        "us_inv (held(rd_backup rrp := (held (rd_backup rrp))(p := held (rd_backup rrp) p + 1))) us"
        "\<forall>b. peer_count b us = peer_count b (sy_us s)"
      using get_inv [OF get(3) inv] True by auto
    have "(\<lambda>b i. holders b i ((sy_jobs s)[k := job])) =
        held(rd_backup rrp := (held (rd_backup rrp))(p := held (rd_backup rrp) p + 1))"
    proof -
      have "holds b i job \<longleftrightarrow> b = rd_backup rrp \<and> i = p" for b i
        using p(2) True by (auto simp: holds_def job_def)
      then show ?thesis by (auto simp: count fun_eq_iff)
    qed
    then show ?thesis
      using get(4) p unfolding sys_inv_iff job_def [symmetric]
      by (auto simp: job_def dest!: set_update_subset_insert [THEN subsetD])
  next
    case False
    then have "\<not> holds b i job" for b i
      by (simp add: holds_def job_def)
    then have "(\<lambda>b i. holders b i ((sy_jobs s)[k := job])) = held" "us = sy_us s"
      using get_inv [OF get(3) inv] False by (auto simp: count fun_eq_iff)
    then show ?thesis
      using get(4) False unfolding sys_inv_iff job_def [symmetric]
      by (auto simp: held_def job_def dest!: set_update_subset_insert [THEN subsetD])
  qed
next
  case (free k s now failed us tries)
  define held where "held = (\<lambda>b i. holders b i (sy_jobs s))"
  define rrp where "rrp = jb_data (sy_jobs s ! k)"
  define job where "job = (sy_jobs s ! k)\<lparr>jb_held := False, jb_tries := tries\<rparr>"
  have inv: "us_inv held (sy_us s)" using free(4) by (simp add: sys_inv_iff held_def)
  obtain p where p: "rd_current rrp = Some p" "p < peer_count (rd_backup rrp) (sy_us s)"
    using free(1,2,4) by (auto simp: sys_inv_iff rrp_def)
  have count: "holders b i ((sy_jobs s)[k := job]) = held b i - (if b = rd_backup rrp \<and> i = p then 1 else 0) \<and>
      (b = rd_backup rrp \<and> i = p \<longrightarrow> 0 < held b i)" for b i
    using holders_update [OF free(1), of b i job] free(2) p(1)
    by (auto simp: held_def holds_def job_def rrp_def split: if_splits)
  have "us_inv (held(rd_backup rrp := (held (rd_backup rrp))(p := held (rd_backup rrp) p - 1))) us \<and>
    (\<forall>b. peer_count b us = peer_count b (sy_us s))"
    using free_inv [OF free(3) inv] p count by (simp add: rrp_def)
  moreover have "(\<lambda>b i. holders b i ((sy_jobs s)[k := job])) =
        held(rd_backup rrp := (held (rd_backup rrp))(p := held (rd_backup rrp) p - 1))"
    by (auto simp: count fun_eq_iff)
  ultimately show ?case
    using free(4) unfolding sys_inv_iff job_def [symmetric]
    by (auto simp: job_def dest!: set_update_subset_insert [THEN subsetD])
qed

section \<open>The start\<close>

lemma count_peers_fill:
  "count_peers backup servers n w = (n + length (fill_peers backup servers),
     w + nat (sum_list (map pe_weight (fill_peers backup servers))))"
proof (induction servers arbitrary: n w)
  case (Cons server servers)
  have "sum_list (map pe_weight (map (peer_of server) as)) = int (length as * sv_weight server)" for as
    by (induction as) (simp_all add: peer_of_def algebra_simps)
  moreover have "0 \<le> sum_list (map pe_weight (fill_peers backup servers))"
  proof (induction servers)
    case (Cons s ss)
    then show ?case by (auto simp: peer_of_def intro!: add_nonneg_nonneg sum_list_nonneg)
  qed simp
  ultimately show ?case
    using Cons.IH by (auto simp: nat_add_distrib nat_int nat_mult_distrib simp del: of_nat_mult)
qed simp

definition fresh_peer :: "rr_peer \<Rightarrow> bool" where
  "fresh_peer peer \<longleftrightarrow> pe_current_weight peer = 0 \<and> pe_effective_weight peer = pe_weight peer \<and> 0 \<le> pe_weight peer \<and>
     pe_conns peer = 0 \<and> 0 \<le> pe_max_conns peer \<and> pe_fails peer = 0"

definition fresh :: "upstream \<Rightarrow> bool" where
  "fresh us \<longleftrightarrow> (\<forall>backup peers. list_of backup us = Some peers \<longrightarrow>
     ps_peer peers \<noteq> [] \<and> ps_number peers = length (ps_peer peers) \<and> list_all fresh_peer (ps_peer peers))"

lemma fill_peers_fresh: "list_all fresh_peer (fill_peers backup servers)"
  by (induction servers) (auto simp: list_all_iff peer_of_def fresh_peer_def)

lemma init_fresh:
  assumes "ngx_http_upstream_init_round_robin ok servers port resolved = Some us" "resolved \<noteq> Some []"
  shows "fresh us"
proof (cases servers)
  case None
  then show ?thesis
    using assms
    by (auto simp: ngx_http_upstream_init_round_robin_def fresh_def list_of_def list_all_iff implicit_peer_def fresh_peer_def
        split: if_splits option.splits)
next
  case (Some servers)
  then show ?thesis
    using assms(1) fill_peers_fresh [of _ servers]
    by (auto simp: ngx_http_upstream_init_round_robin_def fresh_def list_of_def count_peers_fill Let_def
        split: if_splits)
qed

lemma fresh_inv:
  assumes "fresh us"
  shows "sys_inv \<lparr>sy_us = us, sy_jobs = []\<rparr>"
proof -
  have "sum_weights peers = 0 \<and> (\<forall>i < length peers. peer_inv 0 (peers ! i))" if "list_all fresh_peer peers" for peers
  proof
    show "sum_weights peers = 0"
      using that by (induction peers) (simp_all add: sum_weights_def fresh_peer_def)
    show "\<forall>i < length peers. peer_inv 0 (peers ! i)"
      using that by (auto simp: list_all_length fresh_peer_def peer_inv_def weight_ok_def)
  qed
  then show ?thesis
    using assms by (auto simp: sys_inv_iff us_inv_def fresh_def peers_inv_def holders_def number_def)
qed

lemma reach_inv: "rr_reach us s \<Longrightarrow> fresh us \<Longrightarrow> sys_inv s"
  by (induction rule: rr_reach.induct) (auto intro: fresh_inv step_inv)

section \<open>Fairness\<close>

text \<open>
  Requests that come and go while every peer is up: \<open>Pick\<close> is the \<open>get\<close> of a new request, \<open>Done\<close> the
  \<open>free\<close> of a peer after a success.  The picks of the main list are collected.
\<close>

datatype rr_op = Pick int | Done int nat

definition new_data :: "upstream \<Rightarrow> rr_data" where
  "new_data us = fst (ngx_http_upstream_init_round_robin_peer us)"

fun rr_serve :: "rr_op list \<Rightarrow> upstream \<Rightarrow> nat list \<times> upstream" where
  "rr_serve [] us = ([], us)"
| "rr_serve (Pick now # ops) us =
     (case ngx_http_upstream_get_round_robin_peer now us (new_data us) of (rc, us, rrp) \<Rightarrow>
        (case rr_serve ops us of (picks, us) \<Rightarrow>
           (if rc = NGX_OK \<and> \<not> rd_backup rrp then the (rd_current rrp) # picks else picks, us)))"
| "rr_serve (Done now i # ops) us =
     rr_serve ops (fst (ngx_http_upstream_free_round_robin_peer now False us ((new_data us)\<lparr>rd_current := Some i\<rparr>) 1))"

definition available :: "rr_peer \<Rightarrow> bool" where
  "available peer \<longleftrightarrow> \<not> pe_down peer \<and> pe_max_conns peer = 0 \<and> pe_fails peer = 0 \<and>
     pe_effective_weight peer = pe_weight peer \<and> 0 \<le> pe_weight peer"

definition weights :: "upstream \<Rightarrow> int list" where
  "weights us = map pe_weight (ps_peer (us_peers us))"

text \<open>After \<open>n i\<close> picks of the \<open>i\<close>-th peer, out of \<open>k\<close>, with weights \<open>ws\<close>.\<close>

definition fair_inv :: "int list \<Rightarrow> nat \<Rightarrow> (nat \<Rightarrow> nat) \<Rightarrow> upstream \<Rightarrow> bool" where
  "fair_inv ws k n us \<longleftrightarrow> \<not> ps_single (us_peers us) \<and> ps_number (us_peers us) = length ws \<and> weights us = ws \<and>
     list_all available (ps_peer (us_peers us)) \<and> sum_weights (ps_peer (us_peers us)) = 0 \<and>
     (\<forall>i < length ws. pe_current_weight (ps_peer (us_peers us) ! i) = int k * ws ! i - sum_list ws * int (n i) \<and>
        - sum_list ws < pe_current_weight (ps_peer (us_peers us) ! i))"

lemma available_passed: "available peer \<Longrightarrow> peer_skipped now tried i peer \<longleftrightarrow> is_tried tried i"
  by (auto simp: available_def peer_skipped_def)

lemma new_data_simps [simp]:
  "rd_backup (new_data us) = False"
  "i < ps_number (us_peers us) \<Longrightarrow> \<not> is_tried (rd_tried (new_data us)) i"
  by (auto simp: new_data_def ngx_http_upstream_init_round_robin_peer_def Let_def is_tried_words split: option.split)

lemma sum_list_gain:
  assumes "length ys = length xs" "length ws = length (xs :: int list)" "p < length xs"
    "\<forall>j < length xs. ys ! j = xs ! j + ws ! j - (if j = p then t else 0)"
  shows "sum_list ys = sum_list xs + sum_list ws - t"
proof -
  have "sum_list ys = (\<Sum>j<length xs. xs ! j + ws ! j - (if j = p then t else 0))"
    using assms(1,4) by (simp add: sum_list_sum_nth atLeast0LessThan)
  also have "\<dots> = sum_list xs + sum_list ws - t"
    using assms(2,3) by (simp add: sum_list_sum_nth atLeast0LessThan sum.distrib sum_subtractf sum.delta)
  finally show ?thesis .
qed

lemma same_fixed:
  "list_all2 same_peer peers qs \<Longrightarrow> list_all available peers \<Longrightarrow>
   list_all available qs \<and> map pe_weight qs = map pe_weight peers"
  by (induction rule: list_all2_induct) (auto simp: same_peer_def available_def)

lemma put_fixed:
  assumes "list_all available qs" "i < length qs" "available q" "pe_weight q = pe_weight (qs ! i)"
  shows "list_all available (qs[i := q]) \<and> map pe_weight (qs[i := q]) = map pe_weight qs"
proof
  show "list_all available (qs[i := q])"
    using assms(1,3) by (auto simp: list_all_iff dest!: set_update_subset_insert [THEN subsetD])
  show "map pe_weight (qs[i := q]) = map pe_weight qs"
    using assms(2,4) by (auto simp: map_update intro: list_update_same_conv [THEN iffD2])
qed

lemma best_positive:
  assumes "length xs = length (ws :: int list)" "sum_list xs = 0" "0 < sum_list ws"
    "\<forall>j < length xs. xs ! j + ws ! j \<le> m"
  shows "0 < m"
proof (rule ccontr)
  assume "\<not> 0 < m"
  then have "(\<Sum>j<length xs. xs ! j + ws ! j) \<le> 0"
    using assms(4) by (intro sum_nonpos) force
  moreover have "(\<Sum>j<length xs. xs ! j + ws ! j) = sum_list xs + sum_list ws"
    using assms(1) by (simp add: sum_list_sum_nth atLeast0LessThan sum.distrib)
  ultimately show False using assms(2,3) by simp
qed

lemma pick_fair:
  assumes inv: "fair_inv ws k n us" and ws: "ws \<noteq> []" "0 < sum_list ws"
    and pick: "ngx_http_upstream_get_round_robin_peer now us (new_data us) = (rc, us', rrp)"
  shows "\<exists>p < length ws. rc = NGX_OK \<and> \<not> rd_backup rrp \<and> rd_current rrp = Some p \<and>
    fair_inv ws (k + 1) (n(p := n p + 1)) us'"
proof -
  define peers where "peers = ps_peer (us_peers us)"
  define tried where "tried = rd_tried (new_data us)"
  have len: "length peers = length ws" and weights: "map pe_weight peers = ws"
    using inv by (auto simp: fair_inv_def weights_def peers_def)
  have avail: "list_all available peers" and single: "\<not> ps_single (us_peers us)"
    and cw: "\<forall>i < length ws. pe_current_weight (peers ! i) = int k * ws ! i - sum_list ws * int (n i) \<and>
        - sum_list ws < pe_current_weight (peers ! i)"
    using inv by (auto simp: fair_inv_def peers_def)
  have free: "\<not> peer_skipped now tried i (peers ! i)" if "i < length peers" for i
    using avail that inv len by (simp add: available_passed list_all_length fair_inv_def tried_def)
  have "ngx_http_upstream_get_peer now peers tried \<noteq> None"
    unfolding get_peer_None_iff using free [of 0] ws(1) len by (cases ws) auto
  then obtain p qs tried' where got: "ngx_http_upstream_get_peer now peers tried = Some (p, qs, tried')"
    by (metis not_None_eq prod_cases3)
  have round: "round_weight now tried i (peers ! i) = pe_current_weight (peers ! i) + ws ! i" if "i < length peers" for i
    using free [OF that] avail that weights by (auto simp: round_weight_def available_def list_all_length)
  obtain tot where p: "p < length peers" "length qs = length peers" and sum: "sum_weights qs = sum_weights peers" and
    qs: "\<forall>j < length peers. pe_current_weight (qs ! j) = pe_current_weight (peers ! j) + ws ! j - (if j = p then tot else 0)" and
    best: "\<forall>j < length peers. pe_current_weight (peers ! j) + ws ! j \<le> pe_current_weight (peers ! p) + ws ! p"
    using get_peer_Some [OF got] free round by (fastforce dest: list_all2_lengthD)
  have "sum_list (map pe_current_weight qs) = sum_list (map pe_current_weight peers) + sum_list ws - tot"
    using p len qs by (intro sum_list_gain [where p = p]) simp_all
  then have tot: "tot = sum_list ws"
    using sum by (simp add: sum_weights_def)
  have pos: "0 < pe_current_weight (peers ! p) + ws ! p"
    using best_positive [of "map pe_current_weight peers" ws] best len ws(2) inv
    by (auto simp: fair_inv_def sum_weights_def peers_def)
  define new where "new = us\<lparr>us_peers := (us_peers us)\<lparr>ps_peer := qs[p := (qs ! p)\<lparr>pe_conns := pe_conns (qs ! p) + 1\<rparr>]\<rparr>\<rparr>"
  have out: "rc = NGX_OK" "us' = new" "rrp = (new_data us)\<lparr>rd_current := Some p, rd_tried := tried'\<rparr>"
    using pick got single
    by (auto simp: ngx_http_upstream_get_round_robin_peer_def get_from_def Let_def new_def peers_def tried_def)
  have qs_fixed: "list_all available qs" "map pe_weight qs = ws"
    using same_fixed [OF _ avail] get_peer_Some [OF got] weights by auto
  then have "available (qs ! p)" using p by (simp add: list_all_length)
  then have "list_all available (ps_peer (us_peers new)) \<and> weights new = ws"
    using put_fixed [OF qs_fixed(1), of p "(qs ! p)\<lparr>pe_conns := pe_conns (qs ! p) + 1\<rparr>"] p qs_fixed(2)
    by (simp add: new_def weights_def available_def)
  moreover have "sum_weights (ps_peer (us_peers new)) = 0"
    using p sum inv by (simp add: new_def sum_weights_update fair_inv_def peers_def)
  moreover have "pe_current_weight (ps_peer (us_peers new) ! i) =
        int (k + 1) * ws ! i - sum_list ws * int ((n(p := n p + 1)) i) \<and>
      - sum_list ws < pe_current_weight (ps_peer (us_peers new) ! i)" if "i < length ws" for i
  proof -
    have "pe_current_weight (ps_peer (us_peers new) ! i) = pe_current_weight (qs ! i)"
      using p that len by (cases "i = p") (auto simp: new_def)
    moreover have "available (peers ! i)"
      using avail that len by (simp add: list_all_length)
    moreover have "ws ! i = pe_weight (peers ! i)"
      using weights that len by (metis nth_map)
    moreover have "pe_current_weight (qs ! i) = pe_current_weight (peers ! i) + ws ! i - (if i = p then sum_list ws else 0)"
      using qs that len tot by simp
    moreover have "pe_current_weight (peers ! i) = int k * ws ! i - sum_list ws * int (n i)"
        "- sum_list ws < pe_current_weight (peers ! i)"
      using cw that by blast+
    ultimately show ?thesis
      using pos by (cases "i = p") (simp_all add: available_def algebra_simps)
  qed
  moreover have "\<not> ps_single (us_peers new)" "ps_number (us_peers new) = length ws"
    using inv by (simp_all add: new_def fair_inv_def)
  ultimately have "fair_inv ws (k + 1) (n(p := n p + 1)) new"
    unfolding fair_inv_def by blast
  then show ?thesis using out p len by auto
qed

lemma done_fair:
  assumes "fair_inv ws k n us"
  shows "fair_inv ws k n
    (fst (ngx_http_upstream_free_round_robin_peer now False us ((new_data us)\<lparr>rd_current := Some i\<rparr>) tries))"
proof -
  define peers where "peers = ps_peer (us_peers us)"
  define peer where "peer = (let peer = free_peer now False (peers ! i) in peer\<lparr>pe_conns := pe_conns peer - 1\<rparr>)"
  have us': "fst (ngx_http_upstream_free_round_robin_peer now False us ((new_data us)\<lparr>rd_current := Some i\<rparr>) tries) =
      us\<lparr>us_peers := (us_peers us)\<lparr>ps_peer := peers[i := peer]\<rparr>\<rparr>"
    using assms
    by (auto simp: ngx_http_upstream_free_round_robin_peer_def free_from_def fair_inv_def Let_def peers_def peer_def
        split: prod.split)
  show ?thesis
  proof (cases "i < length peers")
    case True
    then have "available (peers ! i)" using assms by (auto simp: fair_inv_def list_all_length peers_def)
    then have peer: "available peer" "pe_weight peer = pe_weight (peers ! i)"
        "pe_current_weight peer = pe_current_weight (peers ! i)"
      by (auto simp: peer_def free_peer_def available_def Let_def)
    then have "list_all available (peers[i := peer]) \<and> map pe_weight (peers[i := peer]) = map pe_weight peers"
      using assms True by (intro put_fixed) (auto simp: fair_inv_def peers_def)
    moreover have "pe_current_weight (peers[i := peer] ! j) = pe_current_weight (peers ! j)" if "j < length peers" for j
      using peer(3) that by (cases "i = j") auto
    ultimately show ?thesis
      using assms True peer(3) unfolding us'
      by (auto simp: fair_inv_def weights_def sum_weights_update peers_def)
  next
    case False
    then show ?thesis using assms unfolding us' by (simp add: list_update_beyond peers_def)
  qed
qed

lemma serve_fair:
  assumes "rr_serve ops us = (picks, us')" "fair_inv ws k n us" "ws \<noteq> []" "0 < sum_list ws"
  shows "fair_inv ws (k + length picks) (\<lambda>i. n i + count_list picks i) us' \<and> set picks \<subseteq> {..<length ws} \<and>
    length picks = length (filter (\<lambda>ev. \<exists>now. ev = Pick now) ops)"
  using assms(1,2)
proof (induction ops us arbitrary: k n picks rule: rr_serve.induct)
  case (1 us)
  then show ?case by simp
next
  case (2 now ops us)
  obtain rc us1 rrp where got: "ngx_http_upstream_get_round_robin_peer now us (new_data us) = (rc, us1, rrp)"
    by (metis prod_cases3)
  obtain picks1 where rest: "rr_serve ops us1 = (picks1, us')" and picks: "picks = (if rc = NGX_OK \<and> \<not> rd_backup rrp
      then the (rd_current rrp) # picks1 else picks1)"
    using 2(2) got by (auto split: prod.splits)
  obtain p where p: "p < length ws" "rc = NGX_OK" "\<not> rd_backup rrp" "rd_current rrp = Some p"
      "fair_inv ws (k + 1) (n(p := n p + 1)) us1"
    using pick_fair [OF 2(3) assms(3,4) got] by auto
  have fns: "(\<lambda>i. (n(p := n p + 1)) i + count_list picks1 i) = (\<lambda>i. n i + count_list (p # picks1) i)"
    by (auto simp: fun_eq_iff)
  show ?case
    using 2(1) [OF got [symmetric] refl rest p(5)] p(1-4) picks unfolding fns by auto
next
  case (3 now i ops us)
  have "rr_serve ops (fst (ngx_http_upstream_free_round_robin_peer now False us ((new_data us)\<lparr>rd_current := Some i\<rparr>) 1)) =
      (picks, us')"
    using 3(2) by simp
  from 3(1) [OF this done_fair [OF 3(3)]] show ?case by force
qed

lemma fresh_fair:
  assumes "fresh us" "\<not> ps_single (us_peers us)" "list_all (\<lambda>peer. \<not> pe_down peer \<and> pe_max_conns peer = 0) (ps_peer (us_peers us))"
    "0 < sum_list (weights us)"
  shows "fair_inv (weights us) 0 (\<lambda>_. 0) us" "weights us \<noteq> []"
proof -
  have "list_all fresh_peer (ps_peer (us_peers us))" "ps_number (us_peers us) = length (ps_peer (us_peers us))"
    "ps_peer (us_peers us) \<noteq> []"
    using assms(1) unfolding fresh_def list_of_def by metis+
  moreover from this have "sum_weights (ps_peer (us_peers us)) = 0"
    using fresh_inv [OF assms(1)] us_inv_main by (fastforce simp: sys_inv_iff peers_inv_def)
  ultimately show "fair_inv (weights us) 0 (\<lambda>_. 0) us" "weights us \<noteq> []"
    using assms(2-4) by (auto simp: fair_inv_def weights_def list_all_length fresh_peer_def available_def)
qed

section \<open>The tries of one request\<close>

text \<open>
  The peers that one request gets in successive calls, each on whatever the lists are at that time.
\<close>

fun rr_tries :: "(int \<times> upstream) list \<Rightarrow> rr_data \<Rightarrow> (bool \<times> nat) list" where
  "rr_tries [] rrp = []"
| "rr_tries ((now, us) # rest) rrp =
     (case ngx_http_upstream_get_round_robin_peer now us rrp of (rc, us', rrp) \<Rightarrow>
        if rc = NGX_OK then (rd_backup rrp, the (rd_current rrp)) # rr_tries rest rrp else rr_tries rest rrp)"

text \<open>The lists keep their lengths, \<open>n\<close> and \<open>m\<close>, and none is single.\<close>

definition shape :: "nat \<Rightarrow> nat \<Rightarrow> upstream \<Rightarrow> bool" where
  "shape n m us \<longleftrightarrow> \<not> ps_single (us_peers us) \<and> length (ps_peer (us_peers us)) = n \<and> ps_number (us_peers us) = n \<and>
     (case us_next us of None \<Rightarrow> m = 0
      | Some backup \<Rightarrow> \<not> ps_single backup \<and> length (ps_peer backup) = m \<and> ps_number backup = m)"

definition tries_inv :: "nat \<Rightarrow> nat \<Rightarrow> (bool \<times> nat) set \<Rightarrow> rr_data \<Rightarrow> bool" where
  "tries_inv n m seen rrp \<longleftrightarrow> n \<le> 64 * length (rd_tried rrp) \<and> m \<le> 64 * length (rd_tried rrp) \<and>
     (\<forall>i. (rd_backup rrp, i) \<in> seen \<longrightarrow> is_tried (rd_tried rrp) i) \<and>
     (\<not> rd_backup rrp \<longrightarrow> (\<forall>i. (True, i) \<notin> seen))"

lemma get_from_tries:
  assumes "get_from now peers rrp = Some (peers', rrp')" "\<not> ps_single peers" "length (ps_peer peers) \<le> 64 * length (rd_tried rrp)"
  shows "\<exists>p < length (ps_peer peers). rd_current rrp' = Some p \<and> rd_backup rrp' = rd_backup rrp \<and>
    \<not> is_tried (rd_tried rrp) p \<and> rd_tried rrp' = set_tried (rd_tried rrp) p \<and>
    (\<forall>i. is_tried (rd_tried rrp') i \<longleftrightarrow> is_tried (rd_tried rrp) i \<or> i = p)"
proof -
  obtain p qs tried where got: "ngx_http_upstream_get_peer now (ps_peer peers) (rd_tried rrp) = Some (p, qs, tried)"
    and rrp': "rrp' = rrp\<lparr>rd_current := Some p, rd_tried := tried\<rparr>"
    using assms(1,2) by (auto simp: get_from_def Let_def split: option.splits)
  have "p < length (ps_peer peers)" "\<not> is_tried (rd_tried rrp) p" "tried = set_tried (rd_tried rrp) p"
    using get_peer_Some [OF got] by (auto simp: peer_skipped_def)
  then show ?thesis
    using rrp' assms(3) by (auto simp: is_tried_set)
qed

lemma length_clear [simp]:
  "m \<le> 64 * length tried \<Longrightarrow> length (clear_tried m tried) = length tried"
proof -
  assume "m \<le> 64 * length tried"
  then have "(m + 63) div 64 < length tried + 1"
    by (intro less_mult_imp_div_less) simp
  then show ?thesis by (simp add: clear_tried_def Let_def)
qed

lemma get_backup_tries:
  assumes "get_backup now us rrp = (rc, us', rrp')" "shape n m us" "tries_inv n m seen rrp" "rd_backup rrp"
  shows "if rc = NGX_OK
    then \<exists>i. rd_current rrp' = Some i \<and> (rd_backup rrp', i) \<notin> seen \<and> i < m \<and> rd_backup rrp' \<and>
      tries_inv n m (insert (rd_backup rrp', i) seen) rrp'
    else tries_inv n m seen rrp'"
proof (cases "us_next us")
  case (Some backup)
  show ?thesis
  proof (cases "get_from now backup rrp")
    case got: (Some res)
    obtain peers rrp1 where res: "res = (peers, rrp1)" by (cases res)
    show ?thesis
      using get_from_tries [OF got [unfolded res]] assms Some got res
      by (auto simp: get_backup_def shape_def tries_inv_def)
  qed (use assms Some in \<open>auto simp: get_backup_def\<close>)
qed (use assms in \<open>auto simp: get_backup_def\<close>)

lemma get_tries:
  assumes "ngx_http_upstream_get_round_robin_peer now us rrp = (rc, us', rrp')" "shape n m us" "tries_inv n m seen rrp"
  shows "if rc = NGX_OK
    then \<exists>i. rd_current rrp' = Some i \<and> (rd_backup rrp', i) \<notin> seen \<and> i < (if rd_backup rrp' then m else n) \<and>
      tries_inv n m (insert (rd_backup rrp', i) seen) rrp'
    else tries_inv n m seen rrp'"
proof (cases "rd_backup rrp")
  case True
  then show ?thesis
    using get_backup_tries [of now us rrp rc us' rrp' n m seen] assms
    by (auto simp: ngx_http_upstream_get_round_robin_peer_def)
next
  case False
  show ?thesis
  proof (cases "get_from now (us_peers us) rrp")
    case (Some res)
    obtain peers rrp1 where res: "res = (peers, rrp1)" by (cases res)
    show ?thesis
      using get_from_tries [OF Some [unfolded res]] assms Some False res
      by (auto simp: ngx_http_upstream_get_round_robin_peer_def shape_def tries_inv_def)
  next
    case None
    show ?thesis
    proof (cases "us_next us")
      case (Some backup)
      define rrp1 where "rrp1 = rrp\<lparr>rd_backup := True, rd_tried := clear_tried (ps_number backup) (rd_tried rrp)\<rparr>"
      have "tries_inv n m seen rrp1"
        using assms(2,3) Some False by (auto simp: tries_inv_def shape_def rrp1_def)
      then show ?thesis
        using get_backup_tries [of now us rrp1 rc us' rrp' n m seen] assms(1,2) Some False None
        by (auto simp: ngx_http_upstream_get_round_robin_peer_def rrp1_def)
    qed (use assms None False in \<open>auto simp: ngx_http_upstream_get_round_robin_peer_def\<close>)
  qed
qed

lemma tries_distinct:
  assumes "\<forall>(now, us) \<in> set calls. shape n m us" "tries_inv n m seen rrp"
  shows "distinct (rr_tries calls rrp) \<and> set (rr_tries calls rrp) \<inter> seen = {} \<and>
    set (rr_tries calls rrp) \<subseteq> {False} \<times> {..<n} \<union> {True} \<times> {..<m}"
  using assms
proof (induction calls rrp arbitrary: seen rule: rr_tries.induct)
  case (2 now us rest rrp)
  obtain rc us' rrp' where got: "ngx_http_upstream_get_round_robin_peer now us rrp = (rc, us', rrp')"
    by (metis prod_cases3)
  have shape: "shape n m us" "\<forall>(now, us) \<in> set rest. shape n m us" using 2(3) by auto
  show ?case
  proof (cases "rc = NGX_OK")
    case True
    then obtain i where i: "rd_current rrp' = Some i" "(rd_backup rrp', i) \<notin> seen" "i < (if rd_backup rrp' then m else n)"
        "tries_inv n m (insert (rd_backup rrp', i) seen) rrp'"
      using get_tries [OF got shape(1) 2(4)] by auto
    then show ?thesis
      using 2(1) [OF got [symmetric] refl True shape(2) i(4)] got True by (auto split: if_splits)
  next
    case False
    then show ?thesis
      using 2(2) [OF got [symmetric] refl False shape(2)] get_tries [OF got shape(1) 2(4)] got by auto
  qed
qed simp

section \<open>Claims\<close>

text \<open>C7: connections are counted exactly.  Whatever requests do, in any interleaving and with any failures,
  the number \<open>conns\<close> of a peer is the number of requests that hold it, so it never underflows, and
  \<open>max_conns\<close> is never exceeded.\<close>

theorem rr_conns_exact:
  assumes "ngx_http_upstream_init_round_robin ok servers port resolved = Some us" "resolved \<noteq> Some []"
    and "rr_reach us s" "list_of backup (sy_us s) = Some peers" "i < length (ps_peer peers)"
  shows "pe_conns (ps_peer peers ! i) = int (holders backup i (sy_jobs s)) \<and>
    (pe_max_conns (ps_peer peers ! i) \<noteq> 0 \<longrightarrow> pe_conns (ps_peer peers ! i) \<le> pe_max_conns (ps_peer peers ! i))"
proof -
  have "peer_inv (holders backup i (sy_jobs s)) (ps_peer peers ! i)"
    using reach_inv [OF assms(3) init_fresh [OF assms(1,2)]] assms(4,5)
    by (simp add: sys_inv_def peers_inv_def)
  then show ?thesis unfolding peer_inv_def by blast
qed

definition sample_servers :: "rr_server list" where
  "sample_servers =
     [\<lparr>sv_name = str ''a'', sv_addrs = [(Sockaddr_in 1 80, str ''a1''), (Sockaddr_in 2 80, str ''a2'')], sv_weight = 2,
       sv_max_conns = 1, sv_max_fails = 1, sv_fail_timeout = 10, sv_down = False, sv_backup = False\<rparr>]"

definition sample_us :: upstream where
  "sample_us = the (ngx_http_upstream_init_round_robin (\<lambda>_. True) (Some sample_servers) 0 None)"

definition sample_sys :: rr_sys where
  "sample_sys = (case ngx_http_upstream_get_round_robin_peer 100 sample_us (new_data sample_us) of (rc, us, rrp) \<Rightarrow>
     \<lparr>sy_us = us, sy_jobs = [(new_job sample_us)\<lparr>jb_data := rrp, jb_held := (rc = NGX_OK)\<rparr>]\<rparr>)"

lemmas sample_defs =
  sample_us_def sample_servers_def ngx_http_upstream_init_round_robin_def peer_of_def
  ngx_http_upstream_get_round_robin_peer_def get_from_def ngx_http_upstream_get_peer_def new_data_def
  ngx_http_upstream_init_round_robin_peer_def tried_words_def peer_skipped_def is_tried_def set_tried_def Let_def

lemma sample_init: "ngx_http_upstream_init_round_robin (\<lambda>_. True) (Some sample_servers) 0 None = Some sample_us"
  by (simp add: sample_defs)

lemma sample_reach: "rr_reach sample_us sample_sys"
proof -
  define s where "s = \<lparr>sy_us = sample_us, sy_jobs = [new_job sample_us]\<rparr>"
  have "rr_reach sample_us s"
    using rr_reach.step [OF rr_reach.start rr_step.new, of sample_us] by (simp add: s_def)
  moreover obtain rc us rrp where got: "ngx_http_upstream_get_round_robin_peer 100 sample_us (new_data sample_us) = (rc, us, rrp)"
    by (metis prod_cases3)
  have "jb_data (new_job sample_us) = new_data sample_us" "\<not> jb_held (new_job sample_us)"
    by (simp_all add: new_job_def new_data_def split: prod.split)
  then have "rr_step s sample_sys"
    using rr_step.get [of 0 s 100 rc us rrp] got by (simp add: s_def sample_sys_def)
  ultimately show ?thesis by (rule rr_reach.step)
qed

theorem rr_conns_exact_witness:
  "pe_conns (ps_peer (us_peers (sy_us sample_sys)) ! 0) = int (holders False 0 (sy_jobs sample_sys)) \<and>
   holders False 0 (sy_jobs sample_sys) = 1 \<and> pe_conns (ps_peer (us_peers (sy_us sample_sys)) ! 0) \<le> 1"
proof -
  have lists: "list_of False (sy_us sample_sys) = Some (us_peers (sy_us sample_sys))"
    "0 < length (ps_peer (us_peers (sy_us sample_sys)))"
    by (simp_all add: list_of_def sample_sys_def sample_defs)
  have "holders False 0 (sy_jobs sample_sys) = 1"
    by (simp add: sample_sys_def sample_defs holders_def holds_def number_def)
  then show ?thesis
    using rr_conns_exact [OF sample_init _ sample_reach lists] by auto
qed

text \<open>C32: the weights.  The effective weight of a peer stays between 0 and its configured weight, and the
  current weights of a list always add up to 0.\<close>

theorem rr_weights_inv:
  assumes "ngx_http_upstream_init_round_robin ok servers port resolved = Some us" "resolved \<noteq> Some []"
    and "rr_reach us s" "list_of backup (sy_us s) = Some peers"
  shows "sum_list (map pe_current_weight (ps_peer peers)) = 0 \<and>
    list_all (\<lambda>peer. 0 \<le> pe_effective_weight peer \<and> pe_effective_weight peer \<le> pe_weight peer) (ps_peer peers)"
  using reach_inv [OF assms(3) init_fresh [OF assms(1,2)]] assms(4)
  by (auto simp: sys_inv_def peers_inv_def peer_inv_def sum_weights_def weight_ok_def list_all_length)

theorem rr_weights_inv_witness:
  "sum_list (map pe_current_weight (ps_peer (us_peers (sy_us sample_sys)))) = 0 \<and>
   map pe_current_weight (ps_peer (us_peers (sy_us sample_sys))) = [- 2, 2]"
proof -
  have "list_of False (sy_us sample_sys) = Some (us_peers (sy_us sample_sys))"
    by (simp add: list_of_def)
  moreover have "map pe_current_weight (ps_peer (us_peers (sy_us sample_sys))) = [- 2, 2]"
    by (simp add: sample_sys_def sample_defs)
  ultimately show ?thesis
    using rr_weights_inv [OF sample_init _ sample_reach] by simp
qed

definition fair_servers :: "rr_server list" where
  "fair_servers =
     [\<lparr>sv_name = str ''a'', sv_addrs = [(Sockaddr_in 1 80, str ''a'')], sv_weight = 1,
       sv_max_conns = 0, sv_max_fails = 1, sv_fail_timeout = 10, sv_down = False, sv_backup = False\<rparr>,
      \<lparr>sv_name = str ''b'', sv_addrs = [(Sockaddr_in 2 80, str ''b'')], sv_weight = 2,
       sv_max_conns = 0, sv_max_fails = 0, sv_fail_timeout = 10, sv_down = False, sv_backup = False\<rparr>]"

definition fair_us :: upstream where
  "fair_us = the (ngx_http_upstream_init_round_robin (\<lambda>_. True) (Some fair_servers) 0 None)"

text \<open>C8: fairness.  While all peers are up, no peer ever gets more than its rounded-up share of the requests,
  and after every multiple of the total weight each has got exactly its share; so every peer of
  positive weight is served at least once in as many requests as the total weight.\<close>

theorem rr_fair:
  assumes "ngx_http_upstream_init_round_robin ok servers port resolved = Some us" "resolved \<noteq> Some []"
    and "\<not> ps_single (us_peers us)" "list_all (\<lambda>peer. \<not> pe_down peer \<and> pe_max_conns peer = 0) (ps_peer (us_peers us))"
    and "0 < sum_list (weights us)" "rr_serve ops us = (picks, us')" "i < length (weights us)"
  shows "length picks = length (filter (\<lambda>ev. \<exists>now. ev = Pick now) ops) \<and>
    sum_list (weights us) * int (count_list picks i) < int (length picks) * weights us ! i + sum_list (weights us) \<and>
    (sum_list (weights us) dvd int (length picks) \<longrightarrow>
       sum_list (weights us) * int (count_list picks i) = int (length picks) * weights us ! i)"
proof -
  define ws where "ws = weights us"
  define W where "W = sum_list ws"
  have W: "0 < W" using assms(5) by (simp add: W_def ws_def)
  have start: "fair_inv ws 0 (\<lambda>_. 0) us" "ws \<noteq> []"
    using fresh_fair [OF init_fresh [OF assms(1,2)] assms(3-5)] by (simp_all add: ws_def)
  have fair: "fair_inv ws (length picks) (count_list picks) us'" and picks: "set picks \<subseteq> {..<length ws}"
    "length picks = length (filter (\<lambda>ev. \<exists>now. ev = Pick now) ops)"
    using serve_fair [OF assms(6) start] W unfolding W_def by auto
  have share: "W * int (count_list picks j) < int (length picks) * ws ! j + W" if "j < length ws" for j
    using fair that by (auto simp: fair_inv_def W_def)
  have "W * int (count_list picks i) = int (length picks) * ws ! i" if whole: "W dvd int (length picks)"
  proof -
    obtain m where m: "int (length picks) = W * m" using whole by (rule dvdE)
    have le: "int (count_list picks j) \<le> m * ws ! j" if "j < length ws" for j
    proof -
      have "W * int (count_list picks j) < W * (m * ws ! j + 1)"
        using share [OF that] m by (simp add: algebra_simps)
      then show ?thesis using W by (simp add: mult_less_cancel_left_pos)
    qed
    have "(\<Sum>j<length ws. int (count_list picks j)) = (\<Sum>j<length ws. m * ws ! j)"
    proof -
      have "(\<Sum>j<length ws. int (count_list picks j)) = int (length picks)"
        using sum_count_set [OF picks(1)] by (simp flip: of_nat_sum)
      also have "\<dots> = (\<Sum>j<length ws. m * ws ! j)"
        by (simp add: m W_def sum_list_sum_nth atLeast0LessThan flip: sum_distrib_left)
      finally show ?thesis .
    qed
    then have "int (count_list picks i) = m * ws ! i"
      using sum_mono_inv [of "\<lambda>j. int (count_list picks j)" "{..<length ws}" "\<lambda>j. m * ws ! j" i] le assms(7)
      by (simp add: ws_def)
    then show ?thesis using m by simp
  qed
  then show ?thesis
    using picks(2) share [of i] assms(7) by (simp add: W_def ws_def)
qed

theorem rr_fair_witness:
  "fst (rr_serve [Pick 0, Done 0 0, Pick 0, Pick 1] fair_us) = [1, 0, 1] \<and>
   3 * int (count_list (fst (rr_serve [Pick 0, Done 0 0, Pick 0, Pick 1] fair_us)) 1) = 3 * 2"
proof -
  have us: "ngx_http_upstream_init_round_robin (\<lambda>_. True) (Some fair_servers) 0 None = Some fair_us"
    by (simp add: fair_us_def fair_servers_def sample_defs)
  have fair: "\<not> ps_single (us_peers fair_us)" "weights fair_us = [1, 2]"
    "list_all (\<lambda>peer. \<not> pe_down peer \<and> pe_max_conns peer = 0) (ps_peer (us_peers fair_us))"
    by (simp_all add: fair_us_def fair_servers_def sample_defs weights_def)
  define res where "res = rr_serve [Pick 0, Done 0 0, Pick 0, Pick 1] fair_us"
  have "fst res = [1, 0, 1]"
    by (simp add: res_def fair_us_def fair_servers_def sample_defs ngx_http_upstream_free_round_robin_peer_def
        free_from_def free_peer_def)
  then show ?thesis
    using rr_fair [OF us _ fair(1,3) _ res_def [THEN prod.collapse [THEN trans], symmetric], of 1] fair(2)
    unfolding res_def [symmetric] by (simp add: numeral_eq_Suc)
qed



end
