(* ===== verification/Locks.thy ===== *)
theory Locks
  imports Prelude
begin

text \<open>
  The locks of \<^verbatim>\<open>src/core/ngx_rwlock.c\<close> and \<^verbatim>\<open>src/core/ngx_spinlock.c\<close>, as processes that run one atomic
  access to the shared word at a time, in any interleaving.  The pauses and \<open>ngx_sched_yield\<close> are
  steps of no effect; the counter of the spinning loop is kept.
\<close>

section \<open>Processes that share a word\<close>

text \<open>
  \<open>moves l pc\<close> are the steps a process may take: the new word and the new program counter.
\<close>

inductive lock_reach :: "('l \<Rightarrow> 'pc \<Rightarrow> ('l \<times> 'pc) list) \<Rightarrow> 'l \<Rightarrow> 'pc \<Rightarrow> nat \<Rightarrow> 'l \<Rightarrow> 'pc list \<Rightarrow> bool"
  for moves start idle n where
  init: "lock_reach moves start idle n start (replicate n idle)"
| move: "lock_reach moves start idle n l pcs \<Longrightarrow> k < length pcs \<Longrightarrow> (l', pc) \<in> set (moves l (pcs ! k)) \<Longrightarrow>
    lock_reach moves start idle n l' (pcs[k := pc])"

lemma lock_reach_length: "lock_reach moves start idle n l pcs \<Longrightarrow> length pcs = n"
  by (induction rule: lock_reach.induct) simp_all

text \<open>
  What every lock promises, whatever its word means: with at most \<open>limit\<close> processes, the word tells the
  numbers of processes that write and that read (\<open>ok\<close>), and those exclude each other.
\<close>

locale lock_protocol =
  fixes moves :: "'l \<Rightarrow> 'pc \<Rightarrow> ('l \<times> 'pc) list" and start :: 'l and idle :: 'pc
    and sane writes reads :: "'pc \<Rightarrow> bool" and ok :: "'l \<Rightarrow> nat \<Rightarrow> nat \<Rightarrow> bool" and limit :: nat
  assumes start_ok: "ok start 0 0" "\<not> writes idle" "\<not> reads idle" "sane idle"
    and move_sane: "sane pc \<Longrightarrow> (l', pc') \<in> set (moves l pc) \<Longrightarrow> sane pc'"
    and disjoint: "\<not> (writes pc \<and> reads pc)"
    and move_ok: "ok l w r \<Longrightarrow> sane pc \<Longrightarrow> (l', pc') \<in> set (moves l pc) \<Longrightarrow> (writes pc \<longrightarrow> 0 < w) \<Longrightarrow> (reads pc \<longrightarrow> 0 < r) \<Longrightarrow>
      w + r \<le> limit \<Longrightarrow> (\<not> writes pc \<and> \<not> reads pc \<longrightarrow> w + r < limit) \<Longrightarrow>
      ok l' (w - (if writes pc then 1 else 0) + (if writes pc' then 1 else 0))
            (r - (if reads pc then 1 else 0) + (if reads pc' then 1 else 0))"
    and exclusive: "ok l w r \<Longrightarrow> w + r \<le> limit \<Longrightarrow> w \<le> 1 \<and> (w = 1 \<longrightarrow> r = 0)"
begin

lemma others:
  assumes "k < length pcs" "\<not> writes (pcs ! k)" "\<not> reads (pcs ! k)"
  shows "number writes pcs + number reads pcs < length pcs"
  using assms
proof (induction pcs arbitrary: k)
  case (Cons pc pcs)
  show ?case
  proof (cases k)
    case 0
    then show ?thesis
      using Cons.prems number_disjoint [of writes reads pcs] disjoint by (simp add: number_def)
  next
    case (Suc j)
    then show ?thesis
      using Cons.IH [of j] Cons.prems disjoint by (auto simp: number_def)
  qed
qed simp

lemma reach_sane: "lock_reach moves start idle n l pcs \<Longrightarrow> list_all sane pcs"
proof (induction rule: lock_reach.induct)
  case (move l pcs k l' pc)
  then show ?case
    using move_sane by (auto simp: list_all_length nth_list_update)
qed (simp add: start_ok list_all_iff)

lemma reach_ok:
  "lock_reach moves start idle n l pcs \<Longrightarrow> n \<le> limit \<Longrightarrow> ok l (number writes pcs) (number reads pcs)"
proof (induction rule: lock_reach.induct)
  case init
  then show ?case using start_ok by (simp add: number_def)
next
  case (move l pcs k l' pc)
  have n: "number writes pcs + number reads pcs \<le> limit"
    using number_disjoint [of writes reads pcs] disjoint lock_reach_length [OF move(1)] move(5) by simp
  have "\<not> writes (pcs ! k) \<and> \<not> reads (pcs ! k) \<longrightarrow> number writes pcs + number reads pcs < limit"
    using others [OF move(2)] lock_reach_length [OF move(1)] move(5) by auto
  moreover have "sane (pcs ! k)" using reach_sane [OF move(1)] move(2) by (simp add: list_all_length)
  ultimately show ?case
    using move_ok [OF move(4) [OF move(5)] _ move(3) _ _ n]
      number_update [OF move(2), of writes pc] number_update [OF move(2), of reads pc] by simp
qed

lemma reach_exclusive:
  assumes "lock_reach moves start idle n l pcs" "n \<le> limit"
  shows "number writes pcs \<le> 1 \<and> (number writes pcs = 1 \<longrightarrow> number reads pcs = 0)"
  using exclusive [OF reach_ok [OF assms]] number_disjoint [of writes reads pcs] disjoint
    lock_reach_length [OF assms(1)] assms(2) by auto

end

text \<open>
  A process that runs alone, and the system in any interleaving.
\<close>

definition solo :: "('l \<Rightarrow> 'pc \<Rightarrow> ('l \<times> 'pc) list) \<Rightarrow> 'l \<times> 'pc \<Rightarrow> 'l \<times> 'pc \<Rightarrow> bool" where
  "solo moves = (\<lambda>(l, pc) (l', pc'). (l', pc') \<in> set (moves l pc))\<^sup>*\<^sup>*"

definition run :: "('l \<Rightarrow> 'pc \<Rightarrow> ('l \<times> 'pc) list) \<Rightarrow> 'l \<times> 'pc list \<Rightarrow> 'l \<times> 'pc list \<Rightarrow> bool" where
  "run moves = (\<lambda>(l, pcs) (l', pcs'). \<exists>k pc. k < length pcs \<and> (l', pc) \<in> set (moves l (pcs ! k)) \<and> pcs' = pcs[k := pc])\<^sup>*\<^sup>*"

lemma solo_step: "(l1, pc1) \<in> set (moves l pc) \<Longrightarrow> solo moves (l1, pc1) s \<Longrightarrow> solo moves (l, pc) s"
  unfolding solo_def by (erule converse_rtranclp_into_rtranclp [rotated]) simp

lemma solo_refl [simp]: "solo moves s s"
  by (simp add: solo_def)

lemma run_trans: "run moves s s1 \<Longrightarrow> run moves s1 s2 \<Longrightarrow> run moves s s2"
  unfolding run_def by (rule rtranclp_trans)

lemma run_refl [simp]: "run moves s s"
  by (simp add: run_def)

lemma run_solo:
  assumes "solo moves (l, pcs ! k) (l', pc')" "k < length pcs"
  shows "run moves (l, pcs) (l', pcs[k := pc'])"
  using assms(1) unfolding solo_def
proof (induction "(l', pc')" arbitrary: l' pc' rule: rtranclp_induct)
  case base
  then show ?case by (simp add: run_def)
next
  case (step s)
  obtain l1 pc1 where s: "s = (l1, pc1)" by (cases s)
  have "run moves (l, pcs) (l1, pcs[k := pc1])" using step(3) [OF s] .
  moreover have "run moves (l1, pcs[k := pc1]) (l', pcs[k := pc'])"
    using step(2) s assms(2) unfolding run_def
    by (intro r_into_rtranclp) (auto intro!: exI [of _ k] exI [of _ pc'])
  ultimately show ?case by (rule run_trans)
qed

lemma reach_run:
  assumes "run moves s s'" "lock_reach moves start idle n (fst s) (snd s)"
  shows "lock_reach moves start idle n (fst s') (snd s')"
  using assms unfolding run_def
proof (induction rule: rtranclp_induct)
  case (step s1 s2)
  then show ?case by (cases s1; cases s2) (auto intro: lock_reach.move)
qed simp

text \<open>
  A lock that can be had: a process that holds it can get back to \<open>idle\<close> by itself, and a process that
  wants it gets it when it runs alone and nobody holds it.
\<close>

locale live_lock = lock_protocol moves start idle sane writes reads ok limit
  for moves :: "'l \<Rightarrow> 'pc \<Rightarrow> ('l \<times> 'pc) list" and start idle sane writes reads ok limit +
  fixes wants gets :: "'pc \<Rightarrow> bool"
  assumes release: "ok l w r \<Longrightarrow> sane pc \<Longrightarrow> writes pc \<or> reads pc \<Longrightarrow> (writes pc \<longrightarrow> 0 < w) \<Longrightarrow> (reads pc \<longrightarrow> 0 < r) \<Longrightarrow>
      w + r \<le> limit \<Longrightarrow> \<exists>l'. solo moves (l, pc) (l', idle)"
    and acquire: "ok l 0 0 \<Longrightarrow> sane pc \<Longrightarrow> wants pc \<Longrightarrow> \<exists>l' pc'. solo moves (l, pc) (l', pc') \<and> gets pc'"
    and wants_free: "wants pc \<Longrightarrow> \<not> writes pc \<and> \<not> reads pc"
begin

lemma had:
  assumes "lock_reach moves start idle n l pcs" "n \<le> limit" "k < n" "wants (pcs ! k)"
  shows "\<exists>l' pcs'. run moves (l, pcs) (l', pcs') \<and> gets (pcs' ! k)"
  using assms
proof (induction "number writes pcs + number reads pcs" arbitrary: l pcs rule: less_induct)
  case less
  note len = lock_reach_length [OF less(2)]
  have ok: "ok l (number writes pcs) (number reads pcs)" and sane: "list_all sane pcs"
    using reach_ok [OF less(2,3)] reach_sane [OF less(2)] by simp_all
  show ?case
  proof (cases "number writes pcs + number reads pcs = 0")
    case True
    then obtain l' pc' where "solo moves (l, pcs ! k) (l', pc')" "gets pc'"
      using acquire [of l "pcs ! k"] ok sane less(4,5) len by (auto simp: list_all_length)
    then have "run moves (l, pcs) (l', pcs[k := pc'])" "gets (pcs[k := pc'] ! k)"
      using run_solo less(4) len by auto
    then show ?thesis by blast
  next
    case False
    then obtain j where j: "j < n" "writes (pcs ! j) \<or> reads (pcs ! j)"
      using number_pos [of writes pcs] number_pos [of reads pcs] len by auto
    then have pos: "writes (pcs ! j) \<longrightarrow> 0 < number writes pcs" "reads (pcs ! j) \<longrightarrow> 0 < number reads pcs"
      using number_pos [of writes pcs] number_pos [of reads pcs] len by auto
    have "number writes pcs + number reads pcs \<le> limit"
      using number_disjoint [of writes reads pcs] disjoint len less(3) by simp
    then obtain l' where "solo moves (l, pcs ! j) (l', idle)"
      using release [OF ok _ j(2) pos] sane j(1) len by (auto simp: list_all_length)
    from run_solo [OF this] have run: "run moves (l, pcs) (l', pcs[j := idle])"
      using j(1) len by simp
    have fewer: "number writes (pcs[j := idle]) + number reads (pcs[j := idle]) < number writes pcs + number reads pcs"
      using number_update [of j pcs writes idle] number_update [of j pcs reads idle] j start_ok len
      by (auto split: if_splits)
    have "j \<noteq> k" using j(2) less(5) wants_free by blast
    then have "\<exists>l'' pcs'. run moves (l', pcs[j := idle]) (l'', pcs') \<and> gets (pcs' ! k)"
      using less(1) [OF fewer _ less(3,4)] reach_run [OF run] less(2,5) by simp
    then show ?thesis using run run_trans by blast
  qed
qed

end

section \<open>The readers-writer lock\<close>

definition NGX_RWLOCK_SPIN :: nat where "NGX_RWLOCK_SPIN = 2048"
definition NGX_RWLOCK_WLOCK :: u64 where "NGX_RWLOCK_WLOCK = -1"

text \<open>
  Where a process is: the tests and compare-and-set operations of \<open>ngx_rwlock_wlock\<close> (\<open>Wl\<close>),
  \<open>ngx_rwlock_rlock\<close> (\<open>Rl\<close>), \<open>ngx_rwlock_unlock\<close> (\<open>Un\<close>, with what the process holds) and \<open>ngx_rwlock_downgrade\<close>
  (\<open>Dg\<close>); the number is \<open>n\<close> of the spinning loop, 0 outside of it.
\<close>

datatype rw_pc =
    Rw_idle | Wl_test nat | Wl_cas nat | Rl_read nat | Rl_cas nat u64 | Rw_writing | Rw_reading
  | Un_read bool | Un_wcas | Un_rcas u64 | Un_reread | Dg_test | Dg_set

text \<open>After a failed attempt: the next value of \<open>n\<close>; \<open>multi\<close> is \<open>ngx_ncpu > 1\<close>.\<close>

definition spin_next :: "bool \<Rightarrow> nat \<Rightarrow> nat \<Rightarrow> nat" where
  "spin_next multi limit n =
     (if \<not> multi then 0
      else let n = (if n = 0 then 1 else 2 * n) in if n < limit then n else 0)"

fun rw_moves :: "bool \<Rightarrow> u64 \<Rightarrow> rw_pc \<Rightarrow> (u64 \<times> rw_pc) list" where
  "rw_moves multi l Rw_idle = [(l, Wl_test 0), (l, Rl_read 0)]"
| "rw_moves multi l (Wl_test n) = [(l, if l = 0 then Wl_cas n else Wl_test (spin_next multi NGX_RWLOCK_SPIN n))]"
| "rw_moves multi l (Wl_cas n) =
     [if l = 0 then (NGX_RWLOCK_WLOCK, Rw_writing) else (l, Wl_test (spin_next multi NGX_RWLOCK_SPIN n))]"
| "rw_moves multi l (Rl_read n) =
     [(l, if l \<noteq> NGX_RWLOCK_WLOCK then Rl_cas n l else Rl_read (spin_next multi NGX_RWLOCK_SPIN n))]"
| "rw_moves multi l (Rl_cas n readers) =
     [if l = readers then (readers + 1, Rw_reading) else (l, Rl_read (spin_next multi NGX_RWLOCK_SPIN n))]"
| "rw_moves multi l Rw_writing = [(l, Un_read True), (l, Dg_test)]"
| "rw_moves multi l Rw_reading = [(l, Un_read False)]"
| "rw_moves multi l (Un_read w) = [(l, if l = NGX_RWLOCK_WLOCK then Un_wcas else Un_rcas l)]"
| "rw_moves multi l Un_wcas = [(if l = NGX_RWLOCK_WLOCK then 0 else l, Rw_idle)]"
| "rw_moves multi l (Un_rcas readers) = [if l = readers then (readers - 1, Rw_idle) else (l, Un_reread)]"
| "rw_moves multi l Un_reread = [(l, Un_rcas l)]"
| "rw_moves multi l Dg_test = [(l, if l = NGX_RWLOCK_WLOCK then Dg_set else Rw_reading)]"
| "rw_moves multi l Dg_set = [(1, Rw_reading)]"

fun rw_writes :: "rw_pc \<Rightarrow> bool" where
  "rw_writes Rw_writing = True" | "rw_writes (Un_read w) = w" | "rw_writes Un_wcas = True"
| "rw_writes Dg_test = True" | "rw_writes Dg_set = True" | "rw_writes _ = False"

fun rw_reads :: "rw_pc \<Rightarrow> bool" where
  "rw_reads Rw_reading = True" | "rw_reads (Un_read w) = (\<not> w)" | "rw_reads (Un_rcas v) = True"
| "rw_reads Un_reread = True" | "rw_reads _ = False"

fun rw_sane :: "rw_pc \<Rightarrow> bool" where
  "rw_sane (Rl_cas n v) = (v \<noteq> NGX_RWLOCK_WLOCK)" | "rw_sane _ = True"

text \<open>The word: all ones while a process writes, the number of readers otherwise.\<close>

definition rw_ok :: "u64 \<Rightarrow> nat \<Rightarrow> nat \<Rightarrow> bool" where
  "rw_ok l w r \<longleftrightarrow> (w = 0 \<and> l = word_of_nat r) \<or> (w = 1 \<and> r = 0 \<and> l = NGX_RWLOCK_WLOCK)"

definition rw_limit :: nat where "rw_limit = 2 ^ 64 - 2"

lemma readers_word: "r \<le> rw_limit \<Longrightarrow> (word_of_nat r :: u64) \<noteq> NGX_RWLOCK_WLOCK"
proof
  assume r: "r \<le> rw_limit" and eq: "(word_of_nat r :: u64) = NGX_RWLOCK_WLOCK"
  have "unat (word_of_nat r :: u64) = r" using r by (simp add: unat_of_nat rw_limit_def)
  moreover have "unat NGX_RWLOCK_WLOCK = 2 ^ 64 - 1" by (simp add: NGX_RWLOCK_WLOCK_def unsigned_minus_1_eq_mask mask_eq_exp_minus_1)
  ultimately show False using r eq by (simp add: rw_limit_def)
qed

lemma readers_zero: "r \<le> rw_limit \<Longrightarrow> (word_of_nat r :: u64) = 0 \<longleftrightarrow> r = 0"
proof -
  assume "r \<le> rw_limit"
  then have "unat (word_of_nat r :: u64) = r" by (simp add: unat_of_nat rw_limit_def)
  then show ?thesis by (auto simp flip: unat_eq_0)
qed

interpretation rwlock: lock_protocol "rw_moves multi" 0 Rw_idle rw_sane rw_writes rw_reads rw_ok rw_limit for multi
proof unfold_locales
  fix l :: u64 and w r :: nat and l' pc' pc
  assume ok: "rw_ok l w r" and sane: "rw_sane pc" and move: "(l', pc') \<in> set (rw_moves multi l pc)"
    and held: "rw_writes pc \<longrightarrow> 0 < w" "rw_reads pc \<longrightarrow> 0 < r"
    and lim: "w + r \<le> rw_limit" "\<not> rw_writes pc \<and> \<not> rw_reads pc \<longrightarrow> w + r < rw_limit"
  have word: "(word_of_nat r :: u64) \<noteq> NGX_RWLOCK_WLOCK" "(word_of_nat r :: u64) = 0 \<longleftrightarrow> r = 0"
    using readers_word readers_zero lim by simp_all
  have "NGX_RWLOCK_WLOCK \<noteq> 0" by (simp add: NGX_RWLOCK_WLOCK_def)
  then show "rw_ok l' (w - (if rw_writes pc then 1 else 0) + (if rw_writes pc' then 1 else 0))
      (r - (if rw_reads pc then 1 else 0) + (if rw_reads pc' then 1 else 0))"
    using ok sane move held word by (cases pc) (auto simp: rw_ok_def of_nat_diff split: if_splits)
next
  fix l l' :: u64 and pc pc'
  assume "rw_sane pc" "(l', pc') \<in> set (rw_moves multi l pc)"
  then show "rw_sane pc'" by (cases pc) (auto split: if_splits)
next
  fix pc
  show "\<not> (rw_writes pc \<and> rw_reads pc)" by (cases pc) simp_all
qed (auto simp: rw_ok_def)


text \<open>Whoever wants the lock can have it, as a writer and as a reader.\<close>

fun rw_wants_write :: "rw_pc \<Rightarrow> bool" where
  "rw_wants_write (Wl_test n) = True" | "rw_wants_write (Wl_cas n) = True" | "rw_wants_write _ = False"

fun rw_wants_read :: "rw_pc \<Rightarrow> bool" where
  "rw_wants_read (Rl_read n) = True" | "rw_wants_read (Rl_cas n v) = True" | "rw_wants_read _ = False"

lemma rw_release:
  assumes "rw_ok l w r" "rw_writes pc \<or> rw_reads pc" "rw_writes pc \<longrightarrow> 0 < w" "rw_reads pc \<longrightarrow> 0 < r" "w + r \<le> rw_limit"
  shows "\<exists>l'. solo (rw_moves multi) (l, pc) (l', Rw_idle)"
proof -
  have rcas: "solo (rw_moves multi) (l, Un_rcas l) (l - 1, Rw_idle)" for l
    by (rule solo_step [OF _ solo_refl]) simp
  have wcas: "solo (rw_moves multi) (l, Un_wcas) (if l = NGX_RWLOCK_WLOCK then 0 else l, Rw_idle)" for l
    by (rule solo_step [OF _ solo_refl]) simp
  have read: "\<exists>l'. solo (rw_moves multi) (l, Un_read h) (l', Rw_idle)" for l h
    using solo_step [of l _ "rw_moves multi" l "Un_read h"] rcas [of l] wcas [of l]
    by (cases "l = NGX_RWLOCK_WLOCK") auto
  have reread: "\<exists>l'. solo (rw_moves multi) (l, Un_reread) (l', Rw_idle)" for l
    using solo_step [of l "Un_rcas l" "rw_moves multi" l Un_reread] rcas [of l] by auto
  have reading: "\<exists>l'. solo (rw_moves multi) (l, Rw_reading) (l', Rw_idle)" for l
    using solo_step [of l "Un_read False" "rw_moves multi" l Rw_reading] read [of l False] by auto
  have set: "\<exists>l'. solo (rw_moves multi) (l, Dg_set) (l', Rw_idle)" for l
    using solo_step [of 1 Rw_reading "rw_moves multi" l Dg_set] reading [of 1] by auto
  show ?thesis
  proof (cases pc)
    case (Un_rcas v)
    show ?thesis
    proof (cases "v = l")
      case False
      then show ?thesis
        using solo_step [of l Un_reread "rw_moves multi" l "Un_rcas v"] reread [of l] Un_rcas by auto
    qed (use rcas Un_rcas in auto)
  next
    case Rw_writing
    then show ?thesis
      using solo_step [of l "Un_read True" "rw_moves multi" l pc] read [of l True] by auto
  next
    case Dg_test
    show ?thesis
      using solo_step [of l _ "rw_moves multi" l Dg_test] reading [of l] set [of l] Dg_test
      by (cases "l = NGX_RWLOCK_WLOCK") auto
  qed (use assms(2) wcas read reread reading set in auto)
qed

interpretation rw_writer: live_lock "rw_moves multi" 0 Rw_idle rw_sane rw_writes rw_reads rw_ok rw_limit
    rw_wants_write "\<lambda>pc. pc = Rw_writing" for multi
proof unfold_locales
  fix l :: u64 and pc
  assume "rw_ok l 0 0" "rw_sane pc" "rw_wants_write pc"
  then have l: "l = 0" by (simp add: rw_ok_def)
  have cas: "solo (rw_moves multi) (0, Wl_cas n) (NGX_RWLOCK_WLOCK, Rw_writing)" for n
    by (rule solo_step [OF _ solo_refl]) simp
  have "solo (rw_moves multi) (0, Wl_test n) (NGX_RWLOCK_WLOCK, Rw_writing)" for n
    by (rule solo_step [OF _ cas]) simp
  then show "\<exists>l' pc'. solo (rw_moves multi) (l, pc) (l', pc') \<and> pc' = Rw_writing"
    using \<open>rw_wants_write pc\<close> l cas by (cases pc) auto
next
  fix pc
  show "rw_wants_write pc \<Longrightarrow> \<not> rw_writes pc \<and> \<not> rw_reads pc" by (cases pc) simp_all
qed (rule rw_release)

interpretation rw_reader: live_lock "rw_moves multi" 0 Rw_idle rw_sane rw_writes rw_reads rw_ok rw_limit
    rw_wants_read "\<lambda>pc. pc = Rw_reading" for multi
proof unfold_locales
  fix l :: u64 and pc
  assume "rw_ok l 0 0" "rw_sane pc" "rw_wants_read pc"
  then have l: "l = 0" by (simp add: rw_ok_def)
  have cas: "solo (rw_moves multi) (0, Rl_cas n 0) (1, Rw_reading)" for n
    by (rule solo_step [OF _ solo_refl]) simp
  have read: "solo (rw_moves multi) (0, Rl_read n) (1, Rw_reading)" for n
    by (rule solo_step [OF _ cas]) (simp add: NGX_RWLOCK_WLOCK_def)
  have "solo (rw_moves multi) (0, Rl_cas n v) (1, Rw_reading)" for n v
  proof (cases "v = 0")
    case False
    then show ?thesis by (intro solo_step [OF _ read [of "spin_next multi NGX_RWLOCK_SPIN n"]]) simp
  qed (use cas in simp)
  then show "\<exists>l' pc'. solo (rw_moves multi) (l, pc) (l', pc') \<and> pc' = Rw_reading"
    using \<open>rw_wants_read pc\<close> l read by (cases pc) auto
next
  fix pc
  show "rw_wants_read pc \<Longrightarrow> \<not> rw_writes pc \<and> \<not> rw_reads pc" by (cases pc) simp_all
qed (rule rw_release)


section \<open>The spinning lock\<close>

text \<open>\<open>ngx_spinlock\<close> with a \<open>value\<close> and a limit \<open>spin\<close>; \<open>ngx_unlock\<close> stores 0.\<close>

datatype sp_pc = Sp_idle | Sp_test nat | Sp_cas nat | Sp_held

fun sp_moves :: "u64 \<Rightarrow> nat \<Rightarrow> bool \<Rightarrow> u64 \<Rightarrow> sp_pc \<Rightarrow> (u64 \<times> sp_pc) list" where
  "sp_moves v spin multi l Sp_idle = [(l, Sp_test 0)]"
| "sp_moves v spin multi l (Sp_test n) = [(l, if l = 0 then Sp_cas n else Sp_test (spin_next multi spin n))]"
| "sp_moves v spin multi l (Sp_cas n) = [if l = 0 then (v, Sp_held) else (l, Sp_test (spin_next multi spin n))]"
| "sp_moves v spin multi l Sp_held = [(0, Sp_idle)]"

definition sp_ok :: "u64 \<Rightarrow> u64 \<Rightarrow> nat \<Rightarrow> nat \<Rightarrow> bool" where
  "sp_ok v l w r \<longleftrightarrow> r = 0 \<and> (w = 0 \<and> l = 0 \<or> w = 1 \<and> l = v)"

fun sp_wants :: "sp_pc \<Rightarrow> bool" where
  "sp_wants (Sp_test n) = True" | "sp_wants (Sp_cas n) = True" | "sp_wants _ = False"

text \<open>The one user of it, \<^verbatim>\<open>src/core/ngx_thread_pool.c\<close>, passes the value 1.\<close>

interpretation spinlock: live_lock "sp_moves 1 spin multi" 0 Sp_idle "\<lambda>_. True" "\<lambda>pc. pc = Sp_held" "\<lambda>_. False"
    "sp_ok 1" m sp_wants "\<lambda>pc. pc = Sp_held" for spin multi m
proof unfold_locales
  fix l :: u64 and w r :: nat and l' pc' pc
  assume "sp_ok 1 l w r" "(l', pc') \<in> set (sp_moves 1 spin multi l pc)" "pc = Sp_held \<longrightarrow> 0 < w"
  then show "sp_ok 1 l' (w - (if pc = Sp_held then 1 else 0) + (if pc' = Sp_held then 1 else 0))
      (r - (if False then 1 else 0) + (if False then 1 else 0))"
    by (cases pc) (auto simp: sp_ok_def split: if_splits)
next
  fix l :: u64 and w r :: nat and pc
  assume "pc = Sp_held \<or> False"
  then show "\<exists>l'. solo (sp_moves 1 spin multi) (l, pc) (l', Sp_idle)"
    by (intro exI [of _ 0] solo_step [OF _ solo_refl]) simp
next
  fix l :: u64 and pc
  assume "sp_ok 1 l 0 0" "sp_wants pc"
  moreover have cas: "solo (sp_moves 1 spin multi) (0, Sp_cas n) (1, Sp_held)" for n
    by (rule solo_step [OF _ solo_refl]) simp
  moreover have "solo (sp_moves 1 spin multi) (0, Sp_test n) (1, Sp_held)" for n
    by (rule solo_step [OF _ cas]) simp
  ultimately show "\<exists>l' pc'. solo (sp_moves 1 spin multi) (l, pc) (l', pc') \<and> pc' = Sp_held"
    by (cases pc) (auto simp: sp_ok_def)
next
  fix pc
  show "sp_wants pc \<Longrightarrow> pc \<noteq> Sp_held \<and> \<not> False" by (cases pc) simp_all
qed (auto simp: sp_ok_def)

section \<open>Claims\<close>

text \<open>C11: the readers-writer lock excludes.  With fewer than \<open>2^64 - 1\<close> processes, in any interleaving of their
  memory accesses, at most one process writes and then none reads, and the word is exactly the number of
  readers, or all ones for a writer; so an unlock never takes away another process's share.\<close>

theorem rwlock_exclusion:
  assumes "lock_reach (rw_moves multi) 0 Rw_idle n l pcs" "n \<le> 2 ^ 64 - 2"
  shows "number rw_writes pcs \<le> 1 \<and> (number rw_writes pcs = 1 \<longrightarrow> number rw_reads pcs = 0) \<and>
    l = (if number rw_writes pcs = 1 then NGX_RWLOCK_WLOCK else word_of_nat (number rw_reads pcs))"
proof -
  have n: "n \<le> rw_limit" using assms(2) by (simp add: rw_limit_def)
  show ?thesis
    using rwlock.reach_exclusive [OF assms(1) n] rwlock.reach_ok [OF assms(1) n] by (auto simp: rw_ok_def)
qed

lemma two_readers: "lock_reach (rw_moves False) 0 Rw_idle 2 2 [Rw_reading, Rw_reading]"
proof -
  have "lock_reach (rw_moves False) 0 Rw_idle 2 0 [Rw_idle, Rw_idle]"
    using lock_reach.init [of "rw_moves False" 0 Rw_idle 2] by (simp add: numeral_eq_Suc)
  from lock_reach.move [OF this, of 0 0 "Rl_read 0"]
  have "lock_reach (rw_moves False) 0 Rw_idle 2 0 [Rl_read 0, Rw_idle]" by simp
  from lock_reach.move [OF this, of 0 0 "Rl_cas 0 0"]
  have "lock_reach (rw_moves False) 0 Rw_idle 2 0 [Rl_cas 0 0, Rw_idle]" by (simp add: NGX_RWLOCK_WLOCK_def)
  from lock_reach.move [OF this, of 0 1 Rw_reading]
  have "lock_reach (rw_moves False) 0 Rw_idle 2 1 [Rw_reading, Rw_idle]" by simp
  from lock_reach.move [OF this, of 1 1 "Rl_read 0"]
  have "lock_reach (rw_moves False) 0 Rw_idle 2 1 [Rw_reading, Rl_read 0]" by simp
  from lock_reach.move [OF this, of 1 1 "Rl_cas 0 1"]
  have "lock_reach (rw_moves False) 0 Rw_idle 2 1 [Rw_reading, Rl_cas 0 1]" by (simp add: NGX_RWLOCK_WLOCK_def)
  from lock_reach.move [OF this, of 1 2 Rw_reading] show ?thesis by simp
qed

theorem rwlock_exclusion_witness:
  "number rw_writes [Rw_reading, Rw_reading] \<le> 1 \<and> (2 :: u64) = word_of_nat (number rw_reads [Rw_reading, Rw_reading])"
  using rwlock_exclusion [OF two_readers] by (simp add: number_def)

text \<open>C30: the readers-writer lock never locks up.  From every state the processes can get into, and for every
  process that is waiting to write or to read, there is a continuation in which it gets the lock.\<close>

theorem rwlock_progress:
  assumes "lock_reach (rw_moves multi) 0 Rw_idle n l pcs" "n \<le> 2 ^ 64 - 2" "k < n"
    and "rw_wants_write (pcs ! k) \<or> rw_wants_read (pcs ! k)"
  shows "\<exists>l' pcs'. run (rw_moves multi) (l, pcs) (l', pcs') \<and>
    pcs' ! k = (if rw_wants_write (pcs ! k) then Rw_writing else Rw_reading)"
proof -
  have n: "n \<le> rw_limit" using assms(2) by (simp add: rw_limit_def)
  show ?thesis
    using rw_writer.had [OF assms(1) n assms(3)] rw_reader.had [OF assms(1) n assms(3)] assms(4) by auto
qed

theorem rwlock_progress_witness:
  "\<exists>l' pcs'. run (rw_moves False) (2, [Rw_reading, Rw_reading, Wl_test 0]) (l', pcs') \<and> pcs' ! 2 = Rw_writing"
proof -
  have "lock_reach (rw_moves False) 0 Rw_idle 3 0 [Rw_idle, Rw_idle, Rw_idle]"
    using lock_reach.init [of "rw_moves False" 0 Rw_idle 3] by (simp add: numeral_eq_Suc)
  from lock_reach.move [OF this, of 2 0 "Wl_test 0"]
  have "lock_reach (rw_moves False) 0 Rw_idle 3 0 [Rw_idle, Rw_idle, Wl_test 0]" by simp
  from lock_reach.move [OF this, of 0 0 "Rl_read 0"]
  have "lock_reach (rw_moves False) 0 Rw_idle 3 0 [Rl_read 0, Rw_idle, Wl_test 0]" by simp
  from lock_reach.move [OF this, of 0 0 "Rl_cas 0 0"]
  have "lock_reach (rw_moves False) 0 Rw_idle 3 0 [Rl_cas 0 0, Rw_idle, Wl_test 0]" by (simp add: NGX_RWLOCK_WLOCK_def)
  from lock_reach.move [OF this, of 0 1 Rw_reading]
  have "lock_reach (rw_moves False) 0 Rw_idle 3 1 [Rw_reading, Rw_idle, Wl_test 0]" by simp
  from lock_reach.move [OF this, of 1 1 "Rl_read 0"]
  have "lock_reach (rw_moves False) 0 Rw_idle 3 1 [Rw_reading, Rl_read 0, Wl_test 0]" by simp
  from lock_reach.move [OF this, of 1 1 "Rl_cas 0 1"]
  have "lock_reach (rw_moves False) 0 Rw_idle 3 1 [Rw_reading, Rl_cas 0 1, Wl_test 0]" by (simp add: NGX_RWLOCK_WLOCK_def)
  from lock_reach.move [OF this, of 1 2 Rw_reading]
  have "lock_reach (rw_moves False) 0 Rw_idle 3 2 [Rw_reading, Rw_reading, Wl_test 0]" by simp
  from rwlock_progress [OF this, of 2] show ?thesis by simp
qed

end
