(* ===== verification/Shmtx.thy ===== *)
theory Shmtx
  imports Locks
begin

text \<open>
  The mutex in shared memory of \<^verbatim>\<open>src/core/ngx_shmtx.c\<close> (the version with atomic operations and a POSIX
  semaphore): processes take, try, release it, wait for it on the semaphore and wake each other, one
  access to shared memory at a time; a process may die, and the master may then unlock by force.
\<close>

section \<open>State\<close>

text \<open>
  \<open>*mtx->lock\<close> (0 or the id of the process that has it), \<open>*mtx->wait\<close> (signed), and the value of the
  semaphore.
\<close>

record shm =
  sm_lock :: nat
  sm_wait :: int
  sm_sem :: nat

text \<open>
  Where a process is: in \<open>ngx_shmtx_lock\<close> (\<open>Lk\<close>: test and compare-and-set with the counter \<open>n\<close> of the
  spinning loop, adding itself to the waiters, test and compare-and-set once more, \<open>sem_wait\<close>), in
  \<open>ngx_shmtx_trylock\<close> (\<open>Tl\<close>), \<open>ngx_shmtx_unlock\<close> (\<open>Ul\<close>) or \<open>ngx_shmtx_wakeup\<close> (\<open>Wk\<close>).
\<close>

datatype sm_pc =
    Sm_idle | Lk_test nat | Lk_cas nat | Lk_add | Lk_test2 | Lk_cas2 | Lk_sub | Lk_sem
  | Sm_held | Tl_test | Tl_cas | Ul_cas | Wk_read | Wk_cas int | Wk_post | Sm_dead

text \<open>After a failed attempt of the loop: spin on, or wait on the semaphore, or yield and start again.\<close>

definition lk_next :: "bool \<Rightarrow> bool \<Rightarrow> nat \<Rightarrow> nat \<Rightarrow> sm_pc" where
  "lk_next semaphore multi spin n =
     (let n1 = (if n = 0 then 1 else 2 * n)
      in if multi \<and> n1 < spin then Lk_test n1 else if semaphore then Lk_add else Lk_test 0)"

text \<open>
  The steps of a process with id \<open>pid\<close>.  \<open>sem_wait\<close> has no step while the semaphore is 0 (an
  interruption starts it again); \<open>sem_post\<close> does not fail.
\<close>

fun sm_moves :: "nat \<Rightarrow> bool \<Rightarrow> bool \<Rightarrow> nat \<Rightarrow> shm \<Rightarrow> sm_pc \<Rightarrow> (shm \<times> sm_pc) list" where
  "sm_moves pid semaphore multi spin s Sm_idle = [(s, Lk_test 0), (s, Tl_test)]"
| "sm_moves pid semaphore multi spin s (Lk_test n) =
     [(s, if sm_lock s = 0 then Lk_cas n else lk_next semaphore multi spin n)]"
| "sm_moves pid semaphore multi spin s (Lk_cas n) =
     [if sm_lock s = 0 then (s\<lparr>sm_lock := pid\<rparr>, Sm_held) else (s, lk_next semaphore multi spin n)]"
| "sm_moves pid semaphore multi spin s Lk_add = [(s\<lparr>sm_wait := sm_wait s + 1\<rparr>, Lk_test2)]"
| "sm_moves pid semaphore multi spin s Lk_test2 = [(s, if sm_lock s = 0 then Lk_cas2 else Lk_sem)]"
| "sm_moves pid semaphore multi spin s Lk_cas2 =
     [if sm_lock s = 0 then (s\<lparr>sm_lock := pid\<rparr>, Lk_sub) else (s, Lk_sem)]"
| "sm_moves pid semaphore multi spin s Lk_sub = [(s\<lparr>sm_wait := sm_wait s - 1\<rparr>, Sm_held)]"
| "sm_moves pid semaphore multi spin s Lk_sem =
     (if sm_sem s = 0 then [] else [(s\<lparr>sm_sem := sm_sem s - 1\<rparr>, Lk_test 0)])"
| "sm_moves pid semaphore multi spin s Sm_held = [(s, Ul_cas)]"
| "sm_moves pid semaphore multi spin s Tl_test = [(s, if sm_lock s = 0 then Tl_cas else Sm_idle)]"
| "sm_moves pid semaphore multi spin s Tl_cas = [if sm_lock s = 0 then (s\<lparr>sm_lock := pid\<rparr>, Sm_held) else (s, Sm_idle)]"
| "sm_moves pid semaphore multi spin s Ul_cas =
     [if sm_lock s = pid then (s\<lparr>sm_lock := 0\<rparr>, if semaphore then Wk_read else Sm_idle) else (s, Sm_idle)]"
| "sm_moves pid semaphore multi spin s Wk_read =
     [(s, if sm_wait s \<le> 0 then Sm_idle else Wk_cas (sm_wait s))]"
| "sm_moves pid semaphore multi spin s (Wk_cas w) =
     [if sm_wait s = w then (s\<lparr>sm_wait := w - 1\<rparr>, Wk_post) else (s, Wk_read)]"
| "sm_moves pid semaphore multi spin s Wk_post = [(s\<lparr>sm_sem := sm_sem s + 1\<rparr>, Sm_idle)]"
| "sm_moves pid semaphore multi spin s Sm_dead = []"

text \<open>\<open>ngx_shmtx_force_unlock\<close> for a process \<open>pid\<close>: the new state and where the caller goes on.\<close>

definition ngx_shmtx_force_unlock :: "bool \<Rightarrow> nat \<Rightarrow> shm \<Rightarrow> shm \<times> sm_pc" where
  "ngx_shmtx_force_unlock semaphore pid s =
     (if sm_lock s = pid then (s\<lparr>sm_lock := 0\<rparr>, if semaphore then Wk_read else Sm_idle) else (s, Sm_idle))"

text \<open>
  The system of \<open>n\<close> processes with ids \<open>pid k\<close>.  \<open>crash\<close> allows processes to die; the master, itself one
  of the processes and not busy with the mutex, unlocks for the dead only
  (\<open>ngx_unlock_mutexes\<close> of \<^verbatim>\<open>src/os/unix/ngx_process.c\<close>).
\<close>

inductive sm_reach :: "(nat \<Rightarrow> nat) \<Rightarrow> bool \<Rightarrow> bool \<Rightarrow> nat \<Rightarrow> bool \<Rightarrow> nat \<Rightarrow> shm \<Rightarrow> sm_pc list \<Rightarrow> bool"
  for pid semaphore multi spin crash n where
  init: "sm_reach pid semaphore multi spin crash n \<lparr>sm_lock = 0, sm_wait = 0, sm_sem = 0\<rparr> (replicate n Sm_idle)"
| move: "sm_reach pid semaphore multi spin crash n s pcs \<Longrightarrow> k < length pcs \<Longrightarrow>
    (s', pc) \<in> set (sm_moves (pid k) semaphore multi spin s (pcs ! k)) \<Longrightarrow>
    sm_reach pid semaphore multi spin crash n s' (pcs[k := pc])"
| die: "sm_reach pid semaphore multi spin crash n s pcs \<Longrightarrow> crash \<Longrightarrow> k < length pcs \<Longrightarrow>
    sm_reach pid semaphore multi spin crash n s (pcs[k := Sm_dead])"
| force: "sm_reach pid semaphore multi spin crash n s pcs \<Longrightarrow> k < length pcs \<Longrightarrow> j < length pcs \<Longrightarrow>
    pcs ! k = Sm_idle \<Longrightarrow> pcs ! j = Sm_dead \<Longrightarrow> ngx_shmtx_force_unlock semaphore (pid j) s = (s', pc) \<Longrightarrow>
    sm_reach pid semaphore multi spin crash n s' (pcs[k := pc])"

section \<open>Invariants\<close>

definition holding :: "sm_pc \<Rightarrow> bool" where
  "holding pc \<longleftrightarrow> pc = Lk_sub \<or> pc = Sm_held \<or> pc = Ul_cas"

definition waiting :: "sm_pc \<Rightarrow> bool" where
  "waiting pc \<longleftrightarrow> pc = Lk_test2 \<or> pc = Lk_cas2 \<or> pc = Lk_sub \<or> pc = Lk_sem"

definition posting :: "sm_pc \<Rightarrow> bool" where
  "posting pc \<longleftrightarrow> pc = Wk_post"

text \<open>Busy with the mutex, not asleep, and bound to go on until it has the mutex or has woken a waiter.\<close>

fun busy :: "sm_pc \<Rightarrow> bool" where
  "busy (Lk_test n) = True" | "busy (Lk_cas n) = True" | "busy Lk_add = True" | "busy Lk_test2 = True"
| "busy Lk_cas2 = True" | "busy Wk_read = True" | "busy (Wk_cas w) = True" | "busy Wk_post = True" | "busy _ = False"

definition owner_inv :: "(nat \<Rightarrow> nat) \<Rightarrow> shm \<Rightarrow> sm_pc list \<Rightarrow> bool" where
  "owner_inv pid s pcs \<longleftrightarrow> (\<forall>k < length pcs. holding (pcs ! k) \<longrightarrow> sm_lock s = pid k)"

definition sem_inv :: "shm \<Rightarrow> sm_pc list \<Rightarrow> bool" where
  "sem_inv s pcs \<longleftrightarrow> sm_wait s + int (sm_sem s) + int (number posting pcs) = int (number waiting pcs)"

definition lock_inv :: "(nat \<Rightarrow> nat) \<Rightarrow> shm \<Rightarrow> sm_pc list \<Rightarrow> bool" where
  "lock_inv pid s pcs \<longleftrightarrow> (sm_lock s \<noteq> 0 \<longrightarrow>
     (\<exists>k < length pcs. sm_lock s = pid k \<and> (holding (pcs ! k) \<or> pcs ! k = Sm_dead)))"

definition awake_inv :: "shm \<Rightarrow> sm_pc list \<Rightarrow> bool" where
  "awake_inv s pcs \<longleftrightarrow> ((\<exists>k < length pcs. pcs ! k = Lk_sem) \<longrightarrow>
     0 < sm_sem s \<or> (\<exists>j < length pcs. busy (pcs ! j) \<or> holding (pcs ! j)))"

lemma lk_next_simps [simp]:
  "\<not> holding (lk_next semaphore multi spin n)" "\<not> waiting (lk_next semaphore multi spin n)"
  "\<not> posting (lk_next semaphore multi spin n)" "busy (lk_next semaphore multi spin n)"
  "lk_next semaphore multi spin n \<noteq> Sm_dead" "lk_next semaphore multi spin n \<noteq> Lk_sem"
  by (auto simp: lk_next_def Let_def holding_def waiting_def posting_def)

lemma pc_simps [simp]:
  "\<not> holding Sm_idle" "\<not> holding (Lk_test n)" "\<not> holding (Lk_cas n)" "\<not> holding Lk_add" "\<not> holding Lk_test2"
  "\<not> holding Lk_cas2" "holding Lk_sub" "\<not> holding Lk_sem" "holding Sm_held" "\<not> holding Tl_test" "\<not> holding Tl_cas"
  "holding Ul_cas" "\<not> holding Wk_read" "\<not> holding (Wk_cas w)" "\<not> holding Wk_post" "\<not> holding Sm_dead"
  "\<not> waiting Sm_idle" "\<not> waiting (Lk_test n)" "\<not> waiting (Lk_cas n)" "\<not> waiting Lk_add" "waiting Lk_test2"
  "waiting Lk_cas2" "waiting Lk_sub" "waiting Lk_sem" "\<not> waiting Sm_held" "\<not> waiting Tl_test" "\<not> waiting Tl_cas"
  "\<not> waiting Ul_cas" "\<not> waiting Wk_read" "\<not> waiting (Wk_cas w)" "\<not> waiting Wk_post" "\<not> waiting Sm_dead"
  "posting Wk_post" "\<not> posting Sm_idle" "\<not> posting (Lk_test n)" "\<not> posting (Lk_cas n)" "\<not> posting Lk_add" "\<not> posting Lk_test2"
  "\<not> posting Lk_cas2" "\<not> posting Lk_sub" "\<not> posting Lk_sem" "\<not> posting Sm_held" "\<not> posting Tl_test" "\<not> posting Tl_cas"
  "\<not> posting Ul_cas" "\<not> posting Wk_read" "\<not> posting (Wk_cas w)" "\<not> posting Sm_dead"
  by (simp_all add: holding_def waiting_def posting_def)

text \<open>What a step does to the lock: nothing, or it takes a free one, or it releases its own.\<close>

lemma move_lock:
  assumes "(s', pc') \<in> set (sm_moves pid semaphore multi spin s pc)" "holding pc \<longrightarrow> sm_lock s = pid"
  shows "sm_lock s' = sm_lock s \<and> (holding pc' \<longleftrightarrow> holding pc) \<or> sm_lock s = 0 \<and> sm_lock s' = pid \<and> holding pc' \<or>
    sm_lock s = pid \<and> sm_lock s' = 0 \<and> holding pc \<and> \<not> holding pc'"
  using assms by (cases pc) (auto split: if_splits)

text \<open>What it does to the count of the waiters.\<close>

lemma move_sem:
  assumes "(s', pc') \<in> set (sm_moves pid semaphore multi spin s pc)"
  shows "sm_wait s' + int (sm_sem s') + (if posting pc' then 1 else 0) - (if waiting pc' then 1 else 0) =
    sm_wait s + int (sm_sem s) + (if posting pc then 1 else 0) - (if waiting pc then 1 else 0)"
  using assms by (cases pc) (auto split: if_splits)

text \<open>And what it leaves behind: somebody awake, unless nobody needs it.\<close>

lemma move_awake:
  assumes "(s', pc') \<in> set (sm_moves pid True multi spin s pc)" "holding pc \<longrightarrow> sm_lock s = pid"
  shows "busy pc' \<or> holding pc' \<or> 0 < sm_sem s' \<or>
    \<not> busy pc \<and> \<not> holding pc \<and> pc' \<noteq> Lk_sem \<and> sm_sem s' = sm_sem s \<or>
    pc' = Lk_sem \<and> sm_lock s \<noteq> 0 \<and> \<not> holding pc \<or>
    pc = Wk_read \<and> pc' = Sm_idle \<and> s' = s \<and> sm_wait s \<le> 0"
  using assms by (cases pc) (auto split: if_splits)

definition distinct_ids :: "(nat \<Rightarrow> nat) \<Rightarrow> nat \<Rightarrow> bool" where
  "distinct_ids pid n \<longleftrightarrow> (\<forall>k < n. 0 < pid k) \<and> inj_on pid {..<n}"

lemma move_owner:
  assumes "distinct_ids pid n" "owner_inv pid s pcs" "k < length pcs" "length pcs = n"
    "(s', pc) \<in> set (sm_moves (pid k) semaphore multi spin s (pcs ! k))"
  shows "owner_inv pid s' (pcs[k := pc])"
proof -
  have "holding (pcs ! k) \<longrightarrow> sm_lock s = pid k" using assms(2,3) by (simp add: owner_inv_def)
  note moved = move_lock [OF assms(5) this]
  have "sm_lock s' = pid i" if i: "i < length pcs" "holding (pcs[k := pc] ! i)" for i
  proof (cases "i = k")
    case True
    then show ?thesis using moved assms(2,3) i by (auto simp: owner_inv_def)
  next
    case False
    then have "sm_lock s = pid i" using assms(2) i by (simp add: owner_inv_def)
    moreover have "0 < pid i" "pid i \<noteq> pid k"
      using assms(1,3,4) i(1) False by (auto simp: distinct_ids_def dest: inj_onD)
    ultimately show ?thesis using moved by auto
  qed
  then show ?thesis by (simp add: owner_inv_def)
qed

lemma lock_inv_owner:
  "i < length pcs \<Longrightarrow> sm_lock s = pid i \<Longrightarrow> holding (pcs ! i) \<or> pcs ! i = Sm_dead \<Longrightarrow> lock_inv pid s pcs"
  by (auto simp: lock_inv_def)

lemma move_lock_inv:
  assumes "owner_inv pid s pcs" "lock_inv pid s pcs" "k < length pcs"
    "(s', pc) \<in> set (sm_moves (pid k) semaphore multi spin s (pcs ! k))"
  shows "lock_inv pid s' (pcs[k := pc])"
proof -
  have own: "holding (pcs ! k) \<longrightarrow> sm_lock s = pid k" using assms(1,3) by (simp add: owner_inv_def)
  have alive: "pcs ! k \<noteq> Sm_dead" using assms(4) by auto
  consider (same) "sm_lock s' = sm_lock s" "holding pc \<longleftrightarrow> holding (pcs ! k)" | (took) "sm_lock s' = pid k" "holding pc"
    | (free) "sm_lock s' = 0"
    using move_lock [OF assms(4) own] by metis
  then show ?thesis
  proof cases
    case same
    show ?thesis
    proof (cases "sm_lock s = 0")
      case False
      then obtain i where i: "i < length pcs" "sm_lock s = pid i" "holding (pcs ! i) \<or> pcs ! i = Sm_dead"
        using assms(2) by (auto simp: lock_inv_def)
      then show ?thesis
        using same alive by (cases "i = k") (auto intro!: lock_inv_owner [of i])
    qed (use same in \<open>simp add: lock_inv_def\<close>)
  next
    case took
    then show ?thesis using assms(3) by (intro lock_inv_owner [of k]) auto
  next
    case free
    then show ?thesis by (simp add: lock_inv_def)
  qed
qed

lemma reach_owner:
  "sm_reach pid semaphore multi spin crash n s pcs \<Longrightarrow> distinct_ids pid n \<Longrightarrow>
   length pcs = n \<and> owner_inv pid s pcs \<and> lock_inv pid s pcs"
proof (induction rule: sm_reach.induct)
  case init
  then show ?case by (simp add: owner_inv_def lock_inv_def)
next
  case (move s pcs k s' pc)
  then show ?case
    using move_owner [of pid n s pcs k s' pc semaphore multi spin] move_lock_inv [of pid s pcs k s' pc semaphore multi spin]
    by simp
next
  case (die s pcs k)
  have "lock_inv pid s (pcs[k := Sm_dead])"
  proof (cases "sm_lock s = 0")
    case False
    then obtain i where "i < length pcs" "sm_lock s = pid i" "holding (pcs ! i) \<or> pcs ! i = Sm_dead"
      using die by (auto simp: lock_inv_def)
    then show ?thesis by (cases "i = k") (auto intro!: lock_inv_owner [of i])
  qed (simp add: lock_inv_def)
  then show ?case using die by (auto simp: owner_inv_def nth_list_update)
next
  case (force s pcs k j s' pc)
  have free: "\<not> holding (pcs ! i)" if "i < length pcs" "sm_lock s = pid j" for i
    using force that by (auto simp: owner_inv_def distinct_ids_def dest: inj_onD)
  have pc: "\<not> holding pc" using force(6) by (auto simp: ngx_shmtx_force_unlock_def split: if_splits)
  have "lock_inv pid s' (pcs[k := pc])"
  proof (cases "sm_lock s' = 0")
    case False
    then have s': "s' = s" using force(6) by (auto simp: ngx_shmtx_force_unlock_def split: if_splits)
    then obtain i where "i < length pcs" "sm_lock s = pid i" "holding (pcs ! i) \<or> pcs ! i = Sm_dead"
      using force False by (auto simp: lock_inv_def)
    then show ?thesis using force(4) s' by (cases "i = k") (auto intro!: lock_inv_owner [of i])
  qed (simp add: lock_inv_def)
  moreover have "owner_inv pid s' (pcs[k := pc])"
    using force free pc by (auto simp: ngx_shmtx_force_unlock_def owner_inv_def nth_list_update split: if_splits)
  ultimately show ?case using force by simp
qed

lemma reach_alive: "sm_reach pid semaphore multi spin False n s pcs \<Longrightarrow> \<forall>k < length pcs. pcs ! k \<noteq> Sm_dead"
proof (induction rule: sm_reach.induct)
  case (move s pcs k s' pc)
  have "pc \<noteq> Sm_dead" using move(3) by (cases "pcs ! k") (auto split: if_splits)
  then show ?case using move by (auto simp: nth_list_update)
qed auto

lemma reach_sem: "sm_reach pid semaphore multi spin False n s pcs \<Longrightarrow> sem_inv s pcs"
proof (induction rule: sm_reach.induct)
  case init
  then show ?case by (simp add: sem_inv_def number_def)
next
  case (move s pcs k s' pc)
  then show ?case
    using move_sem [OF move(3)] number_update [OF move(2), of waiting pc] number_update [OF move(2), of posting pc]
    by (auto simp: sem_inv_def of_nat_diff split: if_splits)
next
  case (force s pcs k j s' pc)
  then show ?case using reach_alive by blast
qed simp

lemma awake_other:
  assumes "awake_inv s pcs" "\<not> busy (pcs ! k)" "\<not> holding (pcs ! k)" "pc \<noteq> Lk_sem" "sm_sem s' = sm_sem s"
  shows "awake_inv s' (pcs[k := pc])"
  unfolding awake_inv_def
proof
  assume "\<exists>i < length (pcs[k := pc]). pcs[k := pc] ! i = Lk_sem"
  then obtain i where "i < length pcs" "pcs ! i = Lk_sem"
    using assms(4) by (metis length_list_update nth_list_update_eq nth_list_update_neq)
  then consider "0 < sm_sem s" | j where "j < length pcs" "busy (pcs ! j) \<or> holding (pcs ! j)"
    using assms(1) by (auto simp: awake_inv_def)
  then show "0 < sm_sem s' \<or> (\<exists>j < length (pcs[k := pc]). busy (pcs[k := pc] ! j) \<or> holding (pcs[k := pc] ! j))"
  proof cases
    case (2 j)
    then have "j \<noteq> k" using assms(2,3) by auto
    then show ?thesis using 2 by (auto intro!: exI [of _ j])
  qed (use assms(5) in simp)
qed

lemma reach_awake:
  "sm_reach pid True multi spin False n s pcs \<Longrightarrow> distinct_ids pid n \<Longrightarrow> awake_inv s pcs"
proof (induction rule: sm_reach.induct)
  case init
  then show ?case by (auto simp: awake_inv_def)
next
  case (move s pcs k s' pc)
  have inv: "owner_inv pid s pcs" "lock_inv pid s pcs" "length pcs = n"
    using reach_owner [OF move(1,5)] by simp_all
  have "holding (pcs ! k) \<longrightarrow> sm_lock s = pid k" using inv(1) move(2) by (simp add: owner_inv_def)
  from move_awake [OF move(3) this] consider
      (here) "busy pc \<or> holding pc" | (sem) "0 < sm_sem s'"
    | (other) "\<not> busy (pcs ! k)" "\<not> holding (pcs ! k)" "pc \<noteq> Lk_sem" "sm_sem s' = sm_sem s"
    | (asleep) "sm_lock s \<noteq> 0" "\<not> holding (pcs ! k)"
    | (quit) "pcs ! k = Wk_read" "pc = Sm_idle" "s' = s" "sm_wait s \<le> 0"
    by metis
  then show ?case
  proof cases
    case here
    then show ?thesis using move(2) by (auto simp: awake_inv_def intro!: exI [of _ k])
  next
    case sem
    then show ?thesis by (simp add: awake_inv_def)
  next
    case other
    then show ?thesis using awake_other [OF move(4) [OF move(5)]] by simp
  next
    case asleep
    then obtain i where "i < length pcs" "holding (pcs ! i)"
      using inv(2) reach_alive [OF move(1)] by (auto simp: lock_inv_def)
    then show ?thesis
      using asleep(2) by (cases "i = k") (auto simp: awake_inv_def intro!: exI [of _ i])
  next
    case quit
    have "number waiting pcs \<le> sm_sem s + number posting pcs"
      using reach_sem [OF move(1)] quit(4) by (simp add: sem_inv_def)
    moreover have "0 < number waiting pcs" if "i < length pcs" "pcs ! i = Lk_sem" for i
      unfolding number_pos using that by (intro exI [of _ i]) simp
    moreover have "\<exists>j < length pcs. busy (pcs[k := pc] ! j)" if posts: "0 < number posting pcs"
    proof -
      obtain j where "j < length pcs" "pcs ! j = Wk_post"
        using posts number_pos [of posting pcs] by (auto simp: posting_def)
      then show ?thesis using quit(1) by (cases "j = k") (auto intro!: exI [of _ j])
    qed
    moreover have "i < length pcs \<and> pcs ! i = Lk_sem" if "i < length pcs" "pcs[k := pc] ! i = Lk_sem" for i
      using that quit(2) by (cases "i = k") auto
    ultimately have "0 < sm_sem s \<or> (\<exists>j < length pcs. busy (pcs[k := pc] ! j))"
      if "i < length pcs" "pcs[k := pc] ! i = Lk_sem" for i
      using that by fastforce
    then show ?thesis using quit(3) by (auto simp: awake_inv_def)
  qed
next
  case (force s pcs k j s' pc)
  then show ?case using reach_alive by blast
qed simp

section \<open>Claims\<close>

text \<open>C12: mutual exclusion.  Whatever the processes do, also when some die and the master unlocks for them,
  at most one process is in possession of the mutex, and the lock word is its id.\<close>

theorem shmtx_exclusion:
  assumes "sm_reach pid semaphore multi spin crash n s pcs" "distinct_ids pid n"
    and "j < n" "k < n" "holding (pcs ! j)" "holding (pcs ! k)"
  shows "j = k \<and> sm_lock s = pid k"
proof -
  have "sm_lock s = pid j" "sm_lock s = pid k"
    using reach_owner [OF assms(1,2)] assms(3-6) unfolding owner_inv_def by blast+
  then show ?thesis using assms(2-4) by (auto simp: distinct_ids_def dest: inj_onD)
qed

definition sm_init :: shm where
  "sm_init = \<lparr>sm_lock = 0, sm_wait = 0, sm_sem = 0\<rparr>"

text \<open>The first process takes the mutex and the second goes to sleep.\<close>

lemma sample_sleep:
  "sm_reach Suc True False 2048 crash 2 \<lparr>sm_lock = 1, sm_wait = 1, sm_sem = 0\<rparr> [Sm_held, Lk_sem]"
proof -
  let ?R = "sm_reach Suc True False 2048 crash 2"
  have "?R sm_init [Sm_idle, Sm_idle]"
    using sm_reach.init [of Suc True False 2048 crash 2] by (simp add: numeral_eq_Suc sm_init_def)
  from sm_reach.move [OF this, of 0 sm_init "Lk_test 0"] have "?R sm_init [Lk_test 0, Sm_idle]" by simp
  from sm_reach.move [OF this, of 0 sm_init "Lk_cas 0"] have "?R sm_init [Lk_cas 0, Sm_idle]" by (simp add: sm_init_def)
  from sm_reach.move [OF this, of 0 "sm_init\<lparr>sm_lock := 1\<rparr>" Sm_held]
  have "?R (sm_init\<lparr>sm_lock := 1\<rparr>) [Sm_held, Sm_idle]" by (simp add: sm_init_def)
  from sm_reach.move [OF this, of 1 "sm_init\<lparr>sm_lock := 1\<rparr>" "Lk_test 0"]
  have "?R (sm_init\<lparr>sm_lock := 1\<rparr>) [Sm_held, Lk_test 0]" by simp
  from sm_reach.move [OF this, of 1 "sm_init\<lparr>sm_lock := 1\<rparr>" Lk_add]
  have "?R (sm_init\<lparr>sm_lock := 1\<rparr>) [Sm_held, Lk_add]" by (simp add: sm_init_def lk_next_def)
  from sm_reach.move [OF this, of 1 "sm_init\<lparr>sm_lock := 1, sm_wait := 1\<rparr>" Lk_test2]
  have "?R (sm_init\<lparr>sm_lock := 1, sm_wait := 1\<rparr>) [Sm_held, Lk_test2]" by (simp add: sm_init_def)
  from sm_reach.move [OF this, of 1 "sm_init\<lparr>sm_lock := 1, sm_wait := 1\<rparr>" Lk_sem]
  show ?thesis by (simp add: sm_init_def)
qed

lemma sample_ids: "distinct_ids Suc 2"
  by (simp add: distinct_ids_def)

theorem shmtx_exclusion_witness:
  "sm_lock \<lparr>sm_lock = 1, sm_wait = 1, sm_sem = 0\<rparr> = Suc 0"
  using shmtx_exclusion [OF sample_sleep sample_ids, of 0 0] by simp



end
