(* ===== verification/RadixTree.thy ===== *)
theory RadixTree
  imports Sockaddr
begin

text \<open>
  The radix tree of \<^verbatim>\<open>src/core/ngx_radix_tree.c\<close>, for 32-bit and 128-bit keys, on an explicit memory: nodes
  with pointers to their children and their parent, and a free list threaded through the \<open>right\<close>
  pointers.  A node is an index into the list of nodes that have been allocated.
\<close>

section \<open>State\<close>

record radix_node =
  rn_right :: "nat option"
  rn_left :: "nat option"
  rn_parent :: "nat option"
  rn_value :: u64

record radix_tree =
  rt_root :: nat
  rt_free :: "nat option"
  rt_size :: nat
  rt_nodes :: "radix_node list"

definition NGX_RADIX_NO_VALUE :: u64 where "NGX_RADIX_NO_VALUE = -1"

text \<open>\<open>sizeof(ngx_radix_node_t)\<close> of a 64-bit build.\<close>

definition radix_node_size :: nat where "radix_node_size = 32"

text \<open>Reading and writing fields of a node.\<close>

definition node_at :: "radix_tree \<Rightarrow> nat \<Rightarrow> radix_node" where
  "node_at t a = rt_nodes t ! a"

definition set_node :: "nat \<Rightarrow> radix_node \<Rightarrow> radix_tree \<Rightarrow> radix_tree" where
  "set_node a n t = t\<lparr>rt_nodes := (rt_nodes t)[a := n]\<rparr>"

definition child :: "bool \<Rightarrow> radix_node \<Rightarrow> nat option" where
  "child right n = (if right then rn_right n else rn_left n)"

definition set_child :: "bool \<Rightarrow> nat option \<Rightarrow> radix_node \<Rightarrow> radix_node" where
  "set_child right c n = (if right then n\<lparr>rn_right := c\<rparr> else n\<lparr>rn_left := c\<rparr>)"

text \<open>
  \<open>ngx_radix_alloc\<close>: from the free list, or from the current page, or from a new page, whose
  allocation succeeds if \<open>ok\<close> says so for the number of nodes so far.  A node of a page has no
  contents yet.
\<close>

definition blank :: radix_node where
  "blank = \<lparr>rn_right = None, rn_left = None, rn_parent = None, rn_value = 0\<rparr>"

definition ngx_radix_alloc :: "(nat \<Rightarrow> bool) \<Rightarrow> nat \<Rightarrow> radix_tree \<Rightarrow> (nat \<times> radix_tree) option" where
  "ngx_radix_alloc ok pagesize t =
     (case rt_free t of
        Some p \<Rightarrow> Some (p, t\<lparr>rt_free := rn_right (node_at t p)\<rparr>)
      | None \<Rightarrow>
          if rt_size t < radix_node_size \<and> \<not> ok (length (rt_nodes t)) then None
          else
            let sz = (if rt_size t < radix_node_size then pagesize else rt_size t)
            in Some (length (rt_nodes t),
                     t\<lparr>rt_size := sz - radix_node_size, rt_nodes := rt_nodes t @ [blank]\<rparr>))"

text \<open>A new node under \<open>node\<close>, which its caller hangs in.\<close>

definition new_child :: "nat \<Rightarrow> bool \<Rightarrow> nat \<Rightarrow> radix_tree \<Rightarrow> radix_tree" where
  "new_child node right p t =
     (let t = set_node p \<lparr>rn_right = None, rn_left = None, rn_parent = Some node, rn_value = NGX_RADIX_NO_VALUE\<rparr> t
      in set_node node (set_child right (Some p) (node_at t node)) t)"

definition set_value :: "nat \<Rightarrow> u64 \<Rightarrow> radix_tree \<Rightarrow> radix_tree" where
  "set_value node v t = set_node node ((node_at t node)\<lparr>rn_value := v\<rparr>) t"

section \<open>32-bit keys\<close>

lemma shr_less: "b AND m \<noteq> 0 \<Longrightarrow> unat (drop_bit (Suc 0) b) < unat (b :: 'a::len word)"
proof -
  assume "b AND m \<noteq> 0"
  then have "b \<noteq> 0" by auto
  then have "0 < unat b" by (simp add: unat_gt_0)
  moreover have "unat (drop_bit (Suc 0) b) = unat b div 2"
    using unat_drop_bit_eq [of "Suc 0" b] by (simp add: drop_bit_eq_div)
  ultimately show ?thesis by simp
qed

text \<open>
  The first loop of \<open>ngx_radix32tree_insert\<close>: \<open>bit\<close>, \<open>node\<close> and \<open>next\<close> when it ends.
\<close>

function descend32 :: "radix_tree \<Rightarrow> u32 \<Rightarrow> u32 \<Rightarrow> u32 \<Rightarrow> nat \<Rightarrow> u32 \<times> nat \<times> nat option" where
  "descend32 t key msk b node =
     (if b AND msk \<noteq> 0 then
        (case child (key AND b \<noteq> 0) (node_at t node) of
           None \<Rightarrow> (b, node, None)
         | Some next_node \<Rightarrow> descend32 t key msk (drop_bit 1 b) next_node)
      else (b, node, Some node))"
  by pat_completeness auto
termination
  by (relation "measure (\<lambda>(t, key, msk, b, node). unat b)") (auto intro: shr_less)

text \<open>The second loop, which makes the missing nodes.\<close>

function grow32 ::
    "(nat \<Rightarrow> bool) \<Rightarrow> nat \<Rightarrow> u32 \<Rightarrow> u32 \<Rightarrow> u32 \<Rightarrow> nat \<Rightarrow> radix_tree \<Rightarrow> ngx_rc \<times> nat \<times> radix_tree" where
  "grow32 ok pagesize key msk b node t =
     (if b AND msk \<noteq> 0 then
        (case ngx_radix_alloc ok pagesize t of
           None \<Rightarrow> (NGX_ERROR, node, t)
         | Some (p, t) \<Rightarrow> grow32 ok pagesize key msk (drop_bit 1 b) p (new_child node (key AND b \<noteq> 0) p t))
      else (NGX_OK, node, t))"
  by pat_completeness auto
termination
  by (relation "measure (\<lambda>(ok, pagesize, key, msk, b, node, t). unat b)") (auto intro: shr_less)

declare descend32.simps [simp del] grow32.simps [simp del]

definition ngx_radix32tree_insert ::
    "(nat \<Rightarrow> bool) \<Rightarrow> nat \<Rightarrow> radix_tree \<Rightarrow> u32 \<Rightarrow> u32 \<Rightarrow> u64 \<Rightarrow> ngx_rc \<times> radix_tree" where
  "ngx_radix32tree_insert ok pagesize t key msk v =
     (case descend32 t key msk 0x80000000 (rt_root t) of
        (b, node, Some _) \<Rightarrow>
          if rn_value (node_at t node) \<noteq> NGX_RADIX_NO_VALUE then (NGX_BUSY, t) else (NGX_OK, set_value node v t)
      | (b, node, None) \<Rightarrow>
          (case grow32 ok pagesize key msk b node t of (rc, node, t) \<Rightarrow>
             if rc = NGX_OK then (NGX_OK, set_value node v t) else (rc, t)))"

text \<open>
  Deleting.  The second loop removes a node and then the ancestors that are not needed any more; it
  dereferences the parent of the first node, so that the result is \<open>Null_pointer\<close> for the root.
  \<open>None\<close> stands for a loop that does not end.
\<close>

datatype 'a ended = Returns 'a | Null_pointer

definition cut_node :: "nat \<Rightarrow> nat \<Rightarrow> radix_tree \<Rightarrow> radix_tree" where
  "cut_node node parent t =
     (let t = set_node parent
                (if rn_right (node_at t parent) = Some node then (node_at t parent)\<lparr>rn_right := None\<rparr>
                 else (node_at t parent)\<lparr>rn_left := None\<rparr>) t;
          t = set_node node ((node_at t node)\<lparr>rn_right := rt_free t\<rparr>) t
      in t\<lparr>rt_free := Some node\<rparr>)"

partial_function (option) delete_up :: "nat \<Rightarrow> radix_tree \<Rightarrow> radix_tree ended option" where
  [code]: "delete_up node t =
     (case rn_parent (node_at t node) of
        None \<Rightarrow> Some Null_pointer
      | Some parent \<Rightarrow>
          (let t = cut_node node parent t
           in if rn_right (node_at t parent) \<noteq> None \<or> rn_left (node_at t parent) \<noteq> None then Some (Returns t)
              else if rn_value (node_at t parent) \<noteq> NGX_RADIX_NO_VALUE then Some (Returns t)
              else if rn_parent (node_at t parent) = None then Some (Returns t)
              else delete_up parent t))"

function seek32 :: "radix_tree \<Rightarrow> u32 \<Rightarrow> u32 \<Rightarrow> u32 \<Rightarrow> nat option \<Rightarrow> nat option" where
  "seek32 t key msk b node =
     (case node of
        None \<Rightarrow> None
      | Some a \<Rightarrow>
          if b AND msk \<noteq> 0 then seek32 t key msk (drop_bit 1 b) (child (key AND b \<noteq> 0) (node_at t a)) else node)"
  by pat_completeness auto
termination
  by (relation "measure (\<lambda>(t, key, msk, b, node). unat b)") (auto intro: shr_less)

declare seek32.simps [simp del]

text \<open>What the two \<open>delete\<close> functions do with the node that they have found.\<close>

definition delete_node :: "radix_tree \<Rightarrow> nat option \<Rightarrow> (ngx_rc \<times> radix_tree) ended option" where
  "delete_node t node =
     (case node of
        None \<Rightarrow> Some (Returns (NGX_ERROR, t))
      | Some a \<Rightarrow>
          if rn_right (node_at t a) \<noteq> None \<or> rn_left (node_at t a) \<noteq> None then
            (if rn_value (node_at t a) \<noteq> NGX_RADIX_NO_VALUE
             then Some (Returns (NGX_OK, set_value a NGX_RADIX_NO_VALUE t))
             else Some (Returns (NGX_ERROR, t)))
          else
            (case delete_up a t of
               None \<Rightarrow> None
             | Some Null_pointer \<Rightarrow> Some Null_pointer
             | Some (Returns t) \<Rightarrow> Some (Returns (NGX_OK, t))))"

definition ngx_radix32tree_delete :: "radix_tree \<Rightarrow> u32 \<Rightarrow> u32 \<Rightarrow> (ngx_rc \<times> radix_tree) ended option" where
  "ngx_radix32tree_delete t key msk = delete_node t (seek32 t key msk 0x80000000 (Some (rt_root t)))"

partial_function (option) find32 :: "radix_tree \<Rightarrow> u32 \<Rightarrow> u32 \<Rightarrow> nat option \<Rightarrow> u64 \<Rightarrow> u64 option" where
  [code]: "find32 t key b node v =
     (case node of
        None \<Rightarrow> Some v
      | Some a \<Rightarrow>
          (let v = (if rn_value (node_at t a) \<noteq> NGX_RADIX_NO_VALUE then rn_value (node_at t a) else v)
           in find32 t key (drop_bit 1 b) (child (key AND b \<noteq> 0) (node_at t a)) v))"

definition ngx_radix32tree_find :: "radix_tree \<Rightarrow> u32 \<Rightarrow> u64 option" where
  "ngx_radix32tree_find t key = find32 t key 0x80000000 (Some (rt_root t)) NGX_RADIX_NO_VALUE"

section \<open>128-bit keys\<close>

text \<open>
  The loops walk over the 16 bytes of the key: \<open>i\<close> is the byte and \<open>b\<close> the bit in it.
\<close>

definition next_bit :: "nat \<Rightarrow> u8 \<Rightarrow> nat \<times> u8" where
  "next_bit i b = (let b = drop_bit 1 b in if b = 0 then (i + 1, 0x80) else (i, b))"

lemma next_bit_less:
  assumes "b AND m \<noteq> 0" "i < 16" "(j, c) = next_bit i b"
  shows "\<not> 16 - j < 16 - i \<Longrightarrow> 16 - j = 16 - i" "\<not> 16 - j < 16 - i \<Longrightarrow> unat c < unat b"
  using assms shr_less [OF assms(1)] by (auto simp: next_bit_def Let_def split: if_splits)

function descend128 :: "radix_tree \<Rightarrow> bytes \<Rightarrow> bytes \<Rightarrow> nat \<Rightarrow> u8 \<Rightarrow> nat \<Rightarrow> nat \<times> u8 \<times> nat \<times> nat option" where
  "descend128 t key msk i b node =
     (if i < 16 \<and> b AND msk ! i \<noteq> 0 then
        (case child (key ! i AND b \<noteq> 0) (node_at t node) of
           None \<Rightarrow> (i, b, node, None)
         | Some next_node \<Rightarrow> (case next_bit i b of (i, b) \<Rightarrow> descend128 t key msk i b next_node))
      else (i, b, node, Some node))"
  by pat_completeness auto
termination
  by (relation "measures [\<lambda>(t, key, msk, i, b, node). 16 - i, \<lambda>(t, key, msk, i, b, node). unat b]")
    (auto intro: next_bit_less)

function grow128 ::
    "(nat \<Rightarrow> bool) \<Rightarrow> nat \<Rightarrow> bytes \<Rightarrow> bytes \<Rightarrow> nat \<Rightarrow> u8 \<Rightarrow> nat \<Rightarrow> radix_tree \<Rightarrow> ngx_rc \<times> nat \<times> radix_tree" where
  "grow128 ok pagesize key msk i b node t =
     (if i < 16 \<and> b AND msk ! i \<noteq> 0 then
        (case ngx_radix_alloc ok pagesize t of
           None \<Rightarrow> (NGX_ERROR, node, t)
         | Some (p, t1) \<Rightarrow>
             (case next_bit i b of (j, c) \<Rightarrow>
                grow128 ok pagesize key msk j c p (new_child node (key ! i AND b \<noteq> 0) p t1)))
      else (NGX_OK, node, t))"
  by pat_completeness auto
termination
  by (relation "measures [\<lambda>(ok, pagesize, key, msk, i, b, node, t). 16 - i,
        \<lambda>(ok, pagesize, key, msk, i, b, node, t). unat b]")
    (auto intro: next_bit_less)

declare descend128.simps [simp del] grow128.simps [simp del]

definition ngx_radix128tree_insert ::
    "(nat \<Rightarrow> bool) \<Rightarrow> nat \<Rightarrow> radix_tree \<Rightarrow> bytes \<Rightarrow> bytes \<Rightarrow> u64 \<Rightarrow> ngx_rc \<times> radix_tree" where
  "ngx_radix128tree_insert ok pagesize t key msk v =
     (case descend128 t key msk 0 0x80 (rt_root t) of
        (i, b, node, Some _) \<Rightarrow>
          if rn_value (node_at t node) \<noteq> NGX_RADIX_NO_VALUE then (NGX_BUSY, t) else (NGX_OK, set_value node v t)
      | (i, b, node, None) \<Rightarrow>
          (case grow128 ok pagesize key msk i b node t of (rc, node, t) \<Rightarrow>
             if rc = NGX_OK then (NGX_OK, set_value node v t) else (rc, t)))"

function seek128 :: "radix_tree \<Rightarrow> bytes \<Rightarrow> bytes \<Rightarrow> nat \<Rightarrow> u8 \<Rightarrow> nat option \<Rightarrow> nat option" where
  "seek128 t key msk i b node =
     (case node of
        None \<Rightarrow> None
      | Some a \<Rightarrow>
          if i < 16 \<and> b AND msk ! i \<noteq> 0
          then (case next_bit i b of (j, c) \<Rightarrow> seek128 t key msk j c (child (key ! i AND b \<noteq> 0) (node_at t a)))
          else node)"
  by pat_completeness auto
termination
  by (relation "measures [\<lambda>(t, key, msk, i, b, node). 16 - i, \<lambda>(t, key, msk, i, b, node). unat b]")
    (auto intro: next_bit_less)

declare seek128.simps [simp del]

definition ngx_radix128tree_delete :: "radix_tree \<Rightarrow> bytes \<Rightarrow> bytes \<Rightarrow> (ngx_rc \<times> radix_tree) ended option" where
  "ngx_radix128tree_delete t key msk = delete_node t (seek128 t key msk 0 0x80 (Some (rt_root t)))"

text \<open>
  \<open>ngx_radix128tree_find\<close> does not stop at the 16th byte: at a node for all of the 128 bits it reads the
  byte behind the key, \<open>beyond\<close>.
\<close>

definition key_byte :: "bytes \<Rightarrow> (nat \<Rightarrow> u8) \<Rightarrow> nat \<Rightarrow> u8" where
  "key_byte key beyond i = (if i < length key then key ! i else beyond i)"

partial_function (option) find128 ::
    "radix_tree \<Rightarrow> bytes \<Rightarrow> (nat \<Rightarrow> u8) \<Rightarrow> nat \<Rightarrow> u8 \<Rightarrow> nat option \<Rightarrow> u64 \<Rightarrow> u64 option" where
  [code]: "find128 t key beyond i b node v =
     (case node of
        None \<Rightarrow> Some v
      | Some a \<Rightarrow>
          (let v = (if rn_value (node_at t a) \<noteq> NGX_RADIX_NO_VALUE then rn_value (node_at t a) else v)
           in case next_bit i b of (j, c) \<Rightarrow>
                find128 t key beyond j c (child (key_byte key beyond i AND b \<noteq> 0) (node_at t a)) v))"

definition ngx_radix128tree_find :: "radix_tree \<Rightarrow> bytes \<Rightarrow> (nat \<Rightarrow> u8) \<Rightarrow> u64 option" where
  "ngx_radix128tree_find t key beyond = find128 t key beyond 0 0x80 (Some (rt_root t)) NGX_RADIX_NO_VALUE"

section \<open>Making a tree\<close>

text \<open>
  The loops that preallocate the nodes of the first bits: \<open>level\<close> is the \<open>do\<close> loop, which ends when \<open>key\<close>
  wraps around to 0.  \<open>None\<close> when an allocation fails.
\<close>

partial_function (option) prealloc_level ::
    "(nat \<Rightarrow> bool) \<Rightarrow> nat \<Rightarrow> u32 \<Rightarrow> u32 \<Rightarrow> u32 \<Rightarrow> radix_tree \<Rightarrow> radix_tree option" where
  [code]: "prealloc_level ok pagesize msk inc key t =
     (case ngx_radix32tree_insert ok pagesize t key msk NGX_RADIX_NO_VALUE of (rc, t) \<Rightarrow>
        if rc \<noteq> NGX_OK then None
        else let key = key + inc in if key = 0 then Some t else prealloc_level ok pagesize msk inc key t)"

fun prealloc :: "(nat \<Rightarrow> bool) \<Rightarrow> nat \<Rightarrow> nat \<Rightarrow> u32 \<Rightarrow> u32 \<Rightarrow> radix_tree \<Rightarrow> radix_tree option" where
  "prealloc ok pagesize 0 msk inc t = Some t"
| "prealloc ok pagesize (Suc preallocate) msk inc t =
     (let msk = drop_bit 1 msk OR 0x80000000
      in case prealloc_level ok pagesize msk inc 0 t of
           None \<Rightarrow> None
         | Some t \<Rightarrow> prealloc ok pagesize preallocate msk (drop_bit 1 inc) t)"

definition empty_tree :: "(nat \<Rightarrow> bool) \<Rightarrow> nat \<Rightarrow> radix_tree option" where
  "empty_tree ok pagesize =
     (case ngx_radix_alloc ok pagesize \<lparr>rt_root = 0, rt_free = None, rt_size = 0, rt_nodes = []\<rparr> of
        None \<Rightarrow> None
      | Some (root, t) \<Rightarrow>
          Some (set_node root \<lparr>rn_right = None, rn_left = None, rn_parent = None, rn_value = NGX_RADIX_NO_VALUE\<rparr>
                 (t\<lparr>rt_root := root\<rparr>)))"

text \<open>\<open>tree_ok\<close> tells whether the allocation of the tree itself succeeds; \<open>-1\<close> asks for a page of nodes.\<close>

definition ngx_radix_tree_create :: "bool \<Rightarrow> (nat \<Rightarrow> bool) \<Rightarrow> nat \<Rightarrow> int \<Rightarrow> radix_tree option" where
  "ngx_radix_tree_create tree_ok ok pagesize preallocate =
     (if \<not> tree_ok then None
      else case empty_tree ok pagesize of
             None \<Rightarrow> None
           | Some t \<Rightarrow>
               (let n = (if preallocate = -1 then
                           (if pagesize div radix_node_size = 128 then 6
                            else if pagesize div radix_node_size = 256 then 7 else 8)
                         else nat preallocate)
                in prealloc ok pagesize n 0 0x80000000 t))"

end
