(* ===== verification/RadixTreeSpec.thy ===== *)
theory RadixTreeSpec
  imports RadixTree
begin

text \<open>
  What the radix tree means: a map from bit strings (prefixes) to values.  Insertion and deletion update
  the map, the search returns the value of the longest prefix of the key, for 32-bit and for
  128-bit keys; the memory stays a tree with a free list of its own.
\<close>

section \<open>Paths\<close>

fun walk :: "radix_tree \<Rightarrow> nat option \<Rightarrow> bool list \<Rightarrow> nat option" where
  "walk t node [] = node"
| "walk t None (d # ds) = None"
| "walk t (Some a) (d # ds) = walk t (child d (node_at t a)) ds"

lemma walk_None [simp]: "walk t None p = None"
  by (cases p) simp_all

lemma walk_append: "walk t node (p @ q) = walk t (walk t node p) q"
  by (induction t node p rule: walk.induct) simp_all

lemma walk_snoc: "walk t node (p @ [d]) = (case walk t node p of None \<Rightarrow> None | Some a \<Rightarrow> child d (node_at t a))"
  by (simp add: walk_append split: option.split)

text \<open>The node of a path.\<close>

definition at :: "radix_tree \<Rightarrow> bool list \<Rightarrow> nat option" where
  "at t p = walk t (Some (rt_root t)) p"

lemma at_Nil [simp]: "at t [] = Some (rt_root t)"
  by (simp add: at_def)

lemma at_snoc: "at t (p @ [d]) = (case at t p of None \<Rightarrow> None | Some a \<Rightarrow> child d (node_at t a))"
  by (simp add: at_def walk_snoc)

lemma at_eqI:
  assumes "g [] = Some (rt_root t)"
    and "\<And>p d. g (p @ [d]) = (case g p of None \<Rightarrow> None | Some a \<Rightarrow> child d (node_at t a))"
  shows "at t = g"
proof
  show "at t p = g p" for p
    by (induction p rule: rev_induct) (simp_all add: assms at_snoc)
qed

lemma at_prefix: "at t (p @ q) = Some a \<Longrightarrow> \<exists>b. at t p = Some b"
  by (cases "at t p") (simp_all add: at_def walk_append)

text \<open>The map.\<close>

definition value_of :: "radix_tree \<Rightarrow> nat \<Rightarrow> u64 option" where
  "value_of t a = (if rn_value (node_at t a) = NGX_RADIX_NO_VALUE then None else Some (rn_value (node_at t a)))"

definition prefixes :: "radix_tree \<Rightarrow> bool list \<Rightarrow> u64 option" where
  "prefixes t p = (case at t p of None \<Rightarrow> None | Some a \<Rightarrow> value_of t a)"

section \<open>The shape of the memory\<close>

fun free_chain :: "radix_tree \<Rightarrow> nat option \<Rightarrow> nat list \<Rightarrow> bool" where
  "free_chain t node [] \<longleftrightarrow> node = None"
| "free_chain t node (f # fs) \<longleftrightarrow> node = Some f \<and> free_chain t (rn_right (node_at t f)) fs"

text \<open>\<open>fs\<close> are the free nodes and \<open>D\<close> is the greatest length of a path.\<close>

definition shape :: "nat \<Rightarrow> nat list \<Rightarrow> radix_tree \<Rightarrow> bool" where
  "shape D fs t \<longleftrightarrow>
     (\<forall>p a. at t p = Some a \<longrightarrow> a < length (rt_nodes t) \<and> length p \<le> D) \<and>
     (\<forall>p q a. at t p = Some a \<longrightarrow> at t q = Some a \<longrightarrow> p = q) \<and>
     rn_parent (node_at t (rt_root t)) = None \<and>
     (\<forall>p d a. at t (p @ [d]) = Some a \<longrightarrow> rn_parent (node_at t a) = at t p) \<and>
     free_chain t (rt_free t) fs \<and> distinct fs \<and>
     (\<forall>f \<in> set fs. f < length (rt_nodes t) \<and> (\<forall>p. at t p \<noteq> Some f))"

definition radix_inv :: "nat \<Rightarrow> radix_tree \<Rightarrow> bool" where
  "radix_inv D t \<longleftrightarrow> (\<exists>fs. shape D fs t)"

lemma shape_at: "shape D fs t \<Longrightarrow> at t p = Some a \<Longrightarrow> a < length (rt_nodes t) \<and> length p \<le> D"
  by (simp add: shape_def)

lemma shape_unique: "shape D fs t \<Longrightarrow> at t p = Some a \<Longrightarrow> at t q = Some a \<Longrightarrow> p = q"
  unfolding shape_def by blast

lemma shape_at_iff: "shape D fs t \<Longrightarrow> at t p = Some a \<Longrightarrow> at t q = Some a \<longleftrightarrow> q = p"
  using shape_unique by blast

lemma shape_parent: "shape D fs t \<Longrightarrow> at t (p @ [d]) = Some a \<Longrightarrow> rn_parent (node_at t a) = at t p"
  unfolding shape_def by blast

lemma shape_free:
  "shape D fs t \<Longrightarrow> free_chain t (rt_free t) fs \<and> distinct fs"
  "shape D fs t \<Longrightarrow> f \<in> set fs \<Longrightarrow> f < length (rt_nodes t)"
  "shape D fs t \<Longrightarrow> f \<in> set fs \<Longrightarrow> at t p \<noteq> Some f"
  unfolding shape_def by blast+

lemma shape_root: "shape D fs t \<Longrightarrow> rn_parent (node_at t (rt_root t)) = None"
  unfolding shape_def by blast

lemma shapeI:
  assumes "\<And>p a. at t p = Some a \<Longrightarrow> a < length (rt_nodes t) \<and> length p \<le> D"
    and "\<And>p q a. at t p = Some a \<Longrightarrow> at t q = Some a \<Longrightarrow> p = q"
    and "rn_parent (node_at t (rt_root t)) = None"
    and "\<And>p d a. at t (p @ [d]) = Some a \<Longrightarrow> rn_parent (node_at t a) = at t p"
    and "free_chain t (rt_free t) fs" "distinct fs"
    and "\<And>f p. f \<in> set fs \<Longrightarrow> f < length (rt_nodes t) \<and> at t p \<noteq> Some f"
  shows "shape D fs t"
  unfolding shape_def using assms by blast

text \<open>A change that moves no node.\<close>

lemma shape_same:
  assumes "shape D fs t" "at t' = at t" "rt_root t' = rt_root t" "length (rt_nodes t) \<le> length (rt_nodes t')"
    and "\<And>p a. at t p = Some a \<Longrightarrow> rn_parent (node_at t' a) = rn_parent (node_at t a)"
    and "free_chain t' (rt_free t') fs'" "distinct fs'" "set fs' \<subseteq> set fs"
  shows "shape D fs' t'"
proof (rule shapeI)
  show "rn_parent (node_at t' (rt_root t')) = None"
    using assms(5) [of "[]"] shape_root [OF assms(1)] assms(3) by simp
  show "a < length (rt_nodes t') \<and> length p \<le> D" if "at t' p = Some a" for p a
    using that shape_at [OF assms(1), of p a] assms(2,4) by simp
  show "p = q" if "at t' p = Some a" "at t' q = Some a" for p q a
    using that shape_unique [OF assms(1)] assms(2) by metis
  show "rn_parent (node_at t' a) = at t' p" if "at t' (p @ [d]) = Some a" for p d a
    using that shape_parent [OF assms(1), of p d a] assms(2,5) by simp
  show "f < length (rt_nodes t') \<and> at t' p \<noteq> Some f" if "f \<in> set fs'" for f p
    using that shape_free(2,3) [OF assms(1), of f] assms(2,4,8) by fastforce
qed (use assms in simp_all)

lemma node_at_set [simp]:
  "a < length (rt_nodes t) \<Longrightarrow> node_at (set_node a n t) b = (if a = b then n else node_at t b)"
  by (simp add: node_at_def set_node_def)

lemma set_node_simps [simp]:
  "rt_root (set_node a n t) = rt_root t" "rt_free (set_node a n t) = rt_free t"
  "length (rt_nodes (set_node a n t)) = length (rt_nodes t)"
  by (simp_all add: set_node_def)

lemma node_at_free [simp]: "node_at (t\<lparr>rt_free := f\<rparr>) a = node_at t a"
  by (simp add: node_at_def)

lemma child_set [simp]: "child d (set_child e c n) = (if d = e then c else child d n)"
  by (auto simp: child_def set_child_def)

lemma set_child_simps [simp]:
  "rn_value (set_child d c n) = rn_value n" "rn_parent (set_child d c n) = rn_parent n"
  by (simp_all add: set_child_def)

lemma free_chain_cong:
  "(\<And>f. f \<in> set fs \<Longrightarrow> rn_right (node_at t' f) = rn_right (node_at t f)) \<Longrightarrow> free_chain t' node fs = free_chain t node fs"
  by (induction fs arbitrary: node) auto

section \<open>Changes of the memory\<close>

lemma at_cong:
  assumes "rt_root t' = rt_root t" "\<And>p a d. at t p = Some a \<Longrightarrow> child d (node_at t' a) = child d (node_at t a)"
  shows "at t' = at t"
  by (rule at_eqI) (auto simp: assms at_snoc split: option.split)

text \<open>A change of a value.\<close>

lemma set_value_shape:
  assumes "shape D fs t" "at t p = Some a"
  shows "shape D fs (set_value a v t) \<and> at (set_value a v t) = at t \<and>
    prefixes (set_value a v t) = (prefixes t)(p := if v = NGX_RADIX_NO_VALUE then None else Some v)"
proof -
  have a: "a < length (rt_nodes t)" using assms by (simp add: shape_def)
  then have nodes: "node_at (set_value a v t) x = (if a = x then (node_at t a)\<lparr>rn_value := v\<rparr> else node_at t x)" for x
    by (simp add: set_value_def)
  have same: "at (set_value a v t) = at t"
  proof (rule at_cong)
    show "rt_root (set_value a v t) = rt_root t" by (simp add: set_value_def)
  qed (simp add: nodes child_def)
  have chain: "free_chain (set_value a v t) node fs = free_chain t node fs" for node
    by (rule free_chain_cong) (simp add: nodes)
  have "shape D fs (set_value a v t)"
  proof (rule shape_same [OF assms(1) same])
    show "free_chain (set_value a v t) (rt_free (set_value a v t)) fs"
      using shape_free(1) [OF assms(1)] unfolding chain by (simp add: set_value_def)
  qed (use shape_free(1) [OF assms(1)] in \<open>simp_all add: nodes, simp_all add: set_value_def\<close>)
  moreover have "prefixes (set_value a v t) q = (if q = p then if v = NGX_RADIX_NO_VALUE then None else Some v else prefixes t q)" for q
    using shape_at_iff [OF assms, of q] by (cases "at t q") (auto simp: prefixes_def same value_of_def nodes)
  ultimately show ?thesis using same by (auto simp: fun_eq_iff)
qed

text \<open>A new node.\<close>

lemma alloc_shape:
  assumes "ngx_radix_alloc ok pagesize t = Some (c, t')" "shape D fs t"
  shows "\<exists>fs'. shape D fs' t' \<and> c \<notin> set fs' \<and> c < length (rt_nodes t') \<and> (\<forall>p. at t' p \<noteq> Some c) \<and>
    at t' = at t \<and> prefixes t' = prefixes t"
proof (cases "rt_free t")
  case (Some f)
  then have t': "c = f" "t' = t\<lparr>rt_free := rn_right (node_at t f)\<rparr>"
    using assms(1) by (auto simp: ngx_radix_alloc_def)
  then have nodes: "node_at t' a = node_at t a" "rt_root t' = rt_root t" "rt_nodes t' = rt_nodes t"
      "rt_free t' = rn_right (node_at t f)" for a
    by simp_all
  have chain: "free_chain t (Some f) fs" "distinct fs" using shape_free(1) [OF assms(2)] Some by simp_all
  then obtain fs' where fs: "fs = f # fs'" by (cases fs) auto
  have same: "at t' = at t" by (rule at_cong) (simp_all add: nodes)
  have "free_chain t' (rt_free t') fs'"
    using chain(1) free_chain_cong [of fs' t' t] by (simp add: fs nodes)
  then have "shape D fs' t'"
    using chain(2) by (intro shape_same [OF assms(2) same]) (auto simp: nodes fs)
  moreover have "prefixes t' = prefixes t"
    by (simp add: fun_eq_iff prefixes_def same value_of_def nodes(1) split: option.split)
  moreover have "f < length (rt_nodes t)" "\<forall>p. at t p \<noteq> Some f" "f \<notin> set fs'"
    using shape_free(2,3) [OF assms(2), of f] chain(2) by (auto simp: fs)
  ultimately show ?thesis using same t'(1) nodes(3) by auto
next
  case None
  then have t': "rt_nodes t' = rt_nodes t @ [blank]" "rt_root t' = rt_root t" "rt_free t' = None" "c = length (rt_nodes t)"
    using assms(1) by (auto simp: ngx_radix_alloc_def Let_def split: if_splits)
  have nodes: "node_at t' a = node_at t a" if "at t p = Some a" for a p
    using shape_at [OF assms(2) that] by (simp add: node_at_def t' nth_append)
  have same: "at t' = at t"
    by (rule at_cong) (simp_all add: t' nodes)
  have fs: "fs = []" using shape_free(1) [OF assms(2)] None by (cases fs) auto
  have "shape D fs t'"
    by (rule shape_same [OF assms(2) same]) (auto simp: t' nodes fs)
  moreover have "prefixes t' p = prefixes t p" for p
    by (cases "at t p") (simp_all add: prefixes_def same value_of_def nodes)
  moreover have "at t p \<noteq> Some (length (rt_nodes t))" for p
    using shape_at [OF assms(2), of p] by auto
  ultimately show ?thesis using same by (auto simp: fs t' fun_eq_iff)
qed

text \<open>Hanging it in.\<close>

lemma new_child_shape:
  assumes "shape D fs t" "at t p = Some a" "at t (p @ [d]) = None" "length p < D"
    and "c \<notin> set fs" "c < length (rt_nodes t)" "\<forall>p. at t p \<noteq> Some c"
  shows "shape D fs (new_child a d c t) \<and> at (new_child a d c t) = (at t)(p @ [d] := Some c) \<and>
    prefixes (new_child a d c t) = prefixes t"
proof -
  define t' where "t' = new_child a d c t"
  have ac: "a \<noteq> c" "a < length (rt_nodes t)" using assms(2,7) shape_at [OF assms(1,2)] by auto
  have nodes: "node_at t' x = (if x = a then set_child d (Some c) (node_at t a)
      else if x = c then \<lparr>rn_right = None, rn_left = None, rn_parent = Some a, rn_value = NGX_RADIX_NO_VALUE\<rparr>
      else node_at t x)" for x
    using ac assms(6) by (auto simp: t'_def new_child_def Let_def)
  have rest: "rt_root t' = rt_root t" "rt_free t' = rt_free t" "length (rt_nodes t') = length (rt_nodes t)"
    by (simp_all add: t'_def new_child_def Let_def)
  have root: "rt_root t \<noteq> c" using assms(7) by (metis at_Nil)
  have none: "at t (p @ [d] @ q) = None" for q
    using assms(3) walk_append [of t "Some (rt_root t)" "p @ [d]" q] by (simp add: at_def)
  have at': "at t' = (at t)(p @ [d] := Some c)"
  proof (rule at_eqI)
    show "((at t)(p @ [d] := Some c)) [] = Some (rt_root t')" by (simp add: rest)
    fix q e
    show "((at t)(p @ [d] := Some c)) (q @ [e]) =
        (case ((at t)(p @ [d] := Some c)) q of None \<Rightarrow> None | Some x \<Rightarrow> child e (node_at t' x))"
    proof (cases "q = p @ [d]")
      case True
      then show ?thesis using none [of "[e]"] ac by (simp add: nodes child_def)
    next
      case False
      then show ?thesis
        using assms(2,7) shape_at_iff [OF assms(1,2), of q] ac
        by (cases "at t q") (auto simp: nodes at_snoc [of t q e])
    qed
  qed
  have pre: "prefixes t' = prefixes t"
  proof
    fix q
    show "prefixes t' q = prefixes t q"
      using assms(2,3,7) ac by (auto simp: prefixes_def at' value_of_def nodes split: option.split)
  qed
  have chain: "free_chain t' node fs = free_chain t node fs" for node
    using shape_free(3) [OF assms(1)] assms(2,5) by (intro free_chain_cong) (auto simp: nodes)
  have "shape D fs t'"
    unfolding shape_def
  proof (intro conjI allI impI ballI)
    fix q x assume "at t' q = Some x"
    then show "x < length (rt_nodes t')" "length q \<le> D"
      using shape_at [OF assms(1)] assms(4,6) by (auto simp: at' rest split: if_splits)
  next
    fix q r x assume "at t' q = Some x" "at t' r = Some x"
    then show "q = r"
      using shape_unique [OF assms(1)] assms(7) by (auto simp: at' split: if_splits)
  next
    show "rn_parent (node_at t' (rt_root t')) = None"
      using shape_root [OF assms(1)] root by (auto simp: rest nodes)
  next
    fix q e x assume x: "at t' (q @ [e]) = Some x"
    show "rn_parent (node_at t' x) = at t' q"
    proof (cases "q = p \<and> e = d")
      case True
      then show ?thesis using x ac assms(2) by (auto simp: at' nodes)
    next
      case False
      then have old: "at t (q @ [e]) = Some x" using x by (auto simp: at' split: if_splits)
      then have "q \<noteq> p @ [d]" using none [of "[e]"] by auto
      then show ?thesis
        using shape_parent [OF assms(1) old] assms(7) old by (auto simp: at' nodes)
    qed
  next
    show "free_chain t' (rt_free t') fs" "distinct fs"
      using shape_free(1) [OF assms(1)] by (simp_all add: rest chain)
  next
    fix f assume "f \<in> set fs"
    then show "f < length (rt_nodes t')" and "at t' q \<noteq> Some f" for q
      using shape_free(2,3) [OF assms(1), of f] assms(5) by (auto simp: rest at')
  qed
  then show ?thesis using at' pre by (simp add: t'_def)
qed

text \<open>Cutting off a leaf.\<close>

lemma cut_node_shape:
  assumes "shape D fs t" "at t (p @ [d]) = Some c" "at t p = Some a" "rn_right (node_at t c) = None" "rn_left (node_at t c) = None"
  shows "shape D (c # fs) (cut_node c a t) \<and> at (cut_node c a t) = (at t)(p @ [d] := None) \<and>
    prefixes (cut_node c a t) = (prefixes t)(p @ [d] := None)"
proof -
  define t' where "t' = cut_node c a t"
  have ac: "a \<noteq> c" using shape_unique [OF assms(1)] assms(2,3) by (metis append_self_conv not_Cons_self2)
  have len: "a < length (rt_nodes t)" "c < length (rt_nodes t)"
    using shape_at [OF assms(1,2)] shape_at [OF assms(1,3)] by simp_all
  have down: "child d (node_at t a) = Some c" using assms(2,3) by (simp add: at_snoc)
  have up: "at t (p @ [e]) = Some c \<longleftrightarrow> e = d" for e
    using shape_unique [OF assms(1), of "p @ [e]" c "p @ [d]"] assms(2) by auto
  then have side: "rn_right (node_at t a) = Some c \<longleftrightarrow> d"
    using assms(3) up [of True] by (simp add: at_snoc child_def)
  have nodes: "node_at t' x = (if x = a then set_child d None (node_at t a)
      else if x = c then (node_at t c)\<lparr>rn_right := rt_free t\<rparr> else node_at t x)" for x
    using ac len side by (auto simp: t'_def cut_node_def Let_def set_child_def)
  have rest: "rt_root t' = rt_root t" "rt_free t' = Some c" "length (rt_nodes t') = length (rt_nodes t)"
    by (simp_all add: t'_def cut_node_def Let_def)
  have none: "at t ((p @ [d]) @ [e]) = None" for e
    unfolding at_snoc [of t "p @ [d]"] using assms(2,4,5) by (simp add: child_def)
  have at': "at t' = (at t)(p @ [d] := None)"
  proof (rule at_eqI)
    show "((at t)(p @ [d] := None)) [] = Some (rt_root t')" by (simp add: rest)
    fix q e
    show "((at t)(p @ [d] := None)) (q @ [e]) =
        (case ((at t)(p @ [d] := None)) q of None \<Rightarrow> None | Some x \<Rightarrow> child e (node_at t' x))"
    proof (cases "q = p @ [d]")
      case True
      then show ?thesis using none [of e] by simp
    next
      case False
      then have "at t q \<noteq> Some c" using shape_unique [OF assms(1,2)] by auto
      then show ?thesis
        using False assms(3) shape_at_iff [OF assms(1,3), of q] ac up [of e] down
        by (cases "at t q") (auto simp: nodes at_snoc [of t q e])
    qed
  qed
  have "prefixes t' q = ((prefixes t)(p @ [d] := None)) q" for q
    using shape_at_iff [OF assms(1,2), of q] by (cases "at t q") (auto simp: prefixes_def at' value_of_def nodes)
  then have pre: "prefixes t' = (prefixes t)(p @ [d] := None)" by blast
  have free: "c \<notin> set fs" using shape_free(3) [OF assms(1)] assms(2) by blast
  have chain: "free_chain t' node fs = free_chain t node fs" for node
    using shape_free(3) [OF assms(1)] assms(3) free by (intro free_chain_cong) (auto simp: nodes)
  have "shape D (c # fs) t'"
    unfolding shape_def
  proof (intro conjI allI impI ballI)
    fix q x assume "at t' q = Some x"
    then show "x < length (rt_nodes t')" "length q \<le> D"
      using shape_at [OF assms(1)] by (auto simp: at' rest split: if_splits)
  next
    fix q r x assume "at t' q = Some x" "at t' r = Some x"
    then show "q = r" using shape_unique [OF assms(1)] by (auto simp: at' split: if_splits)
  next
    show "rn_parent (node_at t' (rt_root t')) = None"
      using shape_root [OF assms(1)] by (auto simp: rest nodes)
  next
    fix q e x assume "at t' (q @ [e]) = Some x"
    then have old: "at t (q @ [e]) = Some x" by (auto simp: at' split: if_splits)
    then have "q \<noteq> p @ [d]" using none [of e] by auto
    then show "rn_parent (node_at t' x) = at t' q"
      using shape_parent [OF assms(1) old] by (auto simp: at' nodes)
  next
    show "free_chain t' (rt_free t') (c # fs)"
      using shape_free(1) [OF assms(1)] ac by (simp add: rest chain nodes)
  next
    show "distinct (c # fs)" using shape_free(1) [OF assms(1)] free by simp
  next
    fix f assume f: "f \<in> set (c # fs)"
    then show "f < length (rt_nodes t')" using shape_free(2) [OF assms(1)] len by (auto simp: rest)
    show "at t' q \<noteq> Some f" for q
    proof (cases "f = c")
      case True
      then show ?thesis using shape_at_iff [OF assms(1,2), of q] by (simp add: at')
    next
      case False
      then show ?thesis using f shape_free(3) [OF assms(1)] by (auto simp: at')
    qed
  qed
  then show ?thesis using at' pre by (simp add: t'_def)
qed

section \<open>The operations on paths\<close>

fun descend :: "radix_tree \<Rightarrow> nat \<Rightarrow> bool list \<Rightarrow> bool list \<times> nat \<times> nat option" where
  "descend t a [] = ([], a, Some a)"
| "descend t a (d # ds) =
     (case child d (node_at t a) of None \<Rightarrow> (d # ds, a, None) | Some c \<Rightarrow> descend t c ds)"

fun grow :: "(nat \<Rightarrow> bool) \<Rightarrow> nat \<Rightarrow> bool list \<Rightarrow> nat \<Rightarrow> radix_tree \<Rightarrow> ngx_rc \<times> nat \<times> radix_tree" where
  "grow ok pagesize [] a t = (NGX_OK, a, t)"
| "grow ok pagesize (d # ds) a t =
     (case ngx_radix_alloc ok pagesize t of
        None \<Rightarrow> (NGX_ERROR, a, t)
      | Some (c, t) \<Rightarrow> grow ok pagesize ds c (new_child a d c t))"

definition insert_path :: "(nat \<Rightarrow> bool) \<Rightarrow> nat \<Rightarrow> radix_tree \<Rightarrow> bool list \<Rightarrow> u64 \<Rightarrow> ngx_rc \<times> radix_tree" where
  "insert_path ok pagesize t p v =
     (case descend t (rt_root t) p of
        (ds, node, Some _) \<Rightarrow>
          if rn_value (node_at t node) \<noteq> NGX_RADIX_NO_VALUE then (NGX_BUSY, t) else (NGX_OK, set_value node v t)
      | (ds, node, None) \<Rightarrow>
          (case grow ok pagesize ds node t of (rc, node, t) \<Rightarrow>
             if rc = NGX_OK then (NGX_OK, set_value node v t) else (rc, t)))"

lemma descend_spec:
  "descend t a ds = (rest, b, c) \<Longrightarrow>
   (case c of
      Some x \<Rightarrow> x = b \<and> rest = [] \<and> walk t (Some a) ds = Some b
    | None \<Rightarrow> \<exists>pre d rest'. rest = d # rest' \<and> ds = pre @ rest \<and> walk t (Some a) pre = Some b \<and>
                child d (node_at t b) = None)"
proof (induction t a ds rule: descend.induct)
  case (2 t a d ds)
  show ?case
  proof (cases "child d (node_at t a)")
    case None
    then show ?thesis using 2(2) by auto
  next
    case (Some x)
    then have IH: "case c of
      Some y \<Rightarrow> y = b \<and> rest = [] \<and> walk t (Some x) ds = Some b
    | None \<Rightarrow> \<exists>pre d rest'. rest = d # rest' \<and> ds = pre @ rest \<and> walk t (Some x) pre = Some b \<and>
                child d (node_at t b) = None"
      using 2 by simp
    show ?thesis
    proof (cases c)
      case None
      then obtain pre e rest' where "rest = e # rest'" "ds = pre @ rest" "walk t (Some x) pre = Some b" "child e (node_at t b) = None"
        using IH by auto
      then show ?thesis using None Some by (auto intro!: exI [of _ "d # pre"])
    qed (use IH Some in simp)
  qed
qed auto

lemma at_beyond: "at t (p @ [d]) = None \<Longrightarrow> at t (p @ d # q) = None"
  using walk_append [of t "Some (rt_root t)" "p @ [d]" q] by (simp add: at_def)

lemma grow_spec:
  assumes "grow ok pagesize ds a t = (rc, b, t')" "shape D fs t" "at t p = Some a" "length (p @ ds) \<le> D"
    and "ds = [] \<or> at t (p @ [hd ds]) = None"
  shows "(\<exists>fs'. shape D fs' t') \<and> prefixes t' = prefixes t \<and>
    (if rc = NGX_OK then at t' (p @ ds) = Some b else rc = NGX_ERROR \<and> (\<exists>n. \<not> ok n))"
  using assms
proof (induction ok pagesize ds a t arbitrary: p fs rule: grow.induct)
  case (1 ok pagesize a t)
  then show ?case by auto
next
  case (2 ok pagesize d ds a t)
  show ?case
  proof (cases "ngx_radix_alloc ok pagesize t")
    case None
    then have "\<exists>n. \<not> ok n" by (auto simp: ngx_radix_alloc_def Let_def split: option.splits if_splits)
    then show ?thesis using 2(2,3) None by auto
  next
    case (Some res)
    then obtain c t1 where alloc: "ngx_radix_alloc ok pagesize t = Some (c, t1)" by (cases res) auto
    obtain fs1 where t1: "shape D fs1 t1" "c \<notin> set fs1" "c < length (rt_nodes t1)" "\<forall>p. at t1 p \<noteq> Some c"
        "at t1 = at t" "prefixes t1 = prefixes t"
      using alloc_shape [OF alloc 2(3)] by blast
    have hang: "shape D fs1 (new_child a d c t1)" "at (new_child a d c t1) = (at t1)(p @ [d] := Some c)"
        "prefixes (new_child a d c t1) = prefixes t1"
      using new_child_shape [OF t1(1), of p a d c] t1(2-5) 2(4-6) by simp_all
    have "at t (p @ [d, e]) = None" for e
      using at_beyond [of t p d "[e]"] 2(6) by simp
    then have "ds = [] \<or> at (new_child a d c t1) ((p @ [d]) @ [hd ds]) = None"
      by (simp add: hang(2) t1(5))
    from 2(1) [OF alloc refl _ hang(1) _ _ this] show ?thesis
      using 2(2,5) alloc hang(2,3) t1(6) by (auto split: if_splits)
  qed
qed

text \<open>Insertion.\<close>

lemma insert_path_spec:
  assumes "insert_path ok pagesize t p v = (rc, t')" "radix_inv D t" "length p \<le> D"
  shows "radix_inv D t' \<and>
    (if prefixes t p \<noteq> None then rc = NGX_BUSY \<and> t' = t
     else rc = NGX_OK \<and> prefixes t' = (prefixes t)(p := if v = NGX_RADIX_NO_VALUE then None else Some v) \<or>
          rc = NGX_ERROR \<and> prefixes t' = prefixes t \<and> (\<exists>n. \<not> ok n))"
proof -
  obtain fs where shape: "shape D fs t" using assms(2) by (auto simp: radix_inv_def)
  obtain rest b c where down: "descend t (rt_root t) p = (rest, b, c)" by (metis prod_cases3)
  show ?thesis
  proof (cases c)
    case (Some x)
    then have "at t p = Some b"
      using descend_spec [OF down] by (simp add: at_def)
    then show ?thesis
      using assms(1,2) down Some set_value_shape [OF shape, of p b v]
      by (auto simp: insert_path_def prefixes_def value_of_def radix_inv_def split: if_splits)
  next
    case None
    then obtain pre d rest' where pre: "rest = d # rest'" "p = pre @ rest" "at t pre = Some b" "child d (node_at t b) = None"
      using descend_spec [OF down] by (auto simp: at_def)
    then have gap: "at t (pre @ [d]) = None" by (simp add: at_snoc)
    then have none: "prefixes t p = None" using at_beyond pre by (simp add: prefixes_def)
    obtain rc1 b1 t1 where grow: "grow ok pagesize rest b t = (rc1, b1, t1)" by (metis prod_cases3)
    obtain fs1 where t1: "shape D fs1 t1" "prefixes t1 = prefixes t"
        "if rc1 = NGX_OK then at t1 (pre @ rest) = Some b1 else rc1 = NGX_ERROR \<and> (\<exists>n. \<not> ok n)"
      using grow_spec [OF grow shape pre(3)] assms(3) gap pre(1,2) by auto
    show ?thesis
    proof (cases "rc1 = NGX_OK")
      case True
      then have "rc = NGX_OK" "t' = set_value b1 v t1"
        using assms(1) down None grow by (simp_all add: insert_path_def)
      then show ?thesis
        using set_value_shape [OF t1(1), of p b1 v] t1(2,3) True pre(2) none by (auto simp: radix_inv_def)
    next
      case False
      then show ?thesis
        using assms(1) down None grow t1 none by (auto simp: insert_path_def radix_inv_def)
    qed
  qed
qed

text \<open>Deletion.\<close>

lemma delete_up_spec:
  "shape D fs t \<Longrightarrow> at t p = Some c \<Longrightarrow> p \<noteq> [] \<Longrightarrow> rn_right (node_at t c) = None \<Longrightarrow> rn_left (node_at t c) = None \<Longrightarrow>
   \<exists>t'. delete_up c t = Some (Returns t') \<and> radix_inv D t' \<and> prefixes t' = (prefixes t)(p := None)"
proof (induction p arbitrary: c t fs rule: rev_induct)
  case (snoc d p)
  obtain a where a: "at t p = Some a" using at_prefix [of t p "[d]"] snoc(3) by auto
  have parent: "rn_parent (node_at t c) = Some a" using shape_parent [OF snoc(2,3)] a by simp
  define t1 where "t1 = cut_node c a t"
  have t1: "shape D (c # fs) t1" "at t1 = (at t)(p @ [d] := None)" "prefixes t1 = (prefixes t)(p @ [d] := None)"
    using cut_node_shape [OF snoc(2,3) a snoc(5,6)] by (simp_all add: t1_def)
  have a1: "at t1 p = Some a" using a by (simp add: t1(2))
  have unfold: "delete_up c t =
     (if rn_right (node_at t1 a) \<noteq> None \<or> rn_left (node_at t1 a) \<noteq> None then Some (Returns t1)
      else if rn_value (node_at t1 a) \<noteq> NGX_RADIX_NO_VALUE then Some (Returns t1)
      else if rn_parent (node_at t1 a) = None then Some (Returns t1)
      else delete_up a t1)"
    by (subst delete_up.simps) (simp add: parent t1_def Let_def)
  show ?case
  proof (cases "rn_right (node_at t1 a) = None \<and> rn_left (node_at t1 a) = None \<and>
      rn_value (node_at t1 a) = NGX_RADIX_NO_VALUE \<and> rn_parent (node_at t1 a) \<noteq> None")
    case True
    then have "p \<noteq> []" using a1 shape_root [OF t1(1)] by auto
    have "\<exists>t'. delete_up a t1 = Some (Returns t') \<and> radix_inv D t' \<and> prefixes t' = (prefixes t1)(p := None)"
      by (rule snoc(1) [OF t1(1) a1 \<open>p \<noteq> []\<close>]) (use True in simp_all)
    then obtain t' where "delete_up a t1 = Some (Returns t')" "radix_inv D t'" "prefixes t' = (prefixes t1)(p := None)"
      by blast
    moreover have "prefixes t1 p = None" using a1 True by (simp add: prefixes_def value_of_def)
    ultimately show ?thesis using unfold True t1(3) by (auto simp: fun_upd_idem)
  next
    case False
    then show ?thesis using unfold t1 by (auto simp: radix_inv_def)
  qed
qed simp

lemma delete_node_spec:
  assumes "radix_inv D t" "p \<noteq> [] \<or> rn_right (node_at t (rt_root t)) \<noteq> None \<or> rn_left (node_at t (rt_root t)) \<noteq> None"
  shows "\<exists>rc t'. delete_node t (at t p) = Some (Returns (rc, t')) \<and> radix_inv D t' \<and> prefixes t' = (prefixes t)(p := None) \<and>
    (rc = NGX_OK \<or> rc = NGX_ERROR \<and> t' = t \<and> prefixes t p = None)"
proof -
  obtain fs where shape: "shape D fs t" using assms(1) by (auto simp: radix_inv_def)
  show ?thesis
  proof (cases "at t p")
    case None
    then show ?thesis using assms(1) by (auto simp: delete_node_def prefixes_def fun_upd_idem)
  next
    case (Some a)
    show ?thesis
    proof (cases "rn_right (node_at t a) = None \<and> rn_left (node_at t a) = None")
      case True
      then have "p \<noteq> []" using assms(2) Some by auto
      then show ?thesis
        using delete_up_spec [OF shape Some] True Some by (auto simp: delete_node_def)
    next
      case False
      then show ?thesis
        using Some set_value_shape [OF shape Some, of NGX_RADIX_NO_VALUE] assms(1)
        by (auto simp: delete_node_def prefixes_def value_of_def radix_inv_def fun_upd_idem)
    qed
  qed
qed

section \<open>The search\<close>

text \<open>The value of the longest prefix of \<open>p\<close> that has one.\<close>

definition longest_from :: "nat \<Rightarrow> (bool list \<Rightarrow> u64 option) \<Rightarrow> bool list \<Rightarrow> u64 \<Rightarrow> u64" where
  "longest_from k f p v = fold (\<lambda>n v. case f (take n p) of None \<Rightarrow> v | Some w \<Rightarrow> w) [k..<Suc (length p)] v"

definition longest_prefix :: "(bool list \<Rightarrow> u64 option) \<Rightarrow> bool list \<Rightarrow> u64" where
  "longest_prefix f p = longest_from 0 f p NGX_RADIX_NO_VALUE"

lemma longest_from_step:
  "longest_from (length q) f (q @ ds) v =
   (let v = (case f q of None \<Rightarrow> v | Some w \<Rightarrow> w)
    in case ds of [] \<Rightarrow> v | d # ds \<Rightarrow> longest_from (length (q @ [d])) f ((q @ [d]) @ ds) v)"
  by (cases ds) (simp_all add: longest_from_def upt_rec Let_def)

lemma longest_from_none:
  "(\<And>n. k \<le> n \<Longrightarrow> n \<le> length p \<Longrightarrow> f (take n p) = None) \<Longrightarrow> longest_from k f p v = v"
proof -
  assume none: "\<And>n. k \<le> n \<Longrightarrow> n \<le> length p \<Longrightarrow> f (take n p) = None"
  have "fold (\<lambda>n v. case f (take n p) of None \<Rightarrow> v | Some w \<Rightarrow> w) ns v = v" if "set ns \<subseteq> {k..length p}" for ns
    using that by (induction ns) (auto simp: none)
  from this [of "[k..<Suc (length p)]"] show ?thesis
    unfolding longest_from_def by (simp del: upt_Suc add: subset_iff)
qed

lemma longest_prefix_iff:
  "longest_prefix f p = v \<longleftrightarrow>
     (if \<exists>n \<le> length p. f (take n p) \<noteq> None
      then \<exists>n \<le> length p. f (take n p) = Some v \<and> (\<forall>m. n < m \<longrightarrow> m \<le> length p \<longrightarrow> f (take m p) = None)
      else v = NGX_RADIX_NO_VALUE)"
proof -
  have "(case f (take n p) of None \<Rightarrow> w | Some x \<Rightarrow> x) = (case f (take n p) of None \<Rightarrow> w | Some x \<Rightarrow> x)" for n w by simp
  define g where "g = (\<lambda>n v. case f (take n p) of None \<Rightarrow> v | Some w \<Rightarrow> w)"
  have fold: "fold g [0..<k] NGX_RADIX_NO_VALUE = v \<longleftrightarrow>
     (if \<exists>n < k. f (take n p) \<noteq> None
      then \<exists>n < k. f (take n p) = Some v \<and> (\<forall>m. n < m \<longrightarrow> m < k \<longrightarrow> f (take m p) = None)
      else v = NGX_RADIX_NO_VALUE)" for k v
  proof (induction k arbitrary: v)
    case (Suc k)
    show ?case
    proof (cases "f (take k p)")
      case None
      then show ?thesis using Suc.IH [of v] by (auto simp: g_def less_Suc_eq)
    next
      case (Some w)
      then show ?thesis by (auto simp: g_def less_Suc_eq)
    qed
  qed auto
  have "longest_prefix f p = fold g [0..<Suc (length p)] NGX_RADIX_NO_VALUE"
    by (simp add: longest_prefix_def longest_from_def g_def)
  then show ?thesis
    using fold [of "Suc (length p)" v] unfolding less_Suc_eq_le by (simp del: upt_Suc)
qed

text \<open>A loop that goes down along the bits of the key finds the longest prefix.\<close>

lemma seek_longest:
  assumes "shape D fs t" "at t q = node" "length (q @ ds) = D"
    and step: "\<And>i a v. i \<le> length ds \<Longrightarrow> go i (Some a) v =
      go (i + 1) (child (if i < length ds then ds ! i else e i) (node_at t a)) (case value_of t a of None \<Rightarrow> v | Some w \<Rightarrow> w)"
    and stop: "\<And>i v. go i None v = Some v"
  shows "go 0 node v = Some (longest_from (length q) (prefixes t) (q @ ds) v)"
  using assms(2-5)
proof (induction ds arbitrary: q node v go e)
  case Nil
  show ?case
  proof (cases node)
    case None
    then show ?thesis using Nil by (subst longest_from_none) (simp_all add: prefixes_def)
  next
    case (Some a)
    have "at t (q @ [e 0]) = None"
      using shape_at [OF assms(1), of "q @ [e 0]"] Nil(2) by fastforce
    then have "child (e 0) (node_at t a) = None" using Nil(1) Some by (simp add: at_snoc)
    then show ?thesis
      using Nil(3) [of 0 a v] Nil(1,4) Some longest_from_step [of q "prefixes t" "[]" v] by (simp add: prefixes_def [of t q])
  qed
next
  case (Cons d ds)
  show ?case
  proof (cases node)
    case None
    have "prefixes t (take n (q @ d # ds)) = None" if "length q \<le> n" for n
    proof -
      have "take n (q @ d # ds) = q @ take (n - length q) (d # ds)" using that by simp
      then show ?thesis using Cons.prems(1) None walk_append [of t "Some (rt_root t)" q]
        by (simp add: prefixes_def at_def)
    qed
    then show ?thesis using Cons.prems(4) None longest_from_none by simp
  next
    case (Some a)
    define w where "w = (case value_of t a of None \<Rightarrow> v | Some w \<Rightarrow> w)"
    have "go 0 node v = go 1 (child d (node_at t a)) w"
      using Cons.prems(3) [of 0 a v] Some by (simp add: w_def)
    also have "\<dots> = Some (longest_from (length (q @ [d])) (prefixes t) ((q @ [d]) @ ds) w)"
    proof (rule Cons.IH [of "q @ [d]" _ "\<lambda>i. go (i + 1)" "\<lambda>i. e (i + 1)" w, simplified One_nat_def [symmetric] add_0])
      show "at t (q @ [d]) = child d (node_at t a)" using Cons.prems(1) Some by (simp add: at_snoc)
      show "length ((q @ [d]) @ ds) = D" using Cons.prems(2) by simp
      show "go (i + 1) (Some x) u = go (i + 1 + 1)
          (child (if i < length ds then ds ! i else e (i + 1)) (node_at t x)) (case value_of t x of None \<Rightarrow> u | Some w \<Rightarrow> w)"
        if "i \<le> length ds" for i x u
        using Cons.prems(3) [of "i + 1" x u] that by simp
      show "go (i + 1) None u = Some u" for i u using Cons.prems(4) by simp
    qed
    also have "\<dots> = Some (longest_from (length q) (prefixes t) (q @ d # ds) v)"
      using longest_from_step [of q "prefixes t" "d # ds" v] Cons.prems(1) Some
      by (simp add: w_def prefixes_def Let_def)
    finally show ?thesis .
  qed
qed
section \<open>Keys as paths\<close>

text \<open>The bits of a key up to the first bit that is not in the mask.\<close>

definition masked_bits :: "bool list \<Rightarrow> bool list \<Rightarrow> bool list" where
  "masked_bits ks ms = map fst (takeWhile snd (zip ks ms))"

lemma masked_bits_simps [simp]:
  "masked_bits ks [] = []" "masked_bits [] ms = []"
  "masked_bits (k # ks) (m # ms) = (if m then k # masked_bits ks ms else [])"
  by (simp_all add: masked_bits_def)

lemma masked_bits_none: "masked_bits ks (replicate n False) = []"
  by (cases ks; cases n) simp_all

lemma length_masked_bits: "length (masked_bits ks ms) \<le> length ks"
  using length_takeWhile_le [of snd "zip ks ms"] by (simp add: masked_bits_def)

text \<open>The bits that the loops of the 32-bit tree still have to look at.\<close>

definition rest32 :: "u32 \<Rightarrow> u32 \<Rightarrow> nat \<Rightarrow> bool list" where
  "rest32 key msk n = masked_bits (drop n (wbits 32 key)) (drop n (wbits 32 msk))"

definition bit32 :: "nat \<Rightarrow> u32" where
  "bit32 n = drop_bit n 0x80000000"

lemma bit32_step: "drop_bit (Suc 0) (bit32 n) = bit32 (Suc n)"
  by (simp add: bit32_def drop_bit_drop_bit del: drop_bit_numeral_minus_bit1)

lemma bit32_0: "0x80000000 = bit32 0"
  by (simp add: bit32_def)

lemma bit_bit32: "bit (bit32 n) i \<longleftrightarrow> n + i = 31"
  using bit_exp_iff [where 'a = u32, of 31 "n + i"] by (auto simp: bit32_def bit_drop_bit_eq)

lemma test_bit32: "w AND bit32 n \<noteq> 0 \<longleftrightarrow> n < 32 \<and> wbits 32 w ! n"
proof -
  have less: "i < 32" if "n + i = 31" for i using that by simp
  have "w AND bit32 n \<noteq> 0 \<longleftrightarrow> (\<exists>i. bit w i \<and> n + i = 31)"
    by (simp add: bit_eq_iff [of "w AND bit32 n"] bit_and_iff bit_bit32 del: bit_eq_iff) (metis less)
  also have "\<dots> \<longleftrightarrow> n < 32 \<and> bit w (31 - n)"
  proof -
    have "n + i = 31 \<longleftrightarrow> n < 32 \<and> i = 31 - n" for i by linarith
    then show ?thesis by auto
  qed
  also have "\<dots> \<longleftrightarrow> n < 32 \<and> wbits 32 w ! n" by (auto simp: nth_wbits)
  finally show ?thesis .
qed

lemma test_bit32': "bit32 n AND w \<noteq> 0 \<longleftrightarrow> n < 32 \<and> wbits 32 w ! n"
  using test_bit32 [of w n] by (simp add: and.commute)

lemma rest32_step:
  "rest32 key msk n =
   (if bit32 n AND msk \<noteq> 0 then (key AND bit32 n \<noteq> 0) # rest32 key msk (Suc n) else [])"
proof (cases "n < 32")
  case True
  have "drop n (wbits 32 w) = wbits 32 w ! n # drop (Suc n) (wbits 32 w)" for w :: u32
    using True by (simp add: Cons_nth_drop_Suc)
  from this [of key] this [of msk] show ?thesis
    unfolding test_bit32 test_bit32' using True by (simp add: rest32_def)
qed (simp add: rest32_def test_bit32')

lemma loops32:
  "descend32 t key msk (bit32 n) a =
     (if bit32 n AND msk \<noteq> 0 then
        (case child (key AND bit32 n \<noteq> 0) (node_at t a) of
           None \<Rightarrow> (bit32 n, a, None)
         | Some x \<Rightarrow> descend32 t key msk (bit32 (Suc n)) x)
      else (bit32 n, a, Some a))"
  "grow32 ok pagesize key msk (bit32 n) a t =
     (if bit32 n AND msk \<noteq> 0 then
        (case ngx_radix_alloc ok pagesize t of
           None \<Rightarrow> (NGX_ERROR, a, t)
         | Some (p, t) \<Rightarrow>
             grow32 ok pagesize key msk (bit32 (Suc n)) p (new_child a (key AND bit32 n \<noteq> 0) p t))
      else (NGX_OK, a, t))"
  "seek32 t key msk (bit32 n) node =
     (case node of
        None \<Rightarrow> None
      | Some a \<Rightarrow>
          if bit32 n AND msk \<noteq> 0
          then seek32 t key msk (bit32 (Suc n)) (child (key AND bit32 n \<noteq> 0) (node_at t a)) else node)"
  by (subst descend32.simps grow32.simps seek32.simps, simp add: bit32_step cong: option.case_cong if_cong)+

lemma rest32_less: "bit32 n AND msk \<noteq> 0 \<Longrightarrow> 32 - Suc n < 32 - n"
  unfolding test_bit32' by auto

lemma descend32_path:
  "descend32 t key msk (bit32 n) a = (b, a', c) \<Longrightarrow>
   \<exists>m. b = bit32 m \<and> descend t a (rest32 key msk n) = (rest32 key msk m, a', c)"
proof (induction "32 - n" arbitrary: n a rule: less_induct)
  case less
  show ?case
    using less(1) [OF rest32_less] less(2) rest32_step [of key msk n]
    by (auto simp: loops32(1) [of t key msk n a] split: if_splits option.splits)
qed

lemma grow32_path: "grow32 ok pagesize key msk (bit32 n) a t = grow ok pagesize (rest32 key msk n) a t"
proof (induction "32 - n" arbitrary: n a t rule: less_induct)
  case less
  show ?case
    using less [OF rest32_less] rest32_step [of key msk n]
    by (auto simp: loops32(2) [of ok pagesize key msk n a t] split: option.split)
qed

lemma seek32_path: "seek32 t key msk (bit32 n) node = walk t node (rest32 key msk n)"
proof (induction "32 - n" arbitrary: n node rule: less_induct)
  case less
  show ?case
    using less [OF rest32_less] rest32_step [of key msk n]
    by (auto simp: loops32(3) [of t key msk n node] split: option.split)
qed

definition path32 :: "u32 \<Rightarrow> u32 \<Rightarrow> bool list" where
  "path32 key msk = masked_bits (wbits 32 key) (wbits 32 msk)"

lemma rest32_0: "rest32 key msk 0 = path32 key msk"
  by (simp add: rest32_def path32_def)

lemma insert32_path: "ngx_radix32tree_insert ok pagesize t key msk v = insert_path ok pagesize t (path32 key msk) v"
proof -
  obtain b a c where down: "descend32 t key msk (bit32 0) (rt_root t) = (b, a, c)" by (metis prod_cases3)
  obtain n where n: "b = bit32 n" "descend t (rt_root t) (path32 key msk) = (rest32 key msk n, a, c)"
    using descend32_path [OF down] by (auto simp: rest32_0)
  show ?thesis
    unfolding ngx_radix32tree_insert_def bit32_0 down insert_path_def n
    by (simp add: grow32_path split: option.split)
qed

lemma delete32_path: "ngx_radix32tree_delete t key msk = delete_node t (at t (path32 key msk))"
  unfolding ngx_radix32tree_delete_def bit32_0 seek32_path by (simp add: at_def rest32_0)

text \<open>The same for keys of 16 bytes: the loops look at bit \<open>n mod 8\<close> of byte \<open>n div 8\<close>.\<close>

definition bit8 :: "nat \<Rightarrow> u8" where
  "bit8 n = drop_bit (n mod 8) 0x80"

definition rest128 :: "bytes \<Rightarrow> bytes \<Rightarrow> nat \<Rightarrow> bool list" where
  "rest128 key msk n = masked_bits (drop n (bits_of key)) (drop n (bits_of msk))"

definition path128 :: "bytes \<Rightarrow> bytes \<Rightarrow> bool list" where
  "path128 key msk = masked_bits (bits_of key) (bits_of msk)"

lemma rest128_0: "rest128 key msk 0 = path128 key msk"
  by (simp add: rest128_def path128_def)

lemma bit8_0: "0x80 = bit8 0"
  by (simp add: bit8_def)

lemma bit_bit8: "bit (bit8 n) i \<longleftrightarrow> n mod 8 + i = 7"
  using bit_exp_iff [where 'a = u8, of 7 "n mod 8 + i"] by (auto simp: bit8_def bit_drop_bit_eq)

lemma next_bit8: "next_bit (n div 8) (bit8 n) = (Suc n div 8, bit8 (Suc n))"
proof -
  have low: "drop_bit 1 (bit8 n) = 0 \<longleftrightarrow> n mod 8 = 7"
  proof -
    have less: "i < 8" if "n mod 8 + i = 6" for i using that by simp
    have "drop_bit 1 (bit8 n) = 0 \<longleftrightarrow> (\<forall>i. n mod 8 + Suc i \<noteq> 7)"
      by (simp add: bit_eq_iff [of "drop_bit _ (bit8 n)"] bit_drop_bit_eq bit_bit8 del: bit_eq_iff) (metis less)
    also have "\<dots> \<longleftrightarrow> n mod 8 = 7"
      using mod_less_divisor [of 8 n] by presburger
    finally show ?thesis .
  qed
  show ?thesis
  proof (cases "n mod 8 = 7")
    case True
    then have "Suc n mod 8 = 0" "Suc n div 8 = n div 8 + 1" by presburger+
    then show ?thesis using True low by (simp add: next_bit_def Let_def bit8_def)
  next
    case False
    then have "Suc n mod 8 = Suc (n mod 8)" "Suc n div 8 = n div 8"
      using mod_less_divisor [of 8 n] by presburger+
    then show ?thesis
      using False low by (simp add: next_bit_def Let_def bit8_def drop_bit_drop_bit del: drop_bit_numeral_minus_bit1)
  qed
qed

lemma bits_of_nth: "n < 8 * length bs \<Longrightarrow> bits_of bs ! n \<longleftrightarrow> bit (bs ! (n div 8)) (7 - n mod 8)"
proof (induction bs arbitrary: n)
  case (Cons b bs)
  show ?case
  proof (cases "n < 8")
    case True
    then show ?thesis by (simp add: nth_append nth_wbits)
  next
    case False
    then obtain m where m: "n = m + 8" by (metis add.commute le_Suc_ex not_less)
    then have "n div 8 = Suc (m div 8)" "n mod 8 = m mod 8" by simp_all
    then show ?thesis using Cons.IH [of m] Cons.prems m by (simp add: nth_append)
  qed
qed simp

lemma test_bit8: "w AND bit8 n \<noteq> 0 \<longleftrightarrow> bit w (7 - n mod 8)"
proof -
  have less: "i < 8" if "n mod 8 + i = 7" for i using that by simp
  have "w AND bit8 n \<noteq> 0 \<longleftrightarrow> (\<exists>i. bit w i \<and> n mod 8 + i = 7)"
    by (simp add: bit_eq_iff [of "w AND bit8 n"] bit_and_iff bit_bit8 del: bit_eq_iff) (metis less)
  also have "\<dots> \<longleftrightarrow> bit w (7 - n mod 8)"
  proof -
    have "n mod 8 + i = 7 \<longleftrightarrow> i = 7 - n mod 8" for i using mod_less_divisor [of 8 n] by linarith
    then show ?thesis by simp
  qed
  finally show ?thesis .
qed

lemma test_key8: "length key = 16 \<Longrightarrow> n < 128 \<Longrightarrow> key ! (n div 8) AND bit8 n \<noteq> 0 \<longleftrightarrow> bits_of key ! n"
  by (simp add: test_bit8 bits_of_nth)
lemma rest128_step:
  assumes "length key = 16" "length msk = 16"
  shows "rest128 key msk n =
   (if n div 8 < 16 \<and> bit8 n AND msk ! (n div 8) \<noteq> 0 then (key ! (n div 8) AND bit8 n \<noteq> 0) # rest128 key msk (Suc n) else [])"
proof (cases "n < 128")
  case True
  have "drop n (bits_of w) = bits_of w ! n # drop (Suc n) (bits_of w)" if "length w = 16" for w
    using True that by (simp add: Cons_nth_drop_Suc)
  from this [OF assms(1)] this [OF assms(2)] show ?thesis
    using True test_key8 [OF assms(1) True] test_key8 [OF assms(2) True]
    by (simp add: rest128_def and.commute [of "bit8 n"] div_less_iff_less_mult)
next
  case False
  then have "\<not> n div 8 < 16" by (simp add: div_less_iff_less_mult)
  then show ?thesis using False assms by (simp add: rest128_def)
qed

lemma loops128:
  "descend128 t key msk (n div 8) (bit8 n) a =
     (if n div 8 < 16 \<and> bit8 n AND msk ! (n div 8) \<noteq> 0 then
        (case child (key ! (n div 8) AND bit8 n \<noteq> 0) (node_at t a) of
           None \<Rightarrow> (n div 8, bit8 n, a, None)
         | Some x \<Rightarrow> descend128 t key msk (Suc n div 8) (bit8 (Suc n)) x)
      else (n div 8, bit8 n, a, Some a))"
  "grow128 ok pagesize key msk (n div 8) (bit8 n) a t =
     (if n div 8 < 16 \<and> bit8 n AND msk ! (n div 8) \<noteq> 0 then
        (case ngx_radix_alloc ok pagesize t of
           None \<Rightarrow> (NGX_ERROR, a, t)
         | Some (p, t) \<Rightarrow>
             grow128 ok pagesize key msk (Suc n div 8) (bit8 (Suc n)) p
               (new_child a (key ! (n div 8) AND bit8 n \<noteq> 0) p t))
      else (NGX_OK, a, t))"
  "seek128 t key msk (n div 8) (bit8 n) node =
     (case node of
        None \<Rightarrow> None
      | Some a \<Rightarrow>
          if n div 8 < 16 \<and> bit8 n AND msk ! (n div 8) \<noteq> 0
          then seek128 t key msk (Suc n div 8) (bit8 (Suc n)) (child (key ! (n div 8) AND bit8 n \<noteq> 0) (node_at t a))
          else node)"
  by (subst descend128.simps grow128.simps seek128.simps, simp add: next_bit8 cong: option.case_cong if_cong)+

lemma rest128_less: "n div 8 < 16 \<Longrightarrow> 128 - Suc n < 128 - n"
  by presburger

lemma descend128_path:
  assumes len: "length key = 16" "length msk = 16"
  shows "descend128 t key msk (n div 8) (bit8 n) a = (i, b, a', c) \<Longrightarrow>
   \<exists>m. i = m div 8 \<and> b = bit8 m \<and> descend t a (rest128 key msk n) = (rest128 key msk m, a', c)"
proof (induction "128 - n" arbitrary: n a rule: less_induct)
  case less
  show ?case
    using less(1) [OF rest128_less] less(2) rest128_step [OF len, of n]
    by (auto simp: loops128(1) [of t key msk n a] split: if_splits option.splits)
qed

lemma grow128_path:
  assumes len: "length key = 16" "length msk = 16"
  shows "grow128 ok pagesize key msk (n div 8) (bit8 n) a t = grow ok pagesize (rest128 key msk n) a t"
proof (induction "128 - n" arbitrary: n a t rule: less_induct)
  case less
  show ?case
    using less [OF rest128_less] rest128_step [OF len, of n]
    by (auto simp: loops128(2) [of ok pagesize key msk n a t] split: option.split)
qed

lemma seek128_path:
  assumes len: "length key = 16" "length msk = 16"
  shows "seek128 t key msk (n div 8) (bit8 n) node = walk t node (rest128 key msk n)"
proof (induction "128 - n" arbitrary: n node rule: less_induct)
  case less
  show ?case
    using less [OF rest128_less] rest128_step [OF len, of n]
    by (auto simp: loops128(3) [of t key msk n node] split: option.split)
qed

lemma insert128_path:
  assumes len: "length key = 16" "length msk = 16"
  shows "ngx_radix128tree_insert ok pagesize t key msk v = insert_path ok pagesize t (path128 key msk) v"
proof -
  obtain i b a c where down: "descend128 t key msk (0 div 8) (bit8 0) (rt_root t) = (i, b, a, c)" by (metis prod_cases4)
  obtain n where n: "i = n div 8" "b = bit8 n" "descend t (rt_root t) (path128 key msk) = (rest128 key msk n, a, c)"
    using descend128_path [OF len down] by (auto simp: rest128_0)
  show ?thesis
    unfolding ngx_radix128tree_insert_def bit8_0 down [simplified] insert_path_def n
    by (simp add: grow128_path [OF len] split: option.split)
qed

lemma delete128_path:
  assumes len: "length key = 16" "length msk = 16"
  shows "ngx_radix128tree_delete t key msk = delete_node t (at t (path128 key msk))"
  using seek128_path [OF len, of t 0 "Some (rt_root t)"]
  by (simp add: ngx_radix128tree_delete_def bit8_0 [symmetric] at_def rest128_0)

lemma find32_longest:
  assumes "shape 32 fs t"
  shows "ngx_radix32tree_find t key = Some (longest_prefix (prefixes t) (wbits 32 key))"
proof -
  have "find32 t key (bit32 0) (Some (rt_root t)) NGX_RADIX_NO_VALUE =
      Some (longest_from (length ([] :: bool list)) (prefixes t) ([] @ wbits 32 key) NGX_RADIX_NO_VALUE)"
  proof (rule seek_longest [OF assms, where go = "\<lambda>n. find32 t key (bit32 n)" and e = "\<lambda>_. False"])
    show "find32 t key (bit32 n) (Some a) v = find32 t key (bit32 (n + 1))
        (child (if n < length (wbits 32 key) then wbits 32 key ! n else False) (node_at t a))
        (case value_of t a of None \<Rightarrow> v | Some w \<Rightarrow> w)" for n a v
      using test_bit32 [of key n] by (subst find32.simps) (simp add: bit32_step value_of_def)
    show "find32 t key (bit32 n) None v = Some v" for n v
      by (subst find32.simps) simp
  qed simp_all
  then show ?thesis by (simp add: ngx_radix32tree_find_def bit32_0 longest_prefix_def)
qed

lemma find128_longest:
  assumes "shape 128 fs t" "length key = 16"
  shows "ngx_radix128tree_find t key beyond = Some (longest_prefix (prefixes t) (bits_of key))"
proof -
  have "find128 t key beyond (0 div 8) (bit8 0) (Some (rt_root t)) NGX_RADIX_NO_VALUE =
      Some (longest_from (length ([] :: bool list)) (prefixes t) ([] @ bits_of key) NGX_RADIX_NO_VALUE)"
  proof (rule seek_longest [OF assms(1), where go = "\<lambda>n. find128 t key beyond (n div 8) (bit8 n)"
        and e = "\<lambda>i. key_byte key beyond (i div 8) AND bit8 i \<noteq> 0"])
    show "find128 t key beyond (n div 8) (bit8 n) (Some a) v = find128 t key beyond ((n + 1) div 8) (bit8 (n + 1))
        (child (if n < length (bits_of key) then bits_of key ! n else key_byte key beyond (n div 8) AND bit8 n \<noteq> 0) (node_at t a))
        (case value_of t a of None \<Rightarrow> v | Some w \<Rightarrow> w)" for n a v
    proof -
      have "(if n < length (bits_of key) then bits_of key ! n else key_byte key beyond (n div 8) AND bit8 n \<noteq> 0) =
          (key_byte key beyond (n div 8) AND bit8 n \<noteq> 0)"
        using test_key8 [OF assms(2), of n] assms(2) by (auto simp: key_byte_def div_less_iff_less_mult)
      then show ?thesis by (subst find128.simps) (simp add: next_bit8 value_of_def)
    qed
    show "find128 t key beyond (n div 8) (bit8 n) None v = Some v" for n v
      by (subst find128.simps) simp
  qed (simp_all add: assms)
  then show ?thesis by (simp add: ngx_radix128tree_find_def bit8_0 [symmetric] longest_prefix_def)
qed
section \<open>Making a tree\<close>

lemma empty_tree_spec:
  assumes "empty_tree ok pagesize = Some t"
  shows "shape D [] t \<and> prefixes t = (\<lambda>_. None)"
proof -
  have t: "rt_root t = 0" "rt_free t = None"
      "rt_nodes t = [\<lparr>rn_right = None, rn_left = None, rn_parent = None, rn_value = NGX_RADIX_NO_VALUE\<rparr>]"
    using assms by (auto simp: empty_tree_def ngx_radix_alloc_def Let_def set_node_def split: if_splits)
  have "at t = (\<lambda>p. if p = [] then Some 0 else None)"
    by (rule at_eqI) (auto simp: t node_at_def child_def)
  then show ?thesis
    by (auto simp: shape_def t node_at_def prefixes_def value_of_def)
qed

lemma prealloc_level_spec:
  "prealloc_level ok pagesize msk inc key t = Some t' \<Longrightarrow> radix_inv D t \<Longrightarrow> prefixes t = (\<lambda>_. None) \<Longrightarrow> 32 \<le> D \<Longrightarrow>
   radix_inv D t' \<and> prefixes t' = (\<lambda>_. None)"
proof (induction ok pagesize msk inc key t t' rule: prealloc_level.raw_induct [rotated, consumes 1, case_names step])
  case (step prealloc_level ok pagesize msk inc key t t')
  obtain rc t1 where ins: "ngx_radix32tree_insert ok pagesize t key msk NGX_RADIX_NO_VALUE = (rc, t1)" by fastforce
  have len: "length (path32 key msk) \<le> D"
    using length_masked_bits [of "wbits 32 key" "wbits 32 msk"] step(5) by (simp add: path32_def)
  have "rc = NGX_OK" using step(2) ins by (auto split: if_splits)
  then have t1: "radix_inv D t1" "prefixes t1 = (\<lambda>_. None)"
    using insert_path_spec [OF ins [unfolded insert32_path] step(3) len] step(4) by auto
  show ?case
    using step(1) [OF _ t1 step(5), of ok pagesize msk inc "key + inc" t'] step(2) t1 ins \<open>rc = NGX_OK\<close>
    by (auto simp: Let_def split: if_splits)
qed

lemma prealloc_spec:
  "prealloc ok pagesize n msk inc t = Some t' \<Longrightarrow> radix_inv D t \<Longrightarrow> prefixes t = (\<lambda>_. None) \<Longrightarrow> 32 \<le> D \<Longrightarrow>
   radix_inv D t' \<and> prefixes t' = (\<lambda>_. None)"
proof (induction ok pagesize n msk inc t rule: prealloc.induct)
  case (2 ok pagesize n msk inc t)
  then obtain t1 where t1: "prealloc_level ok pagesize (drop_bit 1 msk OR 0x80000000) inc 0 t = Some t1"
      "prealloc ok pagesize n (drop_bit 1 msk OR 0x80000000) (drop_bit 1 inc) t1 = Some t'"
    by (auto simp: Let_def split: option.splits)
  show ?case
    using 2(1) [OF refl t1] prealloc_level_spec [OF t1(1) 2(3-5)] 2(5) by blast
qed simp

lemma create_spec:
  assumes "ngx_radix_tree_create tree_ok ok pagesize preallocate = Some t" "32 \<le> D"
  shows "radix_inv D t \<and> prefixes t = (\<lambda>_. None)"
proof -
  obtain t0 n where t0: "empty_tree ok pagesize = Some t0" "prealloc ok pagesize n 0 0x80000000 t0 = Some t"
    using assms(1) by (auto simp: ngx_radix_tree_create_def Let_def split: if_splits option.splits)
  then show ?thesis
    using prealloc_spec [OF t0(2) _ _ assms(2)] empty_tree_spec [OF t0(1), of D] by (auto simp: radix_inv_def)
qed

text \<open>With memory the loops end: \<open>key\<close> takes the multiples of \<open>inc\<close> and wraps around to 0.\<close>

lemma prealloc_level_ends:
  assumes "\<forall>n. ok n" "l < 32"
  shows "j < 2 ^ (l + 1) \<Longrightarrow> radix_inv 32 t \<Longrightarrow> prefixes t = (\<lambda>_. None) \<Longrightarrow>
    \<exists>t'. prealloc_level ok pagesize msk (2 ^ (31 - l)) (word_of_nat (j * 2 ^ (31 - l))) t = Some t'"
proof (induction "2 ^ (l + 1) - j" arbitrary: j t rule: less_induct)
  case less
  let ?key = "word_of_nat (j * 2 ^ (31 - l)) :: u32"
  obtain rc t1 where ins: "ngx_radix32tree_insert ok pagesize t ?key msk NGX_RADIX_NO_VALUE = (rc, t1)" by fastforce
  have len: "length (path32 ?key msk) \<le> 32"
    using length_masked_bits [of "wbits 32 ?key" "wbits 32 msk"] by (simp add: path32_def)
  have t1: "rc = NGX_OK" "radix_inv 32 t1" "prefixes t1 = (\<lambda>_. None)"
    using insert_path_spec [OF ins [unfolded insert32_path] less(3) len] less(4) assms(1) by auto
  have next_key: "?key + 2 ^ (31 - l) = word_of_nat ((j + 1) * 2 ^ (31 - l))"
    by (simp add: algebra_simps)
  have all: "(2 :: nat) ^ (l + 1) * 2 ^ (31 - l) = 2 ^ 32"
    using assms(2) by (simp flip: power_add)
  show ?case
  proof (cases "j + 1 < 2 ^ (l + 1)")
    case True
    then have "\<exists>t'. prealloc_level ok pagesize msk (2 ^ (31 - l)) (word_of_nat ((j + 1) * 2 ^ (31 - l))) t1 = Some t'"
      using less(1) [of "j + 1" t1] t1 by (simp del: of_nat_mult of_nat_add)
    then show ?thesis
      using ins t1(1) next_key by (subst prealloc_level.simps) (auto simp: Let_def ac_simps)
  next
    case False
    then have "j + 1 = 2 ^ (l + 1)" using less(2) by simp
    then have "?key + 2 ^ (31 - l) = word_of_nat (2 ^ 32)" unfolding next_key using all by metis
    also have "\<dots> = (0 :: u32)" by (simp add: word_eq_iff_unsigned unsigned_of_nat)
    finally have "?key + 2 ^ (31 - l) = 0" .
    then show ?thesis using ins t1(1) by (subst prealloc_level.simps) (simp add: Let_def)
  qed
qed

lemma prealloc_ends:
  assumes "\<forall>n. ok n"
  shows "n + l \<le> 32 \<Longrightarrow> radix_inv 32 t \<Longrightarrow> prefixes t = (\<lambda>_. None) \<Longrightarrow>
    \<exists>t'. prealloc ok pagesize n msk (if l < 32 then 2 ^ (31 - l) else 0) t = Some t'"
proof (induction n arbitrary: l msk t)
  case (Suc n)
  have l: "l < 32" using Suc(2) by simp
  obtain t1 where t1: "prealloc_level ok pagesize (drop_bit 1 msk OR 0x80000000) (2 ^ (31 - l)) 0 t = Some t1"
    using prealloc_level_ends [OF assms l, where pagesize = pagesize and j = 0 and t = t and msk = "drop_bit 1 msk OR 0x80000000"] Suc(3,4) by auto
  have "drop_bit 1 (2 ^ (31 - l)) = (if Suc l < 32 then 2 ^ (31 - Suc l) else 0 :: u32)"
    using l by (auto simp: drop_bit_exp_eq possible_bit_def)
  then show ?case
    using Suc.IH [of "Suc l" t1 "drop_bit 1 msk OR 0x80000000"] Suc(2) prealloc_level_spec [OF t1 Suc(3,4)] t1 l
    by (simp add: Let_def)
qed simp

lemma create_ends:
  assumes "\<forall>n. ok n" "preallocate \<le> 32"
  shows "\<exists>t. ngx_radix_tree_create True ok pagesize preallocate = Some t"
proof -
  obtain t0 where t0: "empty_tree ok pagesize = Some t0"
    using assms(1) by (auto simp: empty_tree_def ngx_radix_alloc_def)
  have "\<exists>t. prealloc ok pagesize n 0 0x80000000 t0 = Some t" if "n \<le> 32" for n
    using prealloc_ends [OF assms(1), where n = n and l = 0 and t = t0 and pagesize = pagesize and msk = 0] that empty_tree_spec [OF t0, of 32] by (auto simp: radix_inv_def)
  then show ?thesis
    using t0 assms(2) by (auto simp: ngx_radix_tree_create_def Let_def)
qed
section \<open>The contract\<close>

text \<open>
  A map of networks: \<open>memory\<close> says that no allocation fails, \<open>keyed\<close> that a key has its proper length,
  \<open>net k m\<close> is the prefix of the key \<open>k\<close> under the mask \<open>m\<close> and \<open>bits_in k\<close> all of its bits; a deletion needs a
  network of at least one bit or a root that is \<open>branched\<close>.
\<close>

locale prefix_map =
  fixes inv :: "'t \<Rightarrow> bool"
    and networks :: "'t \<Rightarrow> bool list \<Rightarrow> u64 option"
    and branched :: "'t \<Rightarrow> bool"
    and memory :: bool
    and keyed :: "'k \<Rightarrow> bool"
    and net :: "'k \<Rightarrow> 'k \<Rightarrow> bool list"
    and bits_in :: "'k \<Rightarrow> bool list"
    and ins :: "'t \<Rightarrow> 'k \<Rightarrow> 'k \<Rightarrow> u64 \<Rightarrow> ngx_rc \<times> 't"
    and del :: "'t \<Rightarrow> 'k \<Rightarrow> 'k \<Rightarrow> (ngx_rc \<times> 't) ended option"
    and look :: "'t \<Rightarrow> 'k \<Rightarrow> u64 option"
  assumes ins_law: "ins t k m v = (rc, t') \<Longrightarrow> inv t \<Longrightarrow> keyed k \<Longrightarrow> keyed m \<Longrightarrow>
      inv t' \<and>
      (if networks t (net k m) \<noteq> None then rc = NGX_BUSY \<and> t' = t
       else rc = NGX_OK \<and> networks t' = (networks t)(net k m := if v = NGX_RADIX_NO_VALUE then None else Some v) \<or>
            rc = NGX_ERROR \<and> networks t' = networks t \<and> \<not> memory)"
    and del_law: "inv t \<Longrightarrow> keyed k \<Longrightarrow> keyed m \<Longrightarrow> net k m \<noteq> [] \<or> branched t \<Longrightarrow>
      \<exists>rc t'. del t k m = Some (Returns (rc, t')) \<and> inv t' \<and> networks t' = (networks t)(net k m := None) \<and>
        (rc = NGX_OK \<or> rc = NGX_ERROR \<and> t' = t \<and> networks t (net k m) = None)"
    and look_law: "inv t \<Longrightarrow> keyed k \<Longrightarrow> look t k = Some (longest_prefix (networks t) (bits_in k))"

definition branched_root :: "radix_tree \<Rightarrow> bool" where
  "branched_root t \<longleftrightarrow> rn_right (node_at t (rt_root t)) \<noteq> None \<or> rn_left (node_at t (rt_root t)) \<noteq> None"

lemma length_path32: "length (path32 key msk) \<le> 32"
  using length_masked_bits [of "wbits 32 key" "wbits 32 msk"] by (simp add: path32_def)

lemma length_path128: "length key = 16 \<Longrightarrow> length (path128 key msk) \<le> 128"
  using length_masked_bits [of "bits_of key" "bits_of msk"] by (simp add: path128_def)

lemma delete_branched:
  assumes "radix_inv D t" "p \<noteq> [] \<or> branched_root t"
  shows "\<exists>rc t'. delete_node t (at t p) = Some (Returns (rc, t')) \<and> radix_inv D t' \<and> prefixes t' = (prefixes t)(p := None) \<and>
    (rc = NGX_OK \<or> rc = NGX_ERROR \<and> t' = t \<and> prefixes t p = None)"
  by (rule delete_node_spec) (use assms in \<open>simp_all add: branched_root_def\<close>)

interpretation radix32: prefix_map "radix_inv 32" prefixes branched_root "\<forall>n. ok n" "\<lambda>_. True" path32 "wbits 32"
  "ngx_radix32tree_insert ok pagesize" ngx_radix32tree_delete ngx_radix32tree_find for ok pagesize
proof (unfold_locales, goal_cases)
  case (1 t k m v rc t')
  then show ?case
    using insert_path_spec [OF 1(1) [unfolded insert32_path] 1(2) length_path32] by auto
next
  case (2 t k m)
  then show ?case unfolding delete32_path by (intro delete_branched)
next
  case (3 t k)
  then show ?case by (auto simp: radix_inv_def intro: find32_longest)
qed

text \<open>What lies behind the key does not matter.\<close>

interpretation radix128: prefix_map "radix_inv 128" prefixes branched_root "\<forall>n. ok n" "\<lambda>k. length k = 16" path128 bits_of
  "ngx_radix128tree_insert ok pagesize" ngx_radix128tree_delete "\<lambda>t k. ngx_radix128tree_find t k beyond" for ok pagesize beyond
proof (unfold_locales, goal_cases)
  case (1 t k m v rc t')
  then show ?case
    using insert_path_spec [OF 1(1) [unfolded insert128_path [OF 1(3,4)]] 1(2) length_path128 [OF 1(3)]] by auto
next
  case (2 t k m)
  then show ?case unfolding delete128_path [OF 2(2,3)] by (intro delete_branched)
next
  case (3 t k)
  then show ?case by (auto simp: radix_inv_def intro: find128_longest)
qed
section \<open>Properties\<close>

text \<open>C10: the tree for 32-bit keys refines a map from prefixes to values.  Insertion adds a binding, refuses
  a prefix that is bound and fails only when an allocation fails; deletion removes the binding, whose absence
  it may report; the search ends and returns the value of the longest prefix of the key that is bound.
  Every operation keeps the memory in shape.\<close>

theorem radix32_refines:
  assumes "radix_inv 32 t"
  shows "(case ngx_radix32tree_insert ok pagesize t key msk v of (rc, t') \<Rightarrow>
      radix_inv 32 t' \<and>
      (if prefixes t (path32 key msk) \<noteq> None then rc = NGX_BUSY \<and> t' = t
       else rc = NGX_OK \<and> prefixes t' = (prefixes t)(path32 key msk := if v = NGX_RADIX_NO_VALUE then None else Some v) \<or>
            rc = NGX_ERROR \<and> prefixes t' = prefixes t \<and> (\<exists>n. \<not> ok n))) \<and>
    (path32 key msk \<noteq> [] \<or> branched_root t \<longrightarrow>
      (\<exists>rc t'. ngx_radix32tree_delete t key msk = Some (Returns (rc, t')) \<and> radix_inv 32 t' \<and>
        prefixes t' = (prefixes t)(path32 key msk := None) \<and>
        (rc = NGX_OK \<or> rc = NGX_ERROR \<and> t' = t \<and> prefixes t (path32 key msk) = None))) \<and>
    ngx_radix32tree_find t key = Some (longest_prefix (prefixes t) (wbits 32 key))"
proof (intro conjI impI)
  obtain rc t' where ins: "ngx_radix32tree_insert ok pagesize t key msk v = (rc, t')" by fastforce
  then show "case ngx_radix32tree_insert ok pagesize t key msk v of (rc, t') \<Rightarrow>
      radix_inv 32 t' \<and>
      (if prefixes t (path32 key msk) \<noteq> None then rc = NGX_BUSY \<and> t' = t
       else rc = NGX_OK \<and> prefixes t' = (prefixes t)(path32 key msk := if v = NGX_RADIX_NO_VALUE then None else Some v) \<or>
            rc = NGX_ERROR \<and> prefixes t' = prefixes t \<and> (\<exists>n. \<not> ok n))"
    using radix32.ins_law [OF ins assms TrueI TrueI] by auto
next
  show "path32 key msk \<noteq> [] \<or> branched_root t \<Longrightarrow> \<exists>rc t'. ngx_radix32tree_delete t key msk = Some (Returns (rc, t')) \<and>
      radix_inv 32 t' \<and> prefixes t' = (prefixes t)(path32 key msk := None) \<and>
      (rc = NGX_OK \<or> rc = NGX_ERROR \<and> t' = t \<and> prefixes t (path32 key msk) = None)"
    by (rule radix32.del_law [OF assms TrueI TrueI])
  show "ngx_radix32tree_find t key = Some (longest_prefix (prefixes t) (wbits 32 key))"
    by (rule radix32.look_law [OF assms TrueI])
qed

text \<open>C13: the same for the tree with 128-bit keys; the byte behind the key that the search may read has no
  influence on its result.\<close>

theorem radix128_refines:
  assumes "radix_inv 128 t" "length key = 16" "length msk = 16"
  shows "(case ngx_radix128tree_insert ok pagesize t key msk v of (rc, t') \<Rightarrow>
      radix_inv 128 t' \<and>
      (if prefixes t (path128 key msk) \<noteq> None then rc = NGX_BUSY \<and> t' = t
       else rc = NGX_OK \<and> prefixes t' = (prefixes t)(path128 key msk := if v = NGX_RADIX_NO_VALUE then None else Some v) \<or>
            rc = NGX_ERROR \<and> prefixes t' = prefixes t \<and> (\<exists>n. \<not> ok n))) \<and>
    (path128 key msk \<noteq> [] \<or> branched_root t \<longrightarrow>
      (\<exists>rc t'. ngx_radix128tree_delete t key msk = Some (Returns (rc, t')) \<and> radix_inv 128 t' \<and>
        prefixes t' = (prefixes t)(path128 key msk := None) \<and>
        (rc = NGX_OK \<or> rc = NGX_ERROR \<and> t' = t \<and> prefixes t (path128 key msk) = None))) \<and>
    ngx_radix128tree_find t key beyond = Some (longest_prefix (prefixes t) (bits_of key))"
proof (intro conjI impI)
  obtain rc t' where ins: "ngx_radix128tree_insert ok pagesize t key msk v = (rc, t')" by fastforce
  then show "case ngx_radix128tree_insert ok pagesize t key msk v of (rc, t') \<Rightarrow>
      radix_inv 128 t' \<and>
      (if prefixes t (path128 key msk) \<noteq> None then rc = NGX_BUSY \<and> t' = t
       else rc = NGX_OK \<and> prefixes t' = (prefixes t)(path128 key msk := if v = NGX_RADIX_NO_VALUE then None else Some v) \<or>
            rc = NGX_ERROR \<and> prefixes t' = prefixes t \<and> (\<exists>n. \<not> ok n))"
    using radix128.ins_law [OF ins assms] by auto
next
  show "path128 key msk \<noteq> [] \<or> branched_root t \<Longrightarrow> \<exists>rc t'. ngx_radix128tree_delete t key msk = Some (Returns (rc, t')) \<and>
      radix_inv 128 t' \<and> prefixes t' = (prefixes t)(path128 key msk := None) \<and>
      (rc = NGX_OK \<or> rc = NGX_ERROR \<and> t' = t \<and> prefixes t (path128 key msk) = None)"
    by (rule radix128.del_law [OF assms])
  show "ngx_radix128tree_find t key beyond = Some (longest_prefix (prefixes t) (bits_of key))"
    by (rule radix128.look_law [OF assms(1,2)])
qed

definition sample_tree :: radix_tree where
  "sample_tree = \<lparr>rt_root = 0, rt_free = None, rt_size = 4064,
     rt_nodes = [\<lparr>rn_right = None, rn_left = None, rn_parent = None, rn_value = NGX_RADIX_NO_VALUE\<rparr>]\<rparr>"

lemma sample_tree_inv: "radix_inv D sample_tree"
  using empty_tree_spec [of "\<lambda>_. True" 4096 sample_tree D]
  by (auto simp: radix_inv_def empty_tree_def ngx_radix_alloc_def sample_tree_def set_node_def radix_node_size_def)

theorem radix32_refines_witness:
  "fst (ngx_radix32tree_insert (\<lambda>_. True) 4096 sample_tree 0x0a000000 0xff000000 7) = NGX_OK \<and>
   ngx_radix32tree_find sample_tree 0x0a010203 = Some NGX_RADIX_NO_VALUE"
proof -
  have none: "prefixes sample_tree = (\<lambda>_. None)"
    using empty_tree_spec [of "\<lambda>_. True" 4096 sample_tree 32]
    by (simp add: empty_tree_def ngx_radix_alloc_def sample_tree_def set_node_def radix_node_size_def)
  show ?thesis
    using radix32_refines [OF sample_tree_inv, where ok = "\<lambda>_. True" and pagesize = 4096 and key = "0x0a000000" and msk = "0xff000000" and v = 7]
      radix32_refines [OF sample_tree_inv, where key = "0x0a010203"]
    by (auto simp: none longest_prefix_def longest_from_none)
qed

theorem radix128_refines_witness:
  "ngx_radix128tree_find sample_tree (replicate 15 0 @ [1]) (\<lambda>_. 0) = Some NGX_RADIX_NO_VALUE"
proof -
  have none: "prefixes sample_tree = (\<lambda>_. None)"
    using empty_tree_spec [of "\<lambda>_. True" 4096 sample_tree 32]
    by (simp add: empty_tree_def ngx_radix_alloc_def sample_tree_def set_node_def radix_node_size_def)
  show ?thesis
    using radix128_refines [OF sample_tree_inv, where key = "replicate 15 0 @ [1]" and msk = "replicate 16 0xff" and beyond = "\<lambda>_. 0"]
    by (simp add: none longest_prefix_def longest_from_none)
qed

text \<open>Making a tree ends, with memory, for every number of levels to preallocate up to the 32 bits of
  the keys, though the loop over the nodes of a level stops only when \<open>key\<close> wraps around to 0; the result
  is a tree without a value, in shape for both kinds of keys.\<close>

theorem radix_create_ends:
  assumes "\<forall>n. ok n" "preallocate \<le> 32"
  shows "\<exists>t. ngx_radix_tree_create True ok pagesize preallocate = Some t \<and>
    radix_inv 32 t \<and> radix_inv 128 t \<and> prefixes t = (\<lambda>_. None)"
  using create_ends [OF assms] create_spec [of True ok pagesize preallocate] by fastforce

theorem radix_create_ends_witness:
  "\<exists>t. ngx_radix_tree_create True (\<lambda>_. True) 4096 (- 1) = Some t \<and>
    radix_inv 32 t \<and> radix_inv 128 t \<and> prefixes t = (\<lambda>_. None)"
  by (rule radix_create_ends) simp_all

text \<open>C33: deleting the network of no bits from a tree whose root has no children dereferences the root's
  null parent, with or without a value at the root.\<close>

theorem radix_delete_root_null:
  assumes "radix_inv 32 t" "\<not> branched_root t"
  shows "ngx_radix32tree_delete t key 0 = Some Null_pointer"
proof -
  obtain fs where "shape 32 fs t" using assms(1) by (auto simp: radix_inv_def)
  then have "rn_parent (node_at t (rt_root t)) = None" by (rule shape_root)
  then have "delete_up (rt_root t) t = Some Null_pointer" by (subst delete_up.simps) simp
  moreover have "path32 key 0 = []"
    by (simp add: path32_def masked_bits_none wbits_zero)
  ultimately show ?thesis
    using assms(2) by (simp add: delete32_path delete_node_def branched_root_def)
qed

theorem radix_delete_root_null_witness: "ngx_radix32tree_delete sample_tree 0 0 = Some Null_pointer"
  by (rule radix_delete_root_null [OF sample_tree_inv]) (simp add: branched_root_def node_at_def sample_tree_def)

end
