(* ===== verification/Geo.thy ===== *)
theory Geo
  imports RadixTreeSpec
begin

text \<open>
  The \<open>geo\<close> blocks of the configuration, with networks (\<^verbatim>\<open>src/http/modules/ngx_http_geo_module.c\<close>): reading
  the lines of a block into the two radix trees, and the variable, whose value is that of the most specific
  network of the client's address.
\<close>

section \<open>Adding and deleting networks\<close>

text \<open>
  What \<open>ngx_http_geo_cidr_add\<close> does with the tree of a family: a network that is there already is deleted and
  inserted anew.  \<open>NGX_OK\<close> and \<open>NGX_ERROR\<close> stand for \<open>NGX_CONF_OK\<close> and \<open>NGX_CONF_ERROR\<close>.
\<close>

definition add_network ::
    "('t \<Rightarrow> 'k \<Rightarrow> 'k \<Rightarrow> u64 \<Rightarrow> ngx_rc \<times> 't) \<Rightarrow> ('t \<Rightarrow> 'k \<Rightarrow> 'k \<Rightarrow> (ngx_rc \<times> 't) ended option) \<Rightarrow>
     't \<Rightarrow> 'k \<Rightarrow> 'k \<Rightarrow> u64 \<Rightarrow> (ngx_rc \<times> 't) ended option" where
  "add_network ins del t k m v =
     (case ins t k m v of (rc, t) \<Rightarrow>
        if rc = NGX_OK then Some (Returns (NGX_OK, t))
        else if rc = NGX_ERROR then Some (Returns (NGX_ERROR, t))
        else case del t k m of
               None \<Rightarrow> None
             | Some Null_pointer \<Rightarrow> Some Null_pointer
             | Some (Returns (rc, t)) \<Rightarrow>
                 if rc = NGX_ERROR then Some (Returns (NGX_ERROR, t))
                 else case ins t k m v of (rc, t) \<Rightarrow>
                        Some (Returns (if rc = NGX_OK then NGX_OK else NGX_ERROR, t)))"

context prefix_map begin

lemma add_network_spec:
  assumes "inv t" "keyed k" "keyed m" "net k m \<noteq> []" "v \<noteq> NGX_RADIX_NO_VALUE" memory
  shows "\<exists>t'. add_network ins del t k m v = Some (Returns (NGX_OK, t')) \<and> inv t' \<and>
    networks t' = (networks t)(net k m \<mapsto> v)"
proof -
  have ins: "\<exists>t'. ins t k m v = (NGX_OK, t') \<and> inv t' \<and> networks t' = (networks t)(net k m \<mapsto> v)"
    if "inv t" "networks t (net k m) = None" for t
  proof -
    obtain rc t' where "ins t k m v = (rc, t')" by fastforce
    then show ?thesis using ins_law [OF _ that(1) assms(2,3)] that(2) assms(5,6) by auto
  qed
  show ?thesis
  proof (cases "networks t (net k m) = None")
    case True
    then show ?thesis using ins [OF assms(1)] by (auto simp: add_network_def)
  next
    case False
    then have busy: "ins t k m v = (NGX_BUSY, t)"
      using ins_law [OF _ assms(1-3), of v] by (cases "ins t k m v") auto
    obtain rc t1 where t1: "del t k m = Some (Returns (rc, t1))" "inv t1" "networks t1 = (networks t)(net k m := None)"
        "rc = NGX_OK"
      using del_law [OF assms(1-3)] assms(4) False by blast
    obtain t2 where "ins t1 k m v = (NGX_OK, t2)" "inv t2" "networks t2 = (networks t1)(net k m \<mapsto> v)"
      using ins [OF t1(2)] t1(3) by auto
    then show ?thesis using busy t1 by (auto simp: add_network_def)
  qed
qed

end

section \<open>The lines of a block\<close>

text \<open>The trees for IPv4 and IPv6.\<close>

type_synonym geo_trees = "radix_tree \<times> radix_tree"

fun with_tree :: "(radix_tree \<Rightarrow> geo_trees) \<Rightarrow> (ngx_rc \<times> radix_tree) ended option \<Rightarrow> (ngx_rc \<times> geo_trees) ended option" where
  "with_tree f None = None"
| "with_tree f (Some Null_pointer) = Some Null_pointer"
| "with_tree f (Some (Returns (rc, t))) = Some (Returns (rc, f t))"

text \<open>
  \<open>val\<close> is the result of \<open>ngx_http_geo_value\<close>, the address of the value.  A block of \<open>ngx_ptocidr\<close> has one
  of the two families.
\<close>

definition ngx_http_geo_cidr_add ::
    "(nat \<Rightarrow> bool) \<Rightarrow> nat \<Rightarrow> geo_trees \<Rightarrow> cidr \<Rightarrow> u64 option \<Rightarrow> (ngx_rc \<times> geo_trees) ended option" where
  "ngx_http_geo_cidr_add ok pagesize trees cidr val =
     (case val of
        None \<Rightarrow> Some (Returns (NGX_ERROR, trees))
      | Some v \<Rightarrow>
          (case trees of (tree, tree6) \<Rightarrow>
             (case cidr of
                Cidr_in6 addr m \<Rightarrow>
                  with_tree (\<lambda>t. (tree, t))
                    (add_network (ngx_radix128tree_insert ok pagesize) ngx_radix128tree_delete tree6 addr m v)
              | Cidr_in addr m \<Rightarrow>
                  with_tree (\<lambda>t. (t, tree6))
                    (add_network (ngx_radix32tree_insert ok pagesize) ngx_radix32tree_delete tree addr m v)
              | Cidr_unix \<Rightarrow> Some (Returns (NGX_ERROR, trees)))))"

definition ngx_http_geo_cidr_value :: "bytes \<Rightarrow> cidr option" where
  "ngx_http_geo_cidr_value network =
     (if network = str ''255.255.255.255'' then Some (Cidr_in 0xffffffff 0xffffffff)
      else case ngx_ptocidr network of
             None \<Rightarrow> None
           | Some (rc, cidr) \<Rightarrow> Some cidr)"

fun host_order :: "cidr \<Rightarrow> cidr" where
  "host_order (Cidr_in addr m) = Cidr_in (ntohl addr) (ntohl m)"
| "host_order cidr = cidr"

definition geo_default :: "(nat \<Rightarrow> bool) \<Rightarrow> nat \<Rightarrow> geo_trees \<Rightarrow> u64 option \<Rightarrow> (ngx_rc \<times> geo_trees) ended option" where
  "geo_default ok pagesize trees val =
     (case ngx_http_geo_cidr_add ok pagesize trees (Cidr_in 0 0) val of
        Some (Returns (NGX_OK, trees)) \<Rightarrow>
          ngx_http_geo_cidr_add ok pagesize trees (Cidr_in6 (replicate 16 0) (replicate 16 0)) val
      | res \<Rightarrow> res)"

text \<open>The result of a deletion is only logged.\<close>

definition geo_delete :: "geo_trees \<Rightarrow> cidr \<Rightarrow> (ngx_rc \<times> geo_trees) ended option" where
  "geo_delete trees cidr =
     (case trees of (tree, tree6) \<Rightarrow>
        (case (case cidr of
                 Cidr_in6 addr m \<Rightarrow> with_tree (\<lambda>t. (tree, t)) (ngx_radix128tree_delete tree6 addr m)
               | Cidr_in addr m \<Rightarrow> with_tree (\<lambda>t. (t, tree6)) (ngx_radix32tree_delete tree addr m)
               | Cidr_unix \<Rightarrow> Some (Returns (NGX_ERROR, trees))) of
           Some (Returns (rc, trees)) \<Rightarrow> Some (Returns (NGX_OK, trees))
         | res \<Rightarrow> res))"

text \<open>\<open>ngx_http_geo_cidr\<close> once the two trees are there, for the two words of a line.\<close>

definition geo_line ::
    "(nat \<Rightarrow> bool) \<Rightarrow> nat \<Rightarrow> (bytes \<Rightarrow> u64 option) \<Rightarrow> geo_trees \<Rightarrow> bytes \<times> bytes \<Rightarrow> (ngx_rc \<times> geo_trees) ended option" where
  "geo_line ok pagesize geo_value trees line =
     (case line of (word0, word1) \<Rightarrow>
        if word0 = str ''default'' then geo_default ok pagesize trees (geo_value word1)
        else
          let del = word0 = str ''delete''
          in case ngx_http_geo_cidr_value (if del then word1 else word0) of
               None \<Rightarrow> Some (Returns (NGX_ERROR, trees))
             | Some cidr \<Rightarrow>
                 if del then geo_delete trees (host_order cidr)
                 else ngx_http_geo_cidr_add ok pagesize trees (host_order cidr) (geo_value word1))"

definition ngx_http_geo_cidr ::
    "bool \<Rightarrow> (nat \<Rightarrow> bool) \<Rightarrow> nat \<Rightarrow> (bytes \<Rightarrow> u64 option) \<Rightarrow> radix_tree option \<times> radix_tree option \<Rightarrow> bytes \<times> bytes \<Rightarrow>
     (ngx_rc \<times> (radix_tree option \<times> radix_tree option)) ended option" where
  "ngx_http_geo_cidr tree_ok ok pagesize geo_value ctx line =
     (case ctx of (tree, tree6) \<Rightarrow>
        (case (case tree of None \<Rightarrow> ngx_radix_tree_create tree_ok ok pagesize (- 1) | t \<Rightarrow> t) of
           None \<Rightarrow> Some (Returns (NGX_ERROR, (tree, tree6)))
         | Some t \<Rightarrow>
             (case (case tree6 of None \<Rightarrow> ngx_radix_tree_create tree_ok ok pagesize (- 1) | t6 \<Rightarrow> t6) of
                None \<Rightarrow> Some (Returns (NGX_ERROR, (Some t, tree6)))
              | Some t6 \<Rightarrow>
                  (case geo_line ok pagesize geo_value (t, t6) line of
                     None \<Rightarrow> None
                   | Some Null_pointer \<Rightarrow> Some Null_pointer
                   | Some (Returns (rc, (t, t6))) \<Rightarrow> Some (Returns (rc, (Some t, Some t6)))))))"

text \<open>The lines of a block one after the other, until one fails.\<close>

fun geo_lines ::
    "bool \<Rightarrow> (nat \<Rightarrow> bool) \<Rightarrow> nat \<Rightarrow> (bytes \<Rightarrow> u64 option) \<Rightarrow> radix_tree option \<times> radix_tree option \<Rightarrow>
     (bytes \<times> bytes) list \<Rightarrow> (ngx_rc \<times> (radix_tree option \<times> radix_tree option)) ended option" where
  "geo_lines tree_ok ok pagesize geo_value ctx [] = Some (Returns (NGX_OK, ctx))"
| "geo_lines tree_ok ok pagesize geo_value ctx (line # lines) =
     (case ngx_http_geo_cidr tree_ok ok pagesize geo_value ctx line of
        Some (Returns (NGX_OK, ctx)) \<Rightarrow> geo_lines tree_ok ok pagesize geo_value ctx lines
      | res \<Rightarrow> res)"

section \<open>The variable\<close>

text \<open>
  \<open>addr\<close> is the address that \<open>ngx_http_geo_addr\<close> finds.  The address of a unix domain socket is read as if it
  were one of IPv4: the third to sixth byte of its path.
\<close>

definition path_byte :: "bytes \<Rightarrow> nat \<Rightarrow> u8" where
  "path_byte path i = (if i < length path then path ! i else 0)"

definition ngx_http_geo_cidr_variable :: "geo_trees \<Rightarrow> (nat \<Rightarrow> u8) \<Rightarrow> sockaddr option \<Rightarrow> u64 option" where
  "ngx_http_geo_cidr_variable trees beyond addr =
     (case trees of (tree, tree6) \<Rightarrow>
        (case addr of
           None \<Rightarrow> ngx_radix32tree_find tree INADDR_NONE
         | Some (Sockaddr_in6 p prt) \<Rightarrow>
             if IN6_IS_ADDR_V4MAPPED p
             then ngx_radix32tree_find tree (be32 (p ! 12) (p ! 13) (p ! 14) (p ! 15))
             else ngx_radix128tree_find tree6 p beyond
         | Some (Sockaddr_in inaddr prt) \<Rightarrow> ngx_radix32tree_find tree (ntohl inaddr)
         | Some (Sockaddr_un path) \<Rightarrow>
             ngx_radix32tree_find tree (be32 (path_byte path 2) (path_byte path 3) (path_byte path 4) (path_byte path 5))))"

text \<open>
  The end of \<open>ngx_http_geo_block\<close> for a block without ranges: both trees are made if no line has made
  them, and the default becomes the empty value \<open>null_value\<close> unless a line has set it.
\<close>

definition geo_finish ::
    "bool \<Rightarrow> (nat \<Rightarrow> bool) \<Rightarrow> nat \<Rightarrow> u64 \<Rightarrow> radix_tree option \<times> radix_tree option \<Rightarrow> geo_trees option" where
  "geo_finish tree_ok ok pagesize null_value ctx =
     (case ctx of (tree, tree6) \<Rightarrow>
        (case (case tree of None \<Rightarrow> ngx_radix_tree_create tree_ok ok pagesize (- 1) | t \<Rightarrow> t) of
           None \<Rightarrow> None
         | Some t \<Rightarrow>
             (case (case tree6 of None \<Rightarrow> ngx_radix_tree_create tree_ok ok pagesize (- 1) | t6 \<Rightarrow> t6) of
                None \<Rightarrow> None
              | Some t6 \<Rightarrow>
                  (case ngx_radix32tree_insert ok pagesize t 0 0 null_value of (rc, t) \<Rightarrow>
                     if rc = NGX_ERROR then None
                     else case ngx_radix128tree_insert ok pagesize t6 (replicate 16 0) (replicate 16 0) null_value of
                            (rc, t6) \<Rightarrow> if rc = NGX_ERROR then None else Some (t, t6)))))"

section \<open>What a block means\<close>

text \<open>
  A network is a family (\<open>True\<close> for IPv6) with a prefix.  A line changes the map from networks to values;
  \<open>None\<close> stands for a line that is an error, for a second default, and for a network of no bits that is
  not written \<open>default\<close>.
\<close>

type_synonym geo_map = "bool \<times> bool list \<Rightarrow> u64 option"

fun geo_key :: "cidr \<Rightarrow> bool \<times> bool list" where
  "geo_key (Cidr_in addr m) = (False, path32 addr m)"
| "geo_key (Cidr_in6 addr m) = (True, path128 addr m)"
| "geo_key Cidr_unix = (False, [])"

definition geo_network :: "bytes \<Rightarrow> (bool \<times> bool list) option" where
  "geo_network word =
     (case ngx_http_geo_cidr_value word of
        None \<Rightarrow> None
      | Some cidr \<Rightarrow> (let n = geo_key (host_order cidr) in if snd n = [] then None else Some n))"

definition line_meaning :: "(bytes \<Rightarrow> u64 option) \<Rightarrow> geo_map \<Rightarrow> bytes \<times> bytes \<Rightarrow> geo_map option" where
  "line_meaning geo_value f line =
     (case line of (word0, word1) \<Rightarrow>
        if word0 = str ''default'' then
          (case geo_value word1 of
             None \<Rightarrow> None
           | Some v \<Rightarrow> if f (False, []) = None \<and> f (True, []) = None then Some (f((False, []) \<mapsto> v, (True, []) \<mapsto> v)) else None)
        else if word0 = str ''delete'' then
          (case geo_network word1 of None \<Rightarrow> None | Some n \<Rightarrow> Some (f(n := None)))
        else
          (case (geo_network word0, geo_value word1) of
             (Some n, Some v) \<Rightarrow> Some (f(n \<mapsto> v))
           | _ \<Rightarrow> None))"

fun block_meaning :: "(bytes \<Rightarrow> u64 option) \<Rightarrow> geo_map \<Rightarrow> (bytes \<times> bytes) list \<Rightarrow> geo_map option" where
  "block_meaning geo_value f [] = Some f"
| "block_meaning geo_value f (line # lines) =
     (case line_meaning geo_value f line of None \<Rightarrow> None | Some f \<Rightarrow> block_meaning geo_value f lines)"

definition with_default :: "u64 \<Rightarrow> geo_map \<Rightarrow> geo_map" where
  "with_default null_value f n = (if snd n = [] \<and> f n = None then Some null_value else f n)"

definition most_specific :: "geo_map \<Rightarrow> sockaddr \<Rightarrow> u64" where
  "most_specific f sa =
     (case match_addr sa of
        Sockaddr_in6 p prt \<Rightarrow> longest_prefix (\<lambda>n. f (True, n)) (addr_bits (match_addr sa))
      | _ \<Rightarrow> longest_prefix (\<lambda>n. f (False, n)) (addr_bits (match_addr sa)))"

section \<open>The code keeps the meaning\<close>

definition geo_inv :: "geo_trees \<Rightarrow> bool" where
  "geo_inv trees \<longleftrightarrow> radix_inv 32 (fst trees) \<and> radix_inv 128 (snd trees)"

definition geo_of :: "geo_trees \<Rightarrow> geo_map" where
  "geo_of trees n = (if fst n then prefixes (snd trees) (snd n) else prefixes (fst trees) (snd n))"

lemma geo_of_update4: "prefixes t' = (prefixes t)(p := v) \<Longrightarrow> geo_of (t', t6) = (geo_of (t, t6))((False, p) := v)"
  by (auto simp: geo_of_def fun_eq_iff)

lemma geo_of_update6: "prefixes t' = (prefixes t6)(p := v) \<Longrightarrow> geo_of (t, t') = (geo_of (t, t6))((True, p) := v)"
  by (auto simp: geo_of_def fun_eq_iff)

fun keyed_cidr :: "cidr \<Rightarrow> bool" where
  "keyed_cidr (Cidr_in addr m) = True"
| "keyed_cidr (Cidr_in6 addr m) = (length addr = 16 \<and> length m = 16)"
| "keyed_cidr Cidr_unix = False"

lemma keyed_host_order [simp]: "keyed_cidr (host_order c) = keyed_cidr c"
  by (cases c) simp_all

lemma ptocidr_keyed: "ngx_ptocidr txt = Some (rc, c) \<Longrightarrow> keyed_cidr c"
  by (auto simp: ngx_ptocidr_def Let_def cidr6_loop_masks dest!: inet6_addr_length split: if_splits option.splits prod.splits)

lemma cidr_value_keyed: "ngx_http_geo_cidr_value w = Some c \<Longrightarrow> keyed_cidr c"
  by (auto simp: ngx_http_geo_cidr_value_def dest: ptocidr_keyed split: if_splits option.splits)

lemma cidr_add_spec:
  assumes "geo_inv trees" "keyed_cidr c" "snd (geo_key c) \<noteq> []" "v \<noteq> NGX_RADIX_NO_VALUE" "\<forall>n. ok n"
  shows "\<exists>trees'. ngx_http_geo_cidr_add ok pagesize trees c (Some v) = Some (Returns (NGX_OK, trees')) \<and>
    geo_inv trees' \<and> geo_of trees' = (geo_of trees)(geo_key c \<mapsto> v)"
proof -
  obtain t t6 where trees: "trees = (t, t6)" by (cases trees)
  show ?thesis
  proof (cases c)
    case (Cidr_in a m)
    then have "\<exists>t'. add_network (ngx_radix32tree_insert ok pagesize) ngx_radix32tree_delete t a m v = Some (Returns (NGX_OK, t')) \<and>
        radix_inv 32 t' \<and> prefixes t' = (prefixes t)(path32 a m \<mapsto> v)"
      using radix32.add_network_spec [of t a m v ok pagesize] assms trees by (simp add: geo_inv_def)
    then show ?thesis
      using Cidr_in trees assms(1) geo_of_update4 [of _ t "path32 a m" "Some v" t6]
      by (auto simp: ngx_http_geo_cidr_add_def geo_inv_def)
  next
    case (Cidr_in6 a m)
    then have "\<exists>t'. add_network (ngx_radix128tree_insert ok pagesize) ngx_radix128tree_delete t6 a m v = Some (Returns (NGX_OK, t')) \<and>
        radix_inv 128 t' \<and> prefixes t' = (prefixes t6)(path128 a m \<mapsto> v)"
      using radix128.add_network_spec [of t6 a m v ok pagesize] assms trees by (simp add: geo_inv_def)
    then show ?thesis
      using Cidr_in6 trees assms(1) geo_of_update6 [of _ t6 "path128 a m" "Some v" t]
      by (auto simp: ngx_http_geo_cidr_add_def geo_inv_def)
  qed (use assms(2) in simp)
qed

lemma delete_spec:
  assumes "geo_inv trees" "keyed_cidr c" "snd (geo_key c) \<noteq> []"
  shows "\<exists>trees'. geo_delete trees c = Some (Returns (NGX_OK, trees')) \<and> geo_inv trees' \<and>
    geo_of trees' = (geo_of trees)(geo_key c := None)"
proof -
  obtain t t6 where trees: "trees = (t, t6)" by (cases trees)
  show ?thesis
  proof (cases c)
    case (Cidr_in a m)
    then obtain rc t' where "ngx_radix32tree_delete t a m = Some (Returns (rc, t'))" "radix_inv 32 t'"
        "prefixes t' = (prefixes t)(path32 a m := None)"
      using radix32.del_law [of t a m] assms trees by (auto simp: geo_inv_def)
    then show ?thesis
      using Cidr_in trees assms(1) geo_of_update4 [of t' t "path32 a m" None t6]
      by (auto simp: geo_delete_def geo_inv_def)
  next
    case (Cidr_in6 a m)
    then obtain rc t' where "ngx_radix128tree_delete t6 a m = Some (Returns (rc, t'))" "radix_inv 128 t'"
        "prefixes t' = (prefixes t6)(path128 a m := None)"
      using radix128.del_law [of t6 a m] assms trees by (auto simp: geo_inv_def)
    then show ?thesis
      using Cidr_in6 trees assms(1) geo_of_update6 [of t' t6 "path128 a m" None t]
      by (auto simp: geo_delete_def geo_inv_def)
  qed (use assms(2) in simp)
qed
lemma path_zero: "path32 a 0 = []" "path128 key (replicate 16 0) = []"
proof -
  have "bits_of (replicate n (0 :: u8)) = replicate (8 * n) False" for n
    by (induction n) (simp_all add: wbits_zero flip: replicate_add)
  then show "path128 key (replicate 16 0) = []" by (simp add: path128_def masked_bits_none)
  show "path32 a 0 = []" by (simp add: path32_def masked_bits_none wbits_zero)
qed

text \<open>Inserting at a network that is free.\<close>

lemma add_free4:
  assumes "radix_inv 32 t" "prefixes t (path32 a m) = None" "v \<noteq> NGX_RADIX_NO_VALUE" "\<forall>n. ok n"
  shows "\<exists>t'. ngx_radix32tree_insert ok pagesize t a m v = (NGX_OK, t') \<and> radix_inv 32 t' \<and> prefixes t' = (prefixes t)(path32 a m \<mapsto> v)"
proof -
  obtain rc t' where ins: "ngx_radix32tree_insert ok pagesize t a m v = (rc, t')" by fastforce
  show ?thesis using radix32.ins_law [OF ins assms(1) TrueI TrueI] ins assms(2-4) by auto
qed

lemma add_free6:
  assumes "radix_inv 128 t" "length a = 16" "length m = 16" "prefixes t (path128 a m) = None" "v \<noteq> NGX_RADIX_NO_VALUE" "\<forall>n. ok n"
  shows "\<exists>t'. ngx_radix128tree_insert ok pagesize t a m v = (NGX_OK, t') \<and> radix_inv 128 t' \<and> prefixes t' = (prefixes t)(path128 a m \<mapsto> v)"
proof -
  obtain rc t' where ins: "ngx_radix128tree_insert ok pagesize t a m v = (rc, t')" by fastforce
  show ?thesis using radix128.ins_law [OF ins assms(1-3)] ins assms(4-6) by auto
qed

lemma default_spec:
  assumes "geo_inv trees" "geo_of trees (False, []) = None" "geo_of trees (True, []) = None" "v \<noteq> NGX_RADIX_NO_VALUE" "\<forall>n. ok n"
  shows "\<exists>trees'. geo_default ok pagesize trees (Some v) = Some (Returns (NGX_OK, trees')) \<and> geo_inv trees' \<and>
    geo_of trees' = (geo_of trees)((False, []) \<mapsto> v, (True, []) \<mapsto> v)"
proof -
  obtain t t6 where trees: "trees = (t, t6)" by (cases trees)
  obtain t' where t': "ngx_radix32tree_insert ok pagesize t 0 0 v = (NGX_OK, t')" "radix_inv 32 t'"
      "prefixes t' = (prefixes t)([] \<mapsto> v)"
    using add_free4 [of t 0 0 v ok pagesize] assms trees by (auto simp: path_zero geo_inv_def geo_of_def)
  obtain t6' where t6': "ngx_radix128tree_insert ok pagesize t6 (replicate 16 0) (replicate 16 0) v = (NGX_OK, t6')"
      "radix_inv 128 t6'" "prefixes t6' = (prefixes t6)([] \<mapsto> v)"
    using add_free6 [of t6 "replicate 16 0" "replicate 16 0" v ok pagesize] assms trees
    by (auto simp: path_zero geo_inv_def geo_of_def)
  show ?thesis
    using t' t6' trees
    by (auto simp: geo_default_def ngx_http_geo_cidr_add_def add_network_def geo_inv_def geo_of_def fun_eq_iff)
qed

lemma line_spec:
  assumes "line_meaning gv (geo_of trees) line = Some f" "geo_inv trees" "\<forall>w v. gv w = Some v \<longrightarrow> v \<noteq> NGX_RADIX_NO_VALUE" "\<forall>n. ok n"
  shows "\<exists>trees'. geo_line ok pagesize gv trees line = Some (Returns (NGX_OK, trees')) \<and> geo_inv trees' \<and> geo_of trees' = f"
proof -
  obtain w0 w1 where line: "line = (w0, w1)" by (cases line)
  show ?thesis
  proof (cases "w0 = str ''default''")
    case True
    then show ?thesis
      using assms(1,3) default_spec [OF assms(2) _ _ _ assms(4)] line
      by (auto simp: line_meaning_def geo_line_def split: option.splits if_splits)
  next
    case False
    show ?thesis
    proof (cases "w0 = str ''delete''")
      case True
      then obtain c where "ngx_http_geo_cidr_value w1 = Some c" "snd (geo_key (host_order c)) \<noteq> []"
          "f = (geo_of trees)(geo_key (host_order c) := None)"
        using assms(1) False line by (auto simp: line_meaning_def geo_network_def Let_def split: option.splits if_splits)
      then show ?thesis
        using delete_spec [OF assms(2), of "host_order c"] cidr_value_keyed True False line by (simp add: geo_line_def Let_def)
    next
      case other: False
      then obtain c v where "ngx_http_geo_cidr_value w0 = Some c" "snd (geo_key (host_order c)) \<noteq> []" "gv w1 = Some v"
          "f = (geo_of trees)(geo_key (host_order c) \<mapsto> v)"
        using assms(1) False line by (auto simp: line_meaning_def geo_network_def Let_def split: option.splits if_splits)
      then show ?thesis
        using cidr_add_spec [OF assms(2) _ _ _ assms(4), of "host_order c" v pagesize] cidr_value_keyed assms(3) other False line
        by (simp add: geo_line_def Let_def)
    qed
  qed
qed

text \<open>The trees that are not made yet count as empty.\<close>

definition ctx_inv :: "radix_tree option \<times> radix_tree option \<Rightarrow> bool" where
  "ctx_inv ctx \<longleftrightarrow> (\<forall>t. fst ctx = Some t \<longrightarrow> radix_inv 32 t) \<and> (\<forall>t. snd ctx = Some t \<longrightarrow> radix_inv 128 t)"

definition ctx_of :: "radix_tree option \<times> radix_tree option \<Rightarrow> geo_map" where
  "ctx_of ctx n = (case if fst n then snd ctx else fst ctx of None \<Rightarrow> None | Some t \<Rightarrow> prefixes t (snd n))"

lemma ctx_Some: "ctx_inv (Some t, Some t6) = geo_inv (t, t6)" "ctx_of (Some t, Some t6) = geo_of (t, t6)"
  by (auto simp: ctx_inv_def geo_inv_def ctx_of_def geo_of_def fun_eq_iff)

text \<open>Making the trees that are missing.\<close>

lemma open_trees:
  assumes "ctx_inv (tree, tree6)" "\<forall>n. ok n"
  obtains t t6 where
    "(case tree of None \<Rightarrow> ngx_radix_tree_create True ok pagesize (- 1) | t \<Rightarrow> t) = Some t"
    "(case tree6 of None \<Rightarrow> ngx_radix_tree_create True ok pagesize (- 1) | t \<Rightarrow> t) = Some t6"
    "geo_inv (t, t6)" "geo_of (t, t6) = ctx_of (tree, tree6)"
proof -
  obtain t0 where t0: "ngx_radix_tree_create True ok pagesize (- 1) = Some t0"
    using create_ends [OF assms(2), of "- 1" pagesize] by auto
  then have new: "radix_inv 32 t0" "radix_inv 128 t0" "prefixes t0 = (\<lambda>_. None)"
    using create_spec [OF t0] by auto
  show thesis
    by (rule that [of "case tree of None \<Rightarrow> t0 | Some t \<Rightarrow> t" "case tree6 of None \<Rightarrow> t0 | Some t \<Rightarrow> t"])
      (use assms(1) new t0 in \<open>auto simp: ctx_inv_def geo_inv_def geo_of_def ctx_of_def fun_eq_iff split: option.split\<close>)
qed

lemma lines_spec:
  assumes "\<forall>w v. gv w = Some v \<longrightarrow> v \<noteq> NGX_RADIX_NO_VALUE" "\<forall>n. ok n"
  shows "block_meaning gv (ctx_of ctx) lines = Some f \<Longrightarrow> ctx_inv ctx \<Longrightarrow>
    \<exists>ctx'. geo_lines True ok pagesize gv ctx lines = Some (Returns (NGX_OK, ctx')) \<and> ctx_inv ctx' \<and> ctx_of ctx' = f"
proof (induction lines arbitrary: ctx)
  case (Cons line lines)
  obtain tree tree6 where ctx: "ctx = (tree, tree6)" by (cases ctx)
  obtain t t6 where op: "(case tree of None \<Rightarrow> ngx_radix_tree_create True ok pagesize (- 1) | t \<Rightarrow> t) = Some t"
      "(case tree6 of None \<Rightarrow> ngx_radix_tree_create True ok pagesize (- 1) | t \<Rightarrow> t) = Some t6"
      "geo_inv (t, t6)" "geo_of (t, t6) = ctx_of (tree, tree6)"
    using open_trees [OF Cons.prems(2) [unfolded ctx] assms(2)] .
  obtain f1 where f1: "line_meaning gv (geo_of (t, t6)) line = Some f1" "block_meaning gv f1 lines = Some f"
    using Cons.prems(1) op(4) ctx by (auto split: option.splits)
  obtain t' t6' where t': "geo_line ok pagesize gv (t, t6) line = Some (Returns (NGX_OK, (t', t6')))" "geo_inv (t', t6')"
      "geo_of (t', t6') = f1"
    using line_spec [OF f1(1) op(3) assms, of pagesize] by auto
  have "ngx_http_geo_cidr True ok pagesize gv ctx line = Some (Returns (NGX_OK, (Some t', Some t6')))"
    unfolding ngx_http_geo_cidr_def ctx prod.case op(1,2) option.case t'(1) ended.case by simp
  then show ?case
    using Cons.IH [of "(Some t', Some t6')"] f1(2) t' by (simp add: ctx_Some)
qed auto

lemma finish_spec:
  assumes "ctx_inv ctx" "null_value \<noteq> NGX_RADIX_NO_VALUE" "\<forall>n. ok n"
  shows "\<exists>trees. geo_finish True ok pagesize null_value ctx = Some trees \<and> geo_inv trees \<and>
    geo_of trees = with_default null_value (ctx_of ctx)"
proof -
  obtain tree tree6 where ctx: "ctx = (tree, tree6)" by (cases ctx)
  obtain t t6 where op: "(case tree of None \<Rightarrow> ngx_radix_tree_create True ok pagesize (- 1) | t \<Rightarrow> t) = Some t"
      "(case tree6 of None \<Rightarrow> ngx_radix_tree_create True ok pagesize (- 1) | t \<Rightarrow> t) = Some t6"
      "geo_inv (t, t6)" "geo_of (t, t6) = ctx_of (tree, tree6)"
    using open_trees [OF assms(1) [unfolded ctx] assms(3)] .
  obtain rc t' where t': "ngx_radix32tree_insert ok pagesize t 0 0 null_value = (rc, t')" by fastforce
  have ins: "radix_inv 32 t'" "rc \<noteq> NGX_ERROR"
      "prefixes t' = (if prefixes t [] = None then (prefixes t)([] \<mapsto> null_value) else prefixes t)"
    using radix32.ins_law [OF t' _ TrueI TrueI] op(3) assms(2,3) by (auto simp: geo_inv_def path_zero split: if_splits)
  obtain rc6 t6' where t6': "ngx_radix128tree_insert ok pagesize t6 (replicate 16 0) (replicate 16 0) null_value = (rc6, t6')"
    by fastforce
  have ins6: "radix_inv 128 t6'" "rc6 \<noteq> NGX_ERROR"
      "prefixes t6' = (if prefixes t6 [] = None then (prefixes t6)([] \<mapsto> null_value) else prefixes t6)"
    using radix128.ins_law [OF t6'] op(3) assms(2,3) by (auto simp: geo_inv_def path_zero split: if_splits)
  have "geo_finish True ok pagesize null_value ctx = Some (t', t6')"
    unfolding geo_finish_def ctx prod.case op(1,2) option.case t' t6' using ins(2) ins6(2) by simp
  moreover have "geo_of (t', t6') = with_default null_value (geo_of (t, t6))"
    by (auto simp: fun_eq_iff geo_of_def with_default_def ins(3) ins6(3))
  ultimately show ?thesis using ins(1) ins6(1) op(4) ctx by (auto simp: geo_inv_def)
qed

lemma wbits_be32: "wbits 32 (be32 a b c d) = wbits 8 a @ wbits 8 b @ wbits 8 c @ wbits 8 d"
proof -
  have e: "(32 :: nat) = 8 + (8 + (8 + 8))" by simp
  have "wbits 8 (drop_bit (8 * k) w) = wbits 8 (byte32 w k)" if "k \<le> 3" for k and w :: u32
    by (rule wbits_cong) (use that in \<open>simp add: byte32_def bit_simps\<close>)
  from this [of 3 "be32 a b c d"] this [of 2 "be32 a b c d"] this [of 1 "be32 a b c d"] this [of 0 "be32 a b c d"]
  show ?thesis unfolding e wbits_add by simp
qed

lemma wbits_ntohl: "wbits 32 (ntohl a) = bits_of (in_addr_bytes a)"
  by (simp add: ntohl_def htonl_def wbits_be32 in_addr_bytes_def)

lemma variable_spec:
  assumes "geo_inv trees" "sockaddr_ok sa" "\<forall>path. sa \<noteq> Sockaddr_un path"
  shows "ngx_http_geo_cidr_variable trees beyond (Some sa) = Some (most_specific (geo_of trees) sa)"
proof -
  obtain t t6 where trees: "trees = (t, t6)" by (cases trees)
  have find4: "ngx_radix32tree_find t key = Some (longest_prefix (prefixes t) (wbits 32 key))" for key
    using radix32.look_law assms(1) trees by (simp add: geo_inv_def)
  have find6: "ngx_radix128tree_find t6 key beyond = Some (longest_prefix (prefixes t6) (bits_of key))" if "length key = 16" for key
    using radix128.look_law assms(1) trees that by (simp add: geo_inv_def)
  have eta: "(\<lambda>n. prefixes x n) = prefixes x" for x by simp
  show ?thesis
  proof (cases sa)
    case (Sockaddr_in a prt)
    then show ?thesis
      by (simp add: ngx_http_geo_cidr_variable_def trees find4 most_specific_def geo_of_def wbits_ntohl)
  next
    case (Sockaddr_in6 p prt)
    then show ?thesis
      using assms(2) find6 [of p]
      by (simp add: ngx_http_geo_cidr_variable_def trees find4 most_specific_def geo_of_def wbits_be32 in_addr_bytes_htonl)
  qed (use assms(3) in simp)
qed
text \<open>A block written as an address and a number of bits.\<close>

lemma bits_prefix_masks: "s \<le> 8 * n \<Longrightarrow> bits_of (prefix_masks s n) = replicate s True @ replicate (8 * n - s) False"
proof (induction n arbitrary: s)
  case (Suc n)
  have byte: "wbits 8 (mask_byte k) = replicate k True @ replicate (8 - k) False" if "k \<le> 8" for k
    by (rule nth_equalityI) (use that in \<open>auto simp: nth_wbits bit_mask_byte nth_append\<close>)
  show ?case
  proof (cases "s \<le> 8")
    case True
    then show ?thesis using Suc.IH [of 0] byte [of s] by (simp add: min_def flip: replicate_add)
  next
    case False
    then have "replicate s True = replicate 8 True @ replicate (s - 8) True" by (simp flip: replicate_add)
    then show ?thesis using Suc.IH [of "s - 8"] Suc.prems byte [of 8] False by (simp add: min_def)
  qed
qed simp

lemma masked_bits_prefix: "length ks = n \<Longrightarrow> s \<le> n \<Longrightarrow> masked_bits ks (replicate s True @ replicate (n - s) False) = take s ks"
proof (induction s arbitrary: ks n)
  case (Suc s)
  then obtain k ks' where "ks = k # ks'" by (cases ks) auto
  then show ?case using Suc.IH [of ks' "n - 1"] Suc.prems by auto
qed (simp add: masked_bits_none)

lemma masked_path:
  assumes "length p = n" "s \<le> 8 * n"
  shows "masked_bits (bits_of (masked p (prefix_masks s n))) (bits_of (prefix_masks s n)) = take s (bits_of p)"
  using assms Sockaddr.masked_bits [OF assms(1), of s]
  by (simp add: bits_prefix_masks masked_bits_prefix)

fun is_in6 :: "sockaddr \<Rightarrow> bool" where
  "is_in6 (Sockaddr_in6 p prt) = True"
| "is_in6 sa = False"

section \<open>Properties\<close>

text \<open>The word \<open>address/s\<close> of a line stands for the network of the first \<open>s\<close> bits of the address, in the
  family of the address; bits behind the prefix have no meaning.\<close>

theorem geo_network_text:
  assumes a: "ngx_parse_addr True a = (NGX_OK, Some sa)" "0x2f \<notin> set a"
    and m: "ngx_atoi m = Some s" "0 < s" "s \<le> (if is_in6 sa then 128 else 32)"
  shows "geo_network (a @ 0x2f # m) = Some (is_in6 sa, take (nat s) (addr_bits sa))"
proof -
  have no_host: "a @ 0x2f # m \<noteq> str ''255.255.255.255''"
  proof
    assume "a @ 0x2f # m = str ''255.255.255.255''"
    then have "0x2f \<in> set (str ''255.255.255.255'')" by (metis in_set_conv_decomp)
    then show False by (simp add: str_def)
  qed
  show ?thesis
  proof (cases "ngx_inet_addr a = INADDR_NONE")
    case False
    define w where "w = ngx_inet_addr a"
    define msk where "msk = (if nat s \<noteq> 0 then htonl (push_bit (32 - nat s) 0xffffffff) else 0)"
    have sa: "sa = Sockaddr_in w 0" using a(1) False by (simp add: ngx_parse_addr_def Let_def w_def)
    then have s: "s \<le> 32" using m(3) by simp
    have bits: "in_addr_bytes msk = prefix_masks (nat s) 4" unfolding msk_def by (rule in_addr_mask) (use s in simp)
    have "path32 (ntohl (w AND msk)) (ntohl msk) = take (nat s) (addr_bits sa)"
      using masked_path [of "in_addr_bytes w" 4 "nat s"] s sa
      by (simp add: path32_def wbits_ntohl in_addr_bytes_and bits) (simp add: in_addr_bytes_def)
    moreover have "take (nat s) (addr_bits sa) \<noteq> []"
      using m(2) sa by (simp add: in_addr_bytes_def wbits_Suc numeral_eq_Suc)
    ultimately show ?thesis
      using ptocidr4 [OF w_def [symmetric] False [folded w_def] a(2) m(1) s, folded msk_def] no_host sa
      by (simp add: geo_network_def ngx_http_geo_cidr_value_def Let_def)
  next
    case True
    then obtain p where p: "ngx_inet6_addr a = Some p" "sa = Sockaddr_in6 p 0"
      using a(1) by (auto simp: ngx_parse_addr_def Let_def split: option.splits)
    have len: "length p = 16" by (rule inet6_addr_length [OF p(1)])
    have s: "s \<le> 128" using m(3) p(2) by simp
    have "path128 (masked p (prefix_masks (nat s) 16)) (prefix_masks (nat s) 16) = take (nat s) (addr_bits sa)"
      using masked_path [OF len, of "nat s"] s p(2) by (simp add: path128_def)
    moreover have "take (nat s) (addr_bits sa) \<noteq> []"
      using m(2) p(2) len by (auto simp: take_eq_Nil simp flip: length_0_conv)
    ultimately show ?thesis
      using ptocidr6 [OF True p(1) a(2) m(1) s] no_host p(2)
      by (simp add: geo_network_def ngx_http_geo_cidr_value_def Let_def)
  qed
qed

theorem geo_network_text_witness:
  "geo_network (str ''10.1.2.3'' @ 0x2f # str ''12'') = Some (False, take 12 (addr_bits (Sockaddr_in (htonl 0x0a010203) 0)))"
proof -
  have "ngx_parse_addr True (str ''10.1.2.3'') = (NGX_OK, Some (Sockaddr_in (htonl 0x0a010203) 0))"
    "0x2f \<notin> set (str ''10.1.2.3'')" "ngx_atoi (str ''12'') = Some 12"
    by code_simp+
  then show ?thesis
    using geo_network_text [of "str ''10.1.2.3''" "Sockaddr_in (htonl 0x0a010203) 0" "str ''12''" 12] by simp
qed

text \<open>C6: with memory, a block without ranges whose lines make sense is read without an error, and the
  variable's value for the address of a client, of either family, an IPv4 address mapped into IPv6 counting
  as IPv4, is the one of the most specific network that the lines leave: a later line for the same network
  wins, a deleted network has no value, and the default is the empty value unless a line gives one.\<close>

theorem geo_most_specific:
  assumes "block_meaning gv (\<lambda>_. None) lines = Some f"
    and "\<forall>w v. gv w = Some v \<longrightarrow> v \<noteq> NGX_RADIX_NO_VALUE" "null_value \<noteq> NGX_RADIX_NO_VALUE" "\<forall>n. ok n"
    and "sockaddr_ok sa" "\<forall>path. sa \<noteq> Sockaddr_un path"
  shows "\<exists>ctx trees. geo_lines True ok pagesize gv (None, None) lines = Some (Returns (NGX_OK, ctx)) \<and>
    geo_finish True ok pagesize null_value ctx = Some trees \<and>
    ngx_http_geo_cidr_variable trees beyond (Some sa) = Some (most_specific (with_default null_value f) sa)"
proof -
  have "ctx_inv (None, None)" "ctx_of (None, None) = (\<lambda>_. None)"
    by (simp_all add: ctx_inv_def ctx_of_def fun_eq_iff)
  then obtain ctx where ctx: "geo_lines True ok pagesize gv (None, None) lines = Some (Returns (NGX_OK, ctx))"
      "ctx_inv ctx" "ctx_of ctx = f"
    using lines_spec [OF assms(2,4), of "(None, None)" lines f pagesize] assms(1) by auto
  obtain trees where "geo_finish True ok pagesize null_value ctx = Some trees" "geo_inv trees"
      "geo_of trees = with_default null_value f"
    using finish_spec [OF ctx(2) assms(3,4), of pagesize] ctx(3) by auto
  then show ?thesis
    using ctx(1) variable_spec [OF _ assms(5,6), of trees beyond] by metis
qed

text \<open>A block of three lines and a client in the smaller of its two networks.\<close>

definition sample_values :: "bytes \<Rightarrow> u64 option" where
  "sample_values w = (if w = str ''us'' then Some 1 else if w = str ''eu'' then Some 2 else if w = str ''de'' then Some 3 else None)"

definition sample_block :: "(bytes \<times> bytes) list" where
  "sample_block = [(str ''default'', str ''us''), (str ''10.0.0.0/8'', str ''eu''), (str ''10.1.0.0/16'', str ''de'')]"

theorem geo_most_specific_witness:
  "\<exists>ctx trees. geo_lines True (\<lambda>_. True) 4096 sample_values (None, None) sample_block = Some (Returns (NGX_OK, ctx)) \<and>
    geo_finish True (\<lambda>_. True) 4096 9 ctx = Some trees \<and>
    ngx_http_geo_cidr_variable trees (\<lambda>_. 0) (Some (Sockaddr_in (htonl 0x0a010203) 80)) = Some 3"
proof -
  define f where "f = the (block_meaning sample_values (\<lambda>_. None) sample_block)"
  have "block_meaning sample_values (\<lambda>_. None) sample_block \<noteq> None"
    by code_simp
  then have f: "block_meaning sample_values (\<lambda>_. None) sample_block = Some f"
    by (auto simp: f_def)
  have "map_option (\<lambda>f. most_specific (with_default 9 f) (Sockaddr_in (htonl 0x0a010203) 80))
      (block_meaning sample_values (\<lambda>_. None) sample_block) = Some 3"
    by code_simp
  then have "most_specific (with_default 9 f) (Sockaddr_in (htonl 0x0a010203) 80) = 3"
    by (simp add: f)
  then show ?thesis
    using geo_most_specific [OF f, of 9 "\<lambda>_. True" "Sockaddr_in (htonl 0x0a010203) 80" 4096 "\<lambda>_. 0"]
    by (simp add: sample_values_def NGX_RADIX_NO_VALUE_def)
qed

end
