(* ===== verification/Dns.thy ===== *)
theory Dns
  imports Sockaddr
begin

text \<open>
  The messages of the resolver (\<^verbatim>\<open>src/core/ngx_resolver.c\<close>): writing queries, reading names with compression
  pointers, the question and the answers of a response.  A received message is the memory from \<open>buf\<close> on, a function from
  offsets to bytes, with the length \<open>n\<close> of the message: the code can read behind the message.
\<close>

type_synonym memory = "nat \<Rightarrow> u8"

text \<open>The memory that begins with a list of bytes.\<close>

definition mem_of :: "bytes \<Rightarrow> memory \<Rightarrow> memory" where
  "mem_of bs beyond i = (if i < length bs then bs ! i else beyond i)"

definition be16_at :: "memory \<Rightarrow> nat \<Rightarrow> nat" where
  "be16_at buf i = unat (buf i) * 256 + unat (buf (i + 1))"

section \<open>Types and codes\<close>

definition NGX_RESOLVE_A :: nat where "NGX_RESOLVE_A = 1"
definition NGX_RESOLVE_CNAME :: nat where "NGX_RESOLVE_CNAME = 5"
definition NGX_RESOLVE_PTR :: nat where "NGX_RESOLVE_PTR = 12"
definition NGX_RESOLVE_AAAA :: nat where "NGX_RESOLVE_AAAA = 28"
definition NGX_RESOLVE_SRV :: nat where "NGX_RESOLVE_SRV = 33"
definition NGX_RESOLVE_DNAME :: nat where "NGX_RESOLVE_DNAME = 39"
definition NGX_RESOLVE_FORMERR :: nat where "NGX_RESOLVE_FORMERR = 1"
definition NGX_RESOLVE_NXDOMAIN :: nat where "NGX_RESOLVE_NXDOMAIN = 3"
definition NGX_RESOLVE_REFUSED :: nat where "NGX_RESOLVE_REFUSED = 5"

text \<open>\<open>sizeof\<close> of \<open>ngx_resolver_hdr_t\<close>, \<open>ngx_resolver_qs_t\<close> and \<open>ngx_resolver_an_t\<close>.\<close>

definition dns_hdr_size :: nat where "dns_hdr_size = 12"
definition dns_qs_size :: nat where "dns_qs_size = 4"
definition dns_an_size :: nat where "dns_an_size = 10"

section \<open>Queries\<close>

text \<open>
  The name is converted from its last byte to its first; \<open>out\<close> is what lies behind \<open>p\<close> and \<open>len\<close> the length of the
  label so far.  \<open>None\<close> is \<open>NGX_DECLINED\<close>.
\<close>

fun query_labels :: "bytes \<Rightarrow> nat \<Rightarrow> bytes \<Rightarrow> bytes option" where
  "query_labels [] len out = (if len = 0 \<or> len > 255 then None else Some (word_of_nat len # out))"
| "query_labels (s # name) len out =
     (if s \<noteq> 0x2e then query_labels name (len + 1) (s # out)
      else if len = 0 \<or> len > 255 then None
      else query_labels name 0 (word_of_nat len # out))"

definition query_name :: "bytes \<Rightarrow> bytes option" where
  "query_name name = (if name = [] then None else query_labels (rev name) 0 [0])"

text \<open>The header of a query for recursion with one question, and the type and class behind the name.\<close>

definition query_hdr :: "nat \<Rightarrow> bytes" where
  "query_hdr ident = [word_of_nat (ident div 256), word_of_nat ident, 1, 0, 0, 1, 0, 0, 0, 0, 0, 0]"

definition query_qs :: "nat \<Rightarrow> bytes" where
  "query_qs type = [0, word_of_nat type, 0, 1]"

text \<open>
  \<open>ngx_resolver_create_name_query\<close> with the random numbers \<open>ident\<close> and \<open>ident6\<close> of its queries: the query for
  IPv4 and, with \<open>ipv6\<close>, the one for IPv6.
\<close>

definition ngx_resolver_create_name_query ::
    "bool \<Rightarrow> bool \<Rightarrow> nat \<Rightarrow> nat \<Rightarrow> bytes \<Rightarrow> ngx_rc \<times> (bytes \<times> bytes option) option" where
  "ngx_resolver_create_name_query ok ipv6 ident ident6 name =
     (if \<not> ok then (NGX_ERROR, None)
      else case query_name name of
             None \<Rightarrow> (NGX_DECLINED, None)
           | Some qname \<Rightarrow>
               (NGX_OK, Some (query_hdr ident @ qname @ query_qs NGX_RESOLVE_A,
                  if ipv6 then Some (query_hdr ident6 @ qname @ query_qs NGX_RESOLVE_AAAA) else None)))"

definition ngx_resolver_create_srv_query :: "bool \<Rightarrow> nat \<Rightarrow> bytes \<Rightarrow> ngx_rc \<times> bytes option" where
  "ngx_resolver_create_srv_query ok ident name =
     (if \<not> ok then (NGX_ERROR, None)
      else case query_name name of
             None \<Rightarrow> (NGX_DECLINED, None)
           | Some qname \<Rightarrow> (NGX_OK, Some (query_hdr ident @ qname @ query_qs NGX_RESOLVE_SRV)))"

text \<open>The name of an address, an octet or a nibble a label, last first.\<close>

definition fmt_nibble :: "u8 \<Rightarrow> bytes" where
  "fmt_nibble v = ngx_sprintf_num 20 (ucast v) 0x20 1 0"

definition ptr_name6 :: "bytes \<Rightarrow> bytes" where
  "ptr_name6 p =
     concat (map (\<lambda>c. [1] @ fmt_nibble (c AND 0xf) @ [1] @ fmt_nibble (drop_bit 4 c AND 0xf)) (rev p)) @
     [3] @ str ''ip6'' @ [4] @ str ''arpa'' @ [0]"

definition ptr_name4 :: "u32 \<Rightarrow> bytes" where
  "ptr_name4 inaddr =
     concat (map (\<lambda>k. let d = fmt_ud (byte32 inaddr k) in word_of_nat (length d) # d) [0, 1, 2, 3]) @
     [7] @ str ''in-addr'' @ [4] @ str ''arpa'' @ [0]"

definition ngx_resolver_create_addr_query :: "bool \<Rightarrow> nat \<Rightarrow> sockaddr \<Rightarrow> ngx_rc \<times> bytes option" where
  "ngx_resolver_create_addr_query ok ident sa =
     (if \<not> ok then (NGX_ERROR, None)
      else (NGX_OK, Some (query_hdr ident @
              (case sa of
                 Sockaddr_in6 p prt \<Rightarrow> ptr_name6 p
               | Sockaddr_in a prt \<Rightarrow> ptr_name4 (ntohl a)
               | Sockaddr_un path \<Rightarrow> ptr_name4 0) @ query_qs NGX_RESOLVE_PTR)))"

section \<open>Names with compression pointers\<close>

text \<open>
  The first loop of \<open>ngx_resolver_copy\<close>, of at most 128 rounds: the length of the name, or \<open>None\<close> when the name leaves the
  message or the rounds run out.
\<close>

definition pointer_at :: "memory \<Rightarrow> nat \<Rightarrow> u8 \<Rightarrow> nat" where
  "pointer_at buf p c = unat (c AND 0x3f) * 256 + unat (buf p)"

fun copy_scan :: "memory \<Rightarrow> nat \<Rightarrow> nat \<Rightarrow> nat \<Rightarrow> int \<Rightarrow> int option" where
  "copy_scan buf last_off 0 p len = None"
| "copy_scan buf last_off (Suc rounds) p len =
     (let c = buf p; p = p + 1
      in if c = 0 then Some len
         else
           let (p, len) = (if c AND 0xc0 \<noteq> 0 then (pointer_at buf p c, len) else (p + unat c, len + 1 + int (unat c)))
           in if p \<ge> last_off then None else copy_scan buf last_off rounds p len)"

text \<open>The second loop: \<open>c\<close> is the byte \<open>n\<close> and \<open>dst\<close> what has been written so far.\<close>

partial_function (option) copy_loop :: "memory \<Rightarrow> u8 \<Rightarrow> nat \<Rightarrow> bytes \<Rightarrow> bytes option" where
  [code]: "copy_loop buf c src dst =
     (if c AND 0xc0 \<noteq> 0 then
        (let src = pointer_at buf src c; c = buf src
         in if c = 0 then Some dst else copy_loop buf c (src + 1) dst)
      else
        (let dst = dst @ map (ngx_tolower \<circ> buf) [src..<src + unat c];
             src = src + unat c; c = buf src;
             dst = (if c \<noteq> 0 then dst @ [0x2e] else dst)
         in if c = 0 then Some dst else copy_loop buf c (src + 1) dst))"

text \<open>The name, with the size of the buffer that was allocated for it and what is written to it.\<close>

datatype dns_name = Name_error | Name_null | Name_copied nat bytes

definition ngx_resolver_copy :: "bool \<Rightarrow> memory \<Rightarrow> nat \<Rightarrow> nat \<Rightarrow> dns_name option" where
  "ngx_resolver_copy ok buf src last_off =
     (case copy_scan buf last_off 128 src (- 1) of
        None \<Rightarrow> Some Name_error
      | Some len \<Rightarrow>
          if len = - 1 then Some Name_null
          else if \<not> ok then Some Name_error
          else (case copy_loop buf (buf src) (src + 1) [] of
                  None \<Rightarrow> None
                | Some dst \<Rightarrow> Some (Name_copied (nat len) dst)))"

section \<open>Responses\<close>

text \<open>What \<open>ngx_resolver_process_response\<close> makes of a message: the handler it calls, with the arguments.\<close>

datatype dns_response =
    Resp_dropped
  | Resp_error nat
  | Resp_a nat nat nat nat bool nat
  | Resp_srv nat nat nat bool nat
  | Resp_ptr nat nat nat

function skip_question :: "memory \<Rightarrow> nat \<Rightarrow> nat \<Rightarrow> nat option" where
  "skip_question buf n i =
     (if i < n then (if buf i = 0 then Some i else skip_question buf n (i + 1 + unat (buf i))) else None)"
  by pat_completeness auto
termination by (relation "measure (\<lambda>(buf, n, i). n - i)") auto

declare skip_question.simps [simp del]

definition ngx_resolver_process_response :: "memory \<Rightarrow> nat \<Rightarrow> bool \<Rightarrow> dns_response" where
  "ngx_resolver_process_response buf n tcp =
     (if n < dns_hdr_size then Resp_dropped
      else
        let ident = be16_at buf 0; flags = be16_at buf 2; nqs = be16_at buf 4; nan = be16_at buf 6;
            trunc = flags AND 0x0200 \<noteq> 0; code = flags AND 0xf
        in if flags AND 0xf870 \<noteq> 0x8000 \<or> (trunc \<and> tcp) then Resp_dropped
           else if code = NGX_RESOLVE_FORMERR \<or> code > NGX_RESOLVE_REFUSED then Resp_error code
           else if nqs \<noteq> 1 then Resp_dropped
           else case skip_question buf n dns_hdr_size of
                  None \<Rightarrow> Resp_dropped
                | Some i \<Rightarrow>
                    if i = dns_hdr_size then Resp_dropped
                    else
                      let i = i + 1
                      in if i + dns_qs_size + nan * (2 + dns_an_size) > n then Resp_dropped
                         else
                           let qtype = be16_at buf i; qclass = be16_at buf (i + 2); ans = i + dns_qs_size
                           in if qclass \<noteq> 1 then Resp_dropped
                              else if qtype = NGX_RESOLVE_A \<or> qtype = NGX_RESOLVE_AAAA
                                   then Resp_a ident code qtype nan trunc ans
                              else if qtype = NGX_RESOLVE_SRV then Resp_srv ident code nan trunc ans
                              else if qtype = NGX_RESOLVE_PTR then Resp_ptr ident code nan
                              else Resp_dropped)"

text \<open>The records behind the question: the errors of the loops over them.\<close>

datatype dns_error = Short_response | Invalid_response | Unexpected_class

record dns_rr =
  rr_data_at :: nat
  rr_type :: nat
  rr_class :: nat
  rr_ttl :: u32
  rr_len :: nat

text \<open>The end of the name of a record, and whether it ends with a pointer.\<close>

function skip_name :: "memory \<Rightarrow> nat \<Rightarrow> nat \<Rightarrow> (nat \<times> bool) option" where
  "skip_name buf n i =
     (if i < n then
        (if buf i AND 0xc0 \<noteq> 0 then Some (i + 2, True)
         else if buf i = 0 then Some (i + 1, False)
         else skip_name buf n (i + 1 + unat (buf i)))
      else None)"
  by pat_completeness auto
termination by (relation "measure (\<lambda>(buf, n, i). n - i)") auto

declare skip_name.simps [simp del]

definition read_rr :: "memory \<Rightarrow> nat \<Rightarrow> nat \<Rightarrow> dns_error + dns_rr" where
  "read_rr buf n start =
     (case skip_name buf n start of
        None \<Rightarrow> Inl Short_response
      | Some (i, pointer) \<Rightarrow>
          if \<not> pointer \<and> i - start < 2 then Inl Invalid_response
          else if i + dns_an_size \<ge> n then Inl Short_response
          else
            let ttl = be32 (buf (i + 4)) (buf (i + 5)) (buf (i + 6)) (buf (i + 7))
            in Inr \<lparr>rr_data_at = i + dns_an_size, rr_type = be16_at buf i, rr_class = be16_at buf (i + 2),
                    rr_ttl = (if sint ttl < 0 then 0 else ttl), rr_len = be16_at buf (i + 8)\<rparr>)"

text \<open>
  The first loop of \<open>ngx_resolver_process_a\<close>: the number of addresses, where the last alias is, and the least
  time to live, that of the node (\<open>rn->ttl\<close>) included.
\<close>

fun scan_answers ::
    "memory \<Rightarrow> nat \<Rightarrow> nat \<Rightarrow> nat \<Rightarrow> nat \<Rightarrow> nat \<Rightarrow> nat option \<Rightarrow> u32 \<Rightarrow> dns_error + nat \<times> nat option \<times> u32" where
  "scan_answers buf n qtype 0 i naddrs cname ttl = Inr (naddrs, cname, ttl)"
| "scan_answers buf n qtype (Suc nan) i naddrs cname ttl =
     (case read_rr buf n i of
        Inl e \<Rightarrow> Inl e
      | Inr rr \<Rightarrow>
          if rr_class rr \<noteq> 1 then Inl Unexpected_class
          else
            let ttl = min ttl (rr_ttl rr); i = rr_data_at rr
            in if rr_type rr = NGX_RESOLVE_A then
                 (if qtype \<noteq> NGX_RESOLVE_A then Inl Invalid_response
                  else if rr_len rr \<noteq> 4 then Inl Invalid_response
                  else if i + 4 > n then Inl Short_response
                  else scan_answers buf n qtype nan (i + rr_len rr) (naddrs + 1) cname ttl)
               else if rr_type rr = NGX_RESOLVE_AAAA then
                 (if qtype \<noteq> NGX_RESOLVE_AAAA then Inl Invalid_response
                  else if rr_len rr \<noteq> 16 then Inl Invalid_response
                  else if i + 16 > n then Inl Short_response
                  else scan_answers buf n qtype nan (i + rr_len rr) (naddrs + 1) cname ttl)
               else if rr_type rr = NGX_RESOLVE_CNAME then
                 scan_answers buf n qtype nan (i + rr_len rr) naddrs (Some i) ttl
               else scan_answers buf n qtype nan (i + rr_len rr) naddrs cname ttl)"

text \<open>The second loop, which fetches the addresses without looking at \<open>n\<close>.\<close>

partial_function (option) skip_any :: "memory \<Rightarrow> nat \<Rightarrow> nat option" where
  [code]: "skip_any buf i =
     (if buf i AND 0xc0 \<noteq> 0 then Some (i + 2)
      else if buf i = 0 then Some (i + 1)
      else skip_any buf (i + 1 + unat (buf i)))"

fun collect_addrs :: "memory \<Rightarrow> nat \<Rightarrow> nat \<Rightarrow> nat \<Rightarrow> bytes list \<Rightarrow> bytes list option" where
  "collect_addrs buf naddrs 0 i addrs = Some addrs"
| "collect_addrs buf naddrs (Suc nan) i addrs =
     (case skip_any buf i of
        None \<Rightarrow> None
      | Some i \<Rightarrow>
          let typ = be16_at buf i; len = be16_at buf (i + 8); i = i + dns_an_size;
              addrs = (if typ = NGX_RESOLVE_A then addrs @ [map buf [i..<i + 4]]
                       else if typ = NGX_RESOLVE_AAAA then addrs @ [map buf [i..<i + 16]] else addrs)
          in if (typ = NGX_RESOLVE_A \<or> typ = NGX_RESOLVE_AAAA) \<and> length addrs = naddrs then Some addrs
             else collect_addrs buf naddrs nan (i + len) addrs)"

section \<open>Addresses in the question of a response\<close>

fun ptr4_loop :: "memory \<Rightarrow> nat list \<Rightarrow> nat \<Rightarrow> u32 \<Rightarrow> (u32 \<times> nat) option" where
  "ptr4_loop buf [] i addr = Some (addr, i)"
| "ptr4_loop buf (k # ks) i addr =
     (let len = unat (buf i); i = i + 1
      in case ngx_atoi (map buf [i..<i + len]) of
           None \<Rightarrow> None
         | Some octet \<Rightarrow>
             if octet > 255 then None
             else ptr4_loop buf ks (i + len) (addr + push_bit k (word_of_int octet)))"

text \<open>The bytes of the address from the last one on.\<close>

fun ptr6_loop :: "memory \<Rightarrow> nat \<Rightarrow> nat \<Rightarrow> bytes \<Rightarrow> (bytes \<times> nat) option" where
  "ptr6_loop buf 0 i addr6 = Some (addr6, i)"
| "ptr6_loop buf (Suc octets) i addr6 =
     (if buf i \<noteq> 1 then None
      else case ngx_hextoi [buf (i + 1)] of
             None \<Rightarrow> None
           | Some lo \<Rightarrow>
               if buf (i + 2) \<noteq> 1 then None
               else case ngx_hextoi [buf (i + 3)] of
                      None \<Rightarrow> None
                    | Some hi \<Rightarrow> ptr6_loop buf octets (i + 4) ((word_of_int lo + word_of_int (hi * 16)) # addr6))"

text \<open>\<open>ngx_strcasecmp\<close> of the text at an offset with a string that ends there too.\<close>

definition strcase_at :: "memory \<Rightarrow> nat \<Rightarrow> bytes \<Rightarrow> bool" where
  "strcase_at buf i s \<longleftrightarrow> list_all (\<lambda>j. ngx_tolower (buf (i + j)) = ngx_tolower ((s @ [0]) ! j)) [0..<length s + 1]"

text \<open>The address that \<open>ngx_resolver_process_ptr\<close> looks up, and where the question goes on.\<close>

datatype ptr_question = Ptr_in u32 nat | Ptr_in6 bytes nat | Ptr_invalid

definition ptr_question_of :: "memory \<Rightarrow> ptr_question" where
  "ptr_question_of buf =
     (case (case ptr4_loop buf [0, 8, 16, 24] dns_hdr_size 0 of
              None \<Rightarrow> None
            | Some (addr, i) \<Rightarrow>
                if strcase_at buf i ([7] @ str ''in-addr'' @ [4] @ str ''arpa'') then Some (addr, i + 14) else None) of
        Some (addr, i) \<Rightarrow> Ptr_in addr i
      | None \<Rightarrow>
          (case ptr6_loop buf 16 dns_hdr_size [] of
             None \<Rightarrow> Ptr_invalid
           | Some (addr6, i) \<Rightarrow>
               if strcase_at buf i ([3] @ str ''ip6'' @ [4] @ str ''arpa'') then Ptr_in6 addr6 (i + 10) else Ptr_invalid))"

text \<open>The loop over the answers to it: where the name of the first \<open>PTR\<close> record is.\<close>

fun scan_ptr :: "memory \<Rightarrow> nat \<Rightarrow> nat \<Rightarrow> nat \<Rightarrow> dns_error + nat option" where
  "scan_ptr buf n 0 i = Inr None"
| "scan_ptr buf n (Suc nan) i =
     (case read_rr buf n i of
        Inl e \<Rightarrow> Inl e
      | Inr rr \<Rightarrow>
          if rr_class rr \<noteq> 1 then Inl Unexpected_class
          else if rr_type rr = NGX_RESOLVE_PTR then Inr (Some (rr_data_at rr))
          else scan_ptr buf n nan (rr_data_at rr + rr_len rr))"

end
