(* ===== verification/DnsSpec.thy ===== *)
theory DnsSpec
  imports Dns
begin

text \<open>
  What the messages of the resolver mean: names as lists of labels, copied within the size allocated for them
  but for one byte, the round trip of names and addresses through queries, and the answers, which are read
  within the message only.
\<close>

section \<open>Names\<close>

text \<open>
  The labels of a name, and whether a pointer stands behind the last of them (or at the beginning, when there
  are none).
\<close>

fun name_walk :: "memory \<Rightarrow> nat \<Rightarrow> nat \<Rightarrow> nat \<Rightarrow> (bytes list \<times> bool) option" where
  "name_walk buf last_off 0 p = None"
| "name_walk buf last_off (Suc rounds) p =
     (if buf p = 0 then Some ([], False)
      else if buf p AND 0xc0 \<noteq> 0 then
        (let q = pointer_at buf (p + 1) (buf p)
         in if q \<ge> last_off then None
            else map_option (\<lambda>(ls, e). (ls, e \<or> ls = [])) (name_walk buf last_off rounds q))
      else
        (let q = p + 1 + unat (buf p)
         in if q \<ge> last_off then None
            else map_option (\<lambda>(ls, e). (map buf [p + 1..<q] # ls, e)) (name_walk buf last_off rounds q)))"

fun dotted :: "bytes list \<Rightarrow> bool \<Rightarrow> bytes" where
  "dotted [] e = []"
| "dotted (l # ls) e = map ngx_tolower l @ (if ls = [] then (if e then [0x2e] else []) else 0x2e # dotted ls e)"

definition name_size :: "bytes list \<Rightarrow> nat" where
  "name_size ls = sum_list (map (\<lambda>l. 1 + length l) ls)"

lemma name_size_simps [simp]: "name_size [] = 0" "name_size (l # ls) = 1 + length l + name_size ls"
  by (simp_all add: name_size_def)

lemma dotted_length: "ls \<noteq> [] \<Longrightarrow> length (dotted ls e) = name_size ls - 1 + (if e then 1 else 0)"
proof (induction ls)
  case (Cons l ls)
  then show ?case by (cases ls) auto
qed simp

lemma copy_scan_walk:
  "copy_scan buf last_off k p len = map_option (\<lambda>(ls, e). len + int (name_size ls)) (name_walk buf last_off k p)"
proof (induction k arbitrary: p len)
  case (Suc k)
  show ?case
    by (auto simp: Let_def Suc.IH option.map_comp comp_def split_beta simp del: upt_Suc intro!: option.map_cong)
qed simp

lemma walk_nil: "name_walk buf last_off k p = Some ([], e) \<Longrightarrow> buf p \<noteq> 0 \<Longrightarrow> e"
  by (cases k) (auto simp: Let_def split: if_splits)

lemma copy_loop_walk:
  "name_walk buf last_off k p = Some (ls, e) \<Longrightarrow> buf p \<noteq> 0 \<Longrightarrow> copy_loop buf (buf p) (p + 1) dst = Some (dst @ dotted ls e)"
proof (induction k arbitrary: p ls e dst)
  case (Suc k)
  show ?case
  proof (cases "buf p AND 0xc0 = 0")
    case False
    define q where "q = pointer_at buf (p + 1) (buf p)"
    obtain e' where walk: "name_walk buf last_off k q = Some (ls, e')" "e = (e' \<or> ls = [])"
      using Suc.prems False by (auto simp: Let_def q_def split: if_splits)
    show ?thesis
    proof (cases "buf q = 0")
      case True
      then have "ls = []" using walk(1) by (cases k) auto
      then show ?thesis using False True by (subst copy_loop.simps) (simp add: Let_def q_def)
    next
      case nonzero: False
      have "dotted ls e' = dotted ls e" using walk(2) by (cases ls) auto
      then show ?thesis
        using Suc.IH [OF walk(1) nonzero, of dst] False nonzero
        by (subst copy_loop.simps) (simp add: Let_def q_def)
    qed
  next
    case True
    define q where "q = p + 1 + unat (buf p)"
    obtain ls' where walk: "name_walk buf last_off k q = Some (ls', e)" "ls = map buf [p + 1..<q] # ls'"
      using Suc.prems True by (auto simp: Let_def q_def split: if_splits)
    have label: "map (ngx_tolower \<circ> buf) [p + 1..<p + 1 + unat (buf p)] = map ngx_tolower (map buf [p + 1..<q])"
      by (simp add: q_def)
    show ?thesis
    proof (cases "buf q = 0")
      case True
      then have "ls' = []" "\<not> e" using walk(1) by (cases k; auto)+
      then show ?thesis
        using \<open>buf p AND 0xc0 = 0\<close> True walk(2) label
        by (subst copy_loop.simps) (simp add: Let_def q_def del: upt_Suc)
    next
      case False
      have "0x2e # dotted ls' e = (if ls' = [] then (if e then [0x2e] else []) else 0x2e # dotted ls' e)"
        using walk_nil [of buf last_off k q e] False walk(1) by auto
      then show ?thesis
        using Suc.IH [OF walk(1) False, of "dst @ map ngx_tolower (map buf [p + 1..<q]) @ [0x2e]"]
          \<open>buf p AND 0xc0 = 0\<close> False walk(2) label
        by (subst copy_loop.simps) (simp add: Let_def q_def del: upt_Suc)
    qed
  qed
qed simp

lemma copy_walk:
  "ngx_resolver_copy ok buf src last_off =
     (case name_walk buf last_off 128 src of
        None \<Rightarrow> Some Name_error
      | Some (ls, e) \<Rightarrow>
          if ls = [] then Some Name_null
          else if \<not> ok then Some Name_error
          else Some (Name_copied (name_size ls - 1) (dotted ls e)))"
proof (cases "name_walk buf last_off 128 src")
  case None
  then show ?thesis by (simp add: ngx_resolver_copy_def copy_scan_walk)
next
  case (Some r)
  then obtain ls e where walk: "name_walk buf last_off 128 src = Some (ls, e)" by (cases r) auto
  then have scan: "copy_scan buf last_off 128 src (- 1) = Some (int (name_size ls) - 1)" by (simp add: copy_scan_walk)
  show ?thesis
  proof (cases "ls = []")
    case True
    then show ?thesis using walk scan by (simp add: ngx_resolver_copy_def)
  next
    case False
    then have "buf src \<noteq> 0" using walk by (auto simp: numeral_eq_Suc)
    moreover have "name_size ls \<noteq> 0" using False by (cases ls) simp_all
    ultimately show ?thesis
      using copy_loop_walk [OF walk, of "[]"] False walk scan by (simp add: ngx_resolver_copy_def nat_diff_distrib')
  qed
qed

section \<open>Queries\<close>

fun dns_labels :: "bytes \<Rightarrow> bytes list" where
  "dns_labels [] = [[]]"
| "dns_labels (c # cs) =
     (if c = 0x2e then [] # dns_labels cs
      else case dns_labels cs of l # ls \<Rightarrow> (c # l) # ls | [] \<Rightarrow> [[c]])"

lemma dns_labels_nonempty [simp]: "dns_labels cs \<noteq> []"
  by (cases cs) (auto split: list.split)

lemma dns_labels_plain: "0x2e \<notin> set l \<Longrightarrow> dns_labels l = [l]"
  by (induction l) auto

lemma dns_labels_snoc: "0x2e \<notin> set l \<Longrightarrow> dns_labels (cs @ 0x2e # l) = dns_labels cs @ [l]"
  by (induction cs) (auto simp: dns_labels_plain split: list.split)

definition wire :: "bytes list \<Rightarrow> bytes" where
  "wire ls = concat (map (\<lambda>l. word_of_nat (length l) # l) ls)"

lemma wire_simps [simp]:
  "wire [] = []" "wire (l # ls) = word_of_nat (length l) # l @ wire ls" "wire (as @ bs) = wire as @ wire bs"
  by (simp_all add: wire_def)

definition label_ok :: "bytes \<Rightarrow> bool" where
  "label_ok l \<longleftrightarrow> l \<noteq> [] \<and> length l \<le> 255"

lemma query_labels_wire:
  "0x2e \<notin> set l \<Longrightarrow>
   query_labels rn (length l) (l @ out) =
     (if list_all label_ok (dns_labels (rev rn @ l)) then Some (wire (dns_labels (rev rn @ l)) @ out) else None)"
proof (induction rn arbitrary: l out)
  case Nil
  then show ?case by (auto simp: dns_labels_plain label_ok_def)
next
  case (Cons s rn)
  show ?case
  proof (cases "s = 0x2e")
    case False
    then show ?thesis using Cons.IH [of "s # l" out] Cons.prems by simp
  next
    case True
    have "query_labels rn 0 (word_of_nat (length l) # l @ out) =
        (if list_all label_ok (dns_labels (rev rn)) then Some (wire (dns_labels (rev rn)) @ word_of_nat (length l) # l @ out) else None)"
      using Cons.IH [of "[]" "word_of_nat (length l) # l @ out"] by simp
    then show ?thesis
      using True Cons.prems by (auto simp: dns_labels_snoc label_ok_def [of l])
  qed
qed

lemma query_name_wire:
  "query_name name =
     (if name \<noteq> [] \<and> list_all label_ok (dns_labels name) then Some (wire (dns_labels name) @ [0]) else None)"
  using query_labels_wire [of "[]" "rev name" "[0]"] by (simp add: query_name_def)

text \<open>Reading the wire form of labels of at most 63 bytes.\<close>

definition holds_at :: "memory \<Rightarrow> nat \<Rightarrow> bytes \<Rightarrow> bool" where
  "holds_at buf p bs \<longleftrightarrow> (\<forall>i < length bs. buf (p + i) = bs ! i)"

lemma holds_at_simps [simp]:
  "holds_at buf p []" "holds_at buf p (b # bs) \<longleftrightarrow> buf p = b \<and> holds_at buf (p + 1) bs"
  by (auto simp: holds_at_def nth_Cons' less_Suc_eq_0_disj)

lemma holds_at_append [simp]: "holds_at buf p (as @ bs) \<longleftrightarrow> holds_at buf p as \<and> holds_at buf (p + length as) bs"
  by (induction as arbitrary: p) auto

lemma holds_at_map: "holds_at buf p bs \<Longrightarrow> map buf [p..<p + length bs] = bs"
  by (rule nth_equalityI) (simp_all add: holds_at_def)

lemma holds_part: "holds_at (mem_of (as @ bs @ cs) beyond) (length as) bs"
  by (simp add: holds_at_def mem_of_def nth_append)

lemma holds_partI: "bs = as @ part @ cs \<Longrightarrow> i = length as \<Longrightarrow> holds_at (mem_of bs beyond) i part"
  by (simp only: holds_part)

lemma length_byte: "0 < k \<Longrightarrow> k \<le> 63 \<Longrightarrow> (word_of_nat k :: u8) \<noteq> 0 \<and> word_of_nat k AND (0xc0 :: u8) = 0 \<and> unat (word_of_nat k :: u8) = k"
proof -
  assume k: "0 < k" "k \<le> 63"
  then have u: "unat (word_of_nat k :: u8) = k" by (simp add: unat_of_nat)
  have all: "\<forall>c \<in> set (map word_of_nat [1..<64]). (c :: u8) AND 0xc0 = 0" by (simp add: upt_eval)
  have "(word_of_nat k :: u8) \<in> set (map word_of_nat [1..<64])"
    unfolding set_map by (rule imageI) (use k in simp)
  then have "word_of_nat k AND (0xc0 :: u8) = 0" using all by blast
  then show ?thesis using u k by auto
qed

definition short_label :: "bytes \<Rightarrow> bool" where
  "short_label l \<longleftrightarrow> l \<noteq> [] \<and> length l \<le> 63"

lemma wire_walk:
  "holds_at buf p (wire ls @ [0]) \<Longrightarrow> list_all short_label ls \<Longrightarrow> length ls < k \<Longrightarrow> p + length (wire ls) < last_off \<Longrightarrow>
   name_walk buf last_off k p = Some (ls, False)"
proof (induction ls arbitrary: p k)
  case Nil
  then show ?case by (cases k) auto
next
  case (Cons l ls)
  obtain j where k: "k = Suc j" using Cons.prems(3) by (cases k) auto
  have byte: "buf p \<noteq> 0" "buf p AND 0xc0 = 0" "unat (buf p) = length l"
    using Cons.prems(1,2) length_byte [of "length l"] by (auto simp: short_label_def)
  have rest: "map buf [p + 1..<p + 1 + length l] = l" "holds_at buf (p + 1 + length l) (wire ls @ [0])"
    using Cons.prems(1) holds_at_map [of buf "p + 1" l] by (simp_all add: add.assoc)
  have "name_walk buf last_off j (p + 1 + length l) = Some (ls, False)"
    using Cons.IH [OF rest(2)] Cons.prems k by auto
  then show ?case
    using byte rest(1) Cons.prems(4) unfolding k by (simp add: Let_def del: upt_Suc)
qed

text \<open>Joining the labels again.\<close>

lemma dotted_labels: "dotted (dns_labels name) False = map ngx_tolower name"
proof (induction name)
  case (Cons c cs)
  obtain l ls where ls: "dns_labels cs = l # ls" by (cases "dns_labels cs") auto
  have "ngx_tolower 0x2e = 0x2e" by (simp add: ngx_tolower_def)
  then show ?case using Cons ls by (cases "c = 0x2e") simp_all
qed simp

section \<open>Answers\<close>

text \<open>Two memories with the same message.\<close>

definition same_message :: "nat \<Rightarrow> memory \<Rightarrow> memory \<Rightarrow> bool" where
  "same_message n buf buf' \<longleftrightarrow> (\<forall>i < n. buf i = buf' i)"

lemma skip_name_any:
  "skip_name buf n i = Some (j, e) \<Longrightarrow> same_message n buf buf' \<Longrightarrow> skip_any buf' i = Some j \<and> i < j"
proof (induction buf n i rule: skip_name.induct)
  case (1 buf n i)
  have i: "i < n" using 1(2) by (simp add: skip_name.simps [of buf n i] split: if_splits)
  then have same: "buf' i = buf i" using 1(3) by (simp add: same_message_def)
  show ?case
  proof (cases "buf i AND 0xc0 \<noteq> 0 \<or> buf i = 0")
    case True
    then show ?thesis
      using 1(2) i same by (auto simp: skip_name.simps [of buf n i] skip_any.simps [of buf' i])
  next
    case False
    then have "skip_name buf n (i + 1 + unat (buf i)) = Some (j, e)"
      using 1(2) i by (simp add: skip_name.simps [of buf n i])
    then show ?thesis
      using 1(1) [OF i] False 1(3) same by (auto simp: skip_any.simps [of buf' i])
  qed
qed

lemma read_rr_fields:
  assumes "read_rr buf n start = Inr rr" "same_message n buf buf'"
  obtains i where "skip_any buf' start = Some i" "start < i" "rr_data_at rr = i + dns_an_size" "i + dns_an_size < n"
    "rr_type rr = be16_at buf' i" "rr_len rr = be16_at buf' (i + 8)"
proof -
  obtain i e where i: "skip_name buf n start = Some (i, e)" "i + dns_an_size < n"
      "rr = \<lparr>rr_data_at = i + dns_an_size, rr_type = be16_at buf i, rr_class = be16_at buf (i + 2),
        rr_ttl = (let ttl = be32 (buf (i + 4)) (buf (i + 5)) (buf (i + 6)) (buf (i + 7)) in if sint ttl < 0 then 0 else ttl),
        rr_len = be16_at buf (i + 8)\<rparr>"
    using assms(1) by (auto simp: read_rr_def Let_def not_le split: option.splits if_splits)
  have "be16_at buf i = be16_at buf' i" "be16_at buf (i + 8) = be16_at buf' (i + 8)"
    using assms(2) i(2) by (auto simp: same_message_def be16_at_def dns_an_size_def)
  then show thesis
    using that [of i] i skip_name_any [OF i(1) assms(2)] by simp
qed

lemma be16_at_less: "be16_at buf i < 65536"
  using u8_less [of "buf i"] u8_less [of "buf (i + 1)"] by (simp add: be16_at_def)

text \<open>The number of addresses only grows, and then the second loop finds them.\<close>

lemma scan_mono: "scan_answers buf n qtype nan i naddrs cname ttl = Inr (naddrs', cname', ttl') \<Longrightarrow> naddrs \<le> naddrs'"
proof (induction buf n qtype nan i naddrs cname ttl rule: scan_answers.induct)
  case (2 buf n qtype nan i naddrs cname ttl)
  then show ?case
    by (cases "read_rr buf n i") (fastforce simp: Let_def split: if_splits)+
qed simp

definition addr_size :: "nat \<Rightarrow> nat" where
  "addr_size qtype = (if qtype = NGX_RESOLVE_A then 4 else 16)"

lemma same_map: "same_message n buf buf' \<Longrightarrow> j \<le> n \<Longrightarrow> map buf' [i..<j] = map buf [i..<j]"
  by (auto simp: same_message_def)

lemma scan_collect:
  "scan_answers buf n qtype nan i naddrs cname ttl = Inr (naddrs', cname', ttl') \<Longrightarrow> naddrs < naddrs' \<Longrightarrow>
   length addrs = naddrs \<Longrightarrow> same_message n buf buf' \<Longrightarrow>
   \<exists>new. collect_addrs buf naddrs' nan i addrs = Some (addrs @ new) \<and> collect_addrs buf' naddrs' nan i addrs = Some (addrs @ new) \<and>
     length (addrs @ new) = naddrs' \<and> list_all (\<lambda>a. length a = addr_size qtype) new"
proof (induction buf n qtype nan i naddrs cname ttl arbitrary: addrs rule: scan_answers.induct)
  case (2 buf n qtype nan start naddrs cname ttl)
  obtain rr where rr: "read_rr buf n start = Inr rr" using 2(5) by (cases "read_rr buf n start") auto
  have self: "same_message n buf buf" by (simp add: same_message_def)
  obtain i where i: "skip_any buf' start = Some i" "rr_data_at rr = i + dns_an_size" "rr_type rr = be16_at buf' i"
      "rr_len rr = be16_at buf' (i + 8)" "i + dns_an_size < n"
    using read_rr_fields [OF rr 2(8)] by blast
  obtain i' where i': "skip_any buf start = Some i'" "rr_data_at rr = i' + dns_an_size" "rr_type rr = be16_at buf i'"
      "rr_len rr = be16_at buf (i' + 8)"
    using read_rr_fields [OF rr self] by blast
  have same: "i' = i" using i(2) i'(2) by simp
  have cls: "rr_class rr = 1" using 2(5) rr by (auto split: if_splits)
  have types: "NGX_RESOLVE_A \<noteq> NGX_RESOLVE_AAAA" by (simp add: NGX_RESOLVE_A_def NGX_RESOLVE_AAAA_def)
  define d where "d = i + dns_an_size"
  show ?case
  proof (cases "rr_type rr = NGX_RESOLVE_A \<or> rr_type rr = NGX_RESOLVE_AAAA")
    case True
    define addr where "addr = map buf [d..<d + addr_size qtype]"
    have q: "rr_type rr = qtype" "rr_len rr = addr_size qtype" "d + addr_size qtype \<le> n"
        "scan_answers buf n qtype nan (d + addr_size qtype) (naddrs + 1) cname (min ttl (rr_ttl rr)) = Inr (naddrs', cname', ttl')"
      using True 2(5) rr cls i(2) types by (auto simp: Let_def addr_size_def d_def split: if_splits)
    have addr': "map buf' [d..<d + addr_size qtype] = addr" unfolding addr_def by (rule same_map [OF 2(8) q(3)])
    have step: "collect_addrs b naddrs' (Suc nan) start addrs =
        (if length (addrs @ [addr]) = naddrs' then Some (addrs @ [addr]) else collect_addrs b naddrs' nan (d + addr_size qtype) (addrs @ [addr]))"
      if "b = buf \<or> b = buf'" for b
    proof -
      have "skip_any b start = Some i" "be16_at b i = qtype" "be16_at b (i + 8) = addr_size qtype"
          "map b [d..<d + addr_size qtype] = addr"
        using that i i' same q(1,2) addr' by (auto simp: addr_def)
      then show ?thesis
        using True q(1) types by (auto simp: Let_def d_def [symmetric] addr_size_def simp del: upt_Suc)
    qed
    have len: "length (addrs @ [addr]) = naddrs + 1" "length addr = addr_size qtype"
      using 2(7) by (simp_all add: addr_def)
    show ?thesis
    proof (cases "naddrs + 1 = naddrs'")
      case True
      then show ?thesis using step len 2(7) by (intro exI [of _ "[addr]"]) auto
    next
      case False
      have more: "naddrs + 1 < naddrs'" using False 2(6) by simp
      have "\<exists>new. collect_addrs buf naddrs' nan (d + addr_size qtype) (addrs @ [addr]) = Some ((addrs @ [addr]) @ new) \<and>
          collect_addrs buf' naddrs' nan (d + addr_size qtype) (addrs @ [addr]) = Some ((addrs @ [addr]) @ new) \<and>
          length ((addrs @ [addr]) @ new) = naddrs' \<and> list_all (\<lambda>a. length a = addr_size qtype) new"
      proof (cases "qtype = NGX_RESOLVE_A")
        case True
        show ?thesis
          using 2(1) [OF rr _ refl refl, of "addrs @ [addr]"] cls q i(2) True types more len(1) 2(8)
          by (simp add: addr_size_def d_def)
      next
        case False
        then have "qtype = NGX_RESOLVE_AAAA" using q(1) \<open>rr_type rr = NGX_RESOLVE_A \<or> rr_type rr = NGX_RESOLVE_AAAA\<close> by auto
        then show ?thesis
          using 2(2) [OF rr _ refl refl, of "addrs @ [addr]"] cls q i(2) False types more len(1) 2(8)
          by (simp add: addr_size_def d_def)
      qed
      then obtain new where "collect_addrs buf naddrs' nan (d + addr_size qtype) (addrs @ [addr]) = Some (addrs @ addr # new)"
          "collect_addrs buf' naddrs' nan (d + addr_size qtype) (addrs @ [addr]) = Some (addrs @ addr # new)"
          "length (addrs @ addr # new) = naddrs'" "list_all (\<lambda>a. length a = addr_size qtype) new"
        by auto
      then show ?thesis using step len False 2(7) by (intro exI [of _ "addr # new"]) auto
    qed
  next
    case False
    have step: "collect_addrs b naddrs' (Suc nan) start addrs = collect_addrs b naddrs' nan (d + rr_len rr) addrs"
      if "b = buf \<or> b = buf'" for b
    proof -
      have "skip_any b start = Some i" "be16_at b i = rr_type rr" "be16_at b (i + 8) = rr_len rr"
        using that i i' same by auto
      then show ?thesis using False by (simp add: Let_def d_def)
    qed
    have "\<exists>new. collect_addrs buf naddrs' nan (d + rr_len rr) addrs = Some (addrs @ new) \<and>
        collect_addrs buf' naddrs' nan (d + rr_len rr) addrs = Some (addrs @ new) \<and>
        length (addrs @ new) = naddrs' \<and> list_all (\<lambda>a. length a = addr_size qtype) new"
    proof (cases "rr_type rr = NGX_RESOLVE_CNAME")
      case True
      then show ?thesis
        using 2(3) [OF rr _ refl refl, of addrs] 2(5-8) cls False rr i(2) by (simp add: d_def Let_def)
    next
      case other: False
      then show ?thesis
        using 2(4) [OF rr _ refl refl, of addrs] 2(5-8) cls False rr i(2) by (simp add: d_def Let_def)
    qed
    then show ?thesis using step by simp
  qed
qed simp

section \<open>Addresses in names\<close>

lemma u8_uint: "uint (c :: u8) \<le> 255"
  using u8_less [of c] uint_nat [of c] by linarith

lemma atoi_fmt_ud: "ngx_atoi (fmt_ud c) = Some (uint c)"
proof -
  have "dec_val 0 (fmt_ud c) = uint c"
    using num_digits_ud [of c] unfolding fmt_ud_digits by blast
  then show ?thesis
    using fmt_ud_ok(3,5) [of c] u8_uint [of c] unfolding atoi_exact by (simp add: NGX_MAX_INT_T_VALUE_def)
qed

lemma label_byte: "length d \<le> 255 \<Longrightarrow> unat (word_of_nat (length d) :: u8) = length d"
  by (simp add: unat_of_nat)

definition octets :: "u32 \<Rightarrow> nat list \<Rightarrow> bytes" where
  "octets w ks = wire (map (\<lambda>k. fmt_ud (byte32 w k)) ks)"

lemma ptr4_loop_octets:
  "holds_at buf i (octets w ks) \<Longrightarrow>
   ptr4_loop buf (map (\<lambda>k. 8 * k) ks) i addr =
     Some (foldl (\<lambda>a k. a + push_bit (8 * k) (ucast (byte32 w k))) addr ks, i + length (octets w ks))"
proof (induction ks arbitrary: i addr)
  case (Cons k ks)
  let ?d = "fmt_ud (byte32 w k)"
  have len: "length ?d \<le> 3" by (rule fmt_ud_ok(4))
  have h: "buf i = word_of_nat (length ?d)" "holds_at buf (i + 1) ?d" "holds_at buf (i + 1 + length ?d) (octets w ks)"
    using Cons.prems by (simp_all add: octets_def)
  have n: "unat (buf i) = length ?d" using h(1) len label_byte [of ?d] by simp
  have small: "\<not> 255 < uint (byte32 w k)" using u8_uint [of "byte32 w k"] by simp
  have w: "word_of_int (uint (byte32 w k)) = (ucast (byte32 w k) :: u32)" by (rule ucast_eq [symmetric])
  have "ptr4_loop buf (map (\<lambda>k. 8 * k) (k # ks)) i addr =
      ptr4_loop buf (map (\<lambda>k. 8 * k) ks) (i + 1 + length ?d) (addr + push_bit (8 * k) (ucast (byte32 w k)))"
    unfolding list.map ptr4_loop.simps Let_def n holds_at_map [OF h(2)] atoi_fmt_ud option.case w using small by simp
  also have "\<dots> = Some (foldl (\<lambda>a k. a + push_bit (8 * k) (ucast (byte32 w k))) addr (k # ks),
      i + length (octets w (k # ks)))"
    unfolding Cons.IH [OF h(3)] by (simp add: octets_def)
  finally show ?case .
qed (simp add: octets_def)

lemma sum_octets: "foldl (\<lambda>a k. a + push_bit (8 * k) (ucast (byte32 w k))) 0 [0, 1, 2, 3] = (w :: u32)"
proof -
  let ?b = "\<lambda>k. push_bit (8 * k) (ucast (byte32 w k)) :: u32"
  have 1: "?b 0 + ?b 1 = ?b 0 OR ?b 1"
    by (rule disjunctive_add) (auto simp: bit_simps dest: bit_imp_le_length)
  have 2: "(?b 0 OR ?b 1) + ?b 2 = ?b 0 OR ?b 1 OR ?b 2"
    by (subst disjunctive_add) (auto simp: bit_simps or.assoc dest: bit_imp_le_length)
  have 3: "(?b 0 OR ?b 1 OR ?b 2) + ?b 3 = ?b 0 OR ?b 1 OR ?b 2 OR ?b 3"
    by (subst disjunctive_add) (auto simp: bit_simps or.assoc dest: bit_imp_le_length)
  have "foldl (\<lambda>a k. a + push_bit (8 * k) (ucast (byte32 w k))) 0 [0, 1, 2, 3] = ((?b 0 + ?b 1) + ?b 2) + ?b 3"
    by simp
  also have "\<dots> = ?b 0 OR ?b 1 OR ?b 2 OR ?b 3" unfolding 1 2 3 ..
  also have "\<dots> = be32 (byte32 w 3) (byte32 w 2) (byte32 w 1) (byte32 w 0)"
    by (simp add: be32_def or.commute or.left_commute or.assoc)
  finally show ?thesis by (simp only: be32_byte32)
qed

definition nibbles :: "bytes \<Rightarrow> bytes" where
  "nibbles p = concat (map (\<lambda>c. [1] @ fmt_nibble (c AND 0xf) @ [1] @ fmt_nibble (drop_bit 4 c AND 0xf)) (rev p))"

lemma fmt_nibble_digit:
  assumes "unat v < 16"
  shows "\<exists>d. fmt_nibble v = [d] \<and> ngx_hextoi [d] = Some (uint v)"
proof -
  have "list_all (\<lambda>v. length (fmt_nibble v) = 1 \<and> ngx_hextoi (fmt_nibble v) = Some (uint v)) (map word_of_nat [0..<16])"
    by code_simp
  moreover have "v \<in> set (map word_of_nat [0..<16])"
    using assms by (auto intro!: image_eqI [of _ _ "unat v"])
  ultimately have "length (fmt_nibble v) = 1 \<and> ngx_hextoi (fmt_nibble v) = Some (uint v)"
    unfolding list_all_iff by blast
  then show ?thesis by (cases "fmt_nibble v") auto
qed

lemma nibbles_join:
  "word_of_int (uint (c AND 0xf)) + word_of_int (uint (drop_bit 4 c AND 0xf) * 16) = (c :: u8)"
proof -
  have "drop_bit 4 c AND 0xf = take_bit 4 (drop_bit 4 c)"
    by (rule bit_eqI) (simp add: bit_simps take_bit_eq_mask mask_eq_exp_minus_1)
  also have "\<dots> = drop_bit 4 c"
    by (rule bit_word_eqI) (auto simp: bit_simps dest: bit_imp_le_length)
  finally have "drop_bit 4 c AND 0xf = drop_bit 4 c" .
  then have "uint (c AND 0xf) + uint (drop_bit 4 c AND 0xf) * 16 = uint c"
    using arg_cong [OF nibble_val [of c], of int] by simp
  then have "word_of_int (uint (c AND 0xf) + uint (drop_bit 4 c AND 0xf) * 16) = c" by simp
  then show ?thesis by (simp only: of_int_add)
qed

lemma ptr6_loop_nibbles:
  "holds_at buf i (nibbles p) \<Longrightarrow> ptr6_loop buf (length p) i q = Some (p @ q, i + 4 * length p)"
proof (induction p arbitrary: i q rule: rev_induct)
  case (snoc c p)
  have "unat (c AND 0xf) < 16" "unat (drop_bit 4 c AND 0xf) < 16"
    using nibble_less(2) by simp_all
  then obtain l h where lh: "fmt_nibble (c AND 0xf) = [l]" "ngx_hextoi [l] = Some (uint (c AND 0xf))"
      "fmt_nibble (drop_bit 4 c AND 0xf) = [h]" "ngx_hextoi [h] = Some (uint (drop_bit 4 c AND 0xf))"
    using fmt_nibble_digit by metis
  have held: "buf i = 1" "buf (i + 1) = l" "buf (i + 2) = 1" "buf (i + 3) = h" "holds_at buf (i + 4) (nibbles p)"
    using snoc.prems lh(1,3) by (simp_all add: nibbles_def numeral_eq_Suc)
  show ?case
    using snoc.IH [OF held(5), of "c # q"] held(1-4) lh(2,4) nibbles_join [of c] by simp
qed simp

lemma nibbles_length: "length (nibbles p) = 4 * length p"
proof (induction p)
  case (Cons c p)
  have "length (fmt_nibble (c AND 0xf)) = 1" "length (fmt_nibble (drop_bit 4 c AND 0xf)) = 1"
    using fmt_nibble_digit [of "c AND 0xf"] fmt_nibble_digit [of "drop_bit 4 c AND 0xf"] nibble_less(2) by auto
  then show ?case using Cons by (simp add: nibbles_def)
qed (simp add: nibbles_def)

lemma nibbles_cons:
  assumes "rev p = c0 # c1 # c2 # cs"
  shows "\<exists>l0 h0 l1 h1 bs. nibbles p = [1, l0, 1, h0, 1, l1, 1, h1, 1] @ bs"
proof -
  have "\<exists>l h. fmt_nibble (c AND 0xf) = [l] \<and> fmt_nibble (drop_bit 4 c AND 0xf) = [h]" for c
    using fmt_nibble_digit [of "c AND 0xf"] fmt_nibble_digit [of "drop_bit 4 c AND 0xf"] nibble_less(2) by auto
  then obtain l h where "\<And>c. fmt_nibble (c AND 0xf) = [l c]" "\<And>c. fmt_nibble (drop_bit 4 c AND 0xf) = [h c]"
    by metis
  then show ?thesis by (simp add: nibbles_def assms)
qed

text \<open>A text that lies there compares equal to itself.\<close>

lemma strcase_at_holds: "holds_at buf i (s @ [0]) \<Longrightarrow> strcase_at buf i s"
  by (simp add: strcase_at_def holds_at_def list_all_iff del: holds_at_append)

lemma ptr_name4_octets: "ptr_name4 w = octets w [0, 1, 2, 3] @ ([7] @ str ''in-addr'' @ [4] @ str ''arpa'' @ [0])"
  by (simp add: ptr_name4_def octets_def Let_def)

lemma ptr_name6_nibbles: "ptr_name6 p = nibbles p @ ([3] @ str ''ip6'' @ [4] @ str ''arpa'' @ [0])"
  by (simp add: ptr_name6_def nibbles_def)

lemma ptr_question4:
  assumes "holds_at buf 12 (ptr_name4 w)"
  shows "ptr_question_of buf = Ptr_in w (12 + length (ptr_name4 w))"
proof -
  let ?s = "[7] @ str ''in-addr'' @ [4] @ str ''arpa''"
  have held: "holds_at buf 12 (octets w [0, 1, 2, 3])" "holds_at buf (12 + length (octets w [0, 1, 2, 3])) (?s @ [0])"
    using assms unfolding ptr_name4_octets by (simp_all del: holds_at_simps)
  have "map (\<lambda>k. 8 * k) [0, 1, 2, 3] = [0, 8, 16, 24 :: nat]" by simp
  then have "ptr4_loop buf [0, 8, 16, 24] 12 0 = Some (w, 12 + length (octets w [0, 1, 2, 3]))"
    using ptr4_loop_octets [OF held(1), of 0] unfolding sum_octets by simp
  moreover have "length (?s @ [0]) = 14" by (simp add: str_def)
  ultimately show ?thesis
    using strcase_at_holds [OF held(2)] unfolding ptr_question_of_def dns_hdr_size_def ptr_name4_octets
    by (simp add: str_def)
qed

text \<open>Labels of one byte are four octets, or none, and then comes another such label.\<close>

lemma ptr4_loop_ones:
  assumes "buf i = 1" "buf (i + 2) = 1" "buf (i + 4) = 1" "buf (i + 6) = 1" "ptr4_loop buf [k0, k1, k2, k3] i addr = Some (addr', j)"
  shows "j = i + 8"
  using assms by (auto simp: Let_def numeral_eq_Suc split: option.splits if_splits)

lemma strcase_at_first: "strcase_at buf i ([c] @ s) \<Longrightarrow> ngx_tolower (buf i) = ngx_tolower c"
  unfolding strcase_at_def list_all_iff by (drule bspec [of _ _ 0]) simp_all

lemma ptr_question6:
  assumes "holds_at buf 12 (ptr_name6 p)" "length p = 16"
  shows "ptr_question_of buf = Ptr_in6 p (12 + length (ptr_name6 p))"
proof -
  let ?s = "[3] @ str ''ip6'' @ [4] @ str ''arpa''"
  have held: "holds_at buf 12 (nibbles p)" "holds_at buf (12 + length (nibbles p)) (?s @ [0])"
    using assms(1) unfolding ptr_name6_nibbles by (simp_all del: holds_at_simps)
  have "length (rev p) = Suc (Suc (Suc 13))" using assms(2) by simp
  then obtain c0 c1 c2 cs where "rev p = c0 # c1 # c2 # cs"
    by (auto simp only: length_Suc_conv)
  then obtain l0 h0 l1 h1 bs where nib: "nibbles p = [1, l0, 1, h0, 1, l1, 1, h1, 1] @ bs"
    using nibbles_cons by metis
  have ones: "buf 12 = 1" "buf 14 = 1" "buf 16 = 1" "buf 18 = 1" "buf 20 = 1"
    using held(1) unfolding nib by simp_all
  have "\<not> strcase_at buf 20 ([7] @ str ''in-addr'' @ [4] @ str ''arpa'')"
  proof
    assume "strcase_at buf 20 ([7] @ str ''in-addr'' @ [4] @ str ''arpa'')"
    from strcase_at_first [OF this] ones(5) have "ngx_tolower 1 = ngx_tolower 7" by simp
    moreover have "ngx_tolower 1 \<noteq> ngx_tolower 7" by code_simp
    ultimately show False by contradiction
  qed
  moreover have "j = 20" if "ptr4_loop buf [0, 8, 16, 24] 12 0 = Some (x, j)" for x j
    by (rule ptr4_loop_ones [of buf 12, OF _ _ _ _ that, THEN trans]) (simp_all add: ones)
  ultimately have no4: "(case ptr4_loop buf [0, 8, 16, 24] 12 0 of None \<Rightarrow> None
      | Some (addr, i) \<Rightarrow> if strcase_at buf i ([7] @ str ''in-addr'' @ [4] @ str ''arpa'') then Some (addr, i + 14) else None) = None"
    by (auto split: option.split)
  have "ptr6_loop buf 16 12 [] = Some (p, 76)"
    using ptr6_loop_nibbles [OF held(1), of "[]"] assms(2) by simp
  moreover have "strcase_at buf 76 ?s"
    using strcase_at_holds [OF held(2)] assms(2) by (simp add: nibbles_length)
  ultimately show ?thesis
    unfolding ptr_question_of_def dns_hdr_size_def no4 ptr_name6_nibbles
    by (simp add: str_def nibbles_length assms(2))
qed

section \<open>An answer to a query\<close>

text \<open>A server's response with the addresses of a name: every record refers to the question's name.\<close>

definition be16_bytes :: "nat \<Rightarrow> bytes" where
  "be16_bytes k = [word_of_nat (k div 256), word_of_nat k]"

definition a_record :: "bytes \<Rightarrow> bytes \<Rightarrow> bytes" where
  "a_record ttl addr = [0xc0, 12, 0, 1, 0, 1] @ ttl @ [0, 4] @ addr"

definition a_reply :: "nat \<Rightarrow> bytes \<Rightarrow> bytes \<Rightarrow> bytes list \<Rightarrow> bytes" where
  "a_reply ident name ttl addrs =
     be16_bytes ident @ [0x81, 0x80, 0, 1] @ be16_bytes (length addrs) @ [0, 0, 0, 0] @
     wire (dns_labels name) @ [0] @ query_qs NGX_RESOLVE_A @ concat (map (a_record ttl) addrs)"

lemma be16_at_bytes:
  assumes "holds_at buf i (be16_bytes k)" "k < 65536"
  shows "be16_at buf i = k"
proof -
  have "unat (word_of_nat (k div 256) :: u8) = k div 256" "unat (word_of_nat k :: u8) = k mod 256"
    using assms(2) by (simp_all add: unat_of_nat)
  then show ?thesis
    using assms(1) by (simp add: be16_at_def be16_bytes_def)
qed

lemma skip_question_wire:
  "holds_at buf p (wire ls @ [0]) \<Longrightarrow> list_all short_label ls \<Longrightarrow> p + length (wire ls) < n \<Longrightarrow>
   skip_question buf n p = Some (p + length (wire ls))"
proof (induction ls arbitrary: p)
  case Nil
  then show ?case by (simp add: skip_question.simps)
next
  case (Cons l ls)
  have byte: "buf p \<noteq> 0" "unat (buf p) = length l"
    using Cons.prems(1,2) length_byte [of "length l"] by (auto simp: short_label_def)
  have "holds_at buf (p + 1 + length l) (wire ls @ [0])" using Cons.prems(1) by simp
  from Cons.IH [OF this] show ?case
    using Cons.prems(2,3) byte by (subst skip_question.simps) (simp add: algebra_simps)
qed

lemma a_record_read:
  assumes "holds_at buf i (a_record [t0, t1, t2, t3] addr)" "length addr = 4" "i + 16 \<le> n"
  shows "read_rr buf n i = Inr \<lparr>rr_data_at = i + 12, rr_type = 1, rr_class = 1,
      rr_ttl = (if sint (be32 t0 t1 t2 t3) < 0 then 0 else be32 t0 t1 t2 t3), rr_len = 4\<rparr>"
    "\<exists>j. skip_any buf i = Some j \<and> be16_at buf j = 1 \<and> be16_at buf (j + 8) = 4 \<and>
       map buf [j + 10..<j + 10 + 4] = addr \<and> j + 10 + 4 = i + 16"
proof -
  define j where "j = i + 2"
  have b: "buf i = 0xc0" "buf j = 0" "buf (j + 1) = 1" "buf (j + 2) = 0" "buf (j + 3) = 1"
      "buf (j + 4) = t0" "buf (j + 5) = t1" "buf (j + 6) = t2" "buf (j + 7) = t3" "buf (j + 8) = 0" "buf (j + 9) = 4"
      "holds_at buf (j + 10) addr"
    using assms(1) by (simp_all add: a_record_def j_def numeral_eq_Suc)
  have e: "j + 2 + 1 = j + 3" "j + 8 + 1 = j + 9" by simp_all
  have types: "be16_at buf j = 1" "be16_at buf (j + 2) = 1" "be16_at buf (j + 8) = 4"
    unfolding be16_at_def e b by simp_all
  have skip: "skip_name buf n i = Some (j, True)"
    using b(1) assms(3) by (subst skip_name.simps) (simp add: j_def)
  have "\<not> n \<le> j + 10" using assms(3) by (simp add: j_def)
  then have "read_rr buf n i = Inr \<lparr>rr_data_at = j + 10, rr_type = 1, rr_class = 1,
      rr_ttl = (if sint (be32 t0 t1 t2 t3) < 0 then 0 else be32 t0 t1 t2 t3), rr_len = 4\<rparr>"
    unfolding read_rr_def skip option.case prod.case dns_an_size_def Let_def types b by simp
  then show "read_rr buf n i = Inr \<lparr>rr_data_at = i + 12, rr_type = 1, rr_class = 1,
      rr_ttl = (if sint (be32 t0 t1 t2 t3) < 0 then 0 else be32 t0 t1 t2 t3), rr_len = 4\<rparr>"
    by (simp add: j_def)
  have "skip_any buf i = Some j" using b(1) by (subst skip_any.simps) (simp add: j_def)
  then show "\<exists>j. skip_any buf i = Some j \<and> be16_at buf j = 1 \<and> be16_at buf (j + 8) = 4 \<and>
       map buf [j + 10..<j + 10 + 4] = addr \<and> j + 10 + 4 = i + 16"
    using types holds_at_map [OF b(12)] assms(2) by (intro exI [of _ j]) (simp add: j_def)
qed

lemma a_record_length: "length (a_record [t0, t1, t2, t3] a) = 12 + length a"
  by (simp add: a_record_def)

lemma a_records_scan:
  assumes ttl: "t = (if sint (be32 t0 t1 t2 t3) < 0 then 0 else be32 t0 t1 t2 t3)"
  shows "holds_at buf i (concat (map (a_record [t0, t1, t2, t3]) addrs)) \<Longrightarrow> list_all (\<lambda>a. length a = 4) addrs \<Longrightarrow>
    i + 16 * length addrs \<le> n \<Longrightarrow>
    scan_answers buf n NGX_RESOLVE_A (length addrs) i k None ttl0 =
      Inr (k + length addrs, None, if addrs = [] then ttl0 else min ttl0 t)"
proof (induction addrs arbitrary: i k ttl0)
  case (Cons a addrs)
  have a: "holds_at buf i (a_record [t0, t1, t2, t3] a)" "length a = 4" using Cons.prems by simp_all
  have rest: "holds_at buf (i + 16) (concat (map (a_record [t0, t1, t2, t3]) addrs))"
    using Cons.prems(1) a(2) by (simp add: a_record_length)
  have n: "i + 16 + 16 * length addrs \<le> n" using Cons.prems(3) by simp
  have "min (min ttl0 t) t = min ttl0 t" by simp
  then show ?case
    using a_record_read(1) [OF a, of n] Cons.IH [OF rest _ n, of "k + 1" "min ttl0 t"] Cons.prems n
    by (simp add: NGX_RESOLVE_A_def ttl [symmetric] Let_def add.assoc)
qed simp

lemma a_records_collect:
  "holds_at buf i (concat (map (a_record [t0, t1, t2, t3]) addrs)) \<Longrightarrow> list_all (\<lambda>a. length a = 4) addrs \<Longrightarrow>
   collect_addrs buf (length (done_addrs @ addrs)) (length addrs) i done_addrs = Some (done_addrs @ addrs)"
proof (induction addrs arbitrary: i done_addrs)
  case (Cons a addrs)
  have a: "holds_at buf i (a_record [t0, t1, t2, t3] a)" "length a = 4" using Cons.prems by simp_all
  have rest: "holds_at buf (i + 16) (concat (map (a_record [t0, t1, t2, t3]) addrs))"
    using Cons.prems(1) a(2) by (simp add: a_record_length)
  have all: "list_all (\<lambda>a. length a = 4) addrs" using Cons.prems(2) by simp
  obtain j where read: "skip_any buf i = Some j" "be16_at buf j = 1" "be16_at buf (j + 8) = 4"
      "map buf [j + 10..<j + 10 + 4] = a" "j + 10 + 4 = i + 16"
    using a_record_read(2) [OF a, of "i + 16"] by blast
  have step: "collect_addrs buf m (length (a # addrs)) i done_addrs =
      (if length (done_addrs @ [a]) = m then Some (done_addrs @ [a]) else collect_addrs buf m (length addrs) (i + 16) (done_addrs @ [a]))" for m
    unfolding list.size add_0_right add_Suc_right collect_addrs.simps Let_def NGX_RESOLVE_A_def dns_an_size_def option.case read(1-4) unfolding read(5) by simp
  show ?case
    using Cons.IH [OF rest all, of "done_addrs @ [a]"] unfolding step by (cases addrs) simp_all
qed simp

section \<open>Properties\<close>

text \<open>C37: copying a name always returns, whatever the compression pointers; what it writes is the labels in lower
  case with dots between them, and it fits the buffer allocated for it except for one byte: when a pointer
  stands behind the last label, a dot is written behind the end of the buffer.\<close>

theorem dns_copy_room:
  "ngx_resolver_copy ok buf src last_off \<in> {Some Name_error, Some Name_null} \<or>
   (\<exists>ls e. name_walk buf last_off 128 src = Some (ls, e) \<and> ls \<noteq> [] \<and> ok \<and>
     ngx_resolver_copy ok buf src last_off = Some (Name_copied (name_size ls - 1) (dotted ls e)) \<and>
     length (dotted ls e) = name_size ls - 1 + (if e then 1 else 0))"
proof (cases "name_walk buf last_off 128 src")
  case None
  then show ?thesis by (simp add: copy_walk)
next
  case (Some r)
  then obtain ls e where walk: "name_walk buf last_off 128 src = Some (ls, e)" by (cases r) auto
  show ?thesis using dotted_length [of ls e] by (auto simp: copy_walk walk)
qed

text \<open>The byte too many: for a message with the name \<open>a\<close> followed by a pointer to a zero byte, one byte is
  allocated and two are written.\<close>

theorem dns_copy_overflow:
  "ngx_resolver_copy True (mem_of ([0, 1, 0x80, 0, 0, 1, 0, 1, 0, 0, 0, 0] @ [1, 0x61, 0xc0, 0]) beyond) 12 16 =
   Some (Name_copied 1 (str ''a.''))"
proof -
  let ?buf = "mem_of ([0, 1, 0x80, 0, 0, 1, 0, 1, 0, 0, 0, 0] @ [1, 0x61, 0xc0, 0]) beyond"
  have b: "?buf 0 = 0" "?buf 12 = 1" "?buf 13 = 0x61" "?buf 14 = 0xc0" "?buf 15 = 0"
    by (simp_all add: mem_of_def)
  have "name_walk ?buf 16 (Suc (Suc (Suc 125))) 12 = Some ([[0x61]], True)"
    unfolding name_walk.simps using b by (simp add: Let_def pointer_at_def)
  then have "name_walk ?buf 16 128 12 = Some ([[0x61]], True)" by simp
  then show ?thesis
    by (simp add: copy_walk ngx_tolower_def str_def)
qed

text \<open>C36: round trip of names: a name whose labels have 1 to 63 bytes, fewer than 128 of them, is accepted, and the
  question of its query, for either family, is read back as the name in lower case, in a buffer of its
  length.\<close>

theorem dns_query_roundtrip:
  assumes "name \<noteq> []" "list_all short_label (dns_labels name)" "length (dns_labels name) < 128"
  shows "\<exists>q q6. ngx_resolver_create_name_query True True ident ident6 name = (NGX_OK, Some (q, Some q6)) \<and>
    ngx_resolver_copy True (mem_of q beyond) 12 (length q) = Some (Name_copied (length name) (map ngx_tolower name)) \<and>
    ngx_resolver_copy True (mem_of q6 beyond) 12 (length q6) = Some (Name_copied (length name) (map ngx_tolower name))"
proof -
  let ?w = "wire (dns_labels name) @ [0]"
  have "list_all label_ok (dns_labels name)"
    using assms(2) by (auto simp: list_all_iff short_label_def label_ok_def)
  then have query: "query_name name = Some ?w" using assms(1) by (simp add: query_name_wire)
  have read: "ngx_resolver_copy True (mem_of q beyond) 12 (length q) = Some (Name_copied (length name) (map ngx_tolower name))"
    if "q = query_hdr i @ ?w @ query_qs t" for q i t
  proof -
    have "holds_at (mem_of q beyond) 12 ?w"
      unfolding that by (rule holds_partI [OF refl]) (simp add: query_hdr_def)
    then have "name_walk (mem_of q beyond) (length q) 128 12 = Some (dns_labels name, False)"
      by (rule wire_walk) (use assms(2,3) that in \<open>simp_all add: query_hdr_def query_qs_def\<close>)
    moreover have "name_size (dns_labels name) - 1 = length name"
      using dotted_length [of "dns_labels name" False] dotted_labels [of name] by (metis add_0_right dns_labels_nonempty length_map)
    ultimately show ?thesis by (simp add: copy_walk dotted_labels)
  qed
  show ?thesis
    using query read [OF refl, of ident NGX_RESOLVE_A] read [OF refl, of ident6 NGX_RESOLVE_AAAA]
    by (simp add: ngx_resolver_create_name_query_def)
qed

theorem dns_query_roundtrip_witness:
  "\<exists>q q6. ngx_resolver_create_name_query True True 1 2 (str ''www.Example.org'') = (NGX_OK, Some (q, Some q6)) \<and>
    ngx_resolver_copy True (mem_of q (\<lambda>_. 7)) 12 (length q) = Some (Name_copied 15 (str ''www.example.org'')) \<and>
    ngx_resolver_copy True (mem_of q6 (\<lambda>_. 7)) 12 (length q6) = Some (Name_copied 15 (str ''www.example.org''))"
proof -
  have "str ''www.Example.org'' \<noteq> []" "list_all short_label (dns_labels (str ''www.Example.org''))"
    "length (dns_labels (str ''www.Example.org'')) < 128" "length (str ''www.Example.org'') = 15"
    "map ngx_tolower (str ''www.Example.org'') = str ''www.example.org''"
    by code_simp+
  then show ?thesis
    using dns_query_roundtrip [of "str ''www.Example.org''" 1 2 "\<lambda>_. 7"] by simp
qed

text \<open>A name is declined exactly when it is empty or has a label that is empty or longer than 255 bytes;
  labels of 64 to 255 bytes, whose length is no length byte, are accepted.\<close>

theorem dns_query_declined:
  "fst (ngx_resolver_create_name_query True ipv6 ident ident6 name) = NGX_DECLINED \<longleftrightarrow>
   name = [] \<or> (\<exists>l \<in> set (dns_labels name). l = [] \<or> 255 < length l)"
proof -
  have "fst (ngx_resolver_create_name_query True ipv6 ident ident6 name) = NGX_DECLINED \<longleftrightarrow> query_name name = None"
    by (cases "query_name name") (simp_all add: ngx_resolver_create_name_query_def)
  then show ?thesis
    by (auto simp: query_name_wire list_all_iff label_ok_def not_less)
qed

text \<open>C34: the second loop over the answers, which does not look at the length of the message, finds the
  addresses that the first one has counted, each of the size of its family, and reads nothing behind the
  message: any other memory with the same message gives the same addresses.\<close>

theorem dns_answers_inside:
  assumes "scan_answers buf n qtype nan ans 0 None ttl = Inr (naddrs, cname, ttl')" "0 < naddrs"
    and "\<forall>i < n. buf' i = buf i"
  shows "\<exists>addrs. collect_addrs buf naddrs nan ans [] = Some addrs \<and> collect_addrs buf' naddrs nan ans [] = Some addrs \<and>
    length addrs = naddrs \<and> (\<forall>a \<in> set addrs. length a = addr_size qtype)"
  using scan_collect [OF assms(1,2), of "[]" buf'] assms(3) by (auto simp: same_message_def list_all_iff)

theorem dns_answers_inside_witness:
  "\<exists>addrs. collect_addrs (mem_of (a_reply 7 (str ''a'') [0, 0, 0, 60] [[10, 0, 0, 1]]) (\<lambda>_. 7)) 1 1 19 [] = Some addrs \<and>
    collect_addrs (mem_of (a_reply 7 (str ''a'') [0, 0, 0, 60] [[10, 0, 0, 1]]) (\<lambda>_. 1)) 1 1 19 [] = Some addrs \<and>
    length addrs = 1 \<and> (\<forall>a \<in> set addrs. length a = addr_size NGX_RESOLVE_A)"
proof -
  have "scan_answers (mem_of (a_reply 7 (str ''a'') [0, 0, 0, 60] [[10, 0, 0, 1]]) (\<lambda>_. 7)) 35 NGX_RESOLVE_A 1 19 0 None 100 =
      Inr (1, None, 60)"
    by code_simp
  moreover have "length (a_reply 7 (str ''a'') [0, 0, 0, 60] [[10, 0, 0, 1]]) = 35" by code_simp
  ultimately show ?thesis
    by (intro dns_answers_inside) (auto simp: mem_of_def simp del: scan_answers.simps)
qed



text \<open>C38: round trip of addresses: the question of the query for the name of an address, of either family, is
  read back as the address, and the reading ends where the type of the question begins.\<close>

theorem dns_ptr_roundtrip:
  assumes "length p = 16"
  shows "(\<exists>q. ngx_resolver_create_addr_query True ident (Sockaddr_in a prt) = (NGX_OK, Some q) \<and>
      ptr_question_of (mem_of q beyond) = Ptr_in (ntohl a) (length q - dns_qs_size)) \<and>
    (\<exists>q. ngx_resolver_create_addr_query True ident (Sockaddr_in6 p prt) = (NGX_OK, Some q) \<and>
      ptr_question_of (mem_of q beyond) = Ptr_in6 p (length q - dns_qs_size))"
proof -
  have "holds_at (mem_of (query_hdr ident @ qname @ query_qs NGX_RESOLVE_PTR) beyond) 12 qname" for qname
    by (rule holds_partI [OF refl]) (simp add: query_hdr_def)
  from ptr_question4 [OF this] ptr_question6 [OF this assms] show ?thesis
    by (simp add: ngx_resolver_create_addr_query_def query_hdr_def query_qs_def dns_qs_size_def)
qed

theorem dns_ptr_roundtrip_witness:
  "\<exists>q. ngx_resolver_create_addr_query True 9 (Sockaddr_in6 [0x20, 1, 0xd, 0xb8, 0, 0, 0, 0, 0, 0, 0, 0, 0, 0, 0, 1] 53) = (NGX_OK, Some q) \<and>
      ptr_question_of (mem_of q (\<lambda>_. 7)) = Ptr_in6 [0x20, 1, 0xd, 0xb8, 0, 0, 0, 0, 0, 0, 0, 0, 0, 0, 0, 1] (length q - dns_qs_size)"
  by (rule conjunct2 [OF dns_ptr_roundtrip]) simp

end
