(* ===== verification/H2Tree.thy ===== *)
theory H2Tree
  imports Prelude
begin

text \<open>
  The dependency tree of the streams of an HTTP/2 connection (\<^verbatim>\<open>src/http/v2/ngx_http_v2.c\<close>): the index of the
  nodes by stream identifier, the tree and its queues of children, the nodes of closed streams that wait for being
  used again.  Nodes lie in a memory by address; queues and the chains of the index are lists of addresses;
  \<open>rel_weight\<close>, a floating point number that only orders output frames, is left out.
\<close>

section \<open>Nodes\<close>

text \<open>The pointer \<open>parent\<close>: \<open>NULL\<close>, \<open>NGX_HTTP_V2_ROOT\<close> or a node.\<close>

datatype node_ref = Unlinked | Root | Node nat

record 's h2_node =
  nd_id :: nat
  nd_parent :: node_ref
  nd_children :: "nat list"
  nd_rank :: nat
  nd_weight :: nat
  nd_stream :: "'s option"

definition blank_node :: "'s h2_node" where
  "blank_node = \<lparr>nd_id = 0, nd_parent = Unlinked, nd_children = [], nd_rank = 0, nd_weight = 0, nd_stream = None\<rparr>"

text \<open>The part of \<open>ngx_http_v2_connection_t\<close> that the nodes are in; \<open>tr_fresh\<close> is the address of the next allocation.\<close>

record 's h2_tree =
  tr_node :: "nat \<Rightarrow> 's h2_node"
  tr_index :: "nat \<Rightarrow> nat list"
  tr_dependencies :: "nat list"
  tr_closed :: "nat list"
  tr_closed_nodes :: u8
  tr_fresh :: nat

definition new_tree :: "'s h2_tree" where
  "new_tree = \<lparr>tr_node = \<lambda>_. blank_node, tr_index = \<lambda>_. [], tr_dependencies = [], tr_closed = [],
    tr_closed_nodes = 0, tr_fresh = 0\<rparr>"

definition upd_node :: "nat \<Rightarrow> ('s h2_node \<Rightarrow> 's h2_node) \<Rightarrow> 's h2_tree \<Rightarrow> 's h2_tree" where
  "upd_node a f t = t\<lparr>tr_node := (tr_node t)(a := f (tr_node t a))\<rparr>"

section \<open>Queues of children\<close>

definition kids :: "'s h2_tree \<Rightarrow> node_ref \<Rightarrow> nat list" where
  "kids t r = (case r of Unlinked \<Rightarrow> [] | Root \<Rightarrow> tr_dependencies t | Node a \<Rightarrow> nd_children (tr_node t a))"

definition map_kids :: "(node_ref \<Rightarrow> nat list \<Rightarrow> nat list) \<Rightarrow> 's h2_tree \<Rightarrow> 's h2_tree" where
  "map_kids f t = t\<lparr>tr_dependencies := f Root (tr_dependencies t),
     tr_node := \<lambda>a. (tr_node t a)\<lparr>nd_children := f (Node a) (nd_children (tr_node t a))\<rparr>\<rparr>"

text \<open>
  A node is removed from the queue that it is in, or put behind another node, without naming the queue:
  \<open>ngx_queue_remove\<close>, \<open>ngx_queue_insert_after\<close>.
\<close>

fun insert_after :: "nat \<Rightarrow> nat \<Rightarrow> nat list \<Rightarrow> nat list" where
  "insert_after b a [] = []"
| "insert_after b a (x # xs) = (if x = b then x # a # xs else x # insert_after b a xs)"

definition queue_remove :: "nat \<Rightarrow> 's h2_tree \<Rightarrow> 's h2_tree" where
  "queue_remove a = map_kids (\<lambda>_. removeAll a)"

definition queue_insert_after :: "nat \<Rightarrow> nat \<Rightarrow> 's h2_tree \<Rightarrow> 's h2_tree" where
  "queue_insert_after b a = map_kids (\<lambda>_. insert_after b a)"

definition set_kids :: "node_ref \<Rightarrow> nat list \<Rightarrow> 's h2_tree \<Rightarrow> 's h2_tree" where
  "set_kids r xs = map_kids (\<lambda>r' ys. if r' = r then xs else ys)"

definition set_parents :: "nat list \<Rightarrow> node_ref \<Rightarrow> 's h2_tree \<Rightarrow> 's h2_tree" where
  "set_parents cs r t = foldl (\<lambda>t c. upd_node c (\<lambda>n. n\<lparr>nd_parent := r\<rparr>) t) t cs"

text \<open>
  \<open>ngx_http_v2_node_children_update\<close> for the rest \<open>cs\<close> of the children of \<open>p\<close>: \<open>None\<close> when the recursion does not end.
\<close>

partial_function (option) children_update :: "nat \<Rightarrow> nat list \<Rightarrow> 's h2_tree \<Rightarrow> 's h2_tree option" where
  [code]: "children_update p cs t =
     (case cs of
        [] \<Rightarrow> Some t
      | c # cs \<Rightarrow>
          let t = upd_node c (\<lambda>n. n\<lparr>nd_rank := nd_rank (tr_node t p) + 1\<rparr>) t
          in Option.bind (children_update c (nd_children (tr_node t c)) t) (children_update p cs))"

definition ngx_http_v2_node_children_update :: "nat \<Rightarrow> 's h2_tree \<Rightarrow> 's h2_tree option" where
  "ngx_http_v2_node_children_update p t = children_update p (nd_children (tr_node t p)) t"

section \<open>Finding and making nodes\<close>

definition ngx_http_v2_index :: "nat \<Rightarrow> nat \<Rightarrow> nat" where
  "ngx_http_v2_index msk sid = (drop_bit 1 sid AND msk)"

definition find_node :: "nat \<Rightarrow> 's h2_tree \<Rightarrow> nat \<Rightarrow> nat option" where
  "find_node msk t sid = List.find (\<lambda>a. nd_id (tr_node t a) = sid) (tr_index t (ngx_http_v2_index msk sid))"

text \<open>
  The node of a closed stream that was used longest ago: its children go to its parent, with its weight shared
  among them.  \<open>None\<close> is a null pointer that is followed: an empty queue, a node that is not in the index or not in
  the tree.
\<close>

definition share_weight :: "nat \<Rightarrow> nat \<Rightarrow> node_ref \<Rightarrow> nat \<Rightarrow> 's h2_tree \<Rightarrow> 's h2_tree" where
  "share_weight w total_weight parent c =
     upd_node c (\<lambda>n. n\<lparr>nd_parent := parent,
       nd_weight := (let v = w * nd_weight n div total_weight in if v = 0 then 1 else v)\<rparr>)"

definition share_weights :: "nat \<Rightarrow> nat \<Rightarrow> node_ref \<Rightarrow> nat list \<Rightarrow> 's h2_tree \<Rightarrow> 's h2_tree" where
  "share_weights w total_weight parent cs t = foldl (\<lambda>t c. share_weight w total_weight parent c t) t cs"

definition ngx_http_v2_get_closed_node :: "nat \<Rightarrow> 's h2_tree \<Rightarrow> (nat \<times> 's h2_tree) option" where
  "ngx_http_v2_get_closed_node msk t =
     (case tr_closed t of
        [] \<Rightarrow> None
      | a # closed \<Rightarrow>
          let i = ngx_http_v2_index msk (nd_id (tr_node t a))
          in if a \<notin> set (tr_index t i) \<or> nd_parent (tr_node t a) = Unlinked then None
             else
               let t = t\<lparr>tr_closed_nodes := tr_closed_nodes t - 1, tr_closed := closed,
                     tr_index := (tr_index t)(i := remove1 a (tr_index t i))\<rparr>;
                   t = queue_remove a t;
                   node = tr_node t a; children = nd_children node; parent = nd_parent node;
                   w = sum_list (map (\<lambda>c. nd_weight (tr_node t c)) children);
                   t = share_weights (nd_weight node) w parent children t;
                   t = upd_node a (\<lambda>n. n\<lparr>nd_rank := (case parent of Node p \<Rightarrow> nd_rank (tr_node t p) | _ \<Rightarrow> 0)\<rparr>) t
               in Option.bind (ngx_http_v2_node_children_update a t)
                    (\<lambda>t. let t = set_kids parent (kids t parent @ children) t
                         in Some (a, upd_node a (\<lambda>_. blank_node) t)))"

text \<open>
  The node of a stream, a new one when there is none and \<open>alloc\<close> is set; \<open>ok\<close> says whether the memory for one can be
  allocated.
\<close>

definition enter_node :: "nat \<Rightarrow> nat \<Rightarrow> nat \<Rightarrow> 's h2_tree \<Rightarrow> 's h2_tree" where
  "enter_node msk sid a t =
     (let i = ngx_http_v2_index msk sid; t = upd_node a (\<lambda>n. n\<lparr>nd_id := sid, nd_children := []\<rparr>) t
      in t\<lparr>tr_index := (tr_index t)(i := a # tr_index t i)\<rparr>)"

definition ngx_http_v2_get_node_by_id ::
    "nat \<Rightarrow> bool \<Rightarrow> nat \<Rightarrow> bool \<Rightarrow> 's h2_tree \<Rightarrow> (nat option \<times> 's h2_tree) option" where
  "ngx_http_v2_get_node_by_id msk ok sid alloc t =
     (case find_node msk t sid of
        Some a \<Rightarrow> Some (Some a, t)
      | None \<Rightarrow>
          if \<not> alloc then Some (None, t)
          else if tr_closed_nodes t < 32 then
            (if ok then Some (Some (tr_fresh t), enter_node msk sid (tr_fresh t)
                 (upd_node (tr_fresh t) (\<lambda>_. blank_node) (t\<lparr>tr_fresh := tr_fresh t + 1\<rparr>)))
             else Some (None, t))
          else Option.bind (ngx_http_v2_get_closed_node msk t)
                 (\<lambda>(a, t). Some (Some a, enter_node msk sid a t)))"

section \<open>Dependencies\<close>

text \<open>
  The loop that looks for \<open>a\<close> among the ancestors of its new parent, as long as they are not nearer to the root than
  \<open>a\<close>; \<open>None\<close> when it follows a null pointer or does not end.
\<close>

partial_function (option) is_ancestor :: "'s h2_tree \<Rightarrow> nat \<Rightarrow> node_ref \<Rightarrow> bool option" where
  [code]: "is_ancestor t a r =
     (case r of
        Root \<Rightarrow> Some False
      | Unlinked \<Rightarrow> None
      | Node b \<Rightarrow>
          if nd_rank (tr_node t b) \<ge> nd_rank (tr_node t a) then
            (if b = a then Some True else is_ancestor t a (nd_parent (tr_node t b)))
          else Some False)"

text \<open>The new parent \<open>p\<close> was below \<open>a\<close>: it takes a place behind \<open>a\<close>.\<close>

definition raise_parent :: "nat \<Rightarrow> nat \<Rightarrow> bool \<Rightarrow> 's h2_tree \<Rightarrow> 's h2_tree option" where
  "raise_parent a p exclusive t =
     (let t = queue_insert_after a p (queue_remove p t);
          r = nd_parent (tr_node t a);
          t = upd_node p (\<lambda>n. n\<lparr>nd_parent := r,
            nd_rank := (case r of Node b \<Rightarrow> nd_rank (tr_node t b) + 1 | _ \<Rightarrow> 1)\<rparr>) t
      in if exclusive then Some t else ngx_http_v2_node_children_update p t)"

text \<open>The end of \<open>ngx_http_v2_set_dependency\<close>, with \<open>r\<close> for the parent and its queue of children.\<close>

definition place_links :: "nat \<Rightarrow> node_ref \<Rightarrow> bool \<Rightarrow> 's h2_tree \<Rightarrow> 's h2_tree" where
  "place_links a r exclusive t =
     (let t = (if exclusive then
                 let cs = kids t r; t = set_parents cs (Node a) t
                 in set_kids r [] (set_kids (Node a) (nd_children (tr_node t a) @ cs) t)
               else t);
          t = (if nd_parent (tr_node t a) \<noteq> Unlinked then queue_remove a t else t);
          t = set_kids r (kids t r @ [a]) t
      in upd_node a (\<lambda>n. n\<lparr>nd_parent := r\<rparr>) t)"

definition place_node :: "nat \<Rightarrow> node_ref \<Rightarrow> bool \<Rightarrow> 's h2_tree \<Rightarrow> 's h2_tree option" where
  "place_node a r exclusive t = ngx_http_v2_node_children_update a (place_links a r exclusive t)"

definition ngx_http_v2_set_dependency :: "nat \<Rightarrow> nat \<Rightarrow> nat \<Rightarrow> bool \<Rightarrow> 's h2_tree \<Rightarrow> 's h2_tree option" where
  "ngx_http_v2_set_dependency msk a depend exclusive t =
     (case (if depend \<noteq> 0 then find_node msk t depend else None) of
        None \<Rightarrow> place_node a Root (exclusive \<and> depend = 0) (upd_node a (\<lambda>n. n\<lparr>nd_rank := 1\<rparr>) t)
      | Some p \<Rightarrow>
          Option.bind
            (if nd_parent (tr_node t a) \<noteq> Unlinked then
               Option.bind (is_ancestor t a (nd_parent (tr_node t p)))
                 (\<lambda>below. if below then raise_parent a p exclusive t else Some t)
             else Some t)
            (\<lambda>t. let t = upd_node a (\<lambda>n. n\<lparr>nd_rank := nd_rank (tr_node t p) + 1\<rparr>) t;
                     t = (if nd_stream (tr_node t p) = None then t\<lparr>tr_closed := removeAll p (tr_closed t) @ [p]\<rparr> else t)
                 in place_node a (Node p) exclusive t))"

section \<open>The operations of the connection on the tree\<close>

text \<open>
  The node of a new stream \<open>s\<close> (\<open>ngx_http_v2_state_headers\<close>).  When the stream cannot be made the connection ends.
\<close>

definition NGX_HTTP_V2_DEFAULT_WEIGHT :: nat where
  "NGX_HTTP_V2_DEFAULT_WEIGHT = 16"

definition leave_closed :: "nat \<Rightarrow> 's h2_tree \<Rightarrow> 's h2_tree" where
  "leave_closed a t =
     (if nd_parent (tr_node t a) \<noteq> Unlinked
      then t\<lparr>tr_closed := removeAll a (tr_closed t), tr_closed_nodes := tr_closed_nodes t - 1\<rparr> else t)"

definition enter_closed :: "nat \<Rightarrow> 's h2_tree \<Rightarrow> 's h2_tree" where
  "enter_closed a t = t\<lparr>tr_closed := tr_closed t @ [a], tr_closed_nodes := tr_closed_nodes t + 1\<rparr>"

definition headers_node ::
    "nat \<Rightarrow> bool \<Rightarrow> nat \<Rightarrow> bool \<Rightarrow> nat \<Rightarrow> bool \<Rightarrow> nat \<Rightarrow> 's \<Rightarrow> 's h2_tree \<Rightarrow> (nat option \<times> 's h2_tree) option" where
  "headers_node msk ok sid priority depend exclusive weight s t =
     Option.bind (ngx_http_v2_get_node_by_id msk ok sid True t)
       (\<lambda>(node, t).
          case node of
            None \<Rightarrow> Some (None, t)
          | Some a \<Rightarrow>
              let t = upd_node a (\<lambda>n. n\<lparr>nd_stream := Some s\<rparr>) (leave_closed a t)
              in if priority \<or> nd_parent (tr_node t a) = Unlinked
                 then map_option (Pair (Some a))
                        (ngx_http_v2_set_dependency msk a depend exclusive (upd_node a (\<lambda>n. n\<lparr>nd_weight := weight\<rparr>) t))
                 else Some (Some a, t))"

text \<open>\<open>ngx_http_v2_state_priority\<close>, once the frame has been checked.\<close>

definition priority_node ::
    "nat \<Rightarrow> bool \<Rightarrow> nat \<Rightarrow> nat \<Rightarrow> bool \<Rightarrow> nat \<Rightarrow> 's h2_tree \<Rightarrow> (nat option \<times> 's h2_tree) option" where
  "priority_node msk ok sid depend exclusive weight t =
     Option.bind (ngx_http_v2_get_node_by_id msk ok sid True t)
       (\<lambda>(node, t).
          case node of
            None \<Rightarrow> Some (None, t)
          | Some a \<Rightarrow>
              let t = upd_node a (\<lambda>n. n\<lparr>nd_weight := weight\<rparr>) t;
                  t = (if nd_stream (tr_node t a) = None
                       then (if nd_parent (tr_node t a) = Unlinked then t\<lparr>tr_closed_nodes := tr_closed_nodes t + 1\<rparr>
                             else t\<lparr>tr_closed := removeAll a (tr_closed t)\<rparr>)
                       else t);
                  t = (if nd_stream (tr_node t a) = None then t\<lparr>tr_closed := tr_closed t @ [a]\<rparr> else t)
              in map_option (Pair (Some a)) (ngx_http_v2_set_dependency msk a depend exclusive t))"

text \<open>
  The node of a pushed stream (\<open>ngx_http_v2_push_stream\<close>), which depends on the stream \<open>parent_sid\<close>; \<open>stream_ok\<close> says
  whether the stream could be made.
\<close>

definition push_node ::
    "nat \<Rightarrow> bool \<Rightarrow> bool \<Rightarrow> nat \<Rightarrow> nat \<Rightarrow> 's \<Rightarrow> 's h2_tree \<Rightarrow> (nat option \<times> 's h2_tree) option" where
  "push_node msk ok stream_ok sid parent_sid s t =
     Option.bind (ngx_http_v2_get_node_by_id msk ok sid True t)
       (\<lambda>(node, t).
          case node of
            None \<Rightarrow> Some (None, t)
          | Some a \<Rightarrow>
              if \<not> stream_ok then
                Some (None,
                  if nd_parent (tr_node t a) = Unlinked
                  then (let i = ngx_http_v2_index msk sid
                        in enter_closed a (t\<lparr>tr_index := (tr_index t)(i := tl (tr_index t i))\<rparr>))
                  else t)
              else
                let t = upd_node a (\<lambda>n. n\<lparr>nd_stream := Some s\<rparr>) (leave_closed a t);
                    t = upd_node a (\<lambda>n. n\<lparr>nd_weight := NGX_HTTP_V2_DEFAULT_WEIGHT\<rparr>) t
                in map_option (Pair (Some a)) (ngx_http_v2_set_dependency msk a parent_sid False t))"

text \<open>The end of the stream of a node (\<open>ngx_http_v2_close_stream\<close>).\<close>

definition close_node :: "nat \<Rightarrow> 's h2_tree \<Rightarrow> 's h2_tree" where
  "close_node a t = enter_closed a (upd_node a (\<lambda>n. n\<lparr>nd_stream := None\<rparr>) t)"

end
