(* ===== verification/H2TreeSpec.thy ===== *)
theory H2TreeSpec
  imports H2Tree
begin

text \<open>
  The dependency tree is a tree: its invariant, the refinement of the reprioritisation of RFC 7540 (5.3.3) by
  \<open>ngx_http_v2_set_dependency\<close>, the end of its loops, and the number of nodes.
\<close>

section \<open>What the operations on queues and nodes change\<close>

abbreviation par :: "'s h2_tree \<Rightarrow> nat \<Rightarrow> node_ref" where
  "par t a \<equiv> nd_parent (tr_node t a)"

abbreviation rank :: "'s h2_tree \<Rightarrow> nat \<Rightarrow> nat" where
  "rank t a \<equiv> nd_rank (tr_node t a)"

text \<open>What belongs to a node besides its place in the tree.\<close>

definition label :: "'s h2_node \<Rightarrow> nat \<times> nat \<times> 's option" where
  "label n = (nd_id n, nd_weight n, nd_stream n)"

text \<open>What belongs to a tree besides the nodes and their places.\<close>

definition frame :: "'s h2_tree \<Rightarrow> (nat \<Rightarrow> nat list) \<times> nat list \<times> u8 \<times> nat" where
  "frame t = (tr_index t, tr_closed t, tr_closed_nodes t, tr_fresh t)"

lemma tr_node_upd: "tr_node (upd_node a f t) b = (if b = a then f (tr_node t a) else tr_node t b)"
  by (simp add: upd_node_def)

lemma frame_upd [simp]: "frame (upd_node a f t) = frame t" "tr_dependencies (upd_node a f t) = tr_dependencies t"
  "tr_index (upd_node a f t) = tr_index t" "tr_closed (upd_node a f t) = tr_closed t"
  "tr_closed_nodes (upd_node a f t) = tr_closed_nodes t" "tr_fresh (upd_node a f t) = tr_fresh t"
  by (simp_all add: upd_node_def frame_def)

lemma kids_simps [simp]: "kids t Unlinked = []" "kids t Root = tr_dependencies t" "kids t (Node a) = nd_children (tr_node t a)"
  by (simp_all add: kids_def)

lemma map_kids_simps [simp]:
  "nd_parent (tr_node (map_kids f t) a) = par t a" "nd_rank (tr_node (map_kids f t) a) = rank t a"
  "label (tr_node (map_kids f t) a) = label (tr_node t a)" "frame (map_kids f t) = frame t"
  "nd_children (tr_node (map_kids f t) a) = f (Node a) (nd_children (tr_node t a))"
  "tr_dependencies (map_kids f t) = f Root (tr_dependencies t)"
  "nd_stream (tr_node (map_kids f t) a) = nd_stream (tr_node t a)"
  "nd_weight (tr_node (map_kids f t) a) = nd_weight (tr_node t a)" "nd_id (tr_node (map_kids f t) a) = nd_id (tr_node t a)"
  by (simp_all add: map_kids_def frame_def label_def)

lemma kids_map_kids: "r \<noteq> Unlinked \<Longrightarrow> kids (map_kids f t) r = f r (kids t r)"
  by (cases r) (simp_all add: kids_def)

lemma insert_after_set: "b \<in> set xs \<Longrightarrow> set (insert_after b a xs) = insert a (set xs)"
  by (induction xs) auto

lemma insert_after_none: "b \<notin> set xs \<Longrightarrow> insert_after b a xs = xs"
  by (induction xs) auto

lemma insert_after_distinct: "distinct xs \<Longrightarrow> a \<notin> set xs \<Longrightarrow> distinct (insert_after b a xs)"
proof (induction xs)
  case (Cons x xs)
  have "set (insert_after b a xs) \<subseteq> insert a (set xs)"
    by (cases "b \<in> set xs") (auto simp: insert_after_set insert_after_none)
  then show ?case using Cons by auto
qed simp

section \<open>Trees\<close>

text \<open>The links of a tree: the queues hold the nodes that refer to their owner, once, and linked nodes refer to linked ones.\<close>

definition linked :: "'s h2_tree \<Rightarrow> nat set" where
  "linked t = {a. par t a \<noteq> Unlinked}"

definition forest :: "'s h2_tree \<Rightarrow> bool" where
  "forest t \<longleftrightarrow> finite (linked t) \<and> (\<forall>a p. par t a = Node p \<longrightarrow> p \<in> linked t) \<and>
     (\<forall>r. r \<noteq> Unlinked \<longrightarrow> distinct (kids t r) \<and> set (kids t r) = {a. par t a = r})"

text \<open>The rank of a node is its distance from the root.\<close>

definition rank_in :: "'s h2_tree \<Rightarrow> node_ref \<Rightarrow> nat" where
  "rank_in t r = (case r of Node p \<Rightarrow> rank t p | _ \<Rightarrow> 0)"

definition ranked :: "'s h2_tree \<Rightarrow> bool" where
  "ranked t \<longleftrightarrow> (\<forall>a \<in> linked t. rank t a = rank_in t (par t a) + 1)"

lemma rank_in_simps [simp]: "rank_in t Root = 0" "rank_in t Unlinked = 0" "rank_in t (Node p) = rank t p"
  by (simp_all add: rank_in_def)

definition below :: "(nat \<Rightarrow> node_ref) \<Rightarrow> (nat \<times> nat) set" where
  "below P = {(c, p). P c = Node p}"

lemma forest_kids: "forest t \<Longrightarrow> r \<noteq> Unlinked \<Longrightarrow> set (kids t r) = {a. par t a = r}"
  by (simp add: forest_def)

lemma forest_children: "forest t \<Longrightarrow> c \<in> set (nd_children (tr_node t p)) \<longleftrightarrow> par t c = Node p"
  using forest_kids [of t "Node p"] by simp

lemma forest_linked: "forest t \<Longrightarrow> par t a = Node p \<Longrightarrow> p \<in> linked t"
  by (simp add: forest_def)

text \<open>When the nodes have heights above their parents, recursion over children ends.\<close>

lemma below_wf:
  assumes "finite (linked t)" "\<And>c p. par t c = Node p \<Longrightarrow> p \<in> linked t" "\<And>c p. par t c = Node p \<Longrightarrow> d p < (d c :: nat)"
  shows "wf (below (par t))"
proof (rule finite_acyclic_wf)
  have "below (par t) \<subseteq> linked t \<times> linked t"
    using assms(2) by (auto simp: below_def linked_def)
  then show "finite (below (par t))"
    using assms(1) by (meson finite_SigmaI finite_subset)
  have "(c, p) \<in> (below (par t))\<^sup>+ \<Longrightarrow> d p < d c" for c p
  proof (induction rule: trancl_induct)
    case (base y)
    then show ?case using assms(3) by (simp add: below_def)
  next
    case (step y z)
    then show ?case using assms(3) [of y z] by (simp add: below_def)
  qed
  then show "acyclic (below (par t))"
    unfolding acyclic_def by fastforce
qed

section \<open>Updating the ranks\<close>

definition with_ranks :: "(nat \<Rightarrow> nat) \<Rightarrow> 's h2_tree \<Rightarrow> 's h2_tree" where
  "with_ranks f t = t\<lparr>tr_node := \<lambda>a. (tr_node t a)\<lparr>nd_rank := f a\<rparr>\<rparr>"

lemma with_ranks_simps [simp]:
  "nd_parent (tr_node (with_ranks f t) a) = par t a" "nd_rank (tr_node (with_ranks f t) a) = f a"
  "label (tr_node (with_ranks f t) a) = label (tr_node t a)" "frame (with_ranks f t) = frame t"
  "nd_children (tr_node (with_ranks f t) a) = nd_children (tr_node t a)" "tr_dependencies (with_ranks f t) = tr_dependencies t"
  "with_ranks g (with_ranks f t) = with_ranks g t"
  by (simp_all add: with_ranks_def frame_def label_def)

lemma kids_with_ranks [simp]: "kids (with_ranks f t) r = kids t r"
  by (cases r) simp_all

lemma linked_with_ranks [simp]: "linked (with_ranks f t) = linked t"
  by (simp add: linked_def)

lemma forest_with_ranks [simp]: "forest (with_ranks f t) = forest t"
  by (simp add: forest_def)

lemma upd_rank: "upd_node c (\<lambda>n. n\<lparr>nd_rank := k\<rparr>) t = with_ranks ((\<lambda>a. rank t a)(c := k)) t"
  by (rule h2_tree.equality) (auto simp: upd_node_def with_ranks_def)

lemma with_ranks_id: "t = with_ranks (\<lambda>a. rank t a) t"
  by (rule h2_tree.equality) (auto simp: with_ranks_def)

text \<open>The nodes at and below a list of nodes.\<close>

definition under :: "(nat \<Rightarrow> node_ref) \<Rightarrow> nat list \<Rightarrow> nat set" where
  "under P cs = {x. \<exists>c \<in> set cs. (x, c) \<in> (below P)\<^sup>*}"

lemma under_closed: "P x = Node y \<Longrightarrow> y \<in> under P cs \<Longrightarrow> x \<in> under P cs"
  unfolding under_def by (auto simp: below_def intro: converse_rtrancl_into_rtrancl)

lemma under_cases: "x \<in> under P cs \<Longrightarrow> x \<in> set cs \<or> (\<exists>y. P x = Node y \<and> y \<in> under P cs)"
  unfolding under_def by (auto simp: below_def elim: converse_rtranclE)

lemma under_cons: "under P (c # cs) = insert c (under P [c]) \<union> under P cs"
  by (auto simp: under_def)

lemma under_children:
  assumes "\<And>x. x \<in> set cs \<longleftrightarrow> P x = Node c"
  shows "under P [c] = insert c (under P cs)"
proof -
  have "x \<in> insert c (under P cs)" if "(x, c) \<in> (below P)\<^sup>*" for x
    using that by (induction rule: converse_rtrancl_induct) (auto simp: below_def assms under_def intro: converse_rtrancl_into_rtrancl)
  moreover have "x \<in> under P [c]" if x: "x \<in> under P cs" for x
  proof -
    obtain y where "y \<in> set cs" "(x, y) \<in> (below P)\<^sup>*" using x by (auto simp: under_def)
    then show ?thesis using assms by (auto simp: under_def below_def intro: rtrancl_into_rtrancl)
  qed
  ultimately show ?thesis by (auto simp: under_def)
qed

text \<open>The owner of the list is not under it.\<close>

lemma not_under: "wf (below P) \<Longrightarrow> (\<And>x. x \<in> set cs \<Longrightarrow> P x = Node p) \<Longrightarrow> p \<notin> under P cs"
proof
  assume wf: "wf (below P)" and cs: "\<And>x. x \<in> set cs \<Longrightarrow> P x = Node p" and "p \<in> under P cs"
  then obtain c where "c \<in> set cs" "(p, c) \<in> (below P)\<^sup>*" by (auto simp: under_def)
  then have "(p, p) \<in> (below P)\<^sup>+" using cs by (auto simp: below_def intro: rtrancl_into_trancl1)
  then show False using wf by (meson acyclic_def wf_acyclic)
qed

text \<open>What updating the ranks of the nodes under \<open>cs\<close> means for the ranks \<open>f\<close> before and \<open>g\<close> after it.\<close>

definition reranked :: "(nat \<Rightarrow> node_ref) \<Rightarrow> nat \<Rightarrow> nat list \<Rightarrow> (nat \<Rightarrow> nat) \<Rightarrow> (nat \<Rightarrow> nat) \<Rightarrow> bool" where
  "reranked P p cs f g \<longleftrightarrow> (\<forall>x. x \<notin> under P cs \<longrightarrow> g x = f x) \<and>
     (\<forall>x \<in> under P cs. \<exists>y. P x = Node y \<and> g x = g y + 1)"

lemma reranked_nil [simp]: "reranked P p [] f f"
  by (simp add: reranked_def under_def)

lemma reranked_cons:
  assumes wf: "wf (below P)" and cs: "\<And>x. x \<in> set (c # cs) \<Longrightarrow> P x = Node p" and ks: "\<And>x. x \<in> set ks \<longleftrightarrow> P x = Node c"
    and 1: "reranked P c ks (f(c := f p + 1)) g" and 2: "reranked P p cs g h"
  shows "reranked P p (c # cs) f h"
proof -
  have u: "under P (c # cs) = insert c (under P ks) \<union> under P cs"
    using under_cons [of P c cs] under_children [of ks P c, OF ks] by auto
  have p: "p \<notin> under P (c # cs)" by (rule not_under [OF wf cs])
  have c: "c \<notin> under P ks" using ks by (intro not_under [OF wf]) auto
  have "h x = f x" if "x \<notin> under P (c # cs)" for x
    using that 1 2 unfolding u reranked_def by auto
  moreover have "\<exists>y. P x = Node y \<and> h x = h y + 1" if x: "x \<in> under P (c # cs)" for x
  proof (cases "x \<in> under P cs")
    case True
    then show ?thesis using 2 by (simp add: reranked_def)
  next
    case False
    have "g c = g p + 1"
    proof -
      have "g c = f p + 1" "g p = f p" using 1 c p u cs [of c] unfolding reranked_def by (auto split: if_splits)
      then show ?thesis by simp
    qed
    moreover have "\<exists>y. P x = Node y \<and> g x = g y + 1" if "x \<noteq> c"
      using x False that 1 unfolding u reranked_def by auto
    ultimately obtain y where y: "P x = Node y" "g x = g y + 1"
      using cs [of c] by auto
    moreover have "y \<notin> under P cs" using under_closed y(1) False by metis
    ultimately show ?thesis using 2 False unfolding reranked_def by auto
  qed
  ultimately show ?thesis by (simp add: reranked_def)
qed

lemma children_update_reranks:
  assumes "wf (below P)" "\<And>x p. x \<in> set (C p) \<longleftrightarrow> P x = Node p"
  shows "(\<lambda>a. nd_children (tr_node t a)) = C \<Longrightarrow> (\<forall>x \<in> set cs. P x = Node p) \<Longrightarrow>
    \<exists>g. children_update p cs t = Some (with_ranks g t) \<and> reranked P p cs (rank t) g"
proof (induction p arbitrary: cs t rule: wf_induct_rule [OF assms(1)])
  case (1 p)
  show ?case using 1(2-3)
  proof (induction cs arbitrary: t)
    case Nil
    show ?case
      by (rule exI [of _ "rank t"]) (simp add: children_update.simps with_ranks_id [symmetric])
  next
    case (Cons c cs)
    define t1 where "t1 = upd_node c (\<lambda>n. n\<lparr>nd_rank := rank t p + 1\<rparr>) t"
    have t1: "t1 = with_ranks ((rank t)(c := rank t p + 1)) t" by (simp add: t1_def upd_rank)
    have "(c, p) \<in> below P" using Cons.prems(2) by (simp add: below_def)
    moreover have "(\<lambda>a. nd_children (tr_node t1 a)) = C" using Cons.prems by (simp_all add: t1)
    moreover have "\<forall>x \<in> set (C c). P x = Node c" using assms(2) by blast
    ultimately obtain g where g: "children_update c (C c) t1 = Some (with_ranks g t1)" "reranked P c (C c) (rank t1) g"
      using 1(1) by blast
    have "(\<lambda>a. nd_children (tr_node (with_ranks g t) a)) = C" using Cons.prems by simp_all
    then obtain h where h: "children_update p cs (with_ranks g t) = Some (with_ranks h (with_ranks g t))" "reranked P p cs g h"
      using Cons.IH [of "with_ranks g t"] Cons.prems(2) by auto
    have "nd_children (tr_node t1 c) = C c" using Cons.prems(1) by (auto simp: t1)
    then have "children_update p (c # cs) t = Some (with_ranks h t)"
      using g(1) h(1) by (subst children_update.simps) (simp add: upd_rank t1)
    moreover have "reranked P p (c # cs) (rank t) h"
    proof (rule reranked_cons [OF assms(1) _ assms(2) _ h(2)])
      show "P x = Node p" if "x \<in> set (c # cs)" for x using that Cons.prems(2) by auto
      have "rank t1 = (rank t)(c := rank t p + 1)" by (auto simp: t1)
      then show "reranked P c (C c) ((rank t)(c := rank t p + 1)) g" using g(2) by (simp only:)
    qed
    ultimately show ?case by blast
  qed
qed

text \<open>Updating below \<open>p\<close> repairs the ranks when the others are right.\<close>

definition ranked_but :: "nat set \<Rightarrow> 's h2_tree \<Rightarrow> bool" where
  "ranked_but D t \<longleftrightarrow> (\<forall>a \<in> linked t - D. rank t a = rank_in t (par t a) + 1)"

lemma ranked_but_empty: "ranked_but {} t = ranked t"
  by (simp add: ranked_but_def ranked_def)

lemma ranked_but_mono: "ranked_but D t \<Longrightarrow> D \<subseteq> D' \<Longrightarrow> ranked_but D' t"
  unfolding ranked_but_def by blast

lemma node_update:
  assumes "forest t" "\<And>c p. par t c = Node p \<Longrightarrow> d p < (d c :: nat)"
    and "ranked_but (under (par t) (nd_children (tr_node t p))) t"
  shows "\<exists>g. ngx_http_v2_node_children_update p t = Some (with_ranks g t) \<and> ranked (with_ranks g t) \<and>
    (\<forall>x. x \<notin> under (par t) (nd_children (tr_node t p)) \<longrightarrow> g x = rank t x)"
proof -
  let ?D = "under (par t) (nd_children (tr_node t p))"
  have "wf (below (par t))"
    using assms(1,2) by (intro below_wf) (auto simp: forest_def)
  moreover have "\<And>x p. x \<in> set (nd_children (tr_node t p)) \<longleftrightarrow> par t x = Node p"
    using forest_children [OF assms(1)] by blast
  ultimately obtain g where g: "children_update p (nd_children (tr_node t p)) t = Some (with_ranks g t)"
      "reranked (par t) p (nd_children (tr_node t p)) (rank t) g"
    using children_update_reranks [of "par t" "\<lambda>a. nd_children (tr_node t a)" t] by blast
  have "g x = rank_in (with_ranks g t) (par t x) + 1" if x: "x \<in> linked t" for x
  proof (cases "x \<in> ?D")
    case True
    then show ?thesis using g(2) by (auto simp: reranked_def)
  next
    case False
    then have "rank_in (with_ranks g t) (par t x) = rank_in t (par t x)"
      using under_closed [of "par t" x] g(2) by (cases "par t x") (auto simp: reranked_def)
    then show ?thesis using False x assms(3) g(2) by (auto simp: ranked_but_def reranked_def)
  qed
  then have "ranked (with_ranks g t)" by (simp add: ranked_def)
  then show ?thesis
    using g unfolding ngx_http_v2_node_children_update_def reranked_def by blast
qed

section \<open>Placing a node\<close>

lemma upd_parent_simps [simp]:
  "kids (upd_node a (\<lambda>n. n\<lparr>nd_parent := r\<rparr>) t) r' = kids t r'"
  "label (tr_node (upd_node a (\<lambda>n. n\<lparr>nd_parent := r\<rparr>) t) b) = label (tr_node t b)"
  "rank (upd_node a (\<lambda>n. n\<lparr>nd_parent := r\<rparr>) t) b = rank t b"
  "par (upd_node a (\<lambda>n. n\<lparr>nd_parent := r\<rparr>) t) b = (if b = a then r else par t b)"
  "nd_children (tr_node (upd_node a (\<lambda>n. n\<lparr>nd_parent := r\<rparr>) t) b) = nd_children (tr_node t b)"
  by (cases r') (auto simp: tr_node_upd label_def kids_def)

lemma set_parents_simps [simp]:
  "kids (set_parents cs r t) r' = kids t r'" "label (tr_node (set_parents cs r t) b) = label (tr_node t b)"
  "rank (set_parents cs r t) b = rank t b" "par (set_parents cs r t) b = (if b \<in> set cs then r else par t b)"
  "frame (set_parents cs r t) = frame t"
  "nd_children (tr_node (set_parents cs r t) b) = nd_children (tr_node t b)"
  by (induction cs arbitrary: t) (auto simp: set_parents_def)

lemma kids_set_kids: "r' \<noteq> Unlinked \<Longrightarrow> kids (set_kids r xs t) r' = (if r' = r then xs else kids t r')"
  by (simp add: set_kids_def kids_map_kids)

lemma kids_queue_remove: "r' \<noteq> Unlinked \<Longrightarrow> kids (queue_remove a t) r' = removeAll a (kids t r')"
  by (simp add: queue_remove_def kids_map_kids)

lemma children_queues [simp]:
  "nd_children (tr_node (set_kids r xs t) b) = (if r = Node b then xs else nd_children (tr_node t b))"
  "nd_children (tr_node (queue_remove a t) b) = removeAll a (nd_children (tr_node t b))"
  by (auto simp: set_kids_def queue_remove_def)

lemma queue_simps [simp]:
  "par (set_kids r xs t) b = par t b" "rank (set_kids r xs t) b = rank t b" "label (tr_node (set_kids r xs t) b) = label (tr_node t b)"
  "frame (set_kids r xs t) = frame t"
  "par (queue_remove a t) b = par t b" "rank (queue_remove a t) b = rank t b"
  "label (tr_node (queue_remove a t) b) = label (tr_node t b)" "frame (queue_remove a t) = frame t"
  "par (queue_insert_after c a t) b = par t b" "rank (queue_insert_after c a t) b = rank t b"
  "label (tr_node (queue_insert_after c a t) b) = label (tr_node t b)" "frame (queue_insert_after c a t) = frame t"
  by (simp_all add: set_kids_def queue_remove_def queue_insert_after_def)

definition placed :: "(nat \<Rightarrow> node_ref) \<Rightarrow> nat \<Rightarrow> node_ref \<Rightarrow> bool \<Rightarrow> nat \<Rightarrow> node_ref" where
  "placed P a r exclusive x = (if x = a then r else if exclusive \<and> P x = r then Node a else P x)"

lemma place_links_simps:
  assumes "forest t" "r \<noteq> Unlinked" "r \<noteq> Node a"
  shows "par (place_links a r e t) x = placed (par t) a r e x" "rank (place_links a r e t) x = rank t x"
    "label (tr_node (place_links a r e t) x) = label (tr_node t x)" "frame (place_links a r e t) = frame t"
    "r' \<noteq> Unlinked \<Longrightarrow> kids (place_links a r e t) r' =
      (let ks = removeAll a (if e \<and> r' = r then [] else if e \<and> r' = Node a then nd_children (tr_node t a) @ kids t r else kids t r')
       in if r' = r then ks @ [a] else ks)"
proof -
  have unlinked: "removeAll a (kids t r') = kids t r'" if "par t a = Unlinked" "r' \<noteq> Unlinked" for r'
    using that forest_kids [OF assms(1), of r'] by (intro removeAll_id) simp
  have linked: "x \<in> set (kids t r) \<longleftrightarrow> par t x = r" for x
    using forest_kids [OF assms(1,2)] by simp
  show "par (place_links a r e t) x = placed (par t) a r e x"
    using linked by (simp add: place_links_def placed_def Let_def)
  show "rank (place_links a r e t) x = rank t x" "label (tr_node (place_links a r e t) x) = label (tr_node t x)"
    "frame (place_links a r e t) = frame t"
    by (simp_all add: place_links_def Let_def)
  show "kids (place_links a r e t) r' =
      (let ks = removeAll a (if e \<and> r' = r then [] else if e \<and> r' = Node a then nd_children (tr_node t a) @ kids t r else kids t r')
       in if r' = r then ks @ [a] else ks)" if "r' \<noteq> Unlinked"
    using assms(2,3) that unlinked [OF _ that] unlinked [OF _ assms(2)] unlinked [of "Node a"] linked [of a]
    by (auto simp: place_links_def Let_def kids_set_kids kids_queue_remove)
qed

lemma under_self: "c \<in> set cs \<Longrightarrow> c \<in> under P cs"
  by (auto simp: under_def)

lemma under_induct [consumes 1, case_names base step]:
  assumes "x \<in> under P cs" "\<And>c. c \<in> set cs \<Longrightarrow> Q c" "\<And>x y. P x = Node y \<Longrightarrow> y \<in> under P cs \<Longrightarrow> Q y \<Longrightarrow> Q x"
  shows "Q x"
proof -
  obtain c where c: "c \<in> set cs" "(x, c) \<in> (below P)\<^sup>*" using assms(1) by (auto simp: under_def)
  from c(2) show ?thesis
  proof (induction rule: converse_rtrancl_induct)
    case base
    then show ?case using assms(2) c(1) by simp
  next
    case (step y z)
    then show ?case using assms(3) [of y z] c(1) by (auto simp: below_def under_def)
  qed
qed

text \<open>The nodes whose rank changes.\<close>

definition moved :: "'s h2_tree \<Rightarrow> nat \<Rightarrow> node_ref \<Rightarrow> bool \<Rightarrow> nat set" where
  "moved t a r e = under (par t) (a # (if e then kids t r else []))"

definition may_hold :: "'s h2_tree \<Rightarrow> nat \<Rightarrow> node_ref \<Rightarrow> bool" where
  "may_hold t a r \<longleftrightarrow> r = Root \<or> (\<exists>p. r = Node p \<and> p \<in> linked t \<and> p \<notin> under (par t) [a])"

lemma may_hold_refs: "may_hold t a r \<Longrightarrow> r \<noteq> Unlinked \<and> r \<noteq> Node a"
  by (auto simp: may_hold_def under_self)

lemma placed_heights:
  assumes "forest t" "may_hold t a r" "\<And>c p. par t c = Node p \<Longrightarrow> d p < (d c :: nat)"
  shows "\<exists>d' :: nat \<Rightarrow> nat. \<forall>c p. placed (par t) a r e c = Node p \<longrightarrow> d' p < d' c"
proof -
  define S where "S = moved t a r e"
  define k where "k = d a + (case r of Node p \<Rightarrow> d p | _ \<Rightarrow> 0) + 1"
  define d' where "d' x = (if x = a then d a + k else if x \<in> S then d x + 2 * k else d x)" for x
  have wf: "wf (below (par t))" using assms(1,3) by (intro below_wf) (auto simp: forest_def)
  have closed: "y \<in> S \<Longrightarrow> par t x = Node y \<Longrightarrow> x \<in> S" for x y
    using under_closed unfolding S_def moved_def by metis
  have a: "a \<in> S" by (simp add: S_def moved_def under_self)
  have kids: "x \<in> S" if "e" "par t x = r" for x
    using that forest_kids [OF assms(1), of r] may_hold_refs [OF assms(2)] by (simp add: S_def moved_def under_self)
  have holder: "p \<notin> S" if "r = Node p" for p
  proof -
    have "p \<notin> under (par t) (kids t r)"
      using not_under [OF wf, of "kids t r" p] forest_children [OF assms(1)] that by simp
    moreover have "p \<notin> under (par t) [a]" using assms(2) that by (simp add: may_hold_def)
    ultimately show ?thesis by (auto simp: S_def moved_def under_def)
  qed
  have "d' p < d' c" if "placed (par t) a r e c = Node p" for c p
  proof (cases "c = a")
    case True
    then show ?thesis using that holder [of p] may_hold_refs [OF assms(2)] by (auto simp: placed_def d'_def k_def)
  next
    case False
    show ?thesis
    proof (cases "e \<and> par t c = r")
      case True
      then show ?thesis using that False kids by (auto simp: placed_def d'_def k_def)
    next
      case plain: False
      then have p: "par t c = Node p" using that False by (simp add: placed_def split: if_splits)
      show ?thesis using closed [OF _ p] a False assms(3) [OF p] by (auto simp: d'_def k_def)
    qed
  qed
  then show ?thesis by blast
qed

lemma placed_forest:
  assumes "forest t" "may_hold t a r"
  shows "forest (place_links a r e t)"
proof -
  note refs = may_hold_refs [OF assms(2), THEN conjunct1] may_hold_refs [OF assms(2), THEN conjunct2]
  note [simp] = place_links_simps [OF assms(1) refs]
  have linked: "linked (place_links a r e t) = insert a (linked t)"
    using refs by (auto simp: linked_def placed_def)
  have "p \<in> linked (place_links a r e t)" if "placed (par t) a r e x = Node p" for x p
    using that assms(2) forest_linked [OF assms(1)] unfolding linked by (auto simp: placed_def may_hold_def split: if_splits)
  moreover have "distinct (kids (place_links a r e t) r') \<and> set (kids (place_links a r e t) r') = {x. placed (par t) a r e x = r'}"
    if "r' \<noteq> Unlinked" for r'
  proof -
    have sets: "set (kids t r') = {x. par t x = r'}" "set (kids t r) = {x. par t x = r}"
        "set (nd_children (tr_node t a)) = {x. par t x = Node a}"
      using forest_kids [OF assms(1) that] forest_kids [OF assms(1) refs(1)] forest_kids [OF assms(1), of "Node a"] by simp_all
    have "distinct (kids t r')" "distinct (kids t r)" "distinct (nd_children (tr_node t a))"
      using assms(1) that refs by (simp_all add: forest_def) (metis kids_simps(3) node_ref.distinct(3))
    then show ?thesis
      using that sets refs by (auto simp: Let_def placed_def distinct_removeAll)
  qed
  moreover have "finite (linked (place_links a r e t))"
    using assms(1) unfolding linked by (simp add: forest_def)
  ultimately show ?thesis by (simp add: forest_def)
qed

lemma place_node_ok:
  assumes "forest t" "may_hold t a r" "\<And>c p. par t c = Node p \<Longrightarrow> d p < (d c :: nat)"
    and "rank t a = rank_in t r + 1" "ranked_but (moved t a r e) t"
  shows "\<exists>g. place_node a r e t = Some (with_ranks g (place_links a r e t)) \<and> ranked (with_ranks g (place_links a r e t))"
proof -
  note refs = may_hold_refs [OF assms(2), THEN conjunct1] may_hold_refs [OF assms(2), THEN conjunct2]
  note [simp] = place_links_simps [OF assms(1) refs]
  let ?t = "place_links a r e t"
  let ?U = "under (par ?t) (nd_children (tr_node ?t a))"
  obtain d' :: "nat \<Rightarrow> nat" where d': "placed (par t) a r e c = Node p \<Longrightarrow> d' p < d' c" for c p
    using placed_heights [OF assms(1,2), of d e] assms(3) by metis
  have forest: "forest ?t" by (rule placed_forest [OF assms(1,2)])
  have rank_in: "rank_in ?t r' = rank_in t r'" for r' by (cases r') simp_all
  have kid: "x \<in> ?U" if "placed (par t) a r e x = Node a" for x
    using that forest_children [OF forest] by (simp add: under_self)
  have moved: "x = a \<or> x \<in> ?U" if "x \<in> moved t a r e" for x
    using that unfolding moved_def
  proof (induction rule: under_induct)
    case (base c)
    then have "c = a \<or> placed (par t) a r e c = Node a"
      using forest_kids [OF assms(1) refs(1)] by (auto simp: placed_def split: if_splits)
    then show ?case using kid by blast
  next
    case (step x y)
    show ?case
    proof (cases "x = a \<or> e \<and> par t x = r")
      case True
      then have "x = a \<or> placed (par t) a r e x = Node a" by (auto simp: placed_def)
      then show ?thesis using kid by blast
    next
      case False
      then have "placed (par t) a r e x = Node y" using step(1) by (auto simp: placed_def)
      then show ?thesis using step(3) kid [of x] under_closed [of "par ?t" x y] by fastforce
    qed
  qed
  have "rank t x = rank_in ?t (placed (par t) a r e x) + 1" if x: "x \<in> linked ?t" "x \<notin> ?U" for x
  proof (cases "x = a")
    case True
    then show ?thesis using assms(4) by (simp add: placed_def rank_in)
  next
    case False
    then have x': "x \<notin> moved t a r e" using moved x(2) by blast
    then have "\<not> (e \<and> par t x = r)"
      using forest_kids [OF assms(1) refs(1)] by (auto simp: moved_def under_self)
    then have "placed (par t) a r e x = par t x" using False by (auto simp: placed_def)
    moreover have "x \<in> linked t" using x(1) False calculation by (simp add: linked_def)
    ultimately show ?thesis
      using assms(5) x' by (simp add: ranked_but_def rank_in)
  qed
  then have "ranked_but ?U ?t" by (simp add: ranked_but_def)
  then show ?thesis
    using node_update [OF forest, of d' a] d' unfolding place_node_def by auto
qed

section \<open>Looking for an ancestor\<close>

lemma under_height:
  assumes "x \<in> under P [a]" "\<And>c p. P c = Node p \<Longrightarrow> d p < (d c :: nat)"
  shows "x = a \<or> d a < d x"
  using assms(1)
proof (induction rule: under_induct)
  case (step x y)
  then show ?case using assms(2) [of x y] by auto
qed simp

lemma ranked_less: "forest t \<Longrightarrow> ranked t \<Longrightarrow> par t c = Node p \<Longrightarrow> rank t p < rank t c"
  unfolding ranked_def linked_def by force

lemma is_ancestor_correct:
  assumes "forest t" "ranked t"
  shows "r \<noteq> Unlinked \<Longrightarrow> (\<And>b. r = Node b \<Longrightarrow> b \<in> linked t) \<Longrightarrow>
    is_ancestor t a r = Some (\<exists>b. r = Node b \<and> b \<in> under (par t) [a])"
proof (induction "rank_in t r" arbitrary: r rule: less_induct)
  case less
  show ?case
  proof (cases r)
    case (Node b)
    have b: "b \<in> linked t" using less.prems(2) Node by simp
    have heights: "\<And>c p. par t c = Node p \<Longrightarrow> rank t p < rank t c" by (rule ranked_less [OF assms])
    show ?thesis
    proof (cases "rank t a \<le> rank t b \<and> b \<noteq> a")
      case True
      have "rank_in t (par t b) < rank_in t r" using b assms(2) Node by (simp add: ranked_def)
      moreover have "par t b \<noteq> Unlinked" using b by (simp add: linked_def)
      ultimately have "is_ancestor t a (par t b) = Some (\<exists>c. par t b = Node c \<and> c \<in> under (par t) [a])"
        using less.hyps forest_linked [OF assms(1)] by blast
      moreover have "b \<in> under (par t) [a] \<longleftrightarrow> (\<exists>c. par t b = Node c \<and> c \<in> under (par t) [a])"
        using under_cases [of b "par t" "[a]"] under_closed True by fastforce
      ultimately show ?thesis
        using Node True by (subst is_ancestor.simps) simp
    next
      case False
      then show ?thesis
        using Node under_height [of b "par t" a "rank t"] heights
        by (subst is_ancestor.simps) (auto simp: under_self)
    qed
  qed (use less.prems in \<open>simp_all add: is_ancestor.simps\<close>)
qed

section \<open>Raising the new parent\<close>

lemma upd_rank_simps [simp]:
  "par (upd_node a (\<lambda>n. n\<lparr>nd_rank := k\<rparr>) t) b = par t b"
  "rank (upd_node a (\<lambda>n. n\<lparr>nd_rank := k\<rparr>) t) b = (if b = a then k else rank t b)"
  "label (tr_node (upd_node a (\<lambda>n. n\<lparr>nd_rank := k\<rparr>) t) b) = label (tr_node t b)"
  "kids (upd_node a (\<lambda>n. n\<lparr>nd_rank := k\<rparr>) t) r = kids t r"
  by (simp_all add: upd_rank)

definition raised :: "nat \<Rightarrow> nat \<Rightarrow> 's h2_tree \<Rightarrow> 's h2_tree" where
  "raised a p t =
     (let t = queue_insert_after a p (queue_remove p t); r = nd_parent (tr_node t a)
      in upd_node p (\<lambda>n. n\<lparr>nd_parent := r, nd_rank := (case r of Node b \<Rightarrow> nd_rank (tr_node t b) + 1 | _ \<Rightarrow> 1)\<rparr>) t)"

lemma raise_parent_raised:
  "raise_parent a p exclusive t = (if exclusive then Some (raised a p t) else ngx_http_v2_node_children_update p (raised a p t))"
  by (simp add: raise_parent_def raised_def Let_def)

lemma raised_simps [simp]:
  "par (raised a p t) x = (if x = p then par t a else par t x)"
  "rank (raised a p t) x = (if x = p then rank_in t (par t a) + 1 else rank t x)"
  "label (tr_node (raised a p t) x) = label (tr_node t x)" "frame (raised a p t) = frame t"
  by (auto simp: raised_def Let_def tr_node_upd label_def split: node_ref.split)
     (auto simp: queue_insert_after_def queue_remove_def)

lemma kids_raised: "r \<noteq> Unlinked \<Longrightarrow> kids (raised a p t) r = insert_after a p (removeAll p (kids t r))"
proof -
  assume r: "r \<noteq> Unlinked"
  have "kids (upd_node p (\<lambda>n. n\<lparr>nd_parent := r', nd_rank := k\<rparr>) t') r = kids t' r" for t' :: "'a h2_tree" and r' k
    by (cases r) (auto simp: tr_node_upd kids_def)
  then show ?thesis
    using r by (simp add: raised_def Let_def kids_queue_remove queue_insert_after_def kids_map_kids)
qed

lemma raised_ok:
  assumes "forest t" "ranked t" "a \<in> linked t" "p \<in> under (par t) [a]" "p \<noteq> a"
  shows "forest (raised a p t)" "par (raised a p t) c = Node q \<Longrightarrow> rank t q < rank t c"
    "ranked_but (under (par (raised a p t)) (nd_children (tr_node (raised a p t) p))) (raised a p t)"
    "may_hold (raised a p t) a (Node p)"
proof -
  let ?t = "raised a p t"
  have heights: "\<And>c p. par t c = Node p \<Longrightarrow> rank t p < rank t c" by (rule ranked_less [OF assms(1,2)])
  have p: "par t p \<noteq> Unlinked" using under_cases [OF assms(4)] assms(5) by auto
  have "rank t a < rank t p" using under_height [OF assms(4), of "rank t"] heights assms(5) by blast
  then have a: "par t a \<noteq> Unlinked" "par t a \<noteq> Node p"
    using assms(3) by (auto simp: linked_def dest: heights)
  have linked: "linked ?t = linked t" using a(1) p by (auto simp: linked_def)
  have "distinct (kids ?t r) \<and> set (kids ?t r) = {x. par ?t x = r}" if r: "r \<noteq> Unlinked" for r
  proof -
    have k: "set (kids t r) = {x. par t x = r}" "distinct (kids t r)" using assms(1) r by (simp_all add: forest_def)
    show ?thesis
    proof (cases "r = par t a")
      case True
      then have "a \<in> set (removeAll p (kids t r))" using k assms(5) by simp
      then show ?thesis
        using k True r by (auto simp: kids_raised insert_after_set insert_after_distinct distinct_removeAll)
    next
      case False
      then have "a \<notin> set (removeAll p (kids t r))" using k by simp
      then show ?thesis
        using k False r by (auto simp: kids_raised insert_after_none distinct_removeAll)
    qed
  qed
  moreover have "finite (linked ?t)" using assms(1) unfolding linked by (simp add: forest_def)
  ultimately show forest: "forest ?t"
    using forest_linked [OF assms(1)] unfolding forest_def linked by auto
  show new: "rank t q < rank t c" if "par ?t c = Node q" for c q
    using that heights [of a q] heights [of c q] under_height [OF assms(4), of "rank t"] heights assms(5)
    by (fastforce split: if_splits)
  show "ranked_but (under (par ?t) (nd_children (tr_node ?t p))) ?t"
  proof -
    have "rank ?t x = rank_in ?t (par ?t x) + 1" if x: "x \<in> linked t" "x \<notin> under (par ?t) (nd_children (tr_node ?t p))" for x
    proof (cases "x = p")
      case True
      then show ?thesis using a(2) by (cases "par t a") auto
    next
      case False
      have "par ?t x \<noteq> Node p" using x(2) forest_children [OF forest] by (auto simp: under_self)
      then show ?thesis using False x(1) assms(2) by (cases "par t x") (auto simp: ranked_def)
    qed
    then show ?thesis unfolding ranked_but_def linked by blast
  qed
  have "p \<notin> under (par ?t) [a]"
  proof
    assume "p \<in> under (par ?t) [a]"
    then obtain q where q: "par ?t p = Node q" "q \<in> under (par ?t) [a]"
      using under_cases [of p "par ?t" "[a]"] assms(5) by auto
    then have "rank t q < rank t a" using heights [of a q] by simp
    then show False using under_height [OF q(2), of "rank t"] new by fastforce
  qed
  then show "may_hold ?t a (Node p)" using p linked by (simp add: may_hold_def linked_def)
qed

section \<open>Changing a dependency\<close>

lemma under_unlinked: "forest t \<Longrightarrow> a \<notin> linked t \<Longrightarrow> x \<in> under (par t) [a] \<Longrightarrow> x = a"
proof -
  assume t: "forest t" "a \<notin> linked t"
  assume "x \<in> under (par t) [a]"
  then show "x = a"
  proof (induction rule: under_induct)
    case (step x y)
    then show ?case using forest_linked [OF t(1), of x y] t(2) by simp
  qed simp
qed

lemma place_ranked:
  assumes "forest t" "may_hold t a r" "\<And>c p. par t c = Node p \<Longrightarrow> d p < (d c :: nat)" "ranked_but (moved t a r e) t"
  shows "\<exists>t'. place_node a r e (upd_node a (\<lambda>n. n\<lparr>nd_rank := rank_in t r + 1\<rparr>) t) = Some t' \<and> forest t' \<and> ranked t' \<and>
    par t' = placed (par t) a r e \<and> (\<forall>b. label (tr_node t' b) = label (tr_node t b)) \<and> frame t' = frame t"
proof -
  let ?t = "upd_node a (\<lambda>n. n\<lparr>nd_rank := rank_in t r + 1\<rparr>) t"
  note refs = may_hold_refs [OF assms(2), THEN conjunct1] may_hold_refs [OF assms(2), THEN conjunct2]
  have t: "forest ?t" "may_hold ?t a r" "moved ?t a r e = moved t a r e"
    using assms(1,2) by (simp_all add: upd_rank may_hold_def moved_def)
  have r: "rank ?t a = rank_in ?t r + 1" using refs(2) by (cases r) auto
  have "ranked_but (moved t a r e) ?t"
    unfolding ranked_but_def
  proof
    fix x assume x: "x \<in> linked ?t - moved t a r e"
    have "a \<in> moved t a r e" by (simp add: moved_def under_self)
    then have "x \<noteq> a" "par t x \<noteq> Node a"
      using x under_closed [of "par t" x a] unfolding moved_def by auto
    moreover have "rank t x = rank_in t (par t x) + 1"
      using assms(4) x by (simp add: ranked_but_def upd_rank)
    ultimately show "rank ?t x = rank_in ?t (par ?t x) + 1" by (cases "par t x") auto
  qed
  then obtain g where g: "place_node a r e ?t = Some (with_ranks g (place_links a r e ?t))"
      "ranked (with_ranks g (place_links a r e ?t))"
    using place_node_ok [OF t(1,2), of d e] assms(3) r t(3) by auto
  have "forest (place_links a r e ?t)" by (rule placed_forest [OF t(1,2)])
  then show ?thesis
    using g place_links_simps [OF t(1) refs] by (intro exI [of _ "with_ranks g (place_links a r e ?t)"]) auto
qed

definition dep_par :: "(nat \<Rightarrow> node_ref) \<Rightarrow> nat \<Rightarrow> node_ref \<Rightarrow> bool \<Rightarrow> nat \<Rightarrow> node_ref" where
  "dep_par P a r e =
     placed (case r of Node p \<Rightarrow> if p \<in> under P [a] then P(p := P a) else P | _ \<Rightarrow> P) a r e"

lemma closed_simps [simp]:
  "kids (t\<lparr>tr_closed := c\<rparr>) r = kids t r" "forest (t\<lparr>tr_closed := c\<rparr>) = forest t" "linked (t\<lparr>tr_closed := c\<rparr>) = linked t"
  "moved (t\<lparr>tr_closed := c\<rparr>) a r e = moved t a r e" "may_hold (t\<lparr>tr_closed := c\<rparr>) a r = may_hold t a r"
  "ranked_but D (t\<lparr>tr_closed := c\<rparr>) = ranked_but D t" "ranked (t\<lparr>tr_closed := c\<rparr>) = ranked t"
proof -
  show k: "kids (t\<lparr>tr_closed := c\<rparr>) r = kids t r" for r by (cases r) simp_all
  show l: "linked (t\<lparr>tr_closed := c\<rparr>) = linked t" by (simp add: linked_def)
  show "forest (t\<lparr>tr_closed := c\<rparr>) = forest t" by (simp add: forest_def k l)
  show "moved (t\<lparr>tr_closed := c\<rparr>) a r e = moved t a r e" by (simp add: moved_def k)
  show "may_hold (t\<lparr>tr_closed := c\<rparr>) a r = may_hold t a r" by (simp add: may_hold_def l)
  show "ranked_but D (t\<lparr>tr_closed := c\<rparr>) = ranked_but D t" by (simp add: ranked_but_def l rank_in_def split: node_ref.split)
  then show "ranked (t\<lparr>tr_closed := c\<rparr>) = ranked t"
    by (simp add: ranked_def l rank_in_def split: node_ref.split)
qed

definition dep_closed :: "'s h2_tree \<Rightarrow> node_ref \<Rightarrow> nat list" where
  "dep_closed t r = (case r of Node p \<Rightarrow> if nd_stream (tr_node t p) = None then removeAll p (tr_closed t) @ [p] else tr_closed t
     | _ \<Rightarrow> tr_closed t)"

lemma same_label: "label n = label n' \<Longrightarrow> nd_stream n = nd_stream n' \<and> nd_weight n = nd_weight n' \<and> nd_id n = nd_id n'"
  by (simp add: label_def)

definition dep_target :: "nat \<Rightarrow> 's h2_tree \<Rightarrow> nat \<Rightarrow> node_ref" where
  "dep_target msk t depend = (case (if depend \<noteq> 0 then find_node msk t depend else None) of None \<Rightarrow> Root | Some p \<Rightarrow> Node p)"

lemma set_dependency_ok:
  assumes "forest t" "ranked t" "\<And>p. find_node msk t depend = Some p \<Longrightarrow> p \<in> linked t \<and> p \<noteq> a"
  shows "\<exists>t'. ngx_http_v2_set_dependency msk a depend e t = Some t' \<and> forest t' \<and> ranked t' \<and>
    par t' = dep_par (par t) a (dep_target msk t depend) (e \<and> (depend = 0 \<or> dep_target msk t depend \<noteq> Root)) \<and>
    (\<forall>b. label (tr_node t' b) = label (tr_node t b)) \<and>
    frame t' = (tr_index t, dep_closed t (dep_target msk t depend), tr_closed_nodes t, tr_fresh t)"
proof (cases "if depend \<noteq> 0 then find_node msk t depend else None")
  case None
  then have r: "dep_target msk t depend = Root" by (simp add: dep_target_def)
  have "may_hold t a Root" by (simp add: may_hold_def)
  moreover have "ranked_but (moved t a Root (e \<and> depend = 0)) t"
    using assms(2) by (simp add: ranked_but_def ranked_def)
  ultimately obtain t' where t': "place_node a Root (e \<and> depend = 0) (upd_node a (\<lambda>n. n\<lparr>nd_rank := 1\<rparr>) t) = Some t'"
      "forest t'" "ranked t'" "par t' = placed (par t) a Root (e \<and> depend = 0)"
      "\<forall>b. label (tr_node t' b) = label (tr_node t b)" "frame t' = frame t"
    using place_ranked [OF assms(1), of a Root "rank t" "e \<and> depend = 0"] ranked_less [OF assms(1,2)] by auto
  have "ngx_http_v2_set_dependency msk a depend e t = Some t'"
    unfolding ngx_http_v2_set_dependency_def None using t'(1) by simp
  then show ?thesis
    using t'(2-6) unfolding r by (auto simp: dep_par_def dep_closed_def frame_def)
next
  case (Some p)
  then have r: "dep_target msk t depend = Node p" by (simp add: dep_target_def)
  have p: "p \<in> linked t" "p \<noteq> a" using assms(3) Some by (auto split: if_splits)
  let ?b = "p \<in> under (par t) [a]"
  let ?P = "if ?b then (par t)(p := par t a) else par t"
  have anc: "is_ancestor t a (par t p) = Some ?b" if a: "a \<in> linked t"
  proof -
    have "par t p \<noteq> Unlinked" using p(1) by (simp add: linked_def)
    then have "is_ancestor t a (par t p) = Some (\<exists>b. par t p = Node b \<and> b \<in> under (par t) [a])"
      using is_ancestor_correct [OF assms(1,2)] forest_linked [OF assms(1)] by blast
    moreover have "?b \<longleftrightarrow> (\<exists>b. par t p = Node b \<and> b \<in> under (par t) [a])"
      using under_cases [of p "par t" "[a]"] under_closed p(2) by fastforce
    ultimately show ?thesis by simp
  qed
  have "\<exists>u. (if par t a \<noteq> Unlinked then
             Option.bind (is_ancestor t a (par t p)) (\<lambda>below. if below then raise_parent a p e t else Some t)
           else Some t) = Some u \<and>
      forest u \<and> may_hold u a (Node p) \<and> (\<forall>c q. par u c = Node q \<longrightarrow> rank t q < rank t c) \<and> ranked_but (moved u a (Node p) e) u \<and>
      par u = ?P \<and> (\<forall>b. label (tr_node u b) = label (tr_node t b)) \<and> frame u = frame t" (is "\<exists>u. ?step = _ \<and> ?ok u")
  proof (cases "par t a \<noteq> Unlinked \<and> ?b")
    case False
    then have no: "\<not> ?b" using under_unlinked [OF assms(1), of a p] p(2) by (auto simp: linked_def)
    have "?step = Some t" using anc no by (simp add: linked_def)
    moreover have "may_hold t a (Node p)" using p(1) no by (simp add: may_hold_def)
    moreover have "ranked_but (moved t a (Node p) e) t" using assms(2) by (simp add: ranked_but_def ranked_def)
    ultimately show ?thesis
      using assms(1) no ranked_less [OF assms(1,2)] by (intro exI [of _ t]) simp
  next
    case True
    then have a: "a \<in> linked t" "?b" by (simp_all add: linked_def)
    note raised = raised_ok [OF assms(1,2) a p(2)]
    let ?u = "raised a p t"
    have par: "par ?u = ?P" using a(2) by auto
    show ?thesis
    proof (cases e)
      case True
      have "under (par ?u) (nd_children (tr_node ?u p)) \<subseteq> moved ?u a (Node p) e"
        using True by (auto simp: moved_def under_def)
      then have "ranked_but (moved ?u a (Node p) e) ?u" by (rule ranked_but_mono [OF raised(3)])
      then show ?thesis
        using True a anc par raised(1,2,4) by (intro exI [of _ ?u]) (auto simp: raise_parent_raised linked_def)
    next
      case False
      obtain g where g: "ngx_http_v2_node_children_update p ?u = Some (with_ranks g ?u)" "ranked (with_ranks g ?u)"
        using node_update [OF raised(1), of "rank t" p] raised(2,3) by blast
      have "may_hold (with_ranks g ?u) a (Node p)" using raised(4) by (simp add: may_hold_def)
      moreover have "ranked_but (moved (with_ranks g ?u) a (Node p) e) (with_ranks g ?u)"
        using g(2) by (simp add: ranked_but_def ranked_def)
      ultimately show ?thesis
        using False a anc par raised(1,2) g(1) by (intro exI [of _ "with_ranks g ?u"]) (auto simp: raise_parent_raised linked_def)
    qed
  qed
  then obtain u where u: "?step = Some u" "?ok u" by blast
  define v where "v = (if nd_stream (tr_node u p) = None then u\<lparr>tr_closed := removeAll p (tr_closed u) @ [p]\<rparr> else u)"
  have v: "forest v" "may_hold v a (Node p)" "\<forall>c q. par v c = Node q \<longrightarrow> rank t q < rank t c" "ranked_but (moved v a (Node p) e) v"
      "par v = ?P" "\<forall>b. label (tr_node v b) = label (tr_node t b)" "rank_in v (Node p) = rank_in u (Node p)"
    using u(2) by (simp_all add: v_def)
  have "frame v = (tr_index t, dep_closed t (Node p), tr_closed_nodes t, tr_fresh t)"
    using u(2) same_label [of "tr_node u p" "tr_node t p"] by (auto simp: v_def frame_def dep_closed_def)
  moreover obtain t' where t': "place_node a (Node p) e (upd_node a (\<lambda>n. n\<lparr>nd_rank := rank_in v (Node p) + 1\<rparr>) v) = Some t'"
      "forest t'" "ranked t'" "par t' = placed (par v) a (Node p) e" "\<forall>b. label (tr_node t' b) = label (tr_node v b)" "frame t' = frame v"
    using place_ranked [OF v(1,2), of "rank t" e] v(3,4) by blast
  moreover have "ngx_http_v2_set_dependency msk a depend e t =
      place_node a (Node p) e (upd_node a (\<lambda>n. n\<lparr>nd_rank := rank_in v (Node p) + 1\<rparr>) v)"
  proof -
    have "upd_node a (\<lambda>n. n\<lparr>nd_rank := k\<rparr>) v =
        (let w = upd_node a (\<lambda>n. n\<lparr>nd_rank := k\<rparr>) u
         in if nd_stream (tr_node w p) = None then w\<lparr>tr_closed := removeAll p (tr_closed w) @ [p]\<rparr> else w)" for k
      using p(2) by (simp add: v_def Let_def tr_node_upd) (simp add: upd_node_def)
    then show ?thesis
      unfolding ngx_http_v2_set_dependency_def Some option.case u(1) v(7) by (simp add: Let_def)
  qed
  ultimately show ?thesis
    using v(5,6) unfolding r by (auto simp: dep_par_def)
qed

section \<open>Using the node of a closed stream again\<close>

lemma share_weights_simps:
  "par (share_weights w v r cs t) x = (if x \<in> set cs then r else par t x)" "rank (share_weights w v r cs t) x = rank t x"
  "nd_children (tr_node (share_weights w v r cs t) x) = nd_children (tr_node t x)"
  "nd_id (tr_node (share_weights w v r cs t) x) = nd_id (tr_node t x)"
  "nd_stream (tr_node (share_weights w v r cs t) x) = nd_stream (tr_node t x)" "frame (share_weights w v r cs t) = frame t"
  "tr_dependencies (share_weights w v r cs t) = tr_dependencies t"
  by (induction cs arbitrary: t) (auto simp: share_weights_def share_weight_def tr_node_upd)

lemma shared_weights:
  "x \<notin> set cs \<Longrightarrow> nd_weight (tr_node (share_weights w v r cs t) x) = nd_weight (tr_node t x)"
  "distinct cs \<Longrightarrow> x \<in> set cs \<Longrightarrow> nd_weight (tr_node (share_weights w v r cs t) x) =
     (let k = w * nd_weight (tr_node t x) div v in if k = 0 then 1 else k)"
proof -
  show other: "x \<notin> set cs \<Longrightarrow> nd_weight (tr_node (share_weights w v r cs t) x) = nd_weight (tr_node t x)" for x cs t
    by (induction cs arbitrary: t) (auto simp: share_weights_def share_weight_def tr_node_upd)
  have step: "share_weights w v r (c # cs) t = share_weights w v r cs (share_weight w v r c t)" for c cs t
    by (simp add: share_weights_def)
  show "distinct cs \<Longrightarrow> x \<in> set cs \<Longrightarrow> nd_weight (tr_node (share_weights w v r cs t) x) =
     (let k = w * nd_weight (tr_node t x) div v in if k = 0 then 1 else k)"
    by (induction cs arbitrary: t) (auto simp: step other share_weight_def tr_node_upd Let_def)
qed

definition weights_ok :: "'s h2_tree \<Rightarrow> bool" where
  "weights_ok t \<longleftrightarrow> (\<forall>a \<in> linked t. 1 \<le> nd_weight (tr_node t a) \<and> nd_weight (tr_node t a) \<le> 256)"

lemma shared_weight:
  assumes "w \<le> 256" "v \<le> (total_weight :: nat)"
  shows "1 \<le> (let v = w * v div total_weight in if v = 0 then 1 else v) \<and> (let v = w * v div total_weight in if v = 0 then 1 else v) \<le> 256"
proof -
  have "w * v div total_weight \<le> w"
  proof (cases "total_weight = 0")
    case False
    have "w * v \<le> w * total_weight" using assms(2) by simp
    then have "w * v div total_weight \<le> w * total_weight div total_weight" by (rule div_le_mono)
    then show ?thesis using False by simp
  qed simp
  then show ?thesis using assms(1) by (auto simp: Let_def)
qed

text \<open>A node that is taken out leaves its children to its parent.\<close>

definition removed :: "(nat \<Rightarrow> node_ref) \<Rightarrow> nat \<Rightarrow> nat \<Rightarrow> node_ref" where
  "removed P a x = (if x = a then Unlinked else if P x = Node a then P a else P x)"

lemma get_closed_ok:
  assumes t: "forest t" "ranked t" "weights_ok t" and closed: "tr_closed t = a # closed"
    and a: "a \<in> linked t" "a \<in> set (tr_index t i)" "i = ngx_http_v2_index msk (nd_id (tr_node t a))"
  shows "\<exists>t'. ngx_http_v2_get_closed_node msk t = Some (a, t') \<and> forest t' \<and> ranked t' \<and> weights_ok t' \<and>
    par t' = removed (par t) a \<and> tr_node t' a = blank_node \<and>
    (\<forall>x. x \<noteq> a \<longrightarrow> nd_id (tr_node t' x) = nd_id (tr_node t x) \<and> nd_stream (tr_node t' x) = nd_stream (tr_node t x)) \<and>
    frame t' = ((tr_index t)(i := remove1 a (tr_index t i)), closed, tr_closed_nodes t - 1, tr_fresh t)"
proof -
  let ?r = "par t a"
  define t1 where "t1 = queue_remove a (t\<lparr>tr_closed_nodes := tr_closed_nodes t - 1, tr_closed := closed,
    tr_index := (tr_index t)(i := remove1 a (tr_index t i))\<rparr>)"
  define cs where "cs = nd_children (tr_node t1 a)"
  define w where "w = nd_weight (tr_node t a)"
  define total_weight where "total_weight = sum_list (map (\<lambda>c. nd_weight (tr_node t c)) cs)"
  define t2 where "t2 = share_weights w total_weight ?r cs t1"
  define t3 where "t3 = upd_node a (\<lambda>n. n\<lparr>nd_rank := rank_in t ?r\<rparr>) t2"
  have heights: "\<And>c p. par t c = Node p \<Longrightarrow> rank t p < rank t c" by (rule ranked_less [OF t(1,2)])
  have r: "?r \<noteq> Unlinked" "?r \<noteq> Node a" using a(1) heights [of a a] by (auto simp: linked_def)
  have self: "a \<notin> set (nd_children (tr_node t a))" using r(2) forest_children [OF t(1)] by blast
  have t1: "par t1 x = par t x" "rank t1 x = rank t x" "nd_id (tr_node t1 x) = nd_id (tr_node t x)"
      "nd_stream (tr_node t1 x) = nd_stream (tr_node t x)" "nd_weight (tr_node t1 x) = nd_weight (tr_node t x)"
      "nd_children (tr_node t1 x) = removeAll a (nd_children (tr_node t x))" "tr_dependencies t1 = removeAll a (tr_dependencies t)"
      "frame t1 = ((tr_index t)(i := remove1 a (tr_index t i)), closed, tr_closed_nodes t - 1, tr_fresh t)" for x
    by (simp_all add: t1_def queue_remove_def) (simp add: frame_def)
  have cs: "cs = nd_children (tr_node t a)" "\<And>x. x \<in> set cs \<longleftrightarrow> par t x = Node a" "distinct cs"
  proof -
    show c: "cs = nd_children (tr_node t a)" using self by (simp add: cs_def t1(6))
    show "x \<in> set cs \<longleftrightarrow> par t x = Node a" for x using c forest_children [OF t(1)] by simp
    show "distinct cs" using t(1) c unfolding forest_def by (metis kids_simps(3) node_ref.distinct(3))
  qed
  note t2 = share_weights_simps [of w total_weight ?r cs t1, folded t2_def]
  have rank2: "(case ?r of Node p \<Rightarrow> rank t2 p | _ \<Rightarrow> 0) = rank_in t ?r"
    by (cases ?r) (simp_all add: t2 t1)
  let ?P = "(par t)(a := Unlinked)"
  have P: "x \<in> set (nd_children (tr_node t1 p)) \<longleftrightarrow> ?P x = Node p" for x p
    using forest_children [OF t(1), of x p] by (auto simp: t1)
  have wf: "wf (below ?P)"
  proof -
    have "wf (below (par t))" using t(1) heights by (intro below_wf) (auto simp: forest_def)
    moreover have "below ?P \<subseteq> below (par t)" by (auto simp: below_def split: if_splits)
    ultimately show ?thesis by (rule wf_subset)
  qed
  have children3: "(\<lambda>x. nd_children (tr_node t3 x)) = (\<lambda>x. nd_children (tr_node t1 x))"
    by (simp add: t3_def upd_rank t2)
  have kid: "\<forall>x \<in> set cs. ?P x = Node a" using cs(2) r(2) by auto
  obtain g where g: "children_update a cs t3 = Some (with_ranks g t3)" "reranked ?P a cs (rank t3) g"
    using children_update_reranks [OF wf P children3 kid] by blast
  define t4 where "t4 = with_ranks g t3"
  define t5 where "t5 = upd_node a (\<lambda>_. blank_node) (set_kids ?r (kids t4 ?r @ cs) t4)"
  have not_i: "a \<notin> set (tr_index t i) \<longleftrightarrow> False" "par t a = Unlinked \<longleftrightarrow> False" using a(2) r(1) by simp_all
  have "ngx_http_v2_get_closed_node msk t =
      Option.bind (ngx_http_v2_node_children_update a t3) (\<lambda>t. Some (a, upd_node a (\<lambda>_. blank_node) (set_kids ?r (kids t ?r @ cs) t)))"
    unfolding ngx_http_v2_get_closed_node_def closed list.case Let_def a(3) [symmetric] not_i simp_thms if_False
      t1_def [symmetric] t1(1,5) cs_def [symmetric] w_def [symmetric] total_weight_def [symmetric] t2_def [symmetric]
      rank2 t3_def [symmetric] ..
  moreover have "nd_children (tr_node t3 a) = cs" using fun_cong [OF children3, of a] by (simp add: cs_def)
  ultimately have res: "ngx_http_v2_get_closed_node msk t = Some (a, t5)"
    using g(1) by (simp add: ngx_http_v2_node_children_update_def t5_def t4_def)
  have par: "par t5 = removed (par t) a"
    by (rule ext) (simp add: t5_def t4_def t3_def tr_node_upd upd_rank t2 t1 cs(2) removed_def blank_node_def)
  have par5: "par t5 x = removed (par t) a x" for x using fun_cong [OF par, of x] .
  have label5: "nd_id (tr_node t5 x) = nd_id (tr_node t x)" "nd_stream (tr_node t5 x) = nd_stream (tr_node t x)"
      "nd_weight (tr_node t5 x) = nd_weight (tr_node t2 x)" if "x \<noteq> a" for x
    using that same_label [of "tr_node (set_kids ?r (kids t4 ?r @ cs) t4) x" "tr_node t3 x"]
    by (simp_all add: t5_def t4_def tr_node_upd) (simp_all add: t3_def tr_node_upd t2 t1)
  have frame5: "frame t5 = ((tr_index t)(i := remove1 a (tr_index t i)), closed, tr_closed_nodes t - 1, tr_fresh t)"
    by (simp add: t5_def t4_def t3_def t2 t1)
  have kids4: "kids t4 r' = removeAll a (kids t r')" if "r' \<noteq> Unlinked" for r'
    using that by (cases r') (simp_all add: t4_def t3_def upd_rank t2 t1)
  have kids5: "kids t5 r' = (if r' = Node a then [] else if r' = ?r then removeAll a (kids t ?r) @ cs else removeAll a (kids t r'))"
    if "r' \<noteq> Unlinked" for r'
  proof -
    have "kids t5 r' = (if r' = Node a then [] else kids (set_kids ?r (kids t4 ?r @ cs) t4) r')"
      using that by (cases r') (simp_all add: t5_def tr_node_upd blank_node_def)
    then show ?thesis using that r by (simp add: kids_set_kids kids4)
  qed
  have linked5: "linked t5 = linked t - {a}"
    using r(1) by (auto simp: linked_def par5 removed_def)
  have "distinct (kids t5 r') \<and> set (kids t5 r') = {x. removed (par t) a x = r'}" if r': "r' \<noteq> Unlinked" for r'
  proof -
    have k: "set (kids t r') = {x. par t x = r'}" "distinct (kids t r')" "set (kids t ?r) = {x. par t x = ?r}" "distinct (kids t ?r)"
      using t(1) r' r(1) by (simp_all add: forest_def)
    show ?thesis
      unfolding kids5 [OF r'] using k cs(2,3) r r' by (auto simp: removed_def distinct_removeAll)
  qed
  moreover have "finite (linked t5)" using t(1) linked5 by (simp add: forest_def)
  moreover have "p \<in> linked t5" if "removed (par t) a x = Node p" for x p
    using that forest_linked [OF t(1), of x p] forest_linked [OF t(1), of a p] r(2) unfolding linked5
    by (auto simp: removed_def split: if_splits)
  ultimately have forest: "forest t5" unfolding forest_def par5 by blast
  have out: "b \<notin> under ?P cs" if "?r = Node b" for b
  proof
    assume "b \<in> under ?P cs"
    then have "rank t a < rank t b"
    proof (induction rule: under_induct)
      case (base c)
      then show ?case using cs(2) heights by simp
    next
      case (step x y)
      then show ?case using heights [of x y] by (auto split: if_splits)
    qed
    then show False using heights [OF that] by simp
  qed
  have f3: "rank t3 x = (if x = a then rank_in t ?r else rank t x)" for x by (simp add: t3_def t2 t1)
  have a_out: "a \<notin> under ?P cs" using kid by (intro not_under [OF wf]) simp
  have g_out: "g x = rank t x" if "x \<noteq> a" "x \<notin> under ?P cs" for x
    using that g(2) by (simp add: reranked_def f3)
  have rank5: "rank t5 x = g x" if "x \<noteq> a" for x using that by (simp add: t5_def t4_def tr_node_upd)
  have "rank t5 x = rank_in t5 (removed (par t) a x) + 1" if x: "x \<in> linked t5" for x
  proof -
    have xa: "x \<noteq> a" "x \<in> linked t" using x linked5 by simp_all
    have ra: "rank_in t5 ?r = rank_in t ?r"
      using out g_out rank5 r(2) by (cases ?r) auto
    show ?thesis
    proof (cases "x \<in> under ?P cs")
      case True
      then obtain y where y: "?P x = Node y" "g x = g y + 1" using g(2) unfolding reranked_def by blast
      show ?thesis
      proof (cases "y = a")
        case True
        then have "g y = rank_in t ?r" using a_out g(2) f3 [of a] by (simp add: reranked_def)
        then show ?thesis using y xa True rank5 [OF xa(1)] ra by (simp add: removed_def)
      next
        case False
        then show ?thesis using y xa rank5 by (simp add: removed_def)
      qed
    next
      case False
      have "par t x \<noteq> Node a" using False cs(2) by (auto simp: under_self)
      then have "removed (par t) a x = par t x" using xa(1) by (simp add: removed_def)
      moreover have "rank_in t5 (par t x) = rank_in t (par t x)"
      proof (cases "par t x")
        case (Node y)
        then have "y \<notin> under ?P cs" "y \<noteq> a"
          using False \<open>par t x \<noteq> Node a\<close> xa(1) under_closed [of ?P x y cs] by auto
        then show ?thesis using Node g_out rank5 by simp
      qed simp_all
      ultimately show ?thesis
        using rank5 [OF xa(1)] g_out [OF xa(1) False] xa(2) t(2) by (simp add: ranked_def)
    qed
  qed
  then have ranked: "ranked t5" by (simp add: ranked_def par5)
  have "1 \<le> nd_weight (tr_node t5 x) \<and> nd_weight (tr_node t5 x) \<le> 256" if x: "x \<in> linked t5" for x
  proof -
    have xa: "x \<noteq> a" "x \<in> linked t" using x linked5 by simp_all
    show ?thesis
    proof (cases "x \<in> set cs")
      case True
      have "nd_weight (tr_node t x) \<le> total_weight"
        using True member_le_sum_list [of "nd_weight (tr_node t x)" "map (\<lambda>c. nd_weight (tr_node t c)) cs"]
        by (simp add: total_weight_def)
      moreover have "w \<le> 256" using t(3) a(1) by (simp add: weights_ok_def w_def)
      ultimately show ?thesis
        unfolding label5(3) [OF xa(1)] t2_def shared_weights(2) [OF cs(3) True] t1(5) by (intro shared_weight)
    next
      case False
      then show ?thesis
        unfolding label5(3) [OF xa(1)] t2_def shared_weights(1) [OF False] t1(5)
        using t(3) xa(2) by (simp add: weights_ok_def)
    qed
  qed
  then have "weights_ok t5" by (simp add: weights_ok_def)
  moreover have "tr_node t5 a = blank_node" by (simp add: t5_def tr_node_upd)
  ultimately show ?thesis
    using res forest ranked par label5 frame5 by blast
qed

section \<open>The whole tree\<close>

definition live :: "'s h2_tree \<Rightarrow> nat set" where
  "live t = (\<Union>i. set (tr_index t i))"

definition indexed :: "nat \<Rightarrow> 's h2_tree \<Rightarrow> bool" where
  "indexed msk t \<longleftrightarrow> (\<forall>i. distinct (tr_index t i) \<and> (\<forall>a \<in> set (tr_index t i). ngx_http_v2_index msk (nd_id (tr_node t a)) = i)) \<and>
     inj_on (\<lambda>a. nd_id (tr_node t a)) (live t) \<and> (\<forall>a \<in> live t. nd_id (tr_node t a) \<noteq> 0)"

text \<open>
  The tree with the node \<open>a\<close> perhaps not yet in it: the links and ranks, weights and index, and the queue of the
  nodes without stream with its counter of eight bits.
\<close>

definition tree_with :: "nat \<Rightarrow> nat set \<Rightarrow> 's h2_tree \<Rightarrow> bool" where
  "tree_with msk A t \<longleftrightarrow> forest t \<and> ranked t \<and> weights_ok t \<and> indexed msk t \<and> live t = linked t \<union> A \<and>
     distinct (tr_closed t) \<and> set (tr_closed t) = {a \<in> linked t. nd_stream (tr_node t a) = None} \<and>
     tr_closed_nodes t = word_of_nat (length (tr_closed t)) \<and> (\<forall>a. tr_fresh t \<le> a \<longrightarrow> a \<notin> live t)"

definition tree_ok :: "nat \<Rightarrow> 's h2_tree \<Rightarrow> bool" where
  "tree_ok msk t \<longleftrightarrow> tree_with msk {} t"

lemma find_node_iff: "indexed msk t \<Longrightarrow> find_node msk t sid = Some a \<longleftrightarrow> a \<in> live t \<and> nd_id (tr_node t a) = sid"
proof -
  assume t: "indexed msk t"
  have "a = b" if "a \<in> live t" "b \<in> live t" "nd_id (tr_node t a) = nd_id (tr_node t b)" for a b
    using t that by (auto simp: indexed_def dest: inj_onD)
  moreover have "a \<in> live t \<and> nd_id (tr_node t a) = sid" if "find_node msk t sid = Some a" for a
    using that unfolding find_node_def live_def find_Some_iff by (metis UN_iff UNIV_I nth_mem)
  moreover have "find_node msk t sid \<noteq> None" if a: "a \<in> live t" "nd_id (tr_node t a) = sid"
  proof -
    obtain i where "a \<in> set (tr_index t i)" using a(1) by (auto simp: live_def)
    moreover from this have "ngx_http_v2_index msk sid = i" using t a(2) by (auto simp: indexed_def)
    ultimately show ?thesis using a(2) by (auto simp: find_node_def find_None_iff)
  qed
  ultimately show ?thesis by (metis not_None_eq)
qed

lemma tree_ok_empty: "tree_ok msk new_tree"
  by (auto simp: tree_ok_def tree_with_def new_tree_def blank_node_def forest_def ranked_def weights_ok_def indexed_def
      live_def linked_def kids_def split: node_ref.split)

lemma tree_ok_closed_pos:
  assumes "tree_ok msk t" "\<not> tr_closed_nodes t < 32"
  obtains a closed where "tr_closed t = a # closed"
  using assms by (cases "tr_closed t") (auto simp: tree_ok_def tree_with_def)

lemma live_frame: "frame t' = (idx, c, k, n) \<Longrightarrow> live t' = (\<Union>i. set (idx i))"
  by (simp add: frame_def live_def)

text \<open>Taking the node of a closed stream out of the tree.\<close>

lemma get_closed_tree:
  assumes "tree_ok msk t" "tr_closed t = a # closed"
  shows "\<exists>t'. ngx_http_v2_get_closed_node msk t = Some (a, t') \<and> tree_ok msk t' \<and> par t' = removed (par t) a \<and>
    tr_node t' a = blank_node \<and> a \<in> linked t \<and> linked t' = linked t - {a} \<and> tr_closed t' = closed \<and> tr_fresh t' = tr_fresh t \<and>
    (\<forall>x. x \<noteq> a \<longrightarrow> nd_id (tr_node t' x) = nd_id (tr_node t x) \<and> nd_stream (tr_node t' x) = nd_stream (tr_node t x))"
proof -
  have t: "forest t" "ranked t" "weights_ok t" "indexed msk t" "live t = linked t" "distinct (a # closed)"
      "set (a # closed) = {x \<in> linked t. nd_stream (tr_node t x) = None}" "tr_closed_nodes t = word_of_nat (Suc (length closed))"
      "\<forall>x. tr_fresh t \<le> x \<longrightarrow> x \<notin> live t"
    using assms by (auto simp: tree_ok_def tree_with_def)
  have a: "a \<in> linked t" using t(7) by auto
  then obtain i where i: "a \<in> set (tr_index t i)" using t(5) by (auto simp: live_def)
  then have idx: "i = ngx_http_v2_index msk (nd_id (tr_node t a))" using t(4) by (auto simp: indexed_def)
  obtain t' where t': "ngx_http_v2_get_closed_node msk t = Some (a, t')" "forest t'" "ranked t'" "weights_ok t'"
      "par t' = removed (par t) a" "tr_node t' a = blank_node"
      "\<forall>x. x \<noteq> a \<longrightarrow> nd_id (tr_node t' x) = nd_id (tr_node t x) \<and> nd_stream (tr_node t' x) = nd_stream (tr_node t x)"
      "frame t' = ((tr_index t)(i := remove1 a (tr_index t i)), closed, tr_closed_nodes t - 1, tr_fresh t)"
    using get_closed_ok [OF t(1-3) assms(2) a i idx] by blast
  have linked: "linked t' = linked t - {a}"
    using a fun_cong [OF t'(5)] by (auto simp: linked_def removed_def)
  have only: "a \<notin> set (tr_index t j)" if "j \<noteq> i" for j
    using that t(4) idx by (auto simp: indexed_def)
  have d: "distinct (tr_index t j)" for j using t(4) by (simp add: indexed_def)
  have idx': "set (((tr_index t)(i := remove1 a (tr_index t i))) j) = set (tr_index t j) - {a}" for j
    using only [of j] d [of i] by (auto simp: set_remove1_eq)
  have live: "live t' = live t - {a}"
    unfolding live_frame [OF t'(8)] using idx' by (auto simp: live_def)
  have "indexed msk t'"
  proof -
    have "tr_index t' = (tr_index t)(i := remove1 a (tr_index t i))" using t'(8) by (simp add: frame_def)
    then have "set (tr_index t' j) = set (tr_index t j) - {a}" "distinct (tr_index t' j)" for j
      using idx' [of j] d by (simp_all add: distinct_remove1)
    moreover have "inj_on (\<lambda>x. nd_id (tr_node t' x)) (live t')"
    proof -
      have "inj_on (\<lambda>x. nd_id (tr_node t x)) (live t - {a})"
        using t(4) unfolding indexed_def by (meson Diff_subset inj_on_subset)
      then show ?thesis unfolding live using t'(7) by (subst inj_on_cong) auto
    qed
    moreover have "\<forall>x \<in> live t'. nd_id (tr_node t' x) \<noteq> 0" using t(4) t'(7) by (auto simp: live indexed_def)
    moreover have "\<forall>j. \<forall>x \<in> set (tr_index t j) - {a}. ngx_http_v2_index msk (nd_id (tr_node t' x)) = j"
      using t(4) t'(7) by (auto simp: indexed_def)
    ultimately show ?thesis
      unfolding indexed_def by (simp del: Diff_iff)
  qed
  moreover have "set closed = {x \<in> linked t'. nd_stream (tr_node t' x) = None}"
  proof -
    have "set closed = {x \<in> linked t. nd_stream (tr_node t x) = None} - {a}"
      using t(6) unfolding t(7) [symmetric] by simp
    also have "\<dots> = {x \<in> linked t'. nd_stream (tr_node t' x) = None}" unfolding linked using t'(7) by auto
    finally show ?thesis .
  qed
  moreover have "tr_closed_nodes t - 1 = word_of_nat (length closed)" using t(8) by simp
  ultimately have "tree_ok msk t'"
    using t'(2-4,8) t(5,6,9) live linked by (auto simp: tree_ok_def tree_with_def frame_def)
  then show ?thesis using t' a linked by (auto simp: frame_def)
qed

section \<open>The dependencies by stream identifiers\<close>

text \<open>The stream that each stream depends on, 0 for the root.\<close>

definition ref_id :: "'s h2_tree \<Rightarrow> node_ref \<Rightarrow> nat" where
  "ref_id t r = (case r of Node p \<Rightarrow> nd_id (tr_node t p) | _ \<Rightarrow> 0)"

definition deps :: "nat \<Rightarrow> 's h2_tree \<Rightarrow> nat \<Rightarrow> nat option" where
  "deps msk t sid =
     (case find_node msk t sid of
        None \<Rightarrow> None
      | Some a \<Rightarrow> if par t a = Unlinked then None else Some (ref_id t (par t a)))"

definition findable :: "nat \<Rightarrow> 's h2_tree \<Rightarrow> bool" where
  "findable msk t \<longleftrightarrow> indexed msk t \<and> linked t \<subseteq> live t"

lemma tree_with_findable: "tree_with msk A t \<Longrightarrow> findable msk t"
  by (auto simp: findable_def tree_with_def)

lemma deps_iff:
  assumes "findable msk t"
  shows "deps msk t sid = Some v \<longleftrightarrow> (\<exists>a \<in> linked t. nd_id (tr_node t a) = sid \<and> v = ref_id t (par t a))"
proof -
  have idx: "indexed msk t" "linked t \<subseteq> live t" using assms by (auto simp: findable_def)
  show ?thesis
  proof (cases "find_node msk t sid")
    case None
    then have "\<not> (\<exists>a \<in> linked t. nd_id (tr_node t a) = sid)"
      using find_node_iff [OF idx(1)] idx(2) by (metis option.distinct(1) subsetD)
    then show ?thesis using None by (auto simp: deps_def)
  next
    case (Some a)
    then have only: "b = a" if "b \<in> linked t" "nd_id (tr_node t b) = sid" for b
      using that find_node_iff [OF idx(1), of sid b] idx(2) by auto
    have id: "nd_id (tr_node t a) = sid" using Some find_node_iff [OF idx(1)] by blast
    have "(\<exists>b \<in> linked t. nd_id (tr_node t b) = sid \<and> v = ref_id t (par t b)) \<longleftrightarrow> a \<in> linked t \<and> v = ref_id t (par t a)"
      using only id by metis
    moreover have "deps msk t sid = Some v \<longleftrightarrow> a \<in> linked t \<and> v = ref_id t (par t a)"
      by (auto simp: deps_def Some linked_def)
    ultimately show ?thesis by simp
  qed
qed

lemma deps_eqI:
  assumes "findable msk t" "\<And>a. a \<in> linked t \<Longrightarrow> m (nd_id (tr_node t a)) = Some (ref_id t (par t a))"
    and "\<And>sid. (\<And>a. a \<in> linked t \<Longrightarrow> nd_id (tr_node t a) \<noteq> sid) \<Longrightarrow> m sid = None"
  shows "deps msk t = m"
proof
  fix sid
  show "deps msk t sid = m sid"
  proof (cases "\<exists>a \<in> linked t. nd_id (tr_node t a) = sid")
    case True
    then show ?thesis using deps_iff [OF assms(1), of sid] assms(2) by auto
  next
    case False
    then have "deps msk t sid = None" using deps_iff [OF assms(1), of sid] by (metis not_None_eq)
    then show ?thesis using assms(3) False by auto
  qed
qed

text \<open>RFC 7540: the end of a stream that is forgotten (5.3.4), a new dependency (5.3.1, 5.3.3).\<close>

definition rfc_forget :: "(nat \<Rightarrow> nat option) \<Rightarrow> nat \<Rightarrow> nat \<Rightarrow> nat option" where
  "rfc_forget m s x = (if x = s then None else if m x = Some s then m s else m x)"

definition depends_on :: "(nat \<Rightarrow> nat option) \<Rightarrow> (nat \<times> nat) set" where
  "depends_on m = {(x, y). m x = Some y}"

definition rfc_depend :: "(nat \<Rightarrow> nat option) \<Rightarrow> nat \<Rightarrow> nat \<Rightarrow> bool \<Rightarrow> nat \<Rightarrow> nat option" where
  "rfc_depend m s depend exclusive =
     (let d = (if depend \<in> dom m then depend else 0);
          m = (if (d, s) \<in> (depends_on m)\<^sup>+ then m(d := m s) else m);
          m = (if exclusive \<and> d = depend then (\<lambda>x. if m x = Some d then Some s else m x) else m)
      in m(s \<mapsto> d))"

lemma get_closed_deps:
  assumes "tree_ok msk t" "tr_closed t = a # closed" "ngx_http_v2_get_closed_node msk t = Some (a, t')"
  shows "deps msk t' = rfc_forget (deps msk t) (nd_id (tr_node t a))"
proof -
  obtain u where u: "ngx_http_v2_get_closed_node msk t = Some (a, u)" "tree_ok msk u" "par u = removed (par t) a"
      "a \<in> linked t" "linked u = linked t - {a}" "\<forall>x. x \<noteq> a \<longrightarrow> nd_id (tr_node u x) = nd_id (tr_node t x)"
    using get_closed_tree [OF assms(1,2)] by blast
  then have [simp]: "u = t'" using assms(3) by simp
  have ok: "tree_with msk {} t" "tree_with msk {} t'" using assms(1) u(2) by (simp_all add: tree_ok_def)
  note fok = tree_with_findable [OF ok(1)] tree_with_findable [OF ok(2)]
  have inj: "b = c" if "b \<in> linked t" "c \<in> linked t" "nd_id (tr_node t b) = nd_id (tr_node t c)" for b c
    using ok(1) that by (auto simp: tree_with_def indexed_def dest: inj_onD)
  have nz: "nd_id (tr_node t b) \<noteq> 0" if "b \<in> linked t" for b using ok(1) that by (auto simp: tree_with_def indexed_def)
  have old: "deps msk t (nd_id (tr_node t b)) = Some (ref_id t (par t b))" if "b \<in> linked t" for b
    using deps_iff [OF fok(1), of "nd_id (tr_node t b)"] that by auto
  have forest: "forest t" "ranked t" using ok(1) by (simp_all add: tree_with_def)
  have self: "par t a \<noteq> Node a" using ranked_less [OF forest, of a a] by auto
  show ?thesis
  proof (rule deps_eqI [OF fok(2)])
    fix b assume b: "b \<in> linked t'"
    then have b': "b \<in> linked t" "b \<noteq> a" using u(5) by auto
    have id: "nd_id (tr_node t' b) = nd_id (tr_node t b)" using u(6) b'(2) by simp
    have par': "par t' b = (if par t b = Node a then par t a else par t b)"
      using fun_cong [OF u(3), of b] b'(2) by (simp add: removed_def)
    have same: "ref_id t' r = ref_id t r" if "r \<noteq> Node a" for r
      using that u(6) by (cases r) (auto simp: ref_id_def)
    have "ref_id t (par t b) = nd_id (tr_node t a) \<longleftrightarrow> par t b = Node a"
      using inj [of _ a] nz [OF u(4)] u(4) forest_linked [OF forest(1), of b]
      by (cases "par t b") (auto simp: ref_id_def)
    then show "rfc_forget (deps msk t) (nd_id (tr_node t a)) (nd_id (tr_node t' b)) = Some (ref_id t' (par t' b))"
      using old [OF b'(1)] old [OF u(4)] inj [OF b'(1) u(4)] b'(2) same self
      by (auto simp: rfc_forget_def id par')
  next
    fix sid assume none: "\<And>b. b \<in> linked t' \<Longrightarrow> nd_id (tr_node t' b) \<noteq> sid"
    have "deps msk t sid = None" if "sid \<noteq> nd_id (tr_node t a)"
    proof -
      have "nd_id (tr_node t b) \<noteq> sid" if "b \<in> linked t" for b
        using none [of b] that \<open>sid \<noteq> _\<close> u(5,6) by (cases "b = a") auto
      then show ?thesis using deps_iff [OF fok(1), of sid] by (metis not_None_eq)
    qed
    then show "rfc_forget (deps msk t) (nd_id (tr_node t a)) sid = None" by (simp add: rfc_forget_def)
  qed
qed

lemma links_cong:
  assumes "forest t" "ranked t" "weights_ok t" "\<And>x. par t' x = par t x" "\<And>r. kids t' r = kids t r"
    "\<And>x. x \<in> linked t \<Longrightarrow> tr_node t' x = tr_node t x"
  shows "forest t'" "ranked t'" "weights_ok t'" "linked t' = linked t" "x \<in> linked t \<Longrightarrow> ref_id t' (par t x) = ref_id t (par t x)"
proof -
  show linked: "linked t' = linked t" by (simp add: linked_def assms(4))
  show "forest t'" using assms(1) by (simp add: forest_def linked assms(4,5))
  have "rank_in t' (par t x) = rank_in t (par t x)" for x
    using assms(6) forest_linked [OF assms(1), of x] by (cases "par t x") auto
  then show "ranked t'" using assms(2,6) by (simp add: ranked_def linked assms(4))
  show "weights_ok t'" using assms(3,6) by (simp add: weights_ok_def linked)
  show "x \<in> linked t \<Longrightarrow> ref_id t' (par t x) = ref_id t (par t x)"
    using assms(6) forest_linked [OF assms(1), of x] by (cases "par t x") (auto simp: ref_id_def)
qed

lemma deps_cong:
  assumes "findable msk t" "findable msk t'" "linked t' = linked t"
    "\<And>x. x \<in> linked t \<Longrightarrow> nd_id (tr_node t' x) = nd_id (tr_node t x) \<and> ref_id t' (par t' x) = ref_id t (par t x)"
  shows "deps msk t' = deps msk t"
proof (rule deps_eqI [OF assms(2)])
  fix x assume "x \<in> linked t'"
  then show "deps msk t (nd_id (tr_node t' x)) = Some (ref_id t' (par t' x))"
    using deps_iff [OF assms(1)] assms(3,4) by auto
next
  fix sid assume "\<And>x. x \<in> linked t' \<Longrightarrow> nd_id (tr_node t' x) \<noteq> sid"
  then show "deps msk t sid = None"
    using deps_iff [OF assms(1), of sid] assms(3,4) by (metis not_None_eq)
qed

lemma tree_ok_cong:
  assumes "tree_ok msk t" "\<And>x. par t' x = par t x" "\<And>r. kids t' r = kids t r" "\<And>x. x \<in> linked t \<Longrightarrow> tr_node t' x = tr_node t x"
    and "tr_index t' = tr_index t" "tr_closed t' = tr_closed t" "tr_closed_nodes t' = tr_closed_nodes t" "tr_fresh t \<le> tr_fresh t'"
  shows "tree_ok msk t'" "deps msk t' = deps msk t" "linked t' = linked t"
proof -
  have t: "tree_with msk {} t" using assms(1) by (simp add: tree_ok_def)
  then have "forest t" "ranked t" "weights_ok t" and ll: "live t = linked t" by (simp_all add: tree_with_def)
  note links = links_cong [OF this(1-3) assms(2-4)]
  show "linked t' = linked t" by (rule links)
  have live: "live t' = live t" by (simp add: live_def assms(5))
  have "indexed msk t'"
  proof -
    have same: "nd_id (tr_node t' x) = nd_id (tr_node t x)" if "x \<in> live t" for x using that assms(4) ll by simp
    then have "inj_on (\<lambda>x. nd_id (tr_node t' x)) (live t) = inj_on (\<lambda>x. nd_id (tr_node t x)) (live t)"
      by (rule inj_on_cong)
    moreover have "x \<in> live t" if "x \<in> set (tr_index t i)" for x i using that by (auto simp: live_def)
    ultimately show ?thesis
      using t same by (simp add: tree_with_def indexed_def live assms(5) ll)
  qed
  moreover have "{x \<in> linked t. nd_stream (tr_node t' x) = None} = {x \<in> linked t. nd_stream (tr_node t x) = None}"
    using assms(4) by auto
  ultimately show ok: "tree_ok msk t'"
    using t assms(5-8) links(1-4) by (auto simp: tree_ok_def tree_with_def live)
  show "deps msk t' = deps msk t"
    using t ok assms(2,4) links(4,5) deps_cong [OF tree_with_findable tree_with_findable, of msk "{}" t "{}" t'] by (simp add: tree_ok_def)
qed

section \<open>The node of a stream\<close>

lemma tr_node_enter: "tr_node (enter_node msk sid a t) x =
    (if x = a then (tr_node t a)\<lparr>nd_id := sid, nd_children := []\<rparr> else tr_node t x)"
  by (simp add: enter_node_def Let_def tr_node_upd)

lemma unlinked_leaf: "forest t \<Longrightarrow> a \<notin> linked t \<Longrightarrow> nd_children (tr_node t a) = []"
proof -
  assume t: "forest t" "a \<notin> linked t"
  have "set (nd_children (tr_node t a)) = {}"
    using forest_kids [OF t(1), of "Node a"] forest_linked [OF t(1)] t(2) by auto
  then show ?thesis by simp
qed

lemma enter_tree:
  assumes "tree_ok msk t" "a \<notin> linked t" "tr_node t a = blank_node" "a < tr_fresh t" "sid \<noteq> 0"
    and new: "\<And>x. x \<in> linked t \<Longrightarrow> nd_id (tr_node t x) \<noteq> sid"
  shows "tree_with msk {a} (enter_node msk sid a t)" "deps msk (enter_node msk sid a t) = deps msk t"
    "linked (enter_node msk sid a t) = linked t"
proof -
  let ?t = "enter_node msk sid a t"
  have t: "tree_with msk {} t" using assms(1) by (simp add: tree_ok_def)
  then have "forest t" "ranked t" "weights_ok t" and ll: "live t = linked t" and idx: "indexed msk t" by (simp_all add: tree_with_def)
  have "par ?t x = par t x" "kids ?t r = kids t r" for x r
    using assms(3) by (auto simp: tr_node_enter) (cases r; auto simp: tr_node_upd enter_node_def Let_def blank_node_def)
  moreover have same: "tr_node ?t x = tr_node t x" if "x \<in> linked t" for x using that assms(2) by (auto simp: tr_node_enter)
  ultimately have links: "forest ?t" "ranked ?t" "weights_ok ?t" "linked ?t = linked t"
      "\<And>x. x \<in> linked t \<Longrightarrow> ref_id ?t (par ?t x) = ref_id t (par t x)"
    using links_cong [OF \<open>forest t\<close> \<open>ranked t\<close> \<open>weights_ok t\<close>, of ?t] by simp_all
  have index: "tr_index ?t = (tr_index t)(ngx_http_v2_index msk sid := a # tr_index t (ngx_http_v2_index msk sid))"
    by (simp add: enter_node_def Let_def)
  then have live: "live ?t = insert a (live t)" by (auto simp: live_def split: if_splits)
  have out: "a \<notin> set (tr_index t i)" for i using assms(2) ll by (auto simp: live_def)
  have lv: "x \<in> linked t" if "x \<in> set (tr_index t i)" for x i using that ll by (auto simp: live_def)
  have a: "nd_id (tr_node ?t a) = sid" by (simp add: tr_node_enter)
  have "inj_on (\<lambda>x. nd_id (tr_node ?t x)) (insert a (linked t))"
    using idx new a same assms(2) unfolding indexed_def ll inj_on_def by (metis insert_iff)
  moreover have "distinct (tr_index ?t i) \<and> (\<forall>x \<in> set (tr_index ?t i). ngx_http_v2_index msk (nd_id (tr_node ?t x)) = i)" for i
    using idx out a same [OF lv] by (auto simp: index indexed_def)
  ultimately have "indexed msk ?t"
    using idx a same assms(5) by (simp add: indexed_def live ll)
  moreover have "{x \<in> linked t. nd_stream (tr_node ?t x) = None} = {x \<in> linked t. nd_stream (tr_node t x) = None}"
    using same by auto
  moreover have "tr_closed ?t = tr_closed t" "tr_closed_nodes ?t = tr_closed_nodes t" "tr_fresh ?t = tr_fresh t"
    by (simp_all add: enter_node_def Let_def)
  ultimately show entered: "tree_with msk {a} ?t"
    using t links(1-4) live assms(4) by (auto simp: tree_with_def)
  show "linked ?t = linked t" by (rule links)
  show "deps msk ?t = deps msk t"
    using entered t links(4,5) same deps_cong [OF tree_with_findable tree_with_findable, of msk "{}" t "{a}" ?t] by simp
qed

section \<open>A new dependency, by stream identifiers\<close>

lemma ids_inj: "indexed msk t \<Longrightarrow> a \<in> live t \<Longrightarrow> b \<in> live t \<Longrightarrow> nd_id (tr_node t a) = nd_id (tr_node t b) \<longleftrightarrow> a = b"
  by (auto simp: indexed_def dest: inj_onD)

definition proper_ref :: "'s h2_tree \<Rightarrow> node_ref \<Rightarrow> bool" where
  "proper_ref t r \<longleftrightarrow> r = Root \<or> (\<exists>p \<in> live t. r = Node p)"

lemma ref_id_inj: "indexed msk t \<Longrightarrow> proper_ref t r \<Longrightarrow> proper_ref t r' \<Longrightarrow> ref_id t r = ref_id t r' \<longleftrightarrow> r = r'"
  using ids_inj [of msk t] by (auto simp: proper_ref_def ref_id_def) (auto simp: indexed_def)

lemma proper_ref_par: "forest t \<Longrightarrow> linked t \<subseteq> live t \<Longrightarrow> a \<in> linked t \<Longrightarrow> proper_ref t (par t a)"
  using forest_linked [of t a] by (cases "par t a") (auto simp: proper_ref_def linked_def)

lemma deps_linked: "findable msk t \<Longrightarrow> a \<in> linked t \<Longrightarrow> deps msk t (nd_id (tr_node t a)) = Some (ref_id t (par t a))"
  using deps_iff [of msk t "nd_id (tr_node t a)"] by auto

lemma deps_dom: "findable msk t \<Longrightarrow> sid \<in> dom (deps msk t) \<longleftrightarrow> (\<exists>a \<in> linked t. nd_id (tr_node t a) = sid)"
  using deps_iff [of msk t sid] by (auto simp: dom_def)

lemma depends_on_under:
  assumes "findable msk t" "forest t" "a \<in> live t" "x \<in> linked t"
  shows "(nd_id (tr_node t x), nd_id (tr_node t a)) \<in> (depends_on (deps msk t))\<^sup>+ \<longleftrightarrow> (\<exists>y. par t x = Node y \<and> y \<in> under (par t) [a])"
proof
  have idx: "indexed msk t" "linked t \<subseteq> live t" using assms(1) by (simp_all add: findable_def)
  have edge: "(nd_id (tr_node t x), nd_id (tr_node t y)) \<in> depends_on (deps msk t)" if "par t x = Node y" for x y
    using deps_linked [OF assms(1), of x] that by (simp add: depends_on_def linked_def ref_id_def)
  show "(nd_id (tr_node t x), nd_id (tr_node t a)) \<in> (depends_on (deps msk t))\<^sup>+" if "\<exists>y. par t x = Node y \<and> y \<in> under (par t) [a]"
  proof -
    have "par t x = Node y \<longrightarrow> (nd_id (tr_node t x), nd_id (tr_node t a)) \<in> (depends_on (deps msk t))\<^sup>+"
      if "y \<in> under (par t) [a]" for x y
      using that
    proof (induction arbitrary: x rule: under_induct)
      case (base c)
      then show ?case using edge by auto
    next
      case (step y z)
      then show ?case using edge [of x y] by (meson trancl_into_trancl2)
    qed
    then show ?thesis using that by blast
  qed
  have conv: "(\<exists>y. par t x = Node y \<and> y \<in> under (par t) [a])"
    if "(u, nd_id (tr_node t a)) \<in> (depends_on (deps msk t))\<^sup>+" "x \<in> linked t" "nd_id (tr_node t x) = u" for u x
    using that
  proof (induction arbitrary: x rule: converse_trancl_induct)
    case (base u)
    then have "ref_id t (par t x) = ref_id t (Node a)"
      using deps_linked [OF assms(1), of x] by (simp add: depends_on_def ref_id_def)
    then have "par t x = Node a"
      using ref_id_inj [OF idx(1) proper_ref_par [OF assms(2) idx(2) base(2)], of "Node a"] assms(3) by (simp add: proper_ref_def)
    then show ?case by (simp add: under_self)
  next
    case (step u v)
    have v: "v \<in> dom (deps msk t)" using step(2) by (auto simp: depends_on_def dest!: tranclD)
    then obtain z where z: "z \<in> linked t" "nd_id (tr_node t z) = v" using deps_dom [OF assms(1)] by blast
    then have "ref_id t (par t x) = ref_id t (Node z)"
      using deps_linked [OF assms(1) step(4)] step(1,5) by (simp add: depends_on_def ref_id_def)
    then have "par t x = Node z"
      using ref_id_inj [OF idx(1) proper_ref_par [OF assms(2) idx(2) step(4)], of "Node z"] z(1) idx(2) by (auto simp: proper_ref_def)
    moreover have "z \<in> under (par t) [a]" using step(3) [OF z] under_closed by metis
    ultimately show ?case by blast
  qed
  show "(nd_id (tr_node t x), nd_id (tr_node t a)) \<in> (depends_on (deps msk t))\<^sup>+ \<Longrightarrow> \<exists>y. par t x = Node y \<and> y \<in> under (par t) [a]"
    using conv assms(4) by blast
qed

lemma dep_target_cases:
  assumes "indexed msk t" "depend \<noteq> nd_id (tr_node t a)" "live t = insert a (linked t)"
  obtains (root) "dep_target msk t depend = Root" "depend = 0 \<or> (\<forall>p \<in> linked t. nd_id (tr_node t p) \<noteq> depend)"
  | (node) p where "dep_target msk t depend = Node p" "p \<in> linked t" "p \<noteq> a" "nd_id (tr_node t p) = depend" "depend \<noteq> 0"
proof (cases "if depend \<noteq> 0 then find_node msk t depend else None")
  case None
  then have "depend = 0 \<or> (\<forall>p \<in> linked t. nd_id (tr_node t p) \<noteq> depend)"
    using find_node_iff [OF assms(1), of depend] assms(3) by (auto split: if_splits)
  then show ?thesis using None root by (simp add: dep_target_def)
next
  case (Some p)
  then have "p \<in> live t" "nd_id (tr_node t p) = depend" "depend \<noteq> 0"
    using find_node_iff [OF assms(1), of depend] by (auto split: if_splits)
  then show ?thesis using Some node [of p] assms(2,3) by (auto simp: dep_target_def)
qed

lemma set_dependency_deps:
  assumes t: "forest t" "indexed msk t" "live t = insert a (linked t)" and depend: "depend \<noteq> nd_id (tr_node t a)"
    and t': "indexed msk t'" "live t' = insert a (linked t)"
      "par t' = dep_par (par t) a (dep_target msk t depend) (e \<and> (depend = 0 \<or> dep_target msk t depend \<noteq> Root))"
      "\<And>x. nd_id (tr_node t' x) = nd_id (tr_node t x)"
  shows "linked t' = insert a (linked t)" "deps msk t' = rfc_depend (deps msk t) (nd_id (tr_node t a)) depend e"
proof -
  define r where "r = dep_target msk t depend"
  define s where "s = nd_id (tr_node t a)"
  define e' where "e' = (e \<and> (depend = 0 \<or> r \<noteq> Root))"
  define P where "P = (case r of Node p \<Rightarrow> if p \<in> under (par t) [a] then (par t)(p := par t a) else par t | _ \<Rightarrow> par t)"
  have fnd: "findable msk t" using t(2,3) by (auto simp: findable_def)
  have par': "par t' x = placed P a r e' x" for x
    using fun_cong [OF t'(3), of x] by (simp add: dep_par_def P_def r_def e'_def)
  have r: "r = Root \<or> (\<exists>p. r = Node p \<and> p \<in> linked t \<and> p \<noteq> a)" "r \<noteq> Unlinked"
    by (rule dep_target_cases [OF t(2) depend t(3)]; simp add: r_def)+
  define d where "d = (if depend \<in> dom (deps msk t) then depend else 0)"
  have zero: "0 \<notin> dom (deps msk t)"
    using deps_dom [OF fnd, of 0] t(2,3) by (auto simp: indexed_def)
  have d: "d = ref_id t r" "e \<and> d = depend \<longleftrightarrow> e'"
    by (rule dep_target_cases [OF t(2) depend t(3)]; use deps_dom [OF fnd] zero in \<open>auto simp: d_def r_def e'_def ref_id_def\<close>)+
  have low: "(d, s) \<in> (depends_on (deps msk t))\<^sup>+ \<longleftrightarrow> (\<exists>p. r = Node p \<and> p \<in> under (par t) [a])"
  proof (cases r)
    case (Node p)
    then have p: "p \<in> linked t" "p \<noteq> a" using r by auto
    have "p \<in> under (par t) [a] \<longleftrightarrow> (\<exists>y. par t p = Node y \<and> y \<in> under (par t) [a])"
      using under_cases [of p "par t" "[a]"] under_closed p(2) by fastforce
    then show ?thesis
      using depends_on_under [OF fnd t(1) _ p(1), of a] Node t(3) by (simp add: d(1) s_def ref_id_def)
  next
    case Root
    have "(0, s) \<notin> (depends_on (deps msk t))\<^sup>+"
      using zero by (auto simp: depends_on_def dest!: tranclD)
    then show ?thesis using Root by (simp add: d(1) ref_id_def)
  qed (use r in simp)
  have lowered: "P x = (if r = Node x \<and> x \<in> under (par t) [a] then par t a else par t x)" for x
    by (cases r) (auto simp: P_def)
  have a_in: "a \<in> linked t" if "p \<in> under (par t) [a]" "r = Node p" for p
    using that r under_unlinked [OF t(1)] by blast
  show linked: "linked t' = insert a (linked t)"
    using r a_in unfolding linked_def by (auto simp: par' placed_def lowered linked_def)
  have fnd': "findable msk t'" using t'(1,2) linked by (auto simp: findable_def)
  have refs: "ref_id t' r' = ref_id t r'" for r' using t'(4) by (cases r') (simp_all add: ref_id_def)
  define m1 where "m1 = (if (d, s) \<in> (depends_on (deps msk t))\<^sup>+ then (deps msk t)(d := deps msk t s) else deps msk t)"
  have rfc: "rfc_depend (deps msk t) s depend e =
      (if e' then (\<lambda>x. if m1 x = Some d then Some s else m1 x) else m1)(s \<mapsto> d)"
    unfolding rfc_depend_def Let_def d_def [symmetric] m1_def [symmetric] d(2) ..
  have m1: "m1 (nd_id (tr_node t x)) = Some (ref_id t (P x))" if x: "x \<in> linked t" for x
  proof (cases "r = Node x \<and> x \<in> under (par t) [a]")
    case True
    then have "a \<in> linked t" using a_in by blast
    then have "deps msk t s = Some (ref_id t (par t a))" unfolding s_def by (rule deps_linked [OF fnd])
    moreover have "d = nd_id (tr_node t x)" using True by (simp add: d(1) ref_id_def)
    ultimately show ?thesis using True low by (simp add: m1_def lowered)
  next
    case False
    have "nd_id (tr_node t x) \<noteq> d" if lw: "(d, s) \<in> (depends_on (deps msk t))\<^sup>+"
    proof
      assume eq: "nd_id (tr_node t x) = d"
      obtain p where p: "r = Node p" "p \<in> under (par t) [a]" using lw low by blast
      then have "p \<in> linked t" using r by auto
      then have "x = p" using eq x ids_inj [OF t(2), of x p] t(3) p(1) by (simp add: d(1) ref_id_def)
      then show False using False p by blast
    qed
    then show ?thesis using deps_linked [OF fnd x] False by (auto simp: m1_def lowered)
  qed
  have proper_P: "proper_ref t (P x)" if "x \<in> linked t" for x
    using that proper_ref_par [OF t(1) _ that] proper_ref_par [OF t(1), of a] a_in t(3) by (auto simp: lowered)
  have proper_r: "proper_ref t r" using r t(3) by (auto simp: proper_ref_def)
  show "deps msk t' = rfc_depend (deps msk t) (nd_id (tr_node t a)) depend e"
    unfolding s_def [symmetric] rfc
  proof (rule deps_eqI [OF fnd'])
    fix x assume "x \<in> linked t'"
    then have x: "x = a \<or> x \<noteq> a \<and> x \<in> linked t" using linked by auto
    show "((if e' then (\<lambda>x. if m1 x = Some d then Some s else m1 x) else m1)(s \<mapsto> d)) (nd_id (tr_node t' x)) =
        Some (ref_id t' (par t' x))"
    proof (cases "x = a")
      case True
      then show ?thesis by (simp add: t'(4) s_def refs par' placed_def d(1))
    next
      case False
      then have x: "x \<in> linked t" using x by simp
      have "nd_id (tr_node t x) \<noteq> s" unfolding s_def using ids_inj [OF t(2), of x a] False x t(3) by simp
      moreover have "ref_id t (P x) = d \<longleftrightarrow> P x = r"
        unfolding d(1) by (rule ref_id_inj [OF t(2) proper_P [OF x] proper_r])
      moreover have "ref_id t (Node a) = s" by (simp add: ref_id_def s_def)
      ultimately show ?thesis using False m1 [OF x] by (simp add: t'(4) refs par' placed_def)
    qed
  next
    fix sid assume none: "\<And>x. x \<in> linked t' \<Longrightarrow> nd_id (tr_node t' x) \<noteq> sid"
    have "sid \<noteq> s" using none [of a] linked t'(4) by (auto simp: s_def)
    moreover have "deps msk t sid = None" using deps_dom [OF fnd, of sid] none linked t'(4) by auto
    moreover have "sid \<noteq> d" if lw: "(d, s) \<in> (depends_on (deps msk t))\<^sup>+"
    proof -
      obtain p where p: "r = Node p" using lw low by blast
      then have "p \<in> linked t" using r by auto
      then show ?thesis using none [of p] linked t'(4) p by (auto simp: d(1) ref_id_def)
    qed
    ultimately show "((if e' then (\<lambda>x. if m1 x = Some d then Some s else m1 x) else m1)(s \<mapsto> d)) sid = None"
      by (auto simp: m1_def)
  qed
qed

text \<open>
  The tree in the middle of an operation: the node \<open>a\<close> has an identifier, a weight and a place among the closed nodes,
  but perhaps no parent.
\<close>

definition tree_mid :: "nat \<Rightarrow> nat \<Rightarrow> 's h2_tree \<Rightarrow> bool" where
  "tree_mid msk a t \<longleftrightarrow> forest t \<and> ranked t \<and> weights_ok t \<and> indexed msk t \<and> live t = insert a (linked t) \<and>
     1 \<le> nd_weight (tr_node t a) \<and> nd_weight (tr_node t a) \<le> 256 \<and>
     distinct (tr_closed t) \<and> set (tr_closed t) = {x \<in> insert a (linked t). nd_stream (tr_node t x) = None} \<and>
     tr_closed_nodes t = word_of_nat (length (tr_closed t)) \<and> (\<forall>x. tr_fresh t \<le> x \<longrightarrow> x \<notin> live t)"

lemma distinct_card_length: "distinct xs \<Longrightarrow> distinct ys \<Longrightarrow> set xs = set ys \<Longrightarrow> length xs = length ys"
  by (metis distinct_card)

lemma dep_closed_same:
  assumes "distinct (tr_closed t)" "\<And>p. r = Node p \<Longrightarrow> nd_stream (tr_node t p) = None \<Longrightarrow> p \<in> set (tr_closed t)"
  shows "distinct (dep_closed t r) \<and> set (dep_closed t r) = set (tr_closed t)"
  using assms by (cases r) (auto simp: dep_closed_def distinct_removeAll)

lemma set_dependency_tree:
  assumes mid: "tree_mid msk a t" and depend: "depend \<noteq> nd_id (tr_node t a)"
  shows "\<exists>t'. ngx_http_v2_set_dependency msk a depend e t = Some t' \<and> tree_ok msk t' \<and> linked t' = insert a (linked t) \<and>
    deps msk t' = rfc_depend (deps msk t) (nd_id (tr_node t a)) depend e \<and>
    (\<forall>x. label (tr_node t' x) = label (tr_node t x)) \<and> set (tr_closed t') = set (tr_closed t) \<and> length (tr_closed t') = length (tr_closed t)"
proof -
  have t: "forest t" "ranked t" "weights_ok t" "indexed msk t" "live t = insert a (linked t)"
    using mid by (simp_all add: tree_mid_def)
  have "p \<in> linked t \<and> p \<noteq> a" if "find_node msk t depend = Some p" for p
    using that find_node_iff [OF t(4)] depend t(5) by auto
  then obtain t' where t': "ngx_http_v2_set_dependency msk a depend e t = Some t'" "forest t'" "ranked t'"
      "par t' = dep_par (par t) a (dep_target msk t depend) (e \<and> (depend = 0 \<or> dep_target msk t depend \<noteq> Root))"
      "\<forall>x. label (tr_node t' x) = label (tr_node t x)"
      "frame t' = (tr_index t, dep_closed t (dep_target msk t depend), tr_closed_nodes t, tr_fresh t)"
    using set_dependency_ok [OF t(1,2), of msk depend a e] by blast
  have same: "nd_id (tr_node t' x) = nd_id (tr_node t x)" "nd_stream (tr_node t' x) = nd_stream (tr_node t x)"
      "nd_weight (tr_node t' x) = nd_weight (tr_node t x)" for x
    using t'(5) same_label by blast+
  have fr: "tr_index t' = tr_index t" "tr_closed t' = dep_closed t (dep_target msk t depend)"
      "tr_closed_nodes t' = tr_closed_nodes t" "tr_fresh t' = tr_fresh t"
    using t'(6) by (simp_all add: frame_def)
  have live: "live t' = live t" by (simp add: live_def fr)
  have idx: "indexed msk t'" using t(4) by (simp add: indexed_def live same fr)
  note d = set_dependency_deps [OF t(1,4,5) depend idx _ t'(4) same(1), unfolded live, OF t(5)]
  have closed: "distinct (tr_closed t') \<and> set (tr_closed t') = set (tr_closed t)"
    unfolding fr(2)
  proof (rule dep_closed_same)
    show "distinct (tr_closed t)" using mid by (simp add: tree_mid_def)
    show "p \<in> set (tr_closed t)" if "dep_target msk t depend = Node p" "nd_stream (tr_node t p) = None" for p
      using mid that dep_target_cases [OF t(4) depend t(5)] by (auto simp: tree_mid_def)
  qed
  then have len: "length (tr_closed t') = length (tr_closed t)"
    using mid distinct_card_length [of "tr_closed t'" "tr_closed t"] by (simp add: tree_mid_def)
  have "weights_ok t'" using mid t(3) by (auto simp: weights_ok_def tree_mid_def d(1) same)
  then have "tree_ok msk t'"
    using mid t'(2,3) idx closed len by (auto simp: tree_ok_def tree_with_def tree_mid_def live fr(3,4) d(1) same)
  then show ?thesis using t'(1,5) d closed len by blast
qed

text \<open>
  The node for a stream: it was there; or there is no memory for it; or it is new, after the node of a closed stream has
  been taken out when there are 32 of them.
\<close>

definition room :: "nat \<Rightarrow> 's h2_tree \<Rightarrow> nat \<Rightarrow> nat option" where
  "room msk t = (if tr_closed_nodes t < 32 then deps msk t else rfc_forget (deps msk t) (nd_id (tr_node t (hd (tr_closed t)))))"

definition new_node :: "nat \<Rightarrow> nat \<Rightarrow> nat \<Rightarrow> 's h2_tree \<Rightarrow> 's h2_tree \<Rightarrow> bool" where
  "new_node msk sid a t t' \<longleftrightarrow> tree_with msk {a} t' \<and> a \<notin> linked t' \<and> nd_id (tr_node t' a) = sid \<and>
     nd_stream (tr_node t' a) = None \<and> deps msk t' = room msk t \<and>
     (\<forall>x \<in> linked t'. x \<in> linked t \<and> nd_id (tr_node t' x) = nd_id (tr_node t x) \<and> nd_stream (tr_node t' x) = nd_stream (tr_node t x)) \<and>
     (\<forall>x \<in> linked t. nd_stream (tr_node t x) \<noteq> None \<longrightarrow> x \<in> linked t') \<and>
     tr_closed t' = (if tr_closed_nodes t < 32 then tr_closed t else tl (tr_closed t)) \<and>
     (\<not> tr_closed_nodes t < 32 \<longrightarrow> card (linked t') < card (linked t))"

lemma enter_new:
  assumes u: "tree_ok msk u" "a \<notin> linked u" "tr_node u a = blank_node" "a < tr_fresh u" and sid: "sid \<noteq> 0"
    "\<And>x. x \<in> linked t \<Longrightarrow> nd_id (tr_node t x) \<noteq> sid" and "deps msk u = room msk t"
    and same: "\<And>x. x \<in> linked u \<Longrightarrow> x \<in> linked t \<and> nd_id (tr_node u x) = nd_id (tr_node t x) \<and> nd_stream (tr_node u x) = nd_stream (tr_node t x)"
    and kept: "\<And>x. x \<in> linked t \<Longrightarrow> nd_stream (tr_node t x) \<noteq> None \<Longrightarrow> x \<in> linked u"
    and "tr_closed u = (if tr_closed_nodes t < 32 then tr_closed t else tl (tr_closed t))"
    and "\<not> tr_closed_nodes t < 32 \<Longrightarrow> card (linked u) < card (linked t)"
  shows "new_node msk sid a t (enter_node msk sid a u)"
proof -
  have "nd_id (tr_node u x) \<noteq> sid" if "x \<in> linked u" for x using same [OF that] sid(2) by simp
  note entered = enter_tree [OF u sid(1) this]
  have node: "tr_node (enter_node msk sid a u) x = tr_node u x" if "x \<in> linked u" for x
    using that u(2) by (auto simp: tr_node_enter)
  have "tr_closed (enter_node msk sid a u) = tr_closed u" by (simp add: enter_node_def Let_def)
  moreover have "nd_id (tr_node (enter_node msk sid a u) a) = sid" "nd_stream (tr_node (enter_node msk sid a u) a) = None"
    using u(3) by (simp_all add: tr_node_enter blank_node_def)
  ultimately show ?thesis
    using entered u(2) assms(7,10,11) same kept node unfolding new_node_def by metis
qed

lemma get_node_tree:
  assumes ok: "tree_ok msk t" and sid: "sid \<noteq> 0"
  shows "(\<exists>a \<in> linked t. nd_id (tr_node t a) = sid \<and> ngx_http_v2_get_node_by_id msk mem sid True t = Some (Some a, t)) \<or>
    (\<forall>a \<in> linked t. nd_id (tr_node t a) \<noteq> sid) \<and>
      (if mem \<or> \<not> tr_closed_nodes t < 32
       then \<exists>a t'. ngx_http_v2_get_node_by_id msk mem sid True t = Some (Some a, t') \<and> new_node msk sid a t t'
       else ngx_http_v2_get_node_by_id msk mem sid True t = Some (None, t))"
proof (cases "find_node msk t sid")
  case (Some a)
  moreover have "a \<in> linked t" "nd_id (tr_node t a) = sid"
    using Some find_node_iff [of msk t sid] ok by (auto simp: tree_ok_def tree_with_def)
  ultimately show ?thesis by (auto simp: ngx_http_v2_get_node_by_id_def)
next
  case None
  have tw: "tree_with msk {} t" using ok by (simp add: tree_ok_def)
  then have new: "\<forall>a \<in> linked t. nd_id (tr_node t a) \<noteq> sid"
    using None find_node_iff [of msk t sid] by (auto simp: tree_with_def)
  have "if mem \<or> \<not> tr_closed_nodes t < 32
       then \<exists>a t'. ngx_http_v2_get_node_by_id msk mem sid True t = Some (Some a, t') \<and> new_node msk sid a t t'
       else ngx_http_v2_get_node_by_id msk mem sid True t = Some (None, t)"
  proof (cases "tr_closed_nodes t < 32")
    case True
    let ?a = "tr_fresh t"
    define u where "u = upd_node ?a (\<lambda>_. blank_node) (t\<lparr>tr_fresh := ?a + 1\<rparr>)"
    have out: "?a \<notin> linked t" using tw by (auto simp: tree_with_def)
    then have unlinked: "par t ?a = Unlinked" by (simp add: linked_def)
    have "nd_children (tr_node t ?a) = []"
      using tw by (intro unlinked_leaf [OF _ out]) (simp add: tree_with_def)
    then have "kids u r = kids t r" for r
      by (cases r) (auto simp: u_def tr_node_upd blank_node_def)
    moreover have "par u x = par t x" "x \<in> linked t \<Longrightarrow> tr_node u x = tr_node t x" for x
      using unlinked by (auto simp: u_def tr_node_upd blank_node_def linked_def)
    ultimately have u: "tree_ok msk u" "deps msk u = deps msk t" "linked u = linked t"
      using tree_ok_cong [OF ok, of u] by (simp_all add: u_def)
    have same: "tr_node u x = tr_node t x" if "x \<in> linked t" for x
      using that out by (auto simp: u_def tr_node_upd)
    have "new_node msk sid ?a t (enter_node msk sid ?a u)"
    proof (rule enter_new [OF u(1)])
      show "tr_node u ?a = blank_node" "?a < tr_fresh u" "tr_closed u = (if tr_closed_nodes t < 32 then tr_closed t else tl (tr_closed t))"
        using True by (simp_all add: u_def tr_node_upd)
    qed (use out u(2,3) sid new same True in \<open>simp_all add: room_def\<close>)
    then show ?thesis using None True by (auto simp: ngx_http_v2_get_node_by_id_def u_def)
  next
    case False
    obtain a closed where closed: "tr_closed t = a # closed" using tree_ok_closed_pos [OF ok False] by blast
    obtain u where u: "ngx_http_v2_get_closed_node msk t = Some (a, u)" "tree_ok msk u" "tr_node u a = blank_node" "a \<in> linked t"
        "linked u = linked t - {a}" "tr_closed u = closed" "tr_fresh u = tr_fresh t"
        "\<forall>x. x \<noteq> a \<longrightarrow> nd_id (tr_node u x) = nd_id (tr_node t x) \<and> nd_stream (tr_node u x) = nd_stream (tr_node t x)"
      using get_closed_tree [OF ok closed] by blast
    have deps: "deps msk u = rfc_forget (deps msk t) (nd_id (tr_node t a))" by (rule get_closed_deps [OF ok closed u(1)])
    have none: "nd_stream (tr_node t a) = None" using closed tw by (auto simp: tree_with_def)
    have "new_node msk sid a t (enter_node msk sid a u)"
    proof (rule enter_new [OF u(2)])
      show "a \<notin> linked u" "a < tr_fresh u" using u(4,5,7) tw by (auto simp: tree_with_def not_le [symmetric])
      show "x \<in> linked t \<and> nd_id (tr_node u x) = nd_id (tr_node t x) \<and> nd_stream (tr_node u x) = nd_stream (tr_node t x)"
        if "x \<in> linked u" for x using that u(5,8) by auto
      show "x \<in> linked u" if "x \<in> linked t" "nd_stream (tr_node t x) \<noteq> None" for x
        unfolding u(5) using that none by blast
      have "finite (linked t)" using tw by (simp add: tree_with_def forest_def)
      then show "card (linked u) < card (linked t)" unfolding u(5) using u(4) by (rule card_Diff1_less)
    qed (use u(3,6) sid new deps False closed in \<open>simp_all add: room_def\<close>)
    then show ?thesis using None False u(1) by (auto simp: ngx_http_v2_get_node_by_id_def)
  qed
  then show ?thesis using new by blast
qed

section \<open>The operations\<close>

text \<open>Trees with the same links, ranks, identifiers and index.\<close>

definition skel :: "'s h2_tree \<Rightarrow> 's h2_tree \<Rightarrow> bool" where
  "skel t' t \<longleftrightarrow> (\<forall>x. par t' x = par t x \<and> rank t' x = rank t x \<and> nd_id (tr_node t' x) = nd_id (tr_node t x) \<and>
       nd_children (tr_node t' x) = nd_children (tr_node t x)) \<and>
     tr_dependencies t' = tr_dependencies t \<and> tr_index t' = tr_index t \<and> tr_fresh t' = tr_fresh t"

lemma skel_trans: "skel u v \<Longrightarrow> skel t u \<Longrightarrow> skel t v"
  by (simp add: skel_def)

lemma skel_ops [intro, simp]:
  "skel t t" "skel (upd_node a (\<lambda>n. n\<lparr>nd_stream := s\<rparr>) t) t" "skel (upd_node a (\<lambda>n. n\<lparr>nd_weight := w\<rparr>) t) t"
  "skel (leave_closed a t) t" "skel (enter_closed a t) t" "skel (t\<lparr>tr_closed := c\<rparr>) t" "skel (t\<lparr>tr_closed_nodes := k\<rparr>) t"
  by (auto simp: skel_def tr_node_upd leave_closed_def enter_closed_def)

lemma skel_same:
  assumes "skel t' t"
  shows "forest t' = forest t" "ranked t' = ranked t" "linked t' = linked t" "live t' = live t" "indexed msk t' = indexed msk t"
    "deps msk t' = deps msk t" "par t' x = par t x" "nd_id (tr_node t' x) = nd_id (tr_node t x)" "tr_fresh t' = tr_fresh t"
proof -
  have s: "par t' x = par t x" "rank t' x = rank t x" "nd_id (tr_node t' x) = nd_id (tr_node t x)"
      "nd_children (tr_node t' x) = nd_children (tr_node t x)" "tr_dependencies t' = tr_dependencies t" "tr_index t' = tr_index t"
      "tr_fresh t' = tr_fresh t" for x
    using assms by (simp_all add: skel_def)
  have k: "kids t' r = kids t r" for r by (cases r) (simp_all add: s)
  have rk: "rank_in t' r = rank_in t r" for r by (cases r) (simp_all add: s)
  show l: "linked t' = linked t" by (simp add: linked_def s)
  show "forest t' = forest t" by (simp add: forest_def s k l)
  show "ranked t' = ranked t" by (simp add: ranked_def s l rk)
  show lv: "live t' = live t" by (simp add: live_def s)
  show "indexed msk t' = indexed msk t" by (simp add: indexed_def lv s)
  have "ref_id t' r = ref_id t r" for r by (cases r) (simp_all add: ref_id_def s)
  then show "deps msk t' = deps msk t" by (simp add: deps_def find_node_def s fun_eq_iff split: option.split)
qed (use assms in \<open>simp_all add: skel_def\<close>)

lemma tr_closed_upd [simp]: "tr_closed (leave_closed a t) = (if par t a \<noteq> Unlinked then removeAll a (tr_closed t) else tr_closed t)"
  "tr_closed_nodes (leave_closed a t) = (if par t a \<noteq> Unlinked then tr_closed_nodes t - 1 else tr_closed_nodes t)"
  "tr_node (leave_closed a t) = tr_node t" "tr_fresh (leave_closed a t) = tr_fresh t"
  "tr_node (enter_closed a t) = tr_node t" "tr_closed (enter_closed a t) = tr_closed t @ [a]"
  "tr_closed_nodes (enter_closed a t) = tr_closed_nodes t + 1"
  "tr_dependencies (enter_closed a t) = tr_dependencies t" "tr_index (enter_closed a t) = tr_index t" "tr_fresh (enter_closed a t) = tr_fresh t"
  "tr_dependencies (leave_closed a t) = tr_dependencies t" "tr_index (leave_closed a t) = tr_index t"
  by (simp_all add: leave_closed_def enter_closed_def)

lemma removeAll_length: "distinct xs \<Longrightarrow> a \<in> set xs \<Longrightarrow> length xs = Suc (length (removeAll a xs))"
  by (metis distinct_remove1_removeAll length_Suc_conv length_remove1 One_nat_def Suc_pred length_pos_if_in_set)

text \<open>What a tree with the node of a stream is turned into before the dependency is set.\<close>

definition has_node :: "nat \<Rightarrow> nat \<Rightarrow> 's h2_tree \<Rightarrow> bool" where
  "has_node msk a t \<longleftrightarrow> (tree_ok msk t \<and> a \<in> linked t) \<or> (tree_with msk {a} t \<and> a \<notin> linked t \<and> nd_stream (tr_node t a) = None)"

lemma has_node_with: "has_node msk a t \<Longrightarrow> tree_with msk {a} t"
proof -
  have "tree_with msk {} t = tree_with msk {a} t" if "a \<in> linked t"
  proof -
    have "linked t \<union> {} = linked t \<union> {a}" using that by blast
    then show ?thesis unfolding tree_with_def by (simp only:)
  qed
  then show "has_node msk a t \<Longrightarrow> tree_with msk {a} t" by (auto simp: has_node_def tree_ok_def)
qed

lemma opened_mid:
  assumes t: "has_node msk a t" "nd_stream (tr_node t a) = None" and w: "1 \<le> w" "w \<le> 256"
    and t': "t' = upd_node a (\<lambda>n. n\<lparr>nd_weight := w\<rparr>) (upd_node a (\<lambda>n. n\<lparr>nd_stream := Some s\<rparr>) (leave_closed a t))"
  shows "tree_mid msk a t'" "deps msk t' = deps msk t"
proof -
  have sk: "skel t' t" by (auto simp: skel_def tr_node_upd t')
  have tw: "tree_with msk {a} t" by (rule has_node_with [OF t(1)])
  have node: "nd_stream (tr_node t' x) = (if x = a then Some s else nd_stream (tr_node t x))"
    "nd_weight (tr_node t' x) = (if x = a then w else nd_weight (tr_node t x))" for x
    by (auto simp: t' tr_node_upd)
  have closed: "tr_closed t' = (if a \<in> linked t then removeAll a (tr_closed t) else tr_closed t)"
    "tr_closed_nodes t' = (if a \<in> linked t then tr_closed_nodes t - 1 else tr_closed_nodes t)"
    by (simp_all add: t' linked_def)
  have "weights_ok t'" using tw w by (auto simp: weights_ok_def tree_with_def skel_same [OF sk] node)
  moreover have "set (tr_closed t') = {x \<in> insert a (linked t). nd_stream (tr_node t' x) = None}"
    using tw by (auto simp: closed node tree_with_def)
  moreover have "tr_closed_nodes t' = word_of_nat (length (tr_closed t'))"
  proof (cases "a \<in> linked t")
    case True
    then have "a \<in> set (tr_closed t)" using tw t(2) by (simp add: tree_with_def)
    then have "length (tr_closed t) = Suc (length (tr_closed t'))"
      using tw True removeAll_length [of "tr_closed t" a] by (simp add: closed tree_with_def)
    then show ?thesis using tw True by (simp add: closed(2) tree_with_def)
  next
    case False
    then show ?thesis using tw by (simp add: closed tree_with_def)
  qed
  moreover have "distinct (tr_closed t')" using tw by (simp add: closed tree_with_def distinct_removeAll)
  moreover have "live t = insert a (linked t)" "forest t" "ranked t" "indexed msk t" "\<forall>x. tr_fresh t \<le> x \<longrightarrow> x \<notin> live t"
    using tw unfolding tree_with_def by auto
  ultimately show "tree_mid msk a t'"
    using w unfolding tree_mid_def skel_same [OF sk] by (simp add: node)
  show "deps msk t' = deps msk t" by (rule skel_same [OF sk])
qed

lemma found_or_new: "new_node msk sid a t t' \<Longrightarrow> has_node msk a t'"
  by (simp add: new_node_def has_node_def)

lemma close_node_tree:
  assumes "tree_ok msk t" "a \<in> linked t" "nd_stream (tr_node t a) \<noteq> None"
  shows "tree_ok msk (close_node a t)" "deps msk (close_node a t) = deps msk t" "linked (close_node a t) = linked t"
proof -
  have sk: "skel (close_node a t) t" by (auto simp: skel_def tr_node_upd close_node_def)
  have node: "nd_stream (tr_node (close_node a t) x) = (if x = a then None else nd_stream (tr_node t x))"
    "nd_weight (tr_node (close_node a t) x) = nd_weight (tr_node t x)" for x
    by (auto simp: close_node_def tr_node_upd)
  have "weights_ok (close_node a t) = weights_ok t" by (simp add: weights_ok_def skel_same [OF sk] node)
  moreover have "tr_closed (close_node a t) = tr_closed t @ [a]" "tr_closed_nodes (close_node a t) = tr_closed_nodes t + 1"
    by (simp_all add: close_node_def)
  ultimately show "tree_ok msk (close_node a t)"
    using assms by (auto simp: tree_ok_def tree_with_def skel_same [OF sk] node add.commute)
  show "deps msk (close_node a t) = deps msk t" "linked (close_node a t) = linked t" by (rule skel_same [OF sk])+
qed

lemma upd_node_id: "f (tr_node t a) = tr_node t a \<Longrightarrow> upd_node a f t = t"
  by (simp add: upd_node_def fun_upd_idem)

lemma mid_linked: "tree_mid msk a t \<Longrightarrow> a \<in> linked t \<Longrightarrow> tree_ok msk t"
  unfolding tree_mid_def tree_ok_def tree_with_def by (auto simp: insert_absorb)

lemma weighed_mid:
  assumes t: "has_node msk a t" and w: "1 \<le> w" "w \<le> 256"
    and u: "u = upd_node a (\<lambda>n. n\<lparr>nd_weight := w\<rparr>) t"
    and t': "t' = (if nd_stream (tr_node t a) = None
       then (if par t a = Unlinked then u\<lparr>tr_closed_nodes := tr_closed_nodes u + 1, tr_closed := tr_closed u @ [a]\<rparr>
             else u\<lparr>tr_closed := removeAll a (tr_closed u) @ [a]\<rparr>)
       else u)"
  shows "tree_mid msk a t'" "deps msk t' = deps msk t" "linked t' = linked t" "nd_id (tr_node t' a) = nd_id (tr_node t a)"
    "nd_stream (tr_node t' x) = nd_stream (tr_node t x)"
proof -
  have sk: "skel t' t" by (auto simp: skel_def tr_node_upd t' u)
  have tw: "tree_with msk {a} t" by (rule has_node_with [OF t(1)])
  have node: "nd_stream (tr_node t' x) = nd_stream (tr_node t x)"
    "nd_weight (tr_node t' x) = (if x = a then w else nd_weight (tr_node t x))" for x
    by (auto simp: t' u tr_node_upd)
  have c: "distinct (tr_closed t)" "set (tr_closed t) = {x \<in> linked t. nd_stream (tr_node t x) = None}"
      "tr_closed_nodes t = word_of_nat (length (tr_closed t))"
    using tw by (simp_all add: tree_with_def)
  have closed: "tr_closed t' = (if nd_stream (tr_node t a) = None then removeAll a (tr_closed t) @ [a] else tr_closed t)"
    using c(2) by (auto simp: t' u linked_def)
  have "tr_closed_nodes t' = word_of_nat (length (tr_closed t'))"
  proof (cases "nd_stream (tr_node t a) = None")
    case True
    show ?thesis
    proof (cases "a \<in> linked t")
      case True
      then have "length (tr_closed t) = length (tr_closed t')"
        using c(1,2) \<open>nd_stream (tr_node t a) = None\<close> removeAll_length [of "tr_closed t" a] by (simp add: closed)
      then show ?thesis using True c(3) by (auto simp: t' u linked_def)
    next
      case False
      then have "a \<notin> set (tr_closed t)" using c(2) by simp
      then show ?thesis using False c(3) by (auto simp: t' u linked_def add.commute)
    qed
  next
    case False
    then show ?thesis using c(3) by (auto simp: t' u)
  qed
  moreover have "set (tr_closed t') = {x \<in> insert a (linked t). nd_stream (tr_node t' x) = None}"
  proof -
    have "a \<in> linked t \<or> nd_stream (tr_node t a) = None" using t by (auto simp: has_node_def)
    moreover have "set (tr_closed t') = (if nd_stream (tr_node t a) = None then insert a (set (tr_closed t)) else set (tr_closed t))"
      by (auto simp: closed)
    ultimately show ?thesis unfolding c(2) node by auto
  qed
  moreover have "distinct (tr_closed t')" using c(1) by (simp add: closed distinct_removeAll)
  moreover have "weights_ok t'" using tw w by (auto simp: weights_ok_def tree_with_def skel_same [OF sk] node)
  moreover have "live t = insert a (linked t)" "forest t" "ranked t" "indexed msk t" "\<forall>x. tr_fresh t \<le> x \<longrightarrow> x \<notin> live t"
    using tw unfolding tree_with_def by auto
  ultimately show "tree_mid msk a t'"
    using w unfolding tree_mid_def skel_same [OF sk] by (simp add: node)
  show "deps msk t' = deps msk t" "linked t' = linked t" "nd_id (tr_node t' a) = nd_id (tr_node t a)" by (rule skel_same [OF sk])+
  show "nd_stream (tr_node t' x) = nd_stream (tr_node t x)" by (rule node)
qed

text \<open>The map of dependencies that an operation starts with.\<close>

definition with_room :: "nat \<Rightarrow> 's h2_tree \<Rightarrow> nat \<Rightarrow> nat \<Rightarrow> nat option" where
  "with_room msk t sid = (if sid \<in> dom (deps msk t) then deps msk t else room msk t)"

text \<open>The node that an operation works on, the tree then, and the dependencies.\<close>

lemma node_for:
  assumes "tree_ok msk t" "sid \<noteq> 0" "mem \<or> \<not> tr_closed_nodes t < 32 \<or> sid \<in> dom (deps msk t)"
  obtains a u where "ngx_http_v2_get_node_by_id msk mem sid True t = Some (Some a, u)" "has_node msk a u" "nd_id (tr_node u a) = sid"
    "deps msk u = with_room msk t sid"
    "a \<in> linked u \<longleftrightarrow> sid \<in> dom (deps msk t)" "sid \<in> dom (deps msk t) \<Longrightarrow> u = t"
    "\<And>x. x \<in> linked u \<Longrightarrow> x \<in> linked t \<and> nd_id (tr_node u x) = nd_id (tr_node t x) \<and> nd_stream (tr_node u x) = nd_stream (tr_node t x)"
    "\<And>x. x \<in> linked t \<Longrightarrow> nd_stream (tr_node t x) \<noteq> None \<Longrightarrow> x \<in> linked u"
    "nd_stream (tr_node u a) \<noteq> None \<Longrightarrow> a \<in> linked u"
    "card (insert a (linked u)) \<le> card (linked t) \<or> tr_closed_nodes t < 32 \<and> card (insert a (linked u)) \<le> Suc (card (linked t))"
proof -
  have "findable msk t" using assms(1) unfolding tree_ok_def by (rule tree_with_findable)
  note dom = deps_dom [OF this, of sid]
  from get_node_tree [OF assms(1,2), of mem] show thesis
  proof
    assume "\<exists>a \<in> linked t. nd_id (tr_node t a) = sid \<and> ngx_http_v2_get_node_by_id msk mem sid True t = Some (Some a, t)"
    then obtain a where a: "a \<in> linked t" "nd_id (tr_node t a) = sid"
        "ngx_http_v2_get_node_by_id msk mem sid True t = Some (Some a, t)" by blast
    have "sid \<in> dom (deps msk t)" using dom a(1,2) by blast
    then show thesis using a assms(1) by (intro that [of a t]) (simp_all add: has_node_def insert_absorb with_room_def)
  next
    assume none: "(\<forall>a \<in> linked t. nd_id (tr_node t a) \<noteq> sid) \<and>
      (if mem \<or> \<not> tr_closed_nodes t < 32
       then \<exists>a t'. ngx_http_v2_get_node_by_id msk mem sid True t = Some (Some a, t') \<and> new_node msk sid a t t'
       else ngx_http_v2_get_node_by_id msk mem sid True t = Some (None, t))"
    then have "sid \<notin> dom (deps msk t)" using dom by blast
    moreover from this none assms(3) obtain a t' where
        "ngx_http_v2_get_node_by_id msk mem sid True t = Some (Some a, t')" "new_node msk sid a t t'"
      by (auto split: if_splits)
    moreover have "card (insert a (linked t')) \<le> card (linked t) \<or> tr_closed_nodes t < 32 \<and> card (insert a (linked t')) \<le> Suc (card (linked t))"
    proof -
      have "linked t' \<subseteq> linked t" "finite (linked t)"
        using \<open>new_node msk sid a t t'\<close> assms(1) by (auto simp: new_node_def tree_ok_def tree_with_def forest_def)
      then have "card (linked t') \<le> card (linked t)" by (simp add: card_mono)
      moreover have "card (insert a (linked t')) \<le> Suc (card (linked t'))" by (simp add: card_insert_le_m1 card_insert_if)
      ultimately show ?thesis using \<open>new_node msk sid a t t'\<close> unfolding new_node_def by linarith
    qed
    ultimately show thesis
      using found_or_new [of msk sid a t t'] by (intro that [of a t']) (auto simp: new_node_def with_room_def)
  qed
qed

section \<open>What a connection does to its tree\<close>

text \<open>
  The trees of a connection with at most \<open>lim\<close> open streams (\<open>concurrent_streams\<close> and \<open>concurrent_pushes\<close>): frames with
  weights of one to 256 (\<open>pos[4] + 1\<close>) and a dependency on another stream (otherwise the frame is an error), pushes, ends
  of streams.  A stream is opened once.
\<close>

definition open_streams :: "'s h2_tree \<Rightarrow> nat set" where
  "open_streams t = {a \<in> linked t. nd_stream (tr_node t a) \<noteq> None}"

definition no_stream :: "nat \<Rightarrow> 's h2_tree \<Rightarrow> nat \<Rightarrow> bool" where
  "no_stream msk t sid \<longleftrightarrow> (case find_node msk t sid of None \<Rightarrow> True | Some a \<Rightarrow> nd_stream (tr_node t a) = None)"

inductive tree_reach :: "nat \<Rightarrow> nat \<Rightarrow> 's h2_tree \<Rightarrow> bool" for msk lim where
  tree_start: "tree_reach msk lim new_tree"
| tree_headers: "tree_reach msk lim t \<Longrightarrow> sid \<noteq> 0 \<Longrightarrow> depend \<noteq> sid \<Longrightarrow> 1 \<le> w \<Longrightarrow> w \<le> 256 \<Longrightarrow> no_stream msk t sid \<Longrightarrow>
    card (open_streams t) < lim \<Longrightarrow> headers_node msk mem sid priority depend e w s t = Some (node, t') \<Longrightarrow>
    tree_reach msk lim t'"
| tree_priority: "tree_reach msk lim t \<Longrightarrow> sid \<noteq> 0 \<Longrightarrow> depend \<noteq> sid \<Longrightarrow> 1 \<le> w \<Longrightarrow> w \<le> 256 \<Longrightarrow>
    priority_node msk mem sid depend e w t = Some (node, t') \<Longrightarrow> tree_reach msk lim t'"
| tree_push: "tree_reach msk lim t \<Longrightarrow> sid \<noteq> 0 \<Longrightarrow> parent_sid \<noteq> sid \<Longrightarrow> no_stream msk t sid \<Longrightarrow>
    card (open_streams t) < lim \<Longrightarrow> push_node msk mem True sid parent_sid s t = Some (node, t') \<Longrightarrow> tree_reach msk lim t'"
| tree_close: "tree_reach msk lim t \<Longrightarrow> find_node msk t sid = Some a \<Longrightarrow> nd_stream (tr_node t a) \<noteq> None \<Longrightarrow>
    tree_reach msk lim (close_node a t)"

lemma no_streamD:
  assumes "tree_ok msk t" "no_stream msk t sid" "a \<in> linked t" "nd_id (tr_node t a) = sid"
  shows "nd_stream (tr_node t a) = None"
proof -
  have "find_node msk t sid = Some a"
    using find_node_iff [of msk t sid a] assms(1,3,4) by (simp add: tree_ok_def tree_with_def)
  then show ?thesis using assms(2) by (simp add: no_stream_def)
qed

lemma open_card: "forest t \<Longrightarrow> finite (open_streams t)"
  by (simp add: open_streams_def forest_def)

text \<open>Both kinds of nodes.\<close>

lemma linked_card:
  assumes "tree_ok msk t"
  shows "card (linked t) = length (tr_closed t) + card (open_streams t)"
proof -
  have t: "finite (linked t)" "distinct (tr_closed t)" "set (tr_closed t) = {a \<in> linked t. nd_stream (tr_node t a) = None}"
    using assms by (simp_all add: tree_ok_def tree_with_def forest_def)
  have "linked t = set (tr_closed t) \<union> open_streams t" unfolding t(3) open_streams_def by blast
  moreover have "set (tr_closed t) \<inter> open_streams t = {}" unfolding t(3) open_streams_def by blast
  moreover have "finite (open_streams t)" using t(1) by (simp add: open_streams_def)
  ultimately have "card (linked t) = card (set (tr_closed t)) + card (open_streams t)"
    by (simp add: card_Un_disjoint)
  then show ?thesis using t(2) by (simp add: distinct_card)
qed

text \<open>What an operation does: the tree after it, its dependencies and its open streams, which keep their nodes.\<close>

definition same_open :: "'s h2_tree \<Rightarrow> 's h2_tree \<Rightarrow> bool" where
  "same_open t t' \<longleftrightarrow> (\<forall>x \<in> open_streams t. nd_id (tr_node t' x) = nd_id (tr_node t x) \<and> nd_stream (tr_node t' x) = nd_stream (tr_node t x))"

lemma headers_node_tree:
  assumes ok: "tree_ok msk t" "sid \<noteq> 0" "depend \<noteq> sid" "1 \<le> w" "w \<le> 256" "no_stream msk t sid"
    and mem: "mem \<or> \<not> tr_closed_nodes t < 32 \<or> sid \<in> dom (deps msk t)"
  shows "\<exists>a t'. headers_node msk mem sid priority depend e w s t = Some (Some a, t') \<and> tree_ok msk t' \<and>
    deps msk t' = (if priority \<or> sid \<notin> dom (deps msk t) then rfc_depend (with_room msk t sid) sid depend e else deps msk t) \<and>
    open_streams t' = insert a (open_streams t) \<and> same_open t t' \<and> nd_id (tr_node t' a) = sid \<and> nd_stream (tr_node t' a) = Some s \<and>
    (card (linked t') \<le> card (linked t) \<or> tr_closed_nodes t < 32 \<and> card (linked t') \<le> Suc (card (linked t)))"
proof -
  obtain a u where u: "ngx_http_v2_get_node_by_id msk mem sid True t = Some (Some a, u)" "has_node msk a u" "nd_id (tr_node u a) = sid"
      "deps msk u = with_room msk t sid" "a \<in> linked u \<longleftrightarrow> sid \<in> dom (deps msk t)" "sid \<in> dom (deps msk t) \<Longrightarrow> u = t"
    and same: "\<And>x. x \<in> linked u \<Longrightarrow> x \<in> linked t \<and> nd_id (tr_node u x) = nd_id (tr_node t x) \<and> nd_stream (tr_node u x) = nd_stream (tr_node t x)"
    and kept: "\<And>x. x \<in> linked t \<Longrightarrow> nd_stream (tr_node t x) \<noteq> None \<Longrightarrow> x \<in> linked u"
    and sa: "nd_stream (tr_node u a) \<noteq> None \<Longrightarrow> a \<in> linked u"
    and cards: "card (insert a (linked u)) \<le> card (linked t) \<or> tr_closed_nodes t < 32 \<and> card (insert a (linked u)) \<le> Suc (card (linked t))"
    by (rule node_for [OF ok(1,2) mem]) blast
  have none: "nd_stream (tr_node u a) = None"
    using sa same no_streamD [OF ok(1,6), of a] u(3) by metis
  define t1 where "t1 = upd_node a (\<lambda>n. n\<lparr>nd_stream := Some s\<rparr>) (leave_closed a u)"
  have t1: "par t1 x = par u x" "nd_id (tr_node t1 x) = nd_id (tr_node u x)" "nd_weight (tr_node t1 x) = nd_weight (tr_node u x)"
      "nd_stream (tr_node t1 x) = (if x = a then Some s else nd_stream (tr_node u x))" for x
    by (auto simp: t1_def tr_node_upd)
  have linked1: "linked t1 = linked u" by (simp add: linked_def t1(1))
  have opened: "open_streams t' = insert a (open_streams t)"
    if "linked t' = insert a (linked u)" "\<And>x. nd_stream (tr_node t' x) = nd_stream (tr_node t1 x)" for t'
    using same kept unfolding open_streams_def that t1(4) by auto
  have open_same: "same_open t t' \<and> nd_id (tr_node t' a) = sid \<and> nd_stream (tr_node t' a) = Some s"
    if "\<And>x. nd_stream (tr_node t' x) = nd_stream (tr_node t1 x)" "\<And>x. nd_id (tr_node t' x) = nd_id (tr_node t1 x)" for t'
    unfolding same_open_def that t1(2,4) using same kept none u(3) by (auto simp: open_streams_def)
  show ?thesis
  proof (cases "priority \<or> sid \<notin> dom (deps msk t)")
    case True
    let ?v = "upd_node a (\<lambda>n. n\<lparr>nd_weight := w\<rparr>) t1"
    have v: "tree_mid msk a ?v" "deps msk ?v = deps msk u"
      using opened_mid [OF u(2) none ok(4,5), of ?v s] by (simp_all add: t1_def)
    have "nd_id (tr_node ?v a) = sid" using u(3) t1(2) by (simp add: tr_node_upd)
    moreover obtain t' where t': "ngx_http_v2_set_dependency msk a depend e ?v = Some t'" "tree_ok msk t'" "linked t' = insert a (linked ?v)"
        "deps msk t' = rfc_depend (deps msk ?v) (nd_id (tr_node ?v a)) depend e" "\<forall>x. label (tr_node t' x) = label (tr_node ?v x)"
      using set_dependency_tree [OF v(1), of depend e] calculation ok(3) by auto
    moreover have "linked ?v = linked u" by (auto simp: linked_def tr_node_upd t1(1))
    moreover have "nd_stream (tr_node t' x) = nd_stream (tr_node t1 x)" "nd_id (tr_node t' x) = nd_id (tr_node t1 x)" for x
      using same_label [OF t'(5) [rule_format, of x]] by (simp_all add: tr_node_upd)
    ultimately have "open_streams t' = insert a (open_streams t)" "linked t' = insert a (linked u)"
        "same_open t t' \<and> nd_id (tr_node t' a) = sid \<and> nd_stream (tr_node t' a) = Some s"
      using opened [of t'] open_same [of t'] by simp_all
    moreover have "headers_node msk mem sid priority depend e w s t = Some (Some a, t')"
      using True u(1,5) t'(1) t1(1) [of a] by (auto simp: headers_node_def t1_def [symmetric] Let_def linked_def)
    ultimately show ?thesis
      using t'(2,4) v(2) u(4) True cards \<open>nd_id (tr_node ?v a) = sid\<close> by (intro exI [of _ a] exI [of _ t']) auto
  next
    case False
    then have a: "a \<in> linked u" "u = t" using u(5,6) by simp_all
    have wa: "1 \<le> nd_weight (tr_node u a)" "nd_weight (tr_node u a) \<le> 256"
      using a ok(1) by (simp_all add: tree_ok_def tree_with_def weights_ok_def)
    have "upd_node a (\<lambda>n. n\<lparr>nd_weight := nd_weight (tr_node u a)\<rparr>) t1 = t1"
      by (rule upd_node_id) (simp add: t1(3) [symmetric])
    then have "tree_mid msk a t1" "deps msk t1 = deps msk u"
      using opened_mid [OF u(2) none wa, of t1 s] by (simp_all add: t1_def)
    then have "tree_ok msk t1" "deps msk t1 = deps msk t" using mid_linked [of msk a t1] linked1 a by simp_all
    moreover have "headers_node msk mem sid priority depend e w s t = Some (Some a, t1)"
      using False u(1) a t1(1) [of a] by (auto simp: headers_node_def t1_def [unfolded a(2), symmetric] Let_def linked_def)
    moreover have "open_streams t1 = insert a (open_streams t)" using a linked1 by (intro opened) (auto simp: insert_absorb)
    ultimately show ?thesis
      using False linked1 a(2) open_same [of t1] by (intro exI [of _ a] exI [of _ t1]) simp
  qed
qed

lemma priority_node_tree:
  assumes ok: "tree_ok msk t" "sid \<noteq> 0" "depend \<noteq> sid" "1 \<le> w" "w \<le> 256"
    and mem: "mem \<or> \<not> tr_closed_nodes t < 32 \<or> sid \<in> dom (deps msk t)"
  shows "\<exists>a t'. priority_node msk mem sid depend e w t = Some (Some a, t') \<and> tree_ok msk t' \<and>
    deps msk t' = rfc_depend (with_room msk t sid) sid depend e \<and> open_streams t' = open_streams t \<and> same_open t t' \<and>
    (card (linked t') \<le> card (linked t) \<or> tr_closed_nodes t < 32 \<and> card (linked t') \<le> Suc (card (linked t)))"
proof -
  obtain a u where u: "ngx_http_v2_get_node_by_id msk mem sid True t = Some (Some a, u)" "has_node msk a u" "nd_id (tr_node u a) = sid"
      "deps msk u = with_room msk t sid"
    and same: "\<And>x. x \<in> linked u \<Longrightarrow> x \<in> linked t \<and> nd_id (tr_node u x) = nd_id (tr_node t x) \<and> nd_stream (tr_node u x) = nd_stream (tr_node t x)"
    and kept: "\<And>x. x \<in> linked t \<Longrightarrow> nd_stream (tr_node t x) \<noteq> None \<Longrightarrow> x \<in> linked u"
    and sa: "nd_stream (tr_node u a) \<noteq> None \<Longrightarrow> a \<in> linked u"
    and cards: "card (insert a (linked u)) \<le> card (linked t) \<or> tr_closed_nodes t < 32 \<and> card (insert a (linked u)) \<le> Suc (card (linked t))"
    by (rule node_for [OF ok(1,2) mem]) blast
  define u1 where "u1 = upd_node a (\<lambda>n. n\<lparr>nd_weight := w\<rparr>) u"
  define v where "v = (if nd_stream (tr_node u a) = None
       then (if par u a = Unlinked then u1\<lparr>tr_closed_nodes := tr_closed_nodes u1 + 1, tr_closed := tr_closed u1 @ [a]\<rparr>
             else u1\<lparr>tr_closed := removeAll a (tr_closed u1) @ [a]\<rparr>)
       else u1)"
  note mid = weighed_mid [OF u(2) ok(4,5) u1_def v_def]
  obtain t' where t': "ngx_http_v2_set_dependency msk a depend e v = Some t'" "tree_ok msk t'" "linked t' = insert a (linked u)"
      "deps msk t' = rfc_depend (with_room msk t sid) sid depend e" "\<forall>x. label (tr_node t' x) = label (tr_node v x)"
    using set_dependency_tree [OF mid(1), of depend e] ok(3) mid(2-4) u(3,4) by auto
  have node: "nd_stream (tr_node t' x) = nd_stream (tr_node u x)" "nd_id (tr_node t' x) = nd_id (tr_node u x)" for x
    using same_label [OF t'(5) [rule_format, of x]] mid(5) by (auto simp: v_def u1_def tr_node_upd)
  then have "open_streams t' = open_streams t"
    using same kept sa unfolding open_streams_def t'(3) by auto
  moreover have "same_open t t'"
    using same kept unfolding same_open_def node open_streams_def by blast
  moreover have "priority_node msk mem sid depend e w t = map_option (Pair (Some a)) (ngx_http_v2_set_dependency msk a depend e v)"
    using u(1) by (auto simp: priority_node_def Let_def u1_def v_def tr_node_upd)
  ultimately show ?thesis
    using t' cards by (intro exI [of _ a] exI [of _ t']) simp
qed

lemma push_node_headers:
  "push_node msk mem True sid parent_sid s t = headers_node msk mem sid True parent_sid False NGX_HTTP_V2_DEFAULT_WEIGHT s t"
  unfolding push_node_def headers_node_def by (simp add: Let_def cong: option.case_cong)

text \<open>An operation that has no memory for a node changes nothing.\<close>

lemma no_node:
  assumes "tree_ok msk t" "sid \<noteq> 0" "\<not> (mem \<or> \<not> tr_closed_nodes t < 32 \<or> sid \<in> dom (deps msk t))"
  shows "headers_node msk mem sid priority depend e w s t = Some (None, t)"
    "priority_node msk mem sid depend e w t = Some (None, t)"
proof -
  have "findable msk t" using assms(1) unfolding tree_ok_def by (rule tree_with_findable)
  then have "\<forall>a \<in> linked t. nd_id (tr_node t a) \<noteq> sid" using deps_dom [of msk t sid] assms(3) by blast
  then have "ngx_http_v2_get_node_by_id msk mem sid True t = Some (None, t)"
    using get_node_tree [OF assms(1,2), of mem] assms(3) by auto
  then show "headers_node msk mem sid priority depend e w s t = Some (None, t)"
    "priority_node msk mem sid depend e w t = Some (None, t)"
    by (simp_all add: headers_node_def priority_node_def)
qed

lemma default_weight: "1 \<le> NGX_HTTP_V2_DEFAULT_WEIGHT" "NGX_HTTP_V2_DEFAULT_WEIGHT \<le> 256"
  by (simp_all add: NGX_HTTP_V2_DEFAULT_WEIGHT_def)

text \<open>The invariant of every tree that a connection reaches, with the bound for its nodes.\<close>

definition tree_inv :: "nat \<Rightarrow> nat \<Rightarrow> 's h2_tree \<Rightarrow> bool" where
  "tree_inv msk lim t \<longleftrightarrow> tree_ok msk t \<and> card (open_streams t) \<le> lim \<and> (lim + 32 < 256 \<longrightarrow> card (linked t) \<le> lim + 32)"

lemma grown:
  assumes "tree_inv msk lim t" "card (open_streams t) \<le> n" "n \<le> lim" "lim + 32 < 256"
    "card (linked t') \<le> card (linked t) \<or> tr_closed_nodes t < 32 \<and> card (linked t') \<le> Suc (card (linked t))"
  shows "card (linked t') \<le> lim + 32"
proof (cases "tr_closed_nodes t < 32")
  case True
  have "length (tr_closed t) < 256" using linked_card [of msk t] assms(1,4) by (simp add: tree_inv_def)
  then have "unat (tr_closed_nodes t) = length (tr_closed t)"
    using assms(1) by (simp add: tree_inv_def tree_ok_def tree_with_def unat_of_nat)
  then have "length (tr_closed t) < 32" using True by (simp add: word_less_nat_alt)
  then show ?thesis using linked_card [of msk t] assms by (auto simp: tree_inv_def)
next
  case False
  then show ?thesis using assms(1,4,5) by (auto simp: tree_inv_def)
qed

lemma tree_inv_reach: "tree_reach msk lim t \<Longrightarrow> tree_inv msk lim t"
proof (induction rule: tree_reach.induct)
  case tree_start
  have "linked (new_tree :: 'a h2_tree) = {}" by (simp add: linked_def new_tree_def blank_node_def)
  then show ?case by (simp add: tree_inv_def tree_ok_empty open_streams_def)
next
  case (tree_headers t sid depend w mem priority e s node t')
  have ok: "tree_ok msk t" using tree_headers by (simp add: tree_inv_def)
  show ?case
  proof (cases "mem \<or> \<not> tr_closed_nodes t < 32 \<or> sid \<in> dom (deps msk t)")
    case True
    obtain a where a: "tree_ok msk t'" "open_streams t' = insert a (open_streams t)"
        "card (linked t') \<le> card (linked t) \<or> tr_closed_nodes t < 32 \<and> card (linked t') \<le> Suc (card (linked t))"
      using headers_node_tree [OF ok tree_headers(2-6) True, of priority e s] tree_headers(8) by auto
    have "card (open_streams t') \<le> Suc (card (open_streams t))" unfolding a(2) by (simp add: card_insert_le_m1 card_insert_if)
    then show ?thesis
      using grown [OF tree_headers.IH _ order_refl _ a(3)] tree_headers(7) a(1) by (auto simp: tree_inv_def)
  next
    case False
    then show ?thesis using no_node [OF ok tree_headers(2) False] tree_headers by simp
  qed
next
  case (tree_priority t sid depend w mem e node t')
  have ok: "tree_ok msk t" using tree_priority by (simp add: tree_inv_def)
  show ?case
  proof (cases "mem \<or> \<not> tr_closed_nodes t < 32 \<or> sid \<in> dom (deps msk t)")
    case True
    have a: "tree_ok msk t'" "open_streams t' = open_streams t"
        "card (linked t') \<le> card (linked t) \<or> tr_closed_nodes t < 32 \<and> card (linked t') \<le> Suc (card (linked t))"
      using priority_node_tree [OF ok tree_priority(2-5) True, of e] tree_priority(6) by auto
    then show ?thesis
      using grown [OF tree_priority.IH _ order_refl _ a(3)] tree_priority.IH by (auto simp: tree_inv_def)
  next
    case False
    then show ?thesis using no_node [OF ok tree_priority(2) False] tree_priority by simp
  qed
next
  case (tree_push t sid parent_sid mem s node t')
  have ok: "tree_ok msk t" using tree_push by (simp add: tree_inv_def)
  show ?case
  proof (cases "mem \<or> \<not> tr_closed_nodes t < 32 \<or> sid \<in> dom (deps msk t)")
    case True
    obtain a where a: "tree_ok msk t'" "open_streams t' = insert a (open_streams t)"
        "card (linked t') \<le> card (linked t) \<or> tr_closed_nodes t < 32 \<and> card (linked t') \<le> Suc (card (linked t))"
      using headers_node_tree [OF ok tree_push(2,3) default_weight tree_push(4) True, of True False s] tree_push(6)
      by (auto simp: push_node_headers)
    have "card (open_streams t') \<le> Suc (card (open_streams t))" unfolding a(2) by (simp add: card_insert_le_m1 card_insert_if)
    then show ?thesis
      using grown [OF tree_push.IH _ order_refl _ a(3)] tree_push(5) a(1) by (auto simp: tree_inv_def)
  next
    case False
    then show ?thesis using no_node [OF ok tree_push(2) False] tree_push by (simp add: push_node_headers)
  qed
next
  case (tree_close t sid a)
  have ok: "tree_ok msk t" using tree_close by (simp add: tree_inv_def)
  then have "a \<in> linked t" using tree_close(2) find_node_iff [of msk t sid] by (auto simp: tree_ok_def tree_with_def)
  note closed = close_node_tree [OF ok this tree_close(3)]
  have "open_streams (close_node a t) \<subseteq> open_streams t"
    by (auto simp: open_streams_def closed(3)) (auto simp: close_node_def tr_node_upd split: if_splits)
  then have "card (open_streams (close_node a t)) \<le> card (open_streams t)"
    using open_card [of t] ok by (simp add: card_mono tree_ok_def tree_with_def)
  then show ?case using tree_close.IH closed by (auto simp: tree_inv_def)
qed

text \<open>No stream depends on itself, by way of others.\<close>

lemma tree_acyclic:
  assumes "tree_ok msk t"
  shows "acyclic (depends_on (deps msk t))"
proof -
  have tw: "tree_with msk {} t" using assms by (simp add: tree_ok_def)
  have t: "forest t" "ranked t" using tw by (simp_all add: tree_with_def)
  note fnd = tree_with_findable [OF tw]
  define h where "h sid = (case find_node msk t sid of Some a \<Rightarrow> rank t a | None \<Rightarrow> 0)" for sid
  have find_id: "find_node msk t (nd_id (tr_node t a)) = Some a" if "a \<in> linked t" for a
    using that find_node_iff [of msk t] tw by (simp add: tree_with_def)
  have "h y < h x" if xy: "(x, y) \<in> depends_on (deps msk t)" for x y
  proof -
    obtain a where a: "a \<in> linked t" "nd_id (tr_node t a) = x" "y = ref_id t (par t a)"
      using xy deps_iff [OF fnd] by (auto simp: depends_on_def)
    have x: "h x = rank t a" using find_id [OF a(1)] a(2) by (simp add: h_def)
    show ?thesis
    proof (cases "par t a")
      case (Node p)
      have "p \<in> linked t" by (rule forest_linked [OF t(1) Node])
      then have "h y = rank t p" using find_id a(3) Node by (simp add: h_def ref_id_def)
      then show ?thesis using x ranked_less [OF t Node] by simp
    next
      case Root
      have "find_node msk t 0 \<noteq> Some b" for b
        using find_node_iff [of msk t 0 b] tw unfolding tree_with_def indexed_def by blast
      then have "find_node msk t 0 = None" by (metis not_None_eq)
      then have "h y = 0" using a(3) Root by (simp add: h_def ref_id_def)
      then show ?thesis using x t(2) a(1) by (simp add: ranked_def)
    qed (use a(1) in \<open>simp add: linked_def\<close>)
  qed
  note step = this
  have "h y < h x" if "(x, y) \<in> (depends_on (deps msk t))\<^sup>+" for x y
    using that by (induction rule: trancl_induct) (auto dest: step)
  then show ?thesis by (fastforce simp: acyclic_def)
qed

section \<open>Properties\<close>




text \<open>C4: the memory for nodes is bounded: with at most \<open>lim\<close> open streams there are never more than \<open>lim + 32\<close> nodes, as
  long as the counter of closed nodes does not wrap around (\<open>lim\<close> below 224).\<close>

theorem h2_nodes_bounded:
  assumes "tree_reach msk lim t" "lim < 224"
  shows "card (live t) \<le> lim + 32"
  using tree_inv_reach [OF assms(1)] assms(2) by (simp add: tree_inv_def tree_ok_def tree_with_def)


section \<open>Witnesses\<close>

text \<open>Two streams, the second below the first.\<close>

definition two_streams :: "unit h2_tree" where
  "two_streams =
     snd (the (headers_node 31 True 3 True 1 False 32 () (snd (the (headers_node 31 True 1 False 0 False 16 () new_tree)))))"

lemma reach_two_streams: "tree_reach 31 8 two_streams"
proof -
  let ?t1 = "snd (the (headers_node 31 True 1 False 0 False 16 () (new_tree :: unit h2_tree)))"
  have "card (open_streams (new_tree :: unit h2_tree)) < 8" "no_stream 31 (new_tree :: unit h2_tree) 1"
    by (simp_all add: open_streams_def linked_def new_tree_def blank_node_def no_stream_def find_node_def)
  moreover obtain a u where 1: "headers_node 31 True 1 False 0 False 16 () (new_tree :: unit h2_tree) = Some (Some a, u)"
      "tree_ok 31 u" "open_streams u = insert a (open_streams (new_tree :: unit h2_tree))"
    using headers_node_tree [of 31 "new_tree :: unit h2_tree" 1 0 16 True False False "()"] tree_ok_empty calculation(2) by auto
  ultimately have "tree_reach 31 8 u" by (intro tree_headers [OF tree_start, of 1 0 16 31 8]) auto
  moreover have "open_streams u = {a}"
    using 1(3) by (simp add: open_streams_def linked_def new_tree_def blank_node_def)
  moreover have "no_stream 31 u 3"
  proof -
    have "no_stream 31 ?t1 3" by code_simp
    then show ?thesis using 1(1) by simp
  qed
  moreover obtain b v where "headers_node 31 True 3 True 1 False 32 () u = Some (Some b, v)"
    using headers_node_tree [OF 1(2), of 3 1 32 True True False "()"] calculation(3) by auto
  moreover from this have "two_streams = v" using 1(1) by (simp add: two_streams_def)
  ultimately show ?thesis by (auto intro!: tree_headers [of 31 8 u 3 1 32])
qed




theorem h2_nodes_bounded_witness: "card (live two_streams) \<le> 40"
  using h2_nodes_bounded [OF reach_two_streams] by simp


end
