(* ===== verification/Spec2Isabelle.thy ===== *)
theory Spec2Isabelle
  imports HpackField HpackTableSpec Sockaddr HttpChunked HttpRequestUri HttpRequestLineSpec
    RoundRobin Shmtx Geo DnsSpec H2TreeSpec
begin

text \<open>
  A verification library for the C program under \<^verbatim>\<open>src/client\<close>, an nginx 1.14 that serves as the
  IPv6 upgrade proxy of this repository.  The other parts of the repository, the administration server in PHP and
  the Python scripts that write configuration files, are not C and not modelled.

  Every definition is a translation of the named C code; integers have the width of the 64-bit
  build wherever a wrap-around can matter, pointers into a buffer are lists of bytes or offsets,
  errors are return codes (\<open>ngx_rc\<close>), \<open>option\<close> values (\<open>None\<close> for \<open>NGX_ERROR\<close>) or a sum.  Logging is
  left out.  Allocations that can fail are parameters (\<open>ok\<close>, \<open>alloc_ok\<close>).

  Theories, in the order of their dependencies.

    \<^item> \<open>Prelude\<close>: the machine types, return codes, strings, bits of bytes, automation for bytes.

    \<^item> \<open>HuffTables\<close>, \<open>HuffCode\<close>, \<open>HuffAutomaton\<close>, \<open>HuffDecode\<close>, \<open>HuffEncode\<close>: the Huffman code of HTTP/2
      (\<^verbatim>\<open>http/v2/ngx_http_v2_huff_encode.c\<close>, \<^verbatim>\<open>ngx_http_v2_huff_decode.c\<close>): the three tables, the
      code that the encoder's table defines (prefix-free and complete up to the end-of-string
      code), what each of the 256 states of the decoder stands for and that every one of the 4096
      transitions respects it, the decoder as the inverse of the code, the encoder with its 64-bit
      accumulator, and the round trip.

    \<^item> \<open>HpackInt\<close>: integers and string literals of HPACK (\<^verbatim>\<open>ngx_http_v2_encode.c\<close> and
      \<open>ngx_http_v2_parse_int\<close> of \<^verbatim>\<open>ngx_http_v2.c\<close>).

    \<^item> \<open>HpackField\<close>: the handlers \<open>ngx_http_v2_state_field_len\<close>, \<open>_huff\<close>, \<open>_raw\<close> and \<open>_skip\<close> of
      \<^verbatim>\<open>ngx_http_v2.c\<close>.  The handlers that follow (\<open>process_header\<close>, saving the state, waiting for a
      continuation frame, closing the connection) are the outcomes \<open>field_result\<close>; the inductive
      relation \<open>field_reach\<close> is what a client can bring about.

    \<^item> \<open>HpackTable\<close>, \<open>HpackTableSpec\<close>: the static and the dynamic table (\<^verbatim>\<open>ngx_http_v2_table.c\<close>), and the
      refinement of the table of RFC 7541 (\<open>dyn_add\<close>, \<open>keep\<close>) by the ring of entries over the
      circular storage; the locale \<open>dynamic_table\<close> states the contract of insertion, size update
      and lookup and its interpretation \<open>ngx_table\<close> discharges it for the code.

    \<^item> \<open>Numbers\<close>: the number parsers and printers of \<^verbatim>\<open>core/ngx_string.c\<close> and the parsers of sizes,
      offsets and time intervals of \<^verbatim>\<open>core/ngx_parse.c\<close>.

    \<^item> \<open>Inet\<close>, \<open>Sockaddr\<close>: text forms of addresses, socket addresses and CIDR blocks of
      \<^verbatim>\<open>core/ngx_inet.c\<close>.

    \<^item> \<open>HttpUri\<close>: the normalisation of request paths, \<open>ngx_http_parse_complex_uri\<close> of
      \<^verbatim>\<open>http/ngx_http_parse.c\<close>, and its specification: percent-decoding followed by resolving the
      segments with a stack.

    \<^item> \<open>HttpRequestLine\<close>, \<open>HttpRequestLineSpec\<close>, \<open>HttpRequestUri\<close>: the parser of request lines and that of paths
      (\<^verbatim>\<open>http/ngx_http_parse.c\<close>), a definition for each state, and \<open>ngx_http_process_request_uri\<close> of
      \<^verbatim>\<open>http/ngx_http_request.c\<close>; lines in pieces, lines by the book, and the way from the request line to the
      normalised path: the invariant \<open>rl_inv\<close> says in every state what the parser knows of the path.

    \<^item> \<open>HttpChunked\<close>: the chunked transfer coding: \<open>ngx_http_parse_chunked\<close>, the filter of request bodies
      (\<^verbatim>\<open>http/ngx_http_request_body.c\<close>) and the filter that writes chunked responses
      (\<^verbatim>\<open>http/modules/ngx_http_chunked_filter_module.c\<close>); round trip in any pieces, size limit and the number
      of bytes the filter asks for.

    \<^item> \<open>RoundRobin\<close>: the balancing of \<^verbatim>\<open>http/ngx_http_upstream_round_robin.c\<close> between peers with weights, limits and
      backup servers; the inductive relation \<open>rr_reach\<close> is what any number of requests can bring about.

    \<^item> \<open>Locks\<close>, \<open>Shmtx\<close>: \<^verbatim>\<open>core/ngx_rwlock.c\<close>, \<^verbatim>\<open>ngx_spinlock.c\<close> and \<^verbatim>\<open>ngx_shmtx.c\<close> as the atomic steps of
      any number of processes.  The locale \<open>lock_protocol\<close> states what makes the steps of a lock exclusive, \<open>live_lock\<close>
      what makes them live; they are interpreted for the three kinds of users.  The mutex with its semaphore
      has an invariant of its own.

    \<^item> \<open>RadixTree\<close>, \<open>RadixTreeSpec\<close>: the radix trees of \<^verbatim>\<open>core/ngx_radix_tree.c\<close> in an explicit memory of nodes, and
      their refinement of maps from prefixes to values; the locale \<open>prefix_map\<close> is the contract that both
      trees (interpretations \<open>radix32\<close> and \<open>radix128\<close>) keep.

    \<^item> \<open>Geo\<close>: the client of that contract, the blocks of networks of \<^verbatim>\<open>http/modules/ngx_http_geo_module.c\<close>,
      from the lines of the configuration to the value for a client.

    \<^item> \<open>Dns\<close>, \<open>DnsSpec\<close>: the messages of \<^verbatim>\<open>core/ngx_resolver.c\<close>: writing queries, names with compression
      pointers, checking a response and reading its answers.  A message is memory that goes on behind its end, so that
      reading too far is visible.

    \<^item> \<open>H2Tree\<close>, \<open>H2TreeSpec\<close>: the dependency tree of HTTP/2 streams (\<open>ngx_http_v2_set_dependency\<close> and what it
      works with in \<^verbatim>\<open>http/v2/ngx_http_v2.c\<close>) in an explicit memory of nodes; the invariant of the states that
      frames, pushes and ends of streams reach (\<open>tree_reach\<close>), and the refinement of maps from streams to the streams
      they depend on, changed as RFC 7540 says (\<open>rfc_depend\<close>, \<open>rfc_forget\<close>).

  Bounds.  No definition uses fuel: the loops recurse on the input or have a measure; three loops of the
  radix trees, the loop that frees nodes and two loops over the names of the resolver, the recursion over
  the children of a stream and the search among its ancestors are \<open>partial_function (option)\<close>, where \<open>None\<close> is a loop that does not end, and
  are shown to end.  The counters
  of the dynamic table are unbounded numbers.  The limit of four octets of an HPACK integer, the
  table size 4096 and the buffer sizes are those of the code.

  Not modelled: event loop, processes, sockets and timers; TLS and the other wrappers of external
  libraries; configuration and module tables; the upstream machinery that is driven by events, except for
  balancing; the resolver's cache and its sending; mail and stream proxies.
\<close>

end
